(* ===== verification/Js_Prelude.thy ===== *)
theory Js_Prelude
  imports Main "HOL-Library.Word"
begin

text \<open>
  The shared vocabulary of the development: JavaScript strings and numbers as the
  modelled sources use them, the result type that carries every \<open>throw\<close>, sequencing of
  fallible state updates, the notion of an output-appending operation that the wasm
  binary writer and its clients are specified with, and the prefix-decoding contract
  (\<open>codec\<close>) that every binary encoding of the backend is proved to satisfy.
\<close>

unbundle bit_operations_syntax

named_theorems outputs_intros \<open>output rules of the writer operations, for composing emitted bytes\<close>
named_theorems enc_simps \<open>equations of the reference encoders\<close>

section \<open>Strings and numbers of the source language\<close>

type_synonym u8 = "8 word"

text \<open>A JavaScript string is a sequence of UTF-16 code units.\<close>

type_synonym jsstr = "16 word list"

definition js :: "string \<Rightarrow> jsstr" where
  "js s = map of_char s"

text \<open>A JavaScript number as the integer writers see it: an integral double, or any
  other number (a fraction, an infinity or NaN), which \<open>Number.isInteger\<close> rejects.\<close>

datatype jsnum = JInt int | JNonInt

text \<open>Decimal rendering of a non-negative integer, as a template literal prints it.\<close>

definition digit :: "nat \<Rightarrow> 16 word" where
  "digit d = of_nat (48 + d)"

fun dec :: "nat \<Rightarrow> jsstr" where
  "dec n = (if n < 10 then [digit n] else dec (n div 10) @ [digit (n mod 10)])"

declare dec.simps [simp del]

text \<open>\<open>Array.prototype.join\<close>.\<close>

fun join :: "jsstr \<Rightarrow> jsstr list \<Rightarrow> jsstr" where
  "join sep [] = []"
| "join sep [x] = x"
| "join sep (x # y # ys) = x @ sep @ join sep (y # ys)"

section \<open>Errors and results\<close>

text \<open>Every \<open>throw\<close> of the modelled sources is one constructor. \<open>TypeErr\<close> stands for the
  error the language itself raises when a property of \<open>undefined\<close> is read, and
  \<open>Diverges\<close> for a loop that does not come to an end.\<close>

datatype err =
    UlebRange jsnum                     \<comment> \<open>bytes.ts: uleb128 out of u32 range\<close>
  | SlebRange jsnum                     \<comment> \<open>bytes.ts: sleb128 out of i32 range\<close>
  | Sleb64Range int                     \<comment> \<open>bytes.ts: sleb128 out of i64 range\<close>
  | RawCharsCast                        \<comment> \<open>code.ts: a raw ref.cast to the flat string type\<close>
  | FlatCrossingMismatch int int        \<comment> \<open>strings.ts: flatten for another module's type\<close>
  | ModuleErr string                    \<comment> \<open>module.ts: a builder misuse, named by its message\<close>
  | EngineErr string                    \<comment> \<open>engine.ts: EngineFormatError, named by its message\<close>
  | Uleb5Range int                      \<comment> \<open>engine.ts: index does not fit a 5-byte LEB\<close>
  | TypeErr
  | Diverges

type_synonym 'a res = "err + 'a"

definition bindR :: "'a res \<Rightarrow> ('a \<Rightarrow> 'b res) \<Rightarrow> 'b res" where
  "bindR r f = (case r of Inl e \<Rightarrow> Inl e | Inr a \<Rightarrow> f a)"

lemma bindR_simps [simp]:
  "bindR (Inl e) f = Inl e"
  "bindR (Inr a) f = f a"
  by (simp_all add: bindR_def)

lemma bindR_eq_Inr [simp]: "bindR r f = Inr b \<longleftrightarrow> (\<exists>a. r = Inr a \<and> f a = Inr b)"
  by (cases r) auto

lemma bindR_assoc: "bindR (bindR r f) g = bindR r (\<lambda>a. bindR (f a) g)"
  by (cases r) auto

lemma bindR_Inr_right [simp]: "bindR r Inr = r"
  by (cases r) auto

lemma bindR_cong [fundef_cong]:
  "r = r' \<Longrightarrow> (\<And>a. r' = Inr a \<Longrightarrow> f a = f' a) \<Longrightarrow> bindR r f = bindR r' f'"
  by (cases r') auto

text \<open>A statement sequence: each operation updates the state or throws, and the first
  throw ends the sequence.\<close>

fun seqs :: "('s \<Rightarrow> 's res) list \<Rightarrow> 's \<Rightarrow> 's res" where
  "seqs [] s = Inr s"
| "seqs (f # fs) s = bindR (f s) (seqs fs)"

lemma seqs_single [simp]: "seqs [f] = f"
  by (rule ext) (simp add: bindR_def split: sum.splits)

lemma seqs_append: "seqs (fs @ gs) s = bindR (seqs fs s) (seqs gs)"
proof (induction fs arbitrary: s)
  case (Cons f fs)
  then show ?case by (cases "f s") simp_all
qed simp

text \<open>A fallible map in source order (\<open>Array.map\<close> with a throwing callback).\<close>

fun mapR :: "('a \<Rightarrow> 'b res) \<Rightarrow> 'a list \<Rightarrow> 'b list res" where
  "mapR f [] = Inr []"
| "mapR f (x # xs) = bindR (f x) (\<lambda>y. bindR (mapR f xs) (\<lambda>ys. Inr (y # ys)))"

lemma mapR_Inr_map: "(\<And>x. x \<in> set xs \<Longrightarrow> f x = Inr (g x)) \<Longrightarrow> mapR f xs = Inr (map g xs)"
  by (induction xs) auto

lemma mapR_length: "mapR f xs = Inr ys \<Longrightarrow> length ys = length xs"
  by (induction xs arbitrary: ys) auto

lemma mapR_nth: "mapR f xs = Inr ys \<Longrightarrow> i < length xs \<Longrightarrow> f (xs ! i) = Inr (ys ! i)"
  by (induction xs arbitrary: ys i) (auto simp: nth_Cons split: nat.split)

section \<open>Concatenation of fallible outputs\<close>

fun catR :: "'o list res list \<Rightarrow> 'o list res" where
  "catR [] = Inr []"
| "catR (r # rs) = bindR r (\<lambda>a. bindR (catR rs) (\<lambda>b. Inr (a @ b)))"

lemma catR_append: "catR (rs @ qs) = bindR (catR rs) (\<lambda>a. bindR (catR qs) (\<lambda>b. Inr (a @ b)))"
  by (induction rs) (simp_all add: bindR_assoc bindR_Inr_right)

lemma catR_map_Inr [simp]: "catR (map (\<lambda>x. Inr (f x)) xs) = Inr (concat (map f xs))"
  by (induction xs) auto

lemma catR_all_Inr:
  "(\<And>x. x \<in> set xs \<Longrightarrow> f x = Inr (g x)) \<Longrightarrow> catR (map f xs) = Inr (concat (map g xs))"
  by (induction xs) auto

section \<open>Operations that append to an output\<close>

text \<open>
  \<open>outputs ok content f r\<close>: on every well-formed state the operation \<open>f\<close> either throws
  the error of \<open>r\<close>, or succeeds, keeps the state well formed and appends exactly the
  output of \<open>r\<close> to the state's content. It relates a concrete, stateful operation to
  its abstract meaning, a fallible output.
\<close>

definition outputs ::
  "('s \<Rightarrow> bool) \<Rightarrow> ('s \<Rightarrow> 'o list) \<Rightarrow> ('s \<Rightarrow> 's res) \<Rightarrow> 'o list res \<Rightarrow> bool" where
  "outputs ok content f r \<longleftrightarrow>
     (\<forall>s. ok s \<longrightarrow>
        (case r of
           Inl e \<Rightarrow> f s = Inl e
         | Inr bs \<Rightarrow> \<exists>s'. f s = Inr s' \<and> ok s' \<and> content s' = content s @ bs))"

lemma outputs_Inr_iff:
  "outputs ok content f (Inr bs) \<longleftrightarrow>
     (\<forall>s. ok s \<longrightarrow> (\<exists>s'. f s = Inr s' \<and> ok s' \<and> content s' = content s @ bs))"
  by (simp add: outputs_def)

lemma outputs_Inl_iff: "outputs ok content f (Inl e) \<longleftrightarrow> (\<forall>s. ok s \<longrightarrow> f s = Inl e)"
  by (simp add: outputs_def)

lemma outputs_bindR:
  assumes "outputs ok content f r"
    and "\<And>a. r = Inr a \<Longrightarrow> outputs ok content g q"
  shows "outputs ok content (\<lambda>s. bindR (f s) g) (bindR r (\<lambda>a. bindR q (\<lambda>b. Inr (a @ b))))"
proof (cases r)
  case (Inl e)
  with assms(1) show ?thesis by (simp add: outputs_Inl_iff)
next
  case (Inr a)
  show ?thesis
  proof (cases q)
    case (Inl e)
    with assms Inr show ?thesis by (fastforce simp: outputs_def)
  next
    case (Inr b)
    with assms \<open>r = Inr a\<close> show ?thesis by (fastforce simp: outputs_Inr_iff)
  qed
qed

lemma outputs_seqs_Nil [outputs_intros]: "outputs ok content (seqs []) (catR [])"
  by (simp add: outputs_def)

lemma outputs_seqs_Cons [outputs_intros]:
  assumes "outputs ok content f r" and "outputs ok content (seqs fs) (catR rs)"
  shows "outputs ok content (seqs (f # fs)) (catR (r # rs))"
proof -
  have "seqs (f # fs) = (\<lambda>s. bindR (f s) (seqs fs))"
    by (rule ext) simp
  then show ?thesis
    using outputs_bindR [OF assms(1), of "seqs fs" "catR rs"] assms(2) by simp
qed

lemma outputs_seqs_map:
  "(\<And>x. x \<in> set xs \<Longrightarrow> outputs ok content (f x) (r x)) \<Longrightarrow>
   outputs ok content (seqs (map f xs)) (catR (map r xs))"
proof (induction xs)
  case Nil
  show ?case by (simp add: outputs_def)
next
  case (Cons x xs)
  then have "outputs ok content (f x) (r x)"
    and "outputs ok content (seqs (map f xs)) (catR (map r xs))"
    by simp_all
  then show ?case
    using outputs_seqs_Cons by (simp only: list.map)
qed

lemma outputs_seqs_append:
  assumes "outputs ok content (seqs fs) (catR rs)" and "outputs ok content (seqs gs) (catR qs)"
  shows "outputs ok content (seqs (fs @ gs)) (catR (rs @ qs))"
proof -
  have "seqs (fs @ gs) = (\<lambda>s. bindR (seqs fs s) (seqs gs))"
    by (rule ext) (rule seqs_append)
  then show ?thesis
    using outputs_bindR [OF assms(1), of "seqs gs" "catR qs"] assms(2)
    by (simp add: catR_append)
qed

lemma outputs_unique:
  assumes "outputs ok content f r" and "outputs ok content f q" and "ok s"
  shows "r = q"
proof (cases r)
  case (Inl e)
  then show ?thesis using assms by (cases q) (auto simp: outputs_def)
next
  case (Inr a)
  then show ?thesis using assms by (cases q) (fastforce simp: outputs_def)+
qed

section \<open>The prefix-decoding contract\<close>

text \<open>Decoding a known number of items, and decoding until the input is used up.\<close>

fun dcd_n :: "(u8 list \<Rightarrow> ('a \<times> u8 list) option) \<Rightarrow> nat \<Rightarrow> u8 list \<Rightarrow> ('a list \<times> u8 list) option" where
  "dcd_n d 0 bs = Some ([], bs)"
| "dcd_n d (Suc n) bs =
     (case d bs of
        None \<Rightarrow> None
      | Some (x, bs') \<Rightarrow> map_option (\<lambda>(xs, r). (x # xs, r)) (dcd_n d n bs'))"

fun dcd_all :: "(u8 list \<Rightarrow> ('a \<times> u8 list) option) \<Rightarrow> nat \<Rightarrow> u8 list \<Rightarrow> 'a list option" where
  "dcd_all d fuel [] = Some []"
| "dcd_all d 0 (b # bs) = None"
| "dcd_all d (Suc fuel) (b # bs) =
     (case d (b # bs) of
        None \<Rightarrow> None
      | Some (x, bs') \<Rightarrow> map_option (Cons x) (dcd_all d fuel bs'))"

text \<open>A counted vector: the element count, then the elements.\<close>

definition enc_vec :: "(nat \<Rightarrow> u8 list res) \<Rightarrow> ('a \<Rightarrow> u8 list res) \<Rightarrow> 'a list \<Rightarrow> u8 list res" where
  "enc_vec cenc enc xs = catR (cenc (length xs) # map enc xs)"

definition dcd_vec ::
  "(u8 list \<Rightarrow> (nat \<times> u8 list) option) \<Rightarrow> (u8 list \<Rightarrow> ('a \<times> u8 list) option) \<Rightarrow>
   u8 list \<Rightarrow> ('a list \<times> u8 list) option" where
  "dcd_vec cdcd d bs = (case cdcd bs of None \<Rightarrow> None | Some (n, r) \<Rightarrow> dcd_n d n r)"

text \<open>
  An encoding and its decoder. \<open>enc\<close> may refuse a value (the writers check ranges); what
  it does write is read back by \<open>dcd\<close>, whatever follows it. Clients get unique
  readability of concatenations and of counted vectors.
\<close>

locale codec =
  fixes enc :: "'a \<Rightarrow> u8 list res"
    and dcd :: "u8 list \<Rightarrow> ('a \<times> u8 list) option"
  assumes dcd_enc: "enc x = Inr bs \<Longrightarrow> dcd (bs @ rest) = Some (x, rest)"
begin

lemma enc_inj: "enc x = Inr bs \<Longrightarrow> enc y = Inr bs \<Longrightarrow> x = y"
  using dcd_enc [of x bs "[]"] dcd_enc [of y bs "[]"] by simp

lemma enc_prefix_free:
  assumes "enc x = Inr a" and "enc y = Inr b" and "a @ r = b @ s"
  shows "x = y \<and> r = s"
  using dcd_enc [OF assms(1), of r] dcd_enc [OF assms(2), of s] assms(3) by simp

lemma dcd_n_enc:
  "catR (map enc xs) = Inr bs \<Longrightarrow> dcd_n dcd (length xs) (bs @ rest) = Some (xs, rest)"
proof (induction xs arbitrary: bs)
  case Nil
  then show ?case by simp
next
  case (Cons x xs)
  then obtain a b where a: "enc x = Inr a" and b: "catR (map enc xs) = Inr b" and "bs = a @ b"
    by auto
  then show ?case
    using dcd_enc [OF a, of "b @ rest"] Cons.IH [OF b] by simp
qed

lemma dcd_all_enc:
  assumes "\<And>x bs. enc x = Inr bs \<Longrightarrow> bs \<noteq> []"
  shows "catR (map enc xs) = Inr bs \<Longrightarrow> length xs \<le> fuel \<Longrightarrow> dcd_all dcd fuel bs = Some xs"
proof (induction xs arbitrary: bs fuel)
  case Nil
  then show ?case by simp
next
  case (Cons x xs)
  then obtain a b where a: "enc x = Inr a" and b: "catR (map enc xs) = Inr b" and bs: "bs = a @ b"
    by auto
  obtain f where f: "fuel = Suc f" using Cons.prems(2) by (cases fuel) auto
  have "dcd bs = Some (x, b)" using dcd_enc [OF a] bs by simp
  moreover have "bs \<noteq> []" using assms [OF a] bs by simp
  ultimately show ?case
    using Cons.IH [OF b, of f] Cons.prems(2) f by (cases bs) auto
qed

end

text \<open>Vectors of a readable element are readable.\<close>

locale vec_codec = cnt: codec cenc cdcd + elt: codec enc dcd
  for cenc :: "nat \<Rightarrow> u8 list res" and cdcd :: "u8 list \<Rightarrow> (nat \<times> u8 list) option"
  and enc :: "'a \<Rightarrow> u8 list res" and dcd :: "u8 list \<Rightarrow> ('a \<times> u8 list) option"
begin

lemma vec_dcd_enc: "enc_vec cenc enc xs = Inr bs \<Longrightarrow> dcd_vec cdcd dcd (bs @ rest) = Some (xs, rest)"
  using cnt.dcd_enc elt.dcd_n_enc [of xs] by (fastforce simp: enc_vec_def dcd_vec_def)

end

sublocale vec_codec \<subseteq> vec: codec "enc_vec cenc enc" "dcd_vec cdcd dcd"
  by unfold_locales (rule vec_dcd_enc)

section \<open>Generic facts\<close>

lemma unat_digit: "d < 10 \<Longrightarrow> unat (digit d) = 48 + d"
  by (simp only: digit_def unat_of_nat) simp

lemma digit_inj: "digit a = digit b \<Longrightarrow> a < 10 \<Longrightarrow> b < 10 \<Longrightarrow> a = b"
  by (metis add_left_imp_eq unat_digit)

lemma dec_not_Nil [simp]: "dec n \<noteq> []"
  by (subst dec.simps) simp

lemma dec_inj: "dec m = dec n \<Longrightarrow> m = n"
proof (induction m arbitrary: n rule: dec.induct)
  case (1 m)
  show ?case
  proof (cases "m < 10 \<or> n < 10")
    case True
    have len1: "length (dec k) = 1 \<longleftrightarrow> k < 10" for k
      by (cases "k < 10") (simp_all add: dec.simps [of k])
    have "length (dec m) = length (dec n)" using "1.prems" by simp
    with True len1 have "m < 10" "n < 10" by metis+
    with "1.prems" show ?thesis
      by (auto simp: dec.simps [of m] dec.simps [of n] dest: digit_inj)
  next
    case False
    then have "dec (m div 10) = dec (n div 10)"
      and "digit (m mod 10) = digit (n mod 10)"
      using "1.prems" dec.simps [of m] dec.simps [of n] by simp_all
    moreover from this(2) have "m mod 10 = n mod 10"
      by (rule digit_inj) simp_all
    ultimately have "m div 10 = n div 10" "m mod 10 = n mod 10"
      using "1.IH" False by simp_all
    then show ?thesis by (metis div_mult_mod_eq)
  qed
qed

lemma dec_digits: "c \<in> set (dec n) \<Longrightarrow> 48 \<le> unat c \<and> unat c \<le> 57"
proof (induction n rule: dec.induct)
  case (1 n)
  show ?case
  proof (cases "n < 10")
    case True
    with "1.prems" show ?thesis by (simp add: dec.simps [of n] unat_digit)
  next
    case False
    with "1.prems" have "c \<in> set (dec (n div 10)) \<or> c = digit (n mod 10)"
      by (auto simp: dec.simps [of n])
    moreover have "n mod 10 < 10" by simp
    ultimately show ?thesis
      using "1.IH" False unat_digit [of "n mod 10"] by fastforce
  qed
qed

text \<open>Splitting at the first separator, and injectivity of \<open>join\<close> on parts free of it.\<close>

lemma append_sep_inj:
  assumes "c \<notin> set x" and "c \<notin> set y" and "x @ c # r = y @ c # s"
  shows "x = y \<and> r = s"
proof -
  have "takeWhile (\<lambda>d. d \<noteq> c) (x @ c # r) = x" "takeWhile (\<lambda>d. d \<noteq> c) (y @ c # s) = y"
    using assms(1,2) by (simp_all add: takeWhile_append)
  with assms(3) show ?thesis by simp
qed

lemma join_sep_free: "c \<in> set (join [d] xs) \<Longrightarrow> c = d \<or> (\<exists>x \<in> set xs. c \<in> set x)"
  by (induction "[d]" xs rule: join.induct) auto

lemma join_inj:
  assumes "\<And>x. x \<in> set xs \<union> set ys \<Longrightarrow> c \<notin> set x \<and> x \<noteq> []" and "join [c] xs = join [c] ys"
  shows "xs = ys"
  using assms
proof (induction xs arbitrary: ys)
  case Nil
  then show ?case by (induction "[c]" ys rule: join.induct) auto
next
  case (Cons x xs)
  note prems = Cons.prems
  show ?case
  proof (cases ys)
    case Nil
    with prems show ?thesis by (cases xs) auto
  next
    case (Cons y ys')
    note ys = this
    show ?thesis
    proof (cases xs)
      case Nil
      then have "c \<notin> set (join [c] ys)" using prems by auto
      then have "ys' = []" using ys by (cases ys') auto
      with Nil ys prems(2) show ?thesis by simp
    next
      case (Cons x' xs')
      note xs = this
      then have "c \<in> set (join [c] ys)" using prems(2) by (metis UnCI join.simps(3) list.set_intros(1) set_append append_Cons)
      then obtain y' ys'' where ys': "ys' = y' # ys''" using ys prems(1) by (cases ys') auto
      have eq: "x @ c # join [c] xs = y @ c # join [c] ys'"
        using prems(2) xs ys ys' by simp
      have "c \<notin> set x" "c \<notin> set y" using prems(1) ys by simp_all
      from append_sep_inj [OF this eq] have "x = y" "join [c] xs = join [c] ys'" by simp_all
      moreover from Cons.IH [OF _ this(2)] have "xs = ys'" using prems(1) ys by simp
      ultimately show ?thesis using ys by simp
    qed
  qed
qed

end
