(* ===== verification/Wasm_Bytes.thy ===== *)
theory Wasm_Bytes
  imports Js_Prelude
begin

text \<open>
  The wasm binary's primitive encodings (\<open>backend/wasm/bytes.ts\<close>): the growable byte
  buffer of \<open>ByteWriter\<close>, its LEB128, f64, name and framing writers, and their
  refinement to reference encoders. The reference decoders at the end are those of the
  wasm binary format; the writers are proved to be read back by them.
\<close>

section \<open>ByteWriter\<close>

record byte_writer =
  buf :: "u8 list"
  len :: nat

definition new_writer :: byte_writer where
  "new_writer = \<lparr>buf = replicate 256 0, len = 0\<rparr>"

definition bytes :: "byte_writer \<Rightarrow> u8 list" where
  "bytes w = take (len w) (buf w)"

text \<open>The doubling loop of \<open>grow\<close>. With capacity 0 the source would loop forever; the
  invariant below keeps the capacity at 256 or more, so the guard never decides.\<close>

function grow_cap :: "nat \<Rightarrow> nat \<Rightarrow> nat" where
  "grow_cap cap need = (if 0 < cap \<and> cap < need then grow_cap (cap * 2) need else cap)"
  by pat_completeness auto
termination
  by (relation "measure (\<lambda>(cap, need). need - cap)") auto

declare grow_cap.simps [simp del]

text \<open>\<open>grow\<close>: the old contents up to \<open>len\<close> are copied into a zeroed buffer.\<close>

definition grow :: "nat \<Rightarrow> byte_writer \<Rightarrow> byte_writer" where
  "grow need w =
     (if len w + need \<le> length (buf w) then w
      else let cap = grow_cap (length (buf w) * 2) (len w + need)
           in w\<lparr>buf := take (len w) (buf w) @ replicate (cap - len w) 0\<rparr>)"

text \<open>\<open>TypedArray.set\<close>: overwrite a stretch of the buffer.\<close>

definition set_at :: "nat \<Rightarrow> u8 list \<Rightarrow> u8 list \<Rightarrow> u8 list" where
  "set_at at bs b = take at b @ bs @ drop (at + length bs) b"

definition u8 :: "int \<Rightarrow> byte_writer \<Rightarrow> byte_writer res" where
  "u8 b w = (let w1 = grow 1 w
             in Inr (w1\<lparr>buf := (buf w1)[len w1 := word_of_int b], len := len w1 + 1\<rparr>))"

definition raw :: "u8 list \<Rightarrow> byte_writer \<Rightarrow> byte_writer res" where
  "raw bs w = (let w1 = grow (length bs) w
               in Inr (w1\<lparr>buf := set_at (len w1) bs (buf w1), len := len w1 + length bs\<rparr>))"

section \<open>LEB128 writers\<close>

function uleb_loop :: "nat \<Rightarrow> byte_writer \<Rightarrow> byte_writer res" where
  "uleb_loop n w =
     (let byte = n AND 0x7f; n' = n div 128;
          byte' = (if n' \<noteq> 0 then byte OR 0x80 else byte)
      in bindR (u8 (int byte') w) (\<lambda>w'. if n' \<noteq> 0 then uleb_loop n' w' else Inr w'))"
  by pat_completeness auto
termination
  by (relation "measure fst") auto

declare uleb_loop.simps [simp del]

definition uleb :: "jsnum \<Rightarrow> byte_writer \<Rightarrow> byte_writer res" where
  "uleb n w =
     (case n of
        JNonInt \<Rightarrow> Inl (UlebRange n)
      | JInt i \<Rightarrow> if i < 0 \<or> i > 0xffffffff then Inl (UlebRange n) else uleb_loop (nat i) w)"

function sleb_loop :: "int \<Rightarrow> byte_writer \<Rightarrow> byte_writer res" where
  "sleb_loop n w =
     (let byte = n AND 0x7f; n' = drop_bit 7 n; signBit = (byte AND 0x40 \<noteq> 0)
      in if n' = 0 \<and> \<not> signBit \<or> n' = -1 \<and> signBit then u8 byte w
         else bindR (u8 (byte OR 0x80) w) (sleb_loop n'))"
  by pat_completeness auto

lemma int_and_127: "(n :: int) AND 127 = n mod 128"
  using take_bit_eq_mask [of 7 n] by (simp add: mask_eq_exp_minus_1 take_bit_eq_mod)

lemma nat_and_127: "(n :: nat) AND 127 = n mod 128"
  using take_bit_eq_mask [of 7 n] by (simp add: mask_eq_exp_minus_1 take_bit_eq_mod)

lemma byte_sign_bit:
  assumes "0 \<le> (b :: int)" and "b < 128"
  shows "b AND 64 \<noteq> 0 \<longleftrightarrow> 64 \<le> b"
proof -
  have "b AND 64 \<noteq> 0 \<longleftrightarrow> bit b 6"
    using and_exp_eq_0_iff_not_bit [of b 6] by simp
  also have "\<dots> \<longleftrightarrow> odd (b div 64)" by (simp add: bit_iff_odd)
  also have "\<dots> \<longleftrightarrow> 64 \<le> b"
  proof (cases "64 \<le> b")
    case True
    then have "b div 64 = 1" using assms by (simp add: div_pos_geq)
    then show ?thesis using True by simp
  next
    case False
    then have "b div 64 = 0" using assms by simp
    then show ?thesis using False by simp
  qed
  finally show ?thesis .
qed

lemma sleb_continues:
  assumes "\<not> (n div 128 = 0 \<and> \<not> 64 \<le> n mod 128 \<or> n div 128 = -1 \<and> 64 \<le> n mod (128 :: int))"
  shows "n < -64 \<or> 64 \<le> n"
  using assms by presburger

termination sleb_loop
proof (relation "measure (\<lambda>(n, w). nat (if 0 \<le> n then n else - n))")
  show "wf (measure (\<lambda>(n, w :: byte_writer). nat (if 0 \<le> n then n else - n)))" by simp
next
  fix n w byte n' signBit w'
  assume "byte = n AND (0x7f :: int)" and n': "n' = drop_bit 7 n"
    and "signBit = (byte AND 0x40 \<noteq> 0)"
    and "\<not> (n' = 0 \<and> \<not> signBit \<or> n' = -1 \<and> signBit)"
  then have "n < -64 \<or> 64 \<le> n"
    using byte_sign_bit [of "n mod 128"] sleb_continues [of n]
    by (simp add: int_and_127 drop_bit_eq_div)
  then have "\<bar>n div 128\<bar> < \<bar>n\<bar>" by linarith
  then show "((n', w'), n, w) \<in> measure (\<lambda>(n, w :: byte_writer). nat (if 0 \<le> n then n else - n))"
    by (auto simp: n' drop_bit_eq_div abs_if)
qed

declare sleb_loop.simps [simp del]

definition sleb :: "jsnum \<Rightarrow> byte_writer \<Rightarrow> byte_writer res" where
  "sleb n w =
     (case n of
        JNonInt \<Rightarrow> Inl (SlebRange n)
      | JInt i \<Rightarrow> if i < -0x80000000 \<or> i > 0x7fffffff then Inl (SlebRange n) else sleb_loop i w)"

text \<open>The BigInt loop of \<open>sleb64\<close> has the same body as that of \<open>sleb\<close>.\<close>

definition sleb64 :: "int \<Rightarrow> byte_writer \<Rightarrow> byte_writer res" where
  "sleb64 n w =
     (if n < -0x8000000000000000 \<or> n > 0x7fffffffffffffff then Inl (Sleb64Range n)
      else sleb_loop n w)"

section \<open>Doubles, names, framing\<close>

text \<open>A double is carried as its 64-bit pattern; \<open>setFloat64\<close> stores it little-endian.\<close>

type_synonym f64 = "64 word"

definition f64_bytes :: "f64 \<Rightarrow> u8 list" where
  "f64_bytes v = map (\<lambda>k. ucast (drop_bit (8 * k) v)) [0..<8]"

definition f64 :: "f64 \<Rightarrow> byte_writer \<Rightarrow> byte_writer res" where
  "f64 v w = (let w1 = grow 8 w
              in Inr (w1\<lparr>buf := set_at (len w1) (f64_bytes v) (buf w1), len := len w1 + 8\<rparr>))"

text \<open>\<open>TextEncoder.encode\<close>: the code units are read as UTF-16, a lone surrogate becomes
  U+FFFD, and each scalar value is written in UTF-8.\<close>

fun utf16_scalars :: "jsstr \<Rightarrow> nat list" where
  "utf16_scalars [] = []"
| "utf16_scalars (c # cs) =
     (let u = unat c in
      if u < 0xd800 \<or> 0xe000 \<le> u then u # utf16_scalars cs
      else if 0xdc00 \<le> u then 0xfffd # utf16_scalars cs
      else (case cs of
              [] \<Rightarrow> [0xfffd]
            | d # ds \<Rightarrow>
                if 0xdc00 \<le> unat d \<and> unat d < 0xe000
                then (0x10000 + (u - 0xd800) * 0x400 + (unat d - 0xdc00)) # utf16_scalars ds
                else 0xfffd # utf16_scalars cs))"

definition utf8_scalar :: "nat \<Rightarrow> u8 list" where
  "utf8_scalar u =
     (if u < 0x80 then [of_nat u]
      else if u < 0x800 then [of_nat (0xc0 + u div 0x40), of_nat (0x80 + u mod 0x40)]
      else if u < 0x10000 then
        [of_nat (0xe0 + u div 0x1000), of_nat (0x80 + u div 0x40 mod 0x40),
         of_nat (0x80 + u mod 0x40)]
      else
        [of_nat (0xf0 + u div 0x40000), of_nat (0x80 + u div 0x1000 mod 0x40),
         of_nat (0x80 + u div 0x40 mod 0x40), of_nat (0x80 + u mod 0x40)])"

definition utf8_encode :: "jsstr \<Rightarrow> u8 list" where
  "utf8_encode s = concat (map utf8_scalar (utf16_scalars s))"

definition name :: "jsstr \<Rightarrow> byte_writer \<Rightarrow> byte_writer res" where
  "name s w =
     (let bs = utf8_encode s in
      bindR (uleb (JInt (int (length bs))) w) (\<lambda>w1. raw bs w1))"

definition framed :: "(byte_writer \<Rightarrow> byte_writer res) \<Rightarrow> byte_writer \<Rightarrow> byte_writer res" where
  "framed body w =
     bindR (body new_writer) (\<lambda>inner.
     bindR (uleb (JInt (int (len inner))) w) (\<lambda>w1. raw (bytes inner) w1))"

definition section_w ::
  "int \<Rightarrow> (byte_writer \<Rightarrow> byte_writer res) \<Rightarrow> byte_writer \<Rightarrow> byte_writer res" where
  "section_w sid body = seqs [u8 sid, framed body]"

section \<open>Reference encoders\<close>

text \<open>What each writer appends, as a function of its argument alone.\<close>

fun leb128 :: "nat \<Rightarrow> u8 list" where
  "leb128 n = (if n < 128 then [of_nat n] else of_nat (n mod 128 + 128) # leb128 (n div 128))"

declare leb128.simps [simp del]

function sleb128 :: "int \<Rightarrow> u8 list" where
  "sleb128 n =
     (if -64 \<le> n \<and> n < 64 then [word_of_int (n mod 128)]
      else word_of_int (n mod 128 + 128) # sleb128 (n div 128))"
  by pat_completeness auto
termination
  by (relation "measure (\<lambda>n. nat \<bar>n\<bar>)") auto

declare sleb128.simps [simp del]

definition enc_uleb :: "jsnum \<Rightarrow> u8 list res" where
  "enc_uleb n =
     (case n of
        JNonInt \<Rightarrow> Inl (UlebRange n)
      | JInt i \<Rightarrow> if i < 0 \<or> i > 0xffffffff then Inl (UlebRange n) else Inr (leb128 (nat i)))"

definition enc_sleb :: "jsnum \<Rightarrow> u8 list res" where
  "enc_sleb n =
     (case n of
        JNonInt \<Rightarrow> Inl (SlebRange n)
      | JInt i \<Rightarrow> if i < -0x80000000 \<or> i > 0x7fffffff then Inl (SlebRange n)
                 else Inr (sleb128 i))"

definition enc_sleb64 :: "int \<Rightarrow> u8 list res" where
  "enc_sleb64 n =
     (if n < -0x8000000000000000 \<or> n > 0x7fffffffffffffff then Inl (Sleb64Range n)
      else Inr (sleb128 n))"

abbreviation enc_nat :: "nat \<Rightarrow> u8 list res" where
  "enc_nat n \<equiv> enc_uleb (JInt (int n))"

abbreviation enc_int :: "int \<Rightarrow> u8 list res" where
  "enc_int i \<equiv> enc_uleb (JInt i)"

definition enc_name :: "jsstr \<Rightarrow> u8 list res" where
  "enc_name s = catR [enc_nat (length (utf8_encode s)), Inr (utf8_encode s)]"

definition enc_framed :: "u8 list res \<Rightarrow> u8 list res" where
  "enc_framed r = bindR r (\<lambda>bs. catR [enc_nat (length bs), Inr bs])"

definition enc_section :: "int \<Rightarrow> u8 list res \<Rightarrow> u8 list res" where
  "enc_section sid r = catR [Inr [word_of_int sid], enc_framed r]"

section \<open>Reference decoders\<close>

fun dcd_uleb :: "u8 list \<Rightarrow> (nat \<times> u8 list) option" where
  "dcd_uleb [] = None"
| "dcd_uleb (b # bs) =
     (if unat b < 128 then Some (unat b, bs)
      else map_option (\<lambda>(v, r). (unat b - 128 + 128 * v, r)) (dcd_uleb bs))"

fun dcd_sleb :: "u8 list \<Rightarrow> (int \<times> u8 list) option" where
  "dcd_sleb [] = None"
| "dcd_sleb (b # bs) =
     (if unat b < 64 then Some (uint b, bs)
      else if unat b < 128 then Some (uint b - 128, bs)
      else map_option (\<lambda>(v, r). (uint b - 128 + 128 * v, r)) (dcd_sleb bs))"

definition le_word :: "u8 list \<Rightarrow> 64 word" where
  "le_word bs = foldr (\<lambda>b acc. push_bit 8 acc OR ucast b) bs 0"

definition dcd_f64 :: "u8 list \<Rightarrow> (f64 \<times> u8 list) option" where
  "dcd_f64 bs = (if length bs < 8 then None else Some (le_word (take 8 bs), drop 8 bs))"

section \<open>The buffer refines an append-only byte list\<close>

definition wf_writer :: "byte_writer \<Rightarrow> bool" where
  "wf_writer w \<longleftrightarrow> len w \<le> length (buf w) \<and> 256 \<le> length (buf w)"

abbreviation writes :: "(byte_writer \<Rightarrow> byte_writer res) \<Rightarrow> u8 list res \<Rightarrow> bool" where
  "writes \<equiv> outputs wf_writer bytes"

lemma wf_new_writer [simp]: "wf_writer new_writer"
  by (simp add: wf_writer_def new_writer_def)

lemma bytes_new_writer [simp]: "bytes new_writer = []"
  by (simp add: bytes_def new_writer_def)

lemma length_bytes [simp]: "wf_writer w \<Longrightarrow> length (bytes w) = len w"
  by (simp add: bytes_def wf_writer_def)

lemma grow_cap_bounds: "0 < cap \<Longrightarrow> cap \<le> grow_cap cap need \<and> need \<le> grow_cap cap need"
proof (induction cap need rule: grow_cap.induct)
  case (1 cap need)
  then show ?case by (subst (1 2) grow_cap.simps) auto
qed

lemma grow_props:
  assumes "wf_writer w"
  shows "len (grow n w) = len w" and "bytes (grow n w) = bytes w"
    and "len w + n \<le> length (buf (grow n w))" and "wf_writer (grow n w)"
proof -
  have pos: "0 < length (buf w) * 2" using assms by (auto simp: wf_writer_def)
  note bounds = grow_cap_bounds [OF pos, of "len w + n"]
  show "len (grow n w) = len w" "bytes (grow n w) = bytes w"
    "len w + n \<le> length (buf (grow n w))" "wf_writer (grow n w)"
    using assms bounds by (auto simp: grow_def Let_def bytes_def wf_writer_def min_def)
qed

lemma writes_raw [outputs_intros]: "writes (raw bs) (Inr bs)"
proof (unfold outputs_Inr_iff, intro allI impI)
  fix w assume w: "wf_writer w"
  note g = grow_props [OF w, of "length bs"]
  show "\<exists>w'. raw bs w = Inr w' \<and> wf_writer w' \<and> bytes w' = bytes w @ bs"
    using g w by (auto simp: raw_def Let_def set_at_def bytes_def wf_writer_def)
qed

lemma writes_u8 [outputs_intros]: "writes (u8 b) (Inr [word_of_int b])"
proof (unfold outputs_Inr_iff, intro allI impI)
  fix w assume w: "wf_writer w"
  note g = grow_props [OF w, of 1]
  have "len (grow 1 w) < length (buf (grow 1 w))" using g by simp
  then show "\<exists>w'. u8 b w = Inr w' \<and> wf_writer w' \<and> bytes w' = bytes w @ [word_of_int b]"
    using g by (auto simp: u8_def Let_def bytes_def wf_writer_def take_Suc_conv_app_nth)
qed

lemma writes_f64 [outputs_intros]: "writes (f64 v) (Inr (f64_bytes v))"
proof -
  have "f64 v = raw (f64_bytes v)"
    by (rule ext) (simp add: f64_def raw_def f64_bytes_def)
  then show ?thesis by (simp add: writes_raw)
qed

text \<open>The contract of a byte sink: one byte and a run of bytes are appended as they are.
  Everything above the buffer rests on these two laws only.\<close>

locale byte_sink =
  fixes ok :: "'s \<Rightarrow> bool" and content :: "'s \<Rightarrow> u8 list"
    and put :: "int \<Rightarrow> 's \<Rightarrow> 's res" and puts :: "u8 list \<Rightarrow> 's \<Rightarrow> 's res"
  assumes put_out: "outputs ok content (put b) (Inr [word_of_int b])"
    and puts_out: "outputs ok content (puts bs) (Inr bs)"
begin

lemma put_list_out: "outputs ok content (seqs (map put bs)) (Inr (map word_of_int bs))"
proof -
  have "outputs ok content (seqs (map put bs)) (catR (map (\<lambda>b. Inr [word_of_int b]) bs))"
    by (rule outputs_seqs_map) (rule put_out)
  moreover have "concat (map (\<lambda>b. [word_of_int b :: u8]) bs) = map word_of_int bs"
    by (induction bs) simp_all
  ultimately show ?thesis by simp
qed

lemma puts_eq_put_list:
  assumes "ok s"
  shows "\<exists>s1 s2. puts (map word_of_int bs) s = Inr s1 \<and> seqs (map put bs) s = Inr s2
    \<and> content s1 = content s2"
  using puts_out [of "map word_of_int bs"] put_list_out [of bs] assms
  by (fastforce simp: outputs_Inr_iff)

end

interpretation bw: byte_sink wf_writer bytes u8 raw
  by unfold_locales (rule writes_u8 writes_raw)+

section \<open>The writers produce their reference encodings\<close>

lemma or_128_nat: "(b :: nat) < 128 \<Longrightarrow> b OR 128 = b + 128"
  using and_exp_eq_0_iff_not_bit [of b 7]
  by (simp add: bit_iff_odd disjunctive_add_eq_or)

lemma or_128_int: "0 \<le> (b :: int) \<Longrightarrow> b < 128 \<Longrightarrow> b OR 128 = b + 128"
  using and_exp_eq_0_iff_not_bit [of b 7]
  by (simp add: bit_iff_odd disjunctive_add_eq_or)

lemma uleb_loop_unfold:
  "uleb_loop n =
     (if n < 128 then u8 (int n)
      else (\<lambda>w. bindR (u8 (int (n mod 128 + 128)) w) (uleb_loop (n div 128))))"
  by (rule ext, subst uleb_loop.simps)
    (auto simp: Let_def nat_and_127 or_128_nat div_eq_0_iff)

lemma writes_uleb_loop: "writes (uleb_loop n) (Inr (leb128 n))"
proof (induction n rule: leb128.induct)
  case (1 n)
  show ?case
  proof (cases "n < 128")
    case True
    then show ?thesis
      using writes_u8 [of "int n"] by (simp add: uleb_loop_unfold [of n] leb128.simps [of n])
  next
    case False
    have "writes (\<lambda>w. bindR (u8 (int (n mod 128 + 128)) w) (uleb_loop (n div 128)))
        (bindR (Inr [word_of_int (int (n mod 128 + 128))])
          (\<lambda>a. bindR (Inr (leb128 (n div 128))) (\<lambda>b. Inr (a @ b))))"
      by (rule outputs_bindR [OF writes_u8]) (rule "1.IH" [OF False])
    with False show ?thesis
      by (simp add: uleb_loop_unfold [of n] leb128.simps [of n])
  qed
qed

lemma sleb_stop_iff:
  "(n div 128 = 0 \<and> \<not> 64 \<le> n mod 128 \<or> n div 128 = -1 \<and> 64 \<le> n mod 128) \<longleftrightarrow>
     (-64 \<le> n \<and> n < (64 :: int))"
  by presburger

lemma sleb_loop_unfold:
  "-64 \<le> n \<and> n < 64 \<Longrightarrow> sleb_loop n = u8 (n mod 128)"
  "\<not> (-64 \<le> n \<and> n < 64) \<Longrightarrow>
     sleb_loop n = (\<lambda>w. bindR (u8 (n mod 128 + 128) w) (sleb_loop (n div 128)))"
proof -
  have "(n mod 128 AND 64 \<noteq> 0) = (64 \<le> n mod 128)"
    by (rule byte_sign_bit) simp_all
  then have stop: "(n div 128 = 0 \<and> \<not> n mod 128 AND 64 \<noteq> 0 \<or> n div 128 = -1 \<and> n mod 128 AND 64 \<noteq> 0)
      = (-64 \<le> n \<and> n < 64)"
    using sleb_stop_iff [of n] by simp
  have eq: "sleb_loop n w =
      (if -64 \<le> n \<and> n < 64 then u8 (n mod 128) w
       else bindR (u8 (n mod 128 + 128) w) (sleb_loop (n div 128)))" for w
    unfolding sleb_loop.simps [of n w] Let_def int_and_127 drop_bit_eq_div
    using stop by (auto simp: or_128_int)
  show "-64 \<le> n \<and> n < 64 \<Longrightarrow> sleb_loop n = u8 (n mod 128)"
    "\<not> (-64 \<le> n \<and> n < 64) \<Longrightarrow>
       sleb_loop n = (\<lambda>w. bindR (u8 (n mod 128 + 128) w) (sleb_loop (n div 128)))"
    using eq by (auto simp: fun_eq_iff)
qed

lemma writes_sleb_loop: "writes (sleb_loop n) (Inr (sleb128 n))"
proof (induction n rule: sleb128.induct)
  case (1 n)
  show ?case
  proof (cases "-64 \<le> n \<and> n < 64")
    case True
    then show ?thesis
      using writes_u8 [of "n mod 128"] by (simp add: sleb_loop_unfold(1) sleb128.simps [of n])
  next
    case False
    have "writes (\<lambda>w. bindR (u8 (n mod 128 + 128) w) (sleb_loop (n div 128)))
        (bindR (Inr [word_of_int (n mod 128 + 128)])
          (\<lambda>a. bindR (Inr (sleb128 (n div 128))) (\<lambda>b. Inr (a @ b))))"
      by (rule outputs_bindR [OF writes_u8]) (rule "1.IH" [OF False])
    then show ?thesis
      unfolding sleb_loop_unfold(2) [OF False] by (simp add: sleb128.simps [of n] False)
  qed
qed

lemma writes_uleb [outputs_intros]: "writes (uleb n) (enc_uleb n)"
  using writes_uleb_loop
  by (cases n) (auto simp: outputs_def uleb_def enc_uleb_def)

lemma writes_sleb [outputs_intros]: "writes (sleb n) (enc_sleb n)"
  using writes_sleb_loop
  by (cases n) (auto simp: outputs_def sleb_def enc_sleb_def)

lemma writes_sleb64 [outputs_intros]: "writes (sleb64 n) (enc_sleb64 n)"
  using writes_sleb_loop by (auto simp: outputs_def sleb64_def enc_sleb64_def)

lemma writes_name [outputs_intros]: "writes (name s) (enc_name s)"
proof -
  have "name s = seqs [uleb (JInt (int (length (utf8_encode s)))), raw (utf8_encode s)]"
    by (rule ext) (simp add: name_def Let_def)
  then show ?thesis
    unfolding enc_name_def by (auto intro!: outputs_intros simp del: seqs.simps catR.simps)
qed

lemma writes_framed [outputs_intros]:
  assumes "writes body r"
  shows "writes (framed body) (enc_framed r)"
proof (cases r)
  case (Inl e)
  then have "body new_writer = Inl e" using assms by (simp add: outputs_Inl_iff)
  with Inl show ?thesis by (simp add: outputs_Inl_iff framed_def enc_framed_def)
next
  case (Inr bs)
  then obtain v where v: "body new_writer = Inr v" "wf_writer v" "bytes v = bs"
    using assms by (auto simp: outputs_Inr_iff dest: spec [of _ new_writer])
  then have "framed body = seqs [uleb (JInt (int (length bs))), raw bs]"
    using length_bytes [of v] by (auto simp: framed_def fun_eq_iff)
  then show ?thesis
    unfolding enc_framed_def Inr bindR_simps
    by (auto intro!: outputs_intros simp del: seqs.simps catR.simps)
qed

lemma writes_section [outputs_intros]:
  "writes body r \<Longrightarrow> writes (section_w sid body) (enc_section sid r)"
  unfolding section_w_def enc_section_def
  by (auto intro!: outputs_intros simp del: seqs.simps catR.simps)

section \<open>Round trips and sizes\<close>

lemma dcd_leb128: "dcd_uleb (leb128 n @ r) = Some (n, r)"
proof (induction n rule: leb128.induct)
  case (1 n)
  show ?case
  proof (cases "n < 128")
    case True
    then show ?thesis by (simp add: leb128.simps [of n] unat_of_nat)
  next
    case False
    have "unat (of_nat (n mod 128 + 128) :: u8) = n mod 128 + 128"
      by (simp only: unat_of_nat) simp
    with False "1.IH" show ?thesis
      by (simp add: leb128.simps [of n] del: of_nat_add)
  qed
qed

lemma dcd_sleb128: "dcd_sleb (sleb128 n @ r) = Some (n, r)"
proof (induction n rule: sleb128.induct)
  case (1 n)
  show ?case
  proof (cases "-64 \<le> n \<and> n < 64")
    case True
    have u: "uint (word_of_int (n mod 128) :: u8) = n mod 128"
      by (simp add: uint_word_of_int)
    then have "unat (word_of_int (n mod 128) :: u8) = nat (n mod 128)"
      by (simp add: unat_eq_nat_uint)
    moreover have "n mod 128 < 64 \<and> n mod 128 = n \<or> \<not> n mod 128 < 64 \<and> n mod 128 - 128 = n"
      using True by presburger
    ultimately show ?thesis
      using u True by (auto simp: sleb128.simps [of n] nat_less_iff)
  next
    case False
    have "uint (word_of_int (n mod 128 + 128) :: u8) = n mod 128 + 128"
      by (simp only: uint_word_of_int) simp
    moreover from this have "unat (word_of_int (n mod 128 + 128) :: u8) = nat (n mod 128 + 128)"
      by (simp only: unat_eq_nat_uint)
    moreover have "sleb128 n = word_of_int (n mod 128 + 128) # sleb128 (n div 128)"
      using False by (simp only: sleb128.simps [of n] if_False)
    moreover have "\<not> nat (n mod 128 + 128) < 128" "\<not> nat (n mod 128 + 128) < 64"
      by (simp_all add: nat_less_iff)
    ultimately show ?thesis
      using "1.IH" [OF False] by (simp only: append_Cons dcd_sleb.simps if_False) simp
  qed
qed

lemma le_word_step:
  "push_bit 8 (drop_bit (8 * Suc i) v) OR ucast (ucast (drop_bit (8 * i) v) :: u8)
     = drop_bit (8 * i) (v :: 64 word)"
  by (rule bit_word_eqI) (auto simp: bit_simps add.commute add.left_commute)

lemma le_word_bytes:
  "i \<le> 8 \<Longrightarrow> le_word (map (\<lambda>k. ucast (drop_bit (8 * k) v)) [i..<8]) = drop_bit (8 * i) v"
proof (induction "8 - i" arbitrary: i)
  case 0
  then have "i = 8" by simp
  then show ?case by (auto simp: le_word_def intro!: bit_word_eqI simp: bit_simps dest: bit_imp_le_length)
next
  case (Suc n)
  then have "i < 8" and IH: "le_word (map (\<lambda>k. ucast (drop_bit (8 * k) v)) [Suc i..<8]) = drop_bit (8 * Suc i) v"
    by (auto simp del: mult_Suc_right)
  then have "[i..<8] = i # [Suc i..<8]" by (simp add: upt_conv_Cons)
  with IH show ?case
    using le_word_step [of i v] by (simp add: le_word_def del: mult_Suc_right)
qed

lemma dcd_f64_bytes: "dcd_f64 (f64_bytes v @ r) = Some (v, r)"
  using le_word_bytes [of 0 v] by (simp add: dcd_f64_def f64_bytes_def)

lemma length_f64_bytes [simp]: "length (f64_bytes v) = 8"
  by (simp add: f64_bytes_def)

lemma length_leb128: "n < 128 ^ k \<Longrightarrow> 0 < k \<Longrightarrow> length (leb128 n) \<le> k"
proof (induction n arbitrary: k rule: leb128.induct)
  case (1 n)
  show ?case
  proof (cases "n < 128")
    case True
    then show ?thesis using "1.prems" by (simp add: leb128.simps [of n])
  next
    case False
    obtain k' where k: "k = Suc k'" using "1.prems"(2) by (cases k) auto
    then have "0 < k'" "n div 128 < 128 ^ k'"
      using "1.prems"(1) False by (cases k', simp_all add: less_mult_imp_div_less mult.commute)
    with "1.IH" [OF False] k False show ?thesis by (simp add: leb128.simps [of n])
  qed
qed

lemma length_sleb128:
  "- (64 * 128 ^ k) \<le> n \<Longrightarrow> n < 64 * 128 ^ k \<Longrightarrow> length (sleb128 n) \<le> Suc k"
proof (induction n arbitrary: k rule: sleb128.induct)
  case (1 n)
  show ?case
  proof (cases "-64 \<le> n \<and> n < 64")
    case True
    then show ?thesis by (simp add: sleb128.simps [of n])
  next
    case False
    then obtain k' where k: "k = Suc k'" using "1.prems" by (cases k) auto
    then have "- (64 * 128 ^ k') \<le> n div 128" "n div 128 < 64 * 128 ^ k'"
      using "1.prems" by (auto simp: div_less_iff_less_mult zdiv_mono1)
    with "1.IH" [OF False] k False show ?thesis by (simp add: sleb128.simps [of n])
  qed
qed

lemma enc_nat_Inr: "enc_nat n = Inr bs \<longleftrightarrow> n < 2 ^ 32 \<and> bs = leb128 n"
  by (auto simp: enc_uleb_def)

lemma enc_int_Inr: "enc_int i = Inr bs \<longleftrightarrow> 0 \<le> i \<and> i < 2 ^ 32 \<and> bs = leb128 (nat i)"
  by (auto simp: enc_uleb_def)

lemma enc_sleb_Inr:
  "enc_sleb (JInt i) = Inr bs \<longleftrightarrow> - (2 ^ 31) \<le> i \<and> i < 2 ^ 31 \<and> bs = sleb128 i"
  by (auto simp: enc_sleb_def)

lemma enc_sleb64_Inr: "enc_sleb64 i = Inr bs \<longleftrightarrow> - (2 ^ 63) \<le> i \<and> i < 2 ^ 63 \<and> bs = sleb128 i"
  by (auto simp: enc_sleb64_def)

interpretation uleb_c: codec "\<lambda>n. enc_nat n" dcd_uleb
  by unfold_locales (auto simp: enc_nat_Inr dcd_leb128)

interpretation sleb_c: codec "\<lambda>i. enc_sleb (JInt i)" dcd_sleb
  by unfold_locales (auto simp: enc_sleb_Inr dcd_sleb128)

interpretation sleb64_c: codec enc_sleb64 dcd_sleb
  by unfold_locales (auto simp: enc_sleb64_Inr dcd_sleb128)

interpretation f64_c: codec "\<lambda>v. Inr (f64_bytes v)" dcd_f64
  by unfold_locales (auto simp: dcd_f64_bytes)

section \<open>The whole writer interface\<close>

text \<open>The calls a client can make on a \<open>ByteWriter\<close>; the callback of \<open>framed\<close> and
  \<open>section\<close> is again a sequence of calls, on the inner writer.\<close>

datatype writer_call =
    CU8 int | CRaw "u8 list" | CUleb jsnum | CSleb jsnum | CSleb64 int | CF64 f64
  | CName jsstr | CFramed "writer_call list" | CSection int "writer_call list"

fun run_call :: "writer_call \<Rightarrow> byte_writer \<Rightarrow> byte_writer res" where
  "run_call (CU8 b) = u8 b"
| "run_call (CRaw bs) = raw bs"
| "run_call (CUleb n) = uleb n"
| "run_call (CSleb n) = sleb n"
| "run_call (CSleb64 n) = sleb64 n"
| "run_call (CF64 v) = f64 v"
| "run_call (CName s) = name s"
| "run_call (CFramed cs) = framed (seqs (map run_call cs))"
| "run_call (CSection sid cs) = section_w sid (seqs (map run_call cs))"

text \<open>The abstract specification: a call denotes the bytes it adds, or its error.\<close>

fun spec_call :: "writer_call \<Rightarrow> u8 list res" where
  "spec_call (CU8 b) = Inr [word_of_int b]"
| "spec_call (CRaw bs) = Inr bs"
| "spec_call (CUleb n) = enc_uleb n"
| "spec_call (CSleb n) = enc_sleb n"
| "spec_call (CSleb64 n) = enc_sleb64 n"
| "spec_call (CF64 v) = Inr (f64_bytes v)"
| "spec_call (CName s) = enc_name s"
| "spec_call (CFramed cs) = enc_framed (catR (map spec_call cs))"
| "spec_call (CSection sid cs) = enc_section sid (catR (map spec_call cs))"

lemma writes_run_call: "writes (run_call c) (spec_call c)"
  by (induction c rule: run_call.induct)
    (auto simp del: seqs.simps intro: outputs_intros outputs_seqs_map)

definition dcd_frame :: "u8 list \<Rightarrow> (u8 list \<times> u8 list) option" where
  "dcd_frame bs =
     (case dcd_uleb bs of
        None \<Rightarrow> None
      | Some (n, r) \<Rightarrow> if length r < n then None else Some (take n r, drop n r))"

lemma dcd_frame_enc:
  "enc_framed (Inr bs) = Inr out \<Longrightarrow> dcd_frame (out @ rest) = Some (bs, rest)"
  by (auto simp: enc_framed_def dcd_frame_def enc_nat_Inr dcd_leb128)

interpretation frame_c: codec "\<lambda>bs. enc_framed (Inr bs)" dcd_frame
  by unfold_locales (rule dcd_frame_enc)

section \<open>Properties\<close>

text \<open>C21. Any sequence of \<open>ByteWriter\<close> calls on a well-formed writer refines the
  append-only byte list: when the abstract outputs of the calls exist, the calls succeed,
  keep the buffer invariant (length within capacity, capacity at least 256) and extend
  the written bytes by exactly those outputs, growth and reallocation included; when a
  call is out of range, the sequence throws the first such error.\<close>

theorem writer_refines_append:
  assumes "wf_writer w"
  shows "case catR (map spec_call cs) of
           Inl e \<Rightarrow> seqs (map run_call cs) w = Inl e
         | Inr bs \<Rightarrow> \<exists>w'. seqs (map run_call cs) w = Inr w' \<and> wf_writer w'
                         \<and> bytes w' = bytes w @ bs"
  using outputs_seqs_map [of cs wf_writer bytes run_call spec_call] writes_run_call assms
  by (simp add: outputs_def)

theorem writer_refines_append_witness:
  "wf_writer new_writer \<and>
   (\<exists>w'. seqs (map run_call [CU8 0x41, CSleb (JInt (-65))]) new_writer = Inr w'
      \<and> wf_writer w' \<and> bytes w' = [0x41, 0xbf, 0x7f])"
  using writer_refines_append [OF wf_new_writer, of "[CU8 0x41, CSleb (JInt (-65))]"]
  by (simp add: enc_sleb_def sleb128.simps [of "-65"] sleb128.simps [of "-1"])

text \<open>C30. The unsigned LEB128 writer: every integer in the u32 range is written in one
  to five bytes that the LEB128 decoder reads back, whatever follows them; every other
  number, a fraction or NaN included, is refused with nothing written.\<close>

theorem uleb_correct:
  assumes "wf_writer w"
  shows "case n of
           JNonInt \<Rightarrow> uleb n w = Inl (UlebRange n)
         | JInt i \<Rightarrow>
             if i < 0 \<or> i > 0xffffffff then uleb n w = Inl (UlebRange n)
             else \<exists>w' bs. uleb n w = Inr w' \<and> bytes w' = bytes w @ bs \<and> wf_writer w'
                    \<and> 1 \<le> length bs \<and> length bs \<le> 5
                    \<and> (\<forall>r. dcd_uleb (bs @ r) = Some (nat i, r))"
proof (cases n)
  case (JInt i)
  show ?thesis
  proof (cases "i < 0 \<or> i > 0xffffffff")
    case False
    then have "length (leb128 (nat i)) \<le> 5"
      by (intro length_leb128) (simp_all add: nat_less_iff)
    moreover have "1 \<le> length (leb128 (nat i))" by (subst leb128.simps) simp
    moreover obtain w' where "uleb n w = Inr w'" "wf_writer w'" "bytes w' = bytes w @ leb128 (nat i)"
      using writes_uleb [of n] assms False JInt by (auto simp: outputs_def enc_uleb_def)
    ultimately show ?thesis using JInt False dcd_leb128 by auto
  qed (simp add: JInt uleb_def)
qed (simp add: uleb_def)

theorem uleb_correct_witness:
  "wf_writer new_writer \<and>
   (\<exists>w' bs. uleb (JInt 300) new_writer = Inr w' \<and> bytes w' = bytes new_writer @ bs \<and> wf_writer w'
      \<and> 1 \<le> length bs \<and> length bs \<le> 5 \<and> (\<forall>r. dcd_uleb (bs @ r) = Some (300, r)))"
  using uleb_correct [OF wf_new_writer, of "JInt 300"] by simp

text \<open>The signed LEB128 writers: every i32 value (every i64 value for \<open>sleb64\<close>) is
  written in at most five (ten) bytes that the signed decoder reads back.\<close>

theorem sleb_roundtrip:
  assumes "wf_writer w"
  shows "(-0x80000000 \<le> i \<and> i \<le> 0x7fffffff \<longrightarrow>
            (\<exists>w' bs. sleb (JInt i) w = Inr w' \<and> bytes w' = bytes w @ bs \<and> length bs \<le> 5
               \<and> (\<forall>r. dcd_sleb (bs @ r) = Some (i, r))))
       \<and> (-0x8000000000000000 \<le> i \<and> i \<le> 0x7fffffffffffffff \<longrightarrow>
            (\<exists>w' bs. sleb64 i w = Inr w' \<and> bytes w' = bytes w @ bs \<and> length bs \<le> 10
               \<and> (\<forall>r. dcd_sleb (bs @ r) = Some (i, r))))"
proof (intro conjI impI)
  assume i: "-0x80000000 \<le> i \<and> i \<le> 0x7fffffff"
  then have "length (sleb128 i) \<le> Suc 4" by (intro length_sleb128) simp_all
  moreover obtain w' where "sleb (JInt i) w = Inr w'" "bytes w' = bytes w @ sleb128 i"
    using writes_sleb [of "JInt i"] assms i by (auto simp: outputs_def enc_sleb_def)
  ultimately show "\<exists>w' bs. sleb (JInt i) w = Inr w' \<and> bytes w' = bytes w @ bs \<and> length bs \<le> 5
               \<and> (\<forall>r. dcd_sleb (bs @ r) = Some (i, r))"
    using dcd_sleb128 by auto
next
  assume i: "-0x8000000000000000 \<le> i \<and> i \<le> 0x7fffffffffffffff"
  then have "length (sleb128 i) \<le> Suc 9" by (intro length_sleb128) simp_all
  moreover obtain w' where "sleb64 i w = Inr w'" "bytes w' = bytes w @ sleb128 i"
    using writes_sleb64 [of i] assms i by (auto simp: outputs_def enc_sleb64_def)
  ultimately show "\<exists>w' bs. sleb64 i w = Inr w' \<and> bytes w' = bytes w @ bs \<and> length bs \<le> 10
               \<and> (\<forall>r. dcd_sleb (bs @ r) = Some (i, r))"
    using dcd_sleb128 by auto
qed

theorem sleb_roundtrip_witness:
  "wf_writer new_writer \<and>
   (\<exists>w' bs. sleb (JInt (-0x80000000)) new_writer = Inr w' \<and> bytes w' = bytes new_writer @ bs
      \<and> length bs \<le> 5 \<and> (\<forall>r. dcd_sleb (bs @ r) = Some (-0x80000000, r)))"
  using sleb_roundtrip [OF wf_new_writer, of "-0x80000000"] by simp

text \<open>Size-prefixed framing: whatever the body writes on its own writer, the framed
  region is read back as exactly those bytes, and what follows it is untouched.\<close>

theorem framed_roundtrip:
  assumes "wf_writer w" and "seqs (map run_call cs) new_writer = Inr inner"
    and "length (bytes inner) < 2 ^ 32"
  shows "\<exists>w' out. framed (seqs (map run_call cs)) w = Inr w' \<and> bytes w' = bytes w @ out
           \<and> (\<forall>r. dcd_frame (out @ r) = Some (bytes inner, r))"
proof -
  have "writes (seqs (map run_call cs)) (catR (map spec_call cs))"
    by (rule outputs_seqs_map) (rule writes_run_call)
  moreover from this have "catR (map spec_call cs) = Inr (bytes inner)"
    using assms(2) by (cases "catR (map spec_call cs)") (auto simp: outputs_def dest!: spec [of _ new_writer])
  ultimately have "writes (framed (seqs (map run_call cs))) (enc_framed (Inr (bytes inner)))"
    using writes_framed by metis
  moreover obtain out where out: "enc_framed (Inr (bytes inner)) = Inr out"
    using assms(3) enc_nat_Inr [of "length (bytes inner)"] by (auto simp: enc_framed_def)
  ultimately obtain w' where "framed (seqs (map run_call cs)) w = Inr w'" "bytes w' = bytes w @ out"
    using assms(1) by (auto simp: outputs_Inr_iff)
  then show ?thesis using frame_c.dcd_enc [OF out] by blast
qed

theorem framed_roundtrip_witness:
  "\<exists>inner w' out. seqs (map run_call [CU8 7, CU8 9]) new_writer = Inr inner
     \<and> framed (seqs (map run_call [CU8 7, CU8 9])) new_writer = Inr w'
     \<and> bytes w' = bytes new_writer @ out
     \<and> dcd_frame (out @ [1]) = Some (bytes inner, [1]) \<and> bytes inner = [7, 9]"
proof -
  obtain inner where inner: "seqs (map run_call [CU8 7, CU8 9]) new_writer = Inr inner"
    "bytes inner = [7, 9]"
    using outputs_seqs_map [of "[CU8 7, CU8 9]" wf_writer bytes run_call spec_call] writes_run_call
    by (auto simp: outputs_Inr_iff dest: spec [of _ new_writer])
  have "length (bytes inner) < 2 ^ 32" using inner(2) by simp
  from framed_roundtrip [OF wf_new_writer inner(1) this] inner show ?thesis by blast
qed

end
