(* ===== verification/Wasm_Types.thy ===== *)
theory Wasm_Types
  imports Wasm_Bytes
begin

text \<open>
  The value and storage types of \<open>backend/wasm/module.ts\<close>, their binary form and the
  strings the builder interns types under. The binary form is prefix-decodable and the
  strings are injective, so two different types are never written or interned alike.
\<close>

type_synonym wop = "byte_writer \<Rightarrow> byte_writer res"

datatype val_type = I32 | I64 | F64 | Ref bool nat  \<comment> \<open>\<open>Ref nullable typeIndex\<close>\<close>

datatype storage_type = SI8 | SI16 | SVal val_type

record field_type =
  storage :: storage_type
  mutable :: bool

fun writeValType :: "val_type \<Rightarrow> wop" where
  "writeValType I32 = u8 0x7f"
| "writeValType I64 = u8 0x7e"
| "writeValType F64 = u8 0x7c"
| "writeValType (Ref nullable typeIndex) =
     seqs [u8 (if nullable then 0x63 else 0x64), sleb (JInt (int typeIndex))]"

fun valTypeKey :: "val_type \<Rightarrow> jsstr" where
  "valTypeKey (Ref nullable typeIndex) =
     js ''ref'' @ (if nullable then js ''?'' else []) @ js '':'' @ dec typeIndex"
| "valTypeKey I32 = js ''i32''"
| "valTypeKey I64 = js ''i64''"
| "valTypeKey F64 = js ''f64''"

fun storageKey :: "storage_type \<Rightarrow> jsstr" where
  "storageKey SI8 = js ''i8''"
| "storageKey SI16 = js ''i16''"
| "storageKey (SVal t) = valTypeKey t"

fun writeStorage :: "storage_type \<Rightarrow> wop" where
  "writeStorage SI8 = u8 0x78"
| "writeStorage SI16 = u8 0x77"
| "writeStorage (SVal t) = writeValType t"

section \<open>Binary form\<close>

fun enc_valtype :: "val_type \<Rightarrow> u8 list res" where
  "enc_valtype I32 = Inr [0x7f]"
| "enc_valtype I64 = Inr [0x7e]"
| "enc_valtype F64 = Inr [0x7c]"
| "enc_valtype (Ref nullable i) =
     catR [Inr [if nullable then 0x63 else 0x64], enc_sleb (JInt (int i))]"

fun enc_storage :: "storage_type \<Rightarrow> u8 list res" where
  "enc_storage SI8 = Inr [0x78]"
| "enc_storage SI16 = Inr [0x77]"
| "enc_storage (SVal t) = enc_valtype t"

definition dcd_ref :: "bool \<Rightarrow> u8 list \<Rightarrow> (val_type \<times> u8 list) option" where
  "dcd_ref nullable bs =
     (case dcd_sleb bs of
        None \<Rightarrow> None
      | Some (i, r) \<Rightarrow> if i < 0 then None else Some (Ref nullable (nat i), r))"

fun dcd_valtype :: "u8 list \<Rightarrow> (val_type \<times> u8 list) option" where
  "dcd_valtype [] = None"
| "dcd_valtype (b # bs) =
     (if b = 0x7f then Some (I32, bs)
      else if b = 0x7e then Some (I64, bs)
      else if b = 0x7c then Some (F64, bs)
      else if b = 0x63 then dcd_ref True bs
      else if b = 0x64 then dcd_ref False bs
      else None)"

fun dcd_storage :: "u8 list \<Rightarrow> (storage_type \<times> u8 list) option" where
  "dcd_storage [] = None"
| "dcd_storage (b # bs) =
     (if b = 0x78 then Some (SI8, bs)
      else if b = 0x77 then Some (SI16, bs)
      else map_option (\<lambda>(t, r). (SVal t, r)) (dcd_valtype (b # bs)))"

lemma writes_valtype [outputs_intros]: "writes (writeValType t) (enc_valtype t)"
proof (cases t)
  case (Ref nullable i)
  have "writes (seqs [u8 (if nullable then 0x63 else 0x64), sleb (JInt (int i))])
      (catR [Inr [word_of_int (if nullable then 0x63 else 0x64)], enc_sleb (JInt (int i))])"
    by (rule outputs_intros)+
  then show ?thesis by (cases nullable) (simp_all add: Ref)
qed (use writes_u8 [of "0x7f"] writes_u8 [of "0x7e"] writes_u8 [of "0x7c"] in simp_all)

lemma writes_storage [outputs_intros]: "writes (writeStorage s) (enc_storage s)"
  using writes_u8 [of "0x78"] writes_u8 [of "0x77"] writes_valtype by (cases s) auto

lemma dcd_ref_sleb128: "dcd_ref nullable (sleb128 (int i) @ r) = Some (Ref nullable i, r)"
  by (simp add: dcd_ref_def dcd_sleb128)

interpretation valtype_c: codec enc_valtype dcd_valtype
proof unfold_locales
  fix t bs rest
  assume "enc_valtype t = Inr bs"
  then show "dcd_valtype (bs @ rest) = Some (t, rest)"
    by (cases t) (auto simp: enc_sleb_Inr dcd_ref_sleb128)
qed

interpretation storage_c: codec enc_storage dcd_storage
proof unfold_locales
  fix s bs rest
  assume s: "enc_storage s = Inr bs"
  show "dcd_storage (bs @ rest) = Some (s, rest)"
  proof (cases s)
    case (SVal t)
    with s have t: "enc_valtype t = Inr bs" by simp
    then obtain b bs' where "bs = b # bs'" "b \<noteq> 0x78" "b \<noteq> 0x77"
      by (cases t) (auto split: if_splits)
    with valtype_c.dcd_enc [OF t, of rest] SVal show ?thesis by simp
  qed (use s in auto)
qed

section \<open>Keys are injective\<close>

text \<open>A key never contains a separator of the interning strings built from keys:
  the comma of a list, and the dash of a function type's arrow.\<close>

definition comma :: "16 word" where "comma = 44"

definition dash :: "16 word" where "dash = 45"

lemma dec_no_sep: "comma \<notin> set (dec n)" "dash \<notin> set (dec n)"
  using dec_digits [of comma n] dec_digits [of dash n] by (auto simp: comma_def dash_def)

lemma valTypeKey_seps [simp]: "comma \<notin> set (valTypeKey t)" "dash \<notin> set (valTypeKey t)"
  using dec_no_sep by (cases t; force simp: js_def comma_def dash_def)+

lemma storageKey_seps [simp]: "comma \<notin> set (storageKey s)" "dash \<notin> set (storageKey s)"
  using valTypeKey_seps by (cases s; auto simp: js_def comma_def dash_def)+

lemma valTypeKey_not_Nil [simp]: "valTypeKey t \<noteq> []"
  by (cases t) (simp_all add: js_def)

lemma valTypeKey_inj: "valTypeKey s = valTypeKey t \<Longrightarrow> s = t"
  by (cases s; cases t) (auto simp: js_def dest: dec_inj split: if_splits)

lemma packed_key_not_valtype:
  "valTypeKey t \<noteq> [105, 56]" "valTypeKey t \<noteq> [105, 49, 54]"
  by (cases t; simp add: js_def)+

lemma storageKey_inj: "storageKey s = storageKey t \<Longrightarrow> s = t"
  using packed_key_not_valtype packed_key_not_valtype [symmetric]
  by (cases s; cases t) (auto simp: js_def dest: valTypeKey_inj)

end
