(* ===== verification/Wasm_Syntax.thy ===== *)
theory Wasm_Syntax
  imports Wasm_Types
begin

text \<open>
  The instruction grammar of the wasm binary format, restricted to the instructions the
  tier emits: abstract instructions, their byte form, and a decoder that looks at the
  bytes only. It is the specification the instruction emitter (\<open>Wasm_Code\<close>) is held to:
  an emitter operation \<^emph>\<open>emits\<close> an instruction sequence when it writes exactly that
  sequence's bytes, and a decoder recovers the sequence from them.
\<close>

section \<open>Abstract instructions\<close>

text \<open>Immediates are integers as the emitter's callers pass them; a value an encoding
  cannot hold makes the encoding fail as the writer does.\<close>

datatype winstr =
    Plain u8                       \<comment> \<open>an opcode without immediates\<close>
  | Blk u8 "val_type option"       \<comment> \<open>block, loop, if with their block type\<close>
  | Idx u8 int                     \<comment> \<open>one index: branches, calls, locals, globals, ref.func\<close>
  | BrTable "int list" int
  | Mem u8 int int int             \<comment> \<open>opcode, alignment, memory, offset\<close>
  | I32C int
  | I64C int
  | F64C f64
  | RefNull int
  | Gc int "int list"              \<comment> \<open>0xfb, sub-opcode, indices\<close>
  | GcHeap int int                 \<comment> \<open>0xfb, sub-opcode, heap type\<close>
  | Fc int "int list"              \<comment> \<open>0xfc, sub-opcode, indices\<close>

definition idx_ops :: "u8 list" where
  "idx_ops = [0x0c, 0x0d, 0x10, 0x14, 0x20, 0x21, 0x22, 0x23, 0x24, 0x3f, 0x40, 0xd2]"

definition mem_op :: "u8 \<Rightarrow> bool" where
  "mem_op b \<longleftrightarrow> 0x28 \<le> b \<and> b \<le> 0x3e"

text \<open>Opcodes that carry no immediate: control, parametric, numeric (0x45 to 0xc4) and
  the reference tests.\<close>

definition plain_op :: "u8 \<Rightarrow> bool" where
  "plain_op b \<longleftrightarrow>
     b \<in> set [0x00, 0x01, 0x05, 0x0b, 0x0f, 0x1a, 0x1b, 0xd1, 0xd3, 0xd4]
     \<or> 0x45 \<le> b \<and> b \<le> 0xc4"

text \<open>Number of index immediates of a 0xfb or 0xfc sub-opcode.\<close>

definition gc_arity :: "int \<Rightarrow> nat option" where
  "gc_arity sub =
     map_of [(0x00, 1), (0x01, 1), (0x02, 2), (0x05, 2), (0x07, 1), (0x08, 2), (0x09, 2),
             (0x0b, 1), (0x0d, 1), (0x0e, 1), (0x0f, 0), (0x11, 2)] sub"

definition gc_heap :: "int \<Rightarrow> bool" where
  "gc_heap sub \<longleftrightarrow> sub \<in> set [0x14, 0x15, 0x16, 0x17]"

definition fc_arity :: "int \<Rightarrow> nat option" where
  "fc_arity sub = map_of [(2, 0), (7, 0), (8, 2), (10, 2), (11, 1)] sub"

section \<open>Byte form\<close>

definition enc_memarg :: "int \<Rightarrow> int \<Rightarrow> int \<Rightarrow> u8 list res" where
  "enc_memarg align off mem =
     (if mem = 0 then catR [enc_int align, enc_int off]
      else catR [enc_int (align OR 0x40), enc_int mem, enc_int off])"

fun enc_blocktype :: "val_type option \<Rightarrow> u8 list res" where
  "enc_blocktype None = Inr [0x40]"
| "enc_blocktype (Some t) = enc_valtype t"

fun enc_instr :: "winstr \<Rightarrow> u8 list res" where
  "enc_instr (Plain b) = (if plain_op b then Inr [b] else Inl TypeErr)"
| "enc_instr (Blk b t) =
     (if b \<in> set [0x02, 0x03, 0x04] then catR [Inr [b], enc_blocktype t] else Inl TypeErr)"
| "enc_instr (Idx b i) =
     (if b \<in> set idx_ops then catR [Inr [b], enc_int i] else Inl TypeErr)"
| "enc_instr (BrTable ls d) =
     catR ([Inr [0x0e], enc_nat (length ls)] @ map enc_int ls @ [enc_int d])"
| "enc_instr (Mem b align mem off) =
     (if mem_op b \<and> 0 \<le> align \<and> align < 0x40
      then catR [Inr [b], enc_memarg align off mem] else Inl TypeErr)"
| "enc_instr (I32C n) = catR [Inr [0x41], enc_sleb (JInt n)]"
| "enc_instr (I64C n) = catR [Inr [0x42], enc_sleb64 n]"
| "enc_instr (F64C v) = Inr (0x44 # f64_bytes v)"
| "enc_instr (RefNull t) = catR [Inr [0xd0], enc_sleb (JInt t)]"
| "enc_instr (Gc sub is) =
     (if gc_arity sub = Some (length is) then catR (Inr [0xfb] # enc_int sub # map enc_int is)
      else Inl TypeErr)"
| "enc_instr (GcHeap sub t) =
     (if gc_heap sub then catR [Inr [0xfb], enc_int sub, enc_sleb (JInt t)] else Inl TypeErr)"
| "enc_instr (Fc sub is) =
     (if fc_arity sub = Some (length is) then catR (Inr [0xfc] # enc_int sub # map enc_int is)
      else Inl TypeErr)"

section \<open>Decoder\<close>

definition dcd_int :: "u8 list \<Rightarrow> (int \<times> u8 list) option" where
  "dcd_int bs = map_option (\<lambda>(n, r). (int n, r)) (dcd_uleb bs)"

interpretation int_c: codec "\<lambda>i. enc_int i" dcd_int
  by unfold_locales (auto simp: enc_int_Inr dcd_leb128 dcd_int_def)

definition dcd_memarg :: "u8 list \<Rightarrow> ((int \<times> int \<times> int) \<times> u8 list) option" where
  "dcd_memarg bs =
     (case dcd_int bs of
        None \<Rightarrow> None
      | Some (a, r) \<Rightarrow>
          if a < 0x40 then map_option (\<lambda>(off, r). ((a, 0, off), r)) (dcd_int r)
          else (case dcd_int r of
                  None \<Rightarrow> None
                | Some (mem, r) \<Rightarrow>
                    map_option (\<lambda>(off, r). ((a - 0x40, mem, off), r)) (dcd_int r)))"

fun dcd_blocktype :: "u8 list \<Rightarrow> (val_type option \<times> u8 list) option" where
  "dcd_blocktype [] = None"
| "dcd_blocktype (b # bs) =
     (if b = 0x40 then Some (None, bs)
      else map_option (\<lambda>(t, r). (Some t, r)) (dcd_valtype (b # bs)))"

definition dcd_brtable :: "u8 list \<Rightarrow> (winstr \<times> u8 list) option" where
  "dcd_brtable bs =
     (case dcd_uleb bs of
        None \<Rightarrow> None
      | Some (n, r) \<Rightarrow>
          (case dcd_n dcd_int n r of
             None \<Rightarrow> None
           | Some (ls, r) \<Rightarrow> map_option (\<lambda>(d, r). (BrTable ls d, r)) (dcd_int r)))"

definition dcd_gc :: "u8 list \<Rightarrow> (winstr \<times> u8 list) option" where
  "dcd_gc bs =
     (case dcd_int bs of
        None \<Rightarrow> None
      | Some (sub, r) \<Rightarrow>
          if gc_heap sub then map_option (\<lambda>(t, r). (GcHeap sub t, r)) (dcd_sleb r)
          else (case gc_arity sub of
                  None \<Rightarrow> None
                | Some n \<Rightarrow> map_option (\<lambda>(is, r). (Gc sub is, r)) (dcd_n dcd_int n r)))"

definition dcd_fc :: "u8 list \<Rightarrow> (winstr \<times> u8 list) option" where
  "dcd_fc bs =
     (case dcd_int bs of
        None \<Rightarrow> None
      | Some (sub, r) \<Rightarrow>
          (case fc_arity sub of
             None \<Rightarrow> None
           | Some n \<Rightarrow> map_option (\<lambda>(is, r). (Fc sub is, r)) (dcd_n dcd_int n r)))"

fun dcd_instr :: "u8 list \<Rightarrow> (winstr \<times> u8 list) option" where
  "dcd_instr [] = None"
| "dcd_instr (b # bs) =
     (if plain_op b then Some (Plain b, bs)
      else if b \<in> set [0x02, 0x03, 0x04] then map_option (\<lambda>(t, r). (Blk b t, r)) (dcd_blocktype bs)
      else if b \<in> set idx_ops then map_option (\<lambda>(i, r). (Idx b i, r)) (dcd_int bs)
      else if mem_op b then
        map_option (\<lambda>((a, mem, off), r). (Mem b a mem off, r)) (dcd_memarg bs)
      else if b = 0x0e then dcd_brtable bs
      else if b = 0x41 then map_option (\<lambda>(n, r). (I32C n, r)) (dcd_sleb bs)
      else if b = 0x42 then map_option (\<lambda>(n, r). (I64C n, r)) (dcd_sleb bs)
      else if b = 0x44 then map_option (\<lambda>(v, r). (F64C v, r)) (dcd_f64 bs)
      else if b = 0xd0 then map_option (\<lambda>(t, r). (RefNull t, r)) (dcd_sleb bs)
      else if b = 0xfb then dcd_gc bs
      else if b = 0xfc then dcd_fc bs
      else None)"

section \<open>The decoder reads the byte form back\<close>

interpretation blocktype_c: codec enc_blocktype dcd_blocktype
proof unfold_locales
  fix t bs rest
  assume t: "enc_blocktype t = Inr bs"
  show "dcd_blocktype (bs @ rest) = Some (t, rest)"
  proof (cases t)
    case (Some v)
    with t have v: "enc_valtype v = Inr bs" by simp
    then obtain b bs' where "bs = b # bs'" "b \<noteq> 0x40"
      by (cases v) (auto split: if_splits)
    with valtype_c.dcd_enc [OF v, of rest] Some show ?thesis by simp
  qed (use t in auto)
qed

lemma or_64_int: "0 \<le> (b :: int) \<Longrightarrow> b < 64 \<Longrightarrow> b OR 64 = b + 64"
  using and_exp_eq_0_iff_not_bit [of b 6]
  by (simp add: bit_iff_odd disjunctive_add_eq_or)

lemma dcd_memarg_enc:
  assumes "enc_memarg align off mem = Inr bs" and "0 \<le> align" and "align < 0x40"
  shows "dcd_memarg (bs @ rest) = Some ((align, mem, off), rest)"
proof (cases "mem = 0")
  case True
  then obtain a b where a: "enc_int align = Inr a" and b: "enc_int off = Inr b" and "bs = a @ b"
    using assms(1) by (auto simp: enc_memarg_def)
  with int_c.dcd_enc [OF a, of "b @ rest"] int_c.dcd_enc [OF b, of rest] assms(3) True
  show ?thesis by (simp add: dcd_memarg_def)
next
  case False
  then obtain a m b where a: "enc_int (align + 64) = Inr a" and m: "enc_int mem = Inr m"
    and b: "enc_int off = Inr b" and "bs = a @ m @ b"
    using assms by (auto simp: enc_memarg_def or_64_int)
  with int_c.dcd_enc [OF a, of "m @ b @ rest"] int_c.dcd_enc [OF m, of "b @ rest"]
    int_c.dcd_enc [OF b, of rest] assms(2) show ?thesis
    by (simp add: dcd_memarg_def)
qed

lemma dcd_brtable_enc:
  assumes "catR ([enc_nat (length ls)] @ map enc_int ls @ [enc_int d]) = Inr bs"
  shows "dcd_brtable (bs @ rest) = Some (BrTable ls d, rest)"
proof -
  obtain a b c where a: "enc_nat (length ls) = Inr a" and b: "catR (map enc_int ls) = Inr b"
    and c: "enc_int d = Inr c" and "bs = a @ b @ c"
    using assms by (auto simp: catR_append)
  with uleb_c.dcd_enc [OF a, of "b @ c @ rest"] int_c.dcd_n_enc [OF b, of "c @ rest"]
    int_c.dcd_enc [OF c, of rest] show ?thesis
    by (simp add: dcd_brtable_def)
qed

lemma dcd_gc_enc:
  assumes "catR (enc_int sub # map enc_int is) = Inr bs" and "gc_arity sub = Some (length is)"
  shows "dcd_gc (bs @ rest) = Some (Gc sub is, rest)"
proof -
  obtain a b where a: "enc_int sub = Inr a" and b: "catR (map enc_int is) = Inr b" and "bs = a @ b"
    using assms(1) by auto
  moreover have "\<not> gc_heap sub" using assms(2) by (auto simp: gc_heap_def gc_arity_def)
  ultimately show ?thesis
    using int_c.dcd_enc [OF a, of "b @ rest"] int_c.dcd_n_enc [OF b, of rest] assms(2)
    by (simp add: dcd_gc_def)
qed

lemma dcd_gc_heap_enc:
  assumes "catR [enc_int sub, enc_sleb (JInt t)] = Inr bs" and "gc_heap sub"
  shows "dcd_gc (bs @ rest) = Some (GcHeap sub t, rest)"
proof -
  obtain a b where a: "enc_int sub = Inr a" and b: "enc_sleb (JInt t) = Inr b" and "bs = a @ b"
    using assms(1) by auto
  with int_c.dcd_enc [OF a, of "b @ rest"] sleb_c.dcd_enc [OF b, of rest] assms(2)
  show ?thesis by (simp add: dcd_gc_def)
qed

lemma dcd_fc_enc:
  assumes "catR (enc_int sub # map enc_int is) = Inr bs" and "fc_arity sub = Some (length is)"
  shows "dcd_fc (bs @ rest) = Some (Fc sub is, rest)"
proof -
  obtain a b where a: "enc_int sub = Inr a" and b: "catR (map enc_int is) = Inr b" and "bs = a @ b"
    using assms(1) by auto
  then show ?thesis
    using int_c.dcd_enc [OF a, of "b @ rest"] int_c.dcd_n_enc [OF b, of rest] assms(2)
    by (simp add: dcd_fc_def)
qed

text \<open>The opcode classes are disjoint.\<close>

lemma idx_op_other: "b \<in> set idx_ops \<Longrightarrow> \<not> plain_op b \<and> b \<notin> set [0x02, 0x03, 0x04]"
  by (auto simp: idx_ops_def plain_op_def)

lemma mem_op_other:
  assumes "mem_op b"
  shows "\<not> plain_op b" and "b \<notin> set [0x02, 0x03, 0x04]" and "b \<notin> set idx_ops"
proof -
  have "40 \<le> unat b" "unat b \<le> 62"
    using assms by (simp_all add: mem_op_def word_le_nat_alt)
  then show "\<not> plain_op b" "b \<notin> set [0x02, 0x03, 0x04]" "b \<notin> set idx_ops"
    by (auto simp: idx_ops_def plain_op_def word_le_nat_alt)
qed

lemma dcd_instr_enc: "enc_instr i = Inr bs \<Longrightarrow> dcd_instr (bs @ rest) = Some (i, rest)"
proof (cases i)
  case (Blk b t)
  moreover assume "enc_instr i = Inr bs"
  ultimately obtain a where "enc_blocktype t = Inr a" "bs = b # a" "b \<in> set [0x02, 0x03, 0x04]"
    by (auto split: if_splits)
  then show ?thesis
    using blocktype_c.dcd_enc [of t a rest] Blk by (auto simp: plain_op_def)
next
  case (Idx b x)
  moreover assume "enc_instr i = Inr bs"
  ultimately obtain a where "enc_int x = Inr a" "bs = b # a" "b \<in> set idx_ops"
    by (auto split: if_splits)
  then show ?thesis
    using int_c.dcd_enc [of x a rest] Idx idx_op_other [of b] by simp
next
  case (Mem b align mem off)
  moreover assume "enc_instr i = Inr bs"
  ultimately obtain a where "enc_memarg align off mem = Inr a" "bs = b # a" "mem_op b"
    "0 \<le> align" "align < 0x40"
    by (auto split: if_splits)
  then show ?thesis
    using dcd_memarg_enc [of align off mem a rest] Mem mem_op_other [of b] by simp
next
  case (BrTable ls d)
  moreover assume "enc_instr i = Inr bs"
  ultimately obtain a where "catR ([enc_nat (length ls)] @ map enc_int ls @ [enc_int d]) = Inr a"
    "bs = 0x0e # a"
    by auto
  then show ?thesis
    using dcd_brtable_enc [of ls d a rest] BrTable
    by (simp add: plain_op_def idx_ops_def mem_op_def)
next
  case (Gc sub js)
  moreover assume "enc_instr i = Inr bs"
  ultimately obtain a where "catR (enc_int sub # map enc_int js) = Inr a" "bs = 0xfb # a"
    "gc_arity sub = Some (length js)"
    by (auto split: if_splits)
  then show ?thesis
    using dcd_gc_enc [of sub js a rest] Gc by (simp add: plain_op_def idx_ops_def mem_op_def)
next
  case (GcHeap sub t)
  moreover assume "enc_instr i = Inr bs"
  ultimately obtain a where "catR [enc_int sub, enc_sleb (JInt t)] = Inr a" "bs = 0xfb # a"
    "gc_heap sub"
    by (auto split: if_splits)
  then show ?thesis
    using dcd_gc_heap_enc [of sub t a rest] GcHeap
    by (simp add: plain_op_def idx_ops_def mem_op_def)
next
  case (Fc sub js)
  moreover assume "enc_instr i = Inr bs"
  ultimately obtain a where "catR (enc_int sub # map enc_int js) = Inr a" "bs = 0xfc # a"
    "fc_arity sub = Some (length js)"
    by (auto split: if_splits)
  then show ?thesis
    using dcd_fc_enc [of sub js a rest] Fc by (simp add: plain_op_def idx_ops_def mem_op_def)
qed (auto simp: plain_op_def idx_ops_def mem_op_def sleb_c.dcd_enc sleb64_c.dcd_enc
      dcd_f64_bytes split: if_splits)

lemma enc_instr_not_Nil: "enc_instr i \<noteq> Inr []"
  by (cases i) auto

interpretation instr_c: codec enc_instr dcd_instr
  by unfold_locales (rule dcd_instr_enc)

section \<open>Instruction sequences\<close>

definition enc_instrs :: "winstr list \<Rightarrow> u8 list res" where
  "enc_instrs is = catR (map enc_instr is)"

text \<open>Decodes a whole byte string; \<open>length bs\<close> rounds are enough since every
  instruction takes at least one byte.\<close>

definition dcd_instrs :: "u8 list \<Rightarrow> winstr list option" where
  "dcd_instrs bs = dcd_all dcd_instr (length bs) bs"

lemma enc_instrs_length: "enc_instrs is = Inr bs \<Longrightarrow> length is \<le> length bs"
proof (induction "is" arbitrary: bs)
  case (Cons i "is")
  then obtain a b where "enc_instr i = Inr a" "enc_instrs is = Inr b" "bs = a @ b"
    by (auto simp: enc_instrs_def)
  with Cons.IH [of b] enc_instr_not_Nil [of i] show ?case by (cases a) auto
qed (simp add: enc_instrs_def)

lemma dcd_instrs_enc: "enc_instrs is = Inr bs \<Longrightarrow> dcd_instrs bs = Some is"
  using instr_c.dcd_all_enc enc_instr_not_Nil enc_instrs_length
  unfolding dcd_instrs_def enc_instrs_def by blast

lemma enc_instrs_append:
  "enc_instrs (xs @ ys) = bindR (enc_instrs xs) (\<lambda>a. bindR (enc_instrs ys) (\<lambda>b. Inr (a @ b)))"
  by (simp add: enc_instrs_def catR_append)

end
