(* ===== verification/Wasm_Code.thy ===== *)
theory Wasm_Code
  imports Wasm_Syntax
begin

text \<open>
  The instruction emitter (\<open>backend/wasm/code.ts\<close>): one definition per method of
  \<open>Code\<close>, each a sequence of \<open>ByteWriter\<close> calls, and the two module-level variables
  the methods read (\<open>ourMem\<close>, \<open>charsType\<close>) as an explicit record. Every method is shown
  to emit exactly one instruction of the grammar of \<open>Wasm_Syntax\<close>, or to throw as that
  instruction's byte form does.
\<close>

section \<open>Module-level state\<close>

record code_globals =
  ourMem :: int
  charsType :: "int option"

definition setOurMemoryIndex :: "int \<Rightarrow> code_globals \<Rightarrow> code_globals" where
  "setOurMemoryIndex n g = g\<lparr>ourMem := n\<rparr>"

definition currentOurMemoryIndex :: "code_globals \<Rightarrow> int" where
  "currentOurMemoryIndex g = ourMem g"

definition setCharsType :: "int option \<Rightarrow> code_globals \<Rightarrow> code_globals" where
  "setCharsType t g = g\<lparr>charsType := t\<rparr>"

definition guardChars :: "code_globals \<Rightarrow> int \<Rightarrow> wop" where
  "guardChars g typeIndex w =
     (if charsType g \<noteq> None \<and> charsType g = Some typeIndex then Inl RawCharsCast else Inr w)"

definition ENGINE_MEMORY :: int where
  "ENGINE_MEMORY = 0"

section \<open>Methods with more than straight-line bodies\<close>

definition memarg :: "int \<Rightarrow> int \<Rightarrow> int \<Rightarrow> wop" where
  "memarg align off mem =
     seqs ((if mem = 0 then [uleb (JInt align)]
            else [uleb (JInt (align OR 0x40)), uleb (JInt mem)]) @ [uleb (JInt off)])"

definition ifResult :: "val_type \<Rightarrow> wop" where
  "ifResult t =
     seqs (u8 0x04 #
       (case t of
          I32 \<Rightarrow> [u8 0x7f]
        | I64 \<Rightarrow> [u8 0x7e]
        | F64 \<Rightarrow> [u8 0x7c]
        | Ref nullable typeIndex \<Rightarrow>
            [u8 (if nullable then 0x63 else 0x64), sleb (JInt (int typeIndex))]))"

definition brTable :: "int list \<Rightarrow> int \<Rightarrow> wop" where
  "brTable labels defaultLabel =
     seqs ([u8 0x0e, uleb (JInt (int (length labels)))]
       @ map (\<lambda>l. uleb (JInt l)) labels @ [uleb (JInt defaultLabel)])"

definition castChars :: "int \<Rightarrow> bool \<Rightarrow> wop" where
  "castChars typeIndex nullable =
     seqs [u8 0xfb, uleb (JInt (if nullable then 0x17 else 0x16)), sleb (JInt typeIndex)]"

definition memoryCopy :: "code_globals \<Rightarrow> int option \<Rightarrow> int option \<Rightarrow> wop" where
  "memoryCopy g dst src =
     seqs [u8 0xfc, uleb (JInt 10),
           uleb (JInt (case dst of None \<Rightarrow> ourMem g | Some m \<Rightarrow> m)),
           uleb (JInt (case src of None \<Rightarrow> ourMem g | Some m \<Rightarrow> m))]"

section \<open>Straight-line methods\<close>

definition unreachable :: "wop" where
  "unreachable = u8 0x00"

definition loop :: "wop" where
  "loop = seqs [u8 0x03, u8 0x40]"

definition block :: "wop" where
  "block = seqs [u8 0x02, u8 0x40]"

definition blockF64 :: "wop" where
  "blockF64 = seqs [u8 0x02, u8 0x7c]"

definition select :: "wop" where
  "select = u8 0x1b"

definition ifVoid :: "wop" where
  "ifVoid = seqs [u8 0x04, u8 0x40]"

definition else_i :: "wop" where
  "else_i = u8 0x05"

definition end_i :: "wop" where
  "end_i = u8 0x0b"

definition br :: "int \<Rightarrow> wop" where
  "br depth = seqs [u8 0x0c, uleb (JInt depth)]"

definition brIf :: "int \<Rightarrow> wop" where
  "brIf depth = seqs [u8 0x0d, uleb (JInt depth)]"

definition return_i :: "wop" where
  "return_i = u8 0x0f"

definition call :: "int \<Rightarrow> wop" where
  "call funcIndex = seqs [u8 0x10, uleb (JInt funcIndex)]"

definition callRef :: "int \<Rightarrow> wop" where
  "callRef typeIndex = seqs [u8 0x14, uleb (JInt typeIndex)]"

definition refFunc :: "int \<Rightarrow> wop" where
  "refFunc funcIndex = seqs [u8 0xd2, uleb (JInt funcIndex)]"

definition refCast :: "code_globals \<Rightarrow> int \<Rightarrow> wop" where
  "refCast g typeIndex = seqs [guardChars g typeIndex, u8 0xfb, uleb (JInt 0x16), sleb (JInt typeIndex)]"

definition refCastNull :: "code_globals \<Rightarrow> int \<Rightarrow> wop" where
  "refCastNull g typeIndex = seqs [guardChars g typeIndex, u8 0xfb, uleb (JInt 0x17), sleb (JInt typeIndex)]"

definition refTest :: "int \<Rightarrow> wop" where
  "refTest typeIndex = seqs [u8 0xfb, uleb (JInt 0x14), sleb (JInt typeIndex)]"

definition refTestNull :: "int \<Rightarrow> wop" where
  "refTestNull typeIndex = seqs [u8 0xfb, uleb (JInt 0x15), sleb (JInt typeIndex)]"

definition drop_i :: "wop" where
  "drop_i = u8 0x1a"

definition localGet :: "int \<Rightarrow> wop" where
  "localGet i = seqs [u8 0x20, uleb (JInt i)]"

definition localSet :: "int \<Rightarrow> wop" where
  "localSet i = seqs [u8 0x21, uleb (JInt i)]"

definition globalGet :: "int \<Rightarrow> wop" where
  "globalGet i = seqs [u8 0x23, uleb (JInt i)]"

definition globalSet :: "int \<Rightarrow> wop" where
  "globalSet i = seqs [u8 0x24, uleb (JInt i)]"

definition i32Store8 :: "code_globals \<Rightarrow> wop" where
  "i32Store8 g = seqs [u8 0x3a, memarg 0 0 (ourMem g)]"

definition i32Store16 :: "code_globals \<Rightarrow> wop" where
  "i32Store16 g = seqs [u8 0x3b, memarg 0 0 (ourMem g)]"

definition i32Load16U :: "code_globals \<Rightarrow> wop" where
  "i32Load16U g = seqs [u8 0x2f, memarg 0 0 (ourMem g)]"

definition i32Load8U :: "code_globals \<Rightarrow> wop" where
  "i32Load8U g = seqs [u8 0x2d, memarg 0 0 (ourMem g)]"

definition f64Load :: "code_globals \<Rightarrow> wop" where
  "f64Load g = seqs [u8 0x2b, memarg 0 0 (ourMem g)]"

definition i32Store :: "code_globals \<Rightarrow> wop" where
  "i32Store g = seqs [u8 0x36, memarg 0 0 (ourMem g)]"

definition load8UAt :: "code_globals \<Rightarrow> int \<Rightarrow> wop" where
  "load8UAt g off = seqs [u8 0x2d, memarg 0 off (ourMem g)]"

definition load16UAt :: "code_globals \<Rightarrow> int \<Rightarrow> wop" where
  "load16UAt g off = seqs [u8 0x2f, memarg 0 off (ourMem g)]"

definition load32At :: "code_globals \<Rightarrow> int \<Rightarrow> wop" where
  "load32At g off = seqs [u8 0x28, memarg 0 off (ourMem g)]"

definition store8At :: "code_globals \<Rightarrow> int \<Rightarrow> wop" where
  "store8At g off = seqs [u8 0x3a, memarg 0 off (ourMem g)]"

definition store16At :: "code_globals \<Rightarrow> int \<Rightarrow> wop" where
  "store16At g off = seqs [u8 0x3b, memarg 0 off (ourMem g)]"

definition store32At :: "code_globals \<Rightarrow> int \<Rightarrow> wop" where
  "store32At g off = seqs [u8 0x36, memarg 0 off (ourMem g)]"

definition memoryFill :: "code_globals \<Rightarrow> wop" where
  "memoryFill g = seqs [u8 0xfc, uleb (JInt 11), uleb (JInt (ourMem g))]"

definition memoryInit :: "code_globals \<Rightarrow> int \<Rightarrow> wop" where
  "memoryInit g seg = seqs [u8 0xfc, uleb (JInt 8), uleb (JInt seg), uleb (JInt (ourMem g))]"

definition memorySize :: "code_globals \<Rightarrow> wop" where
  "memorySize g = seqs [u8 0x3f, uleb (JInt (ourMem g))]"

definition memoryGrow :: "code_globals \<Rightarrow> wop" where
  "memoryGrow g = seqs [u8 0x40, uleb (JInt (ourMem g))]"

definition load16UIn :: "int \<Rightarrow> int \<Rightarrow> wop" where
  "load16UIn mem off = seqs [u8 0x2f, memarg 0 off mem]"

definition store16In :: "int \<Rightarrow> int \<Rightarrow> wop" where
  "store16In mem off = seqs [u8 0x3b, memarg 0 off mem]"

definition load8UIn :: "int \<Rightarrow> int \<Rightarrow> wop" where
  "load8UIn mem off = seqs [u8 0x2d, memarg 0 off mem]"

definition load32In :: "int \<Rightarrow> int \<Rightarrow> wop" where
  "load32In mem off = seqs [u8 0x28, memarg 0 off mem]"

definition store8In :: "int \<Rightarrow> int \<Rightarrow> wop" where
  "store8In mem off = seqs [u8 0x3a, memarg 0 off mem]"

definition store32In :: "int \<Rightarrow> int \<Rightarrow> wop" where
  "store32In mem off = seqs [u8 0x36, memarg 0 off mem]"

definition store64In :: "int \<Rightarrow> int \<Rightarrow> wop" where
  "store64In mem off = seqs [u8 0x37, memarg 0 off mem]"

definition i32TruncSatF64S :: "wop" where
  "i32TruncSatF64S = seqs [u8 0xfc, uleb (JInt 2)]"

definition i64TruncSatF64U :: "wop" where
  "i64TruncSatF64U = seqs [u8 0xfc, uleb (JInt 7)]"

definition localTee :: "int \<Rightarrow> wop" where
  "localTee i = seqs [u8 0x22, uleb (JInt i)]"

definition i32Const :: "int \<Rightarrow> wop" where
  "i32Const n = seqs [u8 0x41, sleb (JInt n)]"

definition i64Const :: "int \<Rightarrow> wop" where
  "i64Const n = seqs [u8 0x42, sleb64 n]"

definition f64Const :: "f64 \<Rightarrow> wop" where
  "f64Const v = seqs [u8 0x44, f64 v]"

definition i32Eqz :: "wop" where
  "i32Eqz = u8 0x45"

definition i32Eq :: "wop" where
  "i32Eq = u8 0x46"

definition i32Ne :: "wop" where
  "i32Ne = u8 0x47"

definition i32LtS :: "wop" where
  "i32LtS = u8 0x48"

definition i32LtU :: "wop" where
  "i32LtU = u8 0x49"

definition i32GtS :: "wop" where
  "i32GtS = u8 0x4a"

definition i32GtU :: "wop" where
  "i32GtU = u8 0x4b"

definition i32LeS :: "wop" where
  "i32LeS = u8 0x4c"

definition i32LeU :: "wop" where
  "i32LeU = u8 0x4d"

definition i32GeS :: "wop" where
  "i32GeS = u8 0x4e"

definition i32GeU :: "wop" where
  "i32GeU = u8 0x4f"

definition i64Eqz :: "wop" where
  "i64Eqz = u8 0x50"

definition i64Eq :: "wop" where
  "i64Eq = u8 0x51"

definition i64Ne :: "wop" where
  "i64Ne = u8 0x52"

definition i64LtS :: "wop" where
  "i64LtS = u8 0x53"

definition i64LtU :: "wop" where
  "i64LtU = u8 0x54"

definition i64GtU :: "wop" where
  "i64GtU = u8 0x56"

definition i64LeU :: "wop" where
  "i64LeU = u8 0x58"

definition i64GeS :: "wop" where
  "i64GeS = u8 0x59"

definition i64GeU :: "wop" where
  "i64GeU = u8 0x5a"

definition f64Eq :: "wop" where
  "f64Eq = u8 0x61"

definition f64Ne :: "wop" where
  "f64Ne = u8 0x62"

definition f64Lt :: "wop" where
  "f64Lt = u8 0x63"

definition f64Gt :: "wop" where
  "f64Gt = u8 0x64"

definition f64Le :: "wop" where
  "f64Le = u8 0x65"

definition f64Ge :: "wop" where
  "f64Ge = u8 0x66"

definition i32Add :: "wop" where
  "i32Add = u8 0x6a"

definition i32Sub :: "wop" where
  "i32Sub = u8 0x6b"

definition i32Mul :: "wop" where
  "i32Mul = u8 0x6c"

definition i32DivS :: "wop" where
  "i32DivS = u8 0x6d"

definition i32RemS :: "wop" where
  "i32RemS = u8 0x6f"

definition i32DivU :: "wop" where
  "i32DivU = u8 0x6e"

definition i32RemU :: "wop" where
  "i32RemU = u8 0x70"

definition i32And :: "wop" where
  "i32And = u8 0x71"

definition i32Or :: "wop" where
  "i32Or = u8 0x72"

definition i32Xor :: "wop" where
  "i32Xor = u8 0x73"

definition i32Clz :: "wop" where
  "i32Clz = u8 0x67"

definition i32Shl :: "wop" where
  "i32Shl = u8 0x74"

definition i32ShrS :: "wop" where
  "i32ShrS = u8 0x75"

definition i32ShrU :: "wop" where
  "i32ShrU = u8 0x76"

definition i64Add :: "wop" where
  "i64Add = u8 0x7c"

definition i64Sub :: "wop" where
  "i64Sub = u8 0x7d"

definition i64Mul :: "wop" where
  "i64Mul = u8 0x7e"

definition i64DivU :: "wop" where
  "i64DivU = u8 0x80"

definition i64RemU :: "wop" where
  "i64RemU = u8 0x82"

definition i64And :: "wop" where
  "i64And = u8 0x83"

definition i64Or :: "wop" where
  "i64Or = u8 0x84"

definition i64Xor :: "wop" where
  "i64Xor = u8 0x85"

definition i64Shl :: "wop" where
  "i64Shl = u8 0x86"

definition i64ShrS :: "wop" where
  "i64ShrS = u8 0x87"

definition i64ShrU :: "wop" where
  "i64ShrU = u8 0x88"

definition f64Abs :: "wop" where
  "f64Abs = u8 0x99"

definition f64Neg :: "wop" where
  "f64Neg = u8 0x9a"

definition f64Ceil :: "wop" where
  "f64Ceil = u8 0x9b"

definition f64Floor :: "wop" where
  "f64Floor = u8 0x9c"

definition f64Nearest :: "wop" where
  "f64Nearest = u8 0x9e"

definition f64Copysign :: "wop" where
  "f64Copysign = u8 0xa6"

definition f64Sqrt :: "wop" where
  "f64Sqrt = u8 0x9f"

definition f64Add :: "wop" where
  "f64Add = u8 0xa0"

definition f64Sub :: "wop" where
  "f64Sub = u8 0xa1"

definition f64Mul :: "wop" where
  "f64Mul = u8 0xa2"

definition f64Div :: "wop" where
  "f64Div = u8 0xa3"

definition f64Min :: "wop" where
  "f64Min = u8 0xa4"

definition f64Max :: "wop" where
  "f64Max = u8 0xa5"

definition i32WrapI64 :: "wop" where
  "i32WrapI64 = u8 0xa7"

definition i64ExtendI32S :: "wop" where
  "i64ExtendI32S = u8 0xac"

definition i64ExtendI32U :: "wop" where
  "i64ExtendI32U = u8 0xad"

definition f64ConvertI32S :: "wop" where
  "f64ConvertI32S = u8 0xb7"

definition f64ConvertI32U :: "wop" where
  "f64ConvertI32U = u8 0xb8"

definition f64ConvertI64S :: "wop" where
  "f64ConvertI64S = u8 0xb9"

definition f64ConvertI64U :: "wop" where
  "f64ConvertI64U = u8 0xba"

definition i64ReinterpretF64 :: "wop" where
  "i64ReinterpretF64 = u8 0xbd"

definition f64ReinterpretI64 :: "wop" where
  "f64ReinterpretI64 = u8 0xbf"

definition f32DemoteF64 :: "wop" where
  "f32DemoteF64 = u8 0xb6"

definition f64PromoteF32 :: "wop" where
  "f64PromoteF32 = u8 0xbb"

definition i32ReinterpretF32 :: "wop" where
  "i32ReinterpretF32 = u8 0xbc"

definition f32ReinterpretI32 :: "wop" where
  "f32ReinterpretI32 = u8 0xbe"

definition refEq :: "wop" where
  "refEq = u8 0xd3"

definition refNull :: "int \<Rightarrow> wop" where
  "refNull typeIndex = seqs [u8 0xd0, sleb (JInt typeIndex)]"

definition refIsNull :: "wop" where
  "refIsNull = u8 0xd1"

definition refAsNonNull :: "wop" where
  "refAsNonNull = u8 0xd4"

definition structNew :: "int \<Rightarrow> wop" where
  "structNew typeIndex = seqs [u8 0xfb, uleb (JInt 0x00), uleb (JInt typeIndex)]"

definition structNewDefault :: "int \<Rightarrow> wop" where
  "structNewDefault typeIndex = seqs [u8 0xfb, uleb (JInt 0x01), uleb (JInt typeIndex)]"

definition structGet :: "int \<Rightarrow> int \<Rightarrow> wop" where
  "structGet typeIndex fieldIndex = seqs [u8 0xfb, uleb (JInt 0x02), uleb (JInt typeIndex), uleb (JInt fieldIndex)]"

definition structSet :: "int \<Rightarrow> int \<Rightarrow> wop" where
  "structSet typeIndex fieldIndex = seqs [u8 0xfb, uleb (JInt 0x05), uleb (JInt typeIndex), uleb (JInt fieldIndex)]"

definition arrayNewFixed :: "int \<Rightarrow> int \<Rightarrow> wop" where
  "arrayNewFixed typeIndex count = seqs [u8 0xfb, uleb (JInt 0x08), uleb (JInt typeIndex), uleb (JInt count)]"

definition f64Trunc :: "wop" where
  "f64Trunc = u8 0x9d"

definition i32TruncF64S :: "wop" where
  "i32TruncF64S = u8 0xaa"

definition i32TruncF64U :: "wop" where
  "i32TruncF64U = u8 0xab"

definition i64TruncF64S :: "wop" where
  "i64TruncF64S = u8 0xb0"

definition i64TruncF64U :: "wop" where
  "i64TruncF64U = u8 0xb1"

definition arrayNewDefault :: "int \<Rightarrow> wop" where
  "arrayNewDefault typeIndex = seqs [u8 0xfb, uleb (JInt 0x07), uleb (JInt typeIndex)]"

definition arrayNewData :: "int \<Rightarrow> int \<Rightarrow> wop" where
  "arrayNewData typeIndex dataIndex = seqs [u8 0xfb, uleb (JInt 0x09), uleb (JInt typeIndex), uleb (JInt dataIndex)]"

definition arraySet :: "int \<Rightarrow> wop" where
  "arraySet typeIndex = seqs [u8 0xfb, uleb (JInt 0x0e), uleb (JInt typeIndex)]"

definition arrayCopy :: "int \<Rightarrow> int \<Rightarrow> wop" where
  "arrayCopy destTypeIndex srcTypeIndex = seqs [u8 0xfb, uleb (JInt 0x11), uleb (JInt destTypeIndex), uleb (JInt srcTypeIndex)]"

definition arrayGet :: "int \<Rightarrow> wop" where
  "arrayGet typeIndex = seqs [u8 0xfb, uleb (JInt 0x0b), uleb (JInt typeIndex)]"

definition arrayGetU :: "int \<Rightarrow> wop" where
  "arrayGetU typeIndex = seqs [u8 0xfb, uleb (JInt 0x0d), uleb (JInt typeIndex)]"

definition arrayLen :: "wop" where
  "arrayLen = seqs [u8 0xfb, uleb (JInt 0x0f)]"

section \<open>Each method emits one instruction\<close>

definition emits :: "wop \<Rightarrow> winstr list \<Rightarrow> bool" where
  "emits f is \<longleftrightarrow> writes f (enc_instrs is)"

lemma emitsI: "writes f r \<Longrightarrow> r = enc_instrs is \<Longrightarrow> emits f is"
  by (simp add: emits_def)

lemma emits_plain: "plain_op (word_of_int b) \<Longrightarrow> emits (u8 b) [Plain (word_of_int b)]"
  using writes_u8 [of b] by (simp add: emits_def enc_instrs_def)

lemma writes_memarg [outputs_intros]: "writes (memarg align off mem) (enc_memarg align off mem)"
proof (cases "mem = 0")
  case True
  have "writes (seqs [uleb (JInt align), uleb (JInt off)]) (catR [enc_int align, enc_int off])"
    by (rule outputs_intros)+
  with True show ?thesis by (simp add: memarg_def enc_memarg_def)
next
  case False
  have "writes (seqs [uleb (JInt (align OR 0x40)), uleb (JInt mem), uleb (JInt off)])
      (catR [enc_int (align OR 0x40), enc_int mem, enc_int off])"
    by (rule outputs_intros)+
  with False show ?thesis by (simp add: memarg_def enc_memarg_def)
qed

lemmas instr_class_defs = enc_instrs_def plain_op_def idx_ops_def mem_op_def
  gc_arity_def gc_heap_def fc_arity_def

lemmas plain_method_defs =
  unreachable_def select_def else_i_def end_i_def return_i_def drop_i_def
  i32Eqz_def i32Eq_def i32Ne_def i32LtS_def i32LtU_def i32GtS_def
  i32GtU_def i32LeS_def i32LeU_def i32GeS_def i32GeU_def i64Eqz_def
  i64Eq_def i64Ne_def i64LtS_def i64LtU_def i64GtU_def i64LeU_def
  i64GeS_def i64GeU_def f64Eq_def f64Ne_def f64Lt_def f64Gt_def
  f64Le_def f64Ge_def i32Add_def i32Sub_def i32Mul_def i32DivS_def
  i32RemS_def i32DivU_def i32RemU_def i32And_def i32Or_def i32Xor_def
  i32Clz_def i32Shl_def i32ShrS_def i32ShrU_def i64Add_def i64Sub_def
  i64Mul_def i64DivU_def i64RemU_def i64And_def i64Or_def i64Xor_def
  i64Shl_def i64ShrS_def i64ShrU_def f64Abs_def f64Neg_def f64Ceil_def
  f64Floor_def f64Nearest_def f64Copysign_def f64Sqrt_def f64Add_def f64Sub_def
  f64Mul_def f64Div_def f64Min_def f64Max_def i32WrapI64_def i64ExtendI32S_def
  i64ExtendI32U_def f64ConvertI32S_def f64ConvertI32U_def f64ConvertI64S_def f64ConvertI64U_def i64ReinterpretF64_def
  f64ReinterpretI64_def f32DemoteF64_def f64PromoteF32_def i32ReinterpretF32_def f32ReinterpretI32_def refEq_def
  refIsNull_def refAsNonNull_def f64Trunc_def i32TruncF64S_def i32TruncF64U_def i64TruncF64S_def
  i64TruncF64U_def

lemma emits_plain_methods:
  "emits unreachable [Plain 0x00]"
  "emits select [Plain 0x1b]"
  "emits else_i [Plain 0x05]"
  "emits end_i [Plain 0x0b]"
  "emits return_i [Plain 0x0f]"
  "emits drop_i [Plain 0x1a]"
  "emits i32Eqz [Plain 0x45]"
  "emits i32Eq [Plain 0x46]"
  "emits i32Ne [Plain 0x47]"
  "emits i32LtS [Plain 0x48]"
  "emits i32LtU [Plain 0x49]"
  "emits i32GtS [Plain 0x4a]"
  "emits i32GtU [Plain 0x4b]"
  "emits i32LeS [Plain 0x4c]"
  "emits i32LeU [Plain 0x4d]"
  "emits i32GeS [Plain 0x4e]"
  "emits i32GeU [Plain 0x4f]"
  "emits i64Eqz [Plain 0x50]"
  "emits i64Eq [Plain 0x51]"
  "emits i64Ne [Plain 0x52]"
  "emits i64LtS [Plain 0x53]"
  "emits i64LtU [Plain 0x54]"
  "emits i64GtU [Plain 0x56]"
  "emits i64LeU [Plain 0x58]"
  "emits i64GeS [Plain 0x59]"
  "emits i64GeU [Plain 0x5a]"
  "emits f64Eq [Plain 0x61]"
  "emits f64Ne [Plain 0x62]"
  "emits f64Lt [Plain 0x63]"
  "emits f64Gt [Plain 0x64]"
  "emits f64Le [Plain 0x65]"
  "emits f64Ge [Plain 0x66]"
  "emits i32Add [Plain 0x6a]"
  "emits i32Sub [Plain 0x6b]"
  "emits i32Mul [Plain 0x6c]"
  "emits i32DivS [Plain 0x6d]"
  "emits i32RemS [Plain 0x6f]"
  "emits i32DivU [Plain 0x6e]"
  "emits i32RemU [Plain 0x70]"
  "emits i32And [Plain 0x71]"
  "emits i32Or [Plain 0x72]"
  "emits i32Xor [Plain 0x73]"
  "emits i32Clz [Plain 0x67]"
  "emits i32Shl [Plain 0x74]"
  "emits i32ShrS [Plain 0x75]"
  "emits i32ShrU [Plain 0x76]"
  "emits i64Add [Plain 0x7c]"
  "emits i64Sub [Plain 0x7d]"
  "emits i64Mul [Plain 0x7e]"
  "emits i64DivU [Plain 0x80]"
  "emits i64RemU [Plain 0x82]"
  "emits i64And [Plain 0x83]"
  "emits i64Or [Plain 0x84]"
  "emits i64Xor [Plain 0x85]"
  "emits i64Shl [Plain 0x86]"
  "emits i64ShrS [Plain 0x87]"
  "emits i64ShrU [Plain 0x88]"
  "emits f64Abs [Plain 0x99]"
  "emits f64Neg [Plain 0x9a]"
  "emits f64Ceil [Plain 0x9b]"
  "emits f64Floor [Plain 0x9c]"
  "emits f64Nearest [Plain 0x9e]"
  "emits f64Copysign [Plain 0xa6]"
  "emits f64Sqrt [Plain 0x9f]"
  "emits f64Add [Plain 0xa0]"
  "emits f64Sub [Plain 0xa1]"
  "emits f64Mul [Plain 0xa2]"
  "emits f64Div [Plain 0xa3]"
  "emits f64Min [Plain 0xa4]"
  "emits f64Max [Plain 0xa5]"
  "emits i32WrapI64 [Plain 0xa7]"
  "emits i64ExtendI32S [Plain 0xac]"
  "emits i64ExtendI32U [Plain 0xad]"
  "emits f64ConvertI32S [Plain 0xb7]"
  "emits f64ConvertI32U [Plain 0xb8]"
  "emits f64ConvertI64S [Plain 0xb9]"
  "emits f64ConvertI64U [Plain 0xba]"
  "emits i64ReinterpretF64 [Plain 0xbd]"
  "emits f64ReinterpretI64 [Plain 0xbf]"
  "emits f32DemoteF64 [Plain 0xb6]"
  "emits f64PromoteF32 [Plain 0xbb]"
  "emits i32ReinterpretF32 [Plain 0xbc]"
  "emits f32ReinterpretI32 [Plain 0xbe]"
  "emits refEq [Plain 0xd3]"
  "emits refIsNull [Plain 0xd1]"
  "emits refAsNonNull [Plain 0xd4]"
  "emits f64Trunc [Plain 0x9d]"
  "emits i32TruncF64S [Plain 0xaa]"
  "emits i32TruncF64U [Plain 0xab]"
  "emits i64TruncF64S [Plain 0xb0]"
  "emits i64TruncF64U [Plain 0xb1]"
  unfolding plain_method_defs
  by (rule emitsI, rule writes_u8, simp add: instr_class_defs)+

lemmas immediate_method_defs =
  loop_def block_def blockF64_def ifVoid_def br_def brIf_def
  call_def callRef_def refFunc_def refTest_def refTestNull_def localGet_def
  localSet_def globalGet_def globalSet_def i32Store8_def i32Store16_def i32Load16U_def
  i32Load8U_def f64Load_def i32Store_def load8UAt_def load16UAt_def load32At_def
  store8At_def store16At_def store32At_def memoryFill_def memoryInit_def memorySize_def
  memoryGrow_def load16UIn_def store16In_def load8UIn_def load32In_def store8In_def
  store32In_def store64In_def i32TruncSatF64S_def i64TruncSatF64U_def localTee_def i32Const_def
  i64Const_def f64Const_def refNull_def structNew_def structNewDefault_def structGet_def
  structSet_def arrayNewFixed_def arrayNewDefault_def arrayNewData_def arraySet_def arrayCopy_def
  arrayGet_def arrayGetU_def arrayLen_def

lemma emits_immediate_methods:
  "emits loop [Blk 0x03 None]"
  "emits block [Blk 0x02 None]"
  "emits blockF64 [Blk 0x02 (Some F64)]"
  "emits ifVoid [Blk 0x04 None]"
  "emits (br depth) [Idx 0x0c depth]"
  "emits (brIf depth) [Idx 0x0d depth]"
  "emits (call funcIndex) [Idx 0x10 funcIndex]"
  "emits (callRef typeIndex) [Idx 0x14 typeIndex]"
  "emits (refFunc funcIndex) [Idx 0xd2 funcIndex]"
  "emits (refTest typeIndex) [GcHeap 0x14 typeIndex]"
  "emits (refTestNull typeIndex) [GcHeap 0x15 typeIndex]"
  "emits (localGet i) [Idx 0x20 i]"
  "emits (localSet i) [Idx 0x21 i]"
  "emits (globalGet i) [Idx 0x23 i]"
  "emits (globalSet i) [Idx 0x24 i]"
  "emits (i32Store8 g) [Mem 0x3a 0 (ourMem g) 0]"
  "emits (i32Store16 g) [Mem 0x3b 0 (ourMem g) 0]"
  "emits (i32Load16U g) [Mem 0x2f 0 (ourMem g) 0]"
  "emits (i32Load8U g) [Mem 0x2d 0 (ourMem g) 0]"
  "emits (f64Load g) [Mem 0x2b 0 (ourMem g) 0]"
  "emits (i32Store g) [Mem 0x36 0 (ourMem g) 0]"
  "emits (load8UAt g off) [Mem 0x2d 0 (ourMem g) off]"
  "emits (load16UAt g off) [Mem 0x2f 0 (ourMem g) off]"
  "emits (load32At g off) [Mem 0x28 0 (ourMem g) off]"
  "emits (store8At g off) [Mem 0x3a 0 (ourMem g) off]"
  "emits (store16At g off) [Mem 0x3b 0 (ourMem g) off]"
  "emits (store32At g off) [Mem 0x36 0 (ourMem g) off]"
  "emits (memoryFill g) [Fc 11 [(ourMem g)]]"
  "emits (memoryInit g seg) [Fc 8 [seg, (ourMem g)]]"
  "emits (memorySize g) [Idx 0x3f (ourMem g)]"
  "emits (memoryGrow g) [Idx 0x40 (ourMem g)]"
  "emits (load16UIn mem off) [Mem 0x2f 0 mem off]"
  "emits (store16In mem off) [Mem 0x3b 0 mem off]"
  "emits (load8UIn mem off) [Mem 0x2d 0 mem off]"
  "emits (load32In mem off) [Mem 0x28 0 mem off]"
  "emits (store8In mem off) [Mem 0x3a 0 mem off]"
  "emits (store32In mem off) [Mem 0x36 0 mem off]"
  "emits (store64In mem off) [Mem 0x37 0 mem off]"
  "emits i32TruncSatF64S [Fc 2 []]"
  "emits i64TruncSatF64U [Fc 7 []]"
  "emits (localTee i) [Idx 0x22 i]"
  "emits (i32Const n) [I32C n]"
  "emits (i64Const n) [I64C n]"
  "emits (f64Const v) [F64C v]"
  "emits (refNull typeIndex) [RefNull typeIndex]"
  "emits (structNew typeIndex) [Gc 0x00 [typeIndex]]"
  "emits (structNewDefault typeIndex) [Gc 0x01 [typeIndex]]"
  "emits (structGet typeIndex fieldIndex) [Gc 0x02 [typeIndex, fieldIndex]]"
  "emits (structSet typeIndex fieldIndex) [Gc 0x05 [typeIndex, fieldIndex]]"
  "emits (arrayNewFixed typeIndex count) [Gc 0x08 [typeIndex, count]]"
  "emits (arrayNewDefault typeIndex) [Gc 0x07 [typeIndex]]"
  "emits (arrayNewData typeIndex dataIndex) [Gc 0x09 [typeIndex, dataIndex]]"
  "emits (arraySet typeIndex) [Gc 0x0e [typeIndex]]"
  "emits (arrayCopy destTypeIndex srcTypeIndex) [Gc 0x11 [destTypeIndex, srcTypeIndex]]"
  "emits (arrayGet typeIndex) [Gc 0x0b [typeIndex]]"
  "emits (arrayGetU typeIndex) [Gc 0x0d [typeIndex]]"
  "emits arrayLen [Gc 0x0f []]"
  unfolding immediate_method_defs
  by (rule emitsI, (rule outputs_intros)+, simp add: instr_class_defs)+

lemma emits_ifResult: "emits (ifResult t) [Blk 0x04 (Some t)]"
proof -
  have "ifResult t = seqs [u8 0x04, writeValType t]"
    by (rule ext) (cases t; simp add: ifResult_def)
  moreover have "writes (seqs [u8 0x04, writeValType t]) (catR [Inr [word_of_int 0x04], enc_valtype t])"
    by (rule outputs_intros)+
  ultimately show ?thesis by (simp add: emits_def enc_instrs_def)
qed

lemma emits_brTable: "emits (brTable labels d) [BrTable labels d]"
proof -
  have "writes (seqs (([u8 0x0e, uleb (JInt (int (length labels)))]
        @ map (\<lambda>l. uleb (JInt l)) labels) @ [uleb (JInt d)]))
      (catR (([Inr [word_of_int 0x0e], enc_nat (length labels)] @ map enc_int labels) @ [enc_int d]))"
    by (intro outputs_seqs_append outputs_seqs_map) (rule outputs_intros)+
  then show ?thesis by (simp add: emits_def brTable_def enc_instrs_def)
qed

lemma emits_castChars:
  "emits (castChars typeIndex nullable) [GcHeap (if nullable then 0x17 else 0x16) typeIndex]"
  unfolding castChars_def
  by (rule emitsI, (rule outputs_intros)+) (simp add: instr_class_defs)

lemma emits_memoryCopy:
  "emits (memoryCopy g dst src)
     [Fc 10 [case dst of None \<Rightarrow> ourMem g | Some m \<Rightarrow> m, case src of None \<Rightarrow> ourMem g | Some m \<Rightarrow> m]]"
  unfolding memoryCopy_def
  by (rule emitsI, (rule outputs_intros)+) (simp add: instr_class_defs)

text \<open>The checked casts: refused on the flat string type, otherwise one instruction.\<close>

lemma guarded_cast_emits:
  assumes "charsType g \<noteq> Some t"
  shows "emits (refCast g t) [GcHeap 0x16 t]" and "emits (refCastNull g t) [GcHeap 0x17 t]"
proof -
  have "writes (guardChars g t) (Inr [])"
    using assms by (auto simp: outputs_Inr_iff guardChars_def)
  note rules = outputs_seqs_Cons [OF this] outputs_intros
  show "emits (refCast g t) [GcHeap 0x16 t]" "emits (refCastNull g t) [GcHeap 0x17 t]"
    unfolding refCast_def refCastNull_def
    by (rule emitsI, (rule rules)+, simp add: instr_class_defs)+
qed

lemma guarded_cast_refused:
  assumes "charsType g = Some t"
  shows "refCast g t w = Inl RawCharsCast" and "refCastNull g t w = Inl RawCharsCast"
  using assms by (simp_all add: refCast_def refCastNull_def guardChars_def)

section \<open>Straight-line code\<close>

lemma emits_seqs_Nil: "emits (seqs []) []"
  by (simp add: emits_def enc_instrs_def outputs_def)

lemma emits_seqs_Cons:
  assumes "emits f xs" and "emits (seqs fs) ys"
  shows "emits (seqs (f # fs)) (xs @ ys)"
proof -
  have "seqs (f # fs) = (\<lambda>w. bindR (f w) (seqs fs))"
    by (rule ext) simp
  then show ?thesis
    using outputs_bindR [of wf_writer bytes f "enc_instrs xs" "seqs fs" "enc_instrs ys"] assms
    by (simp add: emits_def enc_instrs_append)
qed

lemma emits_list: "list_all2 emits fs iss \<Longrightarrow> emits (seqs fs) (concat iss)"
proof (induction fs iss rule: list_all2_induct)
  case Nil
  show ?case using emits_seqs_Nil by (simp only: concat.simps)
next
  case (Cons f fs xs xss)
  then show ?case using emits_seqs_Cons by (simp only: concat.simps)
qed

lemma emits_decodes:
  assumes "emits f is" and "f new_writer = Inr w"
  shows "dcd_instrs (bytes w) = Some is"
proof -
  obtain bs where "enc_instrs is = Inr bs" "bytes w = bs"
    using assms by (cases "enc_instrs is") (auto simp: emits_def outputs_def dest!: spec [of _ new_writer])
  then show ?thesis by (simp add: dcd_instrs_enc)
qed


section \<open>The instruction table\<close>

text \<open>Which instruction of the wasm binary format each method stands for, with the opcode
  and immediate order of the format. The checked casts stand for theirs where the type is
  not the flat string type.\<close>

inductive code_method :: "code_globals \<Rightarrow> wop \<Rightarrow> winstr \<Rightarrow> bool" for g :: code_globals where
  "code_method g unreachable (Plain 0x00)"
| "code_method g select (Plain 0x1b)"
| "code_method g else_i (Plain 0x05)"
| "code_method g end_i (Plain 0x0b)"
| "code_method g return_i (Plain 0x0f)"
| "code_method g drop_i (Plain 0x1a)"
| "code_method g i32Eqz (Plain 0x45)"
| "code_method g i32Eq (Plain 0x46)"
| "code_method g i32Ne (Plain 0x47)"
| "code_method g i32LtS (Plain 0x48)"
| "code_method g i32LtU (Plain 0x49)"
| "code_method g i32GtS (Plain 0x4a)"
| "code_method g i32GtU (Plain 0x4b)"
| "code_method g i32LeS (Plain 0x4c)"
| "code_method g i32LeU (Plain 0x4d)"
| "code_method g i32GeS (Plain 0x4e)"
| "code_method g i32GeU (Plain 0x4f)"
| "code_method g i64Eqz (Plain 0x50)"
| "code_method g i64Eq (Plain 0x51)"
| "code_method g i64Ne (Plain 0x52)"
| "code_method g i64LtS (Plain 0x53)"
| "code_method g i64LtU (Plain 0x54)"
| "code_method g i64GtU (Plain 0x56)"
| "code_method g i64LeU (Plain 0x58)"
| "code_method g i64GeS (Plain 0x59)"
| "code_method g i64GeU (Plain 0x5a)"
| "code_method g f64Eq (Plain 0x61)"
| "code_method g f64Ne (Plain 0x62)"
| "code_method g f64Lt (Plain 0x63)"
| "code_method g f64Gt (Plain 0x64)"
| "code_method g f64Le (Plain 0x65)"
| "code_method g f64Ge (Plain 0x66)"
| "code_method g i32Add (Plain 0x6a)"
| "code_method g i32Sub (Plain 0x6b)"
| "code_method g i32Mul (Plain 0x6c)"
| "code_method g i32DivS (Plain 0x6d)"
| "code_method g i32RemS (Plain 0x6f)"
| "code_method g i32DivU (Plain 0x6e)"
| "code_method g i32RemU (Plain 0x70)"
| "code_method g i32And (Plain 0x71)"
| "code_method g i32Or (Plain 0x72)"
| "code_method g i32Xor (Plain 0x73)"
| "code_method g i32Clz (Plain 0x67)"
| "code_method g i32Shl (Plain 0x74)"
| "code_method g i32ShrS (Plain 0x75)"
| "code_method g i32ShrU (Plain 0x76)"
| "code_method g i64Add (Plain 0x7c)"
| "code_method g i64Sub (Plain 0x7d)"
| "code_method g i64Mul (Plain 0x7e)"
| "code_method g i64DivU (Plain 0x80)"
| "code_method g i64RemU (Plain 0x82)"
| "code_method g i64And (Plain 0x83)"
| "code_method g i64Or (Plain 0x84)"
| "code_method g i64Xor (Plain 0x85)"
| "code_method g i64Shl (Plain 0x86)"
| "code_method g i64ShrS (Plain 0x87)"
| "code_method g i64ShrU (Plain 0x88)"
| "code_method g f64Abs (Plain 0x99)"
| "code_method g f64Neg (Plain 0x9a)"
| "code_method g f64Ceil (Plain 0x9b)"
| "code_method g f64Floor (Plain 0x9c)"
| "code_method g f64Nearest (Plain 0x9e)"
| "code_method g f64Copysign (Plain 0xa6)"
| "code_method g f64Sqrt (Plain 0x9f)"
| "code_method g f64Add (Plain 0xa0)"
| "code_method g f64Sub (Plain 0xa1)"
| "code_method g f64Mul (Plain 0xa2)"
| "code_method g f64Div (Plain 0xa3)"
| "code_method g f64Min (Plain 0xa4)"
| "code_method g f64Max (Plain 0xa5)"
| "code_method g i32WrapI64 (Plain 0xa7)"
| "code_method g i64ExtendI32S (Plain 0xac)"
| "code_method g i64ExtendI32U (Plain 0xad)"
| "code_method g f64ConvertI32S (Plain 0xb7)"
| "code_method g f64ConvertI32U (Plain 0xb8)"
| "code_method g f64ConvertI64S (Plain 0xb9)"
| "code_method g f64ConvertI64U (Plain 0xba)"
| "code_method g i64ReinterpretF64 (Plain 0xbd)"
| "code_method g f64ReinterpretI64 (Plain 0xbf)"
| "code_method g f32DemoteF64 (Plain 0xb6)"
| "code_method g f64PromoteF32 (Plain 0xbb)"
| "code_method g i32ReinterpretF32 (Plain 0xbc)"
| "code_method g f32ReinterpretI32 (Plain 0xbe)"
| "code_method g refEq (Plain 0xd3)"
| "code_method g refIsNull (Plain 0xd1)"
| "code_method g refAsNonNull (Plain 0xd4)"
| "code_method g f64Trunc (Plain 0x9d)"
| "code_method g i32TruncF64S (Plain 0xaa)"
| "code_method g i32TruncF64U (Plain 0xab)"
| "code_method g i64TruncF64S (Plain 0xb0)"
| "code_method g i64TruncF64U (Plain 0xb1)"
| "code_method g loop (Blk 0x03 None)"
| "code_method g block (Blk 0x02 None)"
| "code_method g blockF64 (Blk 0x02 (Some F64))"
| "code_method g ifVoid (Blk 0x04 None)"
| "code_method g (br depth) (Idx 0x0c depth)"
| "code_method g (brIf depth) (Idx 0x0d depth)"
| "code_method g (call funcIndex) (Idx 0x10 funcIndex)"
| "code_method g (callRef typeIndex) (Idx 0x14 typeIndex)"
| "code_method g (refFunc funcIndex) (Idx 0xd2 funcIndex)"
| "code_method g (refTest typeIndex) (GcHeap 0x14 typeIndex)"
| "code_method g (refTestNull typeIndex) (GcHeap 0x15 typeIndex)"
| "code_method g (localGet i) (Idx 0x20 i)"
| "code_method g (localSet i) (Idx 0x21 i)"
| "code_method g (globalGet i) (Idx 0x23 i)"
| "code_method g (globalSet i) (Idx 0x24 i)"
| "code_method g (i32Store8 g) (Mem 0x3a 0 (ourMem g) 0)"
| "code_method g (i32Store16 g) (Mem 0x3b 0 (ourMem g) 0)"
| "code_method g (i32Load16U g) (Mem 0x2f 0 (ourMem g) 0)"
| "code_method g (i32Load8U g) (Mem 0x2d 0 (ourMem g) 0)"
| "code_method g (f64Load g) (Mem 0x2b 0 (ourMem g) 0)"
| "code_method g (i32Store g) (Mem 0x36 0 (ourMem g) 0)"
| "code_method g (load8UAt g off) (Mem 0x2d 0 (ourMem g) off)"
| "code_method g (load16UAt g off) (Mem 0x2f 0 (ourMem g) off)"
| "code_method g (load32At g off) (Mem 0x28 0 (ourMem g) off)"
| "code_method g (store8At g off) (Mem 0x3a 0 (ourMem g) off)"
| "code_method g (store16At g off) (Mem 0x3b 0 (ourMem g) off)"
| "code_method g (store32At g off) (Mem 0x36 0 (ourMem g) off)"
| "code_method g (memoryFill g) (Fc 11 [(ourMem g)])"
| "code_method g (memoryInit g seg) (Fc 8 [seg, (ourMem g)])"
| "code_method g (memorySize g) (Idx 0x3f (ourMem g))"
| "code_method g (memoryGrow g) (Idx 0x40 (ourMem g))"
| "code_method g (load16UIn mem off) (Mem 0x2f 0 mem off)"
| "code_method g (store16In mem off) (Mem 0x3b 0 mem off)"
| "code_method g (load8UIn mem off) (Mem 0x2d 0 mem off)"
| "code_method g (load32In mem off) (Mem 0x28 0 mem off)"
| "code_method g (store8In mem off) (Mem 0x3a 0 mem off)"
| "code_method g (store32In mem off) (Mem 0x36 0 mem off)"
| "code_method g (store64In mem off) (Mem 0x37 0 mem off)"
| "code_method g i32TruncSatF64S (Fc 2 [])"
| "code_method g i64TruncSatF64U (Fc 7 [])"
| "code_method g (localTee i) (Idx 0x22 i)"
| "code_method g (i32Const n) (I32C n)"
| "code_method g (i64Const n) (I64C n)"
| "code_method g (f64Const v) (F64C v)"
| "code_method g (refNull typeIndex) (RefNull typeIndex)"
| "code_method g (structNew typeIndex) (Gc 0x00 [typeIndex])"
| "code_method g (structNewDefault typeIndex) (Gc 0x01 [typeIndex])"
| "code_method g (structGet typeIndex fieldIndex) (Gc 0x02 [typeIndex, fieldIndex])"
| "code_method g (structSet typeIndex fieldIndex) (Gc 0x05 [typeIndex, fieldIndex])"
| "code_method g (arrayNewFixed typeIndex count) (Gc 0x08 [typeIndex, count])"
| "code_method g (arrayNewDefault typeIndex) (Gc 0x07 [typeIndex])"
| "code_method g (arrayNewData typeIndex dataIndex) (Gc 0x09 [typeIndex, dataIndex])"
| "code_method g (arraySet typeIndex) (Gc 0x0e [typeIndex])"
| "code_method g (arrayCopy destTypeIndex srcTypeIndex) (Gc 0x11 [destTypeIndex, srcTypeIndex])"
| "code_method g (arrayGet typeIndex) (Gc 0x0b [typeIndex])"
| "code_method g (arrayGetU typeIndex) (Gc 0x0d [typeIndex])"
| "code_method g arrayLen (Gc 0x0f [])"
| "code_method g (ifResult t) (Blk 0x04 (Some t))"
| "code_method g (brTable labels d) (BrTable labels d)"
| "code_method g (castChars t nullable) (GcHeap (if nullable then 0x17 else 0x16) t)"
| "code_method g (memoryCopy g dst src)
     (Fc 10 [case dst of None \<Rightarrow> ourMem g | Some m \<Rightarrow> m, case src of None \<Rightarrow> ourMem g | Some m \<Rightarrow> m])"
| "charsType g \<noteq> Some t \<Longrightarrow> code_method g (refCast g t) (GcHeap 0x16 t)"
| "charsType g \<noteq> Some t \<Longrightarrow> code_method g (refCastNull g t) (GcHeap 0x17 t)"

lemmas emits_methods = emits_plain_methods emits_immediate_methods emits_ifResult emits_brTable
  emits_castChars emits_memoryCopy guarded_cast_emits

lemma code_method_emits: "code_method g f i \<Longrightarrow> emits f [i]"
  by (induction rule: code_method.induct) (rule emits_methods; assumption?)+

lemma code_methods_emit: "list_all2 (code_method g) fs is \<Longrightarrow> emits (seqs fs) is"
proof (induction fs "is" rule: list_all2_induct)
  case Nil
  show ?case by (rule emits_seqs_Nil)
next
  case (Cons f fs i "is")
  then show ?case using emits_seqs_Cons [OF code_method_emits, of g f i fs "is"] by (simp del: seqs.simps)
qed

section \<open>Properties\<close>

text \<open>C20. A function body built by any sequence of \<open>Code\<close> calls decodes, by the
  instruction decoder of the wasm format, to exactly the instructions the calls stand
  for: opcodes, immediates, memory indices and block types included. Bodies that stand
  for different instruction sequences therefore never share their bytes.\<close>

theorem code_body_decodes:
  assumes "list_all2 (code_method g) fs is" and "seqs fs new_writer = Inr w"
  shows "dcd_instrs (bytes w) = Some is"
  using emits_decodes [OF code_methods_emit [OF assms(1)] assms(2)] .

theorem code_body_decodes_witness:
  "\<exists>w. seqs [localGet 0, i32Const 5, i32Add] new_writer = Inr w
     \<and> dcd_instrs (bytes w) = Some [Idx 0x20 0, I32C 5, Plain 0x6a]"
proof -
  let ?g = "\<lparr>ourMem = 0, charsType = None\<rparr>"
  have ms: "list_all2 (code_method ?g) [localGet 0, i32Const 5, i32Add] [Idx 0x20 0, I32C 5, Plain 0x6a]"
    by (simp add: code_method.intros)
  obtain w where w: "seqs [localGet 0, i32Const 5, i32Add] new_writer = Inr w"
    using code_methods_emit [OF ms]
    by (auto simp: emits_def instr_class_defs enc_sleb_def enc_uleb_def outputs_Inr_iff
        simp del: seqs.simps dest: spec [of _ new_writer])
  from code_body_decodes [OF ms w] w show ?thesis by blast
qed

text \<open>A raw \<open>ref.cast\<close> to the flat string type of the module being emitted always
  throws, whatever was written before, and casts to every other type emit their one
  instruction; \<open>castChars\<close> is the only way to that cast.\<close>

theorem chars_cast_guarded:
  "(charsType g = Some t \<longrightarrow> refCast g t w = Inl RawCharsCast \<and> refCastNull g t w = Inl RawCharsCast)
   \<and> (charsType g \<noteq> Some t \<longrightarrow> emits (refCast g t) [GcHeap 0x16 t] \<and> emits (refCastNull g t) [GcHeap 0x17 t])
   \<and> emits (castChars t False) [GcHeap 0x16 t]"
  using guarded_cast_refused [of g t w] guarded_cast_emits [of g t] emits_castChars [of t False] by simp

theorem chars_cast_guarded_witness:
  "refCast \<lparr>ourMem = 0, charsType = Some 3\<rparr> 3 new_writer = Inl RawCharsCast
   \<and> emits (refCast \<lparr>ourMem = 0, charsType = Some 3\<rparr> 4) [GcHeap 0x16 4]"
  using chars_cast_guarded [of "\<lparr>ourMem = 0, charsType = Some 3\<rparr>" 3 new_writer]
    chars_cast_guarded [of "\<lparr>ourMem = 0, charsType = Some 3\<rparr>" 4 new_writer]
  by simp

end
