(* ===== verification/Wasm_Exec.thy ===== *)
theory Wasm_Exec
  imports Wasm_Syntax
begin

text \<open>
  Execution of emitted code, as the wasm specification defines it, for the control
  instructions, locals and i32 arithmetic the expression layer is built from: structured
  code recovered from a flat instruction sequence by an executable parser, a big-step
  relation with branches, returns and traps as outcomes, and its determinism.
\<close>

section \<open>Structured code\<close>

datatype wtree =
    Op winstr
  | BlockT "val_type option" "wtree list"
  | LoopT "val_type option" "wtree list"
  | IfT "val_type option" "wtree list"
  | IfElseT "val_type option" "wtree list" "wtree list"

fun flat1 :: "wtree \<Rightarrow> winstr list" where
  "flat1 (Op i) = [i]"
| "flat1 (BlockT t ts) = Blk 0x02 t # concat (map flat1 ts) @ [Plain 0x0b]"
| "flat1 (LoopT t ts) = Blk 0x03 t # concat (map flat1 ts) @ [Plain 0x0b]"
| "flat1 (IfT t ts) = Blk 0x04 t # concat (map flat1 ts) @ [Plain 0x0b]"
| "flat1 (IfElseT t ts es) =
     Blk 0x04 t # concat (map flat1 ts) @ Plain 0x05 # concat (map flat1 es) @ [Plain 0x0b]"

abbreviation flats :: "wtree list \<Rightarrow> winstr list" where
  "flats ts \<equiv> concat (map flat1 ts)"

text \<open>A leaf is an instruction that does not delimit a block.\<close>

definition delimiter :: "winstr \<Rightarrow> bool" where
  "delimiter i \<longleftrightarrow> i = Plain 0x05 \<or> i = Plain 0x0b \<or> (\<exists>b t. i = Blk b t)"

fun leafy :: "wtree \<Rightarrow> bool" where
  "leafy (Op i) = (\<not> delimiter i)"
| "leafy (BlockT t ts) = (\<forall>x \<in> set ts. leafy x)"
| "leafy (LoopT t ts) = (\<forall>x \<in> set ts. leafy x)"
| "leafy (IfT t ts) = (\<forall>x \<in> set ts. leafy x)"
| "leafy (IfElseT t ts es) = ((\<forall>x \<in> set ts. leafy x) \<and> (\<forall>x \<in> set es. leafy x))"

text \<open>The parser keeps the open blocks on a stack, each with the trees before it.\<close>

datatype frame =
    Open u8 "val_type option" "wtree list"
  | OpenElse "val_type option" "wtree list" "wtree list"

definition close_frame :: "frame \<Rightarrow> wtree list \<Rightarrow> (wtree \<times> wtree list) option" where
  "close_frame fr body =
     (case fr of
        Open b t prev \<Rightarrow>
          if b = 0x02 then Some (BlockT t body, prev)
          else if b = 0x03 then Some (LoopT t body, prev)
          else if b = 0x04 then Some (IfT t body, prev) else None
      | OpenElse t thn prev \<Rightarrow> Some (IfElseT t thn body, prev))"

fun parse_code :: "frame list \<Rightarrow> wtree list \<Rightarrow> winstr list \<Rightarrow> wtree list option" where
  "parse_code fs cur [] = (if fs = [] then Some (rev cur) else None)"
| "parse_code fs cur (Blk b t # is) = parse_code (Open b t cur # fs) [] is"
| "parse_code fs cur (i # is) =
     (if i = Plain 0x0b then
        (case fs of
           [] \<Rightarrow> None
         | fr # fs' \<Rightarrow>
             (case close_frame fr (rev cur) of
                None \<Rightarrow> None
              | Some (x, prev) \<Rightarrow> parse_code fs' (x # prev) is))
      else if i = Plain 0x05 then
        (case fs of
           Open b t prev # fs' \<Rightarrow>
             if b = 0x04 then parse_code (OpenElse t (rev cur) prev # fs') [] is else None
         | _ \<Rightarrow> None)
      else parse_code fs (Op i # cur) is)"

lemma parse_leaf: "\<not> delimiter i \<Longrightarrow> parse_code fs cur (i # is) = parse_code fs (Op i # cur) is"
  by (cases i) (auto simp: delimiter_def)

lemma parse_flats_aux:
  assumes "\<And>t cur fs is. t \<in> set ts \<Longrightarrow> leafy t \<Longrightarrow>
      parse_code fs cur (flat1 t @ is) = parse_code fs (t # cur) is"
    and "\<forall>t \<in> set ts. leafy t"
  shows "parse_code fs cur (flats ts @ is) = parse_code fs (rev ts @ cur) is"
  using assms by (induction ts arbitrary: cur) auto

lemma parse_flat1:
  "leafy t \<Longrightarrow> parse_code fs cur (flat1 t @ is) = parse_code fs (t # cur) is"
proof (induction t arbitrary: cur fs "is")
  case (Op i)
  then show ?case by (simp add: parse_leaf)
next
  case (IfElseT t ts es)
  have thn: "parse_code fs cur (flats ts @ is) = parse_code fs (rev ts @ cur) is" for fs cur "is"
    by (rule parse_flats_aux) (use IfElseT in auto)
  have els: "parse_code fs cur (flats es @ is) = parse_code fs (rev es @ cur) is" for fs cur "is"
    by (rule parse_flats_aux) (use IfElseT in auto)
  show ?case by (simp add: thn els close_frame_def)
next
  case (BlockT t ts)
  have "parse_code fs cur (flats ts @ is) = parse_code fs (rev ts @ cur) is" for fs cur "is"
    by (rule parse_flats_aux) (use BlockT in auto)
  then show ?case by (simp add: close_frame_def)
next
  case (LoopT t ts)
  have "parse_code fs cur (flats ts @ is) = parse_code fs (rev ts @ cur) is" for fs cur "is"
    by (rule parse_flats_aux) (use LoopT in auto)
  then show ?case by (simp add: close_frame_def)
next
  case (IfT t ts)
  have "parse_code fs cur (flats ts @ is) = parse_code fs (rev ts @ cur) is" for fs cur "is"
    by (rule parse_flats_aux) (use IfT in auto)
  then show ?case by (simp add: close_frame_def)
qed

lemma parse_flats: "\<forall>t \<in> set ts. leafy t \<Longrightarrow> parse_code [] [] (flats ts) = Some ts"
  using parse_flats_aux [of ts "[]" "[]" "[]"] parse_flat1 by simp

section \<open>Execution\<close>

type_synonym locals = "nat \<Rightarrow> 32 word"
type_synonym wstate = "locals \<times> 32 word list"

datatype outcome = Norm wstate | Brk nat wstate | Ret wstate | Trap

text \<open>Binary i32 instructions by opcode: first operand below the second on the stack.\<close>

definition i32_binop :: "u8 \<Rightarrow> (32 word \<Rightarrow> 32 word \<Rightarrow> 32 word) option" where
  "i32_binop b = map_of
     [(0x46, \<lambda>x y. of_bool (x = y)), (0x47, \<lambda>x y. of_bool (x \<noteq> y)),
      (0x48, \<lambda>x y. of_bool (sint x < sint y)), (0x49, \<lambda>x y. of_bool (x < y)),
      (0x4a, \<lambda>x y. of_bool (sint y < sint x)), (0x4b, \<lambda>x y. of_bool (y < x)),
      (0x4c, \<lambda>x y. of_bool (sint x \<le> sint y)), (0x4d, \<lambda>x y. of_bool (x \<le> y)),
      (0x4e, \<lambda>x y. of_bool (sint y \<le> sint x)), (0x4f, \<lambda>x y. of_bool (y \<le> x)),
      (0x6a, \<lambda>x y. x + y), (0x6b, \<lambda>x y. x - y), (0x6c, \<lambda>x y. x * y),
      (0x71, \<lambda>x y. x AND y), (0x72, \<lambda>x y. x OR y), (0x73, \<lambda>x y. x XOR y),
      (0x74, \<lambda>x y. push_bit (unat y mod 32) x), (0x75, \<lambda>x y. signed_drop_bit (unat y mod 32) x),
      (0x76, \<lambda>x y. drop_bit (unat y mod 32) x)] b"

text \<open>Instructions that neither branch nor trap, on the modelled fragment.\<close>

definition prim :: "winstr \<Rightarrow> wstate \<Rightarrow> wstate option" where
  "prim i st =
     (let (l, s) = st in
      case i of
        I32C n \<Rightarrow> Some (l, of_int n # s)
      | Idx b n \<Rightarrow>
          if b = 0x20 then Some (l, l (nat n) # s)
          else if b = 0x21 then (case s of v # s' \<Rightarrow> Some (l(nat n := v), s') | [] \<Rightarrow> None)
          else if b = 0x22 then (case s of v # s' \<Rightarrow> Some (l(nat n := v), v # s') | [] \<Rightarrow> None)
          else None
      | Plain b \<Rightarrow>
          if b = 0x45 then (case s of v # s' \<Rightarrow> Some (l, of_bool (v = 0) # s') | [] \<Rightarrow> None)
          else if b = 0x1a then (case s of v # s' \<Rightarrow> Some (l, s') | [] \<Rightarrow> None)
          else (case i32_binop b of
                  None \<Rightarrow> None
                | Some f \<Rightarrow> (case s of y # x # s' \<Rightarrow> Some (l, f x y # s') | _ \<Rightarrow> None))
      | _ \<Rightarrow> None)"

definition arity :: "val_type option \<Rightarrow> nat" where
  "arity t = (case t of None \<Rightarrow> 0 | Some _ \<Rightarrow> 1)"

text \<open>A block runs on an empty operand stack of its own and leaves its results on the
  enclosing one; a branch to a block ends it, a branch to a loop repeats it.\<close>

inductive exec :: "wtree list \<Rightarrow> wstate \<Rightarrow> outcome \<Rightarrow> bool"
  and exec1 :: "wtree \<Rightarrow> wstate \<Rightarrow> outcome \<Rightarrow> bool" where
  exec_Nil: "exec [] st (Norm st)"
| exec_Cons: "exec1 t st (Norm st') \<Longrightarrow> exec ts st' out \<Longrightarrow> exec (t # ts) st out"
| exec_abrupt: "exec1 t st out \<Longrightarrow> (\<And>st'. out \<noteq> Norm st') \<Longrightarrow> exec (t # ts) st out"
| exec_prim: "prim i st = Some st' \<Longrightarrow> exec1 (Op i) st (Norm st')"
| exec_br: "0 \<le> n \<Longrightarrow> exec1 (Op (Idx 0x0c n)) st (Brk (nat n) st)"
| exec_br_if: "c \<noteq> 0 \<Longrightarrow> 0 \<le> n \<Longrightarrow> exec1 (Op (Idx 0x0d n)) (l, c # s) (Brk (nat n) (l, s))"
| exec_br_if_not: "exec1 (Op (Idx 0x0d n)) (l, 0 # s) (Norm (l, s))"
| exec_return: "exec1 (Op (Plain 0x0f)) st (Ret st)"
| exec_unreachable: "exec1 (Op (Plain 0x00)) st Trap"
| block_norm: "exec ts (l, []) (Norm (l', vs)) \<Longrightarrow> length vs = arity t \<Longrightarrow>
    exec1 (BlockT t ts) (l, s) (Norm (l', vs @ s))"
| block_exit: "exec ts (l, []) (Brk 0 (l', vs)) \<Longrightarrow> arity t \<le> length vs \<Longrightarrow>
    exec1 (BlockT t ts) (l, s) (Norm (l', take (arity t) vs @ s))"
| block_outer: "exec ts (l, []) (Brk (Suc n) st) \<Longrightarrow> exec1 (BlockT t ts) (l, s) (Brk n st)"
| block_ret: "exec ts (l, []) (Ret st) \<Longrightarrow> exec1 (BlockT t ts) (l, s) (Ret st)"
| block_trap: "exec ts (l, []) Trap \<Longrightarrow> exec1 (BlockT t ts) (l, s) Trap"
| loop_norm: "exec ts (l, []) (Norm (l', vs)) \<Longrightarrow> length vs = arity t \<Longrightarrow>
    exec1 (LoopT t ts) (l, s) (Norm (l', vs @ s))"
| loop_again: "exec ts (l, []) (Brk 0 (l', vs)) \<Longrightarrow> exec1 (LoopT t ts) (l', s) out \<Longrightarrow>
    exec1 (LoopT t ts) (l, s) out"
| loop_outer: "exec ts (l, []) (Brk (Suc n) st) \<Longrightarrow> exec1 (LoopT t ts) (l, s) (Brk n st)"
| loop_ret: "exec ts (l, []) (Ret st) \<Longrightarrow> exec1 (LoopT t ts) (l, s) (Ret st)"
| loop_trap: "exec ts (l, []) Trap \<Longrightarrow> exec1 (LoopT t ts) (l, s) Trap"
| if_true: "c \<noteq> 0 \<Longrightarrow> exec1 (BlockT t ts) (l, s) out \<Longrightarrow> exec1 (IfT t ts) (l, c # s) out"
| if_false: "exec1 (IfT t ts) (l, 0 # s) (Norm (l, s))"
| ifelse_true: "c \<noteq> 0 \<Longrightarrow> exec1 (BlockT t ts) (l, s) out \<Longrightarrow>
    exec1 (IfElseT t ts es) (l, c # s) out"
| ifelse_false: "exec1 (BlockT t es) (l, s) out \<Longrightarrow> exec1 (IfElseT t ts es) (l, 0 # s) out"

inductive_cases exec_NilE: "exec [] st out"
inductive_cases exec_ConsE: "exec (t # ts) st out"
inductive_cases exec_OpE: "exec1 (Op i) st out"
inductive_cases exec_BlockE: "exec1 (BlockT t ts) st out"
inductive_cases exec_LoopE: "exec1 (LoopT t ts) st out"
inductive_cases exec_IfE: "exec1 (IfT t ts) (l, c # s) out"
inductive_cases exec_IfElseE: "exec1 (IfElseT t ts es) (l, c # s) out"

lemma exec_append_norm: "exec xs st (Norm st') \<Longrightarrow> exec ys st' out \<Longrightarrow> exec (xs @ ys) st out"
proof (induction xs arbitrary: st)
  case Nil
  then show ?case by (auto elim: exec_NilE)
next
  case (Cons x xs)
  then show ?case by (auto elim!: exec_ConsE intro: exec_Cons)
qed

text \<open>A byte string as a function body: decoded, parsed and executed.\<close>

definition runs_body :: "u8 list \<Rightarrow> wstate \<Rightarrow> outcome \<Rightarrow> bool" where
  "runs_body bs st out \<longleftrightarrow>
     (\<exists>is ts. dcd_instrs bs = Some is \<and> parse_code [] [] is = Some ts \<and> exec ts st out)"

lemma prim_control [simp]:
  "prim (Idx 0x0c n) st = None" "prim (Idx 0x0d n) st = None"
  "prim (Plain 0x0f) st = None" "prim (Plain 0x00) st = None"
  by (cases st; simp add: prim_def i32_binop_def)+

lemma exec_deterministic:
  "exec ts st o1 \<Longrightarrow> exec ts st o2 \<Longrightarrow> o1 = o2"
  "exec1 t st o1 \<Longrightarrow> exec1 t st o2 \<Longrightarrow> o1 = o2"
proof (induction arbitrary: o2 and o2 rule: exec_exec1.inducts)
  case (exec_Nil st)
  then show ?case by (auto elim: exec_NilE)
next
  case (exec_Cons t st st' ts out)
  from exec_Cons.prems exec_Cons.IH show ?case by (metis exec_ConsE outcome.inject(1))
next
  case (exec_abrupt t st out ts)
  from exec_abrupt.prems exec_abrupt.IH exec_abrupt.hyps show ?case by (metis exec_ConsE)
next
  case (loop_again ts l l' vs t s out)
  from loop_again.prems show ?case
    by (rule exec_LoopE) (use loop_again.IH in \<open>force+\<close>)
next
  case (block_norm ts l l' vs t s)
  from block_norm.prems show ?case
    by (rule exec_BlockE) (use block_norm.IH in \<open>force+\<close>)
next
  case (block_exit ts l l' vs t s)
  from block_exit.prems show ?case
    by (rule exec_BlockE) (use block_exit.IH in \<open>force+\<close>)
next
  case (block_outer ts l n st t s)
  from block_outer.prems show ?case
    by (rule exec_BlockE) (use block_outer.IH in \<open>force+\<close>)
next
  case (block_ret ts l st t s)
  from block_ret.prems show ?case
    by (rule exec_BlockE) (use block_ret.IH in \<open>force+\<close>)
next
  case (block_trap ts l t s)
  from block_trap.prems show ?case
    by (rule exec_BlockE) (use block_trap.IH in \<open>force+\<close>)
next
  case (loop_norm ts l l' vs t s)
  from loop_norm.prems show ?case
    by (rule exec_LoopE) (use loop_norm.IH in \<open>force+\<close>)
next
  case (loop_outer ts l n st t s)
  from loop_outer.prems show ?case
    by (rule exec_LoopE) (use loop_outer.IH in \<open>force+\<close>)
next
  case (loop_ret ts l st t s)
  from loop_ret.prems show ?case
    by (rule exec_LoopE) (use loop_ret.IH in \<open>force+\<close>)
next
  case (loop_trap ts l t s)
  from loop_trap.prems show ?case
    by (rule exec_LoopE) (use loop_trap.IH in \<open>force+\<close>)
next
  case (exec_prim i st st')
  from exec_prim.prems show ?case by (rule exec_OpE) (use exec_prim.hyps in auto)
next
  case (exec_br n st)
  from exec_br.prems show ?case by (rule exec_OpE) auto
next
  case (exec_br_if c n l s)
  from exec_br_if.prems show ?case by (rule exec_OpE) (use exec_br_if.hyps in auto)
next
  case (exec_br_if_not n l s)
  from exec_br_if_not.prems show ?case by (rule exec_OpE) auto
next
  case (exec_return st)
  from exec_return.prems show ?case by (rule exec_OpE) auto
next
  case (exec_unreachable st)
  from exec_unreachable.prems show ?case by (rule exec_OpE) auto
next
  case (if_true c t ts l s out)
  from if_true.prems show ?case by (rule exec_IfE) (use if_true.IH if_true.hyps(1) in blast)+
next
  case (if_false t ts l s)
  from if_false.prems show ?case by (rule exec_IfE) simp_all
next
  case (ifelse_true c t ts l s out es)
  from ifelse_true.prems show ?case by (rule exec_IfElseE) (use ifelse_true.IH ifelse_true.hyps(1) in blast)+
next
  case (ifelse_false t es l s out ts)
  from ifelse_false.prems show ?case by (rule exec_IfElseE) (use ifelse_false.IH in blast)+
qed

end
