(* ===== verification/Asm_Correct.thy ===== *)
theory Asm_Correct
  imports Wasm_Asm Wasm_Exec
begin

text \<open>
  The expression layer means what it reads: programs written with the combinators of
  \<open>asm.ts\<close>, their source-level meaning, and a compiler-correctness proof. The bytes a
  program's thunk writes, decoded, parsed and executed by the wasm semantics, compute
  exactly the source-level meaning: operand order, short-circuit evaluation, selection,
  conditionals, loops and the counting loop included.
\<close>

section \<open>Programs over the combinators\<close>

datatype i32op =
    OAdd | OSub | OMul | OAnd | OOr | OXor | OShl | OShrU | OEq
  | ONe | OLt | OLe | OGt | OGe | OLtU | OGeU | OGtU | OLeU

fun a_of_op :: "i32op \<Rightarrow> X \<Rightarrow> X \<Rightarrow> X" where
  "a_of_op OAdd = a_add"
| "a_of_op OSub = a_sub"
| "a_of_op OMul = a_mul"
| "a_of_op OAnd = a_and"
| "a_of_op OOr = a_or"
| "a_of_op OXor = a_xor"
| "a_of_op OShl = a_shl"
| "a_of_op OShrU = a_shrU"
| "a_of_op OEq = a_eq"
| "a_of_op ONe = a_ne"
| "a_of_op OLt = a_lt"
| "a_of_op OLe = a_le"
| "a_of_op OGt = a_gt"
| "a_of_op OGe = a_ge"
| "a_of_op OLtU = a_ltU"
| "a_of_op OGeU = a_geU"
| "a_of_op OGtU = a_gtU"
| "a_of_op OLeU = a_leU"

fun op_word :: "i32op \<Rightarrow> 32 word \<Rightarrow> 32 word \<Rightarrow> 32 word" where
  "op_word OAdd x y = x + y"
| "op_word OSub x y = x - y"
| "op_word OMul x y = x * y"
| "op_word OAnd x y = x AND y"
| "op_word OOr x y = x OR y"
| "op_word OXor x y = x XOR y"
| "op_word OShl x y = push_bit (unat y mod 32) x"
| "op_word OShrU x y = drop_bit (unat y mod 32) x"
| "op_word OEq x y = of_bool (x = y)"
| "op_word ONe x y = of_bool (x \<noteq> y)"
| "op_word OLt x y = of_bool (sint x < sint y)"
| "op_word OLe x y = of_bool (sint x \<le> sint y)"
| "op_word OGt x y = of_bool (sint y < sint x)"
| "op_word OGe x y = of_bool (sint y \<le> sint x)"
| "op_word OLtU x y = of_bool (x < y)"
| "op_word OGeU x y = of_bool (y \<le> x)"
| "op_word OGtU x y = of_bool (y < x)"
| "op_word OLeU x y = of_bool (x \<le> y)"

datatype aexp =
    EVar nat
  | EConst int
  | EBin i32op aexp aexp
  | ENot aexp
  | EBoth aexp aexp
  | EEither aexp aexp
  | EAndThen aexp aexp
  | EOrElse aexp aexp
  | ESel aexp aexp aexp
  | ETee nat aexp

datatype astm =
    SPut nat aexp
  | SDrop aexp
  | SDo "astm list"
  | SIf aexp astm
  | SIfElse aexp astm astm
  | SWhile aexp astm
  | SFor nat aexp aexp astm

fun comp_e :: "aexp \<Rightarrow> X" where
  "comp_e (EVar i) = a_l (int i)"
| "comp_e (EConst n) = a_i n"
| "comp_e (EBin p a b) = a_of_op p (comp_e a) (comp_e b)"
| "comp_e (ENot a) = a_not (comp_e a)"
| "comp_e (EBoth a b) = a_both (comp_e a) (comp_e b)"
| "comp_e (EEither a b) = a_either (comp_e a) (comp_e b)"
| "comp_e (EAndThen a b) = a_andThen (comp_e a) (comp_e b)"
| "comp_e (EOrElse a b) = a_orElse (comp_e a) (comp_e b)"
| "comp_e (ESel c a b) = a_sel I32 (comp_e c) (comp_e a) (comp_e b)"
| "comp_e (ETee i a) = a_tee (int i) (comp_e a)"

fun comp_s :: "astm \<Rightarrow> X" where
  "comp_s (SPut i e) = a_put (int i) (comp_e e)"
| "comp_s (SDrop e) = a_drop (comp_e e)"
| "comp_s (SDo ss) = a_do (map comp_s ss)"
| "comp_s (SIf c s) = a_if (comp_e c) (comp_s s) None"
| "comp_s (SIfElse c s1 s2) = a_if (comp_e c) (comp_s s1) (Some (comp_s s2))"
| "comp_s (SWhile c s) = a_while (comp_e c) (comp_s s)"
| "comp_s (SFor i a b s) = a_for (int i) (comp_e a) (comp_e b) (comp_s s)"

section \<open>Source-level meaning\<close>

text \<open>An expression's value and its effect on the locals, operands left to right.\<close>

fun eval_e :: "aexp \<Rightarrow> locals \<Rightarrow> 32 word \<times> locals" where
  "eval_e (EVar i) l = (l i, l)"
| "eval_e (EConst n) l = (of_int n, l)"
| "eval_e (EBin p a b) l =
     (let (x, l1) = eval_e a l; (y, l2) = eval_e b l1 in (op_word p x y, l2))"
| "eval_e (ENot a) l = (let (x, l1) = eval_e a l in (of_bool (x = 0), l1))"
| "eval_e (EBoth a b) l =
     (let (x, l1) = eval_e a l; (y, l2) = eval_e b l1 in (x AND y, l2))"
| "eval_e (EEither a b) l =
     (let (x, l1) = eval_e a l; (y, l2) = eval_e b l1 in (x OR y, l2))"
| "eval_e (EAndThen a b) l =
     (let (x, l1) = eval_e a l in if x \<noteq> 0 then eval_e b l1 else (0, l1))"
| "eval_e (EOrElse a b) l =
     (let (x, l1) = eval_e a l in if x \<noteq> 0 then (1, l1) else eval_e b l1)"
| "eval_e (ESel c a b) l =
     (let (x, l1) = eval_e c l in if x \<noteq> 0 then eval_e a l1 else eval_e b l1)"
| "eval_e (ETee i a) l = (let (x, l1) = eval_e a l in (x, l1(i := x)))"

inductive sexec :: "astm \<Rightarrow> locals \<Rightarrow> locals \<Rightarrow> bool" where
  s_put: "eval_e e l = (v, l1) \<Longrightarrow> sexec (SPut i e) l (l1(i := v))"
| s_drop: "eval_e e l = (v, l1) \<Longrightarrow> sexec (SDrop e) l l1"
| s_nil: "sexec (SDo []) l l"
| s_cons: "sexec s l l1 \<Longrightarrow> sexec (SDo ss) l1 l2 \<Longrightarrow> sexec (SDo (s # ss)) l l2"
| s_if: "eval_e c l = (v, l1) \<Longrightarrow> v \<noteq> 0 \<Longrightarrow> sexec s l1 l2 \<Longrightarrow> sexec (SIf c s) l l2"
| s_if_not: "eval_e c l = (0, l1) \<Longrightarrow> sexec (SIf c s) l l1"
| s_then: "eval_e c l = (v, l1) \<Longrightarrow> v \<noteq> 0 \<Longrightarrow> sexec s1 l1 l2 \<Longrightarrow> sexec (SIfElse c s1 s2) l l2"
| s_else: "eval_e c l = (0, l1) \<Longrightarrow> sexec s2 l1 l2 \<Longrightarrow> sexec (SIfElse c s1 s2) l l2"
| s_while_done: "eval_e c l = (0, l1) \<Longrightarrow> sexec (SWhile c s) l l1"
| s_while: "eval_e c l = (v, l1) \<Longrightarrow> v \<noteq> 0 \<Longrightarrow> sexec s l1 l2 \<Longrightarrow> sexec (SWhile c s) l2 l3 \<Longrightarrow>
    sexec (SWhile c s) l l3"
| s_for: "sexec (SDo [SPut i a, SWhile (EBin OLt (EVar i) b)
      (SDo [s, SPut i (EBin OAdd (EVar i) (EConst 1))])]) l l' \<Longrightarrow> sexec (SFor i a b s) l l'"

inductive_cases s_putE: "sexec (SPut i e) l l'"
inductive_cases s_dropE: "sexec (SDrop e) l l'"
inductive_cases s_nilE: "sexec (SDo []) l l'"
inductive_cases s_consE: "sexec (SDo (s # ss)) l l'"
inductive_cases s_ifE: "sexec (SIf c s) l l'"
inductive_cases s_ifelseE: "sexec (SIfElse c s1 s2) l l'"
inductive_cases s_forE: "sexec (SFor i a b s) l l'"

section \<open>Thunks that compute and thunks that act\<close>

text \<open>\<open>computes x F\<close>: the code \<open>x\<close> emits pushes the value \<open>F\<close> gives and changes the
  locals as \<open>F\<close> does, on any operand stack. \<open>acts x R\<close>: the code takes the locals along
  \<open>R\<close> and leaves the stack as it was.\<close>

definition computes :: "X \<Rightarrow> (locals \<Rightarrow> 32 word \<times> locals) \<Rightarrow> bool" where
  "computes x F \<longleftrightarrow>
     (\<exists>ts. (\<forall>t \<in> set ts. leafy t) \<and> emitsX x (flats ts)
        \<and> (\<forall>l s. exec ts (l, s) (Norm (snd (F l), fst (F l) # s))))"

definition acts :: "X \<Rightarrow> (locals \<Rightarrow> locals \<Rightarrow> bool) \<Rightarrow> bool" where
  "acts x R \<longleftrightarrow>
     (\<exists>ts. (\<forall>t \<in> set ts. leafy t) \<and> emitsX x (flats ts)
        \<and> (\<forall>l l' s. R l l' \<longrightarrow> exec ts (l, s) (Norm (l', s))))"

lemma computesE:
  assumes "computes x F"
  obtains ts where "\<forall>t \<in> set ts. leafy t" and "emitsX x (flats ts)"
    and "\<And>l s. exec ts (l, s) (Norm (snd (F l), fst (F l) # s))"
  using assms by (auto simp: computes_def)

lemma actsE:
  assumes "acts x R"
  obtains ts where "\<forall>t \<in> set ts. leafy t" and "emitsX x (flats ts)"
    and "\<And>l l' s. R l l' \<Longrightarrow> exec ts (l, s) (Norm (l', s))"
  using assms by (auto simp: acts_def)

lemma exec_op: "prim i st = Some st' \<Longrightarrow> exec [Op i] st (Norm st')"
  by (rule exec_Cons [OF exec_prim exec_Nil])

text \<open>Running code for a value, then more code.\<close>

lemma exec_then:
  "exec ts st (Norm st') \<Longrightarrow> exec1 t st' (Norm st'') \<Longrightarrow> exec (ts @ [t]) st (Norm st'')"
  by (rule exec_append_norm) (auto intro: exec_Cons exec_Nil)

lemma computes_op0:
  assumes "emits f [i]" and "\<not> delimiter i" and "\<And>l s. prim i (l, s) = Some (snd (F l), fst (F l) # s)"
  shows "computes (onCode f) F"
  unfolding computes_def
  using emitsX_onCode [OF assms(1)] assms(2) exec_op [OF assms(3)]
  by (intro exI [of _ "[Op i]"]) simp

lemma computes_op1:
  assumes a: "computes a F" and f: "emits f [i]" and i: "\<not> delimiter i"
    and p: "\<And>l v s. prim i (l, v # s) = Some (snd (G v l), fst (G v l) # s)"
  shows "computes (seqs [a, onCode f]) (\<lambda>l. G (fst (F l)) (snd (F l)))"
proof -
  obtain ts where ts: "\<forall>t \<in> set ts. leafy t" "emitsX a (flats ts)"
    "\<And>l s. exec ts (l, s) (Norm (snd (F l), fst (F l) # s))"
    using a by (rule computesE) blast
  have "emitsX (seqs [a, onCode f]) (flats ts @ [i] @ [])"
    by (intro emitsX_Cons emitsX_Nil ts(2) emitsX_onCode f)
  then show ?thesis
    unfolding computes_def
    using ts(1) i exec_append_norm [OF ts(3) exec_op [OF p]]
    by (intro exI [of _ "ts @ [Op i]"]) simp
qed

lemma computes_op2:
  assumes a: "computes a F" and b: "computes b G" and f: "emits f [i]" and i: "\<not> delimiter i"
    and p: "\<And>l x y s. prim i (l, y # x # s) = Some (l, h x y # s)"
  shows "computes (seqs [a, b, onCode f])
           (\<lambda>l. (h (fst (F l)) (fst (G (snd (F l)))), snd (G (snd (F l)))))"
proof -
  obtain ts where ts: "\<forall>t \<in> set ts. leafy t" "emitsX a (flats ts)"
    "\<And>l s. exec ts (l, s) (Norm (snd (F l), fst (F l) # s))"
    using a by (rule computesE) blast
  obtain us where us: "\<forall>t \<in> set us. leafy t" "emitsX b (flats us)"
    "\<And>l s. exec us (l, s) (Norm (snd (G l), fst (G l) # s))"
    using b by (rule computesE) blast
  have "emitsX (seqs [a, b, onCode f]) (flats ts @ flats us @ [i] @ [])"
    by (intro emitsX_Cons emitsX_Nil ts(2) us(2) emitsX_onCode f)
  then show ?thesis
    unfolding computes_def
    using ts(1) us(1) i exec_append_norm [OF ts(3) exec_append_norm [OF us(3) exec_op [OF p]]]
    by (intro exI [of _ "ts @ us @ [Op i]"]) (simp add: ball_Un)
qed

lemma acts_op1:
  assumes a: "computes a F" and f: "emits f [i]" and i: "\<not> delimiter i"
    and p: "\<And>l v s. prim i (l, v # s) = Some (G v l, s)"
  shows "acts (seqs [a, onCode f]) (\<lambda>l l'. l' = G (fst (F l)) (snd (F l)))"
proof -
  obtain ts where ts: "\<forall>t \<in> set ts. leafy t" "emitsX a (flats ts)"
    "\<And>l s. exec ts (l, s) (Norm (snd (F l), fst (F l) # s))"
    using a by (rule computesE) blast
  have "emitsX (seqs [a, onCode f]) (flats ts @ [i] @ [])"
    by (intro emitsX_Cons emitsX_Nil ts(2) emitsX_onCode f)
  then show ?thesis
    unfolding acts_def
    using ts(1) i exec_append_norm [OF ts(3) exec_op [OF p]]
    by (intro exI [of _ "ts @ [Op i]"]) simp
qed

text \<open>A two-armed \<open>if\<close> with one result.\<close>

lemma block_value:
  "exec ts (l, []) (Norm (l', [v])) \<Longrightarrow> exec1 (BlockT (Some t) ts) (l, s) (Norm (l', v # s))"
  using block_norm [of ts l l' "[v]" "Some t" s] by (simp add: arity_def)

lemma computes_ifelse:
  assumes c: "computes c F" and a: "computes a G" and b: "computes b H"
  shows "computes (seqs [c, onCode (ifResult t), a, onCode else_i, b, onCode end_i])
           (\<lambda>l. if fst (F l) \<noteq> 0 then G (snd (F l)) else H (snd (F l)))"
proof -
  obtain ts where ts: "\<forall>t \<in> set ts. leafy t" "emitsX c (flats ts)"
    "\<And>l s. exec ts (l, s) (Norm (snd (F l), fst (F l) # s))"
    using c by (rule computesE) blast
  obtain us where us: "\<forall>t \<in> set us. leafy t" "emitsX a (flats us)"
    "\<And>l s. exec us (l, s) (Norm (snd (G l), fst (G l) # s))"
    using a by (rule computesE) blast
  obtain vs where vs: "\<forall>t \<in> set vs. leafy t" "emitsX b (flats vs)"
    "\<And>l s. exec vs (l, s) (Norm (snd (H l), fst (H l) # s))"
    using b by (rule computesE) blast
  let ?t = "IfElseT (Some t) us vs"
  have "emitsX (seqs [c, onCode (ifResult t), a, onCode else_i, b, onCode end_i])
      (flats ts @ [Blk 0x04 (Some t)] @ flats us @ [Plain 0x05] @ flats vs @ [Plain 0x0b] @ [])"
    by (intro emitsX_Cons emitsX_Nil ts(2) us(2) vs(2) emitsX_methods)
  moreover have "exec (ts @ [?t]) (l, s)
      (Norm (snd (if fst (F l) \<noteq> 0 then G (snd (F l)) else H (snd (F l))),
        fst (if fst (F l) \<noteq> 0 then G (snd (F l)) else H (snd (F l))) # s))" for l s
  proof (rule exec_then [OF ts(3)], cases "fst (F l) = 0")
    case True
    then show "exec1 ?t (snd (F l), fst (F l) # s)
      (Norm (snd (if fst (F l) \<noteq> 0 then G (snd (F l)) else H (snd (F l))),
        fst (if fst (F l) \<noteq> 0 then G (snd (F l)) else H (snd (F l))) # s))"
      by (simp add: ifelse_false block_value vs(3))
  next
    case False
    then show "exec1 ?t (snd (F l), fst (F l) # s)
      (Norm (snd (if fst (F l) \<noteq> 0 then G (snd (F l)) else H (snd (F l))),
        fst (if fst (F l) \<noteq> 0 then G (snd (F l)) else H (snd (F l))) # s))"
      by (simp add: ifelse_true block_value us(3))
  qed
  ultimately show ?thesis
    unfolding computes_def using ts(1) us(1) vs(1)
    by (intro exI [of _ "ts @ [?t]"]) simp
qed

section \<open>Statements\<close>

lemma block_void:
  "exec ts (l, []) (Norm (l', [])) \<Longrightarrow> exec1 (BlockT None ts) (l, s) (Norm (l', s))"
  using block_norm [of ts l l' "[]" None s] by (simp add: arity_def)

lemma acts_mono: "acts x R \<Longrightarrow> (\<And>l l'. Q l l' \<Longrightarrow> R l l') \<Longrightarrow> acts x Q"
  unfolding acts_def by blast

lemma acts_seqs_Nil: "acts (seqs []) (\<lambda>l l'. l' = l)"
  unfolding acts_def using emitsX_Nil exec_Nil by (intro exI [of _ "[]"]) simp

lemma acts_seqs_Cons:
  assumes "acts x R" and "acts (seqs xs) Q"
  shows "acts (seqs (x # xs)) (\<lambda>l l''. \<exists>l'. R l l' \<and> Q l' l'')"
proof -
  obtain ts where ts: "\<forall>t \<in> set ts. leafy t" "emitsX x (flats ts)"
    "\<And>l l' s. R l l' \<Longrightarrow> exec ts (l, s) (Norm (l', s))"
    using assms(1) by (rule actsE) blast
  obtain us where us: "\<forall>t \<in> set us. leafy t" "emitsX (seqs xs) (flats us)"
    "\<And>l l' s. Q l l' \<Longrightarrow> exec us (l, s) (Norm (l', s))"
    using assms(2) by (rule actsE) blast
  have "emitsX (seqs (x # xs)) (flats (ts @ us))"
    using emitsX_Cons [OF ts(2) us(2)] by simp
  then show ?thesis
    unfolding acts_def using ts(1) us(1)
    by (intro exI [of _ "ts @ us"]) (auto intro: exec_append_norm [OF ts(3) us(3)])
qed

lemma acts_if:
  assumes c: "computes c F" and x: "acts x R"
  shows "acts (a_if c x None)
           (\<lambda>l l'. if fst (F l) \<noteq> 0 then R (snd (F l)) l' else l' = snd (F l))"
proof -
  obtain ts where ts: "\<forall>t \<in> set ts. leafy t" "emitsX c (flats ts)"
    "\<And>l s. exec ts (l, s) (Norm (snd (F l), fst (F l) # s))"
    using c by (rule computesE) blast
  obtain us where us: "\<forall>t \<in> set us. leafy t" "emitsX x (flats us)"
    "\<And>l l' s. R l l' \<Longrightarrow> exec us (l, s) (Norm (l', s))"
    using x by (rule actsE) blast
  have "emitsX (seqs [c, onCode ifVoid, x, onCode end_i])
      (flats ts @ [Blk 0x04 None] @ flats us @ [Plain 0x0b] @ [])"
    by (intro emitsX_Cons emitsX_Nil ts(2) us(2) emitsX_methods)
  then have "emitsX (a_if c x None) (flats (ts @ [IfT None us]))"
    by (simp add: a_if_def del: seqs.simps)
  moreover have "exec (ts @ [IfT None us]) (l, s) (Norm (l', s))"
    if "if fst (F l) \<noteq> 0 then R (snd (F l)) l' else l' = snd (F l)" for l l' s
    using that by (intro exec_then [OF ts(3)])
      (cases "fst (F l) = 0", auto simp: if_false intro!: if_true block_void us(3))
  ultimately show ?thesis
    unfolding acts_def using ts(1) us(1)
    by (intro exI [of _ "ts @ [IfT None us]"]) simp
qed

lemma acts_ifelse:
  assumes c: "computes c F" and x: "acts x R" and y: "acts y Q"
  shows "acts (a_if c x (Some y))
           (\<lambda>l l'. if fst (F l) \<noteq> 0 then R (snd (F l)) l' else Q (snd (F l)) l')"
proof -
  obtain ts where ts: "\<forall>t \<in> set ts. leafy t" "emitsX c (flats ts)"
    "\<And>l s. exec ts (l, s) (Norm (snd (F l), fst (F l) # s))"
    using c by (rule computesE) blast
  obtain us where us: "\<forall>t \<in> set us. leafy t" "emitsX x (flats us)"
    "\<And>l l' s. R l l' \<Longrightarrow> exec us (l, s) (Norm (l', s))"
    using x by (rule actsE) blast
  obtain vs where vs: "\<forall>t \<in> set vs. leafy t" "emitsX y (flats vs)"
    "\<And>l l' s. Q l l' \<Longrightarrow> exec vs (l, s) (Norm (l', s))"
    using y by (rule actsE) blast
  have "emitsX (seqs [c, onCode ifVoid, x, onCode else_i, y, onCode end_i])
      (flats ts @ [Blk 0x04 None] @ flats us @ [Plain 0x05] @ flats vs @ [Plain 0x0b] @ [])"
    by (intro emitsX_Cons emitsX_Nil ts(2) us(2) vs(2) emitsX_methods)
  then have "emitsX (a_if c x (Some y)) (flats (ts @ [IfElseT None us vs]))"
    by (simp add: a_if_def del: seqs.simps)
  moreover have "exec (ts @ [IfElseT None us vs]) (l, s) (Norm (l', s))"
    if "if fst (F l) \<noteq> 0 then R (snd (F l)) l' else Q (snd (F l)) l'" for l l' s
    using that by (intro exec_then [OF ts(3)])
      (cases "fst (F l) = 0", auto intro!: ifelse_false ifelse_true block_void us(3) vs(3))
  ultimately show ?thesis
    unfolding acts_def using ts(1) us(1) vs(1)
    by (intro exI [of _ "ts @ [IfElseT None us vs]"]) simp
qed

text \<open>The iterations of a loop with test \<open>F\<close> and body \<open>R\<close>.\<close>

inductive iterates :: "(locals \<Rightarrow> 32 word \<times> locals) \<Rightarrow> (locals \<Rightarrow> locals \<Rightarrow> bool) \<Rightarrow> locals \<Rightarrow> locals \<Rightarrow> bool"
  for F R where
  it_done: "fst (F l) = 0 \<Longrightarrow> iterates F R l (snd (F l))"
| it_step: "fst (F l) \<noteq> 0 \<Longrightarrow> R (snd (F l)) l1 \<Longrightarrow> iterates F R l1 l2 \<Longrightarrow> iterates F R l l2"

lemma prim_eqz: "prim (Plain 0x45) (l, v # s) = Some (l, of_bool (v = 0) # s)"
  by (simp add: prim_def)

lemma acts_while:
  assumes c: "computes c F" and x: "acts x R"
  shows "acts (a_while c x) (iterates F R)"
proof -
  obtain ts where ts: "\<forall>t \<in> set ts. leafy t" "emitsX c (flats ts)"
    "\<And>l s. exec ts (l, s) (Norm (snd (F l), fst (F l) # s))"
    using c by (rule computesE) blast
  obtain us where us: "\<forall>t \<in> set us. leafy t" "emitsX x (flats us)"
    "\<And>l l' s. R l l' \<Longrightarrow> exec us (l, s) (Norm (l', s))"
    using x by (rule actsE) blast
  let ?test = "ts @ [Op (Plain 0x45)]"
  let ?body = "?test @ Op (Idx 0x0d 1) # us @ [Op (Idx 0x0c 0)]"
  let ?w = "[BlockT None [LoopT None ?body]]"
  have "emitsX (a_while c x)
      ([Blk 0x02 None] @ [Blk 0x03 None] @ flats ts @ [Plain 0x45] @ [Idx 0x0d 1] @ flats us
        @ [Idx 0x0c 0] @ [Plain 0x0b] @ [Plain 0x0b] @ [])"
    unfolding a_while_def by (intro emitsX_Cons emitsX_Nil ts(2) us(2) emitsX_methods)
  then have "emitsX (a_while c x) (flats ?w)" by simp
  moreover have test: "exec ?test (l, []) (Norm (snd (F l), [of_bool (fst (F l) = 0)]))" for l
    by (rule exec_append_norm [OF ts(3) exec_op [OF prim_eqz]])
  have leave: "exec ?body (l, []) (Brk 1 (snd (F l), []))" if "fst (F l) = 0" for l
  proof (rule exec_append_norm [OF test])
    show "exec (Op (Idx 0x0d 1) # us @ [Op (Idx 0x0c 0)])
        (snd (F l), [of_bool (fst (F l) = 0)]) (Brk 1 (snd (F l), []))"
      using that exec_abrupt [OF exec_br_if [of 1 1 "snd (F l)" "[]"]] by simp
  qed
  have again: "exec ?body (l, []) (Brk 0 (l1, []))" if "fst (F l) \<noteq> 0" "R (snd (F l)) l1" for l l1
  proof (rule exec_append_norm [OF test])
    have "exec (us @ [Op (Idx 0x0c 0)]) (snd (F l), []) (Brk 0 (l1, []))"
      using exec_append_norm [OF us(3) [OF that(2)] exec_abrupt [OF exec_br [of 0]]] by simp
    then show "exec (Op (Idx 0x0d 1) # us @ [Op (Idx 0x0c 0)])
        (snd (F l), [of_bool (fst (F l) = 0)]) (Brk 0 (l1, []))"
      using that(1) by (simp add: exec_Cons [OF exec_br_if_not])
  qed
  have "exec1 (LoopT None ?body) (l, []) (Brk 0 (l', []))" if "iterates F R l l'" for l l'
    using that
  proof (induction rule: iterates.induct)
    case (it_done l)
    then show ?case using loop_outer [of ?body l 0] leave by simp
  next
    case (it_step l l1 l2)
    then show ?case using loop_again [OF again] by blast
  qed
  then have "exec [LoopT None ?body] (l, []) (Brk 0 (l', []))" if "iterates F R l l'" for l l'
    using that by (intro exec_abrupt) simp_all
  then have "exec1 (BlockT None [LoopT None ?body]) (l, s) (Norm (l', s))"
    if "iterates F R l l'" for l l' s
    using block_exit [of "[LoopT None ?body]" l l' "[]" None s] that by (simp add: arity_def)
  then have "exec ?w (l, s) (Norm (l', s))" if "iterates F R l l'" for l l' s
    using that by (blast intro: exec_Cons exec_Nil)
  ultimately show ?thesis
    unfolding acts_def using ts(1) us(1)
    by (intro exI [of _ ?w]) (auto simp: delimiter_def)
qed

section \<open>Compiler correctness\<close>

lemmas a_op_defs = a_add_def a_sub_def a_mul_def a_and_def a_or_def a_xor_def a_shl_def a_shrU_def
  a_eq_def a_ne_def a_lt_def a_le_def a_gt_def a_ge_def a_ltU_def a_geU_def a_gtU_def a_leU_def
  a_bin_def

lemma computes_of_op:
  assumes "computes a F" and "computes b G"
  shows "computes (a_of_op p a b)
           (\<lambda>l. (op_word p (fst (F l)) (fst (G (snd (F l)))), snd (G (snd (F l)))))"
  by (cases p; simp only: a_of_op.simps a_op_defs;
      rule computes_op2 [OF assms]; (rule emits_methods)?; simp add: delimiter_def prim_def i32_binop_def)

lemma computes_comp_e: "computes (comp_e e) (eval_e e)"
proof (induction e)
  case (EVar i)
  show ?case unfolding comp_e.simps a_l_def
    by (rule computes_op0 [where i = "Idx 0x20 (int i)"])
      (auto simp: delimiter_def prim_def intro: emits_methods)
next
  case (EConst n)
  show ?case unfolding comp_e.simps a_i_def
    by (rule computes_op0 [where i = "I32C n"])
      (auto simp: delimiter_def prim_def intro: emits_methods)
next
  case (EBin p a b)
  then show ?case
    using computes_of_op [OF EBin.IH, of p] by (simp add: case_prod_beta Let_def)
next
  case (ENot a)
  have "computes (seqs [comp_e a, onCode i32Eqz])
      (\<lambda>l. (\<lambda>v l. (of_bool (v = 0), l)) (fst (eval_e a l)) (snd (eval_e a l)))"
    by (rule computes_op1 [OF ENot.IH, where i = "Plain 0x45"])
      (auto simp: delimiter_def prim_eqz intro: emits_methods)
  then show ?case by (simp add: a_not_def case_prod_beta Let_def del: seqs.simps)
next
  case (EBoth a b)
  then show ?case
    using computes_of_op [OF EBoth.IH, of OAnd] by (simp add: a_both_def case_prod_beta Let_def)
next
  case (EEither a b)
  then show ?case
    using computes_of_op [OF EEither.IH, of OOr] by (simp add: a_either_def case_prod_beta Let_def)
next
  case (EAndThen a b)
  have "computes (onCode (i32Const 0)) (\<lambda>l. (0, l))"
    by (rule computes_op0 [where i = "I32C 0"])
      (auto simp: delimiter_def prim_def intro: emits_methods)
  from computes_ifelse [OF EAndThen.IH this, of I32] show ?case
    by (simp add: a_andThen_def case_prod_beta Let_def if_distrib del: seqs.simps)
next
  case (EOrElse a b)
  have "computes (onCode (i32Const 1)) (\<lambda>l. (1, l))"
    by (rule computes_op0 [where i = "I32C 1"])
      (auto simp: delimiter_def prim_def intro: emits_methods)
  from computes_ifelse [OF EOrElse.IH(1) this EOrElse.IH(2), of I32] show ?case
    by (simp add: a_orElse_def case_prod_beta Let_def if_distrib del: seqs.simps)
next
  case (ESel c a b)
  from computes_ifelse [OF ESel.IH, of I32] show ?case
    by (simp add: a_sel_def case_prod_beta Let_def del: seqs.simps)
next
  case (ETee i a)
  have "computes (seqs [comp_e a, onCode (localTee (int i))])
      (\<lambda>l. (\<lambda>v l. (v, l(i := v))) (fst (eval_e a l)) (snd (eval_e a l)))"
    by (rule computes_op1 [OF ETee.IH, where i = "Idx 0x22 (int i)"])
      (auto simp: delimiter_def prim_def intro: emits_methods)
  then show ?case by (simp add: a_tee_def case_prod_beta Let_def del: seqs.simps)
qed

lemma acts_put: "computes a F \<Longrightarrow> acts (a_put (int i) a) (\<lambda>l l'. l' = (snd (F l))(i := fst (F l)))"
  unfolding a_put_def
  by (rule acts_op1 [where i = "Idx 0x21 (int i)" and G = "\<lambda>v l. l(i := v)"])
    (auto simp: delimiter_def prim_def intro: emits_methods)

lemma acts_drop: "computes a F \<Longrightarrow> acts (a_drop a) (\<lambda>l l'. l' = snd (F l))"
  unfolding a_drop_def
  by (rule acts_op1 [where i = "Plain 0x1a" and G = "\<lambda>v l. l"])
    (auto simp: delimiter_def prim_def intro: emits_methods)

lemma while_iterates:
  assumes "sexec st l l'" and "st = SWhile c s"
  shows "iterates (eval_e c) (sexec s) l l'"
  using assms
proof (induction rule: sexec.induct)
  case (s_while_done c' l l1 s')
  then show ?case using it_done [of "eval_e c" l "sexec s"] by simp
next
  case (s_while c' l v l1 s' l2 l3)
  then show ?case using it_step [of "eval_e c" l "sexec s" l2 l3] by simp
qed simp_all

lemma acts_comp_s: "acts (comp_s s) (sexec s)"
proof (induction s)
  case (SPut i e)
  show ?case unfolding comp_s.simps
    by (rule acts_mono [OF acts_put [OF computes_comp_e]]) (auto elim!: s_putE)
next
  case (SDrop e)
  show ?case unfolding comp_s.simps
    by (rule acts_mono [OF acts_drop [OF computes_comp_e]]) (auto elim!: s_dropE)
next
  case (SDo ss)
  then show ?case
  proof (induction ss)
    case Nil
    show ?case unfolding comp_s.simps a_do_def list.map
      by (rule acts_mono [OF acts_seqs_Nil]) (auto elim: s_nilE)
  next
    case (Cons s ss)
    then have "acts (comp_s s) (sexec s)" "acts (seqs (map comp_s ss)) (sexec (SDo ss))"
      by (simp_all add: a_do_def)
    then show ?case unfolding comp_s.simps a_do_def list.map
      by (rule acts_mono [OF acts_seqs_Cons]) (auto elim: s_consE)
  qed
next
  case (SIf c s)
  show ?case unfolding comp_s.simps
    by (rule acts_mono [OF acts_if [OF computes_comp_e SIf.IH]]) (auto elim!: s_ifE)
next
  case (SIfElse c s1 s2)
  show ?case unfolding comp_s.simps
    by (rule acts_mono [OF acts_ifelse [OF computes_comp_e SIfElse.IH]]) (auto elim!: s_ifelseE)
next
  case (SWhile c s)
  show ?case unfolding comp_s.simps
    by (rule acts_mono [OF acts_while [OF computes_comp_e SWhile.IH]]) (blast dest: while_iterates)
next
  case (SFor i a b s)
  let ?inc = "SPut i (EBin OAdd (EVar i) (EConst 1))" and ?test = "EBin OLt (EVar i) b"
  have inc: "acts (comp_s ?inc) (sexec ?inc)" unfolding comp_s.simps
    by (rule acts_mono [OF acts_put [OF computes_comp_e]]) (auto elim!: s_putE)
  have body: "acts (seqs [comp_s s, comp_s ?inc]) (sexec (SDo [s, ?inc]))"
    by (rule acts_mono [OF acts_seqs_Cons [OF SFor.IH acts_seqs_Cons [OF inc acts_seqs_Nil]]])
      (auto elim!: s_consE s_nilE)
  have loop: "acts (a_while (comp_e ?test) (seqs [comp_s s, comp_s ?inc])) (sexec (SWhile ?test (SDo [s, ?inc])))"
    by (rule acts_mono [OF acts_while [OF computes_comp_e body]]) (blast dest: while_iterates)
  have init: "acts (comp_s (SPut i a)) (sexec (SPut i a))" unfolding comp_s.simps
    by (rule acts_mono [OF acts_put [OF computes_comp_e]]) (auto elim!: s_putE)
  have "acts (seqs [comp_s (SPut i a), a_while (comp_e ?test) (seqs [comp_s s, comp_s ?inc])])
      (sexec (SFor i a b s))"
    by (rule acts_mono [OF acts_seqs_Cons [OF init acts_seqs_Cons [OF loop acts_seqs_Nil]]])
      (auto elim!: s_forE s_consE s_nilE)
  then show ?case by (simp add: a_for_def del: seqs.simps)
qed

section \<open>Running the bytes\<close>

lemma runs_body_unique:
  assumes "\<forall>t \<in> set ts. leafy t" and "dcd_instrs bs = Some (flats ts)" and "exec ts st o1"
  shows "runs_body bs st out \<longleftrightarrow> out = o1"
proof -
  have "runs_body bs st out \<longleftrightarrow> exec ts st out"
    unfolding runs_body_def using assms(2) parse_flats [OF assms(1)] by simp
  then show ?thesis using assms(3) by (blast intro: exec_deterministic(1))
qed

lemma computes_runs:
  assumes "computes x F" and "x (new_fn n) = Inr f"
  shows "runs_body (fn_bytes f) (l, s) out \<longleftrightarrow> out = Norm (snd (F l), fst (F l) # s)"
  using assms(1)
proof (rule computesE)
  fix ts
  assume ts: "\<forall>t \<in> set ts. leafy t" "emitsX x (flats ts)"
    "\<And>l s. exec ts (l, s) (Norm (snd (F l), fst (F l) # s))"
  show ?thesis by (rule runs_body_unique [OF ts(1) emitsX_bytes [where x = x] ts(3)]) (fact ts(2) assms(2))+
qed

lemma acts_runs:
  assumes "acts x R" and "x (new_fn n) = Inr f" and "R l l'"
  shows "runs_body (fn_bytes f) (l, s) out \<longleftrightarrow> out = Norm (l', s)"
  using assms(1)
proof (rule actsE)
  fix ts
  assume ts: "\<forall>t \<in> set ts. leafy t" "emitsX x (flats ts)"
    "\<And>l l' s. R l l' \<Longrightarrow> exec ts (l, s) (Norm (l', s))"
  show ?thesis
    by (rule runs_body_unique [OF ts(1) emitsX_bytes [where x = x] ts(3)]) (fact ts(2) assms(2) assms(3))+
qed

text \<open>The counting loop, by induction on the rounds left.\<close>

definition for_step :: "nat \<Rightarrow> (locals \<Rightarrow> locals) \<Rightarrow> locals \<Rightarrow> locals" where
  "for_step i g l = (g l)(i := l i + 1)"

lemma for_loop_runs:
  assumes body: "\<And>l. sexec s l (g l)" and keeps: "\<And>l. g l i = l i"
    and "l i = of_int a" and "- (2 ^ 31) \<le> a" and "b < 2 ^ 31" and "b = a + int n"
  shows "sexec (SWhile (EBin OLt (EVar i) (EConst b))
           (SDo [s, SPut i (EBin OAdd (EVar i) (EConst 1))])) l ((for_step i g ^^ n) l)"
  using assms(3-)
proof (induction n arbitrary: l a)
  case 0
  then show ?case using s_while_done [of "EBin OLt (EVar i) (EConst b)" l l] by simp
next
  case (Suc n)
  let ?inc = "SPut i (EBin OAdd (EVar i) (EConst 1))"
  have sint: "sint (of_int z :: 32 word) = z" if "- (2 ^ 31) \<le> z" "z < 2 ^ 31" for z
    using that by (simp add: signed_of_int signed_take_bit_int_eq_self)
  have "eval_e (EBin OLt (EVar i) (EConst b)) l = (1, l)"
    using Suc.prems sint [of a] sint [of b] by (simp del: of_int_add)
  moreover have "sexec (SDo [s, ?inc]) l (for_step i g l)"
  proof (intro s_cons [OF body] s_cons [OF _ s_nil])
    show "sexec ?inc (g l) (for_step i g l)"
      using s_put [of "EBin OAdd (EVar i) (EConst 1)" "g l" "g l i + 1" "g l" i]
      by (simp add: for_step_def keeps)
  qed
  moreover have "sexec (SWhile (EBin OLt (EVar i) (EConst b)) (SDo [s, ?inc]))
      (for_step i g l) ((for_step i g ^^ n) (for_step i g l))"
    by (rule Suc.IH [of _ "a + 1"]) (use Suc.prems in \<open>simp_all add: for_step_def\<close>)
  ultimately show ?case by (auto intro: s_while simp: funpow_swap1)
qed

lemma for_runs:
  assumes "\<And>l. sexec s l (g l)" and "\<And>l. g l i = l i"
    and "- (2 ^ 31) \<le> a" and "b < 2 ^ 31" and "b = a + int n"
  shows "sexec (SFor i (EConst a) (EConst b) s) l ((for_step i g ^^ n) (l(i := of_int a)))"
proof (intro s_for s_cons [OF _ s_cons [OF _ s_nil]])
  show "sexec (SPut i (EConst a)) l (l(i := of_int a))" by (rule s_put) simp
qed (rule for_loop_runs [of s g i _ a], use assms in simp_all)

section \<open>Properties\<close>

text \<open>C2. Expressions compute their value. For every expression written with the layer's
  i32 combinators, if its thunk emits (no immediate out of range), the function's bytes,
  decoded, parsed and executed from any locals and any operand stack, have exactly one
  outcome: they fall through with the value of the expression on top of the untouched
  stack and the locals as left-to-right evaluation with short circuits leaves them.\<close>

theorem asm_expression_correct:
  assumes "comp_e e (new_fn n) = Inr f"
  shows "runs_body (fn_bytes f) (l, s) out \<longleftrightarrow> out = Norm (snd (eval_e e l), fst (eval_e e l) # s)"
  by (rule computes_runs [OF computes_comp_e assms])

theorem asm_expression_correct_witness:
  "\<exists>f. comp_e (EAndThen (EVar 0) (EBin OSub (ETee 1 (EConst 7)) (EVar 1))) (new_fn 2) = Inr f
     \<and> runs_body (fn_bytes f) (\<lambda>_. 3, [5]) (Norm ((\<lambda>_. 3)(1 := 7), [0, 5]))"
proof -
  let ?e = "EAndThen (EVar 0) (EBin OSub (ETee 1 (EConst 7)) (EVar 1))"
  have "\<not> isl (comp_e ?e (new_fn 2))" by code_simp
  then obtain f where "comp_e ?e (new_fn 2) = Inr f" by (cases "comp_e ?e (new_fn 2)") auto
  then show ?thesis
    using asm_expression_correct [of ?e 2 f "\<lambda>_. 3" "[5]"] by simp
qed

text \<open>C1. Statements run as written. If a statement built with \<open>put\<close>, \<open>drop\<close>, \<open>do\<close>,
  \<open>if\<close>, \<open>while\<close> and \<open>for\<close> runs at source level from locals \<open>l\<close> to \<open>l'\<close>, the emitted
  bytes have exactly one outcome from \<open>l\<close>: they fall through with the locals \<open>l'\<close> and
  the operand stack unchanged. In particular no branch of a loop escapes and none traps.\<close>

theorem asm_statement_correct:
  assumes "comp_s s (new_fn n) = Inr f" and "sexec s l l'"
  shows "runs_body (fn_bytes f) (l, stk) out \<longleftrightarrow> out = Norm (l', stk)"
  by (rule acts_runs [OF acts_comp_s assms])

theorem asm_statement_correct_witness:
  "\<exists>f. comp_s (SIf (EVar 0) (SDo [SPut 1 (EConst 7), SDrop (EVar 1)])) (new_fn 2) = Inr f
     \<and> runs_body (fn_bytes f) (\<lambda>_. 3, [5]) (Norm ((\<lambda>_. 3)(1 := 7), [5]))"
proof -
  let ?s = "SIf (EVar 0) (SDo [SPut 1 (EConst 7), SDrop (EVar 1)])"
  have "\<not> isl (comp_s ?s (new_fn 2))" by code_simp
  then obtain f where f: "comp_s ?s (new_fn 2) = Inr f" by (cases "comp_s ?s (new_fn 2)") auto
  have "sexec (SPut 1 (EConst 7)) (\<lambda>_. 3) ((\<lambda>_. 3)(1 := 7))" by (rule s_put) simp
  moreover have "sexec (SDrop (EVar 1)) ((\<lambda>_. 3)(1 := 7)) ((\<lambda>_. 3)(1 := 7))" by (rule s_drop) simp
  ultimately have "sexec ?s (\<lambda>_. 3) ((\<lambda>_. 3)(1 := 7))"
    by (intro s_if [of "EVar 0" _ 3 "\<lambda>_. 3"] s_cons [OF _ s_cons [OF _ s_nil]]) simp_all
  then show ?thesis
    using f asm_statement_correct [of ?s 2 f "\<lambda>_. 3" "(\<lambda>_. 3)(1 := 7)" "[5]"] by simp
qed

text \<open>C22. The counting loop terminates after exactly \<open>b - a\<close> rounds. For bounds in the
  i32 range and a body that leaves the loop variable alone, the bytes of \<open>for (i = a; i < b)\<close>
  have exactly one outcome: they fall through, and the locals are those of starting
  \<open>i\<close> at \<open>a\<close> and running the body and the increment \<open>b - a\<close> times.\<close>

theorem asm_for_counts:
  assumes "comp_s (SFor i (EConst a) (EConst (a + int n)) s) (new_fn k) = Inr f"
    and "- (2 ^ 31) \<le> a" and "a + int n < 2 ^ 31"
    and "\<And>l. sexec s l (g l)" and "\<And>l. g l i = l i"
  shows "runs_body (fn_bytes f) (l, stk) out \<longleftrightarrow>
           out = Norm ((for_step i g ^^ n) (l(i := of_int a)), stk)"
  by (rule acts_runs [OF acts_comp_s assms(1)]) (rule for_runs, use assms(2-) in simp_all)

theorem asm_for_counts_witness:
  "\<exists>f. comp_s (SFor 0 (EConst 2) (EConst 5) (SPut 1 (EBin OAdd (EVar 1) (EVar 0)))) (new_fn 2) = Inr f
     \<and> runs_body (fn_bytes f) (\<lambda>_. 0, [])
         (Norm ((for_step 0 (\<lambda>l. l(1 := l 1 + l 0)) ^^ 3) ((\<lambda>_. 0)(0 := 2)), []))"
proof -
  let ?b = "SPut 1 (EBin OAdd (EVar 1) (EVar 0))" and ?g = "\<lambda>l::locals. l(1 := l 1 + l 0)"
  let ?s = "SFor 0 (EConst 2) (EConst (2 + int 3)) ?b"
  have "\<not> isl (comp_s ?s (new_fn 2))" by code_simp
  then obtain f where f: "comp_s ?s (new_fn 2) = Inr f" by (cases "comp_s ?s (new_fn 2)") auto
  have "sexec ?b l (?g l)" for l by (rule s_put) simp
  then show ?thesis
    using f asm_for_counts [of 0 2 3 ?b 2 f ?g "\<lambda>_. 0" "[]"] by auto
qed

end
