(* ===== verification/Engine_Reader.thy ===== *)
theory Engine_Reader
  imports Wasm_Types
begin

text \<open>
  The byte reader of \<open>backend/wasm/engine.ts\<close> (class \<open>Reader\<close>) and the in-place rewriting
  of padded LEBs (\<open>readUleb5\<close>, \<open>writeUleb5\<close>). The reader is proved to read back what the
  \<open>ByteWriter\<close> of \<open>bytes.ts\<close> writes, at any position of any file: the contract \<open>reads\<close>
  composes over sequences and counted vectors.
\<close>

section \<open>TextDecoder\<close>

text \<open>\<open>new TextDecoder().decode\<close>: the UTF-8 decoder of the Encoding standard with
  replacement of ill-formed input and without a leading byte order mark. The arguments
  are the bytes still needed, the bounds of the next byte and the bits read so far.\<close>

function (sequential) utf8_dec :: "nat \<Rightarrow> nat \<Rightarrow> nat \<Rightarrow> nat \<Rightarrow> u8 list \<Rightarrow> nat list" where
  "utf8_dec needed lower upper cp [] = (if needed = 0 then [] else [0xfffd])"
| "utf8_dec 0 lower upper cp (b # bs) =
     (let u = unat b in
      if u < 0x80 then u # utf8_dec 0 0x80 0xbf 0 bs
      else if 0xc2 \<le> u \<and> u \<le> 0xdf then utf8_dec 1 0x80 0xbf (u - 0xc0) bs
      else if 0xe0 \<le> u \<and> u \<le> 0xef then
        utf8_dec 2 (if u = 0xe0 then 0xa0 else 0x80) (if u = 0xed then 0x9f else 0xbf) (u - 0xe0) bs
      else if 0xf0 \<le> u \<and> u \<le> 0xf4 then
        utf8_dec 3 (if u = 0xf0 then 0x90 else 0x80) (if u = 0xf4 then 0x8f else 0xbf) (u - 0xf0) bs
      else 0xfffd # utf8_dec 0 0x80 0xbf 0 bs)"
| "utf8_dec (Suc needed) lower upper cp (b # bs) =
     (let u = unat b in
      if u < lower \<or> upper < u then 0xfffd # utf8_dec 0 0x80 0xbf 0 (b # bs)
      else let cp' = cp * 0x40 + (u - 0x80) in
           if needed = 0 then cp' # utf8_dec 0 0x80 0xbf 0 bs
           else utf8_dec needed 0x80 0xbf cp' bs)"
  by pat_completeness auto
termination
  by (relation "measures [\<lambda>(n, lo, up, cp, bs). length bs, \<lambda>(n, lo, up, cp, bs). n]") auto

declare utf8_dec.simps [simp del]

definition utf16_units :: "nat \<Rightarrow> jsstr" where
  "utf16_units u =
     (if u < 0x10000 then [of_nat u]
      else [of_nat (0xd800 + (u - 0x10000) div 0x400), of_nat (0xdc00 + (u - 0x10000) mod 0x400)])"

definition utf8_decode :: "u8 list \<Rightarrow> jsstr" where
  "utf8_decode bs =
     (let bs' = (if take 3 bs = [0xef, 0xbb, 0xbf] then drop 3 bs else bs)
      in concat (map utf16_units (utf8_dec 0 0x80 0xbf 0 bs')))"

section \<open>Reader\<close>

text \<open>A reader is a position in a byte array that may not pass \<open>end\<close>. Only the position
  changes. \<open>end\<close> itself may lie past the array, and a byte read there is \<open>undefined\<close>.\<close>

record reader =
  rd_b :: "u8 list"
  rd_pos :: nat
  rd_end :: nat

type_synonym 'a rd = "reader \<Rightarrow> ('a \<times> reader) res"

definition new_reader :: "u8 list \<Rightarrow> nat \<Rightarrow> nat \<Rightarrow> reader" where
  "new_reader b at e = \<lparr>rd_b = b, rd_pos = at, rd_end = e\<rparr>"

definition bindP :: "'a rd \<Rightarrow> ('a \<Rightarrow> 'b rd) \<Rightarrow> 'b rd" where
  "bindP p f r = bindR (p r) (\<lambda>(a, r'). f a r')"

definition retP :: "'a \<Rightarrow> 'a rd" where
  "retP a r = Inr (a, r)"

definition failP :: "err \<Rightarrow> 'a rd" where
  "failP e r = Inl e"

text \<open>A counted loop that pushes one result per round.\<close>

fun timesP :: "nat \<Rightarrow> 'a rd \<Rightarrow> 'a list rd" where
  "timesP 0 p = retP []"
| "timesP (Suc n) p = bindP p (\<lambda>x. bindP (timesP n p) (\<lambda>xs. retP (x # xs)))"

definition skipP :: "nat \<Rightarrow> unit rd" where
  "skipP n r = Inr ((), r\<lparr>rd_pos := rd_pos r + n\<rparr>)"

definition posP :: "nat rd" where
  "posP r = Inr (rd_pos r, r)"

definition slice_u8 :: "nat \<Rightarrow> nat \<Rightarrow> u8 list \<Rightarrow> u8 list" where
  "slice_u8 a e b = take (e - a) (drop a b)"

definition sliceP :: "nat \<Rightarrow> u8 list rd" where
  "sliceP start r = Inr (slice_u8 start (rd_pos r) (rd_b r), r)"

text \<open>\<open>None\<close> is \<open>undefined\<close>, which reads as 0 under a bitwise operator.\<close>

definition get_u8 :: "u8 list \<Rightarrow> nat \<Rightarrow> u8 option" where
  "get_u8 b i = (if i < length b then Some (b ! i) else None)"

definition num_of :: "u8 option \<Rightarrow> nat" where
  "num_of x = (case x of None \<Rightarrow> 0 | Some b \<Rightarrow> unat b)"

definition rd_u8 :: "u8 option rd" where
  "rd_u8 r =
     (if rd_end r \<le> rd_pos r then Inl (EngineErr ''truncated'')
      else Inr (get_u8 (rd_b r) (rd_pos r), r\<lparr>rd_pos := rd_pos r + 1\<rparr>))"

function rd_uleb_loop :: "nat \<Rightarrow> nat \<Rightarrow> nat rd" where
  "rd_uleb_loop result shift =
     bindP rd_u8 (\<lambda>x.
       let result' = result + (num_of x AND 0x7f) * 2 ^ shift; shift' = shift + 7 in
       if num_of x AND 0x80 = 0 then retP result'
       else if shift' > 35 then failP (EngineErr ''over-long LEB'')
       else rd_uleb_loop result' shift')"
  by pat_completeness auto
termination
  by (relation "measure (\<lambda>(result, shift). 36 - shift)") auto

declare rd_uleb_loop.simps [simp del]

definition rd_uleb :: "nat rd" where
  "rd_uleb = rd_uleb_loop 0 0"

definition rd_name :: "jsstr rd" where
  "rd_name =
     bindP rd_uleb (\<lambda>n r.
       let s = utf8_decode (slice_u8 (rd_pos r) (rd_pos r + n) (rd_b r))
       in Inr (s, r\<lparr>rd_pos := rd_pos r + n\<rparr>))"

definition constExpr :: "u8 list rd" where
  "constExpr =
     bindP posP (\<lambda>start.
     bindP rd_u8 (\<lambda>op.
     bindP (if op = Some 0x41 then bindP rd_uleb (\<lambda>_. retP ())
            else if op = Some 0x42 then bindP rd_uleb (\<lambda>_. retP ())
            else if op = Some 0x44 then skipP 8
            else failP (if op = None then TypeErr else EngineErr ''unexpected constant-expression opcode'')) (\<lambda>_.
     bindP (sliceP start) (\<lambda>body.
     bindP rd_u8 (\<lambda>e.
       if e \<noteq> Some 0x0b then failP (EngineErr ''constant expression longer than one instruction'')
       else retP body)))))"

definition rd_valType :: "u8 option \<Rightarrow> val_type res" where
  "rd_valType code =
     (if code = Some 0x7f then Inr I32
      else if code = Some 0x7e then Inr I64
      else if code = Some 0x7c then Inr F64
      else Inl (if code = None then TypeErr else EngineErr ''value type''))"

section \<open>Five-byte LEBs in place\<close>

definition readUleb5 :: "u8 list \<Rightarrow> nat \<Rightarrow> nat" where
  "readUleb5 b at = (\<Sum>k \<leftarrow> [0..<5]. (num_of (get_u8 b (at + k)) AND 0x7f) * 2 ^ (7 * k))"

text \<open>A write past the end of a typed array has no effect, like \<open>list_update\<close>.\<close>

definition uleb5_byte :: "nat \<Rightarrow> nat \<Rightarrow> u8" where
  "uleb5_byte v k = (let x = (v div 2 ^ (7 * k)) AND 0x7f in of_nat (if k < 4 then x OR 0x80 else x))"

definition writeUleb5 :: "u8 list \<Rightarrow> nat \<Rightarrow> int \<Rightarrow> u8 list res" where
  "writeUleb5 b at v =
     (if v < 0 \<or> v \<ge> 2 ^ 32 then Inl (Uleb5Range v)
      else Inr (foldl (\<lambda>b k. b[at + k := uleb5_byte (nat v) k]) b [0..<5]))"

section \<open>The reading contract\<close>

text \<open>\<open>reads p x bs\<close>: wherever the bytes \<open>bs\<close> lie ahead of the reader's position, within its
  end, the parser \<open>p\<close> returns \<open>x\<close> and moves just past them.\<close>

definition ahead :: "reader \<Rightarrow> u8 list \<Rightarrow> bool" where
  "ahead r bs \<longleftrightarrow> (\<exists>rest. drop (rd_pos r) (rd_b r) = bs @ rest) \<and> rd_pos r + length bs \<le> rd_end r"

definition adv :: "nat \<Rightarrow> reader \<Rightarrow> reader" where
  "adv n r = r\<lparr>rd_pos := rd_pos r + n\<rparr>"

definition reads :: "'a rd \<Rightarrow> 'a \<Rightarrow> u8 list \<Rightarrow> bool" where
  "reads p x bs \<longleftrightarrow> (\<forall>r. ahead r bs \<longrightarrow> p r = Inr (x, adv (length bs) r))"

lemma adv_simps [simp]:
  "adv 0 r = r" "adv m (adv n r) = adv (n + m) r"
  "rd_pos (adv n r) = rd_pos r + n" "rd_b (adv n r) = rd_b r" "rd_end (adv n r) = rd_end r"
  by (simp_all add: adv_def)

lemma bindP_simps [simp]:
  "p r = Inr (x, r') \<Longrightarrow> bindP p f r = f x r'"
  "p r = Inl e \<Longrightarrow> bindP p f r = Inl e"
  by (simp_all add: bindP_def)

lemma ahead_append: "ahead r (a @ b) \<longleftrightarrow> ahead r a \<and> ahead (adv (length a) r) b"
proof
  assume "ahead r (a @ b)"
  then obtain rest where "drop (rd_pos r) (rd_b r) = a @ b @ rest"
    and le: "rd_pos r + length (a @ b) \<le> rd_end r" by (auto simp: ahead_def)
  moreover from this(1) have "drop (length a) (drop (rd_pos r) (rd_b r)) = b @ rest" by simp
  then have "drop (rd_pos r + length a) (rd_b r) = b @ rest" by (simp add: add.commute)
  ultimately show "ahead r a \<and> ahead (adv (length a) r) b"
    by (auto simp: ahead_def)
next
  assume *: "ahead r a \<and> ahead (adv (length a) r) b"
  then obtain r1 r2 where "drop (rd_pos r) (rd_b r) = a @ r1"
    and 2: "drop (rd_pos r + length a) (rd_b r) = b @ r2" by (auto simp: ahead_def)
  then have "drop (length a) (drop (rd_pos r) (rd_b r)) = r1" by simp
  with 2 have "r1 = b @ r2" by (simp add: add.commute)
  with * \<open>drop (rd_pos r) (rd_b r) = a @ r1\<close> show "ahead r (a @ b)" by (auto simp: ahead_def)
qed

lemma ahead_Nil: "ahead r [] \<longleftrightarrow> rd_pos r \<le> rd_end r"
  by (simp add: ahead_def)

lemma reads_bind:
  "reads p x a \<Longrightarrow> reads (f x) y b \<Longrightarrow> reads (bindP p f) y (a @ b)"
  by (simp add: reads_def ahead_append bindP_def)

lemma reads_ret [simp, intro]: "reads (retP x) x []"
  by (simp add: reads_def retP_def)

lemma reads_bind_ret: "reads p x a \<Longrightarrow> f x = retP y \<Longrightarrow> reads (bindP p f) y a"
  using reads_bind [of p x a f y "[]"] by simp

lemma reads_times:
  "catR (map enc xs) = Inr bs \<Longrightarrow> (\<And>x b. x \<in> set xs \<Longrightarrow> enc x = Inr b \<Longrightarrow> reads p (f x) b) \<Longrightarrow>
   reads (timesP (length xs) p) (map f xs) bs"
proof (induction xs arbitrary: bs)
  case (Cons x xs)
  then obtain a b where "enc x = Inr a" "catR (map enc xs) = Inr b" "bs = a @ b" by auto
  moreover from this Cons have "reads p (f x) a" "reads (timesP (length xs) p) (map f xs) b" by simp_all
  moreover from this(2) have "reads (bindP (timesP (length xs) p) (\<lambda>ys. retP (f x # ys))) (map f (x # xs)) b"
    by (rule reads_bind_ret) simp
  ultimately show ?case by (simp add: reads_bind)
qed simp

lemma reads_u8: "reads rd_u8 (Some b) [b]"
  unfolding reads_def
proof (intro allI impI)
  fix r assume "ahead r [b]"
  then obtain rest where d: "drop (rd_pos r) (rd_b r) = b # rest" and "rd_pos r < rd_end r"
    by (auto simp: ahead_def)
  moreover from d have "rd_pos r < length (rd_b r)" by (metis drop_all leI list.distinct(1))
  moreover from this d have "rd_b r ! rd_pos r = b" by (metis Cons_nth_drop_Suc list.inject)
  ultimately show "rd_u8 r = Inr (Some b, adv (length [b]) r)"
    by (simp add: rd_u8_def get_u8_def adv_def)
qed

lemma nat_and_128: "n < 256 \<Longrightarrow> (n :: nat) AND 128 = 0 \<longleftrightarrow> n < 128"
proof -
  assume "n < 256"
  have "n AND 128 = 0 \<longleftrightarrow> \<not> bit n 7" using and_exp_eq_0_iff_not_bit [of n 7] by simp
  also have "\<dots> \<longleftrightarrow> even (n div 128)" by (simp add: bit_iff_odd)
  also have "\<dots> \<longleftrightarrow> n < 128"
  proof (cases "n < 128")
    case False
    then have "n div 128 = 1" using \<open>n < 256\<close> by simp
    with False show ?thesis by simp
  qed simp
  finally show ?thesis .
qed

lemma reads_uleb_loop:
  "n < 128 ^ (6 - k) \<Longrightarrow> k < 6 \<Longrightarrow> reads (rd_uleb_loop v (7 * k)) (v + n * 2 ^ (7 * k)) (leb128 n)"
proof (induction n arbitrary: v k rule: leb128.induct)
  case (1 n)
  show ?case
  proof (cases "n < 128")
    case True
    then have "unat (of_nat n :: u8) = n" by (simp add: unat_of_nat)
    with True show ?thesis
      by (subst rd_uleb_loop.simps, simp only: leb128.simps [of n] if_True)
        (rule reads_bind_ret [OF reads_u8], simp add: num_of_def nat_and_128 nat_and_127)
  next
    case False
    have k: "Suc k < 6"
    proof (rule ccontr)
      assume "\<not> Suc k < 6"
      with \<open>k < 6\<close> have "k = 5" by simp
      with "1.prems"(1) False show False by simp
    qed
    have u: "unat (of_nat (n mod 128 + 128) :: u8) = n mod 128 + 128"
      by (simp only: unat_of_nat) simp
    have "6 - k = Suc (6 - Suc k)" using k by simp
    with "1.prems"(1) have "n div 128 < 128 ^ (6 - Suc k)"
      by (simp add: less_mult_imp_div_less mult.commute)
    from "1.IH" [OF False this k]
    have "reads (rd_uleb_loop (v + n mod 128 * 2 ^ (7 * k)) (7 * Suc k))
        (v + n mod 128 * 2 ^ (7 * k) + n div 128 * 2 ^ (7 * Suc k)) (leb128 (n div 128))" .
    moreover have "v + n mod 128 * 2 ^ (7 * k) + n div 128 * 2 ^ (7 * Suc k) = v + n * 2 ^ (7 * k)"
    proof -
      have "n div 128 * 2 ^ (7 * Suc k) = n div 128 * 128 * 2 ^ (7 * k)" by (simp add: power_add)
      then have "n mod 128 * 2 ^ (7 * k) + n div 128 * 2 ^ (7 * Suc k)
          = (n mod 128 + n div 128 * 128) * 2 ^ (7 * k)" by (simp only: add_mult_distrib)
      then show ?thesis by simp
    qed
    moreover have "leb128 n = [of_nat (n mod 128 + 128)] @ leb128 (n div 128)"
      using False by (simp only: leb128.simps [of n] if_False append_Cons append_Nil)
    ultimately show ?thesis
      using u k
      by (subst rd_uleb_loop.simps, simp only:)
        (rule reads_bind [OF reads_u8], simp add: num_of_def nat_and_128 nat_and_127 add.commute)
  qed
qed

lemma reads_uleb: "n < 2 ^ 42 \<Longrightarrow> reads rd_uleb n (leb128 n)"
  unfolding rd_uleb_def using reads_uleb_loop [of n 0 0] by simp

section \<open>Names\<close>

lemma utf8_dec_scalar:
  assumes "u < 0xd800 \<or> 0xe000 \<le> u" and "u < 0x110000"
  shows "utf8_dec 0 lo up cp (utf8_scalar u @ r) = u # utf8_dec 0 0x80 0xbf 0 r"
proof -
  have w: "unat (of_nat m :: u8) = m" if "m < 256" for m
    using that by (simp add: unat_of_nat)
  have cont: "utf8_dec (Suc n) lo up cp (of_nat (0x80 + m) # bs) =
      (if n = 0 then (cp * 0x40 + m) # utf8_dec 0 0x80 0xbf 0 bs else utf8_dec n 0x80 0xbf (cp * 0x40 + m) bs)"
    if "m < 0x40" "lo \<le> 0x80 + m" "0x80 + m \<le> up" for n lo up cp m bs
    using that by (simp add: utf8_dec.simps w del: of_nat_add)
  define c where "c = u mod 0x40"
  have lt: "c < 0x40" by (simp add: c_def)
  consider "u < 0x80" | "0x80 \<le> u" "u < 0x800" | "0x800 \<le> u" "u < 0x10000" | "0x10000 \<le> u"
    by linarith
  then show ?thesis
  proof cases
    case 1
    then show ?thesis by (simp add: utf8_scalar_def utf8_dec.simps w)
  next
    case 2
    then have "2 \<le> u div 0x40" "u div 0x40 < 0x20" by simp_all
    with 2 show ?thesis
      by (simp add: utf8_scalar_def utf8_dec.simps(2) w One_nat_def [symmetric] cont [of _ _ _ 0, unfolded One_nat_def [symmetric]] del: of_nat_add One_nat_def)
  next
    case 3
    define m where "m = u div 0x1000"
    define k where "k = u div 0x40 mod 0x40"
    have m: "m < 16" using 3 by (simp add: m_def)
    have k: "k < 0x40" by (simp add: k_def)
    have "utf8_dec 0 lo up cp (of_nat (0xe0 + m) # bs) =
        utf8_dec 2 (if m = 0 then 0xa0 else 0x80) (if m = 0xd then 0x9f else 0xbf) m bs" for bs
      using m by (simp add: utf8_dec.simps(2) w del: of_nat_add)
    moreover have eq: "(m * 0x40 + k) * 0x40 + c = u"
      unfolding m_def k_def c_def using div_mult2_eq [of u "0x40" "0x40"] by (simp add: div_mult_mod_eq)
    moreover have "0x20 \<le> k" if "m = 0" using that eq 3 lt by (simp add: algebra_simps)
    moreover have "k \<le> 0x1f" if "m = 0xd" using that eq assms(1) lt k by (auto simp: algebra_simps)
    ultimately show ?thesis using 3 k lt
      by (simp add: utf8_scalar_def c_def [symmetric] m_def [symmetric] k_def [symmetric] numeral_2_eq_2 cont del: of_nat_add)
  next
    case 4
    define m where "m = u div 0x40000"
    define k where "k = u div 0x1000 mod 0x40"
    define j where "j = u div 0x40 mod 0x40"
    have m: "m < 5" using assms(2) by (simp add: m_def)
    have k: "k < 0x40" "j < 0x40" by (simp_all add: k_def j_def)
    have "utf8_dec 0 lo up cp (of_nat (0xf0 + m) # bs) =
        utf8_dec 3 (if m = 0 then 0x90 else 0x80) (if m = 4 then 0x8f else 0xbf) m bs" for bs
      using m by (simp add: utf8_dec.simps(2) w del: of_nat_add)
    moreover have eq: "((m * 0x40 + k) * 0x40 + j) * 0x40 + c = u"
      unfolding m_def k_def j_def c_def
      using div_mult2_eq [of u "0x40" "0x40"] div_mult2_eq [of u "0x1000" "0x40"] by (simp add: div_mult_mod_eq)
    moreover have "0x10 \<le> k" if "m = 0" using that eq 4 k(2) lt by (simp add: algebra_simps)
    moreover have "k \<le> 0xf" if "m = 4" using that eq assms(2) lt by (simp add: algebra_simps)
    ultimately show ?thesis using 4 k lt
      by (simp add: utf8_scalar_def c_def [symmetric] m_def [symmetric] k_def [symmetric] j_def [symmetric] numeral_3_eq_3 cont
          del: of_nat_add)
  qed
qed

text \<open>\<open>String.prototype.isWellFormed\<close>: no lone surrogate.\<close>

fun isWellFormed :: "jsstr \<Rightarrow> bool" where
  "isWellFormed [] = True"
| "isWellFormed (c # cs) =
     (if unat c < 0xd800 \<or> 0xe000 \<le> unat c then isWellFormed cs
      else unat c < 0xdc00 \<and>
        (case cs of [] \<Rightarrow> False
         | d # ds \<Rightarrow> 0xdc00 \<le> unat d \<and> unat d < 0xe000 \<and> isWellFormed ds))"

definition scalar_value :: "nat \<Rightarrow> bool" where
  "scalar_value u \<longleftrightarrow> (u < 0xd800 \<or> 0xe000 \<le> u) \<and> u < 0x110000"

lemma unat16_bound: "unat (c :: 16 word) < 0x10000"
  using unsigned_less [of c] by simp

lemma surrogate_pair:
  assumes "0xd800 \<le> unat c" "unat c < 0xdc00" "0xdc00 \<le> unat d" "unat d < 0xe000"
  shows "utf16_units (0x10000 + (unat c - 0xd800) * 0x400 + (unat d - 0xdc00)) = [c, d]"
proof -
  define h where "h = unat c - 0xd800"
  define l where "l = unat d - 0xdc00"
  have "c = of_nat (0xd800 + h)" "d = of_nat (0xdc00 + l)" "l < 0x400"
    using assms by (simp_all add: h_def l_def del: of_nat_add)
  moreover have "(h * 0x400 + l) div 0x400 = h" "(h * 0x400 + l) mod 0x400 = l"
    using \<open>l < 0x400\<close> by simp_all
  ultimately show ?thesis
    unfolding h_def [symmetric] l_def [symmetric] utf16_units_def by (simp del: of_nat_add)
qed

lemma utf16_roundtrip:
  "isWellFormed s \<Longrightarrow> concat (map utf16_units (utf16_scalars s)) = s \<and> (\<forall>u \<in> set (utf16_scalars s). scalar_value u)"
proof (induction s rule: utf16_scalars.induct)
  case (2 c cs)
  have c: "unat c < 0x10000" by (rule unat16_bound)
  show ?case
  proof (cases "unat c < 0xd800 \<or> 0xe000 \<le> unat c")
    case True
    then have "utf16_scalars (c # cs) = unat c # utf16_scalars cs" by (simp add: Let_def)
    moreover have "utf16_units (unat c) = [c]" "scalar_value (unat c)"
      using True c by (auto simp: utf16_units_def scalar_value_def)
    moreover have "concat (map utf16_units (utf16_scalars cs)) = cs \<and> (\<forall>u \<in> set (utf16_scalars cs). scalar_value u)"
      by (rule "2.IH"(1) [OF refl True]) (use "2.prems" True in simp)
    ultimately show ?thesis by simp
  next
    case False
    with "2.prems" obtain d ds where cs: "cs = d # ds" and w: "isWellFormed ds"
      and r: "0xd800 \<le> unat c" "unat c < 0xdc00" "0xdc00 \<le> unat d" "unat d < 0xe000"
      by (auto split: list.splits)
    let ?u = "0x10000 + (unat c - 0xd800) * 0x400 + (unat d - 0xdc00)"
    have eq: "utf16_scalars (c # cs) = ?u # utf16_scalars ds" using r cs by (simp add: Let_def)
    have "scalar_value ?u" using r by (auto simp: scalar_value_def)
    moreover have "concat (map utf16_units (utf16_scalars ds)) = ds \<and> (\<forall>u \<in> set (utf16_scalars ds). scalar_value u)"
      by (rule "2.IH"(3) [OF refl _ _ cs]) (use r w in auto)
    ultimately show ?thesis unfolding eq using surrogate_pair [OF r] cs by simp
  qed
qed simp

lemma utf8_roundtrip:
  "\<forall>u \<in> set us. scalar_value u \<Longrightarrow> utf8_dec 0 lo up cp (concat (map utf8_scalar us)) = us"
  by (induction us arbitrary: lo up cp) (simp_all add: utf8_dec.simps(1) utf8_dec_scalar scalar_value_def)

lemma utf8_decode_encode:
  assumes w: "isWellFormed s" and bom: "take 1 s \<noteq> [0xfeff]"
  shows "utf8_decode (utf8_encode s) = s"
proof -
  note s = utf16_roundtrip [OF w]
  have d: "utf8_dec 0 0x80 0xbf 0 (utf8_encode s) = utf16_scalars s"
    unfolding utf8_encode_def by (rule utf8_roundtrip) (use s in blast)
  have "take 3 (utf8_encode s) \<noteq> [0xef, 0xbb, 0xbf]"
  proof
    assume "take 3 (utf8_encode s) = [0xef, 0xbb, 0xbf]"
    then obtain r where "utf8_encode s = utf8_scalar 0xfeff @ r"
      using append_take_drop_id [of 3 "utf8_encode s", symmetric] by (simp add: utf8_scalar_def)
    with d have "utf16_scalars s = 0xfeff # utf8_dec 0 0x80 0xbf 0 r"
      using utf8_dec_scalar [of "0xfeff"] by simp
    then have "concat (map utf16_units (utf16_scalars s)) =
        0xfeff # concat (map utf16_units (utf8_dec 0 0x80 0xbf 0 r))"
      by (simp add: utf16_units_def)
    with s have "take 1 s = [0xfeff]" by (metis One_nat_def take_Suc_Cons take0)
    with bom show False ..
  qed
  with d s show ?thesis by (simp add: utf8_decode_def)
qed

lemma ahead_slice: "ahead r bs \<Longrightarrow> slice_u8 (rd_pos r) (rd_pos r + length bs) (rd_b r) = bs"
  by (auto simp: ahead_def slice_u8_def)

text \<open>The strings a name section can carry through the decoder.\<close>

definition plain_name :: "jsstr \<Rightarrow> bool" where
  "plain_name s \<longleftrightarrow> isWellFormed s \<and> take 1 s \<noteq> [0xfeff]"

lemma reads_name:
  assumes "enc_name s = Inr bs" and "plain_name s"
  shows "reads rd_name s bs"
proof -
  let ?u = "utf8_encode s"
  have bs: "bs = leb128 (length ?u) @ ?u" and "length ?u < 2 ^ 42"
    using assms(1) by (auto simp: enc_name_def enc_nat_Inr)
  show ?thesis unfolding rd_name_def bs
  proof (rule reads_bind [OF reads_uleb])
    show "reads (\<lambda>r. let s = utf8_decode (slice_u8 (rd_pos r) (rd_pos r + length ?u) (rd_b r))
        in Inr (s, r\<lparr>rd_pos := rd_pos r + length ?u\<rparr>)) s ?u"
      using assms(2) by (simp add: reads_def ahead_slice utf8_decode_encode plain_name_def adv_def)
  qed fact
qed

section \<open>Readable encodings\<close>

text \<open>A reader routine that reads back an encoding: what a parser of a section needs from
  the routine for one entry.\<close>

locale readable =
  fixes enc :: "'a \<Rightarrow> u8 list res" and rd :: "'a rd" and ok :: "'a \<Rightarrow> bool"
  assumes rd_enc: "enc x = Inr bs \<Longrightarrow> ok x \<Longrightarrow> reads rd x bs"
begin

lemma reads_vec:
  assumes "catR (enc_nat (length xs) # map enc xs) = Inr bs" and "\<forall>x \<in> set xs. ok x"
  shows "reads (bindP rd_uleb (\<lambda>n. timesP n rd)) xs bs"
proof -
  obtain b where b: "catR (map enc xs) = Inr b" "bs = leb128 (length xs) @ b" "length xs < 2 ^ 42"
    using assms(1) by (auto simp: enc_nat_Inr)
  have "reads (timesP (length xs) rd) (map (\<lambda>x. x) xs) b"
    using reads_times [OF b(1), of rd "\<lambda>x. x"] rd_enc assms(2) by blast
  then show ?thesis unfolding b(2) by (auto intro: reads_bind [OF reads_uleb [OF b(3)]])
qed

text \<open>Reading at any place of a file.\<close>

lemma read_at:
  assumes "enc x = Inr bs" and "ok x"
  shows "rd (new_reader (pre @ bs @ post) (length pre) (length pre + length bs + k)) =
    Inr (x, new_reader (pre @ bs @ post) (length pre + length bs) (length pre + length bs + k))"
  using rd_enc [OF assms] by (simp add: reads_def ahead_def new_reader_def adv_def)

end

interpretation uleb_r: readable "\<lambda>n. enc_nat n" rd_uleb "\<lambda>_. True"
  by unfold_locales (auto simp: enc_nat_Inr intro: reads_uleb)

interpretation name_r: readable enc_name rd_name plain_name
  by unfold_locales (rule reads_name)

section \<open>Rewriting in place\<close>

lemma foldl_update:
  "(foldl (\<lambda>b k. b[at + k := f k]) b [0..<n]) = map (\<lambda>i. if at \<le> i \<and> i < at + n then f (i - at) else b ! i) [0..<length b]"
proof (induction n)
  case 0
  show ?case by (auto intro!: nth_equalityI)
next
  case (Suc n)
  show ?case
  proof (intro nth_equalityI)
    fix i assume "i < length (foldl (\<lambda>b k. b[at + k := f k]) b [0..<Suc n])"
    then have "i < length b" by (simp add: Suc.IH)
    then show "foldl (\<lambda>b k. b[at + k := f k]) b [0..<Suc n] ! i =
        map (\<lambda>i. if at \<le> i \<and> i < at + Suc n then f (i - at) else b ! i) [0..<length b] ! i"
      by (cases "i = at + n") (auto simp: Suc.IH)
  qed (simp add: Suc.IH)
qed

lemma unat_uleb5_byte:
  "unat (uleb5_byte v k) = (if k < 4 then v div 2 ^ (7 * k) mod 128 + 128 else v div 2 ^ (7 * k) mod 128)"
  by (simp add: uleb5_byte_def Let_def nat_and_127 or_128_nat unat_of_nat del: of_nat_add)

lemma uleb5_digit: "num_of (Some (uleb5_byte v k)) AND 0x7f = v div 2 ^ (7 * k) mod 128"
  by (simp add: num_of_def nat_and_127 unat_uleb5_byte)

lemma writeUleb5_nth:
  assumes "writeUleb5 b at v = Inr b'" and "i < length b"
  shows "b' ! i = (if at \<le> i \<and> i < at + 5 then uleb5_byte (nat v) (i - at) else b ! i)"
proof -
  have "b' = map (\<lambda>i. if at \<le> i \<and> i < at + 5 then uleb5_byte (nat v) (i - at) else b ! i) [0..<length b]"
    using assms(1) unfolding writeUleb5_def foldl_update by (simp split: if_splits)
  then show ?thesis using assms(2) by simp
qed

lemma writeUleb5_length: "writeUleb5 b at v = Inr b' \<Longrightarrow> length b' = length b"
  unfolding writeUleb5_def foldl_update by (auto split: if_splits)

lemma base128_sum: "v < 128 ^ n \<Longrightarrow> (\<Sum>k \<leftarrow> [0..<n]. v div 2 ^ (7 * k) mod 128 * 2 ^ (7 * k)) = (v :: nat)"
proof (induction n arbitrary: v)
  case (Suc n)
  have "v div 128 ^ n < 128" using Suc.prems by (simp add: less_mult_imp_div_less mult.commute)
  moreover have "(2 :: nat) ^ (7 * n) = 128 ^ n" by (simp add: power_mult)
  moreover have "(\<Sum>k \<leftarrow> [0..<n]. v div 2 ^ (7 * k) mod 128 * 2 ^ (7 * k)) =
      (\<Sum>k \<leftarrow> [0..<n]. (v mod 128 ^ n) div 2 ^ (7 * k) mod 128 * 2 ^ (7 * k))"
  proof (intro arg_cong [where f = sum_list] map_cong refl)
    fix k assume "k \<in> set [0..<n]"
    then have k: "(128 :: nat) ^ n = 2 ^ (7 * k) * (128 * 128 ^ (n - Suc k))"
      by (simp add: power_mult flip: power_add power_Suc)
    show "v div 2 ^ (7 * k) mod 128 * 2 ^ (7 * k) = (v mod 128 ^ n) div 2 ^ (7 * k) mod 128 * 2 ^ (7 * k)"
      unfolding k mod_mult2_eq by (simp add: mod_mult2_eq)
  qed
  ultimately show ?case using Suc.IH [of "v mod 128 ^ n"] by (simp add: mod_div_mult_eq)
qed simp

lemma readUleb5_of_bytes:
  assumes "\<And>k. k < 5 \<Longrightarrow> get_u8 b (at + k) = Some (uleb5_byte v k)" and "v < 2 ^ 35"
  shows "readUleb5 b at = v"
proof -
  have "readUleb5 b at = (\<Sum>k \<leftarrow> [0..<5]. v div 2 ^ (7 * k) mod 128 * 2 ^ (7 * k))"
    unfolding readUleb5_def
    by (intro arg_cong [where f = sum_list] map_cong refl) (simp only: assms(1) uleb5_digit atLeastLessThan_iff set_upt)
  then show ?thesis using base128_sum [of v 5] assms(2) by simp
qed

lemma readUleb5_cong:
  "(\<And>k. k < 5 \<Longrightarrow> get_u8 b (at + k) = get_u8 b' (at + k)) \<Longrightarrow> readUleb5 b at = readUleb5 b' at"
  unfolding readUleb5_def by (intro arg_cong [where f = sum_list] map_cong refl) simp

lemma read_write_uleb5:
  assumes "writeUleb5 b at v = Inr b'" and "at + 5 \<le> length b"
  shows "readUleb5 b' at = nat v"
proof (rule readUleb5_of_bytes)
  show "get_u8 b' (at + k) = Some (uleb5_byte (nat v) k)" if "k < 5" for k
    using assms that writeUleb5_nth [OF assms(1), of "at + k"] writeUleb5_length [OF assms(1)]
    by (simp add: get_u8_def)
  show "nat v < 2 ^ 35" using assms(1) by (auto simp: writeUleb5_def nat_less_iff split: if_splits)
qed

lemma read_write_uleb5_other:
  assumes "writeUleb5 b at v = Inr b'" and "at + 5 \<le> at' \<or> at' + 5 \<le> at"
  shows "readUleb5 b' at' = readUleb5 b at'"
  using assms writeUleb5_nth [OF assms(1)] writeUleb5_length [OF assms(1)]
  by (intro readUleb5_cong) (auto simp: get_u8_def)

lemma dcd_padded:
  assumes "v < 2 ^ 35"
  shows "k \<le> 4 \<Longrightarrow> dcd_uleb (map (uleb5_byte v) [k..<5] @ r) = Some (v div 2 ^ (7 * k), r)"
proof (induction "4 - k" arbitrary: k)
  case 0
  then have "k = 4" by simp
  moreover have "v div 2 ^ 28 < 128" using assms by (simp add: less_mult_imp_div_less)
  moreover have "[4..<5] = [4 :: nat]" by (simp add: upt_conv_Cons)
  ultimately show ?case by (simp add: unat_uleb5_byte)
next
  case (Suc n)
  then have k: "k < 4" and "dcd_uleb (map (uleb5_byte v) [Suc k..<5] @ r) = Some (v div 2 ^ (7 * Suc k), r)"
    by simp_all
  moreover have "[k..<5] = k # [Suc k..<5]" using k by (simp add: upt_conv_Cons)
  moreover have "v div 2 ^ (7 * Suc k) = v div 2 ^ (7 * k) div 128"
    by (simp add: power_add mult.commute [of "128 :: nat"] div_mult2_eq)
  ultimately show ?case by (simp add: unat_uleb5_byte)
qed

lemma writeUleb5_splice:
  assumes "writeUleb5 b at v = Inr b'" and "at + 5 \<le> length b"
  shows "b' = take at b @ map (uleb5_byte (nat v)) [0..<5] @ drop (at + 5) b"
  using assms(2) writeUleb5_nth [OF assms(1)] writeUleb5_length [OF assms(1)]
  by (intro nth_equalityI) (auto simp: nth_append less_diff_conv2 min_def)

section \<open>Properties\<close>

text \<open>C23. Reader and writer agree. Whatever a \<open>ByteWriter\<close> with contents \<open>pre\<close> appends for
  an unsigned number or a name, the engine's \<open>Reader\<close> positioned there reads back the
  number or the name and stops just behind it, whatever follows in the file. (A name has
  to be a well-formed string without a leading byte order mark, which the decoder drops.)\<close>

theorem reader_reads_writer:
  assumes "wf_writer w" and "bytes w = pre"
    and "seqs [uleb (JInt (int n)), name s] w = Inr w'" and "plain_name s"
    and "length (bytes w') \<le> e"
  shows "bindP rd_uleb (\<lambda>m. bindP rd_name (\<lambda>t. retP (m, t))) (new_reader (bytes w' @ post) (length pre) e)
         = Inr ((n, s), new_reader (bytes w' @ post) (length (bytes w')) e)"
proof -
  have "writes (seqs [uleb (JInt (int n)), name s]) (catR [enc_nat n, enc_name s])"
    by (intro outputs_intros)
  with assms(1,3) obtain a b where a: "enc_nat n = Inr a" and b: "enc_name s = Inr b"
    and w': "bytes w' = bytes w @ a @ b"
    by (cases "enc_nat n"; cases "enc_name s") (auto simp: outputs_def dest!: spec [of _ w])
  have "reads (bindP rd_uleb (\<lambda>m. bindP rd_name (\<lambda>t. retP (m, t)))) (n, s) (a @ b)"
    using uleb_r.rd_enc [OF a]
    by (rule reads_bind) (auto intro: reads_bind_ret [OF name_r.rd_enc [OF b assms(4)]])
  then show ?thesis
    using assms(2,5) w' by (simp add: reads_def ahead_def new_reader_def adv_def)
qed

theorem reader_reads_writer_witness:
  "\<exists>w'. seqs [uleb (JInt (int 300)), name (js ''ab'')] new_writer = Inr w'
     \<and> bindP rd_uleb (\<lambda>m. bindP rd_name (\<lambda>t. retP (m, t))) (new_reader (bytes w' @ [7]) 0 6)
         = Inr ((300, js ''ab''), new_reader (bytes w' @ [7]) 5 6)"
proof -
  have u: "utf8_encode (js ''ab'') = [97, 98]"
    by (simp add: utf8_encode_def js_def utf8_scalar_def Let_def)
  have "writes (seqs [uleb (JInt (int 300)), name (js ''ab'')]) (catR [enc_nat 300, enc_name (js ''ab'')])"
    by (intro outputs_intros)
  then obtain w' where w': "seqs [uleb (JInt (int 300)), name (js ''ab'')] new_writer = Inr w'"
    and "bytes w' = leb128 300 @ leb128 2 @ [97, 98]"
    by (auto simp: outputs_def enc_name_def u enc_uleb_def simp del: seqs.simps dest!: spec [of _ new_writer])
  moreover from this(2) have "length (bytes w') = 5" by (simp add: leb128.simps)
  moreover have "plain_name (js ''ab'')" by (simp add: plain_name_def js_def)
  ultimately show ?thesis
    using reader_reads_writer [of new_writer "[]" 300 "js ''ab''" w' 6 "[7]"] by (auto simp del: seqs.simps)
qed

text \<open>C25. In-place re-indexing. For an index in the u32 range and five bytes within the
  array, \<open>writeUleb5\<close> succeeds, keeps the length, changes no byte outside the five,
  \<open>readUleb5\<close> reads the index back, the five bytes are still a padded LEB (four
  continuation bytes, then a final one), and a decoder reads them as that index. Other
  indices are refused.\<close>

theorem uleb5_in_place:
  assumes "at + 5 \<le> length b"
  shows "if 0 \<le> v \<and> v < 2 ^ 32
         then \<exists>b'. writeUleb5 b at v = Inr b' \<and> length b' = length b
            \<and> take at b' = take at b \<and> drop (at + 5) b' = drop (at + 5) b
            \<and> readUleb5 b' at = nat v
            \<and> dcd_uleb (drop at b') = Some (nat v, drop (at + 5) b)
         else writeUleb5 b at v = Inl (Uleb5Range v)"
proof (cases "0 \<le> v \<and> v < 2 ^ 32")
  case True
  then obtain b' where b': "writeUleb5 b at v = Inr b'" by (auto simp: writeUleb5_def)
  have "nat v < 2 ^ 35" using True by (simp add: nat_less_iff)
  then show ?thesis
    using True b' assms writeUleb5_splice [OF b' assms] read_write_uleb5 [OF b' assms]
      writeUleb5_length [OF b'] dcd_padded [of "nat v" 0]
    by simp
qed (auto simp: writeUleb5_def)

theorem uleb5_in_place_witness:
  "\<exists>b'. writeUleb5 [0x10, 0x80, 0x80, 0x80, 0x80, 0x00, 0x0b] 1 300 = Inr b'
     \<and> take 1 b' = [0x10] \<and> drop 6 b' = [0x0b] \<and> readUleb5 b' 1 = 300
     \<and> dcd_uleb (drop 1 b') = Some (300, [0x0b])"
  using uleb5_in_place [of 1 "[0x10, 0x80, 0x80, 0x80, 0x80, 0x00, 0x0b]" 300] by auto

end
