(* ===== verification/Wasm_Engine.thy ===== *)
theory Wasm_Engine
  imports Engine_Reader
begin

text \<open>
  The island engine image (\<open>backend/wasm/engine.ts\<close>): \<open>parseEngine\<close>, section by section in
  the order of the source, with every format check, and the properties of what it lets
  through that \<open>ModuleBuilder.attachEngine\<close> relies on: relocations point at padded LEBs,
  function bodies tile the code section, and the parser always comes to an end.
\<close>

section \<open>The image\<close>

record engine_func_type =
  ft_params :: "val_type list"
  ft_results :: "val_type list"

datatype reloc_space = SpFunc | SpType | SpGlobal | SpTable

record engine_reloc =
  rl_space :: reloc_space
  rl_offset :: nat
  rl_index :: nat

record engine_import =
  im_module :: jsstr
  im_name :: jsstr
  im_type :: nat

record engine_global =
  eg_type :: val_type
  eg_mutable :: bool
  eg_init :: "u8 list"

record engine_image =
  ei_types :: "engine_func_type list"
  ei_imports :: "engine_import list"
  ei_funcTypes :: "nat list"
  ei_tableMin :: nat
  ei_tableMax :: "nat option"
  ei_memoryMin :: nat
  ei_globals :: "engine_global list"
  ei_exports :: "jsstr \<rightharpoonup> nat"
  ei_elemOffset :: "u8 list"
  ei_elemFuncs :: "nat list"
  ei_code :: "u8 list"
  ei_bodies :: "(nat \<times> nat) list"
  ei_relocs :: "engine_reloc list"
  ei_dataSegments :: "u8 list list"
  ei_names :: "nat \<rightharpoonup> jsstr"

section \<open>Sections\<close>

record section_ent =
  sx_id :: "u8 option"
  sx_name :: "jsstr option"
  sx_start :: nat
  sx_end :: nat

definition liftP :: "'a res \<Rightarrow> 'a rd" where
  "liftP x r = bindR x (\<lambda>a. Inr (a, r))"

fun rd_magic :: "u8 list \<Rightarrow> unit rd" where
  "rd_magic [] = retP ()"
| "rd_magic (m # ms) =
     bindP rd_u8 (\<lambda>x. if x \<noteq> Some m then failP (EngineErr ''not a wasm 1.0 binary'') else rd_magic ms)"

definition magic :: "u8 list" where
  "magic = [0x00, 0x61, 0x73, 0x6d, 0x01, 0x00, 0x00, 0x00]"

text \<open>One round of the section walk.\<close>

definition rd_section :: "section_ent rd" where
  "rd_section =
     bindP rd_u8 (\<lambda>i.
     bindP rd_uleb (\<lambda>size r.
       let start = rd_pos r in
       bindR (if i = Some 0
              then bindR (rd_name (new_reader (rd_b r) start (start + size))) (\<lambda>(s, _). Inr (Some s))
              else Inr None) (\<lambda>nm.
       Inr (\<lparr>sx_id = i, sx_name = nm, sx_start = start, sx_end = start + size\<rparr>,
            r\<lparr>rd_pos := start + size\<rparr>))))"

text \<open>A parser that only moves its reader forward, by at least \<open>k\<close> bytes.\<close>

definition moves :: "nat \<Rightarrow> 'a rd \<Rightarrow> bool" where
  "moves k p \<longleftrightarrow>
     (\<forall>r x r'. p r = Inr (x, r') \<longrightarrow> rd_pos r + k \<le> rd_pos r' \<and> rd_b r' = rd_b r \<and> rd_end r' = rd_end r)"

lemma moves_bind: "moves k p \<Longrightarrow> (\<And>x. moves m (f x)) \<Longrightarrow> moves (k + m) (bindP p f)"
  unfolding moves_def bindP_def by (fastforce split: prod.splits)

lemma moves_ret [intro, simp]: "moves 0 (retP x)"
  by (simp add: moves_def retP_def)

lemma moves_fail [intro, simp]: "moves k (failP e)"
  by (simp add: moves_def failP_def)

lemma moves_mono: "moves k p \<Longrightarrow> m \<le> k \<Longrightarrow> moves m p"
  unfolding moves_def by fastforce

lemma moves_u8: "moves 1 rd_u8"
  by (auto simp: moves_def rd_u8_def)

lemma moves_uleb_loop: "moves 1 (rd_uleb_loop v s)"
proof (induction v s rule: rd_uleb_loop.induct)
  case (1 v s)
  have "moves (1 + 0) (rd_uleb_loop v s)"
    by (subst rd_uleb_loop.simps, rule moves_bind [OF moves_u8])
      (auto simp: Let_def intro: moves_mono [OF "1"])
  then show ?case by simp
qed

lemma moves_uleb: "moves 1 rd_uleb"
  unfolding rd_uleb_def by (rule moves_uleb_loop)

lemma moves_section: "moves 2 rd_section"
proof -
  have "moves (1 + (1 + 0)) rd_section"
    unfolding rd_section_def
    by (intro moves_bind moves_u8 moves_uleb) (auto simp: moves_def Let_def)
  then show ?thesis by (simp only: one_add_one add_0_right)
qed

function rd_sections :: "reader \<Rightarrow> section_ent list \<Rightarrow> section_ent list res" where
  "rd_sections r acc =
     (if rd_pos r < length (rd_b r)
      then (case rd_section r of Inl e \<Rightarrow> Inl e | Inr (s, r') \<Rightarrow> rd_sections r' (acc @ [s]))
      else Inr acc)"
  by pat_completeness auto
termination
  by (relation "measure (\<lambda>(r, acc). length (rd_b r) - rd_pos r)")
    (use moves_section in \<open>fastforce simp: moves_def\<close>)+

declare rd_sections.simps [simp del]

definition sec :: "section_ent list \<Rightarrow> u8 \<Rightarrow> section_ent option" where
  "sec sections i = find (\<lambda>s. sx_id s = Some i) sections"

definition custom :: "section_ent list \<Rightarrow> jsstr \<Rightarrow> section_ent option" where
  "custom sections nm = find (\<lambda>s. sx_id s = Some 0 \<and> sx_name s = Some nm) sections"

fun refuse_sections :: "section_ent list \<Rightarrow> unit res" where
  "refuse_sections [] = Inr ()"
| "refuse_sections (s # ss) =
     (if sx_id s = Some 8 then Inl (EngineErr ''a start section'')
      else if sx_id s = Some 12 then Inl (EngineErr ''a DataCount section'')
      else if sx_id s = Some 13 then Inl (EngineErr ''a tag section'')
      else refuse_sections ss)"

text \<open>Running a parser over one section's bytes.\<close>

definition in_section :: "u8 list \<Rightarrow> section_ent \<Rightarrow> 'a rd \<Rightarrow> 'a res" where
  "in_section bs s p = bindR (p (new_reader bs (sx_start s) (sx_end s))) (\<lambda>(x, _). Inr x)"

definition required :: "string \<Rightarrow> section_ent option \<Rightarrow> (section_ent \<Rightarrow> 'a res) \<Rightarrow> 'a res" where
  "required msg s f = (case s of None \<Rightarrow> Inl (EngineErr msg) | Some x \<Rightarrow> f x)"

definition optional :: "'a \<Rightarrow> section_ent option \<Rightarrow> (section_ent \<Rightarrow> 'a res) \<Rightarrow> 'a res" where
  "optional d s f = (case s of None \<Rightarrow> Inr d | Some x \<Rightarrow> f x)"

section \<open>The sections, one by one\<close>

definition rd_val :: "val_type rd" where
  "rd_val = bindP rd_u8 (\<lambda>c. liftP (rd_valType c))"

definition rd_vec :: "'a rd \<Rightarrow> 'a list rd" where
  "rd_vec p = bindP rd_uleb (\<lambda>n. timesP n p)"

definition rd_functype :: "engine_func_type rd" where
  "rd_functype =
     bindP rd_u8 (\<lambda>form.
       if form \<noteq> Some 0x60
       then failP (if form = None then TypeErr else EngineErr ''not a plain function type'')
       else bindP (rd_vec rd_val) (\<lambda>params.
            bindP (rd_vec rd_val) (\<lambda>results.
            retP \<lparr>ft_params = params, ft_results = results\<rparr>)))"

definition parse_types :: "u8 list \<Rightarrow> section_ent list \<Rightarrow> engine_func_type list res" where
  "parse_types bs sections =
     required ''no type section'' (sec sections 1) (\<lambda>s. in_section bs s (rd_vec rd_functype))"

definition rd_import :: "engine_import rd" where
  "rd_import =
     bindP rd_name (\<lambda>m.
     bindP rd_name (\<lambda>n.
     bindP rd_u8 (\<lambda>kind.
       if kind \<noteq> Some 0 then failP (EngineErr ''import is not a function'')
       else bindP rd_uleb (\<lambda>t. retP \<lparr>im_module = m, im_name = n, im_type = t\<rparr>))))"

definition parse_imports :: "u8 list \<Rightarrow> section_ent list \<Rightarrow> engine_import list res" where
  "parse_imports bs sections =
     optional [] (sec sections 2) (\<lambda>s. in_section bs s (rd_vec rd_import))"

definition parse_funcTypes :: "u8 list \<Rightarrow> section_ent list \<Rightarrow> nat list res" where
  "parse_funcTypes bs sections =
     required ''no function section'' (sec sections 3) (\<lambda>s. in_section bs s (rd_vec rd_uleb))"

definition rd_table :: "(nat \<times> nat option) rd" where
  "rd_table =
     bindP rd_uleb (\<lambda>n.
       if n \<noteq> 1 then failP (EngineErr ''more than one table'')
       else bindP rd_u8 (\<lambda>k.
         if k \<noteq> Some 0x70 then failP (EngineErr ''table 0 is not a funcref table'')
         else bindP rd_u8 (\<lambda>flags.
              bindP rd_uleb (\<lambda>tableMin.
                if flags = Some 0x01 then bindP rd_uleb (\<lambda>tableMax. retP (tableMin, Some tableMax))
                else if flags \<noteq> Some 0x00 then failP (EngineErr ''table limits flags'')
                else retP (tableMin, None)))))"

definition parse_table :: "u8 list \<Rightarrow> section_ent list \<Rightarrow> (nat \<times> nat option) res" where
  "parse_table bs sections =
     required ''no table section'' (sec sections 4) (\<lambda>s. in_section bs s rd_table)"

definition rd_memory :: "nat rd" where
  "rd_memory =
     bindP rd_uleb (\<lambda>n.
       if n \<noteq> 1 then failP (EngineErr ''more than one memory'')
       else bindP rd_u8 (\<lambda>flags.
         if flags \<noteq> Some 0x00 then failP (EngineErr ''memory limits flags'')
         else rd_uleb))"

definition parse_memory :: "u8 list \<Rightarrow> section_ent list \<Rightarrow> nat res" where
  "parse_memory bs sections =
     required ''no memory section'' (sec sections 5) (\<lambda>s. in_section bs s rd_memory)"

definition rd_global :: "engine_global rd" where
  "rd_global =
     bindP rd_val (\<lambda>t.
     bindP rd_u8 (\<lambda>mut.
     bindP constExpr (\<lambda>init.
     retP \<lparr>eg_type = t, eg_mutable = (mut = Some 1), eg_init = init\<rparr>)))"

definition parse_globals :: "u8 list \<Rightarrow> section_ent list \<Rightarrow> engine_global list res" where
  "parse_globals bs sections =
     optional [] (sec sections 6) (\<lambda>s. in_section bs s (rd_vec rd_global))"

definition rd_export :: "(jsstr \<times> u8 option \<times> nat) rd" where
  "rd_export =
     bindP rd_name (\<lambda>nm. bindP rd_u8 (\<lambda>kind. bindP rd_uleb (\<lambda>idx. retP (nm, kind, idx))))"

definition set_export :: "(jsstr \<rightharpoonup> nat) \<Rightarrow> jsstr \<times> u8 option \<times> nat \<Rightarrow> (jsstr \<rightharpoonup> nat)" where
  "set_export m = (\<lambda>(nm, kind, idx). if kind = Some 0x00 then m(nm \<mapsto> idx) else m)"

definition parse_exports :: "u8 list \<Rightarrow> section_ent list \<Rightarrow> (jsstr \<rightharpoonup> nat) res" where
  "parse_exports bs sections =
     bindR (optional [] (sec sections 7) (\<lambda>s. in_section bs s (rd_vec rd_export)))
       (\<lambda>es. Inr (foldl set_export Map.empty es))"

definition rd_elem :: "(u8 list \<times> nat list) rd" where
  "rd_elem =
     bindP rd_uleb (\<lambda>n.
       if n \<noteq> 1 then failP (EngineErr ''more than one element segment'')
       else bindP rd_uleb (\<lambda>flags.
         if flags \<noteq> 0 then failP (EngineErr ''element segment flags'')
         else bindP constExpr (\<lambda>off. bindP (rd_vec rd_uleb) (\<lambda>fs. retP (off, fs)))))"

definition parse_elem :: "u8 list \<Rightarrow> section_ent list \<Rightarrow> (u8 list \<times> nat list) res" where
  "parse_elem bs sections =
     required ''no element section'' (sec sections 9) (\<lambda>s. in_section bs s rd_elem)"

definition rd_data :: "u8 list rd" where
  "rd_data =
     bindP posP (\<lambda>start.
     bindP rd_uleb (\<lambda>flags.
       if flags \<noteq> 0 then failP (EngineErr ''data segment flags'')
       else bindP constExpr (\<lambda>_. bindP rd_uleb (\<lambda>n. bindP (skipP n) (\<lambda>_. sliceP start)))))"

definition parse_data :: "u8 list \<Rightarrow> section_ent list \<Rightarrow> u8 list list res" where
  "parse_data bs sections =
     optional [] (sec sections 11) (\<lambda>s. in_section bs s (rd_vec rd_data))"

definition rd_body :: "(nat \<times> nat) rd" where
  "rd_body =
     bindP posP (\<lambda>start. bindP rd_uleb (\<lambda>size. bindP (skipP size) (\<lambda>_. bindP posP (\<lambda>e. retP (start, e)))))"

definition parse_bodies :: "u8 list \<Rightarrow> nat \<Rightarrow> (nat \<times> nat) list res" where
  "parse_bodies code nfuncs =
     bindR (rd_uleb (new_reader code 0 (length code))) (\<lambda>(n, t).
       if n \<noteq> nfuncs then Inl (EngineErr ''code count differs from function count'')
       else bindR (timesP n rd_body t) (\<lambda>(bodies, t').
         if rd_pos t' \<noteq> length code
         then Inl (EngineErr ''trailing bytes after the last function body'')
         else Inr bodies))"

section \<open>Relocations\<close>

definition KEPT_CODE_RELOCS :: "u8 list" where
  "KEPT_CODE_RELOCS = [1, 3, 4, 11]"

definition WITH_ADDEND :: "u8 list" where
  "WITH_ADDEND = [3, 4, 5, 8, 9, 11, 14, 15, 16, 17, 21, 22, 23]"

definition reloc_space_of :: "u8 option \<Rightarrow> reloc_space option res" where
  "reloc_space_of type =
     (if type = Some 0 then Inr (Some SpFunc)
      else if type = Some 6 then Inr (Some SpType)
      else if type = Some 7 then Inr (Some SpGlobal)
      else if type = Some 20 then Inr (Some SpTable)
      else if \<not> (\<exists>t \<in> set KEPT_CODE_RELOCS. type = Some t)
      then Inl (EngineErr ''unknown code relocation type'')
      else Inr None)"

definition has_more :: "u8 list \<Rightarrow> nat \<Rightarrow> bool" where
  "has_more code i \<longleftrightarrow> num_of (get_u8 code i) AND 0x80 \<noteq> 0"

definition check_padded :: "u8 list \<Rightarrow> nat \<Rightarrow> unit res" where
  "check_padded code offset =
     (if \<not> (\<forall>k \<in> set [0..<4]. has_more code (offset + k)) then Inl (EngineErr ''index LEB is not 5 bytes'')
      else if has_more code (offset + 4) then Inl (EngineErr ''index LEB is longer than 5 bytes'')
      else Inr ())"

definition rd_reloc :: "u8 list \<Rightarrow> engine_reloc option rd" where
  "rd_reloc code =
     bindP rd_u8 (\<lambda>type.
     bindP rd_uleb (\<lambda>offset.
     bindP rd_uleb (\<lambda>index.
     bindP (if \<exists>t \<in> set WITH_ADDEND. type = Some t then bindP rd_uleb (\<lambda>_. retP ()) else retP ()) (\<lambda>_.
     bindP (liftP (reloc_space_of type)) (\<lambda>sp.
       case sp of
         None \<Rightarrow> retP None
       | Some space \<Rightarrow>
           bindP (liftP (check_padded code offset)) (\<lambda>_.
           retP (Some \<lparr>rl_space = space, rl_offset = offset, rl_index = readUleb5 code offset\<rparr>)))))))"

fun index_of :: "('a \<Rightarrow> bool) \<Rightarrow> 'a list \<Rightarrow> nat" where
  "index_of P [] = 0"
| "index_of P (x # xs) = (if P x then 0 else Suc (index_of P xs))"

definition rd_relocs :: "u8 list \<Rightarrow> nat \<Rightarrow> engine_reloc option list rd" where
  "rd_relocs code codeIndex =
     bindP rd_name (\<lambda>_.
     bindP rd_uleb (\<lambda>target.
       if target \<noteq> codeIndex then failP (EngineErr ''reloc.CODE targets another section'')
       else rd_vec (rd_reloc code)))"

definition parse_relocs :: "u8 list \<Rightarrow> section_ent list \<Rightarrow> u8 list \<Rightarrow> engine_reloc list res" where
  "parse_relocs bs sections code =
     required ''no reloc.CODE section'' (custom sections (js ''reloc.CODE'')) (\<lambda>s.
       bindR (in_section bs s (rd_relocs code (index_of (\<lambda>x. sx_id x = Some 10) sections)))
         (\<lambda>rs. Inr (List.map_filter (\<lambda>x. x) rs)))"

section \<open>Function names\<close>

definition rd_name_pair :: "(nat \<times> jsstr) rd" where
  "rd_name_pair = bindP rd_uleb (\<lambda>idx. bindP rd_name (\<lambda>nm. retP (idx, nm)))"

text \<open>One round of the name section's loop; the reader ends at the subsection's end.\<close>

definition names_sub :: "(nat \<rightharpoonup> jsstr) \<Rightarrow> (nat \<rightharpoonup> jsstr) rd" where
  "names_sub names =
     bindP rd_u8 (\<lambda>sub.
     bindP rd_uleb (\<lambda>size t.
       let e = rd_pos t + size in
       bindR (if sub = Some 1 then rd_vec rd_name_pair t else Inr ([], t)) (\<lambda>(ps, t').
       Inr (foldl (\<lambda>m (idx, nm). m(idx \<mapsto> nm)) names ps, t'\<lparr>rd_pos := e\<rparr>))))"

lemma moves_times: "moves 0 p \<Longrightarrow> moves 0 (timesP n p)"
proof (induction n)
  case (Suc n)
  have "moves (0 + (0 + 0)) (timesP (Suc n) p)"
    unfolding timesP.simps by (intro moves_bind moves_ret Suc)
  then show ?case by simp
qed simp

lemma moves_vec: "moves 0 p \<Longrightarrow> moves 1 (rd_vec p)"
  unfolding rd_vec_def using moves_bind [OF moves_uleb, of 0 "\<lambda>n. timesP n p"] moves_times [of p] by simp

lemma moves_name: "moves 1 rd_name"
  unfolding rd_name_def
  using moves_bind [OF moves_uleb, of 0 "\<lambda>n r. let s = utf8_decode (slice_u8 (rd_pos r) (rd_pos r + n) (rd_b r))
       in Inr (s, r\<lparr>rd_pos := rd_pos r + n\<rparr>)"]
  by (simp add: moves_def)

lemma moves_name_pair: "moves 2 rd_name_pair"
proof -
  have "moves (1 + (1 + 0)) rd_name_pair"
    unfolding rd_name_pair_def by (intro moves_bind moves_uleb moves_name moves_ret)
  then show ?thesis by (simp only: one_add_one add_0_right)
qed

lemma moves_names_sub: "moves 2 (names_sub names)"
proof -
  have "moves 0 (rd_vec rd_name_pair)"
    by (rule moves_mono [OF moves_vec [OF moves_mono [OF moves_name_pair]]]) simp_all
  then have "moves (1 + (1 + 0)) (names_sub names)"
    unfolding names_sub_def
    by (intro moves_bind moves_u8 moves_uleb) (fastforce simp: moves_def Let_def split: if_splits)
  then show ?thesis by (simp only: one_add_one add_0_right)
qed

function names_loop :: "nat \<Rightarrow> (nat \<rightharpoonup> jsstr) \<Rightarrow> reader \<Rightarrow> (nat \<rightharpoonup> jsstr) res" where
  "names_loop e names t =
     (if rd_pos t < e
      then (case names_sub names t of Inl er \<Rightarrow> Inl er | Inr (names', t') \<Rightarrow> names_loop e names' t')
      else Inr names)"
  by pat_completeness auto
termination
  by (relation "measure (\<lambda>(e, names, t). e - rd_pos t)")
    (use moves_names_sub in \<open>fastforce simp: moves_def\<close>)+

declare names_loop.simps [simp del]

definition parse_names :: "u8 list \<Rightarrow> section_ent list \<Rightarrow> (nat \<rightharpoonup> jsstr) res" where
  "parse_names bs sections =
     optional Map.empty (custom sections (js ''name'')) (\<lambda>s.
       bindR (rd_name (new_reader bs (sx_start s) (sx_end s))) (\<lambda>(_, t).
       names_loop (sx_end s) Map.empty t))"

section \<open>parseEngine\<close>

definition parseEngine :: "u8 list \<Rightarrow> engine_image res" where
  "parseEngine bs =
     bindR (rd_magic magic (new_reader bs 0 (length bs))) (\<lambda>(_, r).
     bindR (rd_sections r []) (\<lambda>sections.
     bindR (refuse_sections sections) (\<lambda>_.
     bindR (parse_types bs sections) (\<lambda>types.
     bindR (parse_imports bs sections) (\<lambda>imports.
     bindR (parse_funcTypes bs sections) (\<lambda>funcTypes.
     bindR (parse_table bs sections) (\<lambda>(tableMin, tableMax).
     bindR (parse_memory bs sections) (\<lambda>memoryMin.
     bindR (parse_globals bs sections) (\<lambda>globals.
     bindR (parse_exports bs sections) (\<lambda>exports.
     bindR (parse_elem bs sections) (\<lambda>(elemOffset, elemFuncs).
     bindR (parse_data bs sections) (\<lambda>dataSegments.
     required ''no code section'' (sec sections 10) (\<lambda>codeSec.
     let code = slice_u8 (sx_start codeSec) (sx_end codeSec) bs in
     bindR (parse_bodies code (length funcTypes)) (\<lambda>bodies.
     bindR (parse_relocs bs sections code) (\<lambda>relocs.
     bindR (parse_names bs sections) (\<lambda>names.
     Inr \<lparr>ei_types = types, ei_imports = imports, ei_funcTypes = funcTypes,
          ei_tableMin = tableMin, ei_tableMax = tableMax, ei_memoryMin = memoryMin,
          ei_globals = globals, ei_exports = exports, ei_elemOffset = elemOffset,
          ei_elemFuncs = elemFuncs, ei_code = code, ei_bodies = bodies, ei_relocs = relocs,
          ei_dataSegments = dataSegments, ei_names = names\<rparr>))))))))))))))))"

section \<open>What the checks guarantee\<close>

text \<open>The function bodies tile the code section: the first starts behind the count, each
  next one where the last ended, and the last ends with the section.\<close>

fun tiles :: "nat \<Rightarrow> (nat \<times> nat) list \<Rightarrow> nat \<Rightarrow> bool" where
  "tiles a [] z \<longleftrightarrow> a = z"
| "tiles a ((s, e) # bs) z \<longleftrightarrow> s = a \<and> s < e \<and> tiles e bs z"

lemma bindP_eq_Inr: "bindP p f r = Inr y \<longleftrightarrow> (\<exists>x r'. p r = Inr (x, r') \<and> f x r' = Inr y)"
  by (auto simp: bindP_def)

lemma rd_body_tile:
  assumes "rd_body r = Inr ((s, e), r')"
  shows "s = rd_pos r \<and> s < e \<and> rd_pos r' = e \<and> rd_b r' = rd_b r \<and> rd_end r' = rd_end r"
proof -
  obtain n r1 where "rd_uleb r = Inr (n, r1)"
    and *: "s = rd_pos r" "e = rd_pos r1 + n" "r' = r1\<lparr>rd_pos := rd_pos r1 + n\<rparr>"
    using assms by (auto simp: rd_body_def bindP_eq_Inr posP_def skipP_def retP_def)
  then have "rd_pos r + 1 \<le> rd_pos r1" "rd_b r1 = rd_b r" "rd_end r1 = rd_end r"
    using moves_uleb by (auto simp: moves_def)
  with * show ?thesis by simp
qed

lemma times_body_tiles:
  "timesP n rd_body r = Inr (bodies, r') \<Longrightarrow> tiles (rd_pos r) bodies (rd_pos r') \<and> length bodies = n"
proof (induction n arbitrary: r bodies)
  case 0
  then show ?case by (simp add: retP_def)
next
  case (Suc n)
  then obtain s e r1 bs where "rd_body r = Inr ((s, e), r1)" "timesP n rd_body r1 = Inr (bs, r')"
    "bodies = (s, e) # bs"
    by (auto simp: bindP_eq_Inr retP_def)
  with Suc.IH rd_body_tile show ?case by fastforce
qed

lemma parse_bodies_tile:
  assumes "parse_bodies code n = Inr bodies"
  shows "\<exists>a. 0 < a \<and> tiles a bodies (length code) \<and> length bodies = n"
proof -
  obtain t t' where "rd_uleb (new_reader code 0 (length code)) = Inr (n, t)"
    and t': "timesP n rd_body t = Inr (bodies, t')" "rd_pos t' = length code"
    using assms by (auto simp: parse_bodies_def split: if_splits)
  then have "1 \<le> rd_pos t" using moves_uleb by (fastforce simp: moves_def new_reader_def)
  with times_body_tiles [OF t'(1)] t'(2) show ?thesis by (intro exI [of _ "rd_pos t"]) simp
qed

text \<open>Every relocation kept is a padded LEB of the code section, and the index it names is
  the one those bytes encode.\<close>

definition padded_leb :: "u8 list \<Rightarrow> nat \<Rightarrow> bool" where
  "padded_leb code offset \<longleftrightarrow>
     offset + 4 \<le> length code \<and> (\<forall>k < 4. 128 \<le> unat (code ! (offset + k)))
     \<and> (offset + 4 < length code \<longrightarrow> unat (code ! (offset + 4)) < 128)"

lemma unat8_bound: "unat (b :: u8) < 256"
  using unsigned_less [of b] by simp

lemma has_more_iff: "has_more code i \<longleftrightarrow> i < length code \<and> 128 \<le> unat (code ! i)"
  by (auto simp: has_more_def get_u8_def num_of_def nat_and_128 unat8_bound not_less)

lemma check_padded_ok: "check_padded code offset = Inr u \<Longrightarrow> padded_leb code offset"
  by (auto simp: check_padded_def padded_leb_def has_more_iff not_less split: if_splits
      dest!: bspec [of _ _ 3])

definition good_reloc :: "u8 list \<Rightarrow> engine_reloc \<Rightarrow> bool" where
  "good_reloc code r \<longleftrightarrow> padded_leb code (rl_offset r) \<and> rl_index r = readUleb5 code (rl_offset r)"

lemma rd_reloc_good: "rd_reloc code r = Inr (Some x, r') \<Longrightarrow> good_reloc code x"
  by (auto simp: rd_reloc_def bindP_eq_Inr liftP_def retP_def good_reloc_def check_padded_ok
      split: option.splits)

lemma times_all:
  "(\<And>r x r'. p r = Inr (x, r') \<Longrightarrow> P x) \<Longrightarrow> timesP n p r = Inr (xs, r') \<Longrightarrow> \<forall>x \<in> set xs. P x"
proof (induction n arbitrary: r xs)
  case (Suc n)
  then show ?case by (fastforce simp: bindP_eq_Inr retP_def)
qed (simp add: retP_def)

lemma parse_relocs_good:
  assumes "parse_relocs bs sections code = Inr relocs"
  shows "\<forall>r \<in> set relocs. good_reloc code r"
proof -
  obtain n r xs r' where "timesP n (rd_reloc code) r = Inr (xs, r')"
    and "relocs = List.map_filter (\<lambda>x. x) xs"
    using assms
    by (auto simp: parse_relocs_def required_def in_section_def rd_relocs_def rd_vec_def bindP_eq_Inr
        failP_def split: option.splits if_splits)
  moreover from this(1) have "\<forall>x \<in> set xs. case x of None \<Rightarrow> True | Some y \<Rightarrow> good_reloc code y"
    by (rule times_all [rotated]) (auto split: option.split dest: rd_reloc_good)
  ultimately show ?thesis by (auto simp: List.map_filter_def split: option.splits)
qed

end
