(* ===== verification/Wasm_Module.thy ===== *)
theory Wasm_Module
  imports Wasm_Code Wasm_Engine
begin

text \<open>
  The module builder (\<open>backend/wasm/module.ts\<close>, class \<open>ModuleBuilder\<close>): its state as a record,
  one definition per method, and \<open>emit\<close> with its sections in source order. An operation
  that throws yields the error alone; the source discards the builder on a throw.
\<close>

section \<open>State\<close>

record sub_info =
  supers :: "nat list"
  final :: bool

datatype type_shape =
    ShFunc "val_type list" "val_type list"
  | ShArray storage_type bool
  | ShStruct "field_type list"

record type_entry =
  te_shape :: type_shape
  te_sub :: "sub_info option"

text \<open>A declared function's type index is a number; \<open>undefined\<close> (an engine function whose
  type the engine does not have) is the non-integer \<open>JNonInt\<close>.\<close>

record func_decl =
  fd_type :: jsnum
  fd_name :: jsstr
  fd_body :: "(val_type list \<times> u8 list) option"
  fd_engineBody :: "nat option"

record attached_engine =
  ae_code :: "u8 list"
  ae_bodies :: "(nat \<times> nat) list"
  ae_tableMin :: nat
  ae_tableMax :: "nat option"
  ae_memoryMin :: nat
  ae_elemOffset :: "u8 list"
  ae_elemFuncs :: "nat list"
  ae_dataSegments :: "u8 list list"

record import_ent =
  mi_module :: jsstr
  mi_name :: jsstr
  mi_type :: nat

record global_ent =
  gl_type :: val_type
  gl_mutable :: bool
  gl_init :: wop

datatype export_desc = ExFunc | ExMemory

record export_ent =
  ex_name :: jsstr
  ex_desc :: export_desc
  ex_index :: nat

record builder =
  types :: "type_entry list"
  typeIndex :: "jsstr \<rightharpoonup> nat"
  imps :: "import_ent list"
  funcs :: "func_decl list"
  globals :: "global_ent list"
  exports :: "export_ent list"
  memoryPages :: "nat option"
  recStarts :: "nat \<rightharpoonup> nat"
  recSpanStart :: "nat option"
  reservedTypes :: "(nat \<times> jsstr) list"
  funcRefs :: "nat set"
  blob :: "u8 list"
  blobIndex :: "jsstr \<rightharpoonup> nat"
  blobUsed :: bool
  engineMemory :: bool
  engine :: "attached_engine option"

definition new_builder :: "code_globals \<Rightarrow> builder \<times> code_globals" where
  "new_builder g =
     (\<lparr>types = [], typeIndex = Map.empty, imps = [], funcs = [], globals = [], exports = [],
       memoryPages = None, recStarts = Map.empty, recSpanStart = None, reservedTypes = [],
       funcRefs = {}, blob = [], blobIndex = Map.empty, blobUsed = False, engineMemory = False,
       engine = None\<rparr>, setOurMemoryIndex 0 g)"

definition reserveEngineMemory :: "builder \<times> code_globals \<Rightarrow> builder \<times> code_globals" where
  "reserveEngineMemory = (\<lambda>(b, g). (b\<lparr>engineMemory := True\<rparr>, setOurMemoryIndex 1 g))"

section \<open>Types\<close>

definition internType :: "jsstr \<Rightarrow> type_entry \<Rightarrow> builder \<Rightarrow> nat \<times> builder" where
  "internType key entry b =
     (case typeIndex b key of
        Some existing \<Rightarrow> (existing, b)
      | None \<Rightarrow>
          (length (types b),
           b\<lparr>types := types b @ [entry], typeIndex := (typeIndex b)(key \<mapsto> length (types b))\<rparr>))"

definition funcKey :: "val_type list \<Rightarrow> val_type list \<Rightarrow> jsstr" where
  "funcKey params results =
     js ''f:'' @ join (js '','') (map valTypeKey params) @ js ''->''
       @ join (js '','') (map valTypeKey results)"

definition funcType :: "val_type list \<Rightarrow> val_type list \<Rightarrow> builder \<Rightarrow> nat \<times> builder" where
  "funcType params results =
     internType (funcKey params results) \<lparr>te_shape = ShFunc params results, te_sub = None\<rparr>"

definition mutKey :: "bool \<Rightarrow> jsstr" where
  "mutKey m = (if m then js ''m'' else js ''c'')"

definition arrayKey :: "storage_type \<Rightarrow> bool \<Rightarrow> jsstr" where
  "arrayKey elem m = js ''a:'' @ storageKey elem @ js '':'' @ mutKey m"

definition arrayType :: "storage_type \<Rightarrow> bool \<Rightarrow> builder \<Rightarrow> nat \<times> builder" where
  "arrayType elem m = internType (arrayKey elem m) \<lparr>te_shape = ShArray elem m, te_sub = None\<rparr>"

definition fieldKey :: "field_type \<Rightarrow> jsstr" where
  "fieldKey f = storageKey (storage f) @ js '':'' @ mutKey (mutable f)"

definition structKey :: "field_type list \<Rightarrow> jsstr" where
  "structKey fs = js ''s:'' @ join (js '','') (map fieldKey fs)"

definition structType :: "field_type list \<Rightarrow> builder \<Rightarrow> nat \<times> builder" where
  "structType fs = internType (structKey fs) \<lparr>te_shape = ShStruct fs, te_sub = None\<rparr>"

definition subStructType :: "jsstr \<Rightarrow> field_type list \<Rightarrow> nat \<Rightarrow> builder \<Rightarrow> nat \<times> builder" where
  "subStructType key fs superIdx b =
     (case typeIndex b key of
        Some existing \<Rightarrow> (existing, b)
      | None \<Rightarrow>
          let index = length (types b);
              entry = \<lparr>te_shape = ShStruct fs, te_sub = Some \<lparr>supers = [superIdx], final = True\<rparr>\<rparr>
          in (index, b\<lparr>types := types b @ [entry], typeIndex := (typeIndex b)(key \<mapsto> index)\<rparr>))"

definition openStructType :: "jsstr \<Rightarrow> field_type list \<Rightarrow> builder \<Rightarrow> nat \<times> builder" where
  "openStructType key fs b =
     (case typeIndex b key of
        Some existing \<Rightarrow> (existing, b)
      | None \<Rightarrow>
          let index = length (types b);
              entry = \<lparr>te_shape = ShStruct fs, te_sub = Some \<lparr>supers = [], final = False\<rparr>\<rparr>
          in (index, b\<lparr>types := types b @ [entry], typeIndex := (typeIndex b)(key \<mapsto> index)\<rparr>))"

text \<open>The callbacks of the next two may themselves call the builder or throw.\<close>

definition selfStructType ::
  "jsstr \<Rightarrow> (nat \<Rightarrow> builder \<Rightarrow> (field_type list \<times> builder) res) \<Rightarrow> builder \<Rightarrow> (nat \<times> builder) res" where
  "selfStructType key mk b =
     (case typeIndex b key of
        Some existing \<Rightarrow> Inr (existing, b)
      | None \<Rightarrow>
          let index = length (types b) in
          bindR (mk index b) (\<lambda>(fs, b1).
            if length (types b1) \<noteq> index then Inl (ModuleErr ''selfStructType: make() interned a type'')
            else Inr (index, b1\<lparr>types := types b1 @ [\<lparr>te_shape = ShStruct fs, te_sub = None\<rparr>],
                               typeIndex := (typeIndex b1)(key \<mapsto> index)\<rparr>)))"

definition recGroup2 ::
  "jsstr \<Rightarrow> (nat \<Rightarrow> builder \<Rightarrow> ((type_entry \<times> type_entry) \<times> builder) res) \<Rightarrow> builder
     \<Rightarrow> (nat \<times> builder) res" where
  "recGroup2 key mk b =
     (case typeIndex b key of
        Some existing \<Rightarrow> Inr (existing, b)
      | None \<Rightarrow>
          let base = length (types b) in
          bindR (mk base b) (\<lambda>((x, y), b1).
            Inr (base, b1\<lparr>types := types b1 @ [x, y], recStarts := (recStarts b1)(base \<mapsto> 2),
                          typeIndex := (typeIndex b1)(key \<mapsto> base)\<rparr>)))"

definition beginRecGroup :: "builder \<Rightarrow> builder res" where
  "beginRecGroup b =
     (if recSpanStart b \<noteq> None then Inl (ModuleErr ''beginRecGroup inside an open rec group'')
      else Inr (b\<lparr>recSpanStart := Some (length (types b))\<rparr>))"

definition endRecGroup :: "builder \<Rightarrow> builder res" where
  "endRecGroup b =
     (case recSpanStart b of
        None \<Rightarrow> Inl (ModuleErr ''endRecGroup with no open rec group'')
      | Some start \<Rightarrow>
          let b1 = b\<lparr>recSpanStart := None\<rparr> in
          if reservedTypes b1 \<noteq> [] then Inl (ModuleErr ''endRecGroup with type(s) reserved but never defined'')
          else if length (types b1) > start
          then Inr (b1\<lparr>recStarts := (recStarts b1)(start \<mapsto> length (types b1) - start)\<rparr>)
          else Inr b1)"

definition reserveType :: "jsstr \<Rightarrow> builder \<Rightarrow> (nat \<times> builder) res" where
  "reserveType key b =
     (if recSpanStart b = None then Inl (ModuleErr ''reserveType outside a rec group'')
      else case typeIndex b key of
        Some existing \<Rightarrow> Inr (existing, b)
      | None \<Rightarrow>
          let index = length (types b) in
          Inr (index, b\<lparr>types := types b @ [\<lparr>te_shape = ShStruct [], te_sub = None\<rparr>],
                        reservedTypes := reservedTypes b @ [(index, key)],
                        typeIndex := (typeIndex b)(key \<mapsto> index)\<rparr>))"

definition defineType :: "nat \<Rightarrow> type_entry \<Rightarrow> builder \<Rightarrow> builder res" where
  "defineType index entry b =
     (if recSpanStart b = None then Inl (ModuleErr ''defineType outside a rec group'')
      else if index \<notin> set (map fst (reservedTypes b))
      then Inl (ModuleErr ''defineType on an index that was not reserved'')
      else Inr (b\<lparr>types := (types b)[index := entry],
                  reservedTypes := filter (\<lambda>(i, _). i \<noteq> index) (reservedTypes b)\<rparr>))"

section \<open>Functions, globals, memory, exports, data\<close>

definition declareFuncRef :: "nat \<Rightarrow> builder \<Rightarrow> builder" where
  "declareFuncRef funcIndex b = b\<lparr>funcRefs := insert funcIndex (funcRefs b)\<rparr>"

definition importFunc :: "jsstr \<Rightarrow> jsstr \<Rightarrow> nat \<Rightarrow> builder \<Rightarrow> (nat \<times> builder) res" where
  "importFunc m n t b =
     (if length (funcs b) > 0 then Inl (ModuleErr ''imports must be declared before defined functions'')
      else let is' = imps b @ [\<lparr>mi_module = m, mi_name = n, mi_type = t\<rparr>]
           in Inr (length is' - 1, b\<lparr>imps := is'\<rparr>))"

definition declareFunc :: "nat \<Rightarrow> jsstr \<Rightarrow> builder \<Rightarrow> nat \<times> builder" where
  "declareFunc t n b =
     (let fs = funcs b @ [\<lparr>fd_type = JInt (int t), fd_name = n, fd_body = None, fd_engineBody = None\<rparr>]
      in (length (imps b) + length fs - 1, b\<lparr>funcs := fs\<rparr>))"

text \<open>\<open>this.funcs[funcIndex - this.imports.length]\<close>: \<open>undefined\<close> for an imported function too.\<close>

definition func_at :: "builder \<Rightarrow> nat \<Rightarrow> func_decl option" where
  "func_at b i =
     (if length (imps b) \<le> i \<and> i - length (imps b) < length (funcs b)
      then Some (funcs b ! (i - length (imps b))) else None)"

definition ownMemory :: "builder \<Rightarrow> int" where
  "ownMemory b = (if engineMemory b then 1 else 0)"

definition setBody :: "code_globals \<Rightarrow> nat \<Rightarrow> val_type list \<Rightarrow> u8 list \<Rightarrow> builder \<Rightarrow> builder res" where
  "setBody g funcIndex locals code b =
     (case func_at b funcIndex of
        None \<Rightarrow> Inl (ModuleErr ''setBody on undeclared function index'')
      | Some decl \<Rightarrow>
          if fd_engineBody decl \<noteq> None then Inl (ModuleErr ''setBody on island-engine function'')
          else if currentOurMemoryIndex g \<noteq> ownMemory b
          then Inl (ModuleErr ''setBody: the body was built for another memory'')
          else Inr (b\<lparr>funcs := (funcs b)[funcIndex - length (imps b) := decl\<lparr>fd_body := Some (locals, code)\<rparr>]\<rparr>))"

definition addGlobal :: "val_type \<Rightarrow> bool \<Rightarrow> wop \<Rightarrow> builder \<Rightarrow> nat \<times> builder" where
  "addGlobal t m init b =
     (let gs = globals b @ [\<lparr>gl_type = t, gl_mutable = m, gl_init = init\<rparr>]
      in (length gs - 1, b\<lparr>globals := gs\<rparr>))"

definition ensureMemory :: "nat \<Rightarrow> builder \<Rightarrow> builder" where
  "ensureMemory minPages b =
     b\<lparr>memoryPages := Some (max (case memoryPages b of None \<Rightarrow> 0 | Some p \<Rightarrow> p) minPages)\<rparr>"

definition exportFunc :: "jsstr \<Rightarrow> nat \<Rightarrow> builder \<Rightarrow> builder" where
  "exportFunc n i b = b\<lparr>exports := exports b @ [\<lparr>ex_name = n, ex_desc = ExFunc, ex_index = i\<rparr>]\<rparr>"

definition exportMemory :: "jsstr \<Rightarrow> builder \<Rightarrow> builder res" where
  "exportMemory n b =
     (if memoryPages b = None then Inl (ModuleErr ''exportMemory before ensureMemory'')
      else Inr (b\<lparr>exports := exports b @ [\<lparr>ex_name = n, ex_desc = ExMemory, ex_index = 0\<rparr>]\<rparr>))"

definition dataKey :: "u8 list \<Rightarrow> jsstr" where
  "dataKey bs = map ucast bs"

definition internData :: "u8 list \<Rightarrow> builder \<Rightarrow> nat \<times> builder" where
  "internData bs b =
     (let b1 = b\<lparr>blobUsed := True\<rparr> in
      case blobIndex b1 (dataKey bs) of
        Some existing \<Rightarrow> (existing, b1)
      | None \<Rightarrow>
          (length (blob b1),
           b1\<lparr>blob := blob b1 @ bs, blobIndex := (blobIndex b1)(dataKey bs \<mapsto> length (blob b1))\<rparr>))"

section \<open>Splicing the engine\<close>

definition funcTypeOf :: "builder \<Rightarrow> nat \<Rightarrow> jsnum res" where
  "funcTypeOf b i =
     (if i < length (imps b) then Inr (JInt (int (mi_type (imps b ! i))))
      else if i - length (imps b) < length (funcs b)
      then Inr (fd_type (funcs b ! (i - length (imps b))))
      else Inl (ModuleErr ''no function''))"

text \<open>\<open>Array.map\<close> with a callback that changes the builder.\<close>

fun map_st :: "('a \<Rightarrow> 's \<Rightarrow> 'b \<times> 's) \<Rightarrow> 'a list \<Rightarrow> 's \<Rightarrow> 'b list \<times> 's" where
  "map_st f [] s = ([], s)"
| "map_st f (x # xs) s = (let (y, s1) = f x s; (ys, s2) = map_st f xs s1 in (y # ys, s2))"

definition get_num :: "nat list \<Rightarrow> nat \<Rightarrow> nat option" where
  "get_num xs i = (if i < length xs then Some (xs ! i) else None)"

definition num_js :: "nat option \<Rightarrow> jsnum" where
  "num_js x = (case x of None \<Rightarrow> JNonInt | Some n \<Rightarrow> JInt (int n))"

record index_maps =
  ix_nImp :: nat
  ix_imports :: "nat list"
  ix_funcBase :: nat
  ix_nFuncs :: nat
  ix_types :: "nat list"
  ix_globals :: "nat list"

definition funcMap :: "index_maps \<Rightarrow> nat \<Rightarrow> nat" where
  "funcMap m e = (if e < ix_nImp m then ix_imports m ! e else ix_funcBase m + (e - ix_nImp m))"

definition reindex :: "index_maps \<Rightarrow> engine_reloc \<Rightarrow> nat option" where
  "reindex m r =
     (case rl_space r of
        SpFunc \<Rightarrow> if rl_index r < ix_nImp m + ix_nFuncs m then Some (funcMap m (rl_index r)) else None
      | SpType \<Rightarrow> get_num (ix_types m) (rl_index r)
      | SpGlobal \<Rightarrow> get_num (ix_globals m) (rl_index r)
      | SpTable \<Rightarrow> if rl_index r = 0 then Some 0 else None)"

fun relocate :: "index_maps \<Rightarrow> engine_reloc list \<Rightarrow> u8 list \<Rightarrow> u8 list res" where
  "relocate m [] code = Inr code"
| "relocate m (r # rs) code =
     (case reindex m r of
        None \<Rightarrow> Inl (ModuleErr ''engine index out of range'')
      | Some v \<Rightarrow> bindR (writeUleb5 code (rl_offset r) (int v)) (relocate m rs))"

text \<open>The callback that binds an import may itself declare functions, set bodies and intern types; the
  function it returns is looked up in the builder it leaves.\<close>

definition bind_import ::
  "nat list \<Rightarrow> (engine_import \<Rightarrow> builder \<Rightarrow> (nat \<times> builder) res) \<Rightarrow> engine_import \<Rightarrow> builder \<Rightarrow> (nat \<times> builder) res" where
  "bind_import typeMap bindImport imp b =
     bindR (bindImport imp b) (\<lambda>(target, b1).
     bindR (funcTypeOf b1 target) (\<lambda>t.
       if t \<noteq> num_js (get_num typeMap (im_type imp))
       then Inl (ModuleErr ''engine import bound to a function of the wrong type'')
       else Inr (target, b1)))"

fun bind_imports ::
  "nat list \<Rightarrow> (engine_import \<Rightarrow> builder \<Rightarrow> (nat \<times> builder) res) \<Rightarrow> engine_import list \<Rightarrow> builder \<Rightarrow> (nat list \<times> builder) res" where
  "bind_imports typeMap bindImport [] b = Inr ([], b)"
| "bind_imports typeMap bindImport (imp # rest) b =
     bindR (bind_import typeMap bindImport imp b) (\<lambda>(target, b1).
     bindR (bind_imports typeMap bindImport rest b1) (\<lambda>(targets, b2). Inr (target # targets, b2)))"

definition engine_decl :: "engine_image \<Rightarrow> nat list \<Rightarrow> nat \<Rightarrow> func_decl" where
  "engine_decl img typeMap i =
     \<lparr>fd_type = num_js (get_num typeMap (ei_funcTypes img ! i)),
      fd_name = (case ei_names img (length (ei_imports img) + i) of
                   Some n \<Rightarrow> n | None \<Rightarrow> js ''qjs.'' @ dec i),
      fd_body = None, fd_engineBody = Some i\<rparr>"

definition attachEngine ::
  "engine_image \<Rightarrow> (engine_import \<Rightarrow> builder \<Rightarrow> (nat \<times> builder) res) \<Rightarrow> builder \<Rightarrow> (index_maps \<times> builder) res" where
  "attachEngine img bindImport b =
     (if \<not> engineMemory b then Inl (ModuleErr ''attachEngine without reserveEngineMemory'')
      else if engine b \<noteq> None then Inl (ModuleErr ''attachEngine called twice'')
      else if recSpanStart b \<noteq> None then Inl (ModuleErr ''attachEngine inside an open rec group'')
      else
        let (typeMap, b0) = map_st (\<lambda>t. funcType (ft_params t) (ft_results t)) (ei_types img) b in
        bindR (bind_imports typeMap bindImport (ei_imports img) b0) (\<lambda>(impMap, b1).
        let funcBase = length (imps b1) + length (funcs b1);
            b2 = b1\<lparr>funcs := funcs b1 @ map (engine_decl img typeMap) [0..<length (ei_funcTypes img)]\<rparr>;
            (globalMap, b3) =
              map_st (\<lambda>g. addGlobal (eg_type g) (eg_mutable g) (raw (eg_init g))) (ei_globals img) b2;
            m = \<lparr>ix_nImp = length (ei_imports img), ix_imports = impMap, ix_funcBase = funcBase,
                 ix_nFuncs = length (ei_funcTypes img), ix_types = typeMap, ix_globals = globalMap\<rparr>
        in bindR (relocate m (ei_relocs img) (ei_code img)) (\<lambda>code.
           Inr (m, b3\<lparr>engine := Some
             \<lparr>ae_code = code, ae_bodies = ei_bodies img, ae_tableMin = ei_tableMin img,
              ae_tableMax = ei_tableMax img, ae_memoryMin = ei_memoryMin img,
              ae_elemOffset = ei_elemOffset img, ae_elemFuncs = map (funcMap m) (ei_elemFuncs img),
              ae_dataSegments = ei_dataSegments img\<rparr>\<rparr>))))"

text \<open>The \<open>func\<close> member of the returned link.\<close>

definition link_func :: "engine_image \<Rightarrow> index_maps \<Rightarrow> jsstr \<Rightarrow> nat res" where
  "link_func img m nm =
     (case ei_exports img nm of
        None \<Rightarrow> Inl (ModuleErr ''the island engine exports no such function'')
      | Some e \<Rightarrow> Inr (funcMap m e))"

section \<open>emit\<close>

definition when_op :: "bool \<Rightarrow> wop \<Rightarrow> wop" where
  "when_op c f = (if c then f else Inr)"

definition wnum :: "nat \<Rightarrow> wop" where
  "wnum n = uleb (JInt (int n))"

definition writeField :: "field_type \<Rightarrow> wop" where
  "writeField f = seqs [writeStorage (storage f), u8 (if mutable f then 0x01 else 0x00)]"

fun writeComptype :: "type_shape \<Rightarrow> wop" where
  "writeComptype (ShFunc params results) =
     seqs ([u8 0x60, wnum (length params)] @ map writeValType params
           @ [wnum (length results)] @ map writeValType results)"
| "writeComptype (ShArray elem m) =
     seqs [u8 0x5e, writeStorage elem, u8 (if m then 0x01 else 0x00)]"
| "writeComptype (ShStruct fs) = seqs ([u8 0x5f, wnum (length fs)] @ map writeField fs)"

definition writeSubtype :: "type_entry \<Rightarrow> wop" where
  "writeSubtype t =
     seqs ((case te_sub t of
              None \<Rightarrow> []
            | Some s \<Rightarrow> [u8 (if final s then 0x4f else 0x50), wnum (length (supers s))] @ map wnum (supers s))
           @ [writeComptype (te_shape t)])"

text \<open>A group sz of 0 would stall the index walk; reading a type past the end throws.\<close>

function entryCount :: "builder \<Rightarrow> nat \<Rightarrow> nat res" where
  "entryCount b i =
     (if i < length (types b)
      then (let sz = (case recStarts b i of None \<Rightarrow> 1 | Some n \<Rightarrow> n) in
            if sz = 0 then Inl Diverges else bindR (entryCount b (i + sz)) (\<lambda>n. Inr (Suc n)))
      else Inr 0)"
  by pat_completeness auto
termination
  by (relation "measure (\<lambda>(b, i). length (types b) - i)") auto

declare entryCount.simps [simp del]

definition writeSubtypeAt :: "builder \<Rightarrow> nat \<Rightarrow> wop" where
  "writeSubtypeAt b i = (if i < length (types b) then writeSubtype (types b ! i) else (\<lambda>_. Inl TypeErr))"

function writeGroups :: "builder \<Rightarrow> nat \<Rightarrow> wop list" where
  "writeGroups b i =
     (if i < length (types b)
      then (case recStarts b i of
              Some sz \<Rightarrow>
                if sz = 0 then [\<lambda>_. Inl Diverges]
                else [u8 0x4e, wnum sz] @ map (\<lambda>k. writeSubtypeAt b (i + k)) [0..<sz]
                     @ writeGroups b (i + sz)
            | None \<Rightarrow> writeSubtypeAt b i # writeGroups b (i + 1))
      else [])"
  by pat_completeness auto
termination
  by (relation "measure (\<lambda>(b, i). length (types b) - i)") auto

declare writeGroups.simps [simp del]

definition typeBody :: "builder \<Rightarrow> nat \<Rightarrow> wop" where
  "typeBody b n = seqs (wnum n # writeGroups b 0)"

definition typeSection :: "builder \<Rightarrow> wop" where
  "typeSection b w = bindR (entryCount b 0) (\<lambda>n. section_w 1 (typeBody b n) w)"

definition importBody :: "builder \<Rightarrow> wop" where
  "importBody b =
     (seqs (wnum (length (imps b))
       # map (\<lambda>i. seqs [name (mi_module i), name (mi_name i), u8 0x00, wnum (mi_type i)]) (imps b)))"

definition funcBody :: "builder \<Rightarrow> wop" where
  "funcBody b = (seqs (wnum (length (funcs b)) # map (\<lambda>f. uleb (fd_type f)) (funcs b)))"

definition tableBody :: "attached_engine \<Rightarrow> wop" where
  "tableBody e =
     (seqs ([wnum 1, u8 0x70] @
       (case ae_tableMax e of
          None \<Rightarrow> [u8 0x00, wnum (ae_tableMin e)]
        | Some m \<Rightarrow> [u8 0x01, wnum (ae_tableMin e), wnum m])))"

definition memoryBody :: "builder \<Rightarrow> wop" where
  "memoryBody b =
     (seqs (
       wnum ((if memoryPages b \<noteq> None then 1 else 0) + (if engine b \<noteq> None then 1 else 0))
       # (case engine b of None \<Rightarrow> [] | Some e \<Rightarrow> [u8 0x00, wnum (ae_memoryMin e)])
       @ (case memoryPages b of None \<Rightarrow> [] | Some p \<Rightarrow> [u8 0x00, wnum p])))"

definition globalBody :: "builder \<Rightarrow> wop" where
  "globalBody b =
     (seqs (wnum (length (globals b))
       # map (\<lambda>g. seqs [writeValType (gl_type g), u8 (if gl_mutable g then 0x01 else 0x00),
                        gl_init g, u8 0x0b]) (globals b)))"

definition exportBody :: "builder \<Rightarrow> wop" where
  "exportBody b =
     (seqs (wnum (length (exports b))
       # map (\<lambda>e. seqs [name (ex_name e), u8 (if ex_desc e = ExFunc then 0x00 else 0x02),
                        wnum (if ex_desc e = ExMemory \<and> engine b \<noteq> None then 1 else ex_index e)])
             (exports b)))"

definition elemBody :: "builder \<Rightarrow> wop" where
  "elemBody b =
     (let refs = sorted_list_of_set (funcRefs b) in
      (seqs (
        wnum ((if length refs > 0 then 1 else 0) + (if engine b \<noteq> None then 1 else 0))
        # (case engine b of
             None \<Rightarrow> []
           | Some e \<Rightarrow> [u8 0x00, raw (ae_elemOffset e), u8 0x0b, wnum (length (ae_elemFuncs e))]
                       @ map wnum (ae_elemFuncs e))
        @ (if length refs > 0 then [u8 0x03, u8 0x00, wnum (length refs)] @ map wnum refs else []))))"

text \<open>Runs of equal local types, as (count, type) pairs.\<close>

definition pushLocal :: "(nat \<times> val_type) list \<Rightarrow> val_type \<Rightarrow> (nat \<times> val_type) list" where
  "pushLocal runs l =
     (if runs \<noteq> [] \<and> valTypeKey (snd (last runs)) = valTypeKey l
      then butlast runs @ [(fst (last runs) + 1, snd (last runs))]
      else runs @ [(1, l)])"

definition localRuns :: "val_type list \<Rightarrow> (nat \<times> val_type) list" where
  "localRuns locals = foldl pushLocal [] locals"

definition writeBody :: "val_type list \<Rightarrow> u8 list \<Rightarrow> wop" where
  "writeBody locals code =
     framed (seqs (
       wnum (length (localRuns locals))
       # map (\<lambda>(n, t). seqs [wnum n, writeValType t]) (localRuns locals)
       @ [raw code, u8 0x0b]))"

definition writeFunc :: "builder \<Rightarrow> func_decl \<Rightarrow> wop" where
  "writeFunc b f =
     (case fd_engineBody f of
        Some k \<Rightarrow>
          (case engine b of
             None \<Rightarrow> (\<lambda>_. Inl TypeErr)
           | Some e \<Rightarrow>
               if k < length (ae_bodies e)
               then raw (slice_u8 (fst (ae_bodies e ! k)) (snd (ae_bodies e ! k)) (ae_code e))
               else (\<lambda>_. Inl TypeErr))
      | None \<Rightarrow>
          (case fd_body f of
             None \<Rightarrow> (\<lambda>_. Inl (ModuleErr ''function was declared but never given a body''))
           | Some (locals, code) \<Rightarrow> writeBody locals code))"

definition codeBody :: "builder \<Rightarrow> wop" where
  "codeBody b = (seqs (wnum (length (funcs b)) # map (writeFunc b) (funcs b)))"

definition engineSegs :: "builder \<Rightarrow> u8 list list" where
  "engineSegs b = (case engine b of None \<Rightarrow> [] | Some e \<Rightarrow> ae_dataSegments e)"

definition dataCountBody :: "builder \<Rightarrow> wop" where
  "dataCountBody b = (wnum (1 + length (engineSegs b)))"

definition dataBody :: "builder \<Rightarrow> wop" where
  "dataBody b =
     (seqs (
       wnum ((if blobUsed b then 1 else 0) + length (engineSegs b))
       # (if blobUsed b then [u8 0x01, wnum (length (blob b)), raw (blob b)] else [])
       @ map raw (engineSegs b)))"

definition nameBody :: "builder \<Rightarrow> wop" where
  "nameBody b =
     (seqs [name (js ''name''), u8 0x01, framed (seqs (
       wnum (length (funcs b))
       # map (\<lambda>i. seqs [wnum (length (imps b) + i), name (fd_name (funcs b ! i))]) [0..<length (funcs b)]))])"

definition emit_module :: "builder \<Rightarrow> wop" where
  "emit_module b =
     seqs [raw magic,
       when_op (types b \<noteq> []) (typeSection b),
       when_op (imps b \<noteq> []) (section_w 2 (importBody b)),
       when_op (funcs b \<noteq> []) (section_w 3 (funcBody b)),
       (case engine b of None \<Rightarrow> Inr | Some e \<Rightarrow> section_w 4 (tableBody e)),
       when_op (memoryPages b \<noteq> None \<or> engine b \<noteq> None) (section_w 5 (memoryBody b)),
       when_op (globals b \<noteq> []) (section_w 6 (globalBody b)),
       when_op (exports b \<noteq> []) (section_w 7 (exportBody b)),
       when_op (funcRefs b \<noteq> {} \<or> engine b \<noteq> None) (section_w 9 (elemBody b)),
       when_op (blobUsed b) (section_w 12 (dataCountBody b)),
       when_op (funcs b \<noteq> []) (section_w 10 (codeBody b)),
       when_op (blobUsed b \<or> engineSegs b \<noteq> []) (section_w 11 (dataBody b)),
       section_w 0 (nameBody b)]"

text \<open>The bytes, or the error, together with the module-level memory index, which is reset
  once the first two checks have passed.\<close>

definition emit :: "builder \<Rightarrow> code_globals \<Rightarrow> u8 list res \<times> code_globals" where
  "emit b g =
     (if recSpanStart b \<noteq> None then (Inl (ModuleErr ''emit() with a rec group still open''), g)
      else if engineMemory b \<and> engine b = None
      then (Inl (ModuleErr ''emit() with engine memory reserved but no engine attached''), g)
      else let g1 = setOurMemoryIndex 0 g in
        if reservedTypes b \<noteq> [] then (Inl (ModuleErr ''type was reserved but never defined''), g1)
        else (bindR (emit_module b new_writer) (\<lambda>w. Inr (bytes w)), g1))"

end
