(* ===== verification/Module_Inv.thy ===== *)
theory Module_Inv
  imports Wasm_Module
begin

text \<open>
  The builder's invariant and its preservation by every method, stated for all the call
  sequences a client can make: interning by shape is canonical, the recursion groups stay
  within the type space and respect the open span, reservations live in the open span
  only, interned data reads back, engine functions have bodies.
\<close>

section \<open>Interners\<close>

text \<open>The contract types and string data are interned under: an existing key keeps its index,
  a new key gets one, and no other key is affected.\<close>

locale interner =
  fixes look :: "'s \<Rightarrow> 'k \<Rightarrow> nat option" and add :: "'k \<Rightarrow> 'v \<Rightarrow> 's \<Rightarrow> nat \<times> 's"
  assumes hit: "look s k = Some i \<Longrightarrow> fst (add k v s) = i \<and> look (snd (add k v s)) = look s"
    and miss: "look s k = None \<Longrightarrow> look (snd (add k v s)) = (look s)(k \<mapsto> fst (add k v s))"
begin

lemma look_added: "look (snd (add k v s)) k = Some (fst (add k v s))"
  using hit [of s k] miss [of s k] by (cases "look s k") auto

lemma look_stable: "look s k' = Some j \<Longrightarrow> look (snd (add k v s)) k' = Some j"
  using hit [of s k] miss [of s k] by (cases "look s k") auto

lemma add_twice: "fst (add k v' (snd (add k v s))) = fst (add k v s)"
  using hit [OF look_added] by simp

text \<open>Whatever is interned in between, an interned key keeps its index.\<close>

lemma add_after:
  "fst (add k v' (fold (\<lambda>(k, v) s. snd (add k v s)) kvs (snd (add k v s)))) = fst (add k v s)"
proof -
  have "look s k = Some j \<Longrightarrow> look (fold (\<lambda>(k, v) s. snd (add k v s)) kvs s) k = Some j" for s j
    by (induction kvs arbitrary: s) (auto intro: look_stable)
  then show ?thesis using hit look_added by blast
qed

end

lemma dataKey_inj: "dataKey a = dataKey b \<Longrightarrow> a = b"
proof -
  have "inj (ucast :: u8 \<Rightarrow> 16 word)"
  proof (rule injI)
    fix x y :: u8
    assume "(ucast x :: 16 word) = ucast y"
    then have "uint (ucast x :: 16 word) = uint (ucast y :: 16 word)" by (rule arg_cong)
    then have "uint x = uint y" by (simp add: uint_up_ucast is_up)
    then show "x = y" by (rule word_uint_eqI)
  qed
  then show "dataKey a = dataKey b \<Longrightarrow> a = b" by (simp add: dataKey_def inj_map_eq_map)
qed

interpretation type_interner: interner typeIndex internType
  by unfold_locales (auto simp: internType_def)

interpretation data_interner: interner "\<lambda>b bs. blobIndex b (dataKey bs)" "\<lambda>bs _. internData bs"
  by unfold_locales (auto simp: internData_def Let_def fun_eq_iff dest: dataKey_inj)

section \<open>Shape keys are injective\<close>

fun shapeKey :: "type_shape \<Rightarrow> jsstr" where
  "shapeKey (ShFunc ps rs) = funcKey ps rs"
| "shapeKey (ShArray e m) = arrayKey e m"
| "shapeKey (ShStruct fs) = structKey fs"

lemma join_keys_inj: "join [comma] (map valTypeKey xs) = join [comma] (map valTypeKey ys) \<Longrightarrow> xs = ys"
proof -
  assume "join [comma] (map valTypeKey xs) = join [comma] (map valTypeKey ys)"
  then have "map valTypeKey xs = map valTypeKey ys"
    by (rule join_inj [rotated]) auto
  then show "xs = ys" by (rule map_injective) (auto intro: injI valTypeKey_inj)
qed

lemma comma_not_dash: "dash \<noteq> comma"
  by (simp add: comma_def dash_def)

lemma js_comma: "js '','' = [comma]" and js_arrow: "js ''->'' = [dash, 62]"
  by (simp_all add: js_def comma_def dash_def)

lemma funcKey_inj: "funcKey ps rs = funcKey ps' rs' \<Longrightarrow> ps = ps' \<and> rs = rs'"
proof -
  assume eq: "funcKey ps rs = funcKey ps' rs'"
  have free: "dash \<notin> set (join [comma] (map valTypeKey xs))" for xs
    using join_sep_free [of dash comma "map valTypeKey xs"] comma_not_dash by auto
  let ?j = "\<lambda>xs. join [comma] (map valTypeKey xs)"
  have "?j ps @ dash # (62 # ?j rs) = ?j ps' @ dash # (62 # ?j rs')"
    using eq by (simp add: funcKey_def js_comma js_arrow)
  from append_sep_inj [OF free free this] show ?thesis by (auto dest: join_keys_inj)
qed

lemma mutKey_inj: "x @ js '':'' @ mutKey m = y @ js '':'' @ mutKey m' \<Longrightarrow> x = y \<and> m = m'"
  by (cases m; cases m') (auto simp: mutKey_def js_def)

lemma fieldKey_inj: "fieldKey f = fieldKey g \<Longrightarrow> f = g"
  using mutKey_inj [of "storageKey (storage f)" "mutable f" "storageKey (storage g)" "mutable g"]
  by (simp add: fieldKey_def storageKey_inj)

lemma fieldKey_sep: "comma \<notin> set (fieldKey f)" "fieldKey f \<noteq> []"
proof -
  have "comma \<notin> set (js '':'' @ mutKey (mutable f))" by (simp add: mutKey_def js_def comma_def)
  then show "comma \<notin> set (fieldKey f)" by (simp add: fieldKey_def)
qed (simp add: fieldKey_def js_def)

lemma structKey_inj: "structKey fs = structKey gs \<Longrightarrow> fs = gs"
proof -
  assume "structKey fs = structKey gs"
  then have "join [comma] (map fieldKey fs) = join [comma] (map fieldKey gs)"
    by (simp add: structKey_def js_comma)
  then have "map fieldKey fs = map fieldKey gs"
    by (rule join_inj [rotated]) (auto simp: fieldKey_sep)
  then show ?thesis by (rule map_injective) (auto intro: injI fieldKey_inj)
qed

lemma arrayKey_inj: "arrayKey e m = arrayKey e' m' \<Longrightarrow> e = e' \<and> m = m'"
  using mutKey_inj [of "storageKey e" m "storageKey e'" m'] by (simp add: arrayKey_def storageKey_inj)

lemma shapeKey_head:
  "take 2 (funcKey ps rs) = js ''f:''" "take 2 (arrayKey e m) = js ''a:''" "take 2 (structKey fs) = js ''s:''"
  by (simp_all add: funcKey_def arrayKey_def structKey_def js_def)

lemma shapeKey_distinct:
  "funcKey ps rs \<noteq> arrayKey e m" "funcKey ps rs \<noteq> structKey fs" "arrayKey e m \<noteq> structKey fs"
  by (rule notI, drule arg_cong [where f = "take 2"], simp add: shapeKey_head js_def)+

lemma shapeKey_inj:
  assumes "shapeKey s = shapeKey t"
  shows "s = t"
  using assms shapeKey_distinct shapeKey_distinct [symmetric]
  by (cases s; cases t) (auto dest: funcKey_inj arrayKey_inj structKey_inj)

text \<open>A caller's own key: not one of the three shape prefixes.\<close>

definition plain_key :: "jsstr \<Rightarrow> bool" where
  "plain_key k \<longleftrightarrow> take 2 k \<notin> set [js ''f:'', js ''a:'', js ''s:'']"

lemma plain_key_shape: "plain_key k \<Longrightarrow> k \<noteq> shapeKey s"
  by (cases s) (auto simp: plain_key_def shapeKey_head)

section \<open>The invariant\<close>

definition plain_entry :: "type_shape \<Rightarrow> type_entry" where
  "plain_entry s = \<lparr>te_shape = s, te_sub = None\<rparr>"

definition reserved :: "builder \<Rightarrow> nat set" where
  "reserved b = fst ` set (reservedTypes b)"

text \<open>Interned shapes are where the index says, and are not placeholders.\<close>

definition types_ok :: "builder \<Rightarrow> bool" where
  "types_ok b \<longleftrightarrow>
     (\<forall>k i. typeIndex b k = Some i \<longrightarrow> i < length (types b))
     \<and> (\<forall>s i. typeIndex b (shapeKey s) = Some i \<longrightarrow> types b ! i = plain_entry s \<and> i \<notin> reserved b)"

text \<open>Where the serializer's walk from group to group can stop.\<close>

definition gsize :: "(nat \<rightharpoonup> nat) \<Rightarrow> nat \<Rightarrow> nat" where
  "gsize r i = (case r i of None \<Rightarrow> 1 | Some n \<Rightarrow> n)"

inductive boundary :: "(nat \<rightharpoonup> nat) \<Rightarrow> nat \<Rightarrow> bool" for r where
  b_start: "boundary r 0"
| b_next: "boundary r i \<Longrightarrow> boundary r (i + gsize r i)"

definition span_base :: "builder \<Rightarrow> nat" where
  "span_base b = (case recSpanStart b of None \<Rightarrow> length (types b) | Some s \<Rightarrow> s)"

definition groups_ok :: "builder \<Rightarrow> bool" where
  "groups_ok b \<longleftrightarrow>
     (\<forall>i n. recStarts b i = Some n \<longrightarrow> 0 < n \<and> i + n \<le> length (types b))
     \<and> boundary (recStarts b) (span_base b) \<and> span_base b \<le> length (types b)"

definition reserved_ok :: "builder \<Rightarrow> bool" where
  "reserved_ok b \<longleftrightarrow>
     (\<forall>i \<in> reserved b. span_base b \<le> i \<and> i < length (types b)) \<and> distinct (map fst (reservedTypes b))"

definition data_ok :: "builder \<Rightarrow> bool" where
  "data_ok b \<longleftrightarrow>
     (\<forall>bs i. blobIndex b (dataKey bs) = Some i \<longrightarrow>
        i + length bs \<le> length (blob b) \<and> take (length bs) (drop i (blob b)) = bs)
     \<and> (\<not> blobUsed b \<longrightarrow> blobIndex b = Map.empty \<and> blob b = [])"

text \<open>A callback that only appends: what it writes is what it writes on a fresh writer.\<close>

definition out_of :: "wop \<Rightarrow> u8 list res" where
  "out_of f = bindR (f new_writer) (\<lambda>w. Inr (bytes w))"

definition appends :: "wop \<Rightarrow> bool" where
  "appends f \<longleftrightarrow> writes f (out_of f)"

lemma out_of_writes: "writes f r \<Longrightarrow> out_of f = r"
  by (cases r) (auto simp: outputs_def out_of_def dest!: spec [of _ new_writer])

lemma appends_writes: "writes f r \<Longrightarrow> appends f"
  using out_of_writes [of f r] by (simp add: appends_def)

definition engine_ok :: "builder \<Rightarrow> bool" where
  "engine_ok b \<longleftrightarrow>
     (engine b \<noteq> None \<longrightarrow> engineMemory b)
     \<and> (\<forall>f \<in> set (funcs b). \<forall>k. fd_engineBody f = Some k \<longrightarrow>
          fd_body f = None \<and> (\<exists>e. engine b = Some e \<and> k < length (ae_bodies e)))
     \<and> finite (funcRefs b) \<and> (\<forall>g \<in> set (globals b). appends (gl_init g))"

definition wf_builder :: "builder \<Rightarrow> bool" where
  "wf_builder b \<longleftrightarrow> types_ok b \<and> groups_ok b \<and> reserved_ok b \<and> data_ok b \<and> engine_ok b"

lemmas wf_defs = wf_builder_def types_ok_def groups_ok_def reserved_ok_def data_ok_def engine_ok_def

lemma gsize_pos: "groups_ok b \<Longrightarrow> 0 < gsize (recStarts b) i"
  by (auto simp: groups_ok_def gsize_def split: option.split)

lemma boundary_upd:
  assumes "boundary r i" and "\<And>i. 0 < gsize r i" and "i \<le> j"
  shows "boundary (r(j \<mapsto> n)) i"
  using assms(1,3)
proof (induction rule: boundary.induct)
  case (b_next i)
  then have "i < j" using assms(2) [of i] by linarith
  then have "gsize (r(j \<mapsto> n)) i = gsize r i" by (simp add: gsize_def)
  moreover have "boundary (r(j \<mapsto> n)) i" by (rule b_next.IH) (use \<open>i < j\<close> in simp)
  ultimately show ?case using boundary.b_next by metis
qed (rule b_start)

lemma no_start_at_end: "groups_ok b \<Longrightarrow> length (types b) \<le> i \<Longrightarrow> recStarts b i = None"
  by (cases "recStarts b i") (fastforce simp: groups_ok_def)+

text \<open>Appending one entry under a fresh key.\<close>

lemma push_entry:
  assumes wf: "types_ok b" "groups_ok b" "reserved_ok b" and k: "typeIndex b k = None"
    and e: "\<And>s. k = shapeKey s \<Longrightarrow> e = plain_entry s"
    and b': "b' = b\<lparr>types := types b @ [e], typeIndex := (typeIndex b)(k \<mapsto> length (types b))\<rparr>"
  shows "types_ok b'" and "groups_ok b'" and "reserved_ok b'"
proof -
  have res: "reserved b' = reserved b" by (simp add: reserved_def b')
  have end_free: "length (types b) \<notin> reserved b" using wf(3) by (auto simp: reserved_ok_def)
  show "types_ok b'"
    using wf(1) e end_free unfolding types_ok_def res
    by (auto simp: b' nth_append less_SucI split: if_splits)
  have "boundary (recStarts b) (length (types b)) \<Longrightarrow> boundary (recStarts b) (Suc (length (types b)))"
    using boundary.b_next [of "recStarts b" "length (types b)"] no_start_at_end [OF wf(2), of "length (types b)"]
    by (simp add: gsize_def)
  then show "groups_ok b'"
    using wf(2) by (auto simp: groups_ok_def b' span_base_def less_SucI le_SucI split: option.splits)
  show "reserved_ok b'"
    using wf(3) unfolding reserved_ok_def res by (auto simp: b' span_base_def split: option.splits)
qed

lemma wf_internType:
  assumes wf: "wf_builder b" and e: "\<And>s. k = shapeKey s \<Longrightarrow> e = plain_entry s"
  shows "wf_builder (snd (internType k e b))"
proof (cases "typeIndex b k")
  case None
  let ?b = "b\<lparr>types := types b @ [e], typeIndex := (typeIndex b)(k \<mapsto> length (types b))\<rparr>"
  have "types_ok ?b" "groups_ok ?b" "reserved_ok ?b"
    using push_entry [OF _ _ _ None e, of ?b] wf by (simp_all add: wf_builder_def)
  moreover have "data_ok ?b" "engine_ok ?b" using wf by (auto simp: wf_defs)
  ultimately show ?thesis by (simp add: wf_builder_def internType_def None)
qed (simp add: internType_def wf)

lemma subStruct_intern:
  "subStructType k fs p = internType k \<lparr>te_shape = ShStruct fs, te_sub = Some \<lparr>supers = [p], final = True\<rparr>\<rparr>"
  by (rule ext) (simp add: subStructType_def internType_def Let_def split: option.split)

lemma openStruct_intern:
  "openStructType k fs = internType k \<lparr>te_shape = ShStruct fs, te_sub = Some \<lparr>supers = [], final = False\<rparr>\<rparr>"
  by (rule ext) (simp add: openStructType_def internType_def Let_def split: option.split)

lemma shape_intern:
  "funcType ps rs = internType (shapeKey (ShFunc ps rs)) (plain_entry (ShFunc ps rs))"
  "arrayType el m = internType (shapeKey (ShArray el m)) (plain_entry (ShArray el m))"
  "structType fs = internType (shapeKey (ShStruct fs)) (plain_entry (ShStruct fs))"
  by (simp_all add: funcType_def arrayType_def structType_def plain_entry_def)

lemma wf_shape: "wf_builder b \<Longrightarrow> wf_builder (snd (internType (shapeKey s) (plain_entry s) b))"
  by (rule wf_internType) (auto dest: shapeKey_inj)

lemma wf_plain: "wf_builder b \<Longrightarrow> plain_key k \<Longrightarrow> wf_builder (snd (internType k e b))"
  by (rule wf_internType) (auto dest: plain_key_shape)

section \<open>Group operations keep the invariant\<close>

lemma wf_selfStruct:
  assumes wf: "wf_builder b" and k: "plain_key k"
    and mk: "\<And>i fs b1. mk i b = Inr (fs, b1) \<Longrightarrow> wf_builder b1 \<and> typeIndex b1 k = typeIndex b k"
    and r: "selfStructType k mk b = Inr (i, b')"
  shows "wf_builder b'"
proof (cases "typeIndex b k")
  case None
  then obtain fs b1 where m: "mk (length (types b)) b = Inr (fs, b1)" and len: "length (types b1) = length (types b)"
    and b': "b' = snd (internType k (plain_entry (ShStruct fs)) b1)"
    using r mk by (fastforce simp: selfStructType_def Let_def internType_def plain_entry_def split: if_splits)
  then show ?thesis using wf_plain [OF _ k] mk by blast
qed (use r wf in \<open>simp add: selfStructType_def\<close>)

lemma wf_recGroup2:
  assumes wf: "wf_builder b" and k: "plain_key k"
    and mk: "\<And>i xy b1. mk i b = Inr (xy, b1) \<Longrightarrow> b1 = b"
    and r: "recGroup2 k mk b = Inr (i, b')"
  shows "wf_builder b'"
proof (cases "typeIndex b k")
  case None
  let ?n = "length (types b)"
  from None r mk obtain x y where b': "b' = b\<lparr>types := types b @ [x, y],
      recStarts := (recStarts b)(?n \<mapsto> 2), typeIndex := (typeIndex b)(k \<mapsto> ?n)\<rparr>"
    by (fastforce simp: recGroup2_def Let_def)
  have g: "groups_ok b" and res: "reserved b' = reserved b"
    using wf by (simp_all add: wf_builder_def reserved_def b')
  have "boundary ((recStarts b)(?n \<mapsto> 2)) (span_base b)"
    using boundary_upd [OF _ gsize_pos [OF g]] g by (simp add: groups_ok_def)
  moreover have "boundary ((recStarts b)(?n \<mapsto> 2)) ?n \<Longrightarrow> boundary ((recStarts b)(?n \<mapsto> 2)) (?n + 2)"
    using boundary.b_next [of "(recStarts b)(?n \<mapsto> 2)" ?n] by (simp add: gsize_def)
  ultimately have "groups_ok b'"
    using g by (auto simp: groups_ok_def b' span_base_def le_SucI split: option.splits)
  moreover have "types_ok b'" using wf plain_key_shape [OF k] unfolding wf_builder_def types_ok_def res
    by (auto simp: b' nth_append less_SucI)
  moreover have "reserved_ok b'" using wf unfolding wf_builder_def reserved_ok_def res
    by (auto simp: b' span_base_def split: option.splits)
  moreover have "data_ok b'" "engine_ok b'" using wf by (auto simp: wf_defs b')
  ultimately show ?thesis by (simp add: wf_builder_def)
qed (use r wf in \<open>simp add: recGroup2_def\<close>)

lemma wf_begin: "wf_builder b \<Longrightarrow> beginRecGroup b = Inr b' \<Longrightarrow> wf_builder b'"
  by (auto simp: beginRecGroup_def wf_defs span_base_def reserved_def split: if_splits)

lemma wf_end:
  assumes wf: "wf_builder b" and r: "endRecGroup b = Inr b'"
  shows "wf_builder b'"
proof -
  obtain s where s: "recSpanStart b = Some s" and none: "reservedTypes b = []"
    using r by (auto simp: endRecGroup_def Let_def split: option.splits if_splits)
  have g: "groups_ok b" using wf by (simp add: wf_builder_def)
  have sb: "boundary (recStarts b) s" "s \<le> length (types b)" using g s by (auto simp: groups_ok_def span_base_def)
  have "boundary ((recStarts b)(s \<mapsto> length (types b) - s)) (length (types b))" if "s < length (types b)"
    using boundary.b_next [OF boundary_upd [OF sb(1) gsize_pos [OF g], of s "length (types b) - s"]] that
    by (simp add: gsize_def)
  then have "groups_ok b'"
    using r s sb none g
    by (auto simp: endRecGroup_def groups_ok_def span_base_def Let_def split: if_splits)
  moreover have "types_ok b'" "reserved_ok b'" "data_ok b'" "engine_ok b'"
    using r wf s none by (auto simp: endRecGroup_def wf_defs reserved_def Let_def split: if_splits)
  ultimately show ?thesis by (simp add: wf_builder_def)
qed

lemma wf_reserve:
  assumes wf: "wf_builder b" and k: "plain_key k" and r: "reserveType k b = Inr (i, b')"
  shows "wf_builder b'"
proof (cases "typeIndex b k")
  case None
  let ?b = "b\<lparr>types := types b @ [plain_entry (ShStruct [])], typeIndex := (typeIndex b)(k \<mapsto> length (types b))\<rparr>"
  have b': "b' = ?b\<lparr>reservedTypes := reservedTypes b @ [(length (types b), k)]\<rparr>" and s: "recSpanStart b \<noteq> None"
    using r None by (auto simp: reserveType_def Let_def plain_entry_def split: if_splits)
  have p: "types_ok ?b" "groups_ok ?b" "reserved_ok ?b"
    using push_entry [OF _ _ _ None, of "plain_entry (ShStruct [])" ?b] wf plain_key_shape [OF k]
    by (simp_all add: wf_builder_def)
  have res: "reserved b' = insert (length (types b)) (reserved b)" by (simp add: reserved_def b')
  have "types_ok b'" using p(1) wf plain_key_shape [OF k] unfolding types_ok_def res
    by (auto simp: b' reserved_def wf_defs)
  moreover have "groups_ok b'" using p(2) by (simp add: groups_ok_def b' span_base_def split: option.splits)
  moreover have "reserved_ok b'" using p(3) wf s unfolding reserved_ok_def res
    by (auto simp: b' reserved_def span_base_def wf_defs split: option.splits)
  moreover have "data_ok b'" "engine_ok b'" using wf by (auto simp: wf_defs b')
  ultimately show ?thesis by (simp add: wf_builder_def)
qed (use r wf in \<open>auto simp: reserveType_def split: if_splits\<close>)

lemma wf_define:
  assumes wf: "wf_builder b" and r: "defineType i e b = Inr b'"
  shows "wf_builder b'"
proof -
  have b': "b' = b\<lparr>types := (types b)[i := e], reservedTypes := filter (\<lambda>(j, _). j \<noteq> i) (reservedTypes b)\<rparr>"
    and i: "i \<in> reserved b"
    using r by (auto simp: defineType_def reserved_def split: if_splits)
  have res: "reserved b' = reserved b - {i}" by (force simp: reserved_def b')
  have "types_ok b'" using wf i unfolding wf_builder_def types_ok_def res
    by (auto simp: b') (metis nth_list_update_neq)
  moreover have "groups_ok b'" using wf by (auto simp: wf_defs b' span_base_def split: option.splits)
  moreover have "reserved_ok b'" using wf unfolding wf_builder_def reserved_ok_def res
    by (auto simp: b' span_base_def distinct_map_filter split: option.splits)
  moreover have "data_ok b'" "engine_ok b'" using wf by (auto simp: wf_defs b')
  ultimately show ?thesis by (simp add: wf_builder_def)
qed

end
