(* ===== verification/Module_Steps.thy ===== *)
theory Module_Steps
  imports Module_Inv
begin

text \<open>
  The builder as a state machine: one rule per method, over the builder and the
  module-level memory index it shares with every other builder of the process. Every
  reachable builder is well formed, indices once given stay valid, and interned literals
  and types can be found again at any later time.
\<close>

section \<open>Steps\<close>

definition internShape :: "type_shape \<Rightarrow> builder \<Rightarrow> nat \<times> builder" where
  "internShape s = (case s of ShFunc ps rs \<Rightarrow> funcType ps rs | ShArray e m \<Rightarrow> arrayType e m
     | ShStruct fs \<Rightarrow> structType fs)"

lemma internShape_intern: "internShape s = internType (shapeKey s) (plain_entry s)"
  by (cases s) (simp_all add: internShape_def shape_intern)

text \<open>A call of any method but \<open>attachEngine\<close>. The callbacks of \<open>selfStructType\<close> and \<open>recGroup2\<close> compute from the
  index alone. Other builders of the process may change the shared memory index at any time.\<close>

inductive bcall :: "builder \<times> code_globals \<Rightarrow> builder \<times> code_globals \<Rightarrow> bool" where
  c_shape: "bcall (b, g) (snd (internShape s b), g)"
| c_subStruct: "plain_key k \<Longrightarrow> bcall (b, g) (snd (subStructType k fs p b), g)"
| c_openStruct: "plain_key k \<Longrightarrow> bcall (b, g) (snd (openStructType k fs b), g)"
| c_selfStruct: "plain_key k \<Longrightarrow> selfStructType k (\<lambda>i b. Inr (mk i, b)) b = Inr (i, b') \<Longrightarrow> bcall (b, g) (b', g)"
| c_recGroup2: "plain_key k \<Longrightarrow> recGroup2 k (\<lambda>i b. Inr (mk2 i, b)) b = Inr (i, b') \<Longrightarrow> bcall (b, g) (b', g)"
| c_begin: "beginRecGroup b = Inr b' \<Longrightarrow> bcall (b, g) (b', g)"
| c_end: "endRecGroup b = Inr b' \<Longrightarrow> bcall (b, g) (b', g)"
| c_reserve: "plain_key k \<Longrightarrow> reserveType k b = Inr (i, b') \<Longrightarrow> bcall (b, g) (b', g)"
| c_define: "defineType i e b = Inr b' \<Longrightarrow> bcall (b, g) (b', g)"
| c_funcRef: "bcall (b, g) (declareFuncRef i b, g)"
| c_import: "importFunc m n t b = Inr (i, b') \<Longrightarrow> bcall (b, g) (b', g)"
| c_declare: "bcall (b, g) (snd (declareFunc t n b), g)"
| c_body: "setBody g i ls code b = Inr b' \<Longrightarrow> bcall (b, g) (b', g)"
| c_global: "appends init \<Longrightarrow> bcall (b, g) (snd (addGlobal t m init b), g)"
| c_memory: "bcall (b, g) (ensureMemory n b, g)"
| c_exportFunc: "bcall (b, g) (exportFunc n i b, g)"
| c_exportMemory: "exportMemory n b = Inr b' \<Longrightarrow> bcall (b, g) (b', g)"
| c_data: "bcall (b, g) (snd (internData bs b), g)"
| c_engineMemory: "bcall s (reserveEngineMemory s)"
| c_other: "bcall (b, g) (b, g')"

abbreviation bcalls :: "builder \<times> code_globals \<Rightarrow> builder \<times> code_globals \<Rightarrow> bool" where
  "bcalls \<equiv> bcall\<^sup>*\<^sup>*"

text \<open>While the engine is attached, its import callback calls methods of the same builder. An engine image has one
  body per function (\<open>parseEngine\<close> checks it).\<close>

inductive bstep :: "builder \<times> code_globals \<Rightarrow> builder \<times> code_globals \<Rightarrow> bool" where
  st_call: "bcall s s' \<Longrightarrow> bstep s s'"
| st_attach: "length (ei_bodies img) = length (ei_funcTypes img) \<Longrightarrow>
    (\<And>imp x t y. bindImport imp x = Inr (t, y) \<Longrightarrow> bcalls (x, g) (y, g)) \<Longrightarrow>
    attachEngine img bindImport b = Inr (m, b') \<Longrightarrow> bstep (b, g) (b', g)"

lemmas st_shape = c_shape [THEN st_call]
lemmas st_subStruct = c_subStruct [THEN st_call]
lemmas st_openStruct = c_openStruct [THEN st_call]
lemmas st_selfStruct = c_selfStruct [THEN st_call]
lemmas st_recGroup2 = c_recGroup2 [THEN st_call]
lemmas st_begin = c_begin [THEN st_call]
lemmas st_end = c_end [THEN st_call]
lemmas st_reserve = c_reserve [THEN st_call]
lemmas st_define = c_define [THEN st_call]
lemmas st_funcRef = c_funcRef [THEN st_call]
lemmas st_import = c_import [THEN st_call]
lemmas st_declare = c_declare [THEN st_call]
lemmas st_body = c_body [THEN st_call]
lemmas st_global = c_global [THEN st_call]
lemmas st_memory = c_memory [THEN st_call]
lemmas st_exportFunc = c_exportFunc [THEN st_call]
lemmas st_exportMemory = c_exportMemory [THEN st_call]
lemmas st_data = c_data [THEN st_call]
lemmas st_engineMemory = c_engineMemory [THEN st_call]
lemmas st_other = c_other [THEN st_call]

abbreviation bsteps :: "builder \<times> code_globals \<Rightarrow> builder \<times> code_globals \<Rightarrow> bool" where
  "bsteps \<equiv> bstep\<^sup>*\<^sup>*"

definition reachable :: "builder \<Rightarrow> bool" where
  "reachable b \<longleftrightarrow> (\<exists>g0 g. bsteps (new_builder g0) (b, g))"

section \<open>Preservation\<close>

lemma wf_new: "wf_builder (fst (new_builder g))"
  by (simp add: new_builder_def wf_defs span_base_def reserved_def b_start)

text \<open>Methods that leave types, groups and reservations alone.\<close>

lemma wf_frame:
  assumes "wf_builder b"
    and "types b' = types b" "typeIndex b' = typeIndex b" "recStarts b' = recStarts b"
      "recSpanStart b' = recSpanStart b" "reservedTypes b' = reservedTypes b"
    and "data_ok b'" "engine_ok b'"
  shows "wf_builder b'"
proof -
  have "span_base b' = span_base b" "reserved b' = reserved b"
    using assms by (simp_all add: span_base_def reserved_def cong: option.case_cong)
  with assms show ?thesis by (simp add: wf_builder_def types_ok_def groups_ok_def reserved_ok_def)
qed

lemma wf_parts: "wf_builder b \<Longrightarrow> data_ok b" "wf_builder b \<Longrightarrow> engine_ok b"
  by (simp_all add: wf_builder_def)

lemma wf_internData:
  assumes "wf_builder b"
  shows "wf_builder (snd (internData bs b))"
proof (rule wf_frame [OF assms])
  have d: "data_ok b" using assms by (simp add: wf_builder_def)
  show "data_ok (snd (internData bs b))"
  proof (cases "blobIndex b (dataKey bs)")
    case None
    have old: "i + length cs \<le> length (blob b @ bs) \<and> take (length cs) (drop i (blob b @ bs)) = cs"
      if "blobIndex b (dataKey cs) = Some i" for cs i
    proof -
      have "i + length cs \<le> length (blob b)" "take (length cs) (drop i (blob b)) = cs"
        using d that by (auto simp: data_ok_def)
      then show ?thesis by simp
    qed
    show ?thesis
      using None old by (auto simp: internData_def Let_def data_ok_def dest: dataKey_inj)
  next
    case (Some i)
    then show ?thesis using d by (auto simp: internData_def Let_def data_ok_def)
  qed
  show "engine_ok (snd (internData bs b))"
    using assms by (auto simp: internData_def Let_def wf_defs split: option.split)
qed (auto simp: internData_def Let_def split: option.split)

lemma map_st_inv: "(\<And>x s. P s \<Longrightarrow> P (snd (f x s))) \<Longrightarrow> P s \<Longrightarrow> P (snd (map_st f xs s))"
  by (induction xs arbitrary: s) (simp_all add: Let_def case_prod_beta)

lemma intern_frame:
  "funcs (snd (internType k e b)) = funcs b" "engine (snd (internType k e b)) = engine b"
  "engineMemory (snd (internType k e b)) = engineMemory b" "imps (snd (internType k e b)) = imps b"
  "recSpanStart (snd (internType k e b)) = recSpanStart b" "globals (snd (internType k e b)) = globals b"
  by (simp_all add: internType_def split: option.split)

lemma wf_setBody:
  assumes wf: "wf_builder b" and r: "setBody g i ls code b = Inr b'"
  shows "wf_builder b'"
proof -
  obtain d where d: "func_at b i = Some d" "fd_engineBody d = None"
    and b': "b' = b\<lparr>funcs := (funcs b)[i - length (imps b) := d\<lparr>fd_body := Some (ls, code)\<rparr>]\<rparr>"
    using r by (auto simp: setBody_def split: option.splits if_splits)
  have "set (funcs b') \<subseteq> insert (d\<lparr>fd_body := Some (ls, code)\<rparr>) (set (funcs b))"
    by (simp add: b' set_update_subset_insert)
  then have "engine_ok b'" using wf_parts(2) [OF wf] d(2) by (auto simp: b' engine_ok_def)
  moreover have "data_ok b'" using wf_parts(1) [OF wf] by (simp add: b' data_ok_def)
  ultimately show ?thesis by (intro wf_frame [OF wf]) (simp_all add: b')
qed

text \<open>Methods that only touch functions, memory, exports and references.\<close>

lemma wf_simple:
  assumes "wf_builder b"
  shows "wf_builder (declareFuncRef i b)" and "wf_builder (ensureMemory n b)"
    and "wf_builder (exportFunc nm i b)" and "wf_builder (snd (declareFunc t nm b))"
    and "exportMemory nm b = Inr b' \<Longrightarrow> wf_builder b'"
    and "importFunc m nm t b = Inr (i, b') \<Longrightarrow> wf_builder b'"
    and "appends init \<Longrightarrow> wf_builder (snd (addGlobal vt mut init b))"
    and "wf_builder (b\<lparr>engineMemory := True\<rparr>)"
  using wf_parts [OF assms]
  by (auto intro!: wf_frame [OF assms] simp: declareFuncRef_def ensureMemory_def exportFunc_def declareFunc_def
      exportMemory_def importFunc_def addGlobal_def Let_def data_ok_def engine_ok_def split: if_splits)

lemma bcall_wf: "bcall s s' \<Longrightarrow> wf_builder (fst s) \<Longrightarrow> wf_builder (fst s')"
proof (induction rule: bcall.induct)
  case (c_shape b g s)
  then show ?case using wf_shape by (simp add: internShape_intern)
next
  case (c_subStruct k b g fs p)
  then show ?case using wf_plain by (simp add: subStruct_intern)
next
  case (c_openStruct k b g fs)
  then show ?case using wf_plain by (simp add: openStruct_intern)
next
  case (c_selfStruct k mk b i b' g)
  then show ?case using wf_selfStruct [of b k "\<lambda>i b. Inr (mk i, b)"] by auto
next
  case (c_recGroup2 k mk2 b i b' g)
  then show ?case using wf_recGroup2 [of b k "\<lambda>i b. Inr (mk2 i, b)"] by auto
next
  case (c_begin b b' g)
  then show ?case using wf_begin by simp
next
  case (c_end b b' g)
  then show ?case using wf_end by simp
next
  case (c_reserve k b i b' g)
  then show ?case using wf_reserve by simp
next
  case (c_define i e b b' g)
  then show ?case using wf_define by simp
next
  case (c_body g i ls code b b')
  then show ?case using wf_setBody by simp
next
  case (c_data b g bs)
  then show ?case using wf_internData by simp
next
  case (c_funcRef b g i)
  then show ?case using wf_simple(1) by simp
next
  case (c_import m n t b i b' g)
  then show ?case using wf_simple(6) by simp
next
  case (c_declare b g t n)
  then show ?case using wf_simple(4) by simp
next
  case (c_global init b g t m)
  then show ?case using wf_simple(7) by simp
next
  case (c_memory b g n)
  then show ?case using wf_simple(2) by simp
next
  case (c_exportFunc b g n i)
  then show ?case using wf_simple(3) by simp
next
  case (c_exportMemory n b b' g)
  then show ?case using wf_simple(5) by simp
next
  case (c_engineMemory s)
  then show ?case using wf_simple(8) by (simp add: reserveEngineMemory_def case_prod_beta)
qed simp

lemma bcalls_wf: "bcalls s s' \<Longrightarrow> wf_builder (fst s) \<Longrightarrow> wf_builder (fst s')"
  by (induction rule: rtranclp_induct) (auto intro: bcall_wf)

text \<open>Only \<open>attachEngine\<close> sets the engine.\<close>

lemma bcall_engine: "bcall s s' \<Longrightarrow> engine (fst s') = engine (fst s) \<and> (engineMemory (fst s) \<longrightarrow> engineMemory (fst s'))"
  by (induction rule: bcall.induct)
     (auto simp: internShape_intern subStruct_intern openStruct_intern intern_frame selfStructType_def recGroup2_def beginRecGroup_def
       endRecGroup_def reserveType_def defineType_def declareFuncRef_def importFunc_def declareFunc_def setBody_def addGlobal_def ensureMemory_def
       exportFunc_def exportMemory_def internData_def reserveEngineMemory_def Let_def case_prod_beta split: option.splits if_splits)

lemma bcalls_engine: "bcalls s s' \<Longrightarrow> engine (fst s') = engine (fst s) \<and> (engineMemory (fst s) \<longrightarrow> engineMemory (fst s'))"
  by (induction rule: rtranclp_induct) (auto dest: bcall_engine)

lemma bind_imports_calls:
  assumes "\<And>imp x t y. bi imp x = Inr (t, y) \<Longrightarrow> bcalls (x, g) (y, g)"
  shows "bind_imports tm bi is b = Inr (ts, b') \<Longrightarrow> bcalls (b, g) (b', g)"
proof (induction "is" arbitrary: b ts)
  case (Cons i "is")
  then obtain t x us where "bi i b = Inr (t, x)" "bind_imports tm bi is x = Inr (us, b')"
    by (auto simp: bind_import_def split: if_splits)
  then show ?case using assms Cons.IH by (meson rtranclp_trans)
qed simp

lemma attach_result:
  assumes r: "attachEngine img bi b = Inr (m, b')" and pre: "engineMemory b" "engine b = None" "recSpanStart b = None"
    and t: "map_st (\<lambda>t. funcType (ft_params t) (ft_results t)) (ei_types img) b = (tm, b0)"
    and i: "bind_imports tm bi (ei_imports img) b0 = Inr (ts, b1)"
    and gl: "map_st (\<lambda>g. addGlobal (eg_type g) (eg_mutable g) (raw (eg_init g))) (ei_globals img)
      (b1\<lparr>funcs := funcs b1 @ map (engine_decl img tm) [0..<length (ei_funcTypes img)]\<rparr>) = (gm, b3)"
  shows "\<exists>e. b' = b3\<lparr>engine := Some e\<rparr> \<and> ae_bodies e = ei_bodies img \<and> ix_types m = tm"
  using r unfolding attachEngine_def
  by (simp only: pre t i gl Let_def prod.case bindR_simps simp_thms if_True if_False option.distinct bindR_eq_Inr sum.inject prod.inject)
    (elim exE conjE, hypsubst, intro exI conjI, rule refl, simp_all)

text \<open>The stages of \<open>attachEngine\<close>: the engine's types, the imports' callbacks, its functions and globals.\<close>

lemma attach_stages:
  assumes cb: "\<And>imp x t y. bi imp x = Inr (t, y) \<Longrightarrow> bcalls (x, g) (y, g)" and r: "attachEngine img bi b = Inr (m, b')"
  obtains b1 fs gs e where "bcalls (b, g) (b1, g)" "engineMemory b" "engine b = None" "recSpanStart b = None"
    "fs = map (engine_decl img (ix_types m)) [0..<length (ei_funcTypes img)]"
    "\<forall>x \<in> set gs. appends (gl_init x)" "ae_bodies e = ei_bodies img"
    "b' = b1\<lparr>funcs := funcs b1 @ fs, globals := globals b1 @ gs, engine := Some e\<rparr>"
proof -
  let ?ty = "\<lambda>t. funcType (ft_params t) (ft_results t)" and ?gl = "\<lambda>g. addGlobal (eg_type g) (eg_mutable g) (raw (eg_init g))"
  have pre: "engineMemory b" "engine b = None" "recSpanStart b = None"
    using r by (auto simp: attachEngine_def split: if_splits)
  obtain tm b0 where t: "map_st ?ty (ei_types img) b = (tm, b0)" by (cases "map_st ?ty (ei_types img) b")
  obtain ts b1 where i: "bind_imports tm bi (ei_imports img) b0 = Inr (ts, b1)"
    using r pre t by (cases "bind_imports tm bi (ei_imports img) b0") (auto simp: attachEngine_def)
  define fs where "fs = map (engine_decl img tm) [0..<length (ei_funcTypes img)]"
  obtain gm b3 where gl: "map_st ?gl (ei_globals img) (b1\<lparr>funcs := funcs b1 @ fs\<rparr>) = (gm, b3)"
    by (cases "map_st ?gl (ei_globals img) (b1\<lparr>funcs := funcs b1 @ fs\<rparr>)")
  obtain e where e: "b' = b3\<lparr>engine := Some e\<rparr>" "ae_bodies e = ei_bodies img" "ix_types m = tm"
    using attach_result [OF r pre t i gl [unfolded fs_def]] by blast
  have "bcalls (b, g) (snd (map_st ?ty (ei_types img) b), g)"
  proof (rule map_st_inv)
    show "bcalls (b, g) (snd (?ty x s), g)" if "bcalls (b, g) (s, g)" for x s
      using that c_shape [of s g "ShFunc (ft_params x) (ft_results x)"] by (simp add: internShape_def)
  qed simp
  then have calls: "bcalls (b, g) (b1, g)" using bind_imports_calls [OF cb i] t by (simp add: rtranclp_trans)
  have "\<exists>gs. snd (map_st ?gl (ei_globals img) (b1\<lparr>funcs := funcs b1 @ fs\<rparr>)) =
      b1\<lparr>funcs := funcs b1 @ fs, globals := globals b1 @ gs\<rparr> \<and> (\<forall>x \<in> set gs. appends (gl_init x))"
  proof (rule map_st_inv)
    have raw: "appends (raw bs)" for bs by (rule appends_writes [OF writes_raw])
    show "\<exists>gs. snd (?gl x s) = b1\<lparr>funcs := funcs b1 @ fs, globals := globals b1 @ gs\<rparr> \<and> (\<forall>x \<in> set gs. appends (gl_init x))"
      if ih: "\<exists>gs. s = b1\<lparr>funcs := funcs b1 @ fs, globals := globals b1 @ gs\<rparr> \<and> (\<forall>x \<in> set gs. appends (gl_init x))" for x s
    proof -
      obtain gs where "s = b1\<lparr>funcs := funcs b1 @ fs, globals := globals b1 @ gs\<rparr>" "\<forall>x \<in> set gs. appends (gl_init x)"
        using ih by blast
      then show ?thesis
        by (intro exI [of _ "gs @ [\<lparr>gl_type = eg_type x, gl_mutable = eg_mutable x, gl_init = raw (eg_init x)\<rparr>]"])
          (auto simp: addGlobal_def Let_def raw)
    qed
    show "\<exists>gs. b1\<lparr>funcs := funcs b1 @ fs\<rparr> = b1\<lparr>funcs := funcs b1 @ fs, globals := globals b1 @ gs\<rparr> \<and> (\<forall>x \<in> set gs. appends (gl_init x))"
      by (intro exI [of _ "[]"]) simp
  qed
  then obtain gs where gs: "b3 = b1\<lparr>funcs := funcs b1 @ fs, globals := globals b1 @ gs\<rparr>" "\<forall>x \<in> set gs. appends (gl_init x)"
    using gl by auto
  have "fs = map (engine_decl img (ix_types m)) [0..<length (ei_funcTypes img)]" by (simp only: fs_def e(3))
  moreover have "b' = b1\<lparr>funcs := funcs b1 @ fs, globals := globals b1 @ gs, engine := Some e\<rparr>" by (simp only: e(1) gs(1))
  ultimately show ?thesis by (rule that [OF calls pre _ gs(2) e(2)])
qed

lemma wf_attach:
  assumes wf: "wf_builder b" and img: "length (ei_bodies img) = length (ei_funcTypes img)"
    and cb: "\<And>imp x t y. bi imp x = Inr (t, y) \<Longrightarrow> bcalls (x, g) (y, g)" and r: "attachEngine img bi b = Inr (m, b')"
  shows "wf_builder b'"
proof -
  obtain b1 fs gs e where st: "bcalls (b, g) (b1, g)" "engineMemory b" "engine b = None"
    "fs = map (engine_decl img (ix_types m)) [0..<length (ei_funcTypes img)]" "\<forall>x \<in> set gs. appends (gl_init x)"
    "ae_bodies e = ei_bodies img" "b' = b1\<lparr>funcs := funcs b1 @ fs, globals := globals b1 @ gs, engine := Some e\<rparr>"
    by (rule attach_stages [OF cb r])
  have b1: "wf_builder b1" "engine b1 = None" "engineMemory b1"
    using bcalls_wf [OF st(1)] bcalls_engine [OF st(1)] wf st(2,3) by auto
  show ?thesis
  proof (rule wf_frame [OF b1(1)])
    have "\<forall>f \<in> set fs. fd_body f = None \<and> (\<exists>k < length (ae_bodies e). fd_engineBody f = Some k)"
      using img st(6) by (auto simp: st(4) engine_decl_def)
    moreover have "\<forall>f \<in> set (funcs b1). fd_engineBody f = None" using b1(2) wf_parts(2) [OF b1(1)] by (auto simp: engine_ok_def)
    ultimately show "engine_ok b'" using b1(3) wf_parts(2) [OF b1(1)] st(5)
      by (auto simp: st(7) engine_ok_def)
  qed (use wf_parts(1) [OF b1(1)] in \<open>auto simp: st(7) data_ok_def\<close>)
qed

lemma bstep_wf: "bstep s s' \<Longrightarrow> wf_builder (fst s) \<Longrightarrow> wf_builder (fst s')"
proof (induction rule: bstep.induct)
  case (st_attach img bi g b m b')
  then show ?case using wf_attach [of b img bi g m b'] by simp
qed (rule bcall_wf)

lemma bsteps_wf: "bsteps s s' \<Longrightarrow> wf_builder (fst s) \<Longrightarrow> wf_builder (fst s')"
  by (induction rule: rtranclp_induct) (auto intro: bstep_wf)

lemma reachable_wf: "reachable b \<Longrightarrow> wf_builder b"
  using bsteps_wf wf_new unfolding reachable_def by fastforce

section \<open>Later builders extend earlier ones\<close>

text \<open>Index maps only grow, and a declared function keeps its index, type and name: an import
  that would shift it is refused.\<close>

definition fd_sig :: "func_decl \<Rightarrow> jsnum \<times> jsstr" where
  "fd_sig f = (fd_type f, fd_name f)"

definition extends :: "builder \<Rightarrow> builder \<Rightarrow> bool" where
  "extends b b' \<longleftrightarrow>
     typeIndex b \<subseteq>\<^sub>m typeIndex b' \<and> blobIndex b \<subseteq>\<^sub>m blobIndex b' \<and> (blobUsed b \<longrightarrow> blobUsed b')
     \<and> (funcs b \<noteq> [] \<longrightarrow> imps b' = imps b) \<and> (\<exists>fs. map fd_sig (funcs b') = map fd_sig (funcs b) @ fs)"

lemma extends_refl [simp]: "extends b b"
  by (simp add: extends_def)

lemma extends_trans: "extends a b \<Longrightarrow> extends b c \<Longrightarrow> extends a c"
  unfolding extends_def by (auto intro: map_le_trans)

lemma extends_frame:
  "typeIndex b' = typeIndex b \<Longrightarrow> blobIndex b' = blobIndex b \<Longrightarrow> (blobUsed b \<longrightarrow> blobUsed b') \<Longrightarrow>
   imps b' = imps b \<or> funcs b = [] \<Longrightarrow> \<exists>fs. map fd_sig (funcs b') = map fd_sig (funcs b) @ fs \<Longrightarrow> extends b b'"
  by (auto simp: extends_def)

lemma extends_add_type:
  "typeIndex b k = None \<Longrightarrow> typeIndex b' = (typeIndex b)(k \<mapsto> n) \<Longrightarrow> blobIndex b' = blobIndex b \<Longrightarrow>
   blobUsed b' = blobUsed b \<Longrightarrow> imps b' = imps b \<Longrightarrow> funcs b' = funcs b \<Longrightarrow> extends b b'"
  by (auto simp: extends_def map_le_def)

lemma extends_internType: "extends b (snd (internType k e b))"
  by (cases "typeIndex b k") (auto simp: internType_def intro: extends_add_type)

lemma setBody_sig: "setBody g i ls code b = Inr b' \<Longrightarrow> map fd_sig (funcs b') = map fd_sig (funcs b)"
  by (auto simp: setBody_def func_at_def fd_sig_def map_update split: option.splits if_splits
      intro!: list_update_same_conv [THEN iffD2])

lemma bcall_extends: "bcall s s' \<Longrightarrow> extends (fst s) (fst s')"
proof (induction rule: bcall.induct)
  case (c_selfStruct k mk b i b' g)
  then show ?case
    by (cases "typeIndex b k") (auto simp: selfStructType_def Let_def intro: extends_add_type)
next
  case (c_recGroup2 k mk2 b i b' g)
  then show ?case
    by (cases "typeIndex b k") (auto simp: recGroup2_def Let_def case_prod_beta intro: extends_add_type)
next
  case (c_reserve k b i b' g)
  then show ?case
    by (cases "typeIndex b k") (auto simp: reserveType_def Let_def split: if_splits intro: extends_add_type)
next
  case (c_begin b b' g)
  then show ?case by (auto simp: beginRecGroup_def split: if_splits intro: extends_frame)
next
  case (c_end b b' g)
  then show ?case by (auto simp: endRecGroup_def Let_def split: if_splits option.splits intro: extends_frame)
next
  case (c_define i e b b' g)
  then show ?case by (auto simp: defineType_def split: if_splits intro: extends_frame)
next
  case (c_body g i ls code b b')
  have "\<exists>fs. map fd_sig (funcs b') = map fd_sig (funcs b) @ fs" using setBody_sig [OF c_body] by simp
  with c_body show ?case
    by (auto simp: setBody_def split: if_splits option.splits intro!: extends_frame)
next
  case (c_data b g bs)
  then show ?case
    by (cases "blobIndex b (dataKey bs)") (auto simp: internData_def Let_def extends_def map_le_def)
next
  case (c_import m n t b i b' g)
  then show ?case by (auto simp: importFunc_def Let_def split: if_splits intro: extends_frame)
next
  case (c_engineMemory s)
  show ?case by (cases s) (auto simp: reserveEngineMemory_def intro: extends_frame)
next
  case (c_exportMemory n b b' g)
  then show ?case by (auto simp: exportMemory_def split: if_splits intro: extends_frame)
qed (auto simp: internShape_intern subStruct_intern openStruct_intern extends_internType
      declareFuncRef_def declareFunc_def addGlobal_def ensureMemory_def exportFunc_def Let_def intro: extends_frame)

lemma bcalls_extends: "bcalls s s' \<Longrightarrow> extends (fst s) (fst s')"
  by (induction rule: rtranclp_induct) (auto intro: extends_trans bcall_extends)

lemma extends_attach:
  assumes cb: "\<And>imp x t y. bi imp x = Inr (t, y) \<Longrightarrow> bcalls (x, g) (y, g)" and r: "attachEngine img bi b = Inr (m, b')"
  shows "extends b b'"
proof -
  obtain b1 fs gs e where st: "bcalls (b, g) (b1, g)" "b' = b1\<lparr>funcs := funcs b1 @ fs, globals := globals b1 @ gs, engine := Some e\<rparr>"
    by (rule attach_stages [OF cb r])
  have "extends b1 b'" by (rule extends_frame) (simp_all add: st(2))
  then show ?thesis using bcalls_extends [OF st(1)] extends_trans by auto
qed

lemma bstep_extends: "bstep s s' \<Longrightarrow> extends (fst s) (fst s')"
proof (induction rule: bstep.induct)
  case (st_attach img bi g b m b')
  then show ?case using extends_attach [of bi g img b m b'] by simp
qed (rule bcall_extends)

lemma bsteps_extends: "bsteps s s' \<Longrightarrow> extends (fst s) (fst s')"
  by (induction rule: rtranclp_induct) (auto intro: extends_trans bstep_extends)

lemma reachable_steps:
  assumes "reachable b" and "bsteps (b, g) (b', g')"
  shows "reachable b'"
proof -
  obtain g0 g1 where "bsteps (new_builder g0) (b, g1)" using assms(1) by (auto simp: reachable_def)
  moreover have "bsteps (b, g1) (b, g)" by (blast intro: st_other)
  ultimately show ?thesis using assms(2) unfolding reachable_def by (meson rtranclp_trans)
qed

lemma reachable_step: "reachable b \<Longrightarrow> bstep (b, g) (b', g') \<Longrightarrow> reachable b'"
  using reachable_steps by blast

section \<open>What is closed stays as it is\<close>

text \<open>The types before the open span, or all of them when none is open, and the groups that start among them are never
  changed again.\<close>

definition settled :: "builder \<Rightarrow> builder \<Rightarrow> bool" where
  "settled b b' \<longleftrightarrow> span_base b \<le> span_base b' \<and> take (span_base b) (types b') = take (span_base b) (types b) \<and>
     (\<forall>i < span_base b. recStarts b' i = recStarts b i)"

lemma settled_refl [simp]: "settled b b"
  by (simp add: settled_def)

lemma settled_trans:
  assumes "settled a b" "settled b c" shows "settled a c"
proof -
  have "take (span_base a) (types c) = take (span_base a) (take (span_base b) (types c))"
    using assms(1) by (simp add: settled_def min_absorb1)
  also have "\<dots> = take (span_base a) (types b)" using assms by (simp add: settled_def min_absorb1)
  finally show ?thesis using assms by (auto simp: settled_def)
qed

lemma span_base_le: "wf_builder b \<Longrightarrow> span_base b \<le> length (types b)"
  by (simp add: wf_builder_def groups_ok_def)

lemma settled_append:
  assumes "wf_builder b" "types b' = types b @ ts" "recSpanStart b' = recSpanStart b"
    "\<forall>i < length (types b). recStarts b' i = recStarts b i"
  shows "settled b b'"
  using span_base_le [OF assms(1)] assms(2-) by (auto simp: settled_def span_base_def split: option.splits)

lemma settled_frame:
  "wf_builder b \<Longrightarrow> types b' = types b \<Longrightarrow> recSpanStart b' = recSpanStart b \<Longrightarrow> recStarts b' = recStarts b \<Longrightarrow> settled b b'"
  by (rule settled_append [where ts = "[]"]) simp_all

lemma settled_internType: "wf_builder b \<Longrightarrow> settled b (snd (internType k e b))"
  by (cases "typeIndex b k") (auto simp: internType_def intro: settled_append)

lemma settled_define:
  assumes "wf_builder b" "defineType i e b = Inr b'"
  shows "settled b b'"
proof -
  have "i \<in> reserved b" and b': "b' = b\<lparr>types := (types b)[i := e], reservedTypes := filter (\<lambda>(j, _). j \<noteq> i) (reservedTypes b)\<rparr>"
    using assms(2) by (auto simp: defineType_def reserved_def split: if_splits)
  then have "span_base b \<le> i" using assms(1) by (auto simp: wf_builder_def reserved_ok_def)
  then show ?thesis by (simp add: b' settled_def span_base_def cong: option.case_cong)
qed

lemma settled_end:
  assumes "wf_builder b" "endRecGroup b = Inr b'"
  shows "settled b b'"
  using assms span_base_le [OF assms(1)]
  by (auto simp: endRecGroup_def settled_def span_base_def Let_def split: option.splits if_splits)

lemma bcall_settled: "bcall s s' \<Longrightarrow> wf_builder (fst s) \<Longrightarrow> settled (fst s) (fst s')"
proof (induction rule: bcall.induct)
  case (c_selfStruct k mk b i b' g)
  then show ?case
    by (cases "typeIndex b k") (auto simp: selfStructType_def Let_def intro!: settled_append)
next
  case (c_recGroup2 k mk2 b i b' g)
  then show ?case
    by (cases "typeIndex b k") (auto simp: recGroup2_def Let_def case_prod_beta intro!: settled_append)
next
  case (c_begin b b' g)
  then show ?case by (auto simp: beginRecGroup_def settled_def span_base_def split: if_splits)
next
  case (c_end b b' g)
  then show ?case using settled_end by simp
next
  case (c_reserve k b i b' g)
  then show ?case
    by (cases "typeIndex b k") (auto simp: reserveType_def Let_def split: if_splits intro!: settled_append)
next
  case (c_define i e b b' g)
  then show ?case using settled_define by simp
qed (auto simp: internShape_intern subStruct_intern openStruct_intern settled_internType declareFuncRef_def importFunc_def declareFunc_def
      setBody_def addGlobal_def ensureMemory_def exportFunc_def exportMemory_def internData_def reserveEngineMemory_def Let_def case_prod_beta
      split: option.splits if_splits intro!: settled_frame)

lemma bcalls_settled: "bcalls s s' \<Longrightarrow> wf_builder (fst s) \<Longrightarrow> settled (fst s) (fst s')"
proof (induction rule: rtranclp_induct)
  case (step t u)
  then show ?case using settled_trans bcall_settled bcalls_wf by blast
qed simp

lemma bstep_settled: "bstep s s' \<Longrightarrow> wf_builder (fst s) \<Longrightarrow> settled (fst s) (fst s')"
proof (induction rule: bstep.induct)
  case (st_attach img bi g b m b')
  obtain b1 fs gs e where st: "bcalls (b, g) (b1, g)" "b' = b1\<lparr>funcs := funcs b1 @ fs, globals := globals b1 @ gs, engine := Some e\<rparr>"
    by (rule attach_stages [of bi g img b m b']) (use st_attach in auto)
  have "settled b b1" "wf_builder b1" using bcalls_settled [OF st(1)] bcalls_wf [OF st(1)] st_attach.prems by simp_all
  moreover have "settled b1 b'" using calculation(2) by (rule settled_frame) (simp_all add: st(2))
  ultimately show ?case using settled_trans by simp
qed (rule bcall_settled)

lemma bsteps_settled: "bsteps s s' \<Longrightarrow> wf_builder (fst s) \<Longrightarrow> settled (fst s) (fst s')"
proof (induction rule: rtranclp_induct)
  case (step t u)
  then show ?case using settled_trans bstep_settled bsteps_wf by blast
qed simp

text \<open>The calls a program makes while one span stays open.\<close>

definition spanStep :: "builder \<times> code_globals \<Rightarrow> builder \<times> code_globals \<Rightarrow> bool" where
  "spanStep s s' \<longleftrightarrow> bstep s s' \<and> recSpanStart (fst s') \<noteq> None"

lemma bcall_span: "bcall s s' \<Longrightarrow> recSpanStart (fst s) = Some k \<Longrightarrow> recSpanStart (fst s') = Some k \<or> recSpanStart (fst s') = None"
  by (induction rule: bcall.induct)
     (auto simp: internShape_intern subStruct_intern openStruct_intern intern_frame selfStructType_def recGroup2_def beginRecGroup_def
       endRecGroup_def reserveType_def defineType_def declareFuncRef_def importFunc_def declareFunc_def setBody_def addGlobal_def ensureMemory_def
       exportFunc_def exportMemory_def internData_def reserveEngineMemory_def Let_def case_prod_beta split: option.splits if_splits)

lemma spanStep_start: "spanStep s s' \<Longrightarrow> recSpanStart (fst s) = Some k \<Longrightarrow> recSpanStart (fst s') = Some k"
  unfolding spanStep_def
proof (elim conjE)
  assume "bstep s s'" "recSpanStart (fst s') \<noteq> None" "recSpanStart (fst s) = Some k"
  then show ?thesis
  proof (cases rule: bstep.cases)
    case st_call
    then show ?thesis using bcall_span [of s s' k] \<open>recSpanStart (fst s') \<noteq> None\<close> \<open>recSpanStart (fst s) = Some k\<close> by auto
  next
    case (st_attach img bi g b m b')
    then show ?thesis using \<open>recSpanStart (fst s) = Some k\<close> by (simp add: attachEngine_def split: if_splits)
  qed
qed

lemma spanSteps_start: "spanStep\<^sup>*\<^sup>* s s' \<Longrightarrow> recSpanStart (fst s) = Some k \<Longrightarrow> recSpanStart (fst s') = Some k"
  by (induction rule: rtranclp_induct) (auto intro: spanStep_start)

lemma spanSteps_steps: "spanStep\<^sup>*\<^sup>* s s' \<Longrightarrow> bsteps s s'"
  by (induction rule: rtranclp_induct) (auto simp: spanStep_def intro: rtranclp.rtrancl_into_rtrancl)

section \<open>Properties\<close>

text \<open>C9. The builder's invariant. Whatever sequence of methods a client calls, and whatever
  other builders of the process do to the shared memory index, the builder stays well
  formed: every key's index is a type, shape keys lead to exactly that shape, every
  recursion group is non-empty and ends within the type space, the open span starts at a
  group boundary, reservations lie inside the open span, interned data reads back, and
  engine functions have bodies.\<close>

theorem builder_invariant:
  assumes "bsteps (new_builder g0) (b, g)"
  shows "wf_builder b"
  using bsteps_wf [OF assms wf_new] by simp

theorem builder_invariant_witness:
  "\<exists>b. bsteps (new_builder \<lparr>ourMem = 7, charsType = None\<rparr>) (b, \<lparr>ourMem = 0, charsType = None\<rparr>)
     \<and> length (types b) = 1 \<and> recStarts b 0 = Some 1 \<and> wf_builder b"
proof -
  let ?g = "\<lparr>ourMem = 7, charsType = None\<rparr>" and ?h = "\<lparr>ourMem = 0, charsType = None\<rparr>"
  define b0 where "b0 = fst (new_builder ?g)"
  define b1 where "b1 = b0\<lparr>recSpanStart := Some 0\<rparr>"
  define b2 where "b2 = snd (internShape (ShFunc [] [I32]) b1)"
  define b3 where "b3 = b2\<lparr>recSpanStart := None, recStarts := (recStarts b2)(0 \<mapsto> 1)\<rparr>"
  have b2: "b2 = b1\<lparr>types := [plain_entry (ShFunc [] [I32])], typeIndex := (typeIndex b1)(funcKey [] [I32] \<mapsto> 0)\<rparr>"
    by (simp add: b2_def internShape_intern internType_def b1_def b0_def new_builder_def)
  have "new_builder ?g = (b0, ?h)" by (simp add: b0_def new_builder_def setOurMemoryIndex_def)
  moreover have "bstep (b0, ?h) (b1, ?h)"
    by (rule st_begin) (simp add: beginRecGroup_def b1_def b0_def new_builder_def)
  moreover have "bstep (b1, ?h) (b2, ?h)" unfolding b2_def by (rule st_shape)
  moreover have "bstep (b2, ?h) (b3, ?h)"
    by (rule st_end) (simp add: endRecGroup_def b3_def b2 b1_def b0_def new_builder_def)
  ultimately have "bsteps (new_builder ?g) (b3, ?h)" by auto
  moreover have "length (types b3) = 1" "recStarts b3 0 = Some 1" by (simp_all add: b3_def b2)
  ultimately show ?thesis using builder_invariant by blast
qed

text \<open>C10. Interning by shape is canonical for the whole life of the builder. The index handed
  out for a function, array or struct type names an entry of exactly that shape; after
  any further calls the same shape gets the same index and nothing is added, and no other
  shape gets it.\<close>

theorem interning_canonical:
  assumes "reachable b" and "internShape s b = (i, b1)" and "bsteps (b1, g) (b2, g')"
  shows "internShape s b2 = (i, b2) \<and> i < length (types b2) \<and> types b2 ! i = plain_entry s
         \<and> (\<forall>s' b3. internShape s' b2 = (i, b3) \<longrightarrow> s' = s)"
proof -
  have "bstep (b, g) (b1, g)" using st_shape [of b g s] assms(2) by simp
  then have "reachable b2" using reachable_steps [OF reachable_step [OF assms(1)] assms(3)] by blast
  then have wf: "types_ok b2" using reachable_wf by (simp add: wf_builder_def)
  have "typeIndex b1 (shapeKey s) = Some i"
    using type_interner.look_added [where k = "shapeKey s" and v = "plain_entry s" and s = b] assms(2) by (simp add: internShape_intern)
  moreover have "extends b1 b2" using bsteps_extends [OF assms(3)] by simp
  ultimately have k: "typeIndex b2 (shapeKey s) = Some i" by (force simp: extends_def map_le_def)
  then have i: "i < length (types b2)" "types b2 ! i = plain_entry s" using wf by (auto simp: types_ok_def)
  moreover have "internShape s b2 = (i, b2)" using k by (simp add: internShape_intern internType_def)
  moreover have "s' = s" if s': "internShape s' b2 = (i, b3)" for s' b3
  proof (cases "typeIndex b2 (shapeKey s')")
    case None
    then show ?thesis using s' i(1) by (simp add: internShape_intern internType_def)
  next
    case (Some j)
    then have "types b2 ! i = plain_entry s'"
      using s' wf by (auto simp: internShape_intern internType_def types_ok_def)
    then show ?thesis using i(2) by (simp add: plain_entry_def)
  qed
  ultimately show ?thesis by blast
qed

theorem interning_canonical_witness:
  "\<exists>b1. internShape (ShArray SI16 True) (fst (new_builder \<lparr>ourMem = 0, charsType = None\<rparr>)) = (0, b1)
     \<and> internShape (ShArray SI16 True) b1 = (0, b1) \<and> types b1 ! 0 = plain_entry (ShArray SI16 True)"
proof -
  let ?g = "\<lparr>ourMem = 0, charsType = None\<rparr>"
  let ?b = "fst (new_builder ?g)"
  have "reachable ?b" unfolding reachable_def by (metis prod.collapse rtranclp.rtrancl_refl)
  moreover obtain b1 where b1: "internShape (ShArray SI16 True) ?b = (0, b1)"
    by (simp add: internShape_intern internType_def new_builder_def)
  ultimately show ?thesis using interning_canonical [of ?b "ShArray SI16 True" 0 b1 ?g b1 ?g] by blast
qed

text \<open>C27. String data. The offset \<open>internData\<close> hands out for a literal addresses exactly that
  literal's bytes in the module's blob, at any later time, and the same literal is never
  stored twice: a later request gets the same offset and leaves the blob as it is.\<close>

theorem literals_read_back:
  assumes "reachable b" and "internData bs b = (off, b1)" and "bsteps (b1, g) (b2, g')"
  shows "off + length bs \<le> length (blob b2) \<and> take (length bs) (drop off (blob b2)) = bs
         \<and> internData bs b2 = (off, b2)"
proof -
  have "bstep (b, g) (b1, g)" using st_data [of b g bs] assms(2) by simp
  then have "reachable b2" using reachable_steps [OF reachable_step [OF assms(1)] assms(3)] by blast
  then have wf: "data_ok b2" using reachable_wf by (simp add: wf_builder_def)
  have "blobIndex b1 (dataKey bs) = Some off" "blobUsed b1"
    using data_interner.look_added [where k = bs and s = b] assms(2)
    by (auto simp: internData_def Let_def split: option.splits)
  moreover have "extends b1 b2" using bsteps_extends [OF assms(3)] by simp
  ultimately have "blobIndex b2 (dataKey bs) = Some off" "blobUsed b2" by (force simp: extends_def map_le_def)+
  then show ?thesis using wf by (auto simp: data_ok_def internData_def Let_def)
qed

theorem literals_read_back_witness:
  "\<exists>b1. internData [104, 105] (fst (new_builder \<lparr>ourMem = 0, charsType = None\<rparr>)) = (0, b1)
     \<and> take 2 (drop 0 (blob (snd (internData [106] b1)))) = [104, 105]"
proof -
  let ?g = "\<lparr>ourMem = 0, charsType = None\<rparr>"
  let ?b = "fst (new_builder ?g)"
  have "reachable ?b" unfolding reachable_def by (metis prod.collapse rtranclp.rtrancl_refl)
  moreover obtain b1 where b1: "internData [104, 105] ?b = (0, b1)"
    by (simp add: internData_def new_builder_def)
  moreover have "bsteps (b1, ?g) (snd (internData [106] b1), ?g)" by (rule r_into_rtranclp) (rule st_data)
  ultimately show ?thesis
    using literals_read_back [of ?b "[104, 105]" 0 b1 ?g "snd (internData [106] b1)" ?g] by (auto simp: numeral_2_eq_2)
qed

text \<open>C28. Function indices are stable. The index \<open>declareFunc\<close> returns names, at any later time,
  the function of that type and name: no later method, and in particular no import, which
  would shift the space, can change what it means.\<close>

theorem declared_index_stable:
  assumes "declareFunc t nm b = (i, b1)" and "bsteps (b1, g) (b2, g')"
  shows "\<exists>d. func_at b2 i = Some d \<and> fd_type d = JInt (int t) \<and> fd_name d = nm
           \<and> funcTypeOf b2 i = Inr (JInt (int t))"
proof -
  have b1: "i = length (imps b1) + length (funcs b)" "map fd_sig (funcs b1) = map fd_sig (funcs b) @ [(JInt (int t), nm)]"
    "funcs b1 \<noteq> []"
    using assms(1) by (auto simp: declareFunc_def Let_def fd_sig_def)
  moreover obtain fs where "imps b2 = imps b1" "map fd_sig (funcs b2) = map fd_sig (funcs b1) @ fs"
    using bsteps_extends [OF assms(2)] b1(3) by (auto simp: extends_def)
  ultimately have i: "i = length (imps b2) + length (funcs b)"
    and m: "map fd_sig (funcs b2) = map fd_sig (funcs b) @ (JInt (int t), nm) # fs" by simp_all
  from m have len: "length (funcs b) < length (funcs b2)"
    by (metis add_Suc_right length_Cons length_append length_map less_add_Suc1)
  then have "fd_sig (funcs b2 ! length (funcs b)) = map fd_sig (funcs b2) ! length (funcs b)" by simp
  also have "\<dots> = (JInt (int t), nm)" unfolding m by (simp add: nth_append)
  finally show ?thesis using i len by (simp add: func_at_def funcTypeOf_def fd_sig_def)
qed

theorem declared_index_stable_witness:
  "\<exists>d. func_at (snd (declareFunc 4 (js ''g'') (snd (declareFunc 3 (js ''f'') (fst (new_builder \<lparr>ourMem = 0, charsType = None\<rparr>)))))) 0
         = Some d \<and> fd_type d = JInt 3 \<and> fd_name d = js ''f''"
proof -
  let ?g = "\<lparr>ourMem = 0, charsType = None\<rparr>"
  let ?b = "fst (new_builder ?g)"
  obtain b1 where b1: "declareFunc 3 (js ''f'') ?b = (0, b1)"
    by (simp add: declareFunc_def new_builder_def)
  moreover have "bsteps (b1, ?g) (snd (declareFunc 4 (js ''g'') b1), ?g)" by (rule r_into_rtranclp) (rule st_declare)
  ultimately show ?thesis
    using declared_index_stable [of 3 "js ''f''" ?b 0 b1 ?g "snd (declareFunc 4 (js ''g'') b1)" ?g] by auto
qed

end
