(* ===== verification/Module_Emit.thy ===== *)
theory Module_Emit
  imports Module_Steps
begin

text \<open>
  What \<open>emit\<close> writes, read back by decoders of the wasm binary format: the sections and their
  order, the type section as recursion groups that partition the declared types, the code
  section with the locals' run-length form expanded, and what \<open>emit\<close> refuses.
\<close>

section \<open>Types in the binary format\<close>

definition dcd_flag :: "u8 list \<Rightarrow> (bool \<times> u8 list) option" where
  "dcd_flag bs = (case bs of [] \<Rightarrow> None
     | b # r \<Rightarrow> if b = 0 then Some (False, r) else if b = 1 then Some (True, r) else None)"

definition enc_field :: "field_type \<Rightarrow> u8 list res" where
  "enc_field f = catR [enc_storage (storage f), Inr [if mutable f then 1 else 0]]"

definition dcd_field :: "u8 list \<Rightarrow> (field_type \<times> u8 list) option" where
  "dcd_field bs = (case dcd_storage bs of None \<Rightarrow> None
     | Some (s, r) \<Rightarrow> map_option (\<lambda>(m, r). (\<lparr>storage = s, mutable = m\<rparr>, r)) (dcd_flag r))"

interpretation field_c: codec enc_field dcd_field
proof unfold_locales
  fix f bs rest
  assume "enc_field f = Inr bs"
  then obtain a where a: "enc_storage (storage f) = Inr a" and bs: "bs = a @ [if mutable f then 1 else 0]"
    by (auto simp: enc_field_def)
  show "dcd_field (bs @ rest) = Some (f, rest)"
    using storage_c.dcd_enc [OF a] by (cases f) (simp add: bs dcd_field_def dcd_flag_def)
qed

abbreviation enc_list :: "('a \<Rightarrow> u8 list res) \<Rightarrow> 'a list \<Rightarrow> u8 list res" where
  "enc_list enc \<equiv> enc_vec (\<lambda>n. enc_nat n) enc"

abbreviation dcd_list :: "(u8 list \<Rightarrow> ('a \<times> u8 list) option) \<Rightarrow> u8 list \<Rightarrow> ('a list \<times> u8 list) option" where
  "dcd_list d \<equiv> dcd_vec dcd_uleb d"

interpretation valtypes_v: vec_codec "\<lambda>n. enc_nat n" dcd_uleb enc_valtype dcd_valtype ..
interpretation fields_v: vec_codec "\<lambda>n. enc_nat n" dcd_uleb enc_field dcd_field ..
interpretation nats_v: vec_codec "\<lambda>n. enc_nat n" dcd_uleb "\<lambda>n. enc_nat n" dcd_uleb ..

fun enc_comptype :: "type_shape \<Rightarrow> u8 list res" where
  "enc_comptype (ShFunc ps rs) = catR [Inr [0x60], enc_list enc_valtype ps, enc_list enc_valtype rs]"
| "enc_comptype (ShArray e m) = catR [Inr [0x5e], enc_field \<lparr>storage = e, mutable = m\<rparr>]"
| "enc_comptype (ShStruct fs) = catR [Inr [0x5f], enc_list enc_field fs]"

fun dcd_comptype :: "u8 list \<Rightarrow> (type_shape \<times> u8 list) option" where
  "dcd_comptype [] = None"
| "dcd_comptype (b # r) =
     (if b = 0x60 then
        (case dcd_list dcd_valtype r of None \<Rightarrow> None
         | Some (ps, r) \<Rightarrow> map_option (\<lambda>(rs, r). (ShFunc ps rs, r)) (dcd_list dcd_valtype r))
      else if b = 0x5e then map_option (\<lambda>(f, r). (ShArray (storage f) (mutable f), r)) (dcd_field r)
      else if b = 0x5f then map_option (\<lambda>(fs, r). (ShStruct fs, r)) (dcd_list dcd_field r)
      else None)"

interpretation comptype_c: codec enc_comptype dcd_comptype
proof unfold_locales
  fix s bs rest
  assume s: "enc_comptype s = Inr bs"
  show "dcd_comptype (bs @ rest) = Some (s, rest)"
  proof (cases s)
    case (ShFunc ps rs)
    with s obtain a b where "enc_list enc_valtype ps = Inr a" "enc_list enc_valtype rs = Inr b"
      "bs = 0x60 # a @ b" by auto
    then show ?thesis using ShFunc by (simp add: valtypes_v.vec.dcd_enc)
  next
    case (ShArray e m)
    with s obtain a where "enc_field \<lparr>storage = e, mutable = m\<rparr> = Inr a" "bs = 0x5e # a" by auto
    then show ?thesis using ShArray by (simp add: field_c.dcd_enc)
  next
    case (ShStruct fs)
    with s obtain a where "enc_list enc_field fs = Inr a" "bs = 0x5f # a" by auto
    then show ?thesis using ShStruct by (simp add: fields_v.vec.dcd_enc)
  qed
qed

definition enc_subtype :: "type_entry \<Rightarrow> u8 list res" where
  "enc_subtype t =
     (case te_sub t of
        None \<Rightarrow> enc_comptype (te_shape t)
      | Some s \<Rightarrow> catR [Inr [if final s then 0x4f else 0x50], enc_list (\<lambda>n. enc_nat n) (supers s),
                      enc_comptype (te_shape t)])"

definition dcd_subtype_with :: "bool \<Rightarrow> u8 list \<Rightarrow> (type_entry \<times> u8 list) option" where
  "dcd_subtype_with f r =
     (case dcd_list dcd_uleb r of None \<Rightarrow> None
      | Some (ss, r) \<Rightarrow>
          map_option (\<lambda>(s, r). (\<lparr>te_shape = s, te_sub = Some \<lparr>supers = ss, final = f\<rparr>\<rparr>, r)) (dcd_comptype r))"

definition dcd_subtype :: "u8 list \<Rightarrow> (type_entry \<times> u8 list) option" where
  "dcd_subtype bs =
     (case bs of [] \<Rightarrow> None
      | b # r \<Rightarrow>
          if b = 0x4f then dcd_subtype_with True r
          else if b = 0x50 then dcd_subtype_with False r
          else map_option (\<lambda>(s, r). (plain_entry s, r)) (dcd_comptype bs))"

lemma enc_comptype_head: "enc_comptype s = Inr bs \<Longrightarrow> \<exists>b r. bs = b # r \<and> b \<in> {0x60, 0x5e, 0x5f}"
  by (cases s) auto

interpretation subtype_c: codec enc_subtype dcd_subtype
proof unfold_locales
  fix t bs rest
  assume t: "enc_subtype t = Inr bs"
  show "dcd_subtype (bs @ rest) = Some (t, rest)"
  proof (cases "te_sub t")
    case None
    with t have c: "enc_comptype (te_shape t) = Inr bs" by (simp add: enc_subtype_def)
    then obtain b r where "bs = b # r" "b \<in> {0x60, 0x5e, 0x5f}" using enc_comptype_head by blast
    then show ?thesis using comptype_c.dcd_enc [OF c, of rest] None
      by (cases t) (auto simp: dcd_subtype_def plain_entry_def)
  next
    case (Some s)
    with t obtain a b where "enc_list (\<lambda>n. enc_nat n) (supers s) = Inr a" "enc_comptype (te_shape t) = Inr b"
      "bs = (if final s then 0x4f else 0x50) # a @ b"
      by (auto simp: enc_subtype_def)
    then show ?thesis using Some
      by (cases t; cases s) (simp add: dcd_subtype_def dcd_subtype_with_def nats_v.vec.dcd_enc comptype_c.dcd_enc)
  qed
qed

lemma enc_subtype_head: "enc_subtype t = Inr bs \<Longrightarrow> \<exists>b r. bs = b # r \<and> b \<noteq> 0x4e"
  by (auto simp: enc_subtype_def split: option.splits dest: enc_comptype_head)

interpretation subtypes_v: vec_codec "\<lambda>n. enc_nat n" dcd_uleb enc_subtype dcd_subtype ..

text \<open>An entry of the type section: a single type, or an explicit recursion group.\<close>

datatype rec_type = Single type_entry | Group "type_entry list"

fun members :: "rec_type \<Rightarrow> type_entry list" where
  "members (Single t) = [t]"
| "members (Group ts) = ts"

fun enc_rectype :: "rec_type \<Rightarrow> u8 list res" where
  "enc_rectype (Single t) = enc_subtype t"
| "enc_rectype (Group ts) = catR [Inr [0x4e], enc_list enc_subtype ts]"

fun dcd_rectype :: "u8 list \<Rightarrow> (rec_type \<times> u8 list) option" where
  "dcd_rectype [] = None"
| "dcd_rectype (b # r) =
     (if b = 0x4e then map_option (\<lambda>(ts, r). (Group ts, r)) (dcd_list dcd_subtype r)
      else map_option (\<lambda>(t, r). (Single t, r)) (dcd_subtype (b # r)))"

interpretation rectype_c: codec enc_rectype dcd_rectype
proof unfold_locales
  fix t bs rest
  assume t: "enc_rectype t = Inr bs"
  show "dcd_rectype (bs @ rest) = Some (t, rest)"
  proof (cases t)
    case (Single e)
    with t have e: "enc_subtype e = Inr bs" by simp
    then obtain b r where "bs = b # r" "b \<noteq> 0x4e" using enc_subtype_head by blast
    then show ?thesis using subtype_c.dcd_enc [OF e, of rest] Single by simp
  next
    case (Group ts)
    with t obtain a where "enc_list enc_subtype ts = Inr a" "bs = 0x4e # a" by auto
    then show ?thesis using Group by (simp add: subtypes_v.vec.dcd_enc)
  qed
qed

interpretation rectypes_v: vec_codec "\<lambda>n. enc_nat n" dcd_uleb enc_rectype dcd_rectype ..

section \<open>The type section\<close>

lemma writes_wnum [outputs_intros]: "writes (wnum n) (enc_nat n)"
  unfolding wnum_def by (rule writes_uleb)

lemma writes_flag: "writes (u8 (if m then 1 else 0)) (Inr [if m then 1 else 0])"
  using writes_u8 [of 1] writes_u8 [of 0] by simp

lemma writes_list:
  "(\<And>x. x \<in> set xs \<Longrightarrow> writes (f x) (enc x)) \<Longrightarrow> writes (seqs (wnum (length xs) # map f xs)) (enc_list enc xs)"
  unfolding enc_vec_def by (intro outputs_seqs_Cons writes_wnum outputs_seqs_map)

lemma seqs_flat: "seqs (concat fss) = seqs (map seqs fss)"
proof (rule ext)
  show "seqs (concat fss) s = seqs (map seqs fss) s" for s
  proof (induction fss arbitrary: s)
    case (Cons fs fss)
    then show ?case by (cases "seqs fs s") (simp_all add: seqs_append)
  qed simp
qed

lemma writes_field [outputs_intros]: "writes (writeField f) (enc_field f)"
  unfolding writeField_def enc_field_def by (intro outputs_seqs_Cons outputs_seqs_Nil writes_storage writes_flag)

lemma writes_comptype [outputs_intros]: "writes (writeComptype s) (enc_comptype s)"
proof (cases s)
  case (ShFunc ps rs)
  have "writeComptype s =
      seqs [u8 0x60, seqs (wnum (length ps) # map writeValType ps), seqs (wnum (length rs) # map writeValType rs)]"
    using seqs_flat [of "[[u8 0x60], wnum (length ps) # map writeValType ps, wnum (length rs) # map writeValType rs]"]
    by (simp add: ShFunc del: seqs.simps)
  moreover have "writes (seqs [u8 0x60, seqs (wnum (length ps) # map writeValType ps), seqs (wnum (length rs) # map writeValType rs)])
      (catR [Inr [word_of_int 0x60], enc_list enc_valtype ps, enc_list enc_valtype rs])"
    by (intro outputs_seqs_Cons outputs_seqs_Nil writes_u8 writes_list writes_valtype)
  ultimately show ?thesis by (simp add: ShFunc)
next
  case (ShArray e m)
  have "writes (seqs [u8 0x5e, writeField \<lparr>storage = e, mutable = m\<rparr>])
      (catR [Inr [word_of_int 0x5e], enc_field \<lparr>storage = e, mutable = m\<rparr>])"
    by (intro outputs_seqs_Cons outputs_seqs_Nil writes_u8 writes_field)
  moreover have "writeComptype s = seqs [u8 0x5e, writeField \<lparr>storage = e, mutable = m\<rparr>]"
    by (rule ext) (simp add: ShArray writeField_def)
  ultimately show ?thesis by (simp add: ShArray)
next
  case (ShStruct fs)
  have "writeComptype s = seqs [u8 0x5f, seqs (wnum (length fs) # map writeField fs)]"
    by (rule ext) (simp add: ShStruct)
  moreover have "writes (seqs [u8 0x5f, seqs (wnum (length fs) # map writeField fs)])
      (catR [Inr [word_of_int 0x5f], enc_list enc_field fs])"
    by (intro outputs_seqs_Cons outputs_seqs_Nil writes_u8 writes_list writes_field)
  ultimately show ?thesis by (simp add: ShStruct)
qed

lemma writes_subtype [outputs_intros]: "writes (writeSubtype t) (enc_subtype t)"
proof (cases "te_sub t")
  case None
  then show ?thesis using writes_comptype by (simp add: writeSubtype_def enc_subtype_def)
next
  case (Some s)
  have "writes (seqs [u8 (if final s then 0x4f else 0x50), seqs (wnum (length (supers s)) # map wnum (supers s)),
      writeComptype (te_shape t)])
      (catR [Inr [word_of_int (if final s then 0x4f else 0x50)], enc_list (\<lambda>n. enc_nat n) (supers s), enc_comptype (te_shape t)])"
    by (intro outputs_seqs_Cons outputs_seqs_Nil writes_u8 writes_list writes_wnum writes_comptype)
  moreover have "writeSubtype t = seqs [u8 (if final s then 0x4f else 0x50),
      seqs (wnum (length (supers s)) # map wnum (supers s)), writeComptype (te_shape t)]"
    using seqs_flat [of "[[u8 (if final s then 0x4f else 0x50)],
        wnum (length (supers s)) # map wnum (supers s), [writeComptype (te_shape t)]]"]
    by (simp add: writeSubtype_def Some del: seqs.simps)
  ultimately show ?thesis by (cases "final s") (simp_all add: enc_subtype_def Some)
qed

text \<open>The groups the serializer walks over.\<close>

function rec_types :: "builder \<Rightarrow> nat \<Rightarrow> rec_type list" where
  "rec_types b i =
     (if i < length (types b)
      then (case recStarts b i of
              Some n \<Rightarrow> if n = 0 then []
                        else Group (map (\<lambda>k. types b ! (i + k)) [0..<n]) # rec_types b (i + n)
            | None \<Rightarrow> Single (types b ! i) # rec_types b (i + 1))
      else [])"
  by pat_completeness auto
termination
  by (relation "measure (\<lambda>(b, i). length (types b) - i)") auto

declare rec_types.simps [simp del]

lemma group_bounds: "groups_ok b \<Longrightarrow> recStarts b i = Some n \<Longrightarrow> 0 < n \<and> i + n \<le> length (types b)"
  by (simp add: groups_ok_def)

lemma entryCount_groups: "groups_ok b \<Longrightarrow> entryCount b i = Inr (length (rec_types b i))"
proof (induction b i rule: rec_types.induct)
  case (1 b i)
  show ?case
  proof (cases "i < length (types b)")
    case True
    then show ?thesis using "1" group_bounds [OF "1.prems", of i]
      by (cases "recStarts b i") (simp_all add: entryCount.simps [of b i] rec_types.simps [of b i])
  qed (simp add: entryCount.simps [of b i] rec_types.simps [of b i])
qed

lemma writes_groups:
  "groups_ok b \<Longrightarrow> writes (seqs (writeGroups b i)) (catR (map enc_rectype (rec_types b i)))"
proof (induction b i rule: rec_types.induct)
  case (1 b i)
  show ?case
  proof (cases "i < length (types b)")
    case True
    show ?thesis
    proof (cases "recStarts b i")
      case None
      have "writes (seqs (writeSubtypeAt b i # writeGroups b (i + 1)))
          (catR (enc_subtype (types b ! i) # map enc_rectype (rec_types b (i + 1))))"
        using True None "1" by (intro outputs_seqs_Cons) (simp_all add: writeSubtypeAt_def writes_subtype)
      then show ?thesis using True None
        by (simp add: writeGroups.simps [of b i] rec_types.simps [of b i] del: seqs.simps catR.simps)
    next
      case (Some n)
      then have n: "0 < n" "i + n \<le> length (types b)" using group_bounds [OF "1.prems"] by auto
      have "writes (seqs (wnum (length [0..<n]) # map (\<lambda>k. writeSubtypeAt b (i + k)) [0..<n]))
          (enc_list (\<lambda>k. enc_subtype (types b ! (i + k))) [0..<n])"
        using n by (intro writes_list) (auto simp: writeSubtypeAt_def writes_subtype)
      moreover have "enc_list (\<lambda>k. enc_subtype (types b ! (i + k))) [0..<n] =
          enc_list enc_subtype (map (\<lambda>k. types b ! (i + k)) [0..<n])"
        by (simp add: enc_vec_def comp_def)
      ultimately have "writes (seqs [u8 0x4e, seqs (wnum n # map (\<lambda>k. writeSubtypeAt b (i + k)) [0..<n])])
          (catR [Inr [word_of_int 0x4e], enc_list enc_subtype (map (\<lambda>k. types b ! (i + k)) [0..<n])])"
        by (intro outputs_seqs_Cons outputs_seqs_Nil writes_u8) (simp del: seqs.simps)
      moreover have "writes (seqs (writeGroups b (i + n))) (catR (map enc_rectype (rec_types b (i + n))))"
        using "1.IH"(2) [OF True Some] n "1.prems" by simp
      ultimately have "writes (seqs (seqs [u8 0x4e, seqs (wnum n # map (\<lambda>k. writeSubtypeAt b (i + k)) [0..<n])] # writeGroups b (i + n)))
          (catR (enc_rectype (Group (map (\<lambda>k. types b ! (i + k)) [0..<n])) # map enc_rectype (rec_types b (i + n))))"
        by (intro outputs_seqs_Cons) simp_all
      moreover have "seqs (writeGroups b i) =
          seqs (seqs [u8 0x4e, seqs (wnum n # map (\<lambda>k. writeSubtypeAt b (i + k)) [0..<n])] # writeGroups b (i + n))"
        using True Some n
          seqs_flat [of "[u8 0x4e # wnum n # map (\<lambda>k. writeSubtypeAt b (i + k)) [0..<n], writeGroups b (i + n)]"]
          seqs_flat [of "[seqs [u8 0x4e, seqs (wnum n # map (\<lambda>k. writeSubtypeAt b (i + k)) [0..<n])] # writeGroups b (i + n)]"]
          seqs_flat [of "[[u8 0x4e], wnum n # map (\<lambda>k. writeSubtypeAt b (i + k)) [0..<n]]"]
          seqs_flat [of "[[seqs [u8 0x4e, seqs (wnum n # map (\<lambda>k. writeSubtypeAt b (i + k)) [0..<n])]], writeGroups b (i + n)]"]
        by (simp add: writeGroups.simps [of b i] del: seqs.simps)
      ultimately show ?thesis using True Some n
        by (simp add: rec_types.simps [of b i] del: seqs.simps catR.simps)
    qed
  qed (simp add: writeGroups.simps [of b i] rec_types.simps [of b i] outputs_def)
qed

lemma writes_typeBody:
  "groups_ok b \<Longrightarrow> writes (typeBody b (length (rec_types b 0))) (enc_list enc_rectype (rec_types b 0))"
  unfolding typeBody_def enc_vec_def by (intro outputs_seqs_Cons writes_wnum writes_groups)

text \<open>The groups partition the types, in order.\<close>

lemma groups_partition:
  "groups_ok b \<Longrightarrow> concat (map members (rec_types b i)) = drop i (types b)"
proof (induction b i rule: rec_types.induct)
  case (1 b i)
  show ?case
  proof (cases "i < length (types b)")
    case True
    show ?thesis
    proof (cases "recStarts b i")
      case None
      then show ?thesis using True "1" by (simp add: rec_types.simps [of b i] Cons_nth_drop_Suc)
    next
      case (Some n)
      then have n: "0 < n" "i + n \<le> length (types b)" using group_bounds [OF "1.prems"] by auto
      have "map (\<lambda>k. types b ! (i + k)) [0..<n] = take n (drop i (types b))"
        using n by (intro nth_equalityI) auto
      then show ?thesis using True Some n "1" append_take_drop_id [of n "drop i (types b)"]
        by (simp add: rec_types.simps [of b i] add.commute)
    qed
  qed (simp add: rec_types.simps [of b i])
qed

lemma boundary_suffix:
  assumes "boundary (recStarts b) i" and "groups_ok b" and "i \<le> length (types b)"
  shows "\<exists>pre. rec_types b 0 = pre @ rec_types b i"
  using assms(1,3)
proof (induction rule: boundary.induct)
  case (b_next i)
  have pos: "0 < gsize (recStarts b) i" by (rule gsize_pos [OF assms(2)])
  then have i: "i < length (types b)" using b_next.prems by linarith
  then obtain pre where "rec_types b 0 = pre @ rec_types b i" using b_next.IH by auto
  moreover obtain x where "rec_types b i = x # rec_types b (i + gsize (recStarts b) i)"
    using i pos by (cases "recStarts b i") (auto simp: rec_types.simps [of b i] gsize_def)
  ultimately show ?case by auto
qed simp

section \<open>Sections\<close>

named_theorems appends_intros \<open>operations that only append\<close>

lemma appends_out: "appends f \<Longrightarrow> writes f (out_of f)"
  by (simp add: appends_def)

lemma appends_basic [appends_intros]:
  "appends (u8 n)" "appends (raw bs)" "appends (uleb k)" "appends (wnum m)" "appends (name s)"
  "appends (writeValType t)" "appends (\<lambda>_. Inl e)"
  by (rule appends_writes, rule outputs_intros)+ (rule appends_writes [where r = "Inl e"], simp add: outputs_def)

lemma appends_seqs [appends_intros]: "(\<And>f. f \<in> set fs \<Longrightarrow> appends f) \<Longrightarrow> appends (seqs fs)"
  using outputs_seqs_map [of fs wf_writer bytes "\<lambda>f. f" out_of]
  by (intro appends_writes [where r = "catR (map out_of fs)"]) (simp add: appends_def)

lemma appends_framed [appends_intros]: "appends f \<Longrightarrow> appends (framed f)"
  by (rule appends_writes [OF writes_framed [OF appends_out]])

lemma appends_section: "appends f \<Longrightarrow> writes (section_w i f) (enc_section i (out_of f))"
  by (rule writes_section [OF appends_out])

lemma appends_bodies:
  assumes "engine_ok b"
  shows "appends (importBody b)" "appends (funcBody b)" "appends (tableBody e)" "appends (memoryBody b)"
    "appends (globalBody b)" "appends (exportBody b)" "appends (elemBody b)" "appends (dataCountBody b)"
    "appends (dataBody b)" "appends (nameBody b)"
  using assms unfolding importBody_def funcBody_def tableBody_def memoryBody_def globalBody_def exportBody_def
    elemBody_def dataCountBody_def dataBody_def nameBody_def Let_def
  by (auto intro!: appends_intros simp: engine_ok_def simp del: seqs.simps split: option.splits if_splits)

lemma appends_writeFunc: "appends (writeFunc b f)"
  unfolding writeFunc_def writeBody_def
  by (auto intro!: appends_intros simp del: seqs.simps split: option.splits)

lemma appends_codeBody: "appends (codeBody b)"
  unfolding codeBody_def by (auto intro!: appends_intros appends_writeFunc simp del: seqs.simps)

text \<open>The sections \<open>emit\<close> writes, with their payloads, in the order it writes them.\<close>

definition module_sections :: "builder \<Rightarrow> (u8 \<times> u8 list res) list" where
  "module_sections b =
     (if types b \<noteq> [] then [(1, bindR (entryCount b 0) (\<lambda>n. out_of (typeBody b n)))] else [])
     @ (if imps b \<noteq> [] then [(2, out_of (importBody b))] else [])
     @ (if funcs b \<noteq> [] then [(3, out_of (funcBody b))] else [])
     @ (case engine b of None \<Rightarrow> [] | Some e \<Rightarrow> [(4, out_of (tableBody e))])
     @ (if memoryPages b \<noteq> None \<or> engine b \<noteq> None then [(5, out_of (memoryBody b))] else [])
     @ (if globals b \<noteq> [] then [(6, out_of (globalBody b))] else [])
     @ (if exports b \<noteq> [] then [(7, out_of (exportBody b))] else [])
     @ (if funcRefs b \<noteq> {} \<or> engine b \<noteq> None then [(9, out_of (elemBody b))] else [])
     @ (if blobUsed b then [(12, out_of (dataCountBody b))] else [])
     @ (if funcs b \<noteq> [] then [(10, out_of (codeBody b))] else [])
     @ (if blobUsed b \<or> engineSegs b \<noteq> [] then [(11, out_of (dataBody b))] else [])
     @ [(0, out_of (nameBody b))]"

definition enc_sec :: "u8 \<times> u8 list res \<Rightarrow> u8 list res" where
  "enc_sec = (\<lambda>(i, p). enc_section (uint i) p)"

lemma enc_sec_num: "enc_sec (i, p) = enc_section (uint i) p"
  by (simp add: enc_sec_def)

lemma writes_when:
  "writes f (enc_sec s) \<Longrightarrow> writes (when_op c f) (catR (map enc_sec (if c then [s] else [])))"
  by (cases "enc_sec s") (auto simp: when_op_def outputs_def)

lemma writes_typeSection:
  assumes "groups_ok b"
  shows "writes (typeSection b) (enc_sec (1, bindR (entryCount b 0) (\<lambda>n. out_of (typeBody b n))))"
proof -
  have e: "entryCount b 0 = Inr (length (rec_types b 0))" by (rule entryCount_groups [OF assms])
  moreover have "appends (typeBody b (length (rec_types b 0)))"
    by (rule appends_writes [OF writes_typeBody [OF assms]])
  moreover have "typeSection b = section_w 1 (typeBody b (length (rec_types b 0)))"
    by (rule ext) (simp add: typeSection_def e)
  ultimately show ?thesis using appends_section [of _ 1] by (simp add: enc_sec_num)
qed

lemma writes_emit_module:
  assumes "wf_builder b"
  shows "writes (emit_module b) (catR (Inr magic # map enc_sec (module_sections b)))"
proof -
  note ok = assms [unfolded wf_builder_def]
  have sec: "writes (section_w (uint i) f) (enc_sec (i, out_of f))" if "appends f" for f and i :: u8
    using appends_section [OF that] by (simp add: enc_sec_num)
  note bodies = appends_bodies [where b = b] appends_codeBody [of b]
  have table: "writes (case engine b of None \<Rightarrow> Inr | Some e \<Rightarrow> section_w 4 (tableBody e))
      (catR (map enc_sec (case engine b of None \<Rightarrow> [] | Some e \<Rightarrow> [(4, out_of (tableBody e))])))"
  proof (cases "engine b")
    case (Some e)
    then show ?thesis using sec [OF bodies(3), of 4 e] ok by (simp add: when_op_def)
  qed (simp add: outputs_def)
  have step: "writes (when_op c (section_w (uint i) f)) (catR (map enc_sec (if c then [(i, out_of f)] else [])))"
    if "appends f" for c f and i :: u8
    by (rule writes_when [OF sec [OF that]])
  have last: "writes (section_w 0 (nameBody b)) (catR (map enc_sec [(0, out_of (nameBody b))]))"
    using sec [OF bodies(10), of 0] ok by simp
  have type: "writes (when_op (types b \<noteq> []) (typeSection b))
      (catR (map enc_sec (if types b \<noteq> [] then [(1, bindR (entryCount b 0) (\<lambda>n. out_of (typeBody b n)))] else [])))"
    by (rule writes_when [OF writes_typeSection]) (use ok in simp)
  let ?rs = "[Inr magic,
      catR (map enc_sec (if types b \<noteq> [] then [(1, bindR (entryCount b 0) (\<lambda>n. out_of (typeBody b n)))] else [])),
      catR (map enc_sec (if imps b \<noteq> [] then [(2, out_of (importBody b))] else [])),
      catR (map enc_sec (if funcs b \<noteq> [] then [(3, out_of (funcBody b))] else [])),
      catR (map enc_sec (case engine b of None \<Rightarrow> [] | Some e \<Rightarrow> [(4, out_of (tableBody e))])),
      catR (map enc_sec (if memoryPages b \<noteq> None \<or> engine b \<noteq> None then [(5, out_of (memoryBody b))] else [])),
      catR (map enc_sec (if globals b \<noteq> [] then [(6, out_of (globalBody b))] else [])),
      catR (map enc_sec (if exports b \<noteq> [] then [(7, out_of (exportBody b))] else [])),
      catR (map enc_sec (if funcRefs b \<noteq> {} \<or> engine b \<noteq> None then [(9, out_of (elemBody b))] else [])),
      catR (map enc_sec (if blobUsed b then [(12, out_of (dataCountBody b))] else [])),
      catR (map enc_sec (if funcs b \<noteq> [] then [(10, out_of (codeBody b))] else [])),
      catR (map enc_sec (if blobUsed b \<or> engineSegs b \<noteq> [] then [(11, out_of (dataBody b))] else [])),
      catR (map enc_sec [(0, out_of (nameBody b))])]"
  have eo: "engine_ok b" using ok by simp
  have "writes (emit_module b) (catR ?rs)"
    unfolding emit_module_def
    by (intro outputs_seqs_Cons outputs_seqs_Nil writes_raw type table last
        step [of _ _ 2, simplified] step [of _ _ 3, simplified] step [of _ _ 5, simplified]
        step [of _ _ 6, simplified] step [of _ _ 7, simplified] step [of _ _ 9, simplified]
        step [of _ _ 12, simplified] step [of _ _ 10, simplified] step [of _ _ 11, simplified]
        appends_bodies [OF eo] appends_codeBody)
  moreover have "catR ?rs = catR (Inr magic # map enc_sec (module_sections b))"
    unfolding module_sections_def map_append
    by (simp only: catR_append catR.simps bindR_assoc bindR_simps append_assoc append_Nil2 bindR_Inr_right)
  ultimately show ?thesis by simp
qed

definition dcd_section :: "u8 list \<Rightarrow> ((u8 \<times> u8 list) \<times> u8 list) option" where
  "dcd_section bs = (case bs of [] \<Rightarrow> None | i # r \<Rightarrow> map_option (\<lambda>(p, r). ((i, p), r)) (dcd_frame r))"

interpretation section_c: codec "\<lambda>(i, p). enc_sec (i, Inr p)" dcd_section
proof unfold_locales
  fix s :: "u8 \<times> u8 list" and bs rest
  assume s: "(case s of (i, p) \<Rightarrow> enc_sec (i, Inr p)) = Inr bs"
  obtain i p where ip: "s = (i, p)" by (cases s)
  with s obtain out where out: "enc_framed (Inr p) = Inr out" and bs: "bs = i # out"
    by (auto simp: enc_sec_def enc_section_def)
  show "dcd_section (bs @ rest) = Some (s, rest)"
    using frame_c.dcd_enc [OF out] by (simp add: bs ip dcd_section_def)
qed

definition dcd_sections :: "u8 list \<Rightarrow> (u8 \<times> u8 list) list option" where
  "dcd_sections bs = dcd_all dcd_section (length bs) bs"

text \<open>Order of the sections in a module: the ids in their prescribed order, custom ones last.\<close>

definition sec_rank :: "u8 \<Rightarrow> nat" where
  "sec_rank i = index_of (\<lambda>x. x = i) [1, 2, 3, 4, 5, 6, 7, 8, 9, 12, 10, 11, 0]"

definition present :: "builder \<Rightarrow> u8 \<Rightarrow> bool" where
  "present b i =
     (if i = 1 then types b \<noteq> [] else if i = 2 then imps b \<noteq> [] else if i = 3 then funcs b \<noteq> []
      else if i = 4 then engine b \<noteq> None
      else if i = 5 then memoryPages b \<noteq> None \<or> engine b \<noteq> None
      else if i = 6 then globals b \<noteq> [] else if i = 7 then exports b \<noteq> []
      else if i = 9 then funcRefs b \<noteq> {} \<or> engine b \<noteq> None
      else if i = 12 then blobUsed b else if i = 10 then funcs b \<noteq> []
      else if i = 11 then blobUsed b \<or> engineSegs b \<noteq> [] else i = 0)"

lemma section_ids: "map fst (module_sections b) = filter (present b) [1, 2, 3, 4, 5, 6, 7, 9, 12, 10, 11, 0]"
proof -
  have f: "filter P (x # xs) = (if P x then [x] else []) @ filter P xs" for P and x :: u8 and xs by simp
  have m: "map fst (if c then [(i, p)] else []) = (if c then [i] else [])" for c and i :: u8 and p :: "u8 list res"
    by simp
  have e: "map fst (case engine b of None \<Rightarrow> [] | Some e \<Rightarrow> [(4, out_of (tableBody e))]) =
      (if engine b \<noteq> None then [4 :: u8] else [])"
    by (cases "engine b") simp_all
  have p: "present b 1 = (types b \<noteq> [])" "present b 2 = (imps b \<noteq> [])" "present b 3 = (funcs b \<noteq> [])"
    "present b 4 = (engine b \<noteq> None)" "present b 5 = (memoryPages b \<noteq> None \<or> engine b \<noteq> None)"
    "present b 6 = (globals b \<noteq> [])" "present b 7 = (exports b \<noteq> [])"
    "present b 9 = (funcRefs b \<noteq> {} \<or> engine b \<noteq> None)" "present b 12 = blobUsed b"
    "present b 10 = (funcs b \<noteq> [])" "present b 11 = (blobUsed b \<or> engineSegs b \<noteq> [])" "present b 0"
    by (simp_all add: present_def)
  show ?thesis
    unfolding module_sections_def map_append m e f p(1-11) by (simp add: p(12))
qed

lemma sections_ordered: "sorted_wrt (\<lambda>i j. sec_rank i < sec_rank j) (map fst (module_sections b))"
  unfolding section_ids by (rule sorted_wrt_filter) (simp add: sec_rank_def)

lemma enc_sec_Inr: "enc_sec s = Inr bs \<Longrightarrow> \<exists>p. snd s = Inr p"
  by (cases "snd s") (auto simp: enc_sec_def enc_section_def enc_framed_def split: prod.splits)

lemma sections_decode:
  assumes "catR (map enc_sec ss) = Inr bs"
  shows "\<exists>secs. ss = map (\<lambda>(i, p). (i, Inr p)) secs \<and> dcd_sections bs = Some secs"
proof -
  have "\<exists>secs. ss = map (\<lambda>(i, p). (i, Inr p)) secs \<and> length secs \<le> length bs"
    using assms
  proof (induction ss arbitrary: bs)
    case (Cons s ss)
    then obtain a b where a: "enc_sec s = Inr a" and b: "catR (map enc_sec ss) = Inr b" and bs: "bs = a @ b" by auto
    obtain p where p: "snd s = Inr p" using enc_sec_Inr [OF a] by blast
    obtain secs where secs: "ss = map (\<lambda>(i, p). (i, Inr p)) secs" "length secs \<le> length b" using Cons.IH [OF b] by blast
    have "a \<noteq> []" using a by (cases s) (auto simp: enc_sec_def enc_section_def)
    then have "length ((fst s, p) # secs) \<le> length bs" using secs(2) bs by (cases a) auto
    moreover have "s # ss = map (\<lambda>(i, p). (i, Inr p)) ((fst s, p) # secs)" using p secs by (cases s) simp
    ultimately show ?case by (intro exI [of _ "(fst s, p) # secs"]) simp
  qed simp
  then obtain secs where ss: "ss = map (\<lambda>(i, p). (i, Inr p)) secs" and len: "length secs \<le> length bs" by blast
  have "catR (map (\<lambda>(i, p). enc_sec (i, Inr p)) secs) = Inr bs"
    using assms by (simp add: ss comp_def split_def)
  moreover have "(case x of (i, p) \<Rightarrow> enc_sec (i, Inr p)) = Inr bs \<Longrightarrow> bs \<noteq> []" for x :: "u8 \<times> u8 list" and bs
    by (cases x) (auto simp: enc_sec_def enc_section_def)
  ultimately have "dcd_sections bs = Some secs"
    unfolding dcd_sections_def using section_c.dcd_all_enc [of secs bs "length bs"] len by blast
  with ss show ?thesis by blast
qed

lemma emit_bytes:
  assumes "wf_builder b" and "emit b g = (Inr bs, g')"
  obtains secs where "bs = magic @ drop 8 bs" and "dcd_sections (drop 8 bs) = Some secs"
    and "module_sections b = map (\<lambda>(i, p). (i, Inr p)) secs"
proof -
  obtain w where w: "emit_module b new_writer = Inr w" "bs = bytes w"
    using assms(2) by (auto simp: emit_def Let_def split: if_splits)
  have out: "out_of (emit_module b) = catR (Inr magic # map enc_sec (module_sections b))"
    by (rule out_of_writes [OF writes_emit_module [OF assms(1)]])
  then obtain rest where r: "catR (map enc_sec (module_sections b)) = Inr rest" "bs = magic @ rest"
    using w by (auto simp: out_of_def dest!: sym [where s = "Inr (bytes w)"])
  moreover have "length magic = 8" by (simp add: magic_def)
  ultimately show ?thesis using sections_decode [OF r(1)] that by auto
qed

section \<open>Locals and code\<close>

definition expand :: "(nat \<times> val_type) list \<Rightarrow> val_type list" where
  "expand runs = concat (map (\<lambda>(n, t). replicate n t) runs)"

lemma expand_push: "expand (pushLocal runs l) = expand runs @ [l]"
proof (cases "runs \<noteq> [] \<and> valTypeKey (snd (last runs)) = valTypeKey l")
  case True
  obtain n t where "last runs = (n, t)" by (cases "last runs")
  then have runs: "runs = butlast runs @ [(n, t)]" and t: "t = l"
    using True append_butlast_last_id [of runs] valTypeKey_inj by auto
  have "expand runs = expand (butlast runs) @ replicate n t" by (subst runs) (simp add: expand_def)
  moreover have "expand (pushLocal runs l) = expand (butlast runs) @ replicate (n + 1) t"
    using True \<open>last runs = (n, t)\<close> by (simp add: pushLocal_def expand_def)
  ultimately show ?thesis by (simp add: t replicate_append_same)
qed (auto simp: pushLocal_def expand_def)

lemma expand_foldl: "expand (foldl pushLocal runs ls) = expand runs @ ls"
  by (induction ls arbitrary: runs) (simp_all add: expand_push)

lemma expand_localRuns: "expand (localRuns ls) = ls"
  by (simp add: localRuns_def expand_foldl) (simp add: expand_def)

text \<open>No two neighbouring runs have the same type and no run is empty, so the form is minimal.\<close>

definition minimal_runs :: "(nat \<times> val_type) list \<Rightarrow> bool" where
  "minimal_runs runs \<longleftrightarrow>
     (\<forall>(n, t) \<in> set runs. 0 < n) \<and> (\<forall>k. Suc k < length runs \<longrightarrow> snd (runs ! k) \<noteq> snd (runs ! Suc k))"

lemma minimal_push: "minimal_runs runs \<Longrightarrow> minimal_runs (pushLocal runs l)"
proof -
  assume m: "minimal_runs runs"
  show ?thesis
  proof (cases "runs \<noteq> [] \<and> valTypeKey (snd (last runs)) = valTypeKey l")
    case True
    then obtain init x where runs: "runs = init @ [x]" by (metis append_butlast_last_id)
    with True m show ?thesis
      by (auto simp: pushLocal_def minimal_runs_def nth_append split: if_splits)
  next
    case False
    then have p: "pushLocal runs l = runs @ [(1, l)]" by (auto simp: pushLocal_def)
    have "snd (last runs) \<noteq> l" if "runs \<noteq> []" using False that by auto
    then have "snd (runs ! k) \<noteq> l" if "Suc k = length runs" for k
      using that by (metis One_nat_def diff_Suc_1 last_conv_nth length_0_conv nat.distinct(1))
    then show ?thesis using m by (auto simp: p minimal_runs_def nth_append less_Suc_eq)
  qed
qed

lemma minimal_localRuns: "minimal_runs (localRuns ls)"
proof -
  have "minimal_runs runs \<Longrightarrow> minimal_runs (foldl pushLocal runs ls)" for runs
    by (induction ls arbitrary: runs) (simp_all add: minimal_push)
  moreover have "minimal_runs []" by (simp add: minimal_runs_def)
  ultimately show ?thesis unfolding localRuns_def by blast
qed

definition enc_run :: "nat \<times> val_type \<Rightarrow> u8 list res" where
  "enc_run = (\<lambda>(n, t). catR [enc_nat n, enc_valtype t])"

definition dcd_run :: "u8 list \<Rightarrow> ((nat \<times> val_type) \<times> u8 list) option" where
  "dcd_run bs = (case dcd_uleb bs of None \<Rightarrow> None
     | Some (n, r) \<Rightarrow> map_option (\<lambda>(t, r). ((n, t), r)) (dcd_valtype r))"

interpretation run_c: codec enc_run dcd_run
proof unfold_locales
  fix x bs rest
  assume "enc_run x = Inr bs"
  then obtain a b where "enc_nat (fst x) = Inr a" "enc_valtype (snd x) = Inr b" "bs = a @ b"
    by (auto simp: enc_run_def case_prod_beta)
  then show "dcd_run (bs @ rest) = Some (x, rest)"
    using uleb_c.dcd_enc [of "fst x" a] by (simp add: dcd_run_def valtype_c.dcd_enc)
qed

interpretation runs_v: vec_codec "\<lambda>n. enc_nat n" dcd_uleb enc_run dcd_run ..
interpretation frames_v: vec_codec "\<lambda>n. enc_nat n" dcd_uleb "\<lambda>bs. enc_framed (Inr bs)" dcd_frame ..

text \<open>A function body: its locals, expanded, and the bytes of its code.\<close>

definition dcd_funcbody :: "u8 list \<Rightarrow> (val_type list \<times> u8 list) option" where
  "dcd_funcbody bs = map_option (\<lambda>(runs, r). (expand runs, r)) (dcd_list dcd_run bs)"

definition enc_funcbody :: "val_type list \<Rightarrow> u8 list \<Rightarrow> u8 list res" where
  "enc_funcbody ls code = catR [enc_list enc_run (localRuns ls), Inr (code @ [0x0b])]"

lemma dcd_enc_funcbody: "enc_funcbody ls code = Inr bs \<Longrightarrow> dcd_funcbody bs = Some (ls, code @ [0x0b])"
proof -
  assume "enc_funcbody ls code = Inr bs"
  then obtain a where "enc_list enc_run (localRuns ls) = Inr a" "bs = a @ code @ [0x0b]"
    by (auto simp: enc_funcbody_def)
  then show ?thesis using runs_v.vec.dcd_enc by (simp add: dcd_funcbody_def expand_localRuns)
qed

lemma writes_writeBody: "writes (writeBody ls code) (enc_framed (enc_funcbody ls code))"
proof -
  let ?runs = "seqs (wnum (length (localRuns ls)) # map (\<lambda>(n, t). seqs [wnum n, writeValType t]) (localRuns ls))"
  have "writes (seqs [wnum (fst x), writeValType (snd x)]) (enc_run x)" for x
    unfolding enc_run_def case_prod_beta by (intro outputs_seqs_Cons outputs_seqs_Nil writes_wnum writes_valtype)
  then have "writes ?runs (enc_list enc_run (localRuns ls))"
    by (intro writes_list) (simp add: case_prod_beta del: seqs.simps)
  then have "writes (seqs [?runs, raw code, u8 0x0b])
      (catR [enc_list enc_run (localRuns ls), Inr code, Inr [word_of_int 0x0b]])"
    by (intro outputs_seqs_Cons outputs_seqs_Nil writes_raw writes_u8)
  moreover have "catR [enc_list enc_run (localRuns ls), Inr code, Inr [word_of_int 0x0b]] = enc_funcbody ls code"
    by (simp add: enc_funcbody_def)
  ultimately have "writes (framed (seqs [?runs, raw code, u8 0x0b])) (enc_framed (enc_funcbody ls code))"
    by (metis writes_framed)
  moreover have "writeBody ls code = framed (seqs [?runs, raw code, u8 0x0b])"
    using seqs_flat [of "[wnum (length (localRuns ls)) # map (\<lambda>(n, t). seqs [wnum n, writeValType t]) (localRuns ls), [raw code], [u8 0x0b]]"]
    by (simp add: writeBody_def del: seqs.simps)
  ultimately show ?thesis by simp
qed

text \<open>The code section: the bodies of the module's own functions.\<close>

lemma out_writeFunc:
  "fd_engineBody f = None \<Longrightarrow> out_of (writeFunc b f) =
     (case fd_body f of None \<Rightarrow> Inl (ModuleErr ''function was declared but never given a body'')
      | Some (ls, code) \<Rightarrow> enc_framed (enc_funcbody ls code))"
  using out_of_writes [OF writes_writeBody] by (auto simp: writeFunc_def out_of_def split: option.split)

lemma out_codeBody: "out_of (codeBody b) = catR (enc_nat (length (funcs b)) # map (\<lambda>f. out_of (writeFunc b f)) (funcs b))"
proof (rule out_of_writes)
  have "writes (seqs (map (writeFunc b) (funcs b))) (catR (map (\<lambda>f. out_of (writeFunc b f)) (funcs b)))"
    by (rule outputs_seqs_map) (rule appends_out [OF appends_writeFunc])
  then show "writes (codeBody b) (catR (enc_nat (length (funcs b)) # map (\<lambda>f. out_of (writeFunc b f)) (funcs b)))"
    unfolding codeBody_def by (intro outputs_seqs_Cons writes_wnum)
qed

lemma catR_Inr_all: "catR rs = Inr bs \<Longrightarrow> r \<in> set rs \<Longrightarrow> \<exists>a. r = Inr a"
  by (induction rs arbitrary: bs) auto

lemma all_bodies:
  assumes "out_of (codeBody b) = Inr p" and "f \<in> set (funcs b)" and "fd_engineBody f = None"
  obtains ls code where "fd_body f = Some (ls, code)"
proof -
  have "\<exists>a. out_of (writeFunc b f) = Inr a"
    using assms(1,2) by (intro catR_Inr_all [of "enc_nat (length (funcs b)) # map (\<lambda>f. out_of (writeFunc b f)) (funcs b)" p])
      (auto simp: out_codeBody)
  then show ?thesis using that assms(3) by (auto simp: out_writeFunc split: option.splits)
qed

text \<open>An engine function's body is the engine's own, its size in front. What follows a frame does not change its reading.\<close>

definition engineBodyBytes :: "attached_engine \<Rightarrow> nat \<Rightarrow> u8 list" where
  "engineBodyBytes e k = slice_u8 (fst (ae_bodies e ! k)) (snd (ae_bodies e ! k)) (ae_code e)"

definition framedEngine :: "builder \<Rightarrow> bool" where
  "framedEngine b \<longleftrightarrow> (\<forall>e. engine b = Some e \<longrightarrow> (\<forall>k < length (ae_bodies e). \<exists>q. dcd_frame (engineBodyBytes e k) = Some (q, [])))"

text \<open>What a frame of the code section holds, for a function of the module and for one of the engine.\<close>

definition bodyRead :: "builder \<Rightarrow> func_decl \<Rightarrow> u8 list \<Rightarrow> bool" where
  "bodyRead b f q \<longleftrightarrow>
     (case fd_engineBody f of
        None \<Rightarrow> (\<exists>ls code. fd_body f = Some (ls, code) \<and> dcd_funcbody q = Some (ls, code @ [0x0b]))
      | Some k \<Rightarrow> (\<exists>e. engine b = Some e \<and> k < length (ae_bodies e) \<and> dcd_frame (engineBodyBytes e k) = Some (q, [])))"

lemma dcd_uleb_more: "dcd_uleb bs = Some (n, r) \<Longrightarrow> dcd_uleb (bs @ rest) = Some (n, r @ rest)"
  by (induction bs arbitrary: n r) (auto split: if_splits)

lemma dcd_frame_more: "dcd_frame bs = Some (q, r) \<Longrightarrow> dcd_frame (bs @ rest) = Some (q, r @ rest)"
  by (auto simp: dcd_frame_def dcd_uleb_more split: option.splits if_splits)

lemma dcd_frames:
  "list_all2 (\<lambda>c q. dcd_frame c = Some (q, [])) cs qs \<Longrightarrow> dcd_n dcd_frame (length qs) (concat cs) = Some (qs, [])"
  by (induction rule: list_all2_induct) (simp_all add: dcd_frame_more)

lemma catR_parts: "catR rs = Inr p \<Longrightarrow> \<exists>cs. rs = map Inr cs \<and> p = concat cs"
proof (induction rs arbitrary: p)
  case (Cons r rs)
  then obtain a b cs where "r = Inr a" "rs = map Inr cs" "p = a @ b" "b = concat cs" by fastforce
  then show ?case by (intro exI [of _ "a # cs"]) simp
qed simp

lemma func_frame:
  assumes ok: "engine_ok b" "framedEngine b" and f: "f \<in> set (funcs b)" and c: "out_of (writeFunc b f) = Inr c"
  shows "\<exists>q. dcd_frame c = Some (q, []) \<and> bodyRead b f q"
proof (cases "fd_engineBody f")
  case None
  then obtain ls code where bd: "fd_body f = Some (ls, code)" using c by (auto simp: out_writeFunc split: option.splits)
  then obtain q where q: "enc_funcbody ls code = Inr q" "enc_framed (Inr q) = Inr c"
    using c None by (cases "enc_funcbody ls code") (auto simp: out_writeFunc enc_framed_def)
  then show ?thesis using dcd_frame_enc [OF q(2), of "[]"] dcd_enc_funcbody [OF q(1)] bd None by (simp add: bodyRead_def)
next
  case (Some k)
  then obtain e where e: "engine b = Some e" "k < length (ae_bodies e)" using ok(1) f unfolding engine_ok_def by blast
  have "writeFunc b f = raw (engineBodyBytes e k)" using Some e by (simp add: writeFunc_def engineBodyBytes_def)
  then have "c = engineBodyBytes e k" using c out_of_writes [OF writes_raw, of "engineBodyBytes e k"] by simp
  then show ?thesis using ok(2) e Some by (auto simp: framedEngine_def bodyRead_def)
qed

lemma code_frames:
  assumes "engine_ok b" "framedEngine b" and "out_of (codeBody b) = Inr p"
  shows "\<exists>frames. dcd_list dcd_frame p = Some (frames, []) \<and> list_all2 (bodyRead b) (funcs b) frames"
proof -
  obtain cs where cs: "enc_nat (length (funcs b)) # map (\<lambda>f. out_of (writeFunc b f)) (funcs b) = map Inr cs" "p = concat cs"
    using catR_parts [OF assms(3) [unfolded out_codeBody]] by (elim exE conjE) (rule that)
  then obtain a ds where ds: "cs = a # ds" "enc_nat (length (funcs b)) = Inr a" "map (\<lambda>f. out_of (writeFunc b f)) (funcs b) = map Inr ds"
    by (cases cs) auto
  have len: "length ds = length (funcs b)" using arg_cong [OF ds(3), of length] by simp
  have "\<exists>q. dcd_frame (ds ! i) = Some (q, []) \<and> bodyRead b (funcs b ! i) q" if i: "i < length (funcs b)" for i
    by (rule func_frame [OF assms(1,2) nth_mem [OF i]]) (use arg_cong [OF ds(3), of "\<lambda>xs. xs ! i"] i len in simp)
  then obtain F where F: "dcd_frame (ds ! i) = Some (F i, []) \<and> bodyRead b (funcs b ! i) (F i)" if "i < length (funcs b)" for i by metis
  let ?fr = "map F [0..<length (funcs b)]"
  have "list_all2 (\<lambda>c q. dcd_frame c = Some (q, [])) ds ?fr" using F len by (simp add: list_all2_conv_all_nth)
  from dcd_frames [OF this] have "dcd_n dcd_frame (length (funcs b)) (concat ds) = Some (?fr, [])" by simp
  moreover have "dcd_uleb (a @ concat ds) = Some (length (funcs b), concat ds)" using uleb_c.dcd_enc [OF ds(2)] .
  ultimately have "dcd_list dcd_frame p = Some (?fr, [])" by (simp add: cs(2) ds(1) dcd_vec_def)
  moreover have "list_all2 (bodyRead b) (funcs b) ?fr" using F by (simp add: list_all2_conv_all_nth)
  ultimately show ?thesis by blast
qed

lemma section_payload:
  assumes "wf_builder b" and "emit b g = (Inr bs, g')" and "(i, r) \<in> set (module_sections b)"
  shows "\<exists>secs p. dcd_sections (drop 8 bs) = Some secs \<and> (i, p) \<in> set secs \<and> r = Inr p"
proof -
  obtain secs where secs: "dcd_sections (drop 8 bs) = Some secs" and m: "module_sections b = map (\<lambda>(i, p). (i, Inr p)) secs"
    using assms(1,2) by (rule emit_bytes) blast
  from assms(3) obtain p where "(i, p) \<in> set secs" "r = Inr p" unfolding m by auto
  with secs show ?thesis by blast
qed

text \<open>The type section reads back as the groups of the walk.\<close>

lemma type_section_groups:
  assumes "wf_builder b" and "emit b g = (Inr bs, g')" and "types b \<noteq> []"
  shows "\<exists>secs p. dcd_sections (drop 8 bs) = Some secs \<and> (1, p) \<in> set secs \<and> dcd_list dcd_rectype p = Some (rec_types b 0, [])"
proof -
  have g: "groups_ok b" using assms(1) by (simp add: wf_builder_def)
  let ?r = "bindR (entryCount b 0) (\<lambda>n. out_of (typeBody b n))"
  have "(1, ?r) \<in> set (module_sections b)" using assms(3) by (simp add: module_sections_def)
  then obtain secs p where secs: "dcd_sections (drop 8 bs) = Some secs" "(1, p) \<in> set secs" "?r = Inr p"
    using section_payload [OF assms(1,2)] by blast
  then have "enc_list enc_rectype (rec_types b 0) = Inr p"
    using out_of_writes [OF writes_typeBody [OF g]] by (simp add: entryCount_groups [OF g])
  from rectypes_v.vec.dcd_enc [OF this, of "[]"] show ?thesis using secs(1,2) by auto
qed

text \<open>A closed span is one group, and stays one as long as the builder lives.\<close>

lemma boundary_agree:
  "boundary r i \<Longrightarrow> \<forall>j < i. r' j = r j \<Longrightarrow> (\<And>j. 0 < gsize r j) \<Longrightarrow> boundary r' i"
proof (induction rule: boundary.induct)
  case (b_next i)
  have "i < i + gsize r i" using b_next.prems(2) by simp
  then have "gsize r' i = gsize r i" using b_next.prems(1) by (simp add: gsize_def)
  moreover have "boundary r' i" using b_next by simp
  ultimately show ?case using boundary.b_next by metis
qed (rule b_start)

lemma closed_group:
  assumes wf: "wf_builder b" and s: "recSpanStart b = Some s" "s < length (types b)" and e: "endRecGroup b = Inr b'"
  shows "boundary (recStarts b') s \<and> recStarts b' s = Some (length (types b) - s) \<and> types b' = types b \<and> span_base b' = length (types b)"
proof -
  have r: "recStarts b' = (recStarts b)(s \<mapsto> length (types b) - s)" "types b' = types b" "recSpanStart b' = None"
    using s e by (auto simp: endRecGroup_def Let_def split: if_splits)
  have g: "groups_ok b" using wf by (simp add: wf_builder_def)
  have "boundary (recStarts b) s" using g s(1) by (simp add: groups_ok_def span_base_def)
  then have "boundary (recStarts b') s" unfolding r(1) using boundary_upd gsize_pos [OF g] by simp
  then show ?thesis by (simp add: r span_base_def)
qed

lemma settled_group:
  assumes wf: "wf_builder b" "wf_builder b'" and st: "settled b b'" and s: "boundary (recStarts b) s" "recStarts b s = Some n" "s + n \<le> span_base b"
  shows "\<exists>pre post. rec_types b' 0 = pre @ Group (take n (drop s (types b))) # post \<and> concat (map members pre) = take s (types b)"
proof -
  have g: "groups_ok b" "groups_ok b'" using wf by (simp_all add: wf_builder_def)
  have n: "0 < n" using group_bounds [OF g(1) s(2)] by simp
  have le: "span_base b \<le> length (types b')" using st span_base_le [OF wf(2)] by (simp add: settled_def)
  have "boundary (recStarts b') s"
    using boundary_agree [OF s(1) _ gsize_pos [OF g(1)]] st s(3) by (auto simp: settled_def)
  moreover have "s \<le> length (types b')" using le s(3) by simp
  ultimately obtain pre where pre: "rec_types b' 0 = pre @ rec_types b' s" using boundary_suffix [OF _ g(2)] by blast
  have old: "take k (drop j (types b')) = take k (drop j (types b))" if "j + k \<le> span_base b" for j k
  proof -
    have "take k (drop j (take (span_base b) (types b'))) = take k (drop j (take (span_base b) (types b)))" using st by (simp add: settled_def)
    then show ?thesis using that by (simp add: drop_take min_absorb1)
  qed
  have "recStarts b' s = Some n" using st s(2,3) n by (simp add: settled_def)
  moreover have "map (\<lambda>k. types b' ! (s + k)) [0..<n] = take n (drop s (types b'))" using le s(3) by (intro nth_equalityI) auto
  ultimately have at: "rec_types b' s = Group (take n (drop s (types b))) # rec_types b' (s + n)"
    using le s(3) n old [OF s(3)] by (simp add: rec_types.simps [of b' s])
  have "concat (map members pre) @ concat (map members (rec_types b' s)) = types b'"
    using groups_partition [OF g(2), of 0] pre by simp
  then have "concat (map members pre) @ drop s (types b') = take s (types b') @ drop s (types b')"
    by (simp add: groups_partition [OF g(2)])
  then have "concat (map members pre) = take s (types b')" by (rule append_same_eq [THEN iffD1])
  then show ?thesis using pre at old [of 0 s] s(3) by auto
qed

section \<open>A one-function module\<close>

text \<open>The module with one function \<open>f : () -> i32\<close>, on which the properties below are
  exercised.\<close>

definition g0 :: code_globals where
  "g0 = \<lparr>ourMem = 0, charsType = None\<rparr>"

definition demo :: builder where
  "demo = (fst (new_builder g0))\<lparr>types := [plain_entry (ShFunc [] [I32])],
     typeIndex := [funcKey [] [I32] \<mapsto> 0],
     funcs := [\<lparr>fd_type = JInt 0, fd_name = js ''f'', fd_body = Some ([I32, I32], [0x41, 0x07]),
                fd_engineBody = None\<rparr>]\<rparr>"

lemma demo_simps [simp]:
  "types demo = [plain_entry (ShFunc [] [I32])]" "recStarts demo = Map.empty" "engine demo = None"
  "funcs demo = [\<lparr>fd_type = JInt 0, fd_name = js ''f'', fd_body = Some ([I32, I32], [0x41, 0x07]), fd_engineBody = None\<rparr>]"
  "imps demo = []" "globals demo = []" "exports demo = []" "memoryPages demo = None" "funcRefs demo = {}"
  "blobUsed demo = False" "recSpanStart demo = None" "reservedTypes demo = []" "engineMemory demo = False"
  by (simp_all add: demo_def new_builder_def)

lemma demo_reachable: "reachable demo"
proof -
  let ?b0 = "fst (new_builder g0)"
  let ?b1 = "snd (internShape (ShFunc [] [I32]) ?b0)"
  let ?b2 = "snd (declareFunc 0 (js ''f'') ?b1)"
  have "new_builder g0 = (?b0, g0)" by (simp add: new_builder_def g0_def setOurMemoryIndex_def)
  moreover have "bstep (?b0, g0) (?b1, g0)" by (rule st_shape)
  moreover have "bstep (?b1, g0) (?b2, g0)" by (rule st_declare)
  moreover have "bstep (?b2, g0) (demo, g0)"
    by (rule st_body [of _ 0 "[I32, I32]" "[0x41, 0x07]"])
      (simp add: setBody_def func_at_def declareFunc_def internShape_intern internType_def new_builder_def
        demo_def g0_def currentOurMemoryIndex_def ownMemory_def)
  ultimately have "bsteps (new_builder g0) (demo, g0)" by auto
  then show ?thesis unfolding reachable_def by blast
qed

lemma demo_wf: "wf_builder demo"
  by (rule reachable_wf [OF demo_reachable])

lemma demo_payloads:
  "out_of (typeBody demo 1) = Inr [1, 0x60, 0, 1, 0x7f]"
  "out_of (funcBody demo) = Inr [1, 0]"
  "out_of (codeBody demo) = Inr [1, 6, 1, 2, 0x7f, 0x41, 0x07, 0x0b]"
  "out_of (nameBody demo) = Inr [4, 110, 97, 109, 101, 1, 4, 1, 0, 1, 102]"
proof -
  have g: "groups_ok demo" using demo_wf by (simp add: wf_builder_def)
  have r: "rec_types demo 0 = [Single (plain_entry (ShFunc [] [I32]))]" by (simp add: rec_types.simps)
  show "out_of (typeBody demo 1) = Inr [1, 0x60, 0, 1, 0x7f]"
    using out_of_writes [OF writes_typeBody [OF g]]
    by (simp add: r enc_vec_def enc_subtype_def plain_entry_def enc_uleb_def leb128.simps)
  have "writes (seqs (wnum 1 # [uleb (JInt 0)])) (catR [enc_nat 1, enc_uleb (JInt 0)])" by (intro outputs_intros)
  from out_of_writes [OF this] show "out_of (funcBody demo) = Inr [1, 0]"
    by (simp add: funcBody_def enc_uleb_def leb128.simps)
  show "out_of (codeBody demo) = Inr [1, 6, 1, 2, 0x7f, 0x41, 0x07, 0x0b]"
    by (simp add: out_codeBody out_writeFunc enc_framed_def enc_funcbody_def localRuns_def pushLocal_def enc_vec_def
        enc_run_def enc_uleb_def leb128.simps)
  have u: "utf8_encode (js ''name'') = [110, 97, 109, 101]" "utf8_encode (js ''f'') = [102]"
    by (simp_all add: utf8_encode_def js_def utf8_scalar_def Let_def)
  have "writes (seqs [name (js ''name''), u8 1, framed (seqs [wnum 1, seqs [wnum 0, name (js ''f'')]])])
      (catR [enc_name (js ''name''), Inr [word_of_int 1], enc_framed (catR [enc_nat 1, catR [enc_nat 0, enc_name (js ''f'')]])])"
    by (intro outputs_seqs_Cons outputs_seqs_Nil writes_name writes_u8 writes_framed writes_wnum)
  from out_of_writes [OF this] show "out_of (nameBody demo) = Inr [4, 110, 97, 109, 101, 1, 4, 1, 0, 1, 102]"
    by (simp add: nameBody_def enc_name_def u enc_framed_def enc_uleb_def leb128.simps)
qed

lemma demo_emits: "\<exists>bs. emit demo g0 = (Inr bs, g0)"
proof -
  have g: "groups_ok demo" using demo_wf by (simp add: wf_builder_def)
  have e: "entryCount demo 0 = Inr 1"
    by (simp add: entryCount_groups [OF g] rec_types.simps)
  have "\<exists>bs. catR (Inr magic # map enc_sec (module_sections demo)) = Inr bs"
    by (simp add: module_sections_def engineSegs_def e demo_payloads [simplified] enc_sec_num enc_section_def enc_framed_def
        enc_uleb_def)
  then obtain w where "emit_module demo new_writer = Inr w"
    using writes_emit_module [OF demo_wf] by (auto simp: outputs_def dest!: spec [of _ new_writer])
  then show ?thesis by (simp add: emit_def g0_def setOurMemoryIndex_def)
qed

text \<open>What a closed piece of a section writes.\<close>

lemma appends_piece: "appends (seqs [])" "appends f \<Longrightarrow> appends (seqs fs) \<Longrightarrow> appends (seqs (f # fs))"
proof -
  show "appends (seqs [])" by (rule appends_seqs) simp
  assume f: "appends f" and fs: "appends (seqs fs)"
  have "writes (seqs [f, seqs fs]) (catR [out_of f, out_of (seqs fs)])"
    by (intro outputs_seqs_Cons outputs_seqs_Nil appends_out f fs)
  moreover have "seqs [f, seqs fs] = seqs (f # fs)" using seqs_flat [of "[[f], fs]"] by (simp del: seqs.simps)
  ultimately show "appends (seqs (f # fs))" using appends_writes by metis
qed

lemma out_pieces:
  "out_of (u8 n) = Inr [word_of_int n]" "out_of (raw bs) = Inr bs" "out_of (wnum m) = enc_nat m" "out_of (uleb k) = enc_uleb k"
  "out_of (name nm) = enc_name nm" "appends f \<Longrightarrow> out_of (framed f) = enc_framed (out_of f)" "out_of (seqs []) = Inr []"
  "appends f \<Longrightarrow> appends (seqs fs) \<Longrightarrow> out_of (seqs (f # fs)) = catR [out_of f, out_of (seqs fs)]"
proof -
  show "out_of (u8 n) = Inr [word_of_int n]" "out_of (raw bs) = Inr bs" "out_of (wnum m) = enc_nat m" "out_of (uleb k) = enc_uleb k"
    "out_of (name nm) = enc_name nm"
    by (rule out_of_writes, rule outputs_intros)+
  show "appends f \<Longrightarrow> out_of (framed f) = enc_framed (out_of f)" by (rule out_of_writes [OF writes_framed [OF appends_out]])
  show "out_of (seqs []) = Inr []" by (rule out_of_writes) (rule outputs_seqs_Nil [simplified])
  assume f: "appends f" and fs: "appends (seqs fs)"
  have "writes (seqs [f, seqs fs]) (catR [out_of f, out_of (seqs fs)])"
    by (intro outputs_seqs_Cons outputs_seqs_Nil appends_out f fs)
  moreover have "seqs [f, seqs fs] = seqs (f # fs)" by (simp add: fun_eq_iff)
  ultimately show "out_of (seqs (f # fs)) = catR [out_of f, out_of (seqs fs)]" using out_of_writes by metis
qed

lemmas pieces = out_pieces appends_piece appends_basic(1-5) appends_framed

lemma small_section: "r = Inr bs \<Longrightarrow> length bs < 128 \<Longrightarrow> \<exists>out. enc_sec (i, r) = Inr out"
  by (simp add: enc_sec_num enc_section_def enc_framed_def enc_uleb_def)

lemma catR_Inr_map: "(\<And>x. x \<in> set xs \<Longrightarrow> \<exists>a. f x = Inr a) \<Longrightarrow> \<exists>bs. catR (map f xs) = Inr bs"
  by (induction xs) fastforce+

lemma emit_Inr:
  assumes "wf_builder b" "recSpanStart b = None" "\<not> (engineMemory b \<and> engine b = None)" "reservedTypes b = []"
    and "catR (map enc_sec (module_sections b)) = Inr bs"
  shows "\<exists>bs. emit b g = (Inr bs, setOurMemoryIndex 0 g)"
proof -
  have "catR (Inr magic # map enc_sec (module_sections b)) = Inr (magic @ bs)" using assms(5) by simp
  then obtain w where "emit_module b new_writer = Inr w"
    using writes_emit_module [OF assms(1)] by (auto simp: outputs_def dest!: spec [of _ new_writer])
  then show ?thesis using assms(2-4) by (auto simp: emit_def Let_def)
qed

section \<open>Properties\<close>

text \<open>C8. The module's section structure. What \<open>emit\<close> returns for a reachable builder is the
  magic number followed by sections that a decoder splits apart exactly; the sections are
  those whose part of the builder is present, each at most once and in the order the
  format prescribes (the data count before the code), and the shared memory index is back
  at 0.\<close>

theorem emit_sections:
  assumes "reachable b" and "emit b g = (Inr bs, g')"
  shows "\<exists>secs. take 8 bs = magic \<and> dcd_sections (drop 8 bs) = Some secs
           \<and> map fst secs = filter (present b) [1, 2, 3, 4, 5, 6, 7, 9, 12, 10, 11, 0]
           \<and> sorted_wrt (\<lambda>i j. sec_rank i < sec_rank j) (map fst secs)
           \<and> currentOurMemoryIndex g' = 0"
proof -
  obtain secs where bs: "bs = magic @ drop 8 bs" and secs: "dcd_sections (drop 8 bs) = Some secs"
    and m: "module_sections b = map (\<lambda>(i, p). (i, Inr p)) secs"
    using reachable_wf [OF assms(1)] assms(2) by (rule emit_bytes)
  have "map fst secs = map fst (module_sections b)" unfolding m by (simp add: comp_def case_prod_beta)
  moreover have "take 8 bs = magic" by (subst bs) (simp add: magic_def)
  moreover have "currentOurMemoryIndex g' = 0"
    using assms(2) by (auto simp: emit_def Let_def setOurMemoryIndex_def currentOurMemoryIndex_def split: if_splits)
  ultimately show ?thesis using secs sections_ordered [of b] section_ids [of b] by auto
qed

theorem emit_sections_witness:
  "\<exists>bs secs. emit demo g0 = (Inr bs, g0) \<and> dcd_sections (drop 8 bs) = Some secs \<and> map fst secs = [1, 3, 10, 0]"
proof -
  obtain bs where bs: "emit demo g0 = (Inr bs, g0)" using demo_emits by blast
  from emit_sections [OF demo_reachable bs] show ?thesis using bs by (auto simp: present_def engineSegs_def)
qed

text \<open>C6. The type section. It decodes to single types and recursion groups whose members, read
  in order, are exactly the builder's types: the walk over the group starts neither skips
  nor repeats a type, never runs past the end and never stalls.\<close>

theorem type_section_partition:
  assumes "reachable b" and "emit b g = (Inr bs, g')" and "types b \<noteq> []"
  shows "\<exists>secs p groups. dcd_sections (drop 8 bs) = Some secs \<and> (1, p) \<in> set secs
           \<and> dcd_list dcd_rectype p = Some (groups, []) \<and> concat (map members groups) = types b"
proof -
  have wf: "wf_builder b" and g: "groups_ok b" using reachable_wf [OF assms(1)] by (simp_all add: wf_builder_def)
  from type_section_groups [OF wf assms(2,3)] show ?thesis using groups_partition [OF g, of 0] by auto
qed

theorem type_section_partition_witness:
  "\<exists>bs secs p groups. emit demo g0 = (Inr bs, g0) \<and> dcd_sections (drop 8 bs) = Some secs \<and> (1, p) \<in> set secs
     \<and> dcd_list dcd_rectype p = Some (groups, []) \<and> concat (map members groups) = [plain_entry (ShFunc [] [I32])]"
proof -
  obtain bs where bs: "emit demo g0 = (Inr bs, g0)" using demo_emits by blast
  from type_section_partition [OF demo_reachable bs] show ?thesis using bs by auto
qed

text \<open>C19. A span is one recursion group of the emitted module. Open a span with \<open>beginRecGroup\<close>, make any calls while it
  stays open, inner pairs included, and close it with \<open>endRecGroup\<close>; if a type was added meanwhile, then
  whatever is called afterwards, the type section \<open>emit\<close> writes has one recursion group whose members
  are exactly the types added since the span was opened, and the groups before it hold exactly the
  types there were then.\<close>

theorem span_is_one_group:
  assumes "reachable b0" and "beginRecGroup b0 = Inr b1" and "spanStep\<^sup>*\<^sup>* (b1, g1) (b2, g2)" and "endRecGroup b2 = Inr b3"
    and "length (types b0) < length (types b2)" and "bsteps (b3, g3) (b, g)" and "emit b g = (Inr bs, g')"
  shows "\<exists>secs p pre added post. dcd_sections (drop 8 bs) = Some secs \<and> (1, p) \<in> set secs
           \<and> dcd_list dcd_rectype p = Some (pre @ Group added # post, [])
           \<and> concat (map members pre) = types b0 \<and> types b2 = types b0 @ added"
proof -
  let ?s = "length (types b0)"
  have b1: "recSpanStart b0 = None" "recSpanStart b1 = Some ?s" using assms(2) by (auto simp: beginRecGroup_def split: if_splits)
  have r1: "bsteps (b0, g1) (b2, g2)"
    using st_begin [OF assms(2), of g1] spanSteps_steps [OF assms(3)] by (rule converse_rtranclp_into_rtranclp)
  have s2: "recSpanStart b2 = Some ?s" using spanSteps_start [OF assms(3), of ?s] b1(2) by simp
  have wf0: "wf_builder b0" by (rule reachable_wf [OF assms(1)])
  have wf2: "wf_builder b2" using bsteps_wf [OF r1] wf0 by simp
  have wf3: "wf_builder b3" by (rule wf_end [OF wf2 assms(4)])
  have wf: "wf_builder b" using bsteps_wf [OF assms(6)] wf3 by simp
  note c = closed_group [OF wf2 s2 assms(5) assms(4)]
  have st: "settled b3 b" using bsteps_settled [OF assms(6)] wf3 by simp
  have old: "take ?s (types b2) = types b0" using bsteps_settled [OF r1] wf0 b1(1) by (simp add: settled_def span_base_def)
  obtain pre post where rt: "rec_types b 0 = pre @ Group (drop ?s (types b2)) # post" "concat (map members pre) = types b0"
    using settled_group [OF wf3 wf st, of ?s "length (types b2) - ?s"] c assms(5) old by auto
  have "types b \<noteq> []" using st c assms(5) by (cases "types b") (auto simp: settled_def)
  from type_section_groups [OF wf assms(7) this] obtain secs p where
    "dcd_sections (drop 8 bs) = Some secs" "(1, p) \<in> set secs" "dcd_list dcd_rectype p = Some (rec_types b 0, [])" by blast
  moreover have "types b2 = types b0 @ drop ?s (types b2)" using old append_take_drop_id [of ?s "types b2"] by simp
  ultimately show ?thesis using rt by (intro exI conjI) simp_all
qed

text \<open>A module with a function type, then a span with an array type and a pair group inside it.\<close>

definition pairOf :: "nat \<Rightarrow> type_entry \<times> type_entry" where
  "pairOf i = (\<lparr>te_shape = ShStruct [], te_sub = Some \<lparr>supers = [], final = False\<rparr>\<rparr>, \<lparr>te_shape = ShStruct [], te_sub = Some \<lparr>supers = [i], final = True\<rparr>\<rparr>)"

definition spanBefore :: builder where
  "spanBefore = snd (internShape (ShFunc [] [I32]) (fst (new_builder g0)))"

definition spanInside :: builder where
  "spanInside = spanBefore\<lparr>types := types spanBefore @ [plain_entry (ShArray SI8 True), fst (pairOf 2), snd (pairOf 2)],
     typeIndex := (typeIndex spanBefore)(shapeKey (ShArray SI8 True) \<mapsto> 1, js ''pair'' \<mapsto> 2), recStarts := [2 \<mapsto> 2], recSpanStart := Some 1\<rparr>"

definition spanAfter :: builder where
  "spanAfter = spanInside\<lparr>recSpanStart := None, recStarts := [2 \<mapsto> 2, 1 \<mapsto> 3]\<rparr>"

lemma spanBefore_simps [simp]:
  "types spanBefore = [plain_entry (ShFunc [] [I32])]" "recSpanStart spanBefore = None" "recStarts spanBefore = Map.empty"
  "typeIndex spanBefore = [shapeKey (ShFunc [] [I32]) \<mapsto> 0]" "reservedTypes spanBefore = []" "funcs spanBefore = []" "imps spanBefore = []"
  "globals spanBefore = []" "exports spanBefore = []" "memoryPages spanBefore = None" "funcRefs spanBefore = {}" "blobUsed spanBefore = False"
  "engineMemory spanBefore = False" "engine spanBefore = None"
  by (simp_all add: spanBefore_def internShape_intern internType_def new_builder_def)

lemma spanBefore_reachable: "reachable spanBefore"
proof -
  have "new_builder g0 = (fst (new_builder g0), g0)" by (simp add: new_builder_def g0_def setOurMemoryIndex_def)
  then have "bstep (new_builder g0) (spanBefore, g0)" using st_shape [of "fst (new_builder g0)" g0 "ShFunc [] [I32]"] by (simp add: spanBefore_def)
  then show ?thesis unfolding reachable_def by blast
qed

lemma span_run:
  "spanStep\<^sup>*\<^sup>* (spanBefore\<lparr>recSpanStart := Some 1\<rparr>, g0) (spanInside, g0)"
proof -
  let ?b1 = "spanBefore\<lparr>recSpanStart := Some 1\<rparr>"
  let ?b2 = "snd (internShape (ShArray SI8 True) ?b1)"
  have k: "shapeKey (ShArray SI8 True) \<noteq> shapeKey (ShFunc [] [I32])" using shapeKey_inj by blast
  have k': "arrayKey SI8 True \<noteq> funcKey [] [I32]" using k by simp
  have p: "plain_key (js ''pair'')" by (simp add: plain_key_def js_def)
  then have n: "js ''pair'' \<noteq> shapeKey s" for s using plain_key_shape by blast
  have b2: "?b2 = ?b1\<lparr>types := types spanBefore @ [plain_entry (ShArray SI8 True)], typeIndex := (typeIndex spanBefore)(shapeKey (ShArray SI8 True) \<mapsto> 1)\<rparr>"
    using k k' by (simp add: internShape_intern internType_def)
  have "recGroup2 (js ''pair'') (\<lambda>i b. Inr (pairOf i, b)) ?b2 = Inr (2, spanInside)"
    unfolding b2 using n by (simp add: recGroup2_def Let_def spanInside_def pairOf_def numeral_2_eq_2 del: shapeKey.simps)
  then have "bstep (?b2, g0) (spanInside, g0)" by (rule st_recGroup2 [OF p])
  then have "spanStep (?b2, g0) (spanInside, g0)" by (simp add: spanStep_def spanInside_def)
  moreover have "recSpanStart ?b2 = Some 1" by (subst b2) simp
  then have "spanStep (?b1, g0) (?b2, g0)" using st_shape [of ?b1 g0 "ShArray SI8 True"] unfolding spanStep_def by simp
  ultimately show ?thesis by (meson converse_rtranclp_into_rtranclp r_into_rtranclp)
qed

lemma span_end: "endRecGroup spanInside = Inr spanAfter"
  by (simp add: endRecGroup_def spanAfter_def spanInside_def pairOf_def Let_def numeral_3_eq_3)

lemma spanAfter_wf: "wf_builder spanAfter"
proof -
  have "beginRecGroup spanBefore = Inr (spanBefore\<lparr>recSpanStart := Some 1\<rparr>)" by (simp add: beginRecGroup_def)
  from reachable_wf [OF spanBefore_reachable] wf_begin [OF _ this] bsteps_wf [OF spanSteps_steps [OF span_run]]
  have "wf_builder spanInside" by simp
  then show ?thesis using wf_end span_end by blast
qed

lemma spanAfter_emits: "\<exists>bs. emit spanAfter g0 = (Inr bs, g0)"
proof -
  have g: "groups_ok spanAfter" using spanAfter_wf by (simp add: wf_builder_def)
  note eng = spanAfter_def spanInside_def pairOf_def
  note num = enc_uleb_def leb128.simps enc_framed_def
  have rt: "rec_types spanAfter 0 = [Single (plain_entry (ShFunc [] [I32])), Group [plain_entry (ShArray SI8 True), fst (pairOf 2), snd (pairOf 2)]]"
    by (simp add: rec_types.simps eng upt_rec)
  have 1: "\<exists>bs. bindR (entryCount spanAfter 0) (\<lambda>n. out_of (typeBody spanAfter n)) = Inr bs \<and> length bs < 128"
    using out_of_writes [OF writes_typeBody [OF g]]
    by (simp add: entryCount_groups [OF g] rt enc_vec_def enc_subtype_def plain_entry_def pairOf_def num enc_field_def)
  have u: "utf8_encode (js ''name'') = [110, 97, 109, 101]" by (simp add: utf8_encode_def js_def utf8_scalar_def Let_def)
  have 2: "\<exists>bs. out_of (nameBody spanAfter) = Inr bs \<and> length bs < 128" by (simp add: nameBody_def eng pieces num enc_name_def u)
  have "module_sections spanAfter = [(1, bindR (entryCount spanAfter 0) (\<lambda>n. out_of (typeBody spanAfter n))), (0, out_of (nameBody spanAfter))]"
    by (simp add: module_sections_def engineSegs_def) (simp add: eng)
  then have "\<exists>bs. catR (map enc_sec (module_sections spanAfter)) = Inr bs" using 1 2 small_section by (intro catR_Inr_map) auto
  then obtain bs where "emit spanAfter g0 = (Inr bs, setOurMemoryIndex 0 g0)"
    using emit_Inr [OF spanAfter_wf, of _ g0] by (auto simp: eng)
  then show ?thesis by (simp add: setOurMemoryIndex_def g0_def)
qed

theorem span_is_one_group_witness:
  "\<exists>bs secs p pre post. emit spanAfter g0 = (Inr bs, g0) \<and> dcd_sections (drop 8 bs) = Some secs \<and> (1, p) \<in> set secs
     \<and> dcd_list dcd_rectype p = Some (pre @ Group [plain_entry (ShArray SI8 True), fst (pairOf 2), snd (pairOf 2)] # post, [])
     \<and> concat (map members pre) = [plain_entry (ShFunc [] [I32])]"
proof -
  obtain bs where bs: "emit spanAfter g0 = (Inr bs, g0)" using spanAfter_emits by blast
  have "beginRecGroup spanBefore = Inr (spanBefore\<lparr>recSpanStart := Some 1\<rparr>)" by (simp add: beginRecGroup_def)
  from span_is_one_group [OF spanBefore_reachable this span_run span_end _ rtranclp.rtrancl_refl bs]
  show ?thesis using bs by (auto simp: spanInside_def)
qed

text \<open>C7. The code section, with and without an engine. It decodes to one size-prefixed body per declared function, in
  declaration order. The body of a function of the module reads back as the locals passed to
  \<open>setBody\<close>, one by one, and its code followed by the closing \<open>end\<close>; the body of an engine function
  is the attached engine's own, re-indexed. An attached engine's bodies have to be size-prefixed
  entries, which is how its code section lists them.\<close>

theorem code_section_bodies:
  assumes "reachable b" and "emit b g = (Inr bs, g')" and "funcs b \<noteq> []" and "framedEngine b"
  shows "\<exists>secs p frames. dcd_sections (drop 8 bs) = Some secs \<and> (10, p) \<in> set secs
           \<and> dcd_list dcd_frame p = Some (frames, []) \<and> list_all2 (bodyRead b) (funcs b) frames"
proof -
  have wf: "wf_builder b" by (rule reachable_wf [OF assms(1)])
  have "(10, out_of (codeBody b)) \<in> set (module_sections b)" using assms(3) by (simp add: module_sections_def)
  then obtain secs p where secs: "dcd_sections (drop 8 bs) = Some secs" "(10, p) \<in> set secs" "out_of (codeBody b) = Inr p"
    using section_payload [OF wf assms(2)] by blast
  from code_frames [OF _ assms(4) secs(3)] wf secs(1,2) show ?thesis by (auto simp: wf_builder_def)
qed

text \<open>A module with an engine of one function, which calls the one function it imports. The callback declares the
  import's function in the builder, as the island's shims do.\<close>

definition tinyEngine :: engine_image where
  "tinyEngine = \<lparr>ei_types = [\<lparr>ft_params = [], ft_results = []\<rparr>], ei_imports = [\<lparr>im_module = js ''m'', im_name = js ''n'', im_type = 0\<rparr>],
     ei_funcTypes = [0], ei_tableMin = 1, ei_tableMax = None, ei_memoryMin = 1, ei_globals = [], ei_exports = Map.empty,
     ei_elemOffset = [0x41, 0], ei_elemFuncs = [1], ei_code = [1, 8, 0, 0x10, 0x80, 0x80, 0x80, 0x80, 0, 0x0b], ei_bodies = [(1, 10)],
     ei_relocs = [\<lparr>rl_space = SpFunc, rl_offset = 4, rl_index = 0\<rparr>], ei_dataSegments = [], ei_names = Map.empty\<rparr>"

definition g1 :: code_globals where
  "g1 = \<lparr>ourMem = 1, charsType = None\<rparr>"

definition shim :: "engine_import \<Rightarrow> builder \<Rightarrow> (nat \<times> builder) res" where
  "shim imp b =
     (let (t, b1) = funcType [] [] b; (i, b2) = declareFunc t (js ''s'') b1
      in bindR (setBody g1 i [] [] b2) (\<lambda>b3. Inr (i, b3)))"

definition engineDemo :: builder where
  "engineDemo = (fst (new_builder g0))\<lparr>types := [plain_entry (ShFunc [] [])], typeIndex := [funcKey [] [] \<mapsto> 0], engineMemory := True,
     funcs := [\<lparr>fd_type = JInt 0, fd_name = js ''s'', fd_body = Some ([], []), fd_engineBody = None\<rparr>,
               \<lparr>fd_type = JInt 0, fd_name = js ''qjs.0'', fd_body = None, fd_engineBody = Some 0\<rparr>],
     engine := Some \<lparr>ae_code = [1, 8, 0, 0x10, 0x80, 0x80, 0x80, 0x80, 0, 0x0b], ae_bodies = [(1, 10)], ae_tableMin = 1, ae_tableMax = None,
       ae_memoryMin = 1, ae_elemOffset = [0x41, 0], ae_elemFuncs = [1], ae_dataSegments = []\<rparr>\<rparr>"

lemma engineDemo_simps [simp]:
  "types engineDemo = [plain_entry (ShFunc [] [])]" "recStarts engineDemo = Map.empty" "imps engineDemo = []" "globals engineDemo = []"
  "exports engineDemo = []" "memoryPages engineDemo = None" "funcRefs engineDemo = {}" "blobUsed engineDemo = False"
  "recSpanStart engineDemo = None" "reservedTypes engineDemo = []" "engineMemory engineDemo" "engine engineDemo \<noteq> None"
  by (simp_all add: engineDemo_def new_builder_def)

lemma shim_calls: "shim imp x = Inr (t, y) \<Longrightarrow> bcalls (x, g1) (y, g1)"
proof -
  assume r: "shim imp x = Inr (t, y)"
  obtain k b1 where b1: "funcType [] [] x = (k, b1)" by (cases "funcType [] [] x")
  obtain i b2 where b2: "declareFunc k (js ''s'') b1 = (i, b2)" by (cases "declareFunc k (js ''s'') b1")
  have y: "setBody g1 i [] [] b2 = Inr y" using r by (auto simp: shim_def b1 b2)
  have "bcall (x, g1) (b1, g1)" using c_shape [of x g1 "ShFunc [] []"] by (simp add: internShape_def b1)
  moreover have "bcall (b1, g1) (b2, g1)" using c_declare [of b1 g1 k "js ''s''"] by (simp add: b2)
  moreover have "bcall (b2, g1) (y, g1)" by (rule c_body [OF y])
  ultimately show ?thesis by (meson converse_rtranclp_into_rtranclp r_into_rtranclp)
qed

lemma engineDemo_attach: "\<exists>m. attachEngine tinyEngine shim (fst (reserveEngineMemory (new_builder g0))) = Inr (m, engineDemo)"
proof -
  have d: "js ''qjs.'' @ dec 0 = js ''qjs.0''" by (simp add: dec.simps js_def digit_def)
  have k: "uleb5_byte 0 k = (if k < 4 then 0x80 else 0)" for k by (simp add: uleb5_byte_def)
  have "[0..<5] = [0, 1, 2, 3, 4 :: nat]" by (simp add: upt_rec)
  then have l: "writeUleb5 [1, 8, 0, 0x10, 0x80, 0x80, 0x80, 0x80, 0, 0x0b] 4 0 = Inr [1, 8, 0, 0x10, 0x80, 0x80, 0x80, 0x80, 0, 0x0b]"
    by (simp add: writeUleb5_def k)
  show ?thesis
    by (simp add: attachEngine_def tinyEngine_def reserveEngineMemory_def new_builder_def Let_def shape_intern internType_def bind_import_def
        shim_def declareFunc_def setBody_def func_at_def funcTypeOf_def num_js_def get_num_def currentOurMemoryIndex_def ownMemory_def g1_def
        engine_decl_def reindex_def funcMap_def l d engineDemo_def plain_entry_def)
qed

lemma engineDemo_reachable: "reachable engineDemo"
proof -
  let ?b = "fst (reserveEngineMemory (new_builder g0))"
  obtain m where m: "attachEngine tinyEngine shim ?b = Inr (m, engineDemo)" using engineDemo_attach by blast
  have g: "reserveEngineMemory (new_builder g0) = (?b, g1)"
    by (simp add: reserveEngineMemory_def new_builder_def setOurMemoryIndex_def g0_def g1_def)
  have "bstep (new_builder g0) (?b, g1)" using st_engineMemory [of "new_builder g0"] g by simp
  moreover have "bstep (?b, g1) (engineDemo, g1)" by (rule st_attach [OF _ shim_calls m]) (simp add: tinyEngine_def)
  ultimately show ?thesis unfolding reachable_def by (meson converse_rtranclp_into_rtranclp r_into_rtranclp)
qed

lemma engineDemo_sections:
  "module_sections engineDemo = [(1, bindR (entryCount engineDemo 0) (\<lambda>n. out_of (typeBody engineDemo n))), (3, out_of (funcBody engineDemo)),
     (4, out_of (tableBody (the (engine engineDemo)))), (5, out_of (memoryBody engineDemo)), (9, out_of (elemBody engineDemo)),
     (10, out_of (codeBody engineDemo)), (0, out_of (nameBody engineDemo))]"
  by (simp add: module_sections_def engineSegs_def) (simp add: engineDemo_def)

lemma engineDemo_payloads: "(i, r) \<in> set (module_sections engineDemo) \<Longrightarrow> \<exists>out. enc_sec (i, r) = Inr out"
proof -
  have g: "groups_ok engineDemo" using reachable_wf [OF engineDemo_reachable] by (simp add: wf_builder_def)
  have rt: "rec_types engineDemo 0 = [Single (plain_entry (ShFunc [] []))]" by (simp add: rec_types.simps)
  have 1: "bindR (entryCount engineDemo 0) (\<lambda>n. out_of (typeBody engineDemo n)) = Inr [1, 0x60, 0, 0]"
    using out_of_writes [OF writes_typeBody [OF g]]
    by (simp add: entryCount_groups [OF g] rt enc_vec_def enc_subtype_def plain_entry_def enc_uleb_def leb128.simps)
  have u: "utf8_encode (js ''name'') = [110, 97, 109, 101]" "utf8_encode (js ''s'') = [115]" "utf8_encode (js ''qjs.0'') = [113, 106, 115, 46, 48]"
    by (simp_all add: utf8_encode_def js_def utf8_scalar_def Let_def)
  note num = enc_uleb_def leb128.simps enc_framed_def
  note eng = engineDemo_def new_builder_def
  have 2: "out_of (funcBody engineDemo) = Inr [2, 0, 0]" by (simp add: funcBody_def eng pieces num)
  have 3: "out_of (tableBody (the (engine engineDemo))) = Inr [1, 0x70, 0, 1]" by (simp add: tableBody_def eng pieces num)
  have 4: "out_of (memoryBody engineDemo) = Inr [1, 0, 1]" by (simp add: memoryBody_def eng pieces num)
  have 5: "out_of (elemBody engineDemo) = Inr [1, 0, 0x41, 0, 0x0b, 1, 1]" by (simp add: elemBody_def eng pieces num)
  have 6: "out_of (codeBody engineDemo) = Inr [2, 2, 0, 0x0b, 8, 0, 0x10, 0x80, 0x80, 0x80, 0x80, 0, 0x0b]"
    by (simp add: out_codeBody writeFunc_def eng slice_u8_def pieces num out_of_writes [OF writes_writeBody] enc_funcbody_def localRuns_def enc_vec_def)
  have 7: "\<exists>bs. out_of (nameBody engineDemo) = Inr bs \<and> length bs < 128" by (simp add: nameBody_def eng pieces num enc_name_def u)
  assume "(i, r) \<in> set (module_sections engineDemo)"
  then show ?thesis unfolding engineDemo_sections 1 2 3 4 5 6 using 7 small_section by fastforce
qed

theorem code_section_bodies_witness:
  "\<exists>bs secs p frames. emit engineDemo g1 = (Inr bs, g0) \<and> dcd_sections (drop 8 bs) = Some secs \<and> (10, p) \<in> set secs
     \<and> dcd_list dcd_frame p = Some (frames, []) \<and> dcd_funcbody (frames ! 0) = Some ([], [0x0b])
     \<and> frames ! 1 = [0, 0x10, 0x80, 0x80, 0x80, 0x80, 0, 0x0b]"
proof -
  have f: "framedEngine engineDemo" "bodyRead engineDemo (funcs engineDemo ! 1) q \<longleftrightarrow> q = [0, 0x10, 0x80, 0x80, 0x80, 0x80, 0, 0x0b]"
    "bodyRead engineDemo (funcs engineDemo ! 0) q \<longleftrightarrow> dcd_funcbody q = Some ([], [0x0b])" for q
    by (auto simp: framedEngine_def engineBodyBytes_def engineDemo_def slice_u8_def dcd_frame_def bodyRead_def)
  have "\<exists>bs. catR (map enc_sec (module_sections engineDemo)) = Inr bs" using engineDemo_payloads by (intro catR_Inr_map) auto
  then obtain bs where "emit engineDemo g1 = (Inr bs, setOurMemoryIndex 0 g1)"
    using emit_Inr [OF reachable_wf [OF engineDemo_reachable], of _ g1] by auto
  moreover have "setOurMemoryIndex 0 g1 = g0" by (simp add: setOurMemoryIndex_def g0_def g1_def)
  ultimately have e: "emit engineDemo g1 = (Inr bs, g0)" by simp
  have "length (funcs engineDemo) = 2" by (simp add: engineDemo_def)
  from code_section_bodies [OF engineDemo_reachable e _ f(1)] this obtain secs p frames where fr:
    "dcd_sections (drop 8 bs) = Some secs" "(10, p) \<in> set secs" "dcd_list dcd_frame p = Some (frames, [])" "list_all2 (bodyRead engineDemo) (funcs engineDemo) frames"
    by (auto simp: engineDemo_def)
  have "bodyRead engineDemo (funcs engineDemo ! 0) (frames ! 0)" "bodyRead engineDemo (funcs engineDemo ! 1) (frames ! 1)"
    using list_all2_nthD [OF fr(4), of 0] list_all2_nthD [OF fr(4), of 1] \<open>length (funcs engineDemo) = 2\<close> by simp_all
  then show ?thesis using e f fr by blast
qed

text \<open>C29. \<open>emit\<close> refuses unfinished modules: if it returns bytes, no span is open, no type is
  reserved but undefined, a reserved engine memory has its engine, and every declared
  function has a body, its own or the engine's.\<close>

theorem emit_complete:
  assumes "reachable b" and "emit b g = (Inr bs, g')"
  shows "recSpanStart b = None \<and> reservedTypes b = [] \<and> \<not> (engineMemory b \<and> engine b = None)
         \<and> {f \<in> set (funcs b). fd_body f = None \<and> fd_engineBody f = None} = {}"
proof -
  have wf: "wf_builder b" by (rule reachable_wf [OF assms(1)])
  have "fd_body f \<noteq> None" if f: "f \<in> set (funcs b)" "fd_engineBody f = None" for f
  proof -
    have "(10, out_of (codeBody b)) \<in> set (module_sections b)" using f by (auto simp: module_sections_def)
    then obtain p where "out_of (codeBody b) = Inr p" using section_payload [OF wf assms(2)] by blast
    from all_bodies [OF this f] show ?thesis by blast
  qed
  then show ?thesis using assms(2) by (auto simp: emit_def Let_def split: if_splits)
qed

theorem emit_complete_witness:
  "\<exists>bs. emit demo g0 = (Inr bs, g0) \<and> recSpanStart demo = None
     \<and> {f \<in> set (funcs demo). fd_body f = None \<and> fd_engineBody f = None} = {}"
proof -
  obtain bs where bs: "emit demo g0 = (Inr bs, g0)" using demo_emits by blast
  from emit_complete [OF demo_reachable bs] show ?thesis using bs by blast
qed

text \<open>Locals are written as runs: expanding the runs gives back the locals, no run is empty and
  neighbouring runs differ in type, so the form is the shortest one.\<close>

theorem locals_run_length: "expand (localRuns ls) = ls \<and> minimal_runs (localRuns ls)"
  by (simp add: expand_localRuns minimal_localRuns)

end
