(* ===== verification/Engine_Fence.thy ===== *)
theory Engine_Fence
  imports Js_Prelude
begin

text \<open>
  The build-time fence of \<open>backend/wasm/engine.ts\<close>: \<open>referencedIdentifiers\<close>, the scanner that
  finds the identifiers a piece of source text uses in reference position, and
  \<open>fencedGlobalIn\<close>, which refuses a text naming a fenced global. The set of fenced names
  is read from a file beside the engine artifact and is a parameter here. The scanner's
  position \<open>i\<close> is represented by the text from \<open>i\<close> on, which is all it looks at.
\<close>

section \<open>Character classes\<close>

abbreviation uc :: "char \<Rightarrow> 16 word" where
  "uc c \<equiv> of_char c"

definition in_range :: "char \<Rightarrow> char \<Rightarrow> 16 word \<Rightarrow> bool" where
  "in_range a z c \<longleftrightarrow> uc a \<le> c \<and> c \<le> uc z"

definition isDigit :: "16 word \<Rightarrow> bool" where
  "isDigit = in_range CHR ''0'' CHR ''9''"

definition isStart :: "16 word \<Rightarrow> bool" where
  "isStart c \<longleftrightarrow> in_range CHR ''A'' CHR ''Z'' c \<or> in_range CHR ''a'' CHR ''z'' c
     \<or> c = uc CHR ''_'' \<or> c = uc CHR ''$''"

definition isPart :: "16 word \<Rightarrow> bool" where
  "isPart c \<longleftrightarrow> in_range CHR ''A'' CHR ''Z'' c \<or> in_range CHR ''a'' CHR ''z'' c \<or> isDigit c
     \<or> c = uc CHR ''_'' \<or> c = uc CHR ''$''"

definition isNumPart :: "16 word \<Rightarrow> bool" where
  "isNumPart c \<longleftrightarrow> isDigit c \<or> in_range CHR ''A'' CHR ''Z'' c \<or> in_range CHR ''a'' CHR ''z'' c
     \<or> c = uc CHR ''_'' \<or> c = uc CHR ''.''"

text \<open>The class \<open>\s\<close> of a regular expression.\<close>

definition isSpace :: "16 word \<Rightarrow> bool" where
  "isSpace c \<longleftrightarrow> 0x09 \<le> c \<and> c \<le> 0x0d \<or> c = 0x20 \<or> c = 0xa0 \<or> c = 0x1680
     \<or> 0x2000 \<le> c \<and> c \<le> 0x200a \<or> c = 0x2028 \<or> c = 0x2029 \<or> c = 0x202f \<or> c = 0x205f
     \<or> c = 0x3000 \<or> c = 0xfeff"

section \<open>The scanner\<close>

record scan_state =
  sc_rest :: jsstr
  sc_tmpl :: "int list"     \<comment> \<open>innermost template first\<close>
  sc_depth :: int
  sc_prev :: jsstr          \<comment> \<open>\<open>prevSignificant\<close>\<close>
  sc_out :: "jsstr list"

fun skipTemplateText :: "jsstr \<Rightarrow> int list \<Rightarrow> int \<Rightarrow> jsstr \<times> int list \<times> int" where
  "skipTemplateText [] tmpl depth = ([], tmpl, depth)"
| "skipTemplateText (c # cs) tmpl depth =
     (if c = uc CHR 0x5C then skipTemplateText (drop 1 cs) tmpl depth
      else if c = uc CHR 0x60 then (cs, tmpl, depth)
      else if c = uc CHR ''$'' \<and> take 1 cs = js ''{'' then (drop 1 cs, depth # tmpl, depth + 1)
      else skipTemplateText cs tmpl depth)"

text \<open>\<open>indexOf("*/", i + 2)\<close>: the text behind the comment, or nothing.\<close>

fun afterComment :: "jsstr \<Rightarrow> jsstr" where
  "afterComment (c # d # cs) =
     (if c = uc CHR ''*'' \<and> d = uc CHR ''/'' then cs else afterComment (d # cs))"
| "afterComment _ = []"

fun skipQuoted :: "16 word \<Rightarrow> jsstr \<Rightarrow> jsstr" where
  "skipQuoted q [] = []"
| "skipQuoted q (c # cs) =
     (if c = q then cs
      else if c = uc CHR 0x5C then skipQuoted q (drop 1 cs)
      else skipQuoted q cs)"

definition setTemplate :: "jsstr \<times> int list \<times> int \<Rightarrow> scan_state \<Rightarrow> scan_state" where
  "setTemplate = (\<lambda>(r, t, d) s. s\<lparr>sc_rest := r, sc_tmpl := t, sc_depth := d, sc_prev := js ''s''\<rparr>)"

definition isKey :: "jsstr \<Rightarrow> jsstr \<Rightarrow> bool" where
  "isKey rest prev \<longleftrightarrow>
     (let k = dropWhile isSpace rest
      in take 1 k = js '':'' \<and> take 1 (drop 1 k) \<noteq> js '':'' \<and> (prev = js ''{'' \<or> prev = js '',''))"

text \<open>One round of the main loop, at the code unit \<open>c\<close>.\<close>

definition scan_step :: "16 word \<Rightarrow> jsstr \<Rightarrow> scan_state \<Rightarrow> scan_state" where
  "scan_step c cs s =
     (if c = uc CHR ''/'' \<and> take 1 cs = js ''/'' then
        s\<lparr>sc_rest := dropWhile (\<lambda>d. d \<noteq> uc CHR 0x0A) (c # cs)\<rparr>
      else if c = uc CHR ''/'' \<and> take 1 cs = js ''*'' then
        s\<lparr>sc_rest := afterComment (drop 1 cs)\<rparr>
      else if c = uc CHR 0x27 \<or> c = uc CHR 0x22 then
        s\<lparr>sc_rest := skipQuoted c cs, sc_prev := js ''s''\<rparr>
      else if c = uc CHR 0x60 then
        setTemplate (skipTemplateText cs (sc_tmpl s) (sc_depth s)) s
      else if c = uc CHR ''{'' then
        s\<lparr>sc_depth := sc_depth s + 1, sc_rest := cs, sc_prev := [c]\<rparr>
      else if c = uc CHR ''}'' then
        (let d = sc_depth s - 1 in
         case sc_tmpl s of
           t # ts \<Rightarrow>
             if t = d then setTemplate (skipTemplateText cs ts d) s
             else s\<lparr>sc_depth := d, sc_rest := cs, sc_prev := [c]\<rparr>
         | [] \<Rightarrow> s\<lparr>sc_depth := d, sc_rest := cs, sc_prev := [c]\<rparr>)
      else if isStart c then
        (let word = c # takeWhile isPart cs; rest = dropWhile isPart cs in
         s\<lparr>sc_out := (if sc_prev s \<noteq> js ''.'' \<and> \<not> isKey rest (sc_prev s)
                     then sc_out s @ [word] else sc_out s),
           sc_prev := js ''w'', sc_rest := rest\<rparr>)
      else if isSpace c then s\<lparr>sc_rest := cs\<rparr>
      else if isDigit c then
        s\<lparr>sc_rest := dropWhile isNumPart (c # cs), sc_prev := js ''n''\<rparr>
      else if c = uc CHR ''.'' \<and> take 2 cs = js ''..'' then
        s\<lparr>sc_rest := drop 2 cs, sc_prev := js ''op''\<rparr>
      else if c = uc CHR ''?'' \<and> take 1 cs = js ''.'' \<and> \<not> (\<exists>d \<in> set (take 1 (drop 1 cs)). isDigit d) then
        s\<lparr>sc_rest := drop 1 cs, sc_prev := js ''.''\<rparr>
      else s\<lparr>sc_prev := [c], sc_rest := cs\<rparr>)"

lemma skipTemplateText_shrinks: "length (fst (skipTemplateText cs tmpl d)) \<le> length cs"
  by (induction cs tmpl d rule: skipTemplateText.induct) auto

lemma afterComment_shrinks: "length (afterComment cs) \<le> length cs"
  by (induction cs rule: afterComment.induct) auto

lemma skipQuoted_shrinks: "length (skipQuoted q cs) \<le> length cs"
  by (induction q cs rule: skipQuoted.induct) auto

lemma scan_step_shrinks: "length (sc_rest (scan_step c cs s)) \<le> length cs"
proof -
  have "length (sc_rest (setTemplate (skipTemplateText cs tmpl d) s')) \<le> length cs" for tmpl d s'
    using skipTemplateText_shrinks [of cs tmpl d] by (cases "skipTemplateText cs tmpl d") (simp add: setTemplate_def)
  moreover have "length (afterComment (drop 1 cs)) \<le> length cs"
    using afterComment_shrinks [of "drop 1 cs"] by simp
  moreover have "isDigit d \<Longrightarrow> isNumPart d" for d by (simp add: isNumPart_def)
  ultimately show ?thesis
    using skipQuoted_shrinks [of c cs]
    by (auto simp: scan_step_def Let_def length_dropWhile_le split: list.splits)
qed

function scan :: "scan_state \<Rightarrow> scan_state" where
  "scan s = (case sc_rest s of [] \<Rightarrow> s | c # cs \<Rightarrow> scan (scan_step c cs s))"
  by pat_completeness auto
termination
  by (relation "measure (\<lambda>s. length (sc_rest s))") (auto simp: less_Suc_eq_le scan_step_shrinks)

declare scan.simps [simp del]

definition referencedIdentifiers :: "jsstr \<Rightarrow> jsstr list" where
  "referencedIdentifiers text =
     sc_out (scan \<lparr>sc_rest = text, sc_tmpl = [], sc_depth = 0, sc_prev = [], sc_out = []\<rparr>)"

definition fencedGlobalIn :: "jsstr set \<Rightarrow> jsstr \<Rightarrow> jsstr option" where
  "fencedGlobalIn fenced text = find (\<lambda>word. word \<in> fenced) (referencedIdentifiers text)"

section \<open>A token-level reading\<close>

text \<open>Source text without template literals, as a list of tokens, and the words such a text
  references according to the documented rule: every word outside strings and comments
  that does not follow a member dot and is not the key of a \<open>name:\<close> entry.\<close>

datatype tok =
    TWord jsstr
  | TNum jsstr
  | TStr "16 word" jsstr       \<comment> \<open>quote and body, escapes included\<close>
  | TLine jsstr                \<comment> \<open>a line comment with its newline\<close>
  | TBlock jsstr
  | TSpace "16 word"
  | TOpen
  | TClose
  | TDot
  | TOptDot
  | TSpread
  | TPunct "16 word"

fun print_tok :: "tok \<Rightarrow> jsstr" where
  "print_tok (TWord w) = w"
| "print_tok (TNum w) = w"
| "print_tok (TStr q b) = q # b @ [q]"
| "print_tok (TLine b) = uc CHR ''/'' # uc CHR ''/'' # b @ [uc CHR 0x0A]"
| "print_tok (TBlock b) = uc CHR ''/'' # uc CHR ''*'' # b @ [uc CHR ''*'', uc CHR ''/'']"
| "print_tok (TSpace c) = [c]"
| "print_tok TOpen = [uc CHR ''{'']"
| "print_tok TClose = [uc CHR ''}'']"
| "print_tok TDot = [uc CHR ''.'']"
| "print_tok TOptDot = [uc CHR ''?'', uc CHR ''.'']"
| "print_tok TSpread = [uc CHR ''.'', uc CHR ''.'', uc CHR ''.'']"
| "print_tok (TPunct c) = [c]"

definition print_toks :: "tok list \<Rightarrow> jsstr" where
  "print_toks ts = concat (map print_tok ts)"

fun quoted_body :: "16 word \<Rightarrow> jsstr \<Rightarrow> bool" where
  "quoted_body q [] = True"
| "quoted_body q (c # cs) =
     (if c = uc CHR 0x5C then (case cs of [] \<Rightarrow> False | d # ds \<Rightarrow> quoted_body q ds)
      else c \<noteq> q \<and> quoted_body q cs)"

fun no_close :: "jsstr \<Rightarrow> bool" where
  "no_close (c # d # cs) \<longleftrightarrow> \<not> (c = uc CHR ''*'' \<and> d = uc CHR ''/'') \<and> no_close (d # cs)"
| "no_close _ \<longleftrightarrow> True"

definition special :: "16 word list" where
  "special = [uc CHR ''/'', uc CHR 0x27, uc CHR 0x22, uc CHR 0x60, uc CHR ''{'', uc CHR ''}'',
     uc CHR ''.'', uc CHR ''?'']"

fun wf_tok :: "tok \<Rightarrow> bool" where
  "wf_tok (TWord w) \<longleftrightarrow> w \<noteq> [] \<and> isStart (hd w) \<and> (\<forall>c \<in> set (tl w). isPart c)"
| "wf_tok (TNum w) \<longleftrightarrow> w \<noteq> [] \<and> isDigit (hd w) \<and> (\<forall>c \<in> set (tl w). isNumPart c)"
| "wf_tok (TStr q b) \<longleftrightarrow> (q = uc CHR 0x27 \<or> q = uc CHR 0x22) \<and> quoted_body q b"
| "wf_tok (TLine b) \<longleftrightarrow> uc CHR 0x0A \<notin> set b"
| "wf_tok (TBlock b) \<longleftrightarrow> no_close b"
| "wf_tok (TSpace c) \<longleftrightarrow> isSpace c"
| "wf_tok (TPunct c) \<longleftrightarrow> c \<notin> set special \<and> \<not> isStart c \<and> \<not> isSpace c \<and> \<not> isDigit c"
| "wf_tok _ \<longleftrightarrow> True"

text \<open>What may follow a token without joining it.\<close>

fun ends_before :: "tok \<Rightarrow> jsstr \<Rightarrow> bool" where
  "ends_before (TWord w) r \<longleftrightarrow> (\<forall>c \<in> set (take 1 r). \<not> isPart c)"
| "ends_before (TNum w) r \<longleftrightarrow> (\<forall>c \<in> set (take 1 r). \<not> isNumPart c)"
| "ends_before TDot r \<longleftrightarrow> take 2 r \<noteq> js ''..''"
| "ends_before TOptDot r \<longleftrightarrow> (\<forall>c \<in> set (take 1 r). \<not> isDigit c)"
| "ends_before _ r \<longleftrightarrow> True"

fun wf_toks :: "tok list \<Rightarrow> bool" where
  "wf_toks [] \<longleftrightarrow> True"
| "wf_toks (t # ts) \<longleftrightarrow> wf_tok t \<and> ends_before t (print_toks ts) \<and> wf_toks ts"

datatype prev = AfterDot | AfterEntryStart | AfterOther

fun prev_of :: "prev \<Rightarrow> tok \<Rightarrow> prev" where
  "prev_of p (TLine _) = p"
| "prev_of p (TBlock _) = p"
| "prev_of p (TSpace _) = p"
| "prev_of p TDot = AfterDot"
| "prev_of p TOptDot = AfterDot"
| "prev_of p TOpen = AfterEntryStart"
| "prev_of p (TPunct c) = (if c = uc CHR '','' then AfterEntryStart else AfterOther)"
| "prev_of p _ = AfterOther"

fun starts_entry :: "tok list \<Rightarrow> bool" where
  "starts_entry (TSpace c # ts) = starts_entry ts"
| "starts_entry (TPunct c # TPunct d # ts) = (c = uc CHR '':'' \<and> d \<noteq> uc CHR '':'')"
| "starts_entry (TPunct c # ts) = (c = uc CHR '':'')"
| "starts_entry ts = False"

fun refs :: "prev \<Rightarrow> tok list \<Rightarrow> jsstr list" where
  "refs p [] = []"
| "refs p (TWord w # ts) =
     (if p = AfterDot \<or> p = AfterEntryStart \<and> starts_entry ts then [] else [w]) @ refs AfterOther ts"
| "refs p (t # ts) = refs (prev_of p t) ts"

definition cls :: "jsstr \<Rightarrow> prev" where
  "cls p = (if p = js ''.'' then AfterDot
            else if p = js ''{'' \<or> p = js '','' then AfterEntryStart else AfterOther)"

lemma skipQuoted_body: "quoted_body q b \<Longrightarrow> q \<noteq> uc CHR 0x5C \<Longrightarrow> skipQuoted q (b @ q # r) = r"
  by (induction q b rule: quoted_body.induct) (auto split: list.splits if_splits)

lemma afterComment_body: "no_close b \<Longrightarrow> afterComment (b @ uc CHR ''*'' # uc CHR ''/'' # r) = r"
  by (induction b rule: no_close.induct) auto

lemma hd_class:
  "isStart c \<Longrightarrow> c \<notin> set special" "isStart c \<Longrightarrow> \<not> isSpace c" "isStart c \<Longrightarrow> \<not> isDigit c"
  "isDigit c \<Longrightarrow> c \<notin> set special" "isDigit c \<Longrightarrow> \<not> isSpace c" "isDigit c \<Longrightarrow> \<not> isStart c"
  "isSpace c \<Longrightarrow> c \<notin> set special" "isSpace c \<Longrightarrow> \<not> isStart c"
  unfolding isStart_def isDigit_def isSpace_def in_range_def special_def
  by (auto; unat_arith)+

abbreviation st :: "jsstr \<Rightarrow> int \<Rightarrow> jsstr \<Rightarrow> jsstr list \<Rightarrow> scan_state" where
  "st r d p out \<equiv> \<lparr>sc_rest = r, sc_tmpl = [], sc_depth = d, sc_prev = p, sc_out = out\<rparr>"

lemma scan_Cons: "scan (st (c # cs) d p out) = scan (scan_step c cs (st (c # cs) d p out))"
  by (subst scan.simps) simp

lemma takeWhile_boundary:
  assumes "\<forall>c \<in> set w. P c" and "\<forall>c \<in> set (take 1 r). \<not> P c"
  shows "takeWhile P (w @ r) = w" and "dropWhile P (w @ r) = r"
  using assms by (cases r; simp)+

lemma scan_word:
  assumes "wf_tok (TWord w)" and "ends_before (TWord w) r"
  shows "scan (st (w @ r) d p out) =
    scan (st r d (js ''w'') (if p \<noteq> js ''.'' \<and> \<not> isKey r p then out @ [w] else out))"
proof -
  obtain c cs where w: "w = c # cs" and c: "isStart c" and cs: "\<forall>c \<in> set cs. isPart c"
    using assms(1) by (cases w) auto
  have "takeWhile isPart (cs @ r) = cs" "dropWhile isPart (cs @ r) = r"
    using takeWhile_boundary [OF cs] assms(2) by simp_all
  with c hd_class(1) [OF c] show ?thesis
    by (simp add: w scan_Cons scan_step_def special_def Let_def)
qed

lemma scan_tok:
  assumes "wf_tok t" and "ends_before t r" and "\<And>w. t \<noteq> TWord w"
  shows "\<exists>d' p'. scan (st (print_tok t @ r) d p out) = scan (st r d' p' out) \<and> cls p' = prev_of (cls p) t"
proof (cases t)
  case (TNum w)
  then obtain c cs where w: "w = c # cs" and c: "isDigit c" and cs: "\<forall>c \<in> set cs. isNumPart c"
    using assms(1) by (cases w) auto
  have "dropWhile isNumPart (cs @ r) = r"
    by (rule takeWhile_boundary(2) [OF cs]) (use assms(2) TNum in simp)
  moreover have "isNumPart c" using c by (simp add: isNumPart_def)
  ultimately have "dropWhile isNumPart (c # cs @ r) = r" by simp
  with c hd_class(4-6) [OF c] TNum show ?thesis
    by (intro exI [of _ d] exI [of _ "js ''n''"])
      (simp add: w scan_Cons scan_step_def special_def cls_def js_def)
next
  case (TStr q b)
  then have "skipQuoted q (b @ q # r) = r" using assms(1) skipQuoted_body by auto
  with TStr assms(1) show ?thesis
    by (intro exI [of _ d] exI [of _ "js ''s''"])
      (auto simp: scan_Cons scan_step_def cls_def js_def)
next
  case (TLine b)
  have "\<forall>c \<in> set b. c \<noteq> uc CHR 0x0A" using assms(1) TLine by auto
  from takeWhile_boundary(2) [OF this, of "uc CHR 0x0A # r"]
  have "dropWhile (\<lambda>c. c \<noteq> uc CHR 0x0A) (b @ uc CHR 0x0A # r) = uc CHR 0x0A # r" by simp
  then show ?thesis using TLine
    by (intro exI [of _ d] exI [of _ p])
      (simp add: scan_Cons scan_step_def js_def isStart_def isSpace_def in_range_def)
next
  case (TBlock b)
  then show ?thesis using assms(1) afterComment_body [of b r]
    by (intro exI [of _ d] exI [of _ p]) (simp add: scan_Cons scan_step_def js_def)
next
  case (TSpace c)
  then show ?thesis using assms(1) hd_class(7,8) [of c]
    by (intro exI [of _ d] exI [of _ p]) (simp add: scan_Cons scan_step_def special_def)
next
  case TOpen
  then show ?thesis
    by (intro exI [of _ "d + 1"] exI [of _ "js ''{''"]) (simp add: scan_Cons scan_step_def js_def cls_def)
next
  case TClose
  then show ?thesis
    by (intro exI [of _ "d - 1"] exI [of _ "js ''}''"])
      (simp add: scan_Cons scan_step_def js_def cls_def Let_def)
next
  case TDot
  then show ?thesis using assms(2)
    by (intro exI [of _ d] exI [of _ "js ''.''"])
      (simp add: scan_Cons scan_step_def js_def cls_def isStart_def isSpace_def isDigit_def in_range_def)
next
  case TOptDot
  then show ?thesis using assms(2)
    by (intro exI [of _ d] exI [of _ "js ''.''"])
      (simp add: scan_Cons scan_step_def js_def cls_def isStart_def isSpace_def isDigit_def in_range_def)
next
  case TSpread
  then show ?thesis
    by (intro exI [of _ d] exI [of _ "js ''op''"])
      (simp add: scan_Cons scan_step_def js_def cls_def isStart_def isSpace_def isDigit_def in_range_def)
next
  case (TPunct c)
  then show ?thesis using assms(1)
    by (intro exI [of _ d] exI [of _ "[c]"])
      (auto simp: scan_Cons scan_step_def js_def cls_def special_def)
qed (use assms(3) in simp)

lemma print_first:
  assumes "wf_tok t" "\<And>c. t \<noteq> TSpace c" "\<And>c. t \<noteq> TPunct c"
  shows "\<exists>c cs. print_tok t = c # cs \<and> \<not> isSpace c \<and> c \<noteq> uc CHR '':''"
  using assms
proof (cases t)
  case (TWord w)
  with assms(1) hd_class(2) show ?thesis by (cases w) (auto simp: isStart_def in_range_def)
next
  case (TNum w)
  with assms(1) hd_class(5) show ?thesis by (cases w) (auto simp: isDigit_def in_range_def)
qed (auto simp: isSpace_def)

lemma starts_entry_nopunct:
  "(\<And>c. t \<noteq> TSpace c) \<Longrightarrow> (\<And>c. t \<noteq> TPunct c) \<Longrightarrow> \<not> starts_entry (t # ts)"
  by (cases t) auto

definition entry_text :: "jsstr \<Rightarrow> bool" where
  "entry_text r \<longleftrightarrow> (let k = dropWhile isSpace r in take 1 k = js '':'' \<and> take 1 (drop 1 k) \<noteq> js '':'')"

lemma entry_text_toks: "wf_toks ts \<Longrightarrow> entry_text (print_toks ts) = starts_entry ts"
proof (induction ts)
  case Nil
  show ?case by (simp add: entry_text_def print_toks_def js_def)
next
  case (Cons t ts)
  consider c where "t = TSpace c" | c where "t = TPunct c" | "\<And>c. t \<noteq> TSpace c" "\<And>c. t \<noteq> TPunct c"
    by (cases t) auto
  then show ?case
  proof cases
    case (1 c)
    with Cons show ?thesis by (simp add: entry_text_def print_toks_def)
  next
    case (2 c)
    then have "\<not> isSpace c" using Cons.prems by simp
    then have c: "entry_text (print_toks (t # ts)) \<longleftrightarrow> c = uc CHR '':'' \<and> take 1 (print_toks ts) \<noteq> js '':''"
      using 2 by (simp add: entry_text_def print_toks_def js_def)
    show ?thesis
    proof (cases ts)
      case (Cons u us)
      consider e where "u = TPunct e" | e where "u = TSpace e" | "\<And>e. u \<noteq> TSpace e" "\<And>e. u \<noteq> TPunct e"
        by (cases u) auto
      then have "take 1 (print_toks ts) \<noteq> js '':'' \<longleftrightarrow> (\<forall>e. u = TPunct e \<longrightarrow> e \<noteq> uc CHR '':'')"
      proof cases
        case 3
        then obtain f fs where "print_tok u = f # fs" "f \<noteq> uc CHR '':''"
          using print_first [of u] Cons.prems \<open>wf_toks (t # ts)\<close> Cons by auto
        with 3 Cons show ?thesis by (simp add: print_toks_def js_def)
      qed (use \<open>wf_toks (t # ts)\<close> Cons in \<open>auto simp: print_toks_def js_def isSpace_def\<close>)
      then show ?thesis using c 2 Cons by (cases u) auto
    qed (use c 2 in \<open>simp add: print_toks_def js_def\<close>)
  next
    case 3
    then obtain f fs where "print_tok t = f # fs" "\<not> isSpace f" "f \<noteq> uc CHR '':''"
      using print_first [of t] Cons.prems by auto
    then have "\<not> entry_text (print_toks (t # ts))"
      by (simp add: entry_text_def print_toks_def js_def)
    with starts_entry_nopunct [OF 3] show ?thesis by simp
  qed
qed

lemma scan_toks: "wf_toks ts \<Longrightarrow> sc_out (scan (st (print_toks ts) d p out)) = out @ refs (cls p) ts"
proof (induction ts arbitrary: d p out)
  case Nil
  show ?case by (subst scan.simps) (simp add: print_toks_def)
next
  case (Cons t ts)
  have split: "print_toks (u # ts) = print_tok u @ print_toks ts" for u by (simp add: print_toks_def)
  show ?case
  proof (cases "\<exists>w. t = TWord w")
    case True
    then obtain w where t: "t = TWord w" by blast
    have key: "isKey (print_toks ts) p \<longleftrightarrow> cls p = AfterEntryStart \<and> starts_entry ts"
      using entry_text_toks [of ts] Cons.prems
      by (auto simp: isKey_def entry_text_def Let_def cls_def js_def)
    have dot: "p = js ''.'' \<longleftrightarrow> cls p = AfterDot" by (simp add: cls_def)
    have "scan (st (print_toks (t # ts)) d p out) =
        scan (st (print_toks ts) d (js ''w'')
          (if p \<noteq> js ''.'' \<and> \<not> isKey (print_toks ts) p then out @ [w] else out))"
      using scan_word [of w "print_toks ts" d p out] Cons.prems t by (simp add: split)
    moreover have "cls (js ''w'') = AfterOther" by (simp add: cls_def js_def)
    ultimately show ?thesis using Cons.IH Cons.prems by (auto simp: t key dot)
  next
    case False
    then obtain d' p' where "scan (st (print_toks (t # ts)) d p out) = scan (st (print_toks ts) d' p' out)"
      and "cls p' = prev_of (cls p) t"
      using scan_tok [of t "print_toks ts" d p out] Cons.prems split by auto
    moreover have "refs (cls p) (t # ts) = refs (prev_of (cls p) t) ts"
      using False by (cases t) auto
    ultimately show ?thesis using Cons.IH Cons.prems by simp
  qed
qed

section \<open>Properties\<close>

text \<open>C24. The scanner implements its documented rule. On every text made of words, numbers,
  string literals, comments, white space, braces, dots, optional dots, spreads and other
  punctuation (all but template literals and regular-expression slashes), it reports
  exactly the words in reference position, in order: none from strings or comments, no
  property name after a dot, no \<open>name:\<close> key, and every other word.\<close>

theorem referencedIdentifiers_tokens:
  assumes "wf_toks ts"
  shows "referencedIdentifiers (print_toks ts) = refs AfterOther ts"
  unfolding referencedIdentifiers_def using scan_toks [OF assms, of 0 "[]" "[]"]
  by (simp add: cls_def js_def)

theorem referencedIdentifiers_tokens_witness:
  "referencedIdentifiers (js ''{a: b.c, ...d} // e'' @ [10]) = [js ''b'', js ''d'']"
proof -
  let ?ts = "[TOpen, TWord (js ''a''), TPunct (uc CHR '':''), TSpace (uc CHR '' ''), TWord (js ''b''), TDot,
     TWord (js ''c''), TPunct (uc CHR '',''), TSpace (uc CHR '' ''), TSpread, TWord (js ''d''), TClose,
     TSpace (uc CHR '' ''), TLine (js '' e'')]"
  have "wf_toks ?ts"
    by (simp add: print_toks_def js_def special_def isStart_def isPart_def isDigit_def isSpace_def in_range_def)
  from referencedIdentifiers_tokens [OF this] show ?thesis by (simp add: print_toks_def js_def)
qed

text \<open>The fence is exact on the scanner's report: it names a word just when a reported
  word is fenced, the word it names is the first such, and so a text passes the fence
  exactly when none of its reported words is fenced.\<close>

theorem fencedGlobalIn_first:
  "case fencedGlobalIn fenced text of
     None \<Rightarrow> set (referencedIdentifiers text) \<inter> fenced = {}
   | Some w \<Rightarrow> w \<in> fenced \<and>
       (\<exists>us vs. referencedIdentifiers text = us @ w # vs \<and> set us \<inter> fenced = {})"
proof (cases "fencedGlobalIn fenced text")
  case None
  then have "set (referencedIdentifiers text) \<inter> fenced = {}"
    by (auto simp: fencedGlobalIn_def find_None_iff)
  then show ?thesis unfolding None option.case .
next
  case (Some w)
  then obtain i where i: "i < length (referencedIdentifiers text)" "referencedIdentifiers text ! i = w"
    "w \<in> fenced" "\<And>j. j < i \<Longrightarrow> referencedIdentifiers text ! j \<notin> fenced"
    by (auto simp: fencedGlobalIn_def find_Some_iff)
  then have "referencedIdentifiers text =
      take i (referencedIdentifiers text) @ w # drop (Suc i) (referencedIdentifiers text)"
    by (metis id_take_nth_drop)
  moreover have "set (take i (referencedIdentifiers text)) \<inter> fenced = {}"
    using i by (auto simp: in_set_conv_nth)
  ultimately show ?thesis unfolding Some option.case using i(3) by blast
qed

end
