(* ===== verification/Js_Number.thy ===== *)
theory Js_Number
  imports Complex_Main Js_Prelude
begin

text \<open>
  JavaScript numbers as the integer-boundary inference (library/int-infer.ts) computes with
  them: IEEE-754 binary64 values with a NaN, two infinities and two zeros, rounding to
  nearest with ties to even, comparison, the arithmetic and bitwise operators and the
  \<open>Math\<close> functions of ECMAScript. A finite number is its rational value; \<open>rep\<close> tells the
  rationals binary64 can represent. The theory proves the facts the interval analysis
  rests on: rounding is monotone, keeps representable numbers and keeps integers integral.
\<close>

section \<open>The extended rationals\<close>

datatype ext = NInf | Q rat | PInf

instantiation ext :: linorder
begin

fun less_eq_ext :: "ext \<Rightarrow> ext \<Rightarrow> bool" where
  "less_eq_ext NInf _ = True"
| "less_eq_ext _ NInf = False"
| "less_eq_ext _ PInf = True"
| "less_eq_ext PInf _ = False"
| "less_eq_ext (Q a) (Q b) = (a \<le> b)"

definition less_ext :: "ext \<Rightarrow> ext \<Rightarrow> bool" where
  "less_ext a b = (\<not> b \<le> a)"

instance
proof
  fix a b c :: ext
  show "(a < b) = (a \<le> b \<and> \<not> b \<le> a)" by (cases a; cases b) (auto simp: less_ext_def)
  show "a \<le> a" by (cases a) auto
  show "a \<le> b \<Longrightarrow> b \<le> c \<Longrightarrow> a \<le> c" by (cases a; cases b; cases c) auto
  show "a \<le> b \<Longrightarrow> b \<le> a \<Longrightarrow> a = b" by (cases a; cases b) auto
  show "a \<le> b \<or> b \<le> a" by (cases a; cases b) auto
qed

end

lemma ext_less_simps [simp]:
  "Q a < Q b \<longleftrightarrow> a < b" "Q a < PInf" "NInf < Q a" "NInf < PInf"
  "\<not> PInf < c" "\<not> c < NInf"
  by (auto simp: less_ext_def) (cases c; simp)

lemma ext_le_simps [simp]: "a \<le> PInf" "PInf \<le> a \<longleftrightarrow> a = PInf" "a \<le> NInf \<longleftrightarrow> a = NInf"
  by (cases a; simp)+

section \<open>Rounding to nearest, ties to even\<close>

text \<open>The number of bits of a natural, and from it the exponent of the leading bit of a
  positive rational.\<close>

fun bitlen :: "nat \<Rightarrow> nat" where
  "bitlen n = (if n = 0 then 0 else Suc (bitlen (n div 2)))"

declare bitlen.simps [simp del]

definition ilog2 :: "rat \<Rightarrow> int" where
  "ilog2 x = (if 1 \<le> x then int (bitlen (nat \<lfloor>x\<rfloor>)) - 1
              else - int (bitlen (nat (\<lceil>1 / x\<rceil> - 1))))"

definition rne :: "rat \<Rightarrow> int" where
  "rne x = (let f = \<lfloor>x\<rfloor>; d = x - of_int f in
     if d < 1 / 2 then f else if 1 / 2 < d then f + 1 else if even f then f else f + 1)"

text \<open>The exponent of the last place: 52 bits below the leading bit, but never below the
  exponent of the subnormals.\<close>

definition ulpExp :: "rat \<Rightarrow> int" where
  "ulpExp x = max (ilog2 \<bar>x\<bar> - 52) (- 1074)"

definition quantize :: "rat \<Rightarrow> rat" where
  "quantize x = (if x = 0 then 0 else of_int (rne (x / 2 powi ulpExp x)) * 2 powi ulpExp x)"

text \<open>The extended rational nearest to \<open>x\<close>: overflow goes to the infinity of its sign.\<close>

definition rndE :: "rat \<Rightarrow> ext" where
  "rndE x = (let y = quantize x in
     if 2 ^ 1024 \<le> y then PInf else if y \<le> - (2 ^ 1024) then NInf else Q y)"

text \<open>The representable finite numbers are those that rounding keeps.\<close>

definition rep :: "rat \<Rightarrow> bool" where
  "rep x \<longleftrightarrow> rndE x = Q x"

lemma bitlen_bounds: "0 < n \<Longrightarrow> 2 ^ (bitlen n - 1) \<le> n \<and> n < 2 ^ bitlen n"
proof (induction n rule: bitlen.induct)
  case (1 n)
  show ?case
  proof (cases "n div 2 = 0")
    case True
    with "1.prems" have "n = 1" by auto
    then show ?thesis by (simp add: bitlen.simps)
  next
    case False
    with 1 have IH: "2 ^ (bitlen (n div 2) - 1) \<le> n div 2" "n div 2 < 2 ^ bitlen (n div 2)" by auto
    obtain m where m: "bitlen (n div 2) = Suc m" using False by (simp add: bitlen.simps [of "n div 2"])
    have "bitlen n = Suc (Suc m)" using m "1.prems" by (simp add: bitlen.simps [of n])
    with IH m show ?thesis by auto
  qed
qed

lemma pow2_le_rat: "2 ^ k \<le> n \<Longrightarrow> (2::rat) ^ k \<le> of_nat n"
  by (metis of_nat_mono of_nat_numeral of_nat_power)

lemma rat_less_pow2: "n < 2 ^ k \<Longrightarrow> rat_of_nat n + 1 \<le> 2 ^ k"
  using of_nat_mono [of "Suc n" "2 ^ k", where 'a = rat] by (simp add: add.commute)

lemma ilog2_ge1: assumes "1 \<le> x" shows "2 powi ilog2 x \<le> x \<and> x < 2 powi (ilog2 x + 1)"
proof -
  define n where "n = nat \<lfloor>x\<rfloor>"
  have n: "0 < n" "rat_of_nat n \<le> x" "x < rat_of_nat n + 1"
    using assms by (auto simp: n_def) linarith+
  obtain k where k: "bitlen n = Suc k" using n(1) by (simp add: bitlen.simps [of n])
  have b: "(2::rat) ^ k \<le> of_nat n" "rat_of_nat n + 1 \<le> 2 ^ Suc k"
    using bitlen_bounds [OF n(1)] k pow2_le_rat rat_less_pow2 by (simp_all del: power_Suc)
  have l: "ilog2 x = int k" "ilog2 x + 1 = int (Suc k)"
    using assms k by (simp_all add: ilog2_def n_def)
  show ?thesis unfolding l(2) unfolding l(1) power_int_of_nat using b n by linarith
qed

lemma ilog2_lt1: assumes "0 < x" "x < 1" shows "2 powi ilog2 x \<le> x \<and> x < 2 powi (ilog2 x + 1)"
proof -
  define c where "c = nat (\<lceil>1 / x\<rceil> - 1)"
  have i: "1 < 1 / x" using assms by simp
  then have c: "rat_of_nat c < 1 / x" "1 / x \<le> rat_of_nat c + 1" "0 < c"
    unfolding c_def by linarith+
  obtain k where k: "bitlen c = Suc k" using c(3) by (simp add: bitlen.simps [of c])
  have b: "(2::rat) ^ k \<le> of_nat c" "rat_of_nat c + 1 \<le> 2 ^ Suc k"
    using bitlen_bounds [OF c(3)] k pow2_le_rat rat_less_pow2 by (simp_all del: power_Suc)
  have l: "ilog2 x = - int (Suc k)" "ilog2 x + 1 = - int k" using assms k by (auto simp: ilog2_def c_def)
  have "2 ^ k < 1 / x" "1 / x \<le> 2 ^ Suc k" using b c by linarith+
  moreover have "2 powi (- int m) = 1 / (2::rat) ^ m" for m by (simp add: power_int_minus_divide)
  then have e: "2 powi ilog2 x = 1 / (2::rat) ^ Suc k" "2 powi (ilog2 x + 1) = 1 / (2::rat) ^ k"
    by (simp only: l(1), simp only: l(2))
  ultimately show ?thesis unfolding e using assms by (simp add: field_simps)
qed

lemma ilog2_bounds: "0 < x \<Longrightarrow> 2 powi ilog2 x \<le> x \<and> x < 2 powi (ilog2 x + 1)"
  using ilog2_ge1 ilog2_lt1 by (metis not_le)

lemma powi2_mono_iff: "(2::rat) powi m \<le> 2 powi n \<longleftrightarrow> m \<le> n"
  using power_int_increasing [of m n "2::rat"] power_int_strict_increasing [of n m "2::rat"]
  by (metis less_le_not_le linorder_le_less_linear one_le_numeral one_less_numeral_iff semiring_norm(76))

lemma ilog2_mono: assumes "0 < x" "x \<le> y" shows "ilog2 x \<le> ilog2 y"
proof (rule ccontr)
  assume "\<not> ilog2 x \<le> ilog2 y"
  then have "(2::rat) powi (ilog2 y + 1) \<le> 2 powi ilog2 x" by (simp add: powi2_mono_iff)
  with ilog2_bounds [of x] ilog2_bounds [of y] assms show False by linarith
qed

lemma rne_bounds: "of_int (rne x) - 1 / 2 \<le> x" "x \<le> of_int (rne x) + 1 / 2"
  unfolding rne_def Let_def by (auto simp: field_simps) linarith+

lemma rne_int [simp]: "rne (of_int n) = n"
  by (simp add: rne_def)

lemma rne_mono: assumes "x \<le> y" shows "rne x \<le> rne y"
proof (rule ccontr)
  assume "\<not> rne x \<le> rne y"
  then have g: "rne y + 1 \<le> rne x" by simp
  have "rat_of_int (rne y + 1) \<le> of_int (rne x)" using g by (simp only: of_int_le_iff)
  then have h: "x = y" "x = of_int (rne x) - 1 / 2"
    using assms rne_bounds [of x] rne_bounds [of y] by (auto simp: field_simps)
  with g show False by simp
qed

lemma rne_minus: "rne (- x) = - rne x"
proof -
  have f: "\<lfloor>- x\<rfloor> = (if of_int \<lfloor>x\<rfloor> = x then - \<lfloor>x\<rfloor> else - \<lfloor>x\<rfloor> - 1)"
    by (auto simp: floor_minus ceiling_altdef)
  show ?thesis by (cases "of_int \<lfloor>x\<rfloor> = x") (auto simp: rne_def Let_def f)
qed

lemma ulpExp_minus [simp]: "ulpExp (- x) = ulpExp x"
  by (simp add: ulpExp_def)

lemma quantize_minus [simp]: "quantize (- x) = - quantize x"
  by (simp add: quantize_def rne_minus)

lemma ulpExp_mono: "0 < x \<Longrightarrow> x \<le> y \<Longrightarrow> ulpExp x \<le> ulpExp y"
  using ilog2_mono [of x y] by (auto simp: ulpExp_def)

text \<open>A number never rounds past a power of two at or above its exponent, on either side.\<close>

lemma quantize_upper: assumes "0 < x" "x \<le> 2 powi n" "ulpExp x \<le> n" shows "quantize x \<le> 2 powi n"
proof -
  define e where "e = ulpExp x"
  have p: "(2::rat) powi e > 0" by simp
  have q: "(2::rat) powi n = 2 powi (n - e) * 2 powi e" by (simp flip: power_int_add)
  have i: "(2::rat) powi (n - e) = of_int (2 ^ nat (n - e))"
    using assms(3) by (simp add: e_def power_int_def)
  have "x / 2 powi e \<le> of_int (2 ^ nat (n - e))"
    using assms(2) p by (simp add: q i [symmetric] pos_le_divide_eq pos_divide_le_eq del: of_int_power)
  then have "rne (x / 2 powi e) \<le> 2 ^ nat (n - e)" using rne_mono rne_int by metis
  then have "of_int (rne (x / 2 powi e)) \<le> (2::rat) powi (n - e)"
    unfolding i by (simp only: of_int_le_iff)
  then show ?thesis using assms(1) p by (simp add: quantize_def e_def [symmetric] q)
qed

lemma quantize_lower: assumes "2 powi n \<le> x" "ulpExp x \<le> n" shows "2 powi n \<le> quantize x"
proof -
  define e where "e = ulpExp x"
  have p: "(2::rat) powi e > 0" by simp
  have x: "0 < x" using assms(1) less_le_trans [of 0 "(2::rat) powi n" x] by simp
  have q: "(2::rat) powi n = 2 powi (n - e) * 2 powi e" by (simp flip: power_int_add)
  have i: "(2::rat) powi (n - e) = of_int (2 ^ nat (n - e))"
    using assms(2) by (simp add: e_def power_int_def)
  have "of_int (2 ^ nat (n - e)) \<le> x / 2 powi e"
    using assms(1) p by (simp add: q i [symmetric] pos_le_divide_eq pos_divide_le_eq del: of_int_power)
  then have "2 ^ nat (n - e) \<le> rne (x / 2 powi e)" using rne_mono rne_int by metis
  then have "(2::rat) powi (n - e) \<le> of_int (rne (x / 2 powi e))"
    unfolding i by (simp only: of_int_le_iff)
  then show ?thesis using x p by (simp add: quantize_def e_def [symmetric] q)
qed

lemma quantize_mono_pos: assumes "0 < x" "x \<le> y" shows "quantize x \<le> quantize y"
proof (cases "ulpExp x = ulpExp y")
  case True
  have "x / 2 powi ulpExp y \<le> y / 2 powi ulpExp y" using assms by (simp add: divide_right_mono)
  then have "rne (x / 2 powi ulpExp y) \<le> rne (y / 2 powi ulpExp y)" by (rule rne_mono)
  then show ?thesis using assms True by (auto simp: quantize_def)
next
  case False
  then have l: "ulpExp x < ulpExp y" using ulpExp_mono [OF assms] by simp
  have y: "0 < y" using assms by simp
  let ?n = "ilog2 y"
  have u: "ulpExp y \<le> ?n" "ilog2 x < ?n"
    using l assms y by (auto simp: ulpExp_def)
  have "x < 2 powi (ilog2 x + 1)" using ilog2_bounds [OF assms(1)] by simp
  also have "\<dots> \<le> 2 powi ?n" using u(2) by (simp add: powi2_mono_iff)
  finally have "quantize x \<le> 2 powi ?n" using quantize_upper [OF assms(1)] l u(1) by simp
  also have "\<dots> \<le> quantize y" using quantize_lower [of ?n y] ilog2_bounds [OF y] u(1) by simp
  finally show ?thesis .
qed

lemma quantize_nonneg: "0 < x \<Longrightarrow> 0 \<le> quantize x"
  using rne_mono [of 0 "x / 2 powi ulpExp x"] rne_int [of 0] by (simp add: quantize_def)

lemma quantize_mono: assumes "x \<le> y" shows "quantize x \<le> quantize y"
proof -
  consider "0 < x" | "y < 0" | "x \<le> 0" "0 \<le> y" by linarith
  then show ?thesis
  proof cases
    case 1 then show ?thesis using quantize_mono_pos assms by simp
  next
    case 2 then show ?thesis using quantize_mono_pos [of "- y" "- x"] assms by simp
  next
    case 3
    have "0 \<le> quantize y" using 3 quantize_nonneg [of y] by (cases "y = 0") (auto simp: quantize_def)
    moreover have "quantize x \<le> 0"
      using 3 quantize_nonneg [of "- x"] by (cases "x = 0") (auto simp: quantize_def [of 0])
    ultimately show ?thesis by simp
  qed
qed

lemma rndE_mono: "x \<le> y \<Longrightarrow> rndE x \<le> rndE y"
  using quantize_mono [of x y] by (auto simp: rndE_def Let_def)

text \<open>Integers stay integral, and up to \<open>2 ^ 53\<close> they stay themselves.\<close>

lemma ulpExp_int: assumes "ulpExp (of_int x) \<le> 0" shows "quantize (of_int x) = of_int x"
proof -
  define e where "e = ulpExp (of_int x)"
  have p: "(2::rat) powi e = 1 / 2 ^ nat (- e)"
    using assms power_int_minus_divide [of "2::rat" "- e"] power_int_nonneg_exp [of "- e" "2::rat"]
    by (simp add: e_def)
  have i: "rat_of_int x / 2 powi e = of_int (x * 2 ^ nat (- e))" unfolding p by simp
  have "rne (rat_of_int x / 2 powi e) = x * 2 ^ nat (- e)" unfolding i by (rule rne_int)
  then show ?thesis using p by (simp add: quantize_def flip: e_def)
qed

lemma quantize_Ints: assumes "x \<in> \<int>" shows "quantize x \<in> \<int>"
proof -
  obtain n where n: "x = of_int n" using assms Ints_cases by blast
  show ?thesis
  proof (cases "n = 0 \<or> ulpExp x \<le> 0")
    case True
    then show ?thesis using n ulpExp_int [of n] by (cases "n = 0") (auto simp: quantize_def [of 0])
  next
    case False
    then show ?thesis by (simp add: quantize_def power_int_def n)
  qed
qed

lemma rndE_Ints: "x \<in> \<int> \<Longrightarrow> rndE x = Q y \<Longrightarrow> y \<in> \<int>"
  using quantize_Ints by (auto simp: rndE_def Let_def split: if_splits)

lemma quantize_small_int: assumes "\<bar>n\<bar> < 2 ^ 53" shows "quantize (of_int n) = of_int n"
proof (cases "n = 0")
  case False
  have "rat_of_int \<bar>n\<bar> < of_int (2 ^ 53)" using assms by (simp only: of_int_less_iff)
  then have l: "\<bar>rat_of_int n\<bar> < 2 powi 53" by simp
  have "2 powi ilog2 \<bar>rat_of_int n\<bar> \<le> \<bar>rat_of_int n\<bar>" using ilog2_bounds [of "\<bar>rat_of_int n\<bar>"] False by simp
  with l have "(2::rat) powi ilog2 \<bar>rat_of_int n\<bar> < 2 powi 53" by (rule le_less_trans [rotated])
  then have "\<not> 53 \<le> ilog2 \<bar>rat_of_int n\<bar>" using powi2_mono_iff [of 53] by (metis not_le)
  then show ?thesis using ulpExp_int [of n] False by (simp add: ulpExp_def)
qed (simp add: quantize_def)

lemma rndE_small_int: assumes "\<bar>n\<bar> < 2 ^ 53" shows "rndE (of_int n) = Q (of_int n)"
proof -
  have "\<bar>rat_of_int n\<bar> < 2 ^ 53"
    using assms by (metis of_int_abs of_int_less_iff of_int_numeral of_int_power)
  then show ?thesis using quantize_small_int [OF assms] by (auto simp: rndE_def Let_def)
qed

lemma rndE_small_numeral [simp]:
  "(numeral k :: int) < 2 ^ 53 \<Longrightarrow> rndE (numeral k) = Q (numeral k)"
  "(numeral k :: int) < 2 ^ 53 \<Longrightarrow> rndE (- numeral k) = Q (- numeral k)"
  "rndE 0 = Q 0" "rndE 1 = Q 1" "rndE (- 1) = Q (- 1)"
  using rndE_small_int [of "numeral k"] rndE_small_int [of "- numeral k"]
    rndE_small_int [of 0] rndE_small_int [of 1] rndE_small_int [of "- 1"] by simp_all

lemma rep_mono: "rep x \<Longrightarrow> x \<le> y \<Longrightarrow> Q x \<le> rndE y" "rep x \<Longrightarrow> y \<le> x \<Longrightarrow> rndE y \<le> Q x"
  using rndE_mono unfolding rep_def by metis+

text \<open>The representable numbers are the multiples of a power of two, not below the exponent of
  the subnormals, with a significand of 53 bits. So rounding is idempotent.\<close>

lemma ilog2_less: assumes "0 < x" "x < 2 powi n" shows "ilog2 x < n"
proof (rule ccontr)
  assume "\<not> ilog2 x < n"
  then have "(2::rat) powi n \<le> 2 powi ilog2 x" by (simp add: powi2_mono_iff)
  with ilog2_bounds [OF assms(1)] assms(2) show False by linarith
qed

lemma quantize_multiple: assumes "ulpExp y \<le> e" "y = of_int m * 2 powi e" shows "quantize y = y"
proof -
  define d where "d = ulpExp y"
  have "(2::rat) powi e = 2 powi (e - d) * 2 powi d" by (simp flip: power_int_add)
  moreover have "(2::rat) powi (e - d) = of_int (2 ^ nat (e - d))"
    using assms(1) by (simp add: power_int_nonneg_exp d_def)
  ultimately have i: "y / 2 powi d = of_int (m * 2 ^ nat (e - d))" unfolding assms(2) by simp
  then have "rne (y / 2 powi d) = m * 2 ^ nat (e - d)" by (simp only: rne_int)
  then have "of_int (rne (y / 2 powi d)) = y / 2 powi d" using i by simp
  then show ?thesis by (simp add: quantize_def d_def)
qed

lemma quantize_fix:
  assumes "y = of_int m * 2 powi e" "\<bar>m\<bar> \<le> 2 ^ 53" "- 1074 \<le> e"
  shows "quantize y = y"
proof -
  have p: "(2::rat) powi e > 0" by simp
  have ay: "\<bar>y\<bar> = of_int \<bar>m\<bar> * 2 powi e" using assms(1) p by (simp add: abs_mult)
  consider "m = 0" | "m \<noteq> 0" "\<bar>m\<bar> < 2 ^ 53" | "\<bar>m\<bar> = 2 ^ 53" using assms(2) by linarith
  then show ?thesis
  proof cases
    case 1 then show ?thesis using assms(1) by (simp add: quantize_def)
  next
    case 2
    have "rat_of_int \<bar>m\<bar> < of_int (2 ^ 53)" using 2(2) by (simp only: of_int_less_iff)
    then have "\<bar>y\<bar> < 2 powi 53 * 2 powi e" unfolding ay using p by simp
    then have "\<bar>y\<bar> < 2 powi (53 + e)" by (simp add: power_int_add)
    then have "ilog2 \<bar>y\<bar> < 53 + e" using ilog2_less 2(1) assms(1) by simp
    then have "ulpExp y \<le> e" using assms(3) by (simp add: ulpExp_def)
    then show ?thesis using quantize_multiple assms(1) by blast
  next
    case 3
    have "rat_of_int \<bar>m\<bar> = 2 powi 53" using 3 by (metis of_int_numeral of_int_power power_int_numeral)
    then have "\<bar>y\<bar> = 2 powi (53 + e)" unfolding ay by (simp add: power_int_add)
    then have "ilog2 \<bar>y\<bar> < 54 + e" using ilog2_less [of "\<bar>y\<bar>" "54 + e"] power_int_strict_increasing [of "53 + e" "54 + e" "2::rat"] by simp
    then have u: "ulpExp y \<le> e + 1" using assms(3) by (simp add: ulpExp_def)
    have "m = 2 ^ 53 \<or> m = - (2 ^ 53)" using 3 by linarith
    then have "m = 2 * (m div 2)" by (elim disjE) simp_all
    then have "rat_of_int m = of_int (m div 2) * 2" by (metis of_int_mult of_int_numeral mult.commute)
    then have "y = of_int (m div 2) * 2 powi (e + 1)"
      using assms(1) by (simp add: power_int_add)
    then show ?thesis using quantize_multiple u by blast
  qed
qed

lemma quantize_form:
  obtains m e where "quantize x = of_int m * 2 powi e" "\<bar>m\<bar> \<le> 2 ^ 53" "- 1074 \<le> e"
proof (cases "x = 0")
  case False
  let ?e = "ulpExp x"
  have "\<bar>x\<bar> < 2 powi (ilog2 \<bar>x\<bar> + 1)" using ilog2_bounds [of "\<bar>x\<bar>"] False by simp
  also have "\<dots> \<le> 2 powi (53 + ?e)" by (simp add: powi2_mono_iff ulpExp_def)
  finally have "\<bar>x / 2 powi ?e\<bar> \<le> of_int (2 ^ 53)" by (simp add: power_int_add field_simps)
  then have "x / 2 powi ?e \<le> of_int (2 ^ 53)" "of_int (- (2 ^ 53)) \<le> x / 2 powi ?e" by linarith+
  then have "rne (x / 2 powi ?e) \<le> 2 ^ 53" "- (2 ^ 53) \<le> rne (x / 2 powi ?e)"
    using rne_mono rne_int by metis+
  then show ?thesis using that [of "rne (x / 2 powi ?e)" ?e] False by (simp add: quantize_def ulpExp_def)
qed (use that [of 0 0] in \<open>simp add: quantize_def\<close>)

lemma rep_iff: "rep q \<longleftrightarrow> quantize q = q \<and> \<bar>q\<bar> < 2 ^ 1024"
  by (auto simp: rep_def rndE_def Let_def abs_less_iff split: if_splits)

lemma rep_form: assumes "rep q" obtains m e where "q = of_int m * 2 powi e" "\<bar>m\<bar> \<le> 2 ^ 53" "- 1074 \<le> e"
  using assms quantize_form [of q] by (metis rep_iff)

lemma rep_formI: "q = of_int m * 2 powi e \<Longrightarrow> \<bar>m\<bar> \<le> 2 ^ 53 \<Longrightarrow> - 1074 \<le> e \<Longrightarrow> \<bar>q\<bar> < 2 ^ 1024 \<Longrightarrow> rep q"
  using quantize_fix by (simp add: rep_iff)

lemma rep_0 [simp]: "rep 0"
  by (simp add: rep_def)

lemma rep_minus [simp]: "rep (- q) = rep q"
  by (simp add: rep_iff)

lemma rep_abs [simp]: "rep \<bar>q\<bar> = rep q"
  by (simp add: abs_if)

lemma rndE_rep: assumes "rndE x = Q y" shows "rep y"
proof -
  have y: "y = quantize x" "\<bar>quantize x\<bar> < 2 ^ 1024"
    using assms by (auto simp: rndE_def Let_def abs_less_iff split: if_splits)
  then show ?thesis using quantize_form [of x] rep_formI by metis
qed

lemma rep_small_int: "\<bar>n\<bar> < 2 ^ 53 \<Longrightarrow> rep (of_int n)"
  by (simp add: rep_def rndE_small_int)

section \<open>Numbers and comparisons\<close>

datatype jsdouble = NaN | NegZero | Num ext

abbreviation fin :: "rat \<Rightarrow> jsdouble" where
  "fin q \<equiv> Num (Q q)"

abbreviation Infinity :: jsdouble where
  "Infinity \<equiv> Num PInf"

abbreviation NegInfinity :: jsdouble where
  "NegInfinity \<equiv> Num NInf"

text \<open>The mathematical value; the two zeros share it, and NaN has none (the first equation is
  never relied on).\<close>

fun ev :: "jsdouble \<Rightarrow> ext" where
  "ev NaN = NInf"
| "ev NegZero = Q 0"
| "ev (Num e) = e"

definition fle :: "jsdouble \<Rightarrow> jsdouble \<Rightarrow> bool" where
  "fle x y \<longleftrightarrow> x \<noteq> NaN \<and> y \<noteq> NaN \<and> ev x \<le> ev y"

definition flt :: "jsdouble \<Rightarrow> jsdouble \<Rightarrow> bool" where
  "flt x y \<longleftrightarrow> x \<noteq> NaN \<and> y \<noteq> NaN \<and> ev x < ev y"

definition feq :: "jsdouble \<Rightarrow> jsdouble \<Rightarrow> bool" where
  "feq x y \<longleftrightarrow> x \<noteq> NaN \<and> y \<noteq> NaN \<and> ev x = ev y"

definition is_finite :: "jsdouble \<Rightarrow> bool" where
  "is_finite x \<longleftrightarrow> x \<noteq> NaN \<and> x \<noteq> Infinity \<and> x \<noteq> NegInfinity"

fun is_integer :: "jsdouble \<Rightarrow> bool" where
  "is_integer NegZero = True"
| "is_integer (Num (Q q)) = (of_int \<lfloor>q\<rfloor> = q)"
| "is_integer _ = False"

text \<open>The values binary64 has.\<close>

fun is_f64 :: "jsdouble \<Rightarrow> bool" where
  "is_f64 (Num (Q q)) = rep q"
| "is_f64 _ = True"

section \<open>Operators\<close>

fun neg_bit :: "jsdouble \<Rightarrow> bool" where
  "neg_bit NaN = False"
| "neg_bit NegZero = True"
| "neg_bit (Num NInf) = True"
| "neg_bit (Num (Q q)) = (q < 0)"
| "neg_bit (Num PInf) = False"

definition signed_num :: "bool \<Rightarrow> ext \<Rightarrow> jsdouble" where
  "signed_num s e = (if s \<and> e = Q 0 then NegZero else Num e)"

definition rnd :: "rat \<Rightarrow> jsdouble" where
  "rnd q = signed_num (q < 0) (rndE q)"

fun addE :: "ext \<Rightarrow> ext \<Rightarrow> jsdouble" where
  "addE (Q a) (Q b) = rnd (a + b)"
| "addE PInf NInf = NaN"
| "addE NInf PInf = NaN"
| "addE PInf _ = Infinity"
| "addE _ PInf = Infinity"
| "addE NInf _ = NegInfinity"
| "addE _ NInf = NegInfinity"

definition fadd :: "jsdouble \<Rightarrow> jsdouble \<Rightarrow> jsdouble" where
  "fadd x y = (if x = NaN \<or> y = NaN then NaN
     else if x = NegZero \<and> y = NegZero then NegZero else addE (ev x) (ev y))"

fun fneg :: "jsdouble \<Rightarrow> jsdouble" where
  "fneg NaN = NaN"
| "fneg NegZero = fin 0"
| "fneg (Num NInf) = Infinity"
| "fneg (Num PInf) = NegInfinity"
| "fneg (Num (Q q)) = (if q = 0 then NegZero else fin (- q))"

definition fsub :: "jsdouble \<Rightarrow> jsdouble \<Rightarrow> jsdouble" where
  "fsub x y = fadd x (fneg y)"

definition inf_of :: "bool \<Rightarrow> jsdouble" where
  "inf_of s = (if s then NegInfinity else Infinity)"

definition fmul :: "jsdouble \<Rightarrow> jsdouble \<Rightarrow> jsdouble" where
  "fmul x y = (if x = NaN \<or> y = NaN then NaN else
     let s = (neg_bit x \<noteq> neg_bit y) in
     case (ev x, ev y) of
       (Q a, Q b) \<Rightarrow> if a * b = 0 then signed_num s (Q 0) else rnd (a * b)
     | _ \<Rightarrow> if ev x = Q 0 \<or> ev y = Q 0 then NaN else inf_of s)"

definition fdiv :: "jsdouble \<Rightarrow> jsdouble \<Rightarrow> jsdouble" where
  "fdiv x y = (if x = NaN \<or> y = NaN then NaN else
     let s = (neg_bit x \<noteq> neg_bit y) in
     case (ev x, ev y) of
       (Q a, Q b) \<Rightarrow>
         if b = 0 then (if a = 0 then NaN else inf_of s)
         else if a = 0 then signed_num s (Q 0) else rnd (a / b)
     | (Q a, _) \<Rightarrow> signed_num s (Q 0)
     | (_, Q b) \<Rightarrow> inf_of s
     | _ \<Rightarrow> NaN)"

definition truncZ :: "rat \<Rightarrow> int" where
  "truncZ q = (if q < 0 then \<lceil>q\<rceil> else \<lfloor>q\<rfloor>)"

text \<open>The remainder is exact: it is representable whenever its operands are.\<close>

definition fmod :: "jsdouble \<Rightarrow> jsdouble \<Rightarrow> jsdouble" where
  "fmod x y = (if x = NaN \<or> y = NaN then NaN else
     case (ev x, ev y) of
       (Q a, Q b) \<Rightarrow>
         if b = 0 then NaN else if a = 0 then x
         else signed_num (a < 0) (Q (a - b * of_int (truncZ (a / b))))
     | (Q a, _) \<Rightarrow> x
     | _ \<Rightarrow> NaN)"

fun fabs :: "jsdouble \<Rightarrow> jsdouble" where
  "fabs NaN = NaN"
| "fabs NegZero = fin 0"
| "fabs (Num (Q q)) = fin \<bar>q\<bar>"
| "fabs (Num _) = Infinity"

definition fmin2 :: "jsdouble \<Rightarrow> jsdouble \<Rightarrow> jsdouble" where
  "fmin2 x y = (if x = NaN \<or> y = NaN then NaN else if ev x < ev y then x
     else if ev y < ev x then y else if neg_bit x then x else y)"

definition fmax2 :: "jsdouble \<Rightarrow> jsdouble \<Rightarrow> jsdouble" where
  "fmax2 x y = (if x = NaN \<or> y = NaN then NaN else if ev y < ev x then x
     else if ev x < ev y then y else if neg_bit x then y else x)"

definition fmin :: "jsdouble list \<Rightarrow> jsdouble" where
  "fmin xs = foldr fmin2 xs Infinity"

definition fmax :: "jsdouble list \<Rightarrow> jsdouble" where
  "fmax xs = foldr fmax2 xs NegInfinity"

text \<open>\<open>Math.trunc\<close>, \<open>floor\<close>, \<open>ceil\<close> and \<open>round\<close> (the latter rounds ties up); a result of zero
  keeps the sign of the argument.\<close>

datatype roundfn = Trunc | Floor | Ceil | Round

fun roundZ :: "roundfn \<Rightarrow> rat \<Rightarrow> int" where
  "roundZ Trunc q = truncZ q"
| "roundZ Floor q = \<lfloor>q\<rfloor>"
| "roundZ Ceil q = \<lceil>q\<rceil>"
| "roundZ Round q = \<lfloor>q + 1 / 2\<rfloor>"

fun fround :: "roundfn \<Rightarrow> jsdouble \<Rightarrow> jsdouble" where
  "fround f (Num (Q q)) = signed_num (q < 0) (Q (of_int (roundZ f q)))"
| "fround f x = x"

text \<open>\<open>ToInt32\<close> and \<open>ToUint32\<close> give the same 32 bits; the reading differs.\<close>

fun toInt32 :: "jsdouble \<Rightarrow> 32 word" where
  "toInt32 (Num (Q q)) = of_int (truncZ q)"
| "toInt32 _ = 0"

definition of_i32 :: "32 word \<Rightarrow> jsdouble" where
  "of_i32 w = fin (of_int (sint w))"

definition of_u32 :: "32 word \<Rightarrow> jsdouble" where
  "of_u32 w = fin (of_int (uint w))"

definition shiftCount :: "jsdouble \<Rightarrow> nat" where
  "shiftCount y = unat (toInt32 y AND 31)"

definition fbitnot :: "jsdouble \<Rightarrow> jsdouble" where
  "fbitnot x = of_i32 (NOT (toInt32 x))"

section \<open>Facts of the operators\<close>

lemma ev_signed [simp]: "ev (signed_num s e) = e" "signed_num s e \<noteq> NaN"
  by (auto simp: signed_num_def)

lemma is_f64_signed [simp]: "is_f64 (signed_num s e) = (case e of Q q \<Rightarrow> rep q | _ \<Rightarrow> True)"
  by (cases e) (auto simp: signed_num_def)

lemma is_integer_ev: "is_integer x \<longleftrightarrow> x \<noteq> NaN \<and> (\<exists>n. ev x = Q (of_int n))"
proof (cases x rule: is_integer.cases)
  case (2 q)
  then show ?thesis by (auto intro: exI [of _ "\<lfloor>q\<rfloor>"])
qed (auto intro: exI [of _ "0::int"])

lemma is_finite_ev: "is_finite x \<longleftrightarrow> x \<noteq> NaN \<and> ev x \<noteq> PInf \<and> ev x \<noteq> NInf"
  by (cases x) (auto simp: is_finite_def)

lemma is_f64_ev: "is_f64 x \<Longrightarrow> ev x = Q q \<Longrightarrow> x \<noteq> NaN \<Longrightarrow> rep q"
  by (cases x rule: is_f64.cases) (auto simp: rep_def)

lemma is_integer_finite: "is_integer x \<Longrightarrow> is_finite x"
  by (auto simp: is_integer_ev is_finite_ev)

lemma ev_rnd [simp]: "ev (rnd q) = rndE q" "rnd q \<noteq> NaN"
  by (simp_all add: rnd_def)

lemma is_f64_rnd [simp]: "is_f64 (rnd q)"
  using rndE_rep by (auto simp: rnd_def split: ext.splits)

lemma ev_fneg: "x \<noteq> NaN \<Longrightarrow> ev (fneg x) = (case ev x of Q q \<Rightarrow> Q (- q) | PInf \<Rightarrow> NInf | NInf \<Rightarrow> PInf)"
  by (cases x rule: fneg.cases) auto

lemma fneg_NaN [simp]: "fneg x = NaN \<longleftrightarrow> x = NaN"
  by (cases x rule: fneg.cases) auto

lemma is_f64_fneg [simp]: "is_f64 (fneg x) = is_f64 x"
  by (cases x rule: fneg.cases) auto

lemma is_f64_addE [simp]: "is_f64 (addE a b)"
  by (cases "(a, b)" rule: addE.cases) auto

lemma is_f64_fadd [simp]: "is_f64 (fadd x y)"
  by (simp add: fadd_def)

text \<open>The value of a sum that is not NaN, in terms of the values of the summands.\<close>

fun plusE :: "ext \<Rightarrow> ext \<Rightarrow> ext option" where
  "plusE (Q a) (Q b) = Some (rndE (a + b))"
| "plusE PInf NInf = None"
| "plusE NInf PInf = None"
| "plusE PInf _ = Some PInf"
| "plusE _ PInf = Some PInf"
| "plusE NInf _ = Some NInf"
| "plusE _ NInf = Some NInf"

lemma fadd_ev: "x \<noteq> NaN \<Longrightarrow> y \<noteq> NaN \<Longrightarrow>
  (case plusE (ev x) (ev y) of None \<Rightarrow> fadd x y = NaN | Some e \<Rightarrow> fadd x y \<noteq> NaN \<and> ev (fadd x y) = e)"
  by (cases "(ev x, ev y)" rule: plusE.cases) (auto simp: fadd_def)

lemma plusE_mono:
  "a \<le> a' \<Longrightarrow> b \<le> b' \<Longrightarrow> plusE a b = Some c \<Longrightarrow> plusE a' b' = Some c' \<Longrightarrow> c \<le> c'"
  by (cases "(a, b)" rule: plusE.cases; cases "(a', b')" rule: plusE.cases)
    (auto intro: rndE_mono)

lemma plusE_None: "plusE a b = None \<longleftrightarrow> a = PInf \<and> b = NInf \<or> a = NInf \<and> b = PInf"
  by (cases "(a, b)" rule: plusE.cases) auto

section \<open>The exact remainder\<close>

definition remQ :: "rat \<Rightarrow> rat \<Rightarrow> rat" where
  "remQ a b = a - b * of_int (truncZ (a / b))"

lemma truncZ_minus: "truncZ (- q) = - truncZ q"
  by (auto simp: truncZ_def ceiling_def not_less)

lemma truncZ_nonneg: "0 \<le> q \<Longrightarrow> 0 \<le> truncZ q" "0 \<le> q \<Longrightarrow> of_int (truncZ q) \<le> q" "0 \<le> q \<Longrightarrow> q < of_int (truncZ q) + 1"
  by (simp_all add: truncZ_def) linarith

lemma remQ_minus: "remQ (- a) b = - remQ a b" "remQ a (- b) = remQ a b"
  using truncZ_minus [of "a / b"] by (simp_all add: remQ_def)

lemma remQ_pos: assumes "0 \<le> a" "0 < b" shows "0 \<le> remQ a b" "remQ a b < b" "remQ a b \<le> a"
proof -
  let ?t = "rat_of_int (truncZ (a / b))"
  have t: "0 \<le> ?t" "?t \<le> a / b" "a / b < ?t + 1" using truncZ_nonneg [of "a / b"] assms by auto
  then have "b * ?t \<le> a" "a < b * ?t + b" using assms by (simp_all add: field_simps)
  then show "0 \<le> remQ a b" "remQ a b < b" by (simp_all add: remQ_def)
  show "remQ a b \<le> a" using t(1) assms by (simp add: remQ_def)
qed

lemma remQ_abs: assumes "b \<noteq> 0" shows "\<bar>remQ a b\<bar> = remQ \<bar>a\<bar> \<bar>b\<bar>"
proof -
  have "0 \<le> remQ \<bar>a\<bar> \<bar>b\<bar>" using remQ_pos assms by simp
  then show ?thesis by (auto simp: abs_if remQ_minus split: if_splits)
qed

lemma remQ_bounds: assumes "b \<noteq> 0"
  shows "\<bar>remQ a b\<bar> < \<bar>b\<bar>" "\<bar>remQ a b\<bar> \<le> \<bar>a\<bar>" "0 \<le> a \<Longrightarrow> 0 \<le> remQ a b" "a \<le> 0 \<Longrightarrow> remQ a b \<le> 0"
proof -
  have p: "0 \<le> remQ \<bar>a\<bar> \<bar>b\<bar>" "remQ \<bar>a\<bar> \<bar>b\<bar> < \<bar>b\<bar>" "remQ \<bar>a\<bar> \<bar>b\<bar> \<le> \<bar>a\<bar>" using remQ_pos [of "\<bar>a\<bar>" "\<bar>b\<bar>"] assms by auto
  then show "\<bar>remQ a b\<bar> < \<bar>b\<bar>" "\<bar>remQ a b\<bar> \<le> \<bar>a\<bar>" using remQ_abs [OF assms] by auto
  show "0 \<le> a \<Longrightarrow> 0 \<le> remQ a b" using p by (auto simp: abs_if remQ_minus split: if_splits)
  show "a \<le> 0 \<Longrightarrow> remQ a b \<le> 0" using p by (cases "a = 0") (auto simp: abs_if remQ_minus split: if_splits)
qed

lemma remQ_multiple:
  assumes "a = of_int m * 2 powi e" "b = of_int n * 2 powi e"
  shows "\<exists>k. remQ a b = of_int k * 2 powi e"
  using assms by (intro exI [of _ "m - n * truncZ (a / b)"]) (simp add: remQ_def field_simps)

lemma powi2_shift: assumes "e \<le> e'" shows "of_int m * (2::rat) powi e' = of_int (m * 2 ^ nat (e' - e)) * 2 powi e"
proof -
  have "(2::rat) powi e' = 2 powi (e' - e) * 2 powi e" by (simp flip: power_int_add)
  then show ?thesis using assms by (simp add: power_int_nonneg_exp)
qed

text \<open>A multiple of a power of two no larger than a representable multiple of it is representable.\<close>

lemma rep_smaller:
  assumes "a = of_int m * 2 powi e" "\<bar>m\<bar> \<le> 2 ^ 53" "- 1074 \<le> e" "r = of_int k * 2 powi e" "\<bar>r\<bar> \<le> \<bar>a\<bar>" "\<bar>a\<bar> < 2 ^ 1024"
  shows "rep r"
proof -
  have "rat_of_int \<bar>k\<bar> * 2 powi e \<le> of_int \<bar>m\<bar> * 2 powi e" using assms(1,4,5) by (simp add: abs_mult)
  then have "rat_of_int \<bar>k\<bar> \<le> of_int \<bar>m\<bar>" by (simp add: mult_le_cancel_right)
  then have "\<bar>k\<bar> \<le> \<bar>m\<bar>" by (simp only: of_int_le_iff)
  then show ?thesis using rep_formI [OF assms(4)] assms by simp
qed

lemma rep_remQ: assumes "rep a" "rep b" "b \<noteq> 0" shows "rep (remQ a b)"
proof -
  obtain m e where a: "a = of_int m * 2 powi e" "\<bar>m\<bar> \<le> 2 ^ 53" "- 1074 \<le> e" using rep_form [OF assms(1)] by blast
  obtain n d where b: "b = of_int n * 2 powi d" "\<bar>n\<bar> \<le> 2 ^ 53" "- 1074 \<le> d" using rep_form [OF assms(2)] by blast
  have big: "\<bar>a\<bar> < 2 ^ 1024" "\<bar>b\<bar> < 2 ^ 1024" using assms by (auto simp: rep_iff)
  note r = remQ_bounds [OF assms(3), of a]
  show ?thesis
  proof (cases "e \<le> d")
    case True
    then obtain k where "remQ a b = of_int k * 2 powi e"
      using remQ_multiple [OF a(1), of b] powi2_shift [OF True, of n] b(1) by metis
    then show ?thesis using rep_smaller [OF a] r big by blast
  next
    case False
    then obtain k where "remQ a b = of_int k * 2 powi d"
      using remQ_multiple [of a _ d b n] powi2_shift [of d e m] a(1) b(1) by (metis linear)
    then show ?thesis using rep_smaller [OF b] r big by (meson less_imp_le)
  qed
qed

end
