(* ===== verification/Int_Domain.thy ===== *)
theory Int_Domain
  imports Js_Number
begin

text \<open>
  The abstract domain of the integer-boundary inference, library/int-infer.ts lines 84 to
  462 and 684 to 738: the interval value \<open>AbsVal\<close>, its lattice operations, the transfer
  functions of the numeric operators and \<open>Math\<close> functions, the refinement of a value by a
  comparison, the boundary check and the slot seeds. What ECMAScript leaves to the
  implementation (\<open>**\<close>, which is implementation-approximated, and the number/string
  conversions) is the argument \<open>rt\<close>.
\<close>

record js_lib =
  numberPow :: "jsdouble \<Rightarrow> jsdouble \<Rightarrow> jsdouble"
  numberToString :: "jsdouble \<Rightarrow> jsstr"
  stringToNumber :: "jsstr \<Rightarrow> jsdouble"

record SrcLoc =
  loc_file :: jsstr
  loc_start :: nat
  loc_end :: nat

section \<open>The abstract domain\<close>

definition SAFE_MAX :: jsdouble where
  "SAFE_MAX = fin (2 ^ 53 - 1)"

definition SAFE_MIN :: jsdouble where
  "SAFE_MIN = fneg SAFE_MAX"

record AbsVal =
  lo :: jsdouble
  hi :: jsdouble
  whole :: bool
  maybeNaN :: bool
  spelling :: "jsstr option"

definition normZero :: "jsdouble \<Rightarrow> jsdouble" where
  "normZero x = (if x = NegZero then fin 0 else x)"

definition absVal :: "jsdouble \<Rightarrow> jsdouble \<Rightarrow> bool \<Rightarrow> bool \<Rightarrow> jsstr option \<Rightarrow> AbsVal" where
  "absVal l h w n sp = (let l = normZero l; h = normZero h in
     \<lparr> lo = l, hi = h, whole = (if w \<and> \<not> (is_finite l \<and> is_finite h) then False else w),
       maybeNaN = n, spelling = sp \<rparr>)"

definition TOP :: AbsVal where
  "TOP = \<lparr> lo = NegInfinity, hi = Infinity, whole = False, maybeNaN = True, spelling = None \<rparr>"

definition BOTTOM :: AbsVal where
  "BOTTOM = \<lparr> lo = Infinity, hi = NegInfinity, whole = True, maybeNaN = False, spelling = None \<rparr>"

definition isBottom :: "AbsVal \<Rightarrow> bool" where
  "isBottom v \<longleftrightarrow> flt (hi v) (lo v) \<and> \<not> maybeNaN v"

definition isSingleton :: "AbsVal \<Rightarrow> bool" where
  "isSingleton v \<longleftrightarrow> feq (lo v) (hi v) \<and> \<not> maybeNaN v"

definition hasNumeric :: "AbsVal \<Rightarrow> bool" where
  "hasNumeric v \<longleftrightarrow> fle (lo v) (hi v)"

definition constVal :: "jsdouble \<Rightarrow> jsstr option \<Rightarrow> AbsVal" where
  "constVal x sp = (if x = NaN
     then \<lparr> lo = Infinity, hi = NegInfinity, whole = False, maybeNaN = True, spelling = None \<rparr>
     else absVal x x (is_integer x) False sp)"

definition joinVal :: "AbsVal \<Rightarrow> AbsVal \<Rightarrow> AbsVal" where
  "joinVal a b =
    (if isBottom a then b else if isBottom b then a else
     let numA = hasNumeric a; numB = hasNumeric b;
         l = (if numA \<and> numB then fmin [lo a, lo b] else if numA then lo a else lo b);
         h = (if numA \<and> numB then fmax [hi a, hi b] else if numA then hi a else hi b);
         w = ((if numA then whole a else True) \<and> (if numB then whole b else True));
         sp = (if spelling a \<noteq> None \<and> spelling a = spelling b then spelling a else None)
     in absVal l h w (maybeNaN a \<or> maybeNaN b) sp)"

definition sameVal :: "AbsVal \<Rightarrow> AbsVal \<Rightarrow> bool" where
  "sameVal a b \<longleftrightarrow> feq (lo a) (lo b) \<and> feq (hi a) (hi b) \<and> whole a = whole b \<and>
     maybeNaN a = maybeNaN b \<and> spelling a = spelling b"

definition WIDEN_THRESHOLDS :: "jsdouble list" where
  "WIDEN_THRESHOLDS = [fin 0, fin (2 ^ 31 - 1), fin (2 ^ 32 - 1), SAFE_MAX, Infinity]"

definition WIDEN_THRESHOLDS_NEG :: "jsdouble list" where
  "WIDEN_THRESHOLDS_NEG = [fin 0, fin (- (2 ^ 31)), SAFE_MIN, NegInfinity]"

definition widen :: "AbsVal \<Rightarrow> AbsVal \<Rightarrow> AbsVal" where
  "widen prev nxt =
    (if isBottom prev then nxt else
     let l = (if flt (lo nxt) (lo prev)
              then case find (\<lambda>t. fle t (lo nxt)) WIDEN_THRESHOLDS_NEG of Some t \<Rightarrow> t | None \<Rightarrow> NegInfinity
              else lo nxt);
         h = (if flt (hi prev) (hi nxt)
              then case find (\<lambda>t. fle (hi nxt) t) WIDEN_THRESHOLDS of Some t \<Rightarrow> t | None \<Rightarrow> Infinity
              else hi nxt)
     in absVal l h (whole nxt) (maybeNaN nxt) (spelling nxt))"

section \<open>Transfer functions\<close>

datatype IrNumBinOp =
    OpAdd | OpSub | OpMul | OpDiv | OpMod | OpPow
  | OpAnd | OpOr | OpXor | OpShl | OpSar | OpShr
  | OpLt | OpLe | OpGt | OpGe | OpEq | OpNe

definition boundMul :: "jsdouble \<Rightarrow> jsdouble \<Rightarrow> jsdouble" where
  "boundMul a b = (if feq a (fin 0) \<or> feq b (fin 0) then fin 0 else fmul a b)"

definition transferAdd :: "AbsVal \<Rightarrow> AbsVal \<Rightarrow> AbsVal" where
  "transferAdd a b = (let n = (maybeNaN a \<or> maybeNaN b) in
     if \<not> hasNumeric a \<or> \<not> hasNumeric b then BOTTOM\<lparr> maybeNaN := n \<rparr> else
     let n = (if feq (hi a) Infinity \<and> feq (lo b) NegInfinity \<or>
                 feq (lo a) NegInfinity \<and> feq (hi b) Infinity then True else n)
     in absVal (fadd (lo a) (lo b)) (fadd (hi a) (hi b)) (whole a \<and> whole b) n None)"

definition transferSub :: "AbsVal \<Rightarrow> AbsVal \<Rightarrow> AbsVal" where
  "transferSub a b = (let n = (maybeNaN a \<or> maybeNaN b) in
     if \<not> hasNumeric a \<or> \<not> hasNumeric b then BOTTOM\<lparr> maybeNaN := n \<rparr> else
     let n = (if feq (hi a) Infinity \<and> feq (hi b) Infinity \<or>
                 feq (lo a) NegInfinity \<and> feq (lo b) NegInfinity then True else n)
     in absVal (fsub (lo a) (hi b)) (fsub (hi a) (lo b)) (whole a \<and> whole b) n None)"

definition hasZero :: "AbsVal \<Rightarrow> bool" where
  "hasZero v \<longleftrightarrow> fle (lo v) (fin 0) \<and> fle (fin 0) (hi v)"

definition hasInf :: "AbsVal \<Rightarrow> bool" where
  "hasInf v \<longleftrightarrow> feq (lo v) NegInfinity \<or> feq (hi v) Infinity"

definition transferMul :: "AbsVal \<Rightarrow> AbsVal \<Rightarrow> AbsVal" where
  "transferMul a b = (let n = (maybeNaN a \<or> maybeNaN b) in
     if \<not> hasNumeric a \<or> \<not> hasNumeric b then BOTTOM\<lparr> maybeNaN := n \<rparr> else
     let n = (if hasZero a \<and> hasInf b \<or> hasZero b \<and> hasInf a then True else n);
         p = [boundMul (lo a) (lo b), boundMul (lo a) (hi b), boundMul (hi a) (lo b), boundMul (hi a) (hi b)]
     in absVal (fmin p) (fmax p) (whole a \<and> whole b) n None)"

definition transferDiv :: "AbsVal \<Rightarrow> AbsVal \<Rightarrow> AbsVal" where
  "transferDiv a b = (let n = (maybeNaN a \<or> maybeNaN b) in
     if \<not> hasNumeric a \<or> \<not> hasNumeric b then BOTTOM\<lparr> maybeNaN := n \<rparr>
     else if isSingleton b \<and> feq (lo b) (fin 0) then
       (let nanPossible = (n \<or> (fle (lo a) (fin 0) \<and> fle (fin 0) (hi a)));
            l = (if flt (lo a) (fin 0) then NegInfinity else Infinity);
            h = (if flt (fin 0) (hi a) then Infinity else NegInfinity)
        in if flt h l then BOTTOM\<lparr> maybeNaN := nanPossible \<rparr> else absVal l h False nanPossible None)
     else if fle (lo b) (fin 0) \<and> fle (fin 0) (hi b) then TOP
     else
       (let q = [fdiv (lo a) (lo b), fdiv (lo a) (hi b), fdiv (hi a) (lo b), fdiv (hi a) (hi b)];
            l = fmin q; h = fmax q
        in absVal l h (feq l h \<and> is_integer l) n None))"

definition transferMod :: "AbsVal \<Rightarrow> AbsVal \<Rightarrow> AbsVal" where
  "transferMod a b = (let n = (maybeNaN a \<or> maybeNaN b) in
     if \<not> hasNumeric a \<or> \<not> hasNumeric b then BOTTOM\<lparr> maybeNaN := n \<rparr> else
     let n = (if fle (lo b) (fin 0) \<and> fle (fin 0) (hi b) then True else n);
         n = (if feq (lo a) NegInfinity \<or> feq (hi a) Infinity then True else n)
     in if isSingleton a \<and> isSingleton b \<and> \<not> n then constVal (fmod (lo a) (lo b)) None else
       (let dMax = fmax [fabs (lo b), fabs (hi b)];
            bound = (if whole a \<and> whole b \<and> is_finite dMax then fsub dMax (fin 1) else dMax);
            l = (if flt (lo a) (fin 0) then fneg bound else fin 0);
            h = (if flt (fin 0) (hi a) then bound else fin 0)
        in absVal l h (whole a \<and> whole b) n None))"

definition transferPow :: "js_lib \<Rightarrow> AbsVal \<Rightarrow> AbsVal \<Rightarrow> AbsVal" where
  "transferPow rt a b = (let n = (maybeNaN a \<or> maybeNaN b) in
     if \<not> hasNumeric a \<or> \<not> hasNumeric b then BOTTOM\<lparr> maybeNaN := n \<rparr>
     else if isSingleton a \<and> isSingleton b \<and> \<not> n then constVal (numberPow rt (lo a) (lo b)) None
     else if whole a \<and> whole b \<and> fle (fin 0) (lo b) \<and> fle (fin 1) (lo a) then
       absVal (numberPow rt (lo a) (lo b)) (numberPow rt (hi a) (hi b)) True n None
     else TOP)"

text \<open>The bitwise operators of the language on two numbers; the last clause is \<open>>>>\<close>, as in
  the source's conditional chain.\<close>

definition bitOp :: "IrNumBinOp \<Rightarrow> jsdouble \<Rightarrow> jsdouble \<Rightarrow> jsdouble" where
  "bitOp op x y =
    (if op = OpAnd then of_i32 (toInt32 x AND toInt32 y)
     else if op = OpOr then of_i32 (toInt32 x OR toInt32 y)
     else if op = OpXor then of_i32 (toInt32 x XOR toInt32 y)
     else if op = OpShl then of_i32 (push_bit (shiftCount y) (toInt32 x))
     else if op = OpSar then of_i32 (signed_drop_bit (shiftCount y) (toInt32 x))
     else of_u32 (drop_bit (shiftCount y) (toInt32 x)))"

definition transferBitwise :: "IrNumBinOp \<Rightarrow> AbsVal \<Rightarrow> AbsVal \<Rightarrow> AbsVal" where
  "transferBitwise op a b =
    (if isSingleton a \<and> isSingleton b then constVal (bitOp op (lo a) (lo b)) None
     else if op = OpShr then absVal (fin 0) (fin (2 ^ 32 - 1)) True False None
     else absVal (fin (- (2 ^ 31))) (fin (2 ^ 31 - 1)) True False None)"

definition transferBitNot :: "AbsVal \<Rightarrow> AbsVal" where
  "transferBitNot a =
    (if isSingleton a then constVal (fbitnot (lo a)) None
     else absVal (fin (- (2 ^ 31))) (fin (2 ^ 31 - 1)) True False None)"

definition transferNeg :: "AbsVal \<Rightarrow> AbsVal" where
  "transferNeg a =
    (if \<not> hasNumeric a then BOTTOM\<lparr> maybeNaN := maybeNaN a \<rparr>
     else absVal (fneg (hi a)) (fneg (lo a)) (whole a) (maybeNaN a) None)"

fun transferBin :: "js_lib \<Rightarrow> IrNumBinOp \<Rightarrow> AbsVal \<Rightarrow> AbsVal \<Rightarrow> AbsVal" where
  "transferBin rt OpAdd a b = transferAdd a b"
| "transferBin rt OpSub a b = transferSub a b"
| "transferBin rt OpMul a b = transferMul a b"
| "transferBin rt OpDiv a b = transferDiv a b"
| "transferBin rt OpMod a b = transferMod a b"
| "transferBin rt OpPow a b = transferPow rt a b"
| "transferBin rt OpAnd a b = transferBitwise OpAnd a b"
| "transferBin rt OpOr a b = transferBitwise OpOr a b"
| "transferBin rt OpXor a b = transferBitwise OpXor a b"
| "transferBin rt OpShl a b = transferBitwise OpShl a b"
| "transferBin rt OpSar a b = transferBitwise OpSar a b"
| "transferBin rt OpShr a b = transferBitwise OpShr a b"
| "transferBin rt _ a b = TOP"

definition transferMathRound :: "roundfn \<Rightarrow> AbsVal \<Rightarrow> AbsVal" where
  "transferMathRound f a =
    (if \<not> hasNumeric a then BOTTOM\<lparr> maybeNaN := maybeNaN a \<rparr>
     else absVal (fround f (lo a)) (fround f (hi a)) True (maybeNaN a) None)"

definition transferAbs :: "AbsVal \<Rightarrow> AbsVal" where
  "transferAbs a =
    (if \<not> hasNumeric a then BOTTOM\<lparr> maybeNaN := maybeNaN a \<rparr> else
     let l = (if fle (lo a) (fin 0) \<and> fle (fin 0) (hi a) then fin 0
              else fmin [fabs (lo a), fabs (hi a)])
     in absVal l (fmax [fabs (lo a), fabs (hi a)]) (whole a) (maybeNaN a) None)"

datatype minmax = MMin | MMax

definition transferMinMax :: "minmax \<Rightarrow> AbsVal list \<Rightarrow> AbsVal" where
  "transferMinMax f args = (let n = list_ex maybeNaN args in
     if list_ex (\<lambda>v. \<not> hasNumeric v) args then BOTTOM\<lparr> maybeNaN := n \<rparr> else
     let l = (if f = MMin then fmin (map lo args) else fmax (map lo args));
         h = (if f = MMin then fmin (map hi args) else fmax (map hi args))
     in absVal l h (list_all whole args) n None)"

section \<open>The boundary check\<close>

datatype IntClass = I64 | U64

datatype IntObligation = Representability | Wholeness | Range

datatype verdict_kind = Prove | Refuse

record IntVerdict =
  v_path :: jsstr
  v_cls :: IntClass
  v_loc :: SrcLoc
  v_outcome :: verdict_kind
  provenLo :: "jsdouble option"
  provenHi :: "jsdouble option"
  obligation :: "IntObligation option"
  detail :: "jsstr option"
  fix_text :: "jsstr option"

definition spellingRoundTrips :: "js_lib \<Rightarrow> jsstr \<Rightarrow> bool" where
  "spellingRoundTrips rt s \<longleftrightarrow> numberToString rt (stringToNumber rt s) = s"

text \<open>The characters of the messages outside ASCII: the em dash, the plus-minus sign and the
  minus sign.\<close>

abbreviation emdash :: jsstr where "emdash \<equiv> [0x2014]"
abbreviation plusminus :: jsstr where "plusminus \<equiv> [0xB1]"
abbreviation minus_sign :: jsstr where "minus_sign \<equiv> [0x2212]"

definition safeRangeText :: jsstr where
  "safeRangeText = plusminus @ js ''(2^53 '' @ minus_sign @ js '' 1)''"

definition refusal :: "jsstr \<Rightarrow> IntClass \<Rightarrow> SrcLoc \<Rightarrow> IntObligation \<Rightarrow> jsstr \<Rightarrow> jsstr \<Rightarrow> IntVerdict" where
  "refusal path cls loc ob det fx =
    \<lparr> v_path = path, v_cls = cls, v_loc = loc, v_outcome = Refuse, provenLo = None, provenHi = None,
      obligation = Some ob, detail = Some det, fix_text = Some fx \<rparr>"

definition proof_of :: "jsstr \<Rightarrow> IntClass \<Rightarrow> SrcLoc \<Rightarrow> jsdouble \<Rightarrow> jsdouble \<Rightarrow> IntVerdict" where
  "proof_of path cls loc l h =
    \<lparr> v_path = path, v_cls = cls, v_loc = loc, v_outcome = Prove, provenLo = Some l, provenHi = Some h,
      obligation = None, detail = None, fix_text = None \<rparr>"

definition rangeText :: "js_lib \<Rightarrow> jsdouble \<Rightarrow> jsdouble \<Rightarrow> jsstr" where
  "rangeText rt l h = js ''['' @ numberToString rt l @ js '', '' @ numberToString rt h @ js '']''"

definition checkBoundary :: "js_lib \<Rightarrow> AbsVal \<Rightarrow> jsstr \<Rightarrow> IntClass \<Rightarrow> SrcLoc \<Rightarrow> IntVerdict" where
  "checkBoundary rt v path cls loc =
    (if spelling v \<noteq> None \<and> \<not> spellingRoundTrips rt (the (spelling v)) then
       refusal path cls loc Representability
         (js ''the literal '' @ the (spelling v) @ js '' is not representable as f64 '' @ emdash @
          js '' it reads back as '' @ numberToString rt (stringToNumber rt (the (spelling v))))
         (js ''write the nearest representable integer explicitly, or restructure so the value stays within '' @
          safeRangeText)
     else if isBottom v then proof_of path cls loc NaN NaN
     else if maybeNaN v then
       refusal path cls loc Wholeness
         (js ''the value may be NaN, which is not a whole number'')
         (js ''guard the value with a comparison before the boundary (any ordered comparison excludes NaN), then state intent with Math.trunc/Math.floor/Math.ceil/Math.round if it may be fractional'')
     else
       (let mn = (if cls = U64 then fin 0 else SAFE_MIN) in
        if \<not> (fle mn (lo v) \<and> fle (hi v) SAFE_MAX) then
          refusal path cls loc Range
            (js ''the proven range '' @ rangeText rt (lo v) (hi v) @ js '' does not fit '' @
             (if cls = U64 then rangeText rt (fin 0) SAFE_MAX else rangeText rt SAFE_MIN SAFE_MAX) @
             js '' '' @ emdash @ js '' integrality is provable only within '' @ safeRangeText @
             (if cls = U64 then js '', and a u64 slot additionally requires a non-negative proven range'' else []))
            (js ''bound the value before the boundary (clamp, compare, or restructure the computation to stay in range)'')
        else if \<not> whole v then
          refusal path cls loc Wholeness
            (js ''the value is not provably whole '' @ emdash @ js '' the proven range '' @
             rangeText rt (lo v) (hi v) @ js '' may contain non-integers'')
            (js ''state intent at the boundary with Math.trunc, Math.floor, Math.ceil, or Math.round'')
        else proof_of path cls loc (lo v) (hi v)))"

section \<open>Slot configuration\<close>

record FnIntSlots =
  fnName :: jsstr
  slot_params :: "IntClass option list"
  paramPaths :: "jsstr option list"
  slot_ret :: "IntClass option"
  retPath :: "jsstr option"
  paramSeeds :: "AbsVal option list"

record recSlot =
  rs_cls :: IntClass
  rs_path :: jsstr

text \<open>Maps of the configuration are association lists in insertion order.\<close>

record IntSlotConfig =
  cfg_fns :: "(jsstr \<times> FnIntSlots) list"
  cfg_records :: "(jsstr \<times> (jsstr \<times> recSlot) list) list"

definition hasIntSlots :: "IntSlotConfig \<Rightarrow> bool" where
  "hasIntSlots cfg \<longleftrightarrow> cfg_records cfg \<noteq> [] \<or>
     list_ex (\<lambda>(_, f). slot_ret f \<noteq> None \<or> list_ex (\<lambda>p. p \<noteq> None) (slot_params f)) (cfg_fns cfg)"

definition classSeed :: "jsstr \<Rightarrow> AbsVal" where
  "classSeed cls =
    (if cls = js ''i64'' then absVal SAFE_MIN SAFE_MAX True False None
     else if cls = js ''u64'' then absVal (fin 0) SAFE_MAX True False None
     else if cls = js ''u8'' then absVal (fin 0) (fin 255) True False None
     else if cls = js ''u32'' then absVal (fin 0) (fin (2 ^ 32 - 1)) True False None
     else if cls = js ''i32'' then absVal (fin (- (2 ^ 31))) (fin (2 ^ 31 - 1)) True False None
     else TOP)"

text \<open>The string an \<open>IntClass\<close> is at run time.\<close>

fun className :: "IntClass \<Rightarrow> jsstr" where
  "className I64 = js ''i64''"
| "className U64 = js ''u64''"

section \<open>Refinement of a value by a comparison\<close>

fun NEGATE :: "IrNumBinOp \<Rightarrow> IrNumBinOp" where
  "NEGATE OpLt = OpGe"
| "NEGATE OpLe = OpGt"
| "NEGATE OpGt = OpLe"
| "NEGATE OpGe = OpLt"
| "NEGATE OpEq = OpNe"
| "NEGATE OpNe = OpEq"
| "NEGATE op = op"  \<comment> \<open>never looked up: guarded by \<open>CMP_OPS\<close>\<close>

fun FLIP :: "IrNumBinOp \<Rightarrow> IrNumBinOp" where
  "FLIP OpLt = OpGt"
| "FLIP OpLe = OpGe"
| "FLIP OpGt = OpLt"
| "FLIP OpGe = OpLe"
| "FLIP op = op"

definition CMP_OPS :: "IrNumBinOp list" where
  "CMP_OPS = [OpLt, OpLe, OpGt, OpGe, OpEq, OpNe]"

definition meetInterval :: "AbsVal \<Rightarrow> jsdouble \<Rightarrow> jsdouble \<Rightarrow> bool \<Rightarrow> AbsVal" where
  "meetInterval v l h clearNaN = (let newLo = fmax [lo v, l]; newHi = fmin [hi v, h] in
     if flt newHi newLo then BOTTOM\<lparr> maybeNaN := (if clearNaN then False else maybeNaN v) \<rparr>
     else absVal newLo newHi (whole v) (if clearNaN then False else maybeNaN v) (spelling v))"

definition keepNumeric :: "bool \<Rightarrow> AbsVal \<Rightarrow> AbsVal" where
  "keepNumeric clearNaN a = (if clearNaN then a\<lparr> maybeNaN := False \<rparr> else a)"

definition refineLhs :: "IrNumBinOp \<Rightarrow> AbsVal \<Rightarrow> AbsVal \<Rightarrow> bool \<Rightarrow> AbsVal" where
  "refineLhs op a b clearNaN =
    (if \<not> hasNumeric b \<or> \<not> hasNumeric a then keepNumeric clearNaN a else
     case op of
       OpLt \<Rightarrow> meetInterval a NegInfinity (if whole a then fsub (fround Ceil (hi b)) (fin 1) else hi b) clearNaN
     | OpLe \<Rightarrow> meetInterval a NegInfinity (if whole a then fround Floor (hi b) else hi b) clearNaN
     | OpGt \<Rightarrow> meetInterval a (if whole a then fadd (fround Floor (lo b)) (fin 1) else lo b) Infinity clearNaN
     | OpGe \<Rightarrow> meetInterval a (if whole a then fround Ceil (lo b) else lo b) Infinity clearNaN
     | OpEq \<Rightarrow> meetInterval a (lo b) (hi b) clearNaN
     | OpNe \<Rightarrow>
         if isSingleton b \<and> whole a \<and> is_integer (lo b) \<and> feq (lo a) (lo b)
         then meetInterval a (fadd (lo a) (fin 1)) (hi a) clearNaN
         else if isSingleton b \<and> whole a \<and> is_integer (lo b) \<and> feq (hi a) (lo b)
         then meetInterval a (lo a) (fsub (hi a) (fin 1)) clearNaN
         else keepNumeric clearNaN a
     | _ \<Rightarrow> a)"

end
