(* ===== verification/Int_Sound.thy ===== *)
theory Int_Sound
  imports Int_Domain
begin

text \<open>
  Soundness of the abstract domain of library/int-infer.ts: an \<open>AbsVal\<close> stands for a set of
  binary64 numbers (\<open>gamma\<close>), and each operation of the domain over-approximates the
  JavaScript operation it stands for. The side conditions are what the code needs and does
  not check: interval bounds that are numbers, and a divisor that is not \<open>-0\<close> where the
  divisor's interval is the single point zero.
\<close>

named_theorems sound_intros \<open>soundness rules of the abstract operations\<close>

definition gamma :: "AbsVal \<Rightarrow> jsdouble set" where
  "gamma v = {x. is_f64 x \<and> (if x = NaN then maybeNaN v
     else fle (lo v) x \<and> fle x (hi v) \<and> (whole v \<longrightarrow> is_integer x))}"

definition boundsOk :: "AbsVal \<Rightarrow> bool" where
  "boundsOk v \<longleftrightarrow> lo v \<noteq> NaN \<and> hi v \<noteq> NaN"

lemma cmp_Num [simp]:
  "fle (Num a) (Num b) \<longleftrightarrow> a \<le> b" "flt (Num a) (Num b) \<longleftrightarrow> a < b" "feq (Num a) (Num b) \<longleftrightarrow> a = b"
  by (simp_all add: fle_def flt_def feq_def)

lemma normZero_simps [simp]:
  "ev (normZero x) = ev x" "normZero x = NaN \<longleftrightarrow> x = NaN" "is_finite (normZero x) = is_finite x"
  by (auto simp: normZero_def is_finite_ev)

lemma normZero_Num [simp]: "normZero (Num e) = Num e"
  by (simp add: normZero_def)

lemma absVal_sel [simp]:
  "lo (absVal l h w n sp) = normZero l" "hi (absVal l h w n sp) = normZero h"
  "whole (absVal l h w n sp) \<longleftrightarrow> w \<and> is_finite l \<and> is_finite h"
  "maybeNaN (absVal l h w n sp) = n" "spelling (absVal l h w n sp) = sp"
  by (auto simp: absVal_def Let_def)

lemma BOTTOM_sel [simp]:
  "lo BOTTOM = Infinity" "hi BOTTOM = NegInfinity" "whole BOTTOM" "\<not> maybeNaN BOTTOM" "spelling BOTTOM = None"
  by (simp_all add: BOTTOM_def)

lemma TOP_sel [simp]:
  "lo TOP = NegInfinity" "hi TOP = Infinity" "\<not> whole TOP" "maybeNaN TOP" "spelling TOP = None"
  by (simp_all add: TOP_def)

lemma in_gamma_NaN [simp]: "NaN \<in> gamma v \<longleftrightarrow> maybeNaN v"
  by (simp add: gamma_def)

lemma in_gamma_num: "x \<noteq> NaN \<Longrightarrow> x \<in> gamma v \<longleftrightarrow> is_f64 x \<and> lo v \<noteq> NaN \<and> hi v \<noteq> NaN \<and>
    ev (lo v) \<le> ev x \<and> ev x \<le> ev (hi v) \<and> (whole v \<longrightarrow> is_integer x)"
  by (auto simp: gamma_def fle_def)

lemma gamma_numeric: "x \<in> gamma v \<Longrightarrow> x \<noteq> NaN \<Longrightarrow> hasNumeric v"
  by (auto simp: in_gamma_num hasNumeric_def fle_def)

lemma gamma_isBottom: "isBottom v \<Longrightarrow> gamma v = {}"
proof -
  assume b: "isBottom v"
  have "x \<notin> gamma v" for x
    using b by (cases "x = NaN") (auto simp: in_gamma_num isBottom_def flt_def)
  then show ?thesis by auto
qed

lemma gamma_TOP: "is_f64 x \<Longrightarrow> x \<in> gamma TOP"
  by (cases "x = NaN") (auto simp: in_gamma_num)

lemma gamma_absValI:
  assumes "is_f64 x" "x = NaN \<Longrightarrow> n"
    "x \<noteq> NaN \<Longrightarrow> l \<noteq> NaN \<and> h \<noteq> NaN \<and> ev l \<le> ev x \<and> ev x \<le> ev h"
    "x \<noteq> NaN \<Longrightarrow> w \<Longrightarrow> is_finite l \<Longrightarrow> is_finite h \<Longrightarrow> is_integer x"
  shows "x \<in> gamma (absVal l h w n sp)"
  using assms by (cases "x = NaN") (auto simp: in_gamma_num)

section \<open>Lattice operations\<close>

lemma fmin2_ev: "x \<noteq> NaN \<Longrightarrow> y \<noteq> NaN \<Longrightarrow> fmin2 x y \<noteq> NaN \<and> ev (fmin2 x y) = min (ev x) (ev y)"
  by (auto simp: fmin2_def min_def)

lemma fmax2_ev: "x \<noteq> NaN \<Longrightarrow> y \<noteq> NaN \<Longrightarrow> fmax2 x y \<noteq> NaN \<and> ev (fmax2 x y) = max (ev x) (ev y)"
  by (auto simp: fmax2_def max_def)

lemma fmin_Cons [simp]: "fmin (x # xs) = fmin2 x (fmin xs)" "fmin [] = Infinity"
  by (simp_all add: fmin_def)

lemma fmax_Cons [simp]: "fmax (x # xs) = fmax2 x (fmax xs)" "fmax [] = NegInfinity"
  by (simp_all add: fmax_def)

lemma fmin_NaN [simp]: "fmin xs = NaN \<longleftrightarrow> NaN \<in> set xs"
  by (induction xs) (auto simp: fmin2_def)

lemma fmax_NaN [simp]: "fmax xs = NaN \<longleftrightarrow> NaN \<in> set xs"
  by (induction xs) (auto simp: fmax2_def)

lemma fmin_le: "NaN \<notin> set xs \<Longrightarrow> x \<in> set xs \<Longrightarrow> ev (fmin xs) \<le> ev x"
  by (induction xs) (auto simp: fmin2_ev intro: min.coboundedI2)

lemma fmax_ge: "NaN \<notin> set xs \<Longrightarrow> x \<in> set xs \<Longrightarrow> ev x \<le> ev (fmax xs)"
  by (induction xs) (auto simp: fmax2_ev intro: max.coboundedI2)

lemma fmin_in: "NaN \<notin> set xs \<Longrightarrow> xs \<noteq> [] \<Longrightarrow> \<exists>x\<in>set xs. ev (fmin xs) = ev x"
proof (induction xs)
  case (Cons x xs)
  then show ?case by (cases xs) (auto simp: fmin2_ev min_def split: if_splits)
qed simp

lemma fmax_in: "NaN \<notin> set xs \<Longrightarrow> xs \<noteq> [] \<Longrightarrow> \<exists>x\<in>set xs. ev (fmax xs) = ev x"
proof (induction xs)
  case (Cons x xs)
  then show ?case by (cases xs) (auto simp: fmax2_ev max_def split: if_splits)
qed simp

lemma gamma_constVal: "is_f64 x \<Longrightarrow> x \<in> gamma (constVal x sp)"
  by (cases "x = NaN") (auto simp: constVal_def in_gamma_num)

lemma gamma_constVal_ev: "is_f64 y \<Longrightarrow> y \<noteq> NaN \<Longrightarrow> x \<noteq> NaN \<Longrightarrow> ev y = ev x \<Longrightarrow> y \<in> gamma (constVal x sp)"
  by (auto simp: constVal_def in_gamma_num is_integer_ev)

lemma joinVal_upper1: assumes "x \<in> gamma a" shows "x \<in> gamma (joinVal a b)"
proof (cases "isBottom a \<or> isBottom b")
  case True
  then show ?thesis using assms gamma_isBottom by (auto simp: joinVal_def)
next
  case False
  show ?thesis
  proof (cases "x = NaN")
    case True
    then show ?thesis using assms False by (simp add: joinVal_def Let_def)
  next
    case n: False
    then have "hasNumeric a" using gamma_numeric assms by blast
    then show ?thesis using n assms False
      by (auto simp: joinVal_def Let_def in_gamma_num hasNumeric_def fle_def fmin2_ev fmax2_ev
          intro: min.coboundedI1 max.coboundedI1)
  qed
qed

lemma joinVal_upper2: assumes "x \<in> gamma b" shows "x \<in> gamma (joinVal a b)"
proof (cases "isBottom a \<or> isBottom b")
  case True
  then show ?thesis using assms gamma_isBottom by (auto simp: joinVal_def)
next
  case False
  show ?thesis
  proof (cases "x = NaN")
    case True
    then show ?thesis using assms False by (simp add: joinVal_def Let_def)
  next
    case n: False
    then have "hasNumeric b" using gamma_numeric assms by blast
    then show ?thesis using n assms False
      by (auto simp: joinVal_def Let_def in_gamma_num hasNumeric_def fle_def fmin2_ev fmax2_ev
          intro: min.coboundedI2 max.coboundedI2)
  qed
qed

lemma find_threshold: "find P xs = Some t \<Longrightarrow> P t"
  by (auto simp: find_Some_iff)

lemma widen_upper: assumes "x \<in> gamma nxt" shows "x \<in> gamma (widen prev nxt)"
proof (cases "isBottom prev")
  case False
  show ?thesis
  proof (cases "x = NaN")
    case True
    then show ?thesis using assms False by (simp add: widen_def Let_def)
  next
    case n: False
    note b = assms [unfolded in_gamma_num [OF n]]
    let ?l = "case find (\<lambda>t. fle t (lo nxt)) WIDEN_THRESHOLDS_NEG of Some t \<Rightarrow> t | None \<Rightarrow> NegInfinity"
    let ?h = "case find (\<lambda>t. fle (hi nxt) t) WIDEN_THRESHOLDS of Some t \<Rightarrow> t | None \<Rightarrow> Infinity"
    have l: "?l \<noteq> NaN" "ev ?l \<le> ev (lo nxt)"
      using find_threshold by (fastforce simp: fle_def split: option.splits)+
    have h: "?h \<noteq> NaN" "ev (hi nxt) \<le> ev ?h"
      using find_threshold by (fastforce simp: fle_def split: option.splits)+
    show ?thesis using b n l h False
      by (auto simp: widen_def Let_def intro!: gamma_absValI split del: option.split)
  qed
qed (use assms in \<open>simp add: widen_def\<close>)

section \<open>Transfer functions\<close>

text \<open>What an operator on numbers does to the values, for the operators whose bounds are
  computed from the corners of the two intervals.\<close>

lemma gamma_cases:
  assumes "x \<in> gamma a" "y \<in> gamma b"
  obtains (nan) "x = NaN \<and> maybeNaN a \<or> y = NaN \<and> maybeNaN b"
  | (num) "x \<noteq> NaN" "y \<noteq> NaN" "hasNumeric a" "hasNumeric b"
  using assms gamma_numeric by (cases "x = NaN"; cases "y = NaN") auto

lemma fadd_Ints:
  assumes "is_integer x" "is_integer y" "is_finite (fadd x y)" shows "is_integer (fadd x y)"
proof -
  obtain m n where m: "x \<noteq> NaN" "y \<noteq> NaN" "ev x = Q (of_int m)" "ev y = Q (of_int n)"
    using assms by (auto simp: is_integer_ev)
  then have z: "ev (fadd x y) = rndE (of_int (m + n))" using fadd_ev [of x y] by simp
  then obtain q where q: "rndE (of_int (m + n)) = Q q" using assms(3)
    by (cases "rndE (of_int (m + n))") (auto simp: is_finite_ev)
  then have "q \<in> \<int>" using rndE_Ints Ints_of_int by blast
  then show ?thesis using z q assms(3) by (auto simp: is_integer_ev is_finite_ev elim: Ints_cases)
qed

lemma is_finite_between:
  "is_finite l \<Longrightarrow> is_finite h \<Longrightarrow> x \<noteq> NaN \<Longrightarrow> ev l \<le> ev x \<Longrightarrow> ev x \<le> ev h \<Longrightarrow> is_finite x"
  by (auto simp: is_finite_ev)

lemma fadd_hull:
  assumes x: "x \<noteq> NaN" "la \<noteq> NaN" "ha \<noteq> NaN" "ev la \<le> ev x" "ev x \<le> ev ha"
    and y: "y \<noteq> NaN" "lb \<noteq> NaN" "hb \<noteq> NaN" "ev lb \<le> ev y" "ev y \<le> ev hb"
    and w: "w \<Longrightarrow> is_integer x \<and> is_integer y"
    and ok: "fadd la lb \<noteq> NaN" "fadd ha hb \<noteq> NaN"
    and n: "feq ha Infinity \<and> feq lb NegInfinity \<or> feq la NegInfinity \<and> feq hb Infinity \<Longrightarrow> n"
  shows "fadd x y \<in> gamma (absVal (fadd la lb) (fadd ha hb) w n None)"
proof (cases "plusE (ev x) (ev y)")
  case None
  then have "ev ha = PInf \<and> ev lb = NInf \<or> ev la = NInf \<and> ev hb = PInf"
    using x y unfolding plusE_None by auto
  then have n using n x y by (simp add: feq_def)
  moreover have "fadd x y = NaN" using None fadd_ev [OF x(1) y(1)] by simp
  ultimately show ?thesis by simp
next
  case (Some z)
  then have z: "fadd x y \<noteq> NaN" "ev (fadd x y) = z" using fadd_ev [OF x(1) y(1)] by auto
  have L: "plusE (ev la) (ev lb) = Some (ev (fadd la lb))"
    using fadd_ev [OF x(2) y(2)] ok by (auto split: option.splits)
  have H: "plusE (ev ha) (ev hb) = Some (ev (fadd ha hb))"
    using fadd_ev [OF x(3) y(3)] ok by (auto split: option.splits)
  have le: "ev (fadd la lb) \<le> ev (fadd x y)" "ev (fadd x y) \<le> ev (fadd ha hb)"
    using plusE_mono [OF _ _ L Some] plusE_mono [OF _ _ Some H] x y z by auto
  then show ?thesis using z ok w fadd_Ints is_finite_between [OF _ _ z(1) le] by (auto intro!: gamma_absValI)
qed

lemma transferAdd_sound [sound_intros]:
  assumes "x \<in> gamma a" "y \<in> gamma b" "boundsOk (transferAdd a b)"
  shows "fadd x y \<in> gamma (transferAdd a b)"
  using assms(1,2)
proof (cases rule: gamma_cases)
  case nan
  then show ?thesis by (auto simp: transferAdd_def Let_def fadd_def)
next
  case num
  have ok: "fadd (lo a) (lo b) \<noteq> NaN" "fadd (hi a) (hi b) \<noteq> NaN"
    using assms(3) num by (auto simp: boundsOk_def transferAdd_def Let_def)
  show ?thesis using assms(1,2) num ok
    by (auto simp: transferAdd_def Let_def in_gamma_num intro!: fadd_hull)
qed

lemma fneg_le: "x \<noteq> NaN \<Longrightarrow> y \<noteq> NaN \<Longrightarrow> ev (fneg x) \<le> ev (fneg y) \<longleftrightarrow> ev y \<le> ev x"
  by (cases "ev x"; cases "ev y") (auto simp: ev_fneg)

lemma is_integer_fneg [simp]: "is_integer (fneg x) = is_integer x"
  by (cases x rule: fneg.cases) (auto simp: floor_minus ceiling_altdef, metis of_int_1 of_int_add)

lemma feq_fneg_inf [simp]:
  "feq (fneg x) Infinity \<longleftrightarrow> feq x NegInfinity" "feq (fneg x) NegInfinity \<longleftrightarrow> feq x Infinity"
  by (cases x rule: fneg.cases; simp add: feq_def)+

lemma transferNeg_sound [sound_intros]: assumes "x \<in> gamma a" shows "fneg x \<in> gamma (transferNeg a)"
proof (cases "x = NaN")
  case True
  then show ?thesis using assms by (simp add: transferNeg_def)
next
  case False
  then show ?thesis using assms gamma_numeric [OF assms]
    by (auto simp: transferNeg_def in_gamma_num fneg_le intro!: gamma_absValI)
qed

text \<open>Subtraction is addition of the negated operand, whose interval is mirrored.\<close>

lemma transferSub_sound [sound_intros]:
  assumes "x \<in> gamma a" "y \<in> gamma b" "boundsOk (transferSub a b)"
  shows "fsub x y \<in> gamma (transferSub a b)"
  using assms(1,2)
proof (cases rule: gamma_cases)
  case nan
  then show ?thesis by (auto simp: transferSub_def Let_def fsub_def fadd_def)
next
  case num
  have ok: "fadd (lo a) (fneg (hi b)) \<noteq> NaN" "fadd (hi a) (fneg (lo b)) \<noteq> NaN"
    using assms(3) num by (auto simp: boundsOk_def transferSub_def Let_def fsub_def)
  show ?thesis using assms(1,2) num ok
    by (auto simp: transferSub_def fsub_def Let_def in_gamma_num fneg_le intro!: fadd_hull)
qed

subsection \<open>Multiplication\<close>

definition sgnE :: "ext \<Rightarrow> int" where
  "sgnE e = (if Q 0 < e then 1 else if e < Q 0 then - 1 else 0)"

definition infE :: "int \<Rightarrow> ext" where
  "infE s = (if 0 < s then PInf else if s < 0 then NInf else Q 0)"

fun mulE :: "ext \<Rightarrow> ext \<Rightarrow> ext" where
  "mulE (Q a) (Q b) = rndE (a * b)"
| "mulE a b = infE (sgnE a * sgnE b)"

lemma sgnE_simps [simp]: "sgnE PInf = 1" "sgnE NInf = - 1" "sgnE (Q q) = (if 0 < q then 1 else if q < 0 then - 1 else 0)"
  by (auto simp: sgnE_def)

lemma mulE_commute: "mulE a b = mulE b a"
  by (cases "(a, b)" rule: mulE.cases) (auto simp: mult.commute infE_def)

lemma rndE_le_0: "q \<le> 0 \<Longrightarrow> rndE q \<le> Q 0"
  using rndE_mono [of q 0] by simp

lemma rndE_ge_0: "0 \<le> q \<Longrightarrow> Q 0 \<le> rndE q"
  using rndE_mono [of 0 q] by simp

lemma mulE_mono: "Q 0 \<le> y \<Longrightarrow> a \<le> a' \<Longrightarrow> mulE a y \<le> mulE a' y"
  by (cases y; cases a; cases a')
    (auto simp: infE_def intro: rndE_mono rndE_le_0 rndE_ge_0 mult_right_mono)

lemma mulE_antimono: "y \<le> Q 0 \<Longrightarrow> a \<le> a' \<Longrightarrow> mulE a' y \<le> mulE a y"
  by (cases y; cases a; cases a')
    (auto simp: infE_def intro: rndE_mono rndE_le_0 rndE_ge_0 mult_right_mono_neg)

lemma neg_bit_ev: "x \<noteq> NaN \<Longrightarrow> ev x \<noteq> Q 0 \<Longrightarrow> neg_bit x \<longleftrightarrow> ev x < Q 0"
  by (cases x rule: neg_bit.cases) auto

lemma inf_of_ev [simp]: "ev (inf_of s) = (if s then NInf else PInf)" "inf_of s \<noteq> NaN" "is_f64 (inf_of s)"
  by (simp_all add: inf_of_def)

definition zeroTimesInf :: "ext \<Rightarrow> ext \<Rightarrow> bool" where
  "zeroTimesInf a b \<longleftrightarrow> a = Q 0 \<and> (b = PInf \<or> b = NInf) \<or> b = Q 0 \<and> (a = PInf \<or> a = NInf)"

lemma fmul_ev:
  assumes "x \<noteq> NaN" "y \<noteq> NaN"
  shows "if zeroTimesInf (ev x) (ev y) then fmul x y = NaN else fmul x y \<noteq> NaN \<and> ev (fmul x y) = mulE (ev x) (ev y)"
  using assms neg_bit_ev [of x] neg_bit_ev [of y]
  by (cases "ev x"; cases "ev y") (auto simp: fmul_def zeroTimesInf_def Let_def infE_def)

lemma is_f64_fmul [simp]: "is_f64 (fmul x y)"
  by (auto simp: fmul_def Let_def split: ext.splits)

lemma boundMul_ev: "x \<noteq> NaN \<Longrightarrow> y \<noteq> NaN \<Longrightarrow> boundMul x y \<noteq> NaN \<and> ev (boundMul x y) = mulE (ev x) (ev y)"
  using fmul_ev [of x y] by (cases "ev x"; cases "ev y") (auto simp: boundMul_def feq_def zeroTimesInf_def infE_def)

text \<open>Between the two ends of a factor's interval the product lies between the products at the
  ends; applied twice, between the products at the four corners.\<close>

lemma between_ends:
  assumes mono: "\<And>a a'. P \<Longrightarrow> l \<le> a \<Longrightarrow> a \<le> a' \<Longrightarrow> a' \<le> h \<Longrightarrow> f a \<le> (f a' :: ext)"
    and anti: "\<And>a a'. \<not> P \<Longrightarrow> l \<le> a \<Longrightarrow> a \<le> a' \<Longrightarrow> a' \<le> h \<Longrightarrow> f a' \<le> f a"
    and "l \<le> (x::ext)" "x \<le> h"
  shows "min (f l) (f h) \<le> f x \<and> f x \<le> max (f l) (f h)"
  using assms(3,4) by (cases P) (auto simp: min_le_iff_disj le_max_iff_disj intro: mono anti)

lemma mulE_between:
  assumes "al \<le> x" "x \<le> ah" "bl \<le> y" "y \<le> bh"
  shows "\<exists>c\<in>{mulE al bl, mulE al bh, mulE ah bl, mulE ah bh}. c \<le> mulE x y"
    and "\<exists>c\<in>{mulE al bl, mulE al bh, mulE ah bl, mulE ah bh}. mulE x y \<le> c"
proof -
  have b: "min (mulE l y') (mulE h y') \<le> mulE z y' \<and> mulE z y' \<le> max (mulE l y') (mulE h y')"
    if "l \<le> z" "z \<le> h" for l z h y'
    by (rule between_ends [of "Q 0 \<le> y'"]) (use mulE_mono mulE_antimono that in auto)
  have y: "min (mulE k bl) (mulE k bh) \<le> mulE k y \<and> mulE k y \<le> max (mulE k bl) (mulE k bh)" for k
    using b [OF assms(3,4), of k] by (simp add: mulE_commute)
  show "\<exists>c\<in>{mulE al bl, mulE al bh, mulE ah bl, mulE ah bh}. c \<le> mulE x y"
    using b [OF assms(1,2), of y] y [of al] y [of ah] by (auto simp: min_le_iff_disj)
  show "\<exists>c\<in>{mulE al bl, mulE al bh, mulE ah bl, mulE ah bh}. mulE x y \<le> c"
    using b [OF assms(1,2), of y] y [of al] y [of ah] by (auto simp: le_max_iff_disj)
qed

lemma mulE_Ints:
  assumes "is_integer x" "is_integer y" "ev z = mulE (ev x) (ev y)" "is_finite z" shows "is_integer z"
proof -
  obtain m n where m: "ev x = Q (of_int m)" "ev y = Q (of_int n)"
    using assms(1,2) by (auto simp: is_integer_ev)
  then obtain q where q: "rndE (of_int (m * n)) = Q q" "ev z = Q q" using assms(3,4)
    by (cases "rndE (of_int (m * n))") (auto simp: is_finite_ev)
  then have "q \<in> \<int>" using rndE_Ints Ints_of_int by blast
  then show ?thesis using q assms(4) by (auto simp: is_integer_ev is_finite_ev elim: Ints_cases)
qed

text \<open>A value between some of the numbers in a list lies between their minimum and maximum.\<close>

lemma list_hull:
  assumes "NaN \<notin> set p" "\<exists>c\<in>set p. ev c \<le> e" "\<exists>c\<in>set p. e \<le> ev c"
  shows "ev (fmin p) \<le> e \<and> e \<le> ev (fmax p)"
  using assms fmin_le fmax_ge order_trans by meson

lemma transferMul_sound [sound_intros]:
  assumes "x \<in> gamma a" "y \<in> gamma b"
  shows "fmul x y \<in> gamma (transferMul a b)"
  using assms
proof (cases rule: gamma_cases)
  case nan
  then show ?thesis by (auto simp: transferMul_def Let_def fmul_def)
next
  case num
  note ga = assms(1) [unfolded in_gamma_num [OF num(1)]]
  note gb = assms(2) [unfolded in_gamma_num [OF num(2)]]
  let ?p = "[boundMul (lo a) (lo b), boundMul (lo a) (hi b), boundMul (hi a) (lo b), boundMul (hi a) (hi b)]"
  have p: "NaN \<notin> set ?p" using boundMul_ev ga gb by simp metis
  have hull: "ev (fmin ?p) \<le> mulE (ev x) (ev y) \<and> mulE (ev x) (ev y) \<le> ev (fmax ?p)"
    by (rule list_hull [OF p]) (use mulE_between [of "ev (lo a)" "ev x" "ev (hi a)" "ev (lo b)" "ev y" "ev (hi b)"] ga gb
      in \<open>simp_all add: boundMul_ev\<close>)
  show ?thesis
  proof (cases "zeroTimesInf (ev x) (ev y)")
    case True
    then have "hasZero a \<and> hasInf b \<or> hasZero b \<and> hasInf a"
      using ga gb by (auto simp: zeroTimesInf_def hasZero_def hasInf_def fle_def feq_def)
    moreover have "fmul x y = NaN" using True fmul_ev [OF num(1,2)] by simp
    ultimately show ?thesis using num by (auto simp: transferMul_def Let_def)
  next
    case False
    then have z: "fmul x y \<noteq> NaN" "ev (fmul x y) = mulE (ev x) (ev y)" using fmul_ev [OF num(1,2)] by auto
    have i: "is_integer (fmul x y)" if "whole a" "whole b" "is_finite (fmin ?p)" "is_finite (fmax ?p)"
      using mulE_Ints [OF _ _ z(2)] is_finite_between [OF that(3,4) z(1)] hull z that ga gb by simp
    show ?thesis using num z hull p i
      by (simp add: transferMul_def Let_def del: fmin_Cons fmax_Cons) (auto intro!: gamma_absValI simp del: fmin_Cons fmax_Cons)
  qed
qed

subsection \<open>Division and remainder\<close>

fun divE :: "ext \<Rightarrow> ext \<Rightarrow> ext" where
  "divE (Q a) (Q b) = rndE (a / b)"
| "divE (Q a) _ = Q 0"
| "divE a b = infE (sgnE a * sgnE b)"

definition infOverInf :: "ext \<Rightarrow> ext \<Rightarrow> bool" where
  "infOverInf a b \<longleftrightarrow> (a = PInf \<or> a = NInf) \<and> (b = PInf \<or> b = NInf)"

lemma fdiv_ev:
  assumes "x \<noteq> NaN" "y \<noteq> NaN" "ev y \<noteq> Q 0"
  shows "if infOverInf (ev x) (ev y) then fdiv x y = NaN else fdiv x y \<noteq> NaN \<and> ev (fdiv x y) = divE (ev x) (ev y)"
  using assms neg_bit_ev [of x] neg_bit_ev [of y]
  by (cases "ev x"; cases "ev y") (auto simp: fdiv_def infOverInf_def Let_def infE_def)

lemma is_f64_fdiv [simp]: "is_f64 (fdiv x y)"
  by (auto simp: fdiv_def Let_def split: ext.splits)

lemma divE_mono: "Q 0 < y \<Longrightarrow> a \<le> a' \<Longrightarrow> divE a y \<le> divE a' y"
  by (cases y; cases a; cases a') (auto simp: infE_def intro!: rndE_mono simp: divide_right_mono)

lemma divE_antimono: "y < Q 0 \<Longrightarrow> a \<le> a' \<Longrightarrow> divE a' y \<le> divE a y"
  by (cases y; cases a; cases a') (auto simp: infE_def intro!: rndE_mono simp: divide_right_mono_neg)

lemma divE_antimono2:
  "Q 0 \<le> x \<Longrightarrow> Q 0 < y \<or> y' < Q 0 \<Longrightarrow> y \<le> y' \<Longrightarrow> divE x y' \<le> divE x y"
  by (cases y; cases y'; cases x)
    (auto simp: infE_def divide_left_mono divide_nonneg_neg divide_nonneg_pos zero_less_mult_iff
      intro!: rndE_mono rndE_le_0 rndE_ge_0)

lemma divE_mono2:
  "x \<le> Q 0 \<Longrightarrow> Q 0 < y \<or> y' < Q 0 \<Longrightarrow> y \<le> y' \<Longrightarrow> divE x y \<le> divE x y'"
  by (cases y; cases y'; cases x)
    (auto simp: infE_def divide_left_mono_neg divide_nonpos_neg divide_nonpos_pos zero_less_mult_iff
      intro!: rndE_mono rndE_le_0 rndE_ge_0)

lemma divE_between:
  assumes "al \<le> x" "x \<le> ah" "bl \<le> y" "y \<le> bh" "Q 0 < bl \<or> bh < Q 0"
  shows "\<exists>c\<in>{divE al bl, divE al bh, divE ah bl, divE ah bh}. c \<le> divE x y"
    and "\<exists>c\<in>{divE al bl, divE al bh, divE ah bl, divE ah bh}. divE x y \<le> c"
proof -
  have x: "min (divE al y) (divE ah y) \<le> divE x y \<and> divE x y \<le> max (divE al y) (divE ah y)"
    by (rule between_ends [of "Q 0 < y"])
      (use divE_mono [of y] divE_antimono [of y] assms le_less_trans [of y bh "Q 0"] less_le_trans [of "Q 0" bl y] in auto)
  have y: "min (divE k bl) (divE k bh) \<le> divE k y \<and> divE k y \<le> max (divE k bl) (divE k bh)" for k
  proof -
    have s: "Q 0 < a \<or> a' < Q 0" if "bl \<le> a" "a' \<le> bh" for a a'
      using assms(5) that by (meson le_less_trans less_le_trans)
    show ?thesis
      by (rule between_ends [of "k \<le> Q 0"]) (use s divE_mono2 divE_antimono2 assms in auto)
  qed
  show "\<exists>c\<in>{divE al bl, divE al bh, divE ah bl, divE ah bh}. c \<le> divE x y"
    using x y [of al] y [of ah] by (auto simp: min_le_iff_disj)
  show "\<exists>c\<in>{divE al bl, divE al bh, divE ah bl, divE ah bh}. divE x y \<le> c"
    using x y [of al] y [of ah] by (auto simp: le_max_iff_disj)
qed

text \<open>The singleton-zero divisor: the quotient is an infinity with the dividend's sign, provided
  the divisor is the positive zero.\<close>

lemma fdiv_zero: "x \<noteq> NaN \<Longrightarrow> y \<noteq> NaN \<Longrightarrow> ev y = Q 0 \<Longrightarrow> y \<noteq> NegZero \<Longrightarrow>
  fdiv x y = (if ev x = Q 0 then NaN else if ev x < Q 0 then NegInfinity else Infinity)"
  using neg_bit_ev [of x] by (cases y; cases "ev x") (auto simp: fdiv_def Let_def inf_of_def)

lemma transferDiv_sound [sound_intros]:
  assumes "x \<in> gamma a" "y \<in> gamma b" "boundsOk (transferDiv a b)" "y = NegZero \<Longrightarrow> \<not> isSingleton b"
  shows "fdiv x y \<in> gamma (transferDiv a b)"
  using assms(1,2)
proof (cases rule: gamma_cases)
  case nan
  then show ?thesis by (auto simp: transferDiv_def Let_def fdiv_def)
next
  case num
  note ga = assms(1) [unfolded in_gamma_num [OF num(1)]]
  note gb = assms(2) [unfolded in_gamma_num [OF num(2)]]
  consider (zero) "isSingleton b" "feq (lo b) (fin 0)"
    | (top) "\<not> (isSingleton b \<and> feq (lo b) (fin 0))" "hasZero b"
    | (corners) "\<not> (isSingleton b \<and> feq (lo b) (fin 0))" "\<not> hasZero b" by blast
  then show ?thesis
  proof cases
    case zero
    then have y: "ev y = Q 0" "y \<noteq> NegZero" using gb assms(4) by (auto simp: isSingleton_def feq_def)
    have t: "transferDiv a b = (let nanPossible = (maybeNaN a \<or> maybeNaN b \<or> hasZero a);
        l = (if flt (lo a) (fin 0) then NegInfinity else Infinity);
        h = (if flt (fin 0) (hi a) then Infinity else NegInfinity)
      in if flt h l then BOTTOM\<lparr> maybeNaN := nanPossible \<rparr> else absVal l h False nanPossible None)"
      using num zero by (simp add: transferDiv_def hasZero_def)
    show ?thesis
    proof (cases "ev x" "Q 0" rule: linorder_cases)
      case less
      then have "flt (lo a) (fin 0)" using ga by (auto simp: flt_def)
      then show ?thesis using fdiv_zero [OF num(1,2) y] less unfolding t
        by (simp add: Let_def in_gamma_num)
    next
      case equal
      then have "hasZero a" using ga by (auto simp: hasZero_def fle_def)
      then show ?thesis using fdiv_zero [OF num(1,2) y] equal unfolding t by (simp add: Let_def)
    next
      case greater
      then have "flt (fin 0) (hi a)" using ga by (auto simp: flt_def)
      then show ?thesis using fdiv_zero [OF num(1,2) y] greater unfolding t
        by (auto simp: Let_def in_gamma_num)
    qed
  next
    case top
    then have f: "(isSingleton b \<and> feq (lo b) (fin 0)) = False" "(fle (lo b) (fin 0) \<and> fle (fin 0) (hi b)) = True"
      "(\<not> hasNumeric a \<or> \<not> hasNumeric b) = False" using num by (simp_all add: hasZero_def)
    have "transferDiv a b = TOP" unfolding transferDiv_def Let_def f if_False if_True by (rule refl)
    then show ?thesis using gamma_TOP by simp
  next
    case corners
    let ?q = "[fdiv (lo a) (lo b), fdiv (lo a) (hi b), fdiv (hi a) (lo b), fdiv (hi a) (hi b)]"
    from corners have f: "(isSingleton b \<and> feq (lo b) (fin 0)) = False" "(fle (lo b) (fin 0) \<and> fle (fin 0) (hi b)) = False"
      "(\<not> hasNumeric a \<or> \<not> hasNumeric b) = False" using num by (simp_all add: hasZero_def)
    have t: "transferDiv a b = absVal (fmin ?q) (fmax ?q) (feq (fmin ?q) (fmax ?q) \<and> is_integer (fmin ?q)) (maybeNaN a \<or> maybeNaN b) None"
      unfolding transferDiv_def Let_def f if_False by (rule refl)
    then have q: "NaN \<notin> set ?q" using assms(3) unfolding boundsOk_def by (simp del: fmin_Cons fmax_Cons)
    have s: "Q 0 < ev (lo b) \<or> ev (hi b) < Q 0" using corners(2) gb by (auto simp: hasZero_def fle_def)
    then have nz: "ev (lo b) \<noteq> Q 0" "ev (hi b) \<noteq> Q 0" "ev y \<noteq> Q 0" using gb by auto
    have c: "ev (fdiv u v) = divE (ev u) (ev v) \<and> \<not> infOverInf (ev u) (ev v)" if "u \<in> {lo a, hi a}" "v \<in> {lo b, hi b}" for u v
      using fdiv_ev [of u v] that ga gb nz q by (auto split: if_splits)
    have "\<not> infOverInf (ev x) (ev y)"
      using c [of "lo a" "lo b"] c [of "lo a" "hi b"] c [of "hi a" "lo b"] c [of "hi a" "hi b"] ga gb
      by (auto simp: infOverInf_def)
    then have z: "fdiv x y \<noteq> NaN" "ev (fdiv x y) = divE (ev x) (ev y)"
      using fdiv_ev [OF num(1,2) nz(3)] by auto
    have hull: "ev (fmin ?q) \<le> ev (fdiv x y) \<and> ev (fdiv x y) \<le> ev (fmax ?q)"
      unfolding z(2) by (rule list_hull [OF q])
        (use divE_between [of "ev (lo a)" "ev x" "ev (hi a)" "ev (lo b)" "ev y" "ev (hi b)"] ga gb s c in simp_all)
    have "is_integer (fdiv x y)" if "feq (fmin ?q) (fmax ?q)" "is_integer (fmin ?q)"
      using that hull z(1) by (auto simp: feq_def is_integer_ev simp del: fmin_Cons fmax_Cons)
    then show ?thesis unfolding t using z(1) hull q
      by (intro gamma_absValI) (simp_all del: fmin_Cons fmax_Cons)
  qed
qed

lemma fmod_ev:
  assumes "x \<noteq> NaN" "y \<noteq> NaN"
  shows "ev x = Q a \<Longrightarrow> ev y = Q b \<Longrightarrow> b \<noteq> 0 \<Longrightarrow> fmod x y \<noteq> NaN \<and> ev (fmod x y) = Q (remQ a b)"
    and "ev x = Q a \<Longrightarrow> ev y = Q 0 \<Longrightarrow> fmod x y = NaN"
    and "ev x = Q a \<Longrightarrow> ev y = PInf \<or> ev y = NInf \<Longrightarrow> fmod x y = x"
    and "ev x = PInf \<or> ev x = NInf \<Longrightarrow> fmod x y = NaN"
  using assms by (auto simp: fmod_def remQ_def truncZ_def split: ext.splits)

lemma is_f64_fmod: assumes "is_f64 x" "is_f64 y" shows "is_f64 (fmod x y)"
proof (cases "x = NaN \<or> y = NaN")
  case False
  then have "rep (a - b * of_int (truncZ (a / b)))" if "ev x = Q a" "ev y = Q b" "b \<noteq> 0" for a b
    using rep_remQ [of a b] is_f64_ev assms that by (simp add: remQ_def)
  then show ?thesis using False assms(1) by (auto simp: fmod_def split: ext.splits)
qed (simp add: fmod_def)

lemma is_integer_fmod: assumes "is_integer x" "is_integer y" "fmod x y \<noteq> NaN" shows "is_integer (fmod x y)"
proof -
  obtain m n where e: "x \<noteq> NaN" "y \<noteq> NaN" "ev x = Q (of_int m)" "ev y = Q (of_int n)" using assms(1,2) by (auto simp: is_integer_ev)
  then have "n \<noteq> 0" using fmod_ev(2) assms(3) by fastforce
  then have "ev (fmod x y) = Q (of_int (m - n * truncZ (rat_of_int m / of_int n)))"
    using fmod_ev(1) [OF e(1,2) e(3,4)] by (simp add: remQ_def)
  then show ?thesis using assms(3) unfolding is_integer_ev by blast
qed

lemma ev_fabs: "x \<noteq> NaN \<Longrightarrow> ev (fabs x) = (case ev x of Q q \<Rightarrow> Q \<bar>q\<bar> | _ \<Rightarrow> PInf)"
  by (cases x rule: fabs.cases) auto

lemma fabs_NaN [simp]: "fabs x = NaN \<longleftrightarrow> x = NaN"
  by (cases x rule: fabs.cases) auto

lemma is_f64_fabs [simp]: "is_f64 x \<Longrightarrow> is_f64 (fabs x)"
  by (cases x rule: fabs.cases) auto

lemma is_integer_fabs: "is_integer x \<Longrightarrow> is_integer (fabs x)"
  by (cases x rule: fabs.cases) (auto simp: is_integer_ev abs_if intro: exI [of _ "- n" for n])

lemma fabs_le_max:
  assumes "y \<noteq> NaN" "l \<noteq> NaN" "h \<noteq> NaN" "ev l \<le> ev y" "ev y \<le> ev h"
  shows "ev (fabs y) \<le> ev (fmax [fabs l, fabs h])"
proof -
  have "ev (fabs y) \<le> ev (fabs l) \<or> ev (fabs y) \<le> ev (fabs h)"
    using assms by (cases "ev l"; cases "ev y"; cases "ev h") (auto simp: ev_fabs)
  moreover have "ev (fabs l) \<le> ev (fmax [fabs l, fabs h])" "ev (fabs h) \<le> ev (fmax [fabs l, fabs h])"
    using fmax_ge [of "[fabs l, fabs h]"] assms fabs_NaN [of l] fabs_NaN [of h] by (simp_all del: fmax_Cons fabs_NaN)
  ultimately show ?thesis by (meson order_trans)
qed

text \<open>The bound of the remainder: the largest divisor in magnitude, less one when both sides are
  whole; it dominates every remainder, whose sign is the dividend's.\<close>

lemma mod_bound:
  assumes x: "x \<noteq> NaN" "is_f64 x" and y: "y \<noteq> NaN" "is_f64 y" "ev y \<noteq> Q 0"
    and d: "d \<noteq> NaN" "ev (fabs y) \<le> ev d" and w: "w \<Longrightarrow> is_integer x \<and> is_integer y"
    and f: "fmod x y \<noteq> NaN"
  defines "bound \<equiv> if w \<and> is_finite d then fsub d (fin 1) else d"
  shows "bound \<noteq> NaN" "Q 0 \<le> ev bound" "ev (fabs (fmod x y)) \<le> ev bound"
proof -
  obtain a where a: "ev x = Q a" using fmod_ev(4) [OF x(1) y(1)] f by (cases "ev x") auto
  have r: "Q 0 \<le> ev (fabs (fmod x y))" using f by (auto simp: ev_fabs split: ext.splits)
  have plain: "ev (fabs (fmod x y)) \<le> ev d"
  proof (cases "ev y")
    case (Q b)
    then have "\<bar>remQ a b\<bar> \<le> \<bar>b\<bar>" using remQ_bounds(1) [of b a] y by auto
    then have "ev (fabs (fmod x y)) \<le> ev (fabs y)" using fmod_ev(1) [OF x(1) y(1) a Q] y Q by (auto simp: ev_fabs)
    then show ?thesis using d by order
  qed (use d y in \<open>auto simp: ev_fabs\<close>)
  have "bound \<noteq> NaN \<and> ev (fabs (fmod x y)) \<le> ev bound"
  proof (cases "w \<and> is_finite d")
    case False
    then show ?thesis using d plain by (auto simp: bound_def)
  next
    case True
    then obtain m n where mn: "ev x = Q (of_int m)" "ev y = Q (of_int n)" using w by (auto simp: is_integer_ev)
    then have n: "rat_of_int n \<noteq> 0" using y by auto
    obtain c where c: "ev d = Q c" using True by (cases "ev d") (auto simp: is_finite_ev)
    have e: "ev (fmod x y) = Q (remQ (of_int m) (of_int n))" using fmod_ev(1) [OF x(1) y(1) mn] n by simp
    have "is_integer (fabs (fmod x y))" using is_integer_fabs is_integer_fmod w True f by blast
    then obtain k where k: "\<bar>remQ (rat_of_int m) (of_int n)\<bar> = of_int k" using e f by (auto simp: is_integer_ev ev_fabs)
    have "rat_of_int k < of_int \<bar>n\<bar>" using remQ_bounds(1) [OF n, of "of_int m"] k by simp
    then have "k + 1 \<le> \<bar>n\<bar>" by (simp only: of_int_less_iff)
    then have "rat_of_int (k + 1) \<le> of_int \<bar>n\<bar>" by (simp only: of_int_le_iff)
    then have "of_int k \<le> c - 1" using d(2) y(1) mn(2) c by (simp add: ev_fabs)
    moreover have "rep (of_int k)" using is_f64_fmod [OF x(2) y(2)] is_f64_ev e f k by (metis rep_abs)
    ultimately have "Q (of_int k) \<le> rndE (c - 1)" by (simp add: rep_mono)
    moreover have "bound \<noteq> NaN \<and> ev bound = rndE (c - 1)"
      using fadd_ev [of d "fneg (fin 1)"] d c True by (simp add: bound_def fsub_def)
    ultimately show ?thesis using e f k by (simp add: ev_fabs)
  qed
  then show "bound \<noteq> NaN" "Q 0 \<le> ev bound" "ev (fabs (fmod x y)) \<le> ev bound" using r by auto
qed

lemma fabs_le_cases:
  assumes "z \<noteq> NaN" "b \<noteq> NaN" "ev (fabs z) \<le> ev b"
  shows "ev (fneg b) \<le> ev z" "ev z \<le> ev b"
  using assms by (cases "ev z"; cases "ev b"; force simp: ev_fabs ev_fneg)+

lemma fmod_sign:
  assumes "x \<noteq> NaN" "y \<noteq> NaN" "fmod x y \<noteq> NaN"
  shows "Q 0 \<le> ev x \<Longrightarrow> Q 0 \<le> ev (fmod x y)" "ev x \<le> Q 0 \<Longrightarrow> ev (fmod x y) \<le> Q 0"
proof -
  obtain a where a: "ev x = Q a" using assms fmod_ev(4) by (cases "ev x") auto
  have z: "ev y \<noteq> Q 0" using fmod_ev(2) [OF assms(1,2) a] assms(3) by auto
  show "Q 0 \<le> ev x \<Longrightarrow> Q 0 \<le> ev (fmod x y)" "ev x \<le> Q 0 \<Longrightarrow> ev (fmod x y) \<le> Q 0"
    using fmod_ev(1,3) [OF assms(1,2) a] remQ_bounds(3,4) a z by (cases "ev y"; auto)+
qed

lemma transferMod_sound [sound_intros]:
  assumes "x \<in> gamma a" "y \<in> gamma b"
  shows "fmod x y \<in> gamma (transferMod a b)"
  using assms
proof (cases rule: gamma_cases)
  case nan
  then show ?thesis
    by (auto simp: transferMod_def Let_def fmod_def isSingleton_def constVal_def)
next
  case num
  note ga = assms(1) [unfolded in_gamma_num [OF num(1)]]
  note gb = assms(2) [unfolded in_gamma_num [OF num(2)]]
  define n where "n = (if feq (lo a) NegInfinity \<or> feq (hi a) Infinity then True
    else if fle (lo b) (fin 0) \<and> fle (fin 0) (hi b) then True else maybeNaN a \<or> maybeNaN b)"
  define dMax where "dMax = fmax [fabs (lo b), fabs (hi b)]"
  define bound where "bound = (if (whole a \<and> whole b) \<and> is_finite dMax then fsub dMax (fin 1) else dMax)"
  have t: "transferMod a b = (if isSingleton a \<and> isSingleton b \<and> \<not> n then constVal (fmod (lo a) (lo b)) None
    else absVal (if flt (lo a) (fin 0) then fneg bound else fin 0) (if flt (fin 0) (hi a) then bound else fin 0)
      (whole a \<and> whole b) n None)"
    using num unfolding transferMod_def bound_def dMax_def n_def Let_def by simp
  have f: "is_f64 (fmod x y)" using is_f64_fmod ga gb by blast
  have nan: "fmod x y = NaN \<Longrightarrow> n"
    using fmod_ev [OF num(1,2)] ga gb unfolding n_def by (cases "ev x"; cases "ev y") (auto simp: feq_def fle_def)
  show ?thesis
  proof (cases "isSingleton a \<and> isSingleton b \<and> \<not> n")
    case True
    then have e: "ev x = ev (lo a)" "ev y = ev (lo b)" using ga gb by (auto simp: isSingleton_def feq_def)
    have "fmod x y \<noteq> NaN" using nan True by blast
    moreover have "fmod (lo a) (lo b) \<noteq> NaN \<and> ev (fmod (lo a) (lo b)) = ev (fmod x y)"
      using calculation e fmod_ev [OF num(1,2)] fmod_ev [of "lo a" "lo b"] ga gb
      by (cases "ev x"; cases "ev y"; metis)
    ultimately show ?thesis using True f unfolding t by (simp add: gamma_constVal_ev)
  next
    case False
    then have t': "transferMod a b = absVal (if flt (lo a) (fin 0) then fneg bound else fin 0)
        (if flt (fin 0) (hi a) then bound else fin 0) (whole a \<and> whole b) n None" unfolding t by (rule if_not_P)
    have b: "bound \<noteq> NaN \<and> Q 0 \<le> ev bound \<and> ev (fabs (fmod x y)) \<le> ev bound" if z: "fmod x y \<noteq> NaN"
    proof -
      have "ev y \<noteq> Q 0" using z fmod_ev(2,4) [OF num(1,2)] by (cases "ev x") auto
      moreover have "dMax \<noteq> NaN" unfolding dMax_def using gb fabs_NaN [of "lo b"] fabs_NaN [of "hi b"]
        by (simp del: fmax_Cons fabs_NaN)
      moreover have "ev (fabs y) \<le> ev dMax" unfolding dMax_def using fabs_le_max num gb by blast
      ultimately show ?thesis unfolding bound_def
        using mod_bound [of x y dMax "whole a \<and> whole b"] num ga gb z by blast
    qed
    show ?thesis unfolding t'
    proof (rule gamma_absValI [OF f nan])
      assume z: "fmod x y \<noteq> NaN"
      note le = fabs_le_cases [OF z, of bound] b [OF z]
      show "(if flt (lo a) (fin 0) then fneg bound else fin 0) \<noteq> NaN \<and> (if flt (fin 0) (hi a) then bound else fin 0) \<noteq> NaN \<and>
        ev (if flt (lo a) (fin 0) then fneg bound else fin 0) \<le> ev (fmod x y) \<and>
        ev (fmod x y) \<le> ev (if flt (fin 0) (hi a) then bound else fin 0)"
        using le fmod_sign [OF num(1,2) z] ga by (auto simp: flt_def)
    qed (use is_integer_fmod ga gb in auto)
  qed
qed

subsection \<open>Bitwise operators\<close>

lemma toInt32_ev: "x \<noteq> NaN \<Longrightarrow> y \<noteq> NaN \<Longrightarrow> ev x = ev y \<Longrightarrow> toInt32 x = toInt32 y"
  by (cases x rule: toInt32.cases; cases y rule: toInt32.cases) (auto simp: truncZ_def)

lemma sint32_bounds: "- (2 ^ 31) \<le> sint (w :: 32 word)" "sint w \<le> 2 ^ 31 - 1"
  using sint_ge [of w] sint_lt [of w] by simp_all

lemma uint32_bounds: "0 \<le> uint (w :: 32 word)" "uint w \<le> 2 ^ 32 - 1"
  using uint_lt2p [of w] by simp_all

lemma of_i32_props [simp]:
  "of_i32 w \<noteq> NaN" "is_f64 (of_i32 w)" "is_integer (of_i32 w)"
  "Q (- (2 ^ 31)) \<le> ev (of_i32 w)" "ev (of_i32 w) \<le> Q (2 ^ 31 - 1)"
proof -
  note b = sint32_bounds [of w]
  show "is_f64 (of_i32 w)" unfolding of_i32_def is_f64.simps by (rule rep_small_int) (use b in \<open>simp add: abs_less_iff\<close>)
  have "rat_of_int (- (2 ^ 31)) \<le> of_int (sint w)" "rat_of_int (sint w) \<le> of_int (2 ^ 31 - 1)"
    using b by (simp_all only: of_int_le_iff)
  then show "Q (- (2 ^ 31)) \<le> ev (of_i32 w)" "ev (of_i32 w) \<le> Q (2 ^ 31 - 1)" by (simp_all add: of_i32_def)
  show "is_integer (of_i32 w)" unfolding of_i32_def is_integer_ev ev.simps by blast
qed (simp_all add: of_i32_def)

lemma of_u32_props [simp]:
  "of_u32 w \<noteq> NaN" "is_f64 (of_u32 w)" "is_integer (of_u32 w)"
  "Q 0 \<le> ev (of_u32 w)" "ev (of_u32 w) \<le> Q (2 ^ 32 - 1)"
proof -
  note b = uint32_bounds [of w]
  show "is_f64 (of_u32 w)" unfolding of_u32_def is_f64.simps by (rule rep_small_int) (use b in \<open>simp add: abs_less_iff\<close>)
  have "rat_of_int (uint w) \<le> of_int (2 ^ 32 - 1)" using b by (simp only: of_int_le_iff)
  then show "ev (of_u32 w) \<le> Q (2 ^ 32 - 1)" by (simp add: of_u32_def)
  show "is_integer (of_u32 w)" unfolding of_u32_def is_integer_ev ev.simps by blast
  have "rat_of_int 0 \<le> of_int (uint w)" using b by (simp only: of_int_le_iff)
  then show "Q 0 \<le> ev (of_u32 w)" by (simp only: of_u32_def ev.simps less_eq_ext.simps of_int_0)
qed (simp_all add: of_u32_def)

lemma gamma_int32: "of_i32 w \<in> gamma (absVal (fin (- (2 ^ 31))) (fin (2 ^ 31 - 1)) True n None)"
  using of_i32_props [of w] by (intro gamma_absValI) (simp_all only: ev.simps, simp_all)

lemma gamma_uint32: "of_u32 w \<in> gamma (absVal (fin 0) (fin (2 ^ 32 - 1)) True n None)"
  using of_u32_props [of w] by (intro gamma_absValI) (simp_all only: ev.simps, simp_all)

lemma isSingleton_ev: "isSingleton a \<Longrightarrow> x \<in> gamma a \<Longrightarrow> x \<noteq> NaN \<and> lo a \<noteq> NaN \<and> ev x = ev (lo a)"
  by (cases "x = NaN") (auto simp: isSingleton_def feq_def in_gamma_num)

lemma bitOp_ev:
  assumes "x \<noteq> NaN" "x' \<noteq> NaN" "ev x = ev x'" "y \<noteq> NaN" "y' \<noteq> NaN" "ev y = ev y'"
  shows "bitOp op x y = bitOp op x' y'"
  using toInt32_ev [OF assms(1-3)] toInt32_ev [OF assms(4-6)] by (simp add: bitOp_def shiftCount_def)

definition bitwiseOps :: "IrNumBinOp set" where
  "bitwiseOps = {OpAnd, OpOr, OpXor, OpShl, OpSar, OpShr}"

lemma is_f64_bitOp [simp]: "is_f64 (bitOp op x y)"
  by (simp add: bitOp_def)

lemma transferBitwise_sound [sound_intros]:
  assumes "x \<in> gamma a" "y \<in> gamma b" "op \<in> bitwiseOps"
  shows "bitOp op x y \<in> gamma (transferBitwise op a b)"
proof (cases "isSingleton a \<and> isSingleton b")
  case True
  then have "bitOp op x y = bitOp op (lo a) (lo b)"
    using isSingleton_ev [OF _ assms(1)] isSingleton_ev [OF _ assms(2)] by (intro bitOp_ev) auto
  then show ?thesis using True gamma_constVal by (simp add: transferBitwise_def)
next
  case False
  then have t: "transferBitwise op a b = (if op = OpShr then absVal (fin 0) (fin (2 ^ 32 - 1)) True False None
     else absVal (fin (- (2 ^ 31))) (fin (2 ^ 31 - 1)) True False None)"
    unfolding transferBitwise_def by (rule if_not_P)
  have i: "op = OpShr \<longleftrightarrow> op \<notin> {OpAnd, OpOr, OpXor, OpShl, OpSar}" using assms(3) by (auto simp: bitwiseOps_def)
  show ?thesis unfolding t bitOp_def using i by (auto simp only: gamma_int32 gamma_uint32 split: if_split)
qed

lemma transferBitNot_sound [sound_intros]:
  assumes "x \<in> gamma a" shows "fbitnot x \<in> gamma (transferBitNot a)"
proof (cases "isSingleton a")
  case True
  then have "toInt32 x = toInt32 (lo a)" using isSingleton_ev [OF _ assms] toInt32_ev by blast
  then show ?thesis using True gamma_constVal by (simp add: transferBitNot_def fbitnot_def)
next
  case False
  then show ?thesis unfolding transferBitNot_def fbitnot_def by (simp only: if_False gamma_int32)
qed

subsection \<open>The \<open>Math\<close> functions\<close>

lemma roundZ_mono: "a \<le> b \<Longrightarrow> roundZ f a \<le> roundZ f b"
proof (cases f)
  case Trunc
  assume "a \<le> b"
  moreover have "\<lceil>a\<rceil> \<le> \<lfloor>b\<rfloor>" if "a < 0" "0 \<le> b"
    using that order_trans [of "\<lceil>a\<rceil>" 0 "\<lfloor>b\<rfloor>"] by simp
  ultimately show ?thesis using Trunc by (auto simp: truncZ_def floor_mono ceiling_mono not_less)
qed (auto simp: floor_mono ceiling_mono)

lemma roundZ_int [simp]: "roundZ f (of_int n) = n"
proof -
  have "\<lfloor>rat_of_int n + 1 / 2\<rfloor> = n" by (simp add: floor_eq_iff)
  then show ?thesis by (cases f) (auto simp: truncZ_def)
qed

lemma fround_ev: "x \<noteq> NaN \<Longrightarrow> fround f x \<noteq> NaN \<and>
    ev (fround f x) = (case ev x of Q q \<Rightarrow> Q (of_int (roundZ f q)) | e \<Rightarrow> e)"
  using roundZ_int [of f 0] by (cases "(f, x)" rule: fround.cases) auto

lemma fround_mono: "x \<noteq> NaN \<Longrightarrow> y \<noteq> NaN \<Longrightarrow> ev x \<le> ev y \<Longrightarrow> ev (fround f x) \<le> ev (fround f y)"
  using fround_ev [of x f] fround_ev [of y f] by (auto simp: roundZ_mono split: ext.splits)

lemma roundZ_near: "\<bar>of_int (roundZ f q) - q\<bar> < 1"
  by (cases f) (auto simp: truncZ_def abs_less_iff; linarith)+

text \<open>Rounding a representable number gives a representable integer: either its last place is
  at least one and it is an integer, or it is small.\<close>

lemma rep_roundZ: assumes "rep q" shows "rep (of_int (roundZ f q))"
proof -
  obtain m e where q: "q = of_int m * 2 powi e" "\<bar>m\<bar> \<le> 2 ^ 53" "- 1074 \<le> e" using rep_form [OF assms] by blast
  show ?thesis
  proof (cases "0 \<le> e")
    case True
    then have "q = of_int (m * 2 ^ nat e)" using q by (simp add: power_int_nonneg_exp)
    then show ?thesis using assms by (metis roundZ_int)
  next
    case False
    have "\<bar>rat_of_int m\<bar> \<le> 2 ^ 53" using q(2) by (metis of_int_abs of_int_le_iff of_int_numeral of_int_power)
    moreover have "(2::rat) powi e \<le> 2 powi (- 1)" using False by (simp only: powi2_mono_iff)
    then have "(2::rat) powi e \<le> 1 / 2" by simp
    ultimately have "\<bar>rat_of_int m\<bar> * 2 powi e \<le> 2 ^ 53 * (1 / 2)" by (intro mult_mono) auto
    then have "\<bar>q\<bar> \<le> 2 ^ 52" using q(1) by (simp add: abs_mult)
    then have "\<bar>rat_of_int (roundZ f q)\<bar> < of_int (2 ^ 53)" using roundZ_near [of f q] by (simp add: abs_less_iff abs_le_iff)
    then have "\<bar>roundZ f q\<bar> < 2 ^ 53" by (metis of_int_abs of_int_less_iff)
    then show ?thesis by (rule rep_small_int)
  qed
qed

lemma is_f64_fround [simp]: "is_f64 x \<Longrightarrow> is_f64 (fround f x)"
  by (cases "(f, x)" rule: fround.cases) (auto simp: rep_roundZ)

lemma is_integer_fround: "x \<noteq> NaN \<Longrightarrow> is_finite (fround f x) \<Longrightarrow> is_integer (fround f x)"
  using fround_ev [of x f] by (auto simp: is_integer_ev is_finite_ev split: ext.splits)

lemma transferMathRound_sound [sound_intros]:
  assumes "x \<in> gamma a" shows "fround f x \<in> gamma (transferMathRound f a)"
proof (cases "x = NaN")
  case True
  then show ?thesis using assms by (simp add: transferMathRound_def)
next
  case False
  note ga = assms [unfolded in_gamma_num [OF False]]
  have m: "ev (fround f (lo a)) \<le> ev (fround f x)" "ev (fround f x) \<le> ev (fround f (hi a))"
    using fround_mono ga False by blast+
  have n: "fround f x \<noteq> NaN" "fround f (lo a) \<noteq> NaN" "fround f (hi a) \<noteq> NaN" using fround_ev False ga by blast+
  show ?thesis using ga gamma_numeric [OF assms False] m n is_integer_fround [OF False] is_finite_between [OF _ _ n(1) m]
    by (auto simp: transferMathRound_def intro!: gamma_absValI)
qed

lemma transferAbs_sound [sound_intros]:
  assumes "x \<in> gamma a" shows "fabs x \<in> gamma (transferAbs a)"
proof (cases "x = NaN")
  case True
  then show ?thesis using assms by (simp add: transferAbs_def Let_def)
next
  case False
  note ga = assms [unfolded in_gamma_num [OF False]]
  let ?m = "fmin [fabs (lo a), fabs (hi a)]" and ?M = "fmax [fabs (lo a), fabs (hi a)]"
  have n: "fabs (lo a) \<noteq> NaN" "fabs (hi a) \<noteq> NaN" using ga by auto
  then have nM: "?m \<noteq> NaN" "?M \<noteq> NaN" by (metis fmin_NaN fmax_NaN set_ConsD empty_iff list.set(1))+
  have u: "ev (fabs x) \<le> ev ?M" using fabs_le_max False ga by blast
  have z: "Q 0 \<le> ev (fabs x)" using False by (auto simp: ev_fabs split: ext.splits)
  have l: "ev ?m \<le> ev (fabs x)" if "\<not> (fle (lo a) (fin 0) \<and> fle (fin 0) (hi a))"
  proof -
    have "ev (fabs (lo a)) \<le> ev (fabs x) \<or> ev (fabs (hi a)) \<le> ev (fabs x)"
      using that ga False by (cases "ev (lo a)"; cases "ev x"; cases "ev (hi a)") (auto simp: ev_fabs fle_def)
    then show ?thesis using n by (auto simp: fmin2_ev min_le_iff_disj)
  qed
  show ?thesis
    using ga gamma_numeric [OF assms False] False nM u z l is_integer_fabs
    by (auto simp: transferAbs_def Let_def simp del: fmin_Cons fmax_Cons intro!: gamma_absValI)
qed

lemma fmin_mono: "list_all2 (\<lambda>x y. x \<noteq> NaN \<and> y \<noteq> NaN \<and> ev x \<le> ev y) xs ys \<Longrightarrow>
    fmin xs \<noteq> NaN \<and> fmin ys \<noteq> NaN \<and> ev (fmin xs) \<le> ev (fmin ys)"
  by (induction rule: list_all2_induct) (auto simp: fmin2_ev fmin2_def simp del: fmin_NaN intro: min.mono)

lemma fmax_mono: "list_all2 (\<lambda>x y. x \<noteq> NaN \<and> y \<noteq> NaN \<and> ev x \<le> ev y) xs ys \<Longrightarrow>
    fmax xs \<noteq> NaN \<and> fmax ys \<noteq> NaN \<and> ev (fmax xs) \<le> ev (fmax ys)"
  by (induction rule: list_all2_induct) (auto simp: fmax2_ev fmax2_def simp del: fmax_NaN intro: max.mono)

fun minmaxOf :: "minmax \<Rightarrow> jsdouble list \<Rightarrow> jsdouble" where
  "minmaxOf MMin = fmin"
| "minmaxOf MMax = fmax"

lemma minmaxOf_mono: "list_all2 (\<lambda>x y. x \<noteq> NaN \<and> y \<noteq> NaN \<and> ev x \<le> ev y) xs ys \<Longrightarrow>
    minmaxOf f xs \<noteq> NaN \<and> minmaxOf f ys \<noteq> NaN \<and> ev (minmaxOf f xs) \<le> ev (minmaxOf f ys)"
  by (cases f) (use fmin_mono fmax_mono in auto)

lemma minmaxOf_mem: "xs \<noteq> [] \<Longrightarrow> NaN \<notin> set xs \<Longrightarrow> \<exists>x\<in>set xs. ev (minmaxOf f xs) = ev x"
  by (cases f) (use fmin_in fmax_in in auto)

lemma is_f64_minmaxOf: "\<forall>x\<in>set xs. is_f64 x \<Longrightarrow> is_f64 (minmaxOf f xs)"
  by (cases f; induction xs) (auto simp: fmin2_def fmax2_def)

lemma minmaxOf_NaN [simp]: "minmaxOf f xs = NaN \<longleftrightarrow> NaN \<in> set xs"
  by (cases f) auto

lemma transferMinMax_sound [sound_intros]:
  assumes "list_all2 (\<lambda>x a. x \<in> gamma a) xs args" "xs \<noteq> []"
  shows "minmaxOf f xs \<in> gamma (transferMinMax f args)"
proof (cases "NaN \<in> set xs")
  case True
  then obtain i where "i < length xs" "xs ! i = NaN" by (auto simp: in_set_conv_nth)
  then have "list_ex maybeNaN args" using assms(1) by (auto simp: list_all2_conv_all_nth list_ex_length) force
  moreover have m: "minmaxOf f xs = NaN" using True by simp
  ultimately show ?thesis unfolding m by (simp add: transferMinMax_def Let_def)
next
  case False
  have mem: "\<exists>x\<in>set xs. x \<in> gamma a" if "a \<in> set args" for a
    using assms(1) that by (metis list_all2_conv_all_nth in_set_conv_nth)
  then have num: "\<not> list_ex (\<lambda>v. \<not> hasNumeric v) args"
    using False gamma_numeric by (auto simp: list_ex_iff)
  have l: "list_all2 (\<lambda>x y. x \<noteq> NaN \<and> y \<noteq> NaN \<and> ev x \<le> ev y) (map lo args) xs"
    and h: "list_all2 (\<lambda>x y. x \<noteq> NaN \<and> y \<noteq> NaN \<and> ev x \<le> ev y) xs (map hi args)"
    using assms(1) False by (auto simp: list_all2_conv_all_nth in_gamma_num in_set_conv_nth)
  have t: "transferMinMax f args = absVal (minmaxOf f (map lo args)) (minmaxOf f (map hi args)) (list_all whole args) (list_ex maybeNaN args) None"
    using num by (cases f) (simp_all add: transferMinMax_def)
  have "is_f64 x" if "x \<in> set xs" for x
    using assms(1) that by (auto simp: list_all2_conv_all_nth in_set_conv_nth gamma_def)
  then have f: "is_f64 (minmaxOf f xs)" by (simp add: is_f64_minmaxOf)
  obtain z where z: "z \<in> set xs" "ev (minmaxOf f xs) = ev z" using minmaxOf_mem [OF assms(2) False] by blast
  have i: "is_integer (minmaxOf f xs)" if w: "list_all whole args"
  proof -
    obtain a where "a \<in> set args" "z \<in> gamma a"
      using assms(1) z(1) by (metis list_all2_conv_all_nth in_set_conv_nth)
    moreover have "z \<noteq> NaN" using z(1) False by blast
    ultimately have "is_integer z" using w by (auto simp: list_all_iff in_gamma_num)
    then show ?thesis using z False by (auto simp: is_integer_ev)
  qed
  show ?thesis unfolding t using minmaxOf_mono [OF l, of f] minmaxOf_mono [OF h, of f] f i
    by (intro gamma_absValI) auto
qed

section \<open>Refinement\<close>

text \<open>When a comparison of two numbers is true.\<close>

fun cmpHolds :: "IrNumBinOp \<Rightarrow> jsdouble \<Rightarrow> jsdouble \<Rightarrow> bool" where
  "cmpHolds OpLt x y = flt x y"
| "cmpHolds OpLe x y = fle x y"
| "cmpHolds OpGt x y = flt y x"
| "cmpHolds OpGe x y = fle y x"
| "cmpHolds OpEq x y = feq x y"
| "cmpHolds OpNe x y = (\<not> feq x y)"
| "cmpHolds _ x y = False"

lemma meetInterval_sound:
  assumes "x \<in> gamma v" "x = NaN \<Longrightarrow> \<not> clearNaN"
    "x \<noteq> NaN \<Longrightarrow> l \<noteq> NaN \<and> h \<noteq> NaN \<and> ev l \<le> ev x \<and> ev x \<le> ev h"
  shows "x \<in> gamma (meetInterval v l h clearNaN)"
proof (cases "x = NaN")
  case True
  then show ?thesis using assms by (simp add: meetInterval_def Let_def del: fmin_Cons fmax_Cons)
next
  case False
  note g = assms(1) [unfolded in_gamma_num [OF False]] assms(3) [OF False]
  let ?l = "fmax [lo v, l]" and ?h = "fmin [hi v, h]"
  have n: "?l \<noteq> NaN" "?h \<noteq> NaN" "ev ?l \<le> ev x" "ev x \<le> ev ?h"
    using g by (auto simp: fmax2_ev fmin2_ev)
  then have "\<not> flt ?h ?l" by (auto simp: flt_def simp del: fmin_Cons fmax_Cons)
  then have t: "meetInterval v l h clearNaN = absVal ?l ?h (whole v) (if clearNaN then False else maybeNaN v) (spelling v)"
    unfolding meetInterval_def Let_def by (rule if_not_P)
  show ?thesis unfolding t using n g False by (intro gamma_absValI) auto
qed

lemma keepNumeric_sound: "x \<in> gamma a \<Longrightarrow> (x = NaN \<Longrightarrow> \<not> clearNaN) \<Longrightarrow> x \<in> gamma (keepNumeric clearNaN a)"
  by (auto simp: keepNumeric_def gamma_def)

text \<open>The sharpened bounds for a whole value next to a bound that is not NaN.\<close>

lemma fpred_ev: "x \<noteq> NaN \<Longrightarrow> fsub x (fin 1) \<noteq> NaN \<and> ev (fsub x (fin 1)) = (case ev x of Q q \<Rightarrow> rndE (q - 1) | e \<Rightarrow> e)"
  using fadd_ev [of x "fneg (fin 1)"] by (cases "ev x") (auto simp: fsub_def)

lemma fsucc_ev: "x \<noteq> NaN \<Longrightarrow> fadd x (fin 1) \<noteq> NaN \<and> ev (fadd x (fin 1)) = (case ev x of Q q \<Rightarrow> rndE (q + 1) | e \<Rightarrow> e)"
  using fadd_ev [of x "fin 1"] by (cases "ev x") auto

lemma sharp_upper:
  assumes "is_integer x" "is_f64 x" "h \<noteq> NaN" "ev x < ev h"
  shows "ev x \<le> ev (fsub (fround Ceil h) (fin 1))"
proof -
  obtain n where n: "x \<noteq> NaN" "ev x = Q (of_int n)" using assms(1) by (auto simp: is_integer_ev)
  have r: "rep (of_int n)" using is_f64_ev assms(2) n by blast
  show ?thesis
  proof (cases "ev h")
    case (Q q)
    then have "of_int n < q" using assms(4) n by simp
    then have "n < \<lceil>q\<rceil>" by (simp add: less_ceiling_iff)
    then have "n + 1 \<le> \<lceil>q\<rceil>" by simp
    then have "rat_of_int (n + 1) \<le> of_int \<lceil>q\<rceil>" by (simp only: of_int_le_iff)
    then have "Q (of_int n) \<le> rndE (of_int \<lceil>q\<rceil> - 1)" using rep_mono(1) [OF r] by simp
    then show ?thesis using fround_ev [OF assms(3), of Ceil] fpred_ev [of "fround Ceil h"] Q n by simp
  qed (use assms fround_ev [OF assms(3), of Ceil] fpred_ev [of "fround Ceil h"] in auto)
qed

lemma sharp_lower:
  assumes "is_integer x" "is_f64 x" "l \<noteq> NaN" "ev l < ev x"
  shows "ev (fadd (fround Floor l) (fin 1)) \<le> ev x"
proof -
  obtain n where n: "x \<noteq> NaN" "ev x = Q (of_int n)" using assms(1) by (auto simp: is_integer_ev)
  have r: "rep (of_int n)" using is_f64_ev assms(2) n by blast
  show ?thesis
  proof (cases "ev l")
    case (Q q)
    then have "q < of_int n" using assms(4) n by simp
    then have "\<lfloor>q\<rfloor> < n" by (simp add: floor_less_iff)
    then have "\<lfloor>q\<rfloor> + 1 \<le> n" by simp
    then have "rat_of_int (\<lfloor>q\<rfloor> + 1) \<le> of_int n" by (simp only: of_int_le_iff)
    then have "rndE (of_int \<lfloor>q\<rfloor> + 1) \<le> Q (of_int n)" using rep_mono(2) [OF r] by simp
    then show ?thesis using fround_ev [OF assms(3), of Floor] fsucc_ev [of "fround Floor l"] Q n by simp
  qed (use assms fround_ev [OF assms(3), of Floor] fsucc_ev [of "fround Floor l"] in auto)
qed

lemma floor_upper: "is_integer x \<Longrightarrow> h \<noteq> NaN \<Longrightarrow> ev x \<le> ev h \<Longrightarrow> ev x \<le> ev (fround Floor h)"
  using fround_ev [of h Floor] by (cases "ev h") (auto simp: is_integer_ev le_floor_iff)

lemma ceil_lower: "is_integer x \<Longrightarrow> l \<noteq> NaN \<Longrightarrow> ev l \<le> ev x \<Longrightarrow> ev (fround Ceil l) \<le> ev x"
  using fround_ev [of l Ceil] by (cases "ev l") (auto simp: is_integer_ev ceiling_le_iff)

lemma refineLhs_sound:
  assumes "x \<in> gamma a" "y \<in> gamma b" "cmpHolds op x y" "clearNaN \<Longrightarrow> x \<noteq> NaN"
  shows "x \<in> gamma (refineLhs op a b clearNaN)"
proof (cases "\<not> hasNumeric b \<or> \<not> hasNumeric a")
  case True
  then show ?thesis using assms keepNumeric_sound by (auto simp: refineLhs_def)
next
  case False
  have c: "x = NaN \<Longrightarrow> \<not> clearNaN" using assms(4) by blast
  have x: "is_f64 x" "x \<noteq> NaN \<Longrightarrow> lo a \<noteq> NaN \<and> hi a \<noteq> NaN \<and> ev (lo a) \<le> ev x \<and> ev x \<le> ev (hi a) \<and> (whole a \<longrightarrow> is_integer x)"
    using assms(1) by (auto simp: gamma_def fle_def split: if_splits)
  have y: "y \<noteq> NaN \<Longrightarrow> lo b \<noteq> NaN \<and> hi b \<noteq> NaN \<and> ev (lo b) \<le> ev y \<and> ev y \<le> ev (hi b)"
    using assms(2) by (auto simp: gamma_def fle_def split: if_splits)
  note meet = meetInterval_sound [OF assms(1) c]
  note evs = fround_ev fpred_ev fsucc_ev
  have f: "refineLhs op a b clearNaN = (case op of
       OpLt \<Rightarrow> meetInterval a NegInfinity (if whole a then fsub (fround Ceil (hi b)) (fin 1) else hi b) clearNaN
     | OpLe \<Rightarrow> meetInterval a NegInfinity (if whole a then fround Floor (hi b) else hi b) clearNaN
     | OpGt \<Rightarrow> meetInterval a (if whole a then fadd (fround Floor (lo b)) (fin 1) else lo b) Infinity clearNaN
     | OpGe \<Rightarrow> meetInterval a (if whole a then fround Ceil (lo b) else lo b) Infinity clearNaN
     | OpEq \<Rightarrow> meetInterval a (lo b) (hi b) clearNaN
     | OpNe \<Rightarrow>
         if isSingleton b \<and> whole a \<and> is_integer (lo b) \<and> feq (lo a) (lo b)
         then meetInterval a (fadd (lo a) (fin 1)) (hi a) clearNaN
         else if isSingleton b \<and> whole a \<and> is_integer (lo b) \<and> feq (hi a) (lo b)
         then meetInterval a (lo a) (fsub (hi a) (fin 1)) clearNaN
         else keepNumeric clearNaN a
     | _ \<Rightarrow> a)"
    using False unfolding refineLhs_def by auto
  show ?thesis
  proof (cases op)
    case OpLt
    then have l: "x \<noteq> NaN" "y \<noteq> NaN" "ev x < ev y" using assms(3) by (auto simp: flt_def)
    then have "ev x < ev (hi b)" using y less_le_trans by blast
    then show ?thesis unfolding f using OpLt l x y sharp_upper evs
      by (auto intro!: meet)
  next
    case OpLe
    then have l: "x \<noteq> NaN" "y \<noteq> NaN" "ev x \<le> ev y" using assms(3) by (auto simp: fle_def)
    then have "ev x \<le> ev (hi b)" using y order_trans by blast
    then show ?thesis unfolding f using OpLe l x y floor_upper evs
      by (auto intro!: meet)
  next
    case OpGt
    then have l: "x \<noteq> NaN" "y \<noteq> NaN" "ev y < ev x" using assms(3) by (auto simp: flt_def)
    then have "ev (lo b) < ev x" using y le_less_trans by blast
    then show ?thesis unfolding f using OpGt l x y sharp_lower evs
      by (auto intro!: meet)
  next
    case OpGe
    then have l: "x \<noteq> NaN" "y \<noteq> NaN" "ev y \<le> ev x" using assms(3) by (auto simp: fle_def)
    then have "ev (lo b) \<le> ev x" using y order_trans by blast
    then show ?thesis unfolding f using OpGe l x y ceil_lower evs
      by (auto intro!: meet)
  next
    case OpEq
    then show ?thesis unfolding f using x y assms(3) by (auto simp: feq_def intro!: meet)
  next
    case OpNe
    have exc: "ev x \<noteq> ev (lo b)" if "x \<noteq> NaN" "isSingleton b"
      using isSingleton_ev [OF that(2) assms(2)] OpNe assms(3) that by (auto simp: feq_def)
    have up: "ev (fadd (lo a) (fin 1)) \<le> ev x" if "x \<noteq> NaN" "isSingleton b" "whole a" "is_integer (lo b)" "feq (lo a) (lo b)"
    proof -
      have "is_integer (lo a)" "ev (lo a) < ev x" using that x exc by (auto simp: is_integer_ev feq_def)
      then show ?thesis using sharp_lower [of x "lo a"] x that evs(1) [of "lo a" Floor] evs(3) [of "lo a"] evs(3) [of "fround Floor (lo a)"]
        by (auto simp: is_integer_ev)
    qed
    have dn: "ev x \<le> ev (fsub (hi a) (fin 1))" if "x \<noteq> NaN" "isSingleton b" "whole a" "is_integer (lo b)" "feq (hi a) (lo b)"
    proof -
      have "is_integer (hi a)" "ev x < ev (hi a)" using that x exc by (auto simp: is_integer_ev feq_def)
      then show ?thesis using sharp_upper [of x "hi a"] x that evs(1) [of "hi a" Ceil] evs(2) [of "hi a"] evs(2) [of "fround Ceil (hi a)"]
        by (auto simp: is_integer_ev)
    qed
    show ?thesis unfolding f using OpNe x up dn evs keepNumeric_sound [OF assms(1) c]
      by (auto intro!: meet)
  qed (use assms(3) in auto)
qed

section \<open>Properties of the domain\<close>

text \<open>The numeric operators of the language.\<close>

fun numOp :: "js_lib \<Rightarrow> IrNumBinOp \<Rightarrow> jsdouble \<Rightarrow> jsdouble \<Rightarrow> jsdouble" where
  "numOp rt OpAdd x y = fadd x y"
| "numOp rt OpSub x y = fsub x y"
| "numOp rt OpMul x y = fmul x y"
| "numOp rt OpDiv x y = fdiv x y"
| "numOp rt OpMod x y = fmod x y"
| "numOp rt OpPow x y = numberPow rt x y"
| "numOp rt op x y = bitOp op x y"

definition exactOps :: "IrNumBinOp set" where
  "exactOps = {OpAdd, OpSub, OpMul, OpDiv, OpMod} \<union> bitwiseOps"

text \<open>Bounds that cancel. The transfers of \<open>+\<close>, \<open>-\<close> and \<open>/\<close> compute with the operands' bounds, and
  a bound is NaN where two infinite bounds meet: opposite infinities in a sum, equal ones in a
  difference, and any two in a quotient whose divisor excludes zero.\<close>

definition infinite_f64 :: "jsdouble \<Rightarrow> bool" where
  "infinite_f64 x \<longleftrightarrow> x = Infinity \<or> x = NegInfinity"

fun cancels :: "IrNumBinOp \<Rightarrow> AbsVal \<Rightarrow> AbsVal \<Rightarrow> bool" where
  "cancels OpAdd a b \<longleftrightarrow> infinite_f64 (lo a) \<and> lo b = fneg (lo a) \<or> infinite_f64 (hi a) \<and> hi b = fneg (hi a)"
| "cancels OpSub a b \<longleftrightarrow> infinite_f64 (lo a) \<and> hi b = lo a \<or> infinite_f64 (hi a) \<and> lo b = hi a"
| "cancels OpDiv a b \<longleftrightarrow> \<not> hasZero b \<and> (infinite_f64 (lo a) \<or> infinite_f64 (hi a)) \<and> (infinite_f64 (lo b) \<or> infinite_f64 (hi b))"
| "cancels _ a b \<longleftrightarrow> False"

lemma infinite_ev: "infinite_f64 x \<longleftrightarrow> x \<noteq> NaN \<and> (ev x = PInf \<or> ev x = NInf)"
  by (cases x) (auto simp: infinite_f64_def)

lemma fadd_NaN: "x \<noteq> NaN \<Longrightarrow> y \<noteq> NaN \<Longrightarrow> fadd x y = NaN \<longleftrightarrow> ev x = PInf \<and> ev y = NInf \<or> ev x = NInf \<and> ev y = PInf"
  using fadd_ev [of x y] plusE_None [of "ev x" "ev y"] by (auto split: option.splits)

lemma ev_infinite: "x \<noteq> NaN \<Longrightarrow> ev x = PInf \<longleftrightarrow> x = Infinity" "x \<noteq> NaN \<Longrightarrow> ev x = NInf \<longleftrightarrow> x = NegInfinity"
  by (cases x; auto)+

lemma fneg_infinite: "fneg x = Infinity \<longleftrightarrow> x = NegInfinity" "fneg x = NegInfinity \<longleftrightarrow> x = Infinity" "fneg x = NaN \<longleftrightarrow> x = NaN"
  by (cases x rule: fneg.cases; simp)+

lemma hasNumeric_bounds: "hasNumeric v \<Longrightarrow> lo v \<noteq> NaN \<and> hi v \<noteq> NaN \<and> ev (lo v) \<le> ev (hi v)"
  by (simp add: hasNumeric_def fle_def)

lemma uncancelled_bounds:
  assumes n: "\<not> cancels op a b" and num: "hasNumeric a" "hasNumeric b"
  shows "op = OpAdd \<Longrightarrow> boundsOk (transferAdd a b)" "op = OpSub \<Longrightarrow> boundsOk (transferSub a b)"
    "op = OpDiv \<Longrightarrow> boundsOk (transferDiv a b)"
proof -
  note f = hasNumeric_bounds [OF num(1)] hasNumeric_bounds [OF num(2)]
  show "boundsOk (transferAdd a b)" if "op = OpAdd" using n f that num
    by (auto simp: boundsOk_def transferAdd_def Let_def fadd_NaN ev_infinite infinite_f64_def)
  show "boundsOk (transferSub a b)" if "op = OpSub" using n f that num
    by (auto simp: boundsOk_def transferSub_def fsub_def Let_def fadd_NaN ev_infinite fneg_infinite infinite_f64_def)
  show "boundsOk (transferDiv a b)" if "op = OpDiv"
  proof (cases "hasZero b")
    case True
    then show ?thesis using num by (auto simp: boundsOk_def transferDiv_def Let_def hasZero_def TOP_def)
  next
    case False
    then have z: "ev (lo b) \<noteq> Q 0" "ev (hi b) \<noteq> Q 0" using f by (auto simp: hasZero_def fle_def)
    have zf: "\<not> (isSingleton b \<and> feq (lo b) (fin 0))" using z f by (auto simp: feq_def)
    have q: "fdiv u v \<noteq> NaN" if "u = lo a \<or> u = hi a" "v = lo b \<or> v = hi b" for u v
      using fdiv_ev [of u v] that f z n False \<open>op = OpDiv\<close> by (auto simp: infOverInf_def infinite_ev split: if_splits)
    show ?thesis using num False q [of "lo a" "lo b"] q [of "lo a" "hi b"] q [of "hi a" "lo b"] q [of "hi a" "hi b"] zf
      by (simp add: boundsOk_def transferDiv_def Let_def hasZero_def fmin2_ev fmax2_ev del: de_Morgan_conj)
  qed
qed

lemma transferBin_numOp:
  assumes "op \<in> exactOps" "x \<in> gamma a" "y \<in> gamma b" "\<not> cancels op a b"
    "op = OpDiv \<Longrightarrow> y = NegZero \<Longrightarrow> \<not> isSingleton b"
  shows "numOp rt op x y \<in> gamma (transferBin rt op a b)"
proof (cases "op \<in> {OpAdd, OpSub, OpDiv}")
  case False
  then show ?thesis using assms sound_intros by (cases op) (simp_all add: exactOps_def bitwiseOps_def)
next
  case True
  show ?thesis using assms(2,3)
  proof (cases rule: gamma_cases)
    case nan
    then show ?thesis using True
      by (auto simp: transferAdd_def transferSub_def transferDiv_def Let_def fadd_def fsub_def fdiv_def)
  next
    case num
    note ok = uncancelled_bounds [OF assms(4) num(3,4)]
    show ?thesis using True assms(2,3,5) ok transferAdd_sound transferSub_sound transferDiv_sound by auto
  qed
qed

text \<open>C31. Transfer functions are sound. If two numbers lie in the sets two abstract values stand
  for, the result of \<open>+\<close>, \<open>-\<close>, \<open>*\<close>, \<open>/\<close>, \<open>%\<close> or a bitwise operator on them lies in the set of the
  transferred value, with binary64 rounding, overflow, NaN and the two zeros taken into account.
  For \<open>*\<close>, \<open>%\<close> and the bitwise operators nothing more is assumed. For \<open>+\<close> and \<open>-\<close> the operands'
  bounds must not cancel (opposite infinite bounds on the same side of a sum, equal ones on facing
  sides of a difference); for \<open>/\<close> the two intervals must not both have an infinite bound while the
  divisor excludes zero, and the divisor must not be \<open>-0\<close> when its interval is the point zero. In
  those cases the code computes a NaN bound or the wrong sign of an infinity, and the transferred
  value does not describe the result. The operator \<open>**\<close> is not covered.\<close>

theorem transferBin_sound:
  assumes "op \<in> exactOps" "x \<in> gamma a" "y \<in> gamma b"
    and "\<not> cancels op a b"
    and "op = OpDiv \<Longrightarrow> y = NegZero \<Longrightarrow> \<not> isSingleton b"
  shows "numOp rt op x y \<in> gamma (transferBin rt op a b)"
  using transferBin_numOp [OF assms] .

definition demo_rt :: js_lib where
  "demo_rt = \<lparr> numberPow = (\<lambda>x y. NaN), numberToString = (\<lambda>x. []), stringToNumber = (\<lambda>s. NaN) \<rparr>"

definition ivl :: "rat \<Rightarrow> rat \<Rightarrow> AbsVal" where
  "ivl l h = absVal (fin l) (fin h) True False None"

lemma rep_numeral [simp]: "(numeral k :: int) < 2 ^ 53 \<Longrightarrow> rep (numeral k)" "(numeral k :: int) < 2 ^ 53 \<Longrightarrow> rep (- numeral k)" "rep 1"
  by (simp_all add: rep_def)

lemma in_ivl: "rep q \<Longrightarrow> of_int \<lfloor>q\<rfloor> = q \<Longrightarrow> l \<le> q \<Longrightarrow> q \<le> h \<Longrightarrow> fin q \<in> gamma (ivl l h)"
  unfolding ivl_def by (rule gamma_absValI) auto

definition unboundedAbove :: AbsVal where
  "unboundedAbove = absVal (fin 1) Infinity False False None"

lemma transferBin_sound_witness:
  "numOp demo_rt OpAdd (fin 3) Infinity \<in> gamma (transferBin demo_rt OpAdd (ivl 0 10) unboundedAbove)
   \<and> numOp demo_rt OpDiv (fin 3) Infinity \<in> gamma (transferBin demo_rt OpDiv (ivl 0 10) unboundedAbove)
   \<and> numOp demo_rt OpMul (fin 3) (fin 4) \<in> gamma (transferBin demo_rt OpMul (ivl 0 10) (ivl 2 5))"
proof (intro conjI)
  have u: "Infinity \<in> gamma unboundedAbove" unfolding unboundedAbove_def by (rule gamma_absValI) auto
  have nc: "\<not> cancels OpAdd (ivl 0 10) unboundedAbove" "\<not> cancels OpDiv (ivl 0 10) unboundedAbove"
    by (simp_all add: ivl_def unboundedAbove_def infinite_f64_def normZero_def)
  show "numOp demo_rt OpAdd (fin 3) Infinity \<in> gamma (transferBin demo_rt OpAdd (ivl 0 10) unboundedAbove)"
    by (rule transferBin_sound) (simp_all add: exactOps_def in_ivl u nc del: cancels.simps)
  show "numOp demo_rt OpDiv (fin 3) Infinity \<in> gamma (transferBin demo_rt OpDiv (ivl 0 10) unboundedAbove)"
    by (rule transferBin_sound) (simp_all add: exactOps_def in_ivl u nc del: cancels.simps)
  show "numOp demo_rt OpMul (fin 3) (fin 4) \<in> gamma (transferBin demo_rt OpMul (ivl 0 10) (ivl 2 5))"
    by (rule transferBin_sound) (simp_all add: exactOps_def in_ivl)
qed

text \<open>Joins and widening lose nothing: whatever either side of a control-flow join may hold,
  the joined value still describes, and so does the widening of that join against the previous
  loop-header value.\<close>

theorem join_widen_upper:
  "gamma a \<union> gamma b \<subseteq> gamma (joinVal a b) \<and> gamma (joinVal a b) \<subseteq> gamma (widen a (joinVal a b))"
  using joinVal_upper1 joinVal_upper2 widen_upper by auto

text \<open>C32. The \<open>Math\<close> functions and the unary operators are sound: rounding, absolute value,
  minimum and maximum over any non-empty argument list, negation and bitwise complement of
  described numbers are described by the transferred value, NaN included.\<close>

theorem math_transfer_sound:
  assumes "x \<in> gamma a" "list_all2 (\<lambda>x a. x \<in> gamma a) xs args" "xs \<noteq> []"
  shows "fround r x \<in> gamma (transferMathRound r a) \<and> fabs x \<in> gamma (transferAbs a) \<and>
    minmaxOf m xs \<in> gamma (transferMinMax m args) \<and> fneg x \<in> gamma (transferNeg a) \<and>
    fbitnot x \<in> gamma (transferBitNot a)"
  using assms by (intro conjI transferMathRound_sound transferAbs_sound transferMinMax_sound
      transferNeg_sound transferBitNot_sound)

lemma math_transfer_sound_witness:
  "fround Floor (fin 3) \<in> gamma (transferMathRound Floor (ivl 0 10)) \<and> fabs (fin 3) \<in> gamma (transferAbs (ivl 0 10)) \<and>
    minmaxOf MMin [fin 3, fin 4] \<in> gamma (transferMinMax MMin [ivl 0 10, ivl 2 5]) \<and> fneg (fin 3) \<in> gamma (transferNeg (ivl 0 10)) \<and>
    fbitnot (fin 3) \<in> gamma (transferBitNot (ivl 0 10))"
  by (rule math_transfer_sound) (simp_all add: in_ivl)

end
