(* ===== verification/Int_Boundary.thy ===== *)
theory Int_Boundary
  imports Int_Sound
begin

text \<open>
  What the verdicts of library/int-infer.ts are worth: a proven crossing is an integer of the
  slot's class, the obligation checked where a value flows into a slot is the assumption made
  where it is read, widening at a loop header comes to rest, and the two places where the
  computed bounds stop describing the values.
\<close>

section \<open>The boundary check\<close>

lemma SAFE_simps [simp]: "SAFE_MAX = fin 9007199254740991" "SAFE_MIN = fin (- 9007199254740991)"
  by (simp_all add: SAFE_MAX_def SAFE_MIN_def)

lemma verdict_sel [simp]:
  "v_outcome (refusal p c l ob d f) = Refuse" "v_outcome (proof_of p c l a b) = Prove"
  "provenLo (proof_of p c l a b) = Some a" "provenHi (proof_of p c l a b) = Some b"
  by (simp_all add: refusal_def proof_of_def)

definition classMin :: "IntClass \<Rightarrow> int" where
  "classMin cls = (if cls = U64 then 0 else - (2 ^ 53 - 1))"

lemma checkBoundary_Prove:
  assumes "v_outcome (checkBoundary rt v p cls loc) = Prove" "\<not> isBottom v"
  shows "\<not> maybeNaN v" "whole v" "fle (if cls = U64 then fin 0 else SAFE_MIN) (lo v)" "fle (hi v) SAFE_MAX"
    "checkBoundary rt v p cls loc = proof_of p cls loc (lo v) (hi v)"
  using assms by (auto simp: checkBoundary_def Let_def split: if_splits)

lemma proven_value:
  assumes "v_outcome (checkBoundary rt v p cls loc) = Prove" "x \<in> gamma v"
  obtains n where "x \<noteq> NaN" "ev x = Q (of_int n)" "classMin cls \<le> n" "n \<le> 2 ^ 53 - 1"
    "ev (lo v) \<le> ev x" "ev x \<le> ev (hi v)"
proof -
  have nb: "\<not> isBottom v" using gamma_isBottom assms(2) by blast
  note c = checkBoundary_Prove [OF assms(1) nb]
  have x: "x \<noteq> NaN" using c(1) assms(2) by auto
  note g = assms(2) [unfolded in_gamma_num [OF x]]
  obtain n where n: "ev x = Q (of_int n)" using g c(2) by (auto simp: is_integer_ev)
  have "Q (of_int n) \<le> Q 9007199254740991" using c(4) g n order_trans by (fastforce simp: fle_def)
  then have "rat_of_int n \<le> of_int 9007199254740991" by simp
  then have hi: "n \<le> 9007199254740991" by (simp only: of_int_le_iff)
  have "Q (of_int (classMin cls)) \<le> Q (of_int n)"
    using c(3) g n order_trans by (fastforce simp: fle_def classMin_def split: if_splits)
  then have "classMin cls \<le> n" by (simp only: less_eq_ext.simps of_int_le_iff)
  then show thesis using that [of n] x n hi g by simp
qed

text \<open>C33. A PROVE verdict is true of every value that can arrive. If the boundary check proves an
  abstract value, then each number it stands for is a mathematical integer within
  \<open>2 ^ 53 - 1\<close> in magnitude (and not negative for a u64 slot), and lies in the range the verdict
  reports.\<close>

theorem checkBoundary_sound:
  assumes "v_outcome (checkBoundary rt v path cls loc) = Prove" "x \<in> gamma v"
  shows "\<exists>n. x \<noteq> NaN \<and> ev x = Q (of_int n) \<and> \<bar>n\<bar> \<le> 2 ^ 53 - 1 \<and> (cls = U64 \<longrightarrow> 0 \<le> n) \<and>
    fle (the (provenLo (checkBoundary rt v path cls loc))) x \<and> fle x (the (provenHi (checkBoundary rt v path cls loc)))"
proof -
  obtain n where n: "x \<noteq> NaN" "ev x = Q (of_int n)" "classMin cls \<le> n" "n \<le> 2 ^ 53 - 1"
    "ev (lo v) \<le> ev x" "ev x \<le> ev (hi v)" using proven_value [OF assms] by blast
  have nb: "\<not> isBottom v" using gamma_isBottom assms(2) by blast
  note c = checkBoundary_Prove [OF assms(1) nb]
  have "lo v \<noteq> NaN" "hi v \<noteq> NaN" using c(3,4) by (auto simp: fle_def)
  then show ?thesis using n c(5) by (intro exI [of _ n]) (auto simp: fle_def classMin_def split: if_splits)
qed

definition demo_loc :: SrcLoc where
  "demo_loc = \<lparr> loc_file = js ''lib.ts'', loc_start = 0, loc_end = 1 \<rparr>"

lemma ivl_sel [simp]: "lo (ivl l h) = fin l" "hi (ivl l h) = fin h" "whole (ivl l h)" "\<not> maybeNaN (ivl l h)" "spelling (ivl l h) = None"
  by (simp_all add: ivl_def normZero_def is_finite_def)

lemma checkBoundary_sound_witness:
  "\<exists>n. fin 3 \<noteq> NaN \<and> ev (fin 3) = Q (of_int n) \<and> \<bar>n\<bar> \<le> 2 ^ 53 - 1 \<and> (U64 = U64 \<longrightarrow> 0 \<le> n) \<and>
    fle (the (provenLo (checkBoundary demo_rt (ivl 0 10) [] U64 demo_loc))) (fin 3) \<and>
    fle (fin 3) (the (provenHi (checkBoundary demo_rt (ivl 0 10) [] U64 demo_loc)))"
  by (rule checkBoundary_sound) (simp_all add: checkBoundary_def isBottom_def in_ivl)

section \<open>Slots: obligation and assumption\<close>

lemma js_class_names [simp]:
  "js ''i64'' \<noteq> js ''u64''" "js ''u64'' \<noteq> js ''i64''" by (simp_all add: js_def)

lemma classSeed_className:
  "classSeed (className cls) = absVal (if cls = U64 then fin 0 else SAFE_MIN) SAFE_MAX True False None"
  by (cases cls) (simp_all add: classSeed_def)

lemma seed_proves: "v_outcome (checkBoundary rt (classSeed (className cls)) path cls loc) = Prove"
  unfolding classSeed_className
  by (cases cls) (simp_all add: checkBoundary_def isBottom_def normZero_def is_finite_def)

lemma in_classSeed:
  "x \<in> gamma (classSeed (className cls)) \<longleftrightarrow> is_f64 x \<and> (\<exists>n. x \<noteq> NaN \<and> ev x = Q (of_int n) \<and> classMin cls \<le> n \<and> n \<le> 2 ^ 53 - 1)"
  (is "?l \<longleftrightarrow> ?r")
proof
  assume ?l
  from proven_value [OF seed_proves \<open>?l\<close>] show ?r using \<open>?l\<close> by (auto simp: gamma_def)
next
  assume ?r
  then obtain n where n: "is_f64 x" "x \<noteq> NaN" "ev x = Q (of_int n)" "classMin cls \<le> n" "n \<le> 2 ^ 53 - 1" by blast
  have "rat_of_int n \<le> of_int (2 ^ 53 - 1)" "of_int (classMin cls) \<le> rat_of_int n" using n by (simp_all only: of_int_le_iff)
  then show ?l unfolding classSeed_className using n
    by (intro gamma_absValI) (auto simp: classMin_def is_integer_ev split: if_splits)
qed

text \<open>C34. A declared slot's obligation is exactly its assumption. Whatever the check proves for a
  class is covered by the class seed that the callee's parameter, a call's result or a field read
  is given, and the seed itself passes the check of its class: values can be handed from slot to
  slot without losing the proof.\<close>

theorem slot_obligation_is_assumption:
  "(v_outcome (checkBoundary rt v path cls loc) = Prove \<longrightarrow> gamma v \<subseteq> gamma (classSeed (className cls))) \<and>
   v_outcome (checkBoundary rt (classSeed (className cls)) path cls loc) = Prove"
proof
  show "v_outcome (checkBoundary rt v path cls loc) = Prove \<longrightarrow> gamma v \<subseteq> gamma (classSeed (className cls))"
  proof (intro impI subsetI)
    fix x assume "v_outcome (checkBoundary rt v path cls loc) = Prove" "x \<in> gamma v"
    from proven_value [OF this] \<open>x \<in> gamma v\<close> show "x \<in> gamma (classSeed (className cls))"
      unfolding in_classSeed by (auto simp: gamma_def)
  qed
  show "v_outcome (checkBoundary rt (classSeed (className cls)) path cls loc) = Prove"
    by (rule seed_proves)
qed

lemma slot_obligation_is_assumption_witness:
  "fin 3 \<in> gamma (classSeed (className U64)) \<and>
   v_outcome (checkBoundary demo_rt (classSeed (className U64)) [] U64 demo_loc) = Prove"
proof -
  have "v_outcome (checkBoundary demo_rt (ivl 0 10) [] U64 demo_loc) = Prove"
    by (simp add: checkBoundary_def isBottom_def)
  then show ?thesis
    using slot_obligation_is_assumption [of demo_rt "ivl 0 10" "[]" U64 demo_loc] in_ivl [of 3 0 10] by auto
qed

section \<open>Widening comes to rest\<close>

text \<open>Values in canonical form: the bounds are numbers, an interval that holds no number is the
  one from infinity to minus infinity, and the only empty value is \<open>BOTTOM\<close>. Not every value the
  analysis computes is canonical: a quotient of two unbounded intervals has NaN bounds, and a copy of
  a NaN-only value with the NaN flag cleared is empty without being \<open>BOTTOM\<close>.\<close>

definition canonical :: "AbsVal \<Rightarrow> bool" where
  "canonical v \<longleftrightarrow> boundsOk v \<and> (\<not> hasNumeric v \<longrightarrow> lo v = Infinity \<and> hi v = NegInfinity) \<and> (isBottom v \<longrightarrow> v = BOTTOM)"

definition thrAbove :: "jsdouble \<Rightarrow> nat" where
  "thrAbove h = length (filter (\<lambda>t. flt h t) WIDEN_THRESHOLDS)"

definition thrBelow :: "jsdouble \<Rightarrow> nat" where
  "thrBelow l = length (filter (\<lambda>t. flt t l) WIDEN_THRESHOLDS_NEG)"

text \<open>How far a header value can still move.\<close>

definition rank :: "AbsVal \<Rightarrow> nat" where
  "rank v = thrAbove (hi v) + thrBelow (lo v) + (of_bool (whole v) + of_bool (\<not> hasNumeric v)) +
     of_bool (\<not> maybeNaN v) + of_bool (spelling v \<noteq> None) + of_bool (isBottom v)"

lemma flt_ev: "h \<noteq> NaN \<Longrightarrow> h' \<noteq> NaN \<Longrightarrow> ev h = ev h' \<Longrightarrow> flt h t = flt h' t \<and> flt t h = flt t h'"
  by (auto simp: flt_def)

lemma above_ev: "h \<noteq> NaN \<Longrightarrow> h' \<noteq> NaN \<Longrightarrow> ev h = ev h' \<Longrightarrow> thrAbove h = thrAbove h'"
  using flt_ev [of h h'] by (simp add: thrAbove_def)

lemma below_ev: "h \<noteq> NaN \<Longrightarrow> h' \<noteq> NaN \<Longrightarrow> ev h = ev h' \<Longrightarrow> thrBelow h = thrBelow h'"
  using flt_ev [of h h'] by (simp add: thrBelow_def)

lemma filter_subset_less:
  "(\<And>t. t \<in> set xs \<Longrightarrow> P t \<Longrightarrow> R t) \<Longrightarrow> t \<in> set xs \<Longrightarrow> R t \<Longrightarrow> \<not> P t \<Longrightarrow> length (filter P xs) < length (filter R xs)"
proof (induction xs)
  case (Cons a xs)
  have "length (filter P ys) \<le> length (filter R ys)" if "set ys \<subseteq> set xs" for ys
    using that Cons.prems(1) by (induction ys) auto
  from this [of xs] Cons show ?case by auto
qed simp

lemma thrAbove_threshold:
  assumes "t \<in> set WIDEN_THRESHOLDS" "flt h h'" "fle h' t" shows "thrAbove t < thrAbove h"
  unfolding thrAbove_def using assms
  by (intro filter_subset_less [of _ _ _ t]) (auto simp: flt_def fle_def)

lemma thrBelow_threshold:
  assumes "t \<in> set WIDEN_THRESHOLDS_NEG" "flt l' l" "fle t l'" shows "thrBelow t < thrBelow l"
  unfolding thrBelow_def using assms
  by (intro filter_subset_less [of _ _ _ t]) (auto simp: flt_def fle_def)

lemma widen_lo:
  assumes "l \<noteq> NaN" "l' \<noteq> NaN" "ev l' \<le> ev l"
  defines "r \<equiv> (if flt l' l then case find (\<lambda>t. fle t l') WIDEN_THRESHOLDS_NEG of Some t \<Rightarrow> t | None \<Rightarrow> NegInfinity else l')"
  shows "r \<noteq> NaN" "ev r \<le> ev l" "ev r = ev l \<or> thrBelow r < thrBelow l"
proof -
  have "NegInfinity \<in> set WIDEN_THRESHOLDS_NEG" "fle NegInfinity l'" using assms by (simp_all add: WIDEN_THRESHOLDS_NEG_def fle_def)
  then obtain t where t: "find (\<lambda>t. fle t l') WIDEN_THRESHOLDS_NEG = Some t"
    by (metis (mono_tags, lifting) find_None_iff not_Some_eq)
  have r: "r = (if flt l' l then t else l')" by (simp add: r_def t)
  have f: "fle t l'" "t \<in> set WIDEN_THRESHOLDS_NEG" using t by (auto simp: find_Some_iff)
  have "thrBelow t < thrBelow l" if "flt l' l" using thrBelow_threshold f that by blast
  then show "r \<noteq> NaN" "ev r \<le> ev l" "ev r = ev l \<or> thrBelow r < thrBelow l"
    using f(1) assms(1-3) unfolding r by (auto simp: flt_def fle_def)
qed

lemma widen_hi:
  assumes "h \<noteq> NaN" "h' \<noteq> NaN" "ev h \<le> ev h'"
  defines "r \<equiv> (if flt h h' then case find (\<lambda>t. fle h' t) WIDEN_THRESHOLDS of Some t \<Rightarrow> t | None \<Rightarrow> Infinity else h')"
  shows "r \<noteq> NaN" "ev h \<le> ev r" "ev r = ev h \<or> thrAbove r < thrAbove h"
proof -
  have "Infinity \<in> set WIDEN_THRESHOLDS" "fle h' Infinity" using assms by (simp_all add: WIDEN_THRESHOLDS_def fle_def)
  then obtain t where t: "find (\<lambda>t. fle h' t) WIDEN_THRESHOLDS = Some t"
    by (metis (mono_tags, lifting) find_None_iff not_Some_eq)
  have r: "r = (if flt h h' then t else h')" by (simp add: r_def t)
  have f: "fle h' t" "t \<in> set WIDEN_THRESHOLDS" using t by (auto simp: find_Some_iff)
  have "thrAbove t < thrAbove h" if "flt h h'" using thrAbove_threshold f that by blast
  then show "r \<noteq> NaN" "ev h \<le> ev r" "ev r = ev h \<or> thrAbove r < thrAbove h"
    using f(1) assms(1-3) unfolding r by (auto simp: flt_def fle_def)
qed

lemma joinVal_flags:
  "\<not> isBottom v \<Longrightarrow> maybeNaN v \<Longrightarrow> maybeNaN (joinVal v w)"
  "\<not> isBottom v \<Longrightarrow> spelling (joinVal v w) \<noteq> None \<Longrightarrow> spelling (joinVal v w) = spelling v"
  by (auto simp: joinVal_def Let_def split: if_splits)

lemma joinVal_numeric:
  assumes "hasNumeric v" "\<not> isBottom v"
  shows "boundsOk (joinVal v w)" "ev (lo (joinVal v w)) \<le> ev (lo v)" "ev (hi v) \<le> ev (hi (joinVal v w))"
    "whole (joinVal v w) \<Longrightarrow> whole v"
  using assms hasNumeric_bounds [of v] hasNumeric_bounds [of w]
  by (cases "isBottom w"; cases "hasNumeric w"; simp add: joinVal_def Let_def boundsOk_def fmin2_ev fmax2_ev)+

lemma joinVal_nonnumeric:
  assumes "\<not> hasNumeric v" "\<not> isBottom v" "canonical v" "canonical w"
  shows "boundsOk (joinVal v w)" "hasNumeric (joinVal v w) \<or> lo (joinVal v w) = Infinity \<and> hi (joinVal v w) = NegInfinity"
proof -
  consider "isBottom w" | "\<not> isBottom w" "hasNumeric w" | "\<not> isBottom w" "\<not> hasNumeric w" by blast
  then have "boundsOk (joinVal v w) \<and> (hasNumeric (joinVal v w) \<or> lo (joinVal v w) = Infinity \<and> hi (joinVal v w) = NegInfinity)"
    by cases (use assms hasNumeric_bounds [of w] in
        \<open>simp_all add: joinVal_def Let_def canonical_def boundsOk_def hasNumeric_def [of "absVal _ _ _ _ _"] fle_def\<close>)
  then show "boundsOk (joinVal v w)" "hasNumeric (joinVal v w) \<or> lo (joinVal v w) = Infinity \<and> hi (joinVal v w) = NegInfinity"
    by blast+
qed

text \<open>One widening step: the header keeps its canonical form and, unless it is unchanged, its rank
  drops.\<close>

definition header :: "AbsVal \<Rightarrow> AbsVal \<Rightarrow> AbsVal" where
  "header v w = widen v (joinVal v w)"

lemma isBottom_absVal: "isBottom (absVal l h w n sp) \<longleftrightarrow> \<not> n \<and> flt h l"
  by (auto simp: isBottom_def flt_def)

lemma header_numeric:
  assumes "hasNumeric v"
  shows "hasNumeric (header v w) \<and> canonical (header v w) \<and> (sameVal v (header v w) \<or> rank (header v w) < rank v)"
proof -
  have nb: "\<not> isBottom v" using hasNumeric_bounds [OF assms(1)] by (auto simp: isBottom_def flt_def)
  let ?j = "joinVal v w"
  note J = joinVal_numeric [OF assms(1) nb, of w] joinVal_flags [OF nb, of w]
  have b: "lo v \<noteq> NaN" "hi v \<noteq> NaN" "lo ?j \<noteq> NaN" "hi ?j \<noteq> NaN" "ev (lo v) \<le> ev (hi v)"
    using J(1) hasNumeric_bounds [OF assms(1)] by (auto simp: boundsOk_def)
  note L = widen_lo [OF b(1,3) J(2)] and H = widen_hi [OF b(2,4) J(3)]
  define l h where "l = (if flt (lo ?j) (lo v) then case find (\<lambda>t. fle t (lo ?j)) WIDEN_THRESHOLDS_NEG of Some t \<Rightarrow> t | None \<Rightarrow> NegInfinity else lo ?j)"
    and "h = (if flt (hi v) (hi ?j) then case find (\<lambda>t. fle (hi ?j) t) WIDEN_THRESHOLDS of Some t \<Rightarrow> t | None \<Rightarrow> Infinity else hi ?j)"
  have hd: "header v w = absVal l h (whole ?j) (maybeNaN ?j) (spelling ?j)"
    using nb by (simp add: header_def widen_def Let_def l_def h_def)
  note L = L [folded l_def] and H = H [folded h_def]
  have num: "hasNumeric (header v w)" "\<not> isBottom (header v w)"
    using L H b unfolding hd hasNumeric_def fle_def isBottom_absVal flt_def by auto
  have c: "canonical (header v w)" using num L H by (simp add: canonical_def boundsOk_def hd)
  have lo: "thrBelow l \<le> thrBelow (lo v)" "ev l \<noteq> ev (lo v) \<Longrightarrow> thrBelow l < thrBelow (lo v)"
    using L below_ev b by (metis le_less)+
  have hi: "thrAbove h \<le> thrAbove (hi v)" "ev h \<noteq> ev (hi v) \<Longrightarrow> thrAbove h < thrAbove (hi v)"
    using H above_ev b by (metis le_less)+
  have n0: "thrBelow (normZero l) = thrBelow l" "thrAbove (normZero h) = thrAbove h"
    using below_ev [of "normZero l" l] above_ev [of "normZero h" h] L H by simp_all
  have w: "whole (header v w) \<Longrightarrow> whole v" using J(4) by (simp add: hd)
  have fl: "of_bool (whole (header v w)) \<le> (of_bool (whole v) :: nat)"
    "of_bool (\<not> maybeNaN ?j) \<le> (of_bool (\<not> maybeNaN v) :: nat)"
    "of_bool (spelling ?j \<noteq> None) \<le> (of_bool (spelling v \<noteq> None) :: nat)" using w J(5,6) by auto
  have R: "rank (header v w) = thrAbove h + thrBelow l + of_bool (whole (header v w)) + of_bool (\<not> maybeNaN ?j) + of_bool (spelling ?j \<noteq> None)"
    using num by (simp add: rank_def) (simp add: hd n0)
  have V: "rank v = thrAbove (hi v) + thrBelow (lo v) + of_bool (whole v) + of_bool (\<not> maybeNaN v) + of_bool (spelling v \<noteq> None)"
    using nb assms(1) by (simp add: rank_def)
  have r: "sameVal v (header v w) \<or> rank (header v w) < rank v"
  proof (cases "ev l = ev (lo v) \<and> ev h = ev (hi v)")
    case False
    then have "thrAbove h + thrBelow l < thrAbove (hi v) + thrBelow (lo v)" using lo hi by force
    then have "rank (header v w) < rank v" unfolding R V using fl by linarith
    then show ?thesis by blast
  next
    case True
    then have s: "feq (lo v) (lo (header v w))" "feq (hi v) (hi (header v w))" "thrAbove h = thrAbove (hi v)" "thrBelow l = thrBelow (lo v)"
      using b L(1) H(1) above_ev [of h "hi v"] below_ev [of l "lo v"] by (simp_all add: feq_def hd)
    show ?thesis
    proof (cases "whole (header v w) = whole v \<and> maybeNaN ?j = maybeNaN v \<and> spelling ?j = spelling v")
      case True
      then show ?thesis using s by (simp add: sameVal_def) (simp add: hd)
    next
      case False
      then consider "whole v \<and> \<not> whole (header v w)" | "maybeNaN ?j \<and> \<not> maybeNaN v" | "spelling v \<noteq> None \<and> spelling ?j = None"
        using w J(5,6) by metis
      then have "rank (header v w) < rank v"
      proof cases
        case 1
        then have "of_bool (whole (header v w)) < (of_bool (whole v) :: nat)" by simp
        then show ?thesis unfolding R V s(3,4) using fl(2,3) by linarith
      next
        case 2
        then have "of_bool (\<not> maybeNaN ?j) < (of_bool (\<not> maybeNaN v) :: nat)" by simp
        then show ?thesis unfolding R V s(3,4) using fl(1,3) by linarith
      next
        case 3
        then have "of_bool (spelling ?j \<noteq> None) < (of_bool (spelling v \<noteq> None) :: nat)" by simp
        then show ?thesis unfolding R V s(3,4) using fl(1,2) by linarith
      qed
      then show ?thesis by blast
    qed
  qed
  show ?thesis using num(1) c r by blast
qed

lemma thr_max: "thrAbove h \<le> 5" "thrBelow l \<le> 4"
  using length_filter_le [of "\<lambda>t. flt h t" WIDEN_THRESHOLDS] length_filter_le [of "\<lambda>t. flt t l" WIDEN_THRESHOLDS_NEG]
  by (simp_all add: thrAbove_def thrBelow_def WIDEN_THRESHOLDS_def WIDEN_THRESHOLDS_NEG_def)

lemma thr_empty [simp]: "thrAbove NegInfinity = 5" "thrBelow Infinity = 4"
  by (simp_all add: thrAbove_def thrBelow_def WIDEN_THRESHOLDS_def WIDEN_THRESHOLDS_NEG_def)

text \<open>From the value that is only NaN, the header either stays so (and is then no longer flagged
  whole) or takes a numeric interval whose outer ends are thresholds.\<close>

lemma header_nonnumeric:
  assumes "\<not> hasNumeric v" "\<not> isBottom v" "canonical v" "canonical w"
  shows "canonical (header v w) \<and> (sameVal v (header v w) \<or> rank (header v w) < rank v)"
proof -
  let ?j = "joinVal v w"
  have e: "lo v = Infinity" "hi v = NegInfinity" using assms by (auto simp: canonical_def)
  have mv: "maybeNaN v" using assms(2) e by (auto simp: isBottom_def)
  then have mj: "maybeNaN ?j" using joinVal_flags(1) assms(2) by blast
  note J = joinVal_nonnumeric [OF assms]
  have b: "lo ?j \<noteq> NaN" "hi ?j \<noteq> NaN" using J(1) by (auto simp: boundsOk_def)
  have le: "ev (lo ?j) \<le> ev (lo v)" "ev (hi v) \<le> ev (hi ?j)" by (simp_all add: e)
  have vn: "lo v \<noteq> NaN" "hi v \<noteq> NaN" by (simp_all add: e)
  note L = widen_lo [OF vn(1) b(1) le(1)] and H = widen_hi [OF vn(2) b(2) le(2)]
  define l h where "l = (if flt (lo ?j) (lo v) then case find (\<lambda>t. fle t (lo ?j)) WIDEN_THRESHOLDS_NEG of Some t \<Rightarrow> t | None \<Rightarrow> NegInfinity else lo ?j)"
    and "h = (if flt (hi v) (hi ?j) then case find (\<lambda>t. fle (hi ?j) t) WIDEN_THRESHOLDS of Some t \<Rightarrow> t | None \<Rightarrow> Infinity else hi ?j)"
  have hd: "header v w = absVal l h (whole ?j) True (spelling ?j)"
    using assms(2) mj by (simp add: header_def widen_def Let_def l_def h_def)
  note L = L [folded l_def] and H = H [folded h_def]
  have sp: "of_bool (spelling ?j \<noteq> None) \<le> (of_bool (spelling v \<noteq> None) :: nat)"
    using joinVal_flags(2) [OF assms(2), of w] by auto
  have V: "rank v = 10 + of_bool (whole v) + of_bool (spelling v \<noteq> None)"
    using assms(1,2) mv by (simp add: rank_def e)
  have nb: "\<not> isBottom (header v w)" by (simp add: hd isBottom_absVal)
  have ok: "boundsOk (header v w)" using L(1) H(1) by (simp add: boundsOk_def hd)
  have n0: "thrBelow (normZero l) = thrBelow l" "thrAbove (normZero h) = thrAbove h"
    using below_ev [of "normZero l" l] above_ev [of "normZero h" h] L H by simp_all
  show ?thesis
  proof (cases "hasNumeric (header v w)")
    case True
    then have lh: "ev l \<le> ev h" by (simp add: hd hasNumeric_def fle_def)
    then have "thrAbove h < 5 \<or> thrBelow l < 4" using L(3) H(3) by (auto simp: e)
    then have "thrAbove h + thrBelow l < 9" using thr_max [of h] thr_max [of l] by linarith
    moreover have "rank (header v w) = thrAbove h + thrBelow l + of_bool (whole (header v w)) + of_bool (spelling ?j \<noteq> None)"
      using True nb by (simp add: rank_def) (simp add: hd n0)
    ultimately have "rank (header v w) < rank v" unfolding V using sp by (simp add: of_bool_def split: if_splits)
    then show ?thesis using True ok nb by (simp add: canonical_def)
  next
    case False
    have "\<not> hasNumeric ?j"
    proof
      assume "hasNumeric ?j"
      then have "ev (lo ?j) \<le> ev (hi ?j)" using hasNumeric_bounds by blast
      moreover have "ev l \<le> ev (lo ?j)" "ev (hi ?j) \<le> ev h"
        unfolding l_def h_def using find_threshold by (fastforce simp: fle_def split: option.splits)+
      ultimately show False using False L(1) H(1) by (simp add: hd hasNumeric_def fle_def)
    qed
    then have j: "lo ?j = Infinity" "hi ?j = NegInfinity" using J(2) by auto
    then have hd': "header v w = absVal Infinity NegInfinity False True (spelling ?j)"
      by (simp add: hd l_def h_def e absVal_def is_finite_def)
    have R: "rank (header v w) = 10 + of_bool (spelling ?j \<noteq> None)"
      using False nb by (simp add: rank_def) (simp add: hd')
    have k: "spelling ?j \<noteq> None \<Longrightarrow> spelling ?j = spelling v" using joinVal_flags(2) [OF assms(2)] by blast
    consider "whole v" | "\<not> whole v" "spelling ?j = spelling v" | "spelling ?j = None" "spelling v \<noteq> None" using k by metis
    then have "sameVal v (header v w) \<or> rank (header v w) < rank v"
    proof cases
      case 1
      then have "of_bool (whole v) = (1::nat)" by simp
      then show ?thesis unfolding R V using sp by linarith
    next
      case 2
      then show ?thesis using mv e by (simp add: sameVal_def hd')
    next
      case 3
      then show ?thesis unfolding R V by simp
    qed
    then show ?thesis using ok nb by (simp add: canonical_def hd')
  qed
qed

lemma rank_nonbottom: assumes "canonical w" "\<not> isBottom w" shows "rank w < 13"
proof -
  have o: "of_bool P \<le> (1::nat)" for P by simp
  have "of_bool (\<not> hasNumeric w) + of_bool (\<not> maybeNaN w) \<le> (1::nat)"
    using assms by (auto simp: canonical_def isBottom_def)
  moreover have "of_bool (isBottom w) = (0::nat)" using assms(2) by simp
  ultimately show ?thesis using thr_max [of "hi w"] thr_max [of "lo w"] o [of "whole w"] o [of "spelling w \<noteq> None"]
    unfolding rank_def by linarith
qed

lemma rank_BOTTOM: "rank BOTTOM = 13"
  by (simp add: rank_def hasNumeric_def isBottom_def)

lemma header_step:
  assumes "canonical v" "canonical w"
  shows "canonical (header v w) \<and> (sameVal v (header v w) \<or> rank (header v w) < rank v)"
proof (cases "isBottom v")
  case True
  then have v: "v = BOTTOM" using assms by (simp add: canonical_def)
  have h: "header v w = w" using True by (simp add: header_def joinVal_def widen_def)
  have r: "rank v = 13" unfolding v by (rule rank_BOTTOM)
  show ?thesis
  proof (cases "isBottom w")
    case True
    then have "w = BOTTOM" using assms by (simp add: canonical_def)
    then show ?thesis using h v assms by (simp add: sameVal_def)
  next
    case False
    then have "rank w < 13" using rank_nonbottom assms(2) by blast
    then show ?thesis using h r assms by simp
  qed
qed (use header_numeric header_nonnumeric assms in blast)

lemma rank_max: "canonical v \<Longrightarrow> rank v \<le> 13"
  using rank_nonbottom [of v] rank_BOTTOM by (cases "isBottom v") (auto simp: canonical_def)

lemma sameVal_rank: assumes "sameVal v v'" shows "rank v' = rank v"
proof -
  have e: "lo v \<noteq> NaN" "lo v' \<noteq> NaN" "hi v \<noteq> NaN" "hi v' \<noteq> NaN" "ev (lo v) = ev (lo v')" "ev (hi v) = ev (hi v')"
    "whole v = whole v'" "maybeNaN v = maybeNaN v'" "spelling v = spelling v'"
    using assms by (auto simp: sameVal_def feq_def)
  then have "thrAbove (hi v') = thrAbove (hi v)" "thrBelow (lo v') = thrBelow (lo v)"
    using above_ev [of "hi v'" "hi v"] below_ev [of "lo v'" "lo v"] by simp_all
  moreover have "hasNumeric v' = hasNumeric v" "isBottom v' = isBottom v"
    using e by (simp_all add: hasNumeric_def fle_def isBottom_def flt_def)
  ultimately show ?thesis using e by (simp add: rank_def)
qed

text \<open>A sequence of naturals that never grows and drops at every point of a set has no more such
  points than its first value.\<close>

lemma finitely_many_drops:
  fixes r :: "nat \<Rightarrow> nat"
  assumes "\<And>k. P k \<or> r (Suc k) < r k" "\<And>k. r (Suc k) \<le> r k"
  shows "finite {k. \<not> P k} \<and> card {k. \<not> P k} \<le> r 0"
proof -
  have "card ({k. \<not> P k} \<inter> {..<n}) + r n \<le> r 0" for n
  proof (induction n)
    case (Suc n)
    have "{k. \<not> P k} \<inter> {..<Suc n} = (if P n then {} else {n}) \<union> ({k. \<not> P k} \<inter> {..<n})"
      by (auto simp: less_Suc_eq)
    then have "card ({k. \<not> P k} \<inter> {..<Suc n}) = card ({k. \<not> P k} \<inter> {..<n}) + of_bool (\<not> P n)" by (auto simp: card_insert_if)
    then show ?case using Suc assms(1) [of n] assms(2) [of n] by (cases "P n") auto
  qed simp
  then have b: "card ({k. \<not> P k} \<inter> {..<n}) \<le> r 0" for n using add_leD1 by blast
  have "finite {k. \<not> P k}"
  proof (rule ccontr)
    assume "infinite {k. \<not> P k}"
    then obtain S where S: "finite S" "card S = Suc (r 0)" "S \<subseteq> {k. \<not> P k}" using infinite_arbitrarily_large by metis
    then obtain n where "S \<subseteq> {..<n}" using finite_nat_set_iff_bounded [of S] by blast
    then have "card S \<le> card ({k. \<not> P k} \<inter> {..<n})" using S by (intro card_mono) auto
    then show False using S(2) b [of n] by simp
  qed
  moreover from this obtain n where "{k. \<not> P k} \<subseteq> {..<n}" using finite_nat_set_iff_bounded [of "{k. \<not> P k}"] by blast
  then have "{k. \<not> P k} \<inter> {..<n} = {k. \<not> P k}" by auto
  ultimately show ?thesis using b [of n] by simp
qed

lemma numeric_canonical: "hasNumeric v \<Longrightarrow> canonical v"
  using hasNumeric_bounds [of v] by (auto simp: canonical_def boundsOk_def isBottom_def flt_def)

text \<open>C35. Widening comes to rest. Take a sequence of loop-header values in which each is the
  widening of the join of its predecessor with what flows along the back edge. If the first header
  value holds some number (its bounds are numbers, in order), then at most thirteen steps change the
  header value, whatever flows back, values with NaN bounds and empty ones included. If the first
  header value holds no number, the same is true when it and the values that flow back are
  canonical. Outside these cases nothing is claimed: a header that starts with a NaN bound is never
  equal to its successor, since the comparison of the bounds fails on NaN.\<close>

theorem widen_stabilises:
  assumes "hasNumeric (head 0) \<or> canonical (head 0) \<and> (\<forall>k. canonical (bk k))"
    and "\<And>k. head (Suc k) = widen (head k) (joinVal (head k) (bk k))"
  shows "finite {k. \<not> sameVal (head k) (head (Suc k))} \<and> card {k. \<not> sameVal (head k) (head (Suc k))} \<le> 13"
proof -
  have h: "head (Suc k) = header (head k) (bk k)" for k using assms(2) by (simp add: header_def)
  have c: "hasNumeric (head k) \<or> canonical (head k) \<and> (\<forall>k. canonical (bk k))" for k
    by (induction k) (use assms(1) header_numeric header_step in \<open>auto simp: h\<close>)
  have step: "sameVal (head k) (head (Suc k)) \<or> rank (head (Suc k)) < rank (head k)" for k
    using c [of k] header_numeric header_step unfolding h by blast
  have "rank (head (Suc k)) \<le> rank (head k)" for k using step [of k] sameVal_rank by fastforce
  from finitely_many_drops [of "\<lambda>k. sameVal (head k) (head (Suc k))" "\<lambda>k. rank (head k)", OF step this]
  show ?thesis using rank_max [of "head 0"] assms(1) numeric_canonical by fastforce
qed

definition demo_back :: "nat \<Rightarrow> AbsVal" where
  "demo_back k = (if even k then ivl 0 10 else absVal NaN NaN False True None)"

primrec demo_head :: "nat \<Rightarrow> AbsVal" where
  "demo_head 0 = ivl 0 0"
| "demo_head (Suc k) = widen (demo_head k) (joinVal (demo_head k) (demo_back k))"

primrec nan_head :: "nat \<Rightarrow> AbsVal" where
  "nan_head 0 = constVal NaN None"
| "nan_head (Suc k) = widen (nan_head k) (joinVal (nan_head k) (ivl 0 10))"

lemma canonical_ivl: "l \<le> h \<Longrightarrow> canonical (ivl l h)"
  by (simp add: canonical_def boundsOk_def hasNumeric_def isBottom_def)

lemma widen_stabilises_witness:
  "finite {k. \<not> sameVal (demo_head k) (demo_head (Suc k))} \<and> card {k. \<not> sameVal (demo_head k) (demo_head (Suc k))} \<le> 13
   \<and> finite {k. \<not> sameVal (nan_head k) (nan_head (Suc k))} \<and> card {k. \<not> sameVal (nan_head k) (nan_head (Suc k))} \<le> 13"
proof -
  have "hasNumeric (demo_head 0)" by (simp add: hasNumeric_def)
  moreover have "canonical (nan_head 0)" by (simp add: constVal_def canonical_def boundsOk_def isBottom_def)
  ultimately show ?thesis
    using widen_stabilises [of demo_head demo_back] widen_stabilises [of nan_head "\<lambda>_. ivl 0 10"] by (simp add: canonical_ivl)
qed

section \<open>Where the bounds stop describing the values\<close>

lemma rep_half [simp]: "rep (1 / 2)" "rep (3 / 2)"
  using rep_formI [of "1 / 2" 1 "- 1"] rep_formI [of "3 / 2" 3 "- 1"] by simp_all

lemma rndE_half [simp]: "rndE (1 / 2) = Q (1 / 2)" "rndE (3 / 2) = Q (3 / 2)"
  using rep_half by (simp_all add: rep_def)

definition atLeastOne :: AbsVal where
  "atLeastOne = absVal (fin 1) Infinity False False None"

text \<open>C36. Division of two ranges that are unbounded above loses its numeric members: the corner
  \<open>Infinity / Infinity\<close> makes both bounds NaN, and any further arithmetic turns that into the
  empty set. For \<open>x >= 1\<close> and \<open>y >= 1\<close> the check then proves \<open>x / y + 1\<close> an integer, vacuously,
  although \<open>1 / 2 + 1\<close> is one and a half.\<close>

theorem unbounded_quotient_proved:
  "fin 1 \<in> gamma atLeastOne \<and> fin 2 \<in> gamma atLeastOne \<and> fadd (fdiv (fin 1) (fin 2)) (fin 1) = fin (3 / 2) \<and>
   lo (transferDiv atLeastOne atLeastOne) = NaN \<and>
   v_outcome (checkBoundary rt (transferAdd (transferDiv atLeastOne atLeastOne) (constVal (fin 1) None)) path cls loc) = Prove"
proof -
  have g: "fin 1 \<in> gamma atLeastOne" "fin 2 \<in> gamma atLeastOne"
    unfolding atLeastOne_def by (rule gamma_absValI; simp)+
  have s: "lo atLeastOne = fin 1" "hi atLeastOne = Infinity" "\<not> whole atLeastOne" "\<not> maybeNaN atLeastOne"
    by (simp_all add: atLeastOne_def is_finite_def)
  have q: "fdiv Infinity Infinity = NaN" by (simp add: fdiv_def)
  have d: "transferDiv atLeastOne atLeastOne = absVal NaN NaN False False None"
    by (simp add: transferDiv_def Let_def hasNumeric_def isSingleton_def s q fmin2_def fmax2_def feq_def)
  have "isBottom (transferAdd (transferDiv atLeastOne atLeastOne) (constVal (fin 1) None))"
    by (simp add: d transferAdd_def Let_def hasNumeric_def fle_def isBottom_def constVal_def)
  moreover have "spelling (transferAdd (transferDiv atLeastOne atLeastOne) (constVal (fin 1) None)) = None"
    by (simp add: transferAdd_def Let_def)
  ultimately have "v_outcome (checkBoundary rt (transferAdd (transferDiv atLeastOne atLeastOne) (constVal (fin 1) None)) path cls loc) = Prove"
    by (simp add: checkBoundary_def)
  moreover have "fadd (fdiv (fin 1) (fin 2)) (fin 1) = fin (3 / 2)"
    by (simp add: fdiv_def fadd_def rnd_def signed_num_def)
  ultimately show ?thesis using g by (simp add: d)
qed

text \<open>A zero divisor is taken for \<open>+0\<close>: one divided by a negative zero is \<open>-Infinity\<close>, and the
  transferred value holds \<open>+Infinity\<close> only.\<close>

theorem negative_zero_divisor_lost:
  "fin 1 \<in> gamma (constVal (fin 1) None) \<and> NegZero \<in> gamma (constVal NegZero None) \<and>
   fdiv (fin 1) NegZero = NegInfinity \<and> NegInfinity \<notin> gamma (transferDiv (constVal (fin 1) None) (constVal NegZero None))"
proof -
  have "transferDiv (constVal (fin 1) None) (constVal NegZero None) = absVal Infinity Infinity False False None"
    by (simp add: transferDiv_def Let_def constVal_def hasNumeric_def isSingleton_def normZero_def is_finite_def)
  moreover have "fin 1 \<in> gamma (constVal (fin 1) None)" "NegZero \<in> gamma (constVal NegZero None)"
    by (simp_all add: gamma_constVal)
  ultimately show ?thesis by (simp add: in_gamma_num fdiv_def inf_of_def)
qed

end
