(* ===== verification/Int_Ir.thy ===== *)
theory Int_Ir
  imports Int_Boundary
begin

text \<open>
  The part of the lowered IR (ir/nodes.ts) that the integer-boundary inference looks at, its
  abstract environments, and the syntax-directed side of the analyzer: purity, the value of a
  pure expression, static access paths and branch refinement (library/int-infer.ts lines 464
  to 534 and 1114 to 1356).

  A node carries its type and source span. Node kinds that the analysis treats alike are one
  constructor with the kind's name: \<open>Leaf\<close> (\<open>regexLit\<close>, \<open>templateStrings\<close>, \<open>classRef\<close>,
  \<open>chainRecv\<close>), \<open>Opaque\<close> (\<open>callValue\<close>, \<open>newValue\<close>, \<open>dynCall\<close>, \<open>dynInvoke\<close>, \<open>virtualCall\<close>, \<open>new\<close>,
  \<open>intrinsic\<close>), \<open>Suspend\<close> (\<open>ffiCall\<close>, \<open>yieldExpr\<close>, \<open>awaitExpr\<close>, \<open>awaitUnionExpr\<close>) and \<open>Other\<close> (every
  remaining kind); their child expressions are listed in the order \<open>childExprs\<close> yields them, each
  with whether it sits inside an entry object of the node rather than in the node itself. A
  \<open>libCall\<close> of a \<open>Math\<close> function the analysis models is \<open>Math1\<close>, \<open>Math2\<close> or \<open>MathRandom\<close>, with the
  arity the IR validator enforces.
\<close>

section \<open>The IR\<close>

record IrType =
  ty_kind :: jsstr
  ty_shape :: jsstr
  ty_json :: jsstr

definition is_f64_type :: "IrType \<Rightarrow> bool" where
  "is_f64_type t \<longleftrightarrow> ty_kind t = js ''f64''"

datatype unop = UNeg | UNot | UBitNot

datatype math1 = MRound roundfn | MAbs

datatype (plugins only: size code) IrExpr =
    NumLit jsdouble "jsstr option" (ety: IrType) (eloc: SrcLoc)
  | StrLit jsstr (ety: IrType) (eloc: SrcLoc)
  | BoolLit bool (ety: IrType) (eloc: SrcLoc)
  | UnitLit jsstr (ety: IrType) (eloc: SrcLoc)
  | Leaf jsstr (ety: IrType) (eloc: SrcLoc)
  | SelfRef (ety: IrType) (eloc: SrcLoc)
  | VarRef jsstr (ety: IrType) (eloc: SrcLoc)
  | Bin IrNumBinOp IrExpr IrExpr (ety: IrType) (eloc: SrcLoc)
  | Unary unop IrExpr (ety: IrType) (eloc: SrcLoc)
  | IncDec bool bool jsstr (ety: IrType) (eloc: SrcLoc)
  | AssignExpr jsstr IrExpr (ety: IrType) (eloc: SrcLoc)
  | Ternary IrExpr IrExpr IrExpr (ety: IrType) (eloc: SrcLoc)
  | Logical bool IrExpr IrExpr (ety: IrType) (eloc: SrcLoc)
  | Nullish IrExpr IrExpr (ety: IrType) (eloc: SrcLoc)
  | OrDefault IrExpr IrExpr (ety: IrType) (eloc: SrcLoc)
  | OptChain IrExpr IrExpr (ety: IrType) (eloc: SrcLoc)
  | SeqExpr "IrStmt list" IrExpr (ety: IrType) (eloc: SrcLoc)
  | Call jsstr "IrExpr list" (ety: IrType) (eloc: SrcLoc)
  | Math1 math1 IrExpr (ety: IrType) (eloc: SrcLoc)
  | Math2 minmax IrExpr IrExpr (ety: IrType) (eloc: SrcLoc)
  | MathRandom (ety: IrType) (eloc: SrcLoc)
  | LibCall jsstr "IrExpr list" (ety: IrType) (eloc: SrcLoc)
  | Opaque jsstr "(bool \<times> IrExpr) list" (ety: IrType) (eloc: SrcLoc)
  | Suspend jsstr "(bool \<times> IrExpr) list" (ety: IrType) (eloc: SrcLoc)
  | RecordLit "(jsstr \<times> IrExpr) list" (ety: IrType) (eloc: SrcLoc)
  | RecordGet IrExpr jsstr jsstr (ety: IrType) (eloc: SrcLoc)
  | FieldGet IrExpr jsstr jsstr (ety: IrType) (eloc: SrcLoc)
  | ToBool IrExpr (ety: IrType) (eloc: SrcLoc)
  | Other jsstr "(bool \<times> IrExpr) list" (ety: IrType) (eloc: SrcLoc)
and IrStmt =
    VarDecl jsstr "IrExpr option"
  | Assign jsstr IrExpr
  | ExprStmt IrExpr
  | SIf IrExpr "IrStmt list" "IrStmt list option"
  | While IrExpr "IrStmt list" "jsstr list"
  | DoWhile IrExpr "IrStmt list" "jsstr list"
  | For "IrStmt option" "IrExpr option" "IrStmt option" "IrStmt list" "jsstr list"
  | ForOf jsstr IrExpr "IrStmt list" "jsstr list"
  | Switch IrExpr "(IrExpr option \<times> IrStmt list) list" "jsstr list"
  | ArraySet IrExpr IrExpr IrExpr
  | BytesSet IrExpr IrExpr IrExpr
  | FieldSet IrExpr IrExpr
  | RecordSet IrExpr jsstr jsstr IrExpr SrcLoc
  | RecordKeySet IrExpr IrExpr IrExpr
  | RecordKeyDelete IrExpr IrExpr
  | Return "IrExpr option" SrcLoc
  | Throw IrExpr
  | Rethrow
  | RuntimeFence
  | Break "jsstr option"
  | Continue "jsstr option"
  | Block "IrStmt list" "jsstr list"
  | TryCatch "IrStmt list" "IrStmt list option" "IrStmt list option"

section \<open>Environments\<close>

text \<open>A \<open>Map\<close> from binding and access-path keys to abstract values, in insertion order.\<close>

type_synonym Env = "(jsstr \<times> AbsVal) list"

definition startsWith :: "jsstr \<Rightarrow> jsstr \<Rightarrow> bool" where
  "startsWith s p \<longleftrightarrow> take (length p) s = p"

definition PATH_I64_PREFIX :: jsstr where
  "PATH_I64_PREFIX = js ''%path.i64:''"

definition PATH_U64_PREFIX :: jsstr where
  "PATH_U64_PREFIX = js ''%path.u64:''"

definition pathClassOfKey :: "jsstr \<Rightarrow> IntClass option" where
  "pathClassOfKey k = (if startsWith k PATH_I64_PREFIX then Some I64
     else if startsWith k PATH_U64_PREFIX then Some U64 else None)"

definition clearPathFacts :: "Env \<Rightarrow> Env" where
  "clearPathFacts env = filter (\<lambda>(k, _). pathClassOfKey k = None) env"

definition isGlobalId :: "jsstr \<Rightarrow> bool" where
  "isGlobalId k \<longleftrightarrow> startsWith k (js ''%g.'')"

definition defaultVal :: "jsstr \<Rightarrow> AbsVal" where
  "defaultVal k = (case pathClassOfKey k of Some c \<Rightarrow> classSeed (className c)
     | None \<Rightarrow> if isGlobalId k then TOP else BOTTOM)"

definition envGet :: "Env \<Rightarrow> jsstr \<Rightarrow> AbsVal" where
  "envGet env k = (case map_of env k of Some v \<Rightarrow> v | None \<Rightarrow> defaultVal k)"

text \<open>\<open>Map.set\<close> and \<open>Map.delete\<close>.\<close>

fun envSet :: "Env \<Rightarrow> jsstr \<Rightarrow> AbsVal \<Rightarrow> Env" where
  "envSet [] k v = [(k, v)]"
| "envSet ((k', v') # env) k v = (if k' = k then (k, v) # env else (k', v') # envSet env k v)"

definition envDelete :: "Env \<Rightarrow> jsstr \<Rightarrow> Env" where
  "envDelete env k = filter (\<lambda>(k', _). k' \<noteq> k) env"

definition keysOf :: "Env \<Rightarrow> Env \<Rightarrow> jsstr list" where
  "keysOf a b = map fst a @ filter (\<lambda>k. k \<notin> set (map fst a)) (map fst b)"

fun joinEnv :: "Env option \<Rightarrow> Env option \<Rightarrow> Env option" where
  "joinEnv None b = b"
| "joinEnv (Some a) None = Some a"
| "joinEnv (Some a) (Some b) =
     Some (clearPathFacts (map (\<lambda>k. (k, joinVal (envGet a k) (envGet b k))) (keysOf a b)))"

definition envEquals :: "Env \<Rightarrow> Env \<Rightarrow> bool" where
  "envEquals a b \<longleftrightarrow> list_all (\<lambda>k. sameVal (envGet a k) (envGet b k)) (keysOf a b)"

definition widenEnv :: "Env \<Rightarrow> Env \<Rightarrow> Env" where
  "widenEnv prev nxt = clearPathFacts (map (\<lambda>k. (k, widen (envGet prev k) (envGet nxt k))) (keysOf prev nxt))"

end
