(* ===== verification/Int_Refine.thy ===== *)
theory Int_Refine
  imports Int_Ir
begin

text \<open>
  The syntax-directed part of \<open>FnAnalyzer\<close> (library/int-infer.ts lines 1114 to 1356): static access
  paths and their keys, purity, the abstract value of a pure expression, and the refinement of an
  environment by the branch a condition took. \<open>pathRoots\<close>, the analyzer's record of which binding
  a path key is rooted at, is an argument and result of the operations that write it.
\<close>

section \<open>JSON text of a path\<close>

definition hexDigit :: "nat \<Rightarrow> 16 word" where
  "hexDigit d = of_nat (if d < 10 then 48 + d else 87 + d)"

definition hex4 :: "16 word \<Rightarrow> jsstr" where
  "hex4 c = [hexDigit (unat c div 4096), hexDigit (unat c div 256 mod 16), hexDigit (unat c div 16 mod 16), hexDigit (unat c mod 16)]"

definition isLead :: "16 word \<Rightarrow> bool" where
  "isLead c \<longleftrightarrow> 0xD800 \<le> c \<and> c \<le> 0xDBFF"

definition isTrail :: "16 word \<Rightarrow> bool" where
  "isTrail c \<longleftrightarrow> 0xDC00 \<le> c \<and> c \<le> 0xDFFF"

text \<open>The escape of one code unit that \<open>JSON.stringify\<close> writes outside a surrogate pair.\<close>

definition jsonUnit :: "16 word \<Rightarrow> jsstr" where
  "jsonUnit c =
    (if c = 0x08 then [0x5C, 0x62] else if c = 0x09 then [0x5C, 0x74] else if c = 0x0A then [0x5C, 0x6E]
     else if c = 0x0C then [0x5C, 0x66] else if c = 0x0D then [0x5C, 0x72]
     else if c = 0x22 then [0x5C, 0x22] else if c = 0x5C then [0x5C, 0x5C]
     else if c < 0x20 \<or> isLead c \<or> isTrail c then [0x5C, 0x75] @ hex4 c else [c])"

fun jsonEsc :: "jsstr \<Rightarrow> jsstr" where
  "jsonEsc [] = []"
| "jsonEsc [c] = jsonUnit c"
| "jsonEsc (c # d # s) = (if isLead c \<and> isTrail d then c # d # jsonEsc s else jsonUnit c @ jsonEsc (d # s))"

definition jsonStr :: "jsstr \<Rightarrow> jsstr" where
  "jsonStr s = 0x22 # jsonEsc s @ [0x22]"

definition jsonArr :: "('a \<Rightarrow> jsstr) \<Rightarrow> 'a list \<Rightarrow> jsstr" where
  "jsonArr f xs = 0x5B # join [0x2C] (map f xs) @ [0x5D]"

lemma join_concat: "join sep (x # xs) = x @ concat (map (\<lambda>y. sep @ y) xs)"
  by (induction xs arbitrary: x) simp_all

text \<open>A rendering that can be told apart from what follows it, and that never starts like the end
  of an array.\<close>

locale self_delimiting =
  fixes f :: "'a \<Rightarrow> jsstr"
  assumes cancel: "f x @ r = f y @ r' \<Longrightarrow> x = y \<and> r = r'"
    and starts: "\<exists>c s. f x = c # s \<and> c \<noteq> 0x5D"
begin

lemma tail_cancel:
  "concat (map (\<lambda>y. 0x2C # f y) xs) @ 0x5D # r = concat (map (\<lambda>y. 0x2C # f y) ys) @ 0x5D # r' \<Longrightarrow> xs = ys \<and> r = r'"
proof (induction xs arbitrary: ys)
  case Nil
  then show ?case by (cases ys) auto
next
  case (Cons x xs)
  then obtain y ys' where y: "ys = y # ys'" by (cases ys) auto
  with Cons.prems have "f x @ concat (map (\<lambda>y. 0x2C # f y) xs) @ 0x5D # r = f y @ concat (map (\<lambda>y. 0x2C # f y) ys') @ 0x5D # r'"
    by simp
  from cancel [OF this] Cons.IH y show ?case by blast
qed

lemma jsonArr_cancel: assumes "jsonArr f xs @ r = jsonArr f ys @ r'" shows "xs = ys \<and> r = r'"
proof -
  have nonempty: "join [0x2C] (map f (z # zs)) @ 0x5D # q \<noteq> 0x5D # q'" for z zs q q'
    using starts [of z] by (auto simp: join_concat)
  have eq: "join [0x2C] (map f xs) @ 0x5D # r = join [0x2C] (map f ys) @ 0x5D # r'"
    using assms by (simp add: jsonArr_def)
  have "xs = [] \<longleftrightarrow> ys = []"
    using eq nonempty by (metis append_Nil join.simps(1) list.exhaust list.simps(8))
  then consider "xs = []" "ys = []" | x xs' y ys' where "xs = x # xs'" "ys = y # ys'"
    by (cases xs; cases ys) auto
  then show ?thesis
  proof cases
    case 1
    then show ?thesis using eq by simp
  next
    case (2 x xs' y ys')
    then have "f x @ concat (map (\<lambda>y. 0x2C # f y) xs') @ 0x5D # r = f y @ concat (map (\<lambda>y. 0x2C # f y) ys') @ 0x5D # r'"
      using eq by (simp add: join_concat comp_def)
    from cancel [OF this] tail_cancel 2 show ?thesis by blast
  qed
qed

lemma jsonArr_starts: "\<exists>c s. jsonArr f xs = c # s \<and> c \<noteq> 0x5D"
  by (simp add: jsonArr_def)

end

subsection \<open>Reading an escaped string back\<close>

definition unhexDigit :: "16 word \<Rightarrow> nat" where
  "unhexDigit w = (if unat w < 58 then unat w - 48 else unat w - 87)"

definition unescape1 :: "16 word \<Rightarrow> 16 word" where
  "unescape1 k = (if k = 0x62 then 0x08 else if k = 0x74 then 0x09 else if k = 0x6E then 0x0A
     else if k = 0x66 then 0x0C else if k = 0x72 then 0x0D else k)"

fun unesc :: "jsstr \<Rightarrow> (jsstr \<times> jsstr) option" where
  "unesc [] = None"
| "unesc (c # r) =
    (if c = 0x22 then Some ([], r)
     else if c = 0x5C then
       (case r of [] \<Rightarrow> None
        | k # r1 \<Rightarrow>
          if k = 0x75 then
            (case r1 of
               a # b # x # y # r2 \<Rightarrow> map_option (apfst (Cons (of_nat (unhexDigit a * 4096 + unhexDigit b * 256 + unhexDigit x * 16 + unhexDigit y)))) (unesc r2)
             | _ \<Rightarrow> None)
          else map_option (apfst (Cons (unescape1 k))) (unesc r1))
     else map_option (apfst (Cons c)) (unesc r))"

lemma unhexDigit_hexDigit: "d < 16 \<Longrightarrow> unhexDigit (hexDigit d) = d"
  by (simp add: unhexDigit_def hexDigit_def unat_of_nat)

lemma unhex4: "(of_nat (unhexDigit (hexDigit (unat c div 4096)) * 4096 + unhexDigit (hexDigit (unat c div 256 mod 16)) * 256 +
    unhexDigit (hexDigit (unat c div 16 mod 16)) * 16 + unhexDigit (hexDigit (unat c mod 16))) :: 16 word) = c"
proof -
  have l: "unat c < 65536" using unsigned_less [of c, where 'a = nat] by simp
  have e: "unat c div 256 = unat c div 16 div 16" "unat c div 4096 = unat c div 16 div 16 div 16"
    by (simp_all flip: div_mult2_eq)
  have "unat c div 4096 * 4096 + unat c div 256 mod 16 * 256 + unat c div 16 mod 16 * 16 + unat c mod 16 = unat c"
    unfolding e using div_mult_mod_eq [of "unat c" 16] div_mult_mod_eq [of "unat c div 16" 16]
      div_mult_mod_eq [of "unat c div 16 div 16" 16] by linarith
  moreover have "unat c div 4096 < 16" using l by simp
  ultimately show ?thesis by (simp add: unhexDigit_hexDigit)
qed

lemma unesc_jsonUnit: "unesc (jsonUnit c @ r) = map_option (apfst (Cons c)) (unesc r)"
proof -
  have "unesc ([0x5C, 0x75] @ hex4 c @ r) = map_option (apfst (Cons c)) (unesc r)"
    using unhex4 [of c] by (simp add: hex4_def)
  then show ?thesis by (simp add: jsonUnit_def unescape1_def)
qed

lemma surrogate_plain: "isLead c \<Longrightarrow> c \<noteq> 0x22 \<and> c \<noteq> 0x5C" "isTrail c \<Longrightarrow> c \<noteq> 0x22 \<and> c \<noteq> 0x5C"
  by (auto simp: isLead_def isTrail_def)

lemma unesc_jsonEsc: "unesc (jsonEsc s @ 0x22 # r) = Some (s, r)"
proof (induction s rule: jsonEsc.induct)
  case (2 c)
  then show ?case by (simp add: unesc_jsonUnit)
next
  case (3 c d s)
  then show ?case using surrogate_plain by (cases "isLead c \<and> isTrail d") (auto simp: unesc_jsonUnit)
qed simp

interpretation json_string: self_delimiting jsonStr
proof
  fix x r y r'
  assume "jsonStr x @ r = jsonStr y @ r'"
  then have "unesc (jsonEsc x @ 0x22 # r) = unesc (jsonEsc y @ 0x22 # r')" by (simp add: jsonStr_def)
  then show "x = y \<and> r = r'" by (simp add: unesc_jsonEsc)
qed (simp add: jsonStr_def)

interpretation json_step: self_delimiting "jsonArr jsonStr"
  by unfold_locales (use json_string.jsonArr_cancel json_string.jsonArr_starts in blast)+

section \<open>Static access paths\<close>

record Ctx =
  c_rt :: js_lib
  c_cfg :: IntSlotConfig
  c_ret :: "(IntClass \<times> jsstr) option"
  c_f64 :: "jsstr list"
  c_perFn :: "(jsstr \<times> jsstr list) list"
  c_havocAll :: "jsstr list"

definition recSlotOf :: "IntSlotConfig \<Rightarrow> jsstr \<Rightarrow> jsstr \<Rightarrow> recSlot option" where
  "recSlotOf cfg shape field = (case map_of (cfg_records cfg) shape of None \<Rightarrow> None | Some m \<Rightarrow> map_of m field)"

text \<open>The root binding (none for \<open>this\<close>) and the steps of a path.\<close>

fun staticAccessPath :: "IrExpr \<Rightarrow> (jsstr option \<times> jsstr list list) option" where
  "staticAccessPath (VarRef x _ _) = Some (Some x, [[js ''var'', x]])"
| "staticAccessPath (SelfRef _ _) = Some (None, [[js ''self'']])"
| "staticAccessPath (RecordGet obj shape field _ _) =
    (case staticAccessPath obj of None \<Rightarrow> None
     | Some (r, steps) \<Rightarrow> Some (r, steps @ [[js ''record'', shape, field]]))"
| "staticAccessPath (FieldGet obj cls field _ _) =
    (case staticAccessPath obj of None \<Rightarrow> None
     | Some (r, steps) \<Rightarrow> Some (r, steps @ [[js ''field'', cls, field]]))"
| "staticAccessPath _ = None"

definition pathPrefix :: "IntClass \<Rightarrow> jsstr" where
  "pathPrefix cls = (if cls = I64 then PATH_I64_PREFIX else PATH_U64_PREFIX)"

definition pathKeyOf :: "IntClass \<Rightarrow> jsstr list list \<Rightarrow> jsstr" where
  "pathKeyOf cls steps = pathPrefix cls @ jsonArr (jsonArr jsonStr) steps"

text \<open>\<open>pathKey\<close> returns the key; registering its root in \<open>pathRoots\<close> is \<open>noteRoot\<close>.\<close>

definition pathKey :: "IrExpr \<Rightarrow> IntClass \<Rightarrow> jsstr option" where
  "pathKey e cls = (case staticAccessPath e of None \<Rightarrow> None | Some (_, steps) \<Rightarrow> Some (pathKeyOf cls steps))"

type_synonym Roots = "(jsstr \<times> jsstr option) list"

definition noteRoot :: "IrExpr \<Rightarrow> IntClass \<Rightarrow> Roots \<Rightarrow> Roots" where
  "noteRoot e cls roots = (case staticAccessPath e of None \<Rightarrow> roots
     | Some (r, steps) \<Rightarrow> (pathKeyOf cls steps, r) # filter (\<lambda>(k, _). k \<noteq> pathKeyOf cls steps) roots)"

definition refinementKey :: "Ctx \<Rightarrow> IrExpr \<Rightarrow> bool \<Rightarrow> jsstr option" where
  "refinementKey c e allowPaths =
    (case e of
       VarRef x _ _ \<Rightarrow> Some x
     | RecordGet obj shape field ty _ \<Rightarrow>
         if \<not> allowPaths \<or> \<not> is_f64_type ty then None else
         (case recSlotOf (c_cfg c) shape field of None \<Rightarrow> None | Some slot \<Rightarrow> pathKey e (rs_cls slot))
     | _ \<Rightarrow> None)"

definition refinementNote :: "Ctx \<Rightarrow> IrExpr \<Rightarrow> bool \<Rightarrow> Roots \<Rightarrow> Roots" where
  "refinementNote c e allowPaths roots =
    (case e of
       RecordGet obj shape field ty _ \<Rightarrow>
         if \<not> allowPaths \<or> \<not> is_f64_type ty then roots else
         (case recSlotOf (c_cfg c) shape field of None \<Rightarrow> roots | Some slot \<Rightarrow> noteRoot e (rs_cls slot) roots)
     | _ \<Rightarrow> roots)"

fun stablePathGuard :: "IrExpr \<Rightarrow> bool" where
  "stablePathGuard (NumLit _ _ _ _) = True"
| "stablePathGuard (StrLit _ _ _) = True"
| "stablePathGuard (BoolLit _ _ _) = True"
| "stablePathGuard (UnitLit _ _ _) = True"
| "stablePathGuard (VarRef _ _ _) = True"
| "stablePathGuard (SelfRef _ _) = True"
| "stablePathGuard (RecordGet obj s f ty l) = (staticAccessPath (RecordGet obj s f ty l) \<noteq> None)"
| "stablePathGuard (FieldGet obj c f ty l) = (staticAccessPath (FieldGet obj c f ty l) \<noteq> None)"
| "stablePathGuard (Bin _ a b _ _) = (stablePathGuard a \<and> stablePathGuard b)"
| "stablePathGuard (Logical _ a b _ _) = (stablePathGuard a \<and> stablePathGuard b)"
| "stablePathGuard (Unary _ a _ _) = stablePathGuard a"
| "stablePathGuard (ToBool a _ _) = stablePathGuard a"
| "stablePathGuard _ = False"

definition clearPathsRootedAt :: "Roots \<Rightarrow> Env \<Rightarrow> jsstr \<Rightarrow> Env" where
  "clearPathsRootedAt roots env x =
    filter (\<lambda>(k, _). \<not> (pathClassOfKey k \<noteq> None \<and> map_of roots k = Some (Some x))) env"

section \<open>Pure expressions\<close>

fun isPure :: "IrExpr \<Rightarrow> bool" where
  "isPure (LibCall fn args _ _) = (startsWith fn (js ''math.'') \<and> list_all isPure args)"
| "isPure (Math1 _ a _ _) = isPure a"
| "isPure (Math2 _ a b _ _) = (isPure a \<and> isPure b)"
| "isPure (MathRandom _ _) = True"
| "isPure (NumLit _ _ _ _) = True"
| "isPure (StrLit _ _ _) = True"
| "isPure (BoolLit _ _ _) = True"
| "isPure (VarRef _ _ _) = True"
| "isPure (UnitLit _ _ _) = True"
| "isPure (SelfRef _ _) = True"
| "isPure (RecordGet obj s f ty l) = (staticAccessPath (RecordGet obj s f ty l) \<noteq> None)"
| "isPure (FieldGet obj c f ty l) = (staticAccessPath (FieldGet obj c f ty l) \<noteq> None)"
| "isPure (Bin _ a b _ _) = (isPure a \<and> isPure b)"
| "isPure (Unary _ a _ _) = isPure a"
| "isPure (Logical _ a b _ _) = (isPure a \<and> isPure b)"
| "isPure (ToBool a _ _) = isPure a"
| "isPure _ = False"

fun transferMath1 :: "math1 \<Rightarrow> AbsVal \<Rightarrow> AbsVal" where
  "transferMath1 (MRound f) v = transferMathRound f v"
| "transferMath1 MAbs v = transferAbs v"

text \<open>The abstract value of a pure expression. A \<open>libCall\<close> outside the modelled \<open>Math\<close> functions is
  the top value.\<close>

fun evalPure :: "Ctx \<Rightarrow> IrExpr \<Rightarrow> Env \<Rightarrow> AbsVal" where
  "evalPure c (NumLit x sp _ _) env = constVal x sp"
| "evalPure c (VarRef x ty _) env = (if is_f64_type ty then envGet env x else TOP)"
| "evalPure c (RecordGet obj shape field ty l) env =
    (case recSlotOf (c_cfg c) shape field of None \<Rightarrow> TOP
     | Some slot \<Rightarrow>
       if \<not> is_f64_type ty then TOP else
       (case pathKey (RecordGet obj shape field ty l) (rs_cls slot) of
          None \<Rightarrow> classSeed (className (rs_cls slot)) | Some k \<Rightarrow> envGet env k))"
| "evalPure c (Unary UNeg a _ _) env = transferNeg (evalPure c a env)"
| "evalPure c (Unary UBitNot a _ _) env = transferBitNot (evalPure c a env)"
| "evalPure c (Bin op a b _ _) env = transferBin (c_rt c) op (evalPure c a env) (evalPure c b env)"
| "evalPure c (Math1 f a _ _) env = transferMath1 f (evalPure c a env)"
| "evalPure c (Math2 f a b _ _) env = transferMinMax f [evalPure c a env, evalPure c b env]"
| "evalPure c (MathRandom _ _) env = absVal (fin 0) (fin 1) False False None"
| "evalPure c _ env = TOP"

text \<open>The roots that evaluating a pure expression registers.\<close>

fun pureNotes :: "Ctx \<Rightarrow> IrExpr \<Rightarrow> Roots \<Rightarrow> Roots" where
  "pureNotes c (RecordGet obj shape field ty l) roots =
    (case recSlotOf (c_cfg c) shape field of None \<Rightarrow> roots
     | Some slot \<Rightarrow> if \<not> is_f64_type ty then roots else noteRoot (RecordGet obj shape field ty l) (rs_cls slot) roots)"
| "pureNotes c (Unary UNeg a _ _) roots = pureNotes c a roots"
| "pureNotes c (Unary UBitNot a _ _) roots = pureNotes c a roots"
| "pureNotes c (Bin op a b _ _) roots = pureNotes c b (pureNotes c a roots)"
| "pureNotes c (Math1 f a _ _) roots = pureNotes c a roots"
| "pureNotes c (Math2 f a b _ _) roots = pureNotes c b (pureNotes c a roots)"
| "pureNotes c _ roots = roots"

section \<open>Branch refinement\<close>

definition truthyVal :: "AbsVal \<Rightarrow> AbsVal" where
  "truthyVal v = (let r = v\<lparr> maybeNaN := False \<rparr> in
     if whole r \<and> feq (lo r) (fin 0) \<and> fle (fin 1) (hi r) then absVal (fin 1) (hi r) (whole r) False (spelling r)
     else if whole r \<and> feq (hi r) (fin 0) \<and> fle (lo r) (fin (- 1)) then absVal (lo r) (fin (- 1)) (whole r) False (spelling r)
     else r)"

definition setKey :: "jsstr option \<Rightarrow> AbsVal \<Rightarrow> Env \<Rightarrow> Env" where
  "setKey k v env = (case k of None \<Rightarrow> env | Some k \<Rightarrow> envSet env k v)"

text \<open>Comparison and truthiness leaves of a condition.\<close>

definition refineCmp :: "Ctx \<Rightarrow> IrNumBinOp \<Rightarrow> IrExpr \<Rightarrow> IrExpr \<Rightarrow> bool \<Rightarrow> bool \<Rightarrow> Env \<Rightarrow> Env" where
  "refineCmp c cop l r branch allowPaths env =
    (if cop \<notin> set CMP_OPS then env
     else if \<not> is_f64_type (ety l) \<or> \<not> is_f64_type (ety r) then env
     else if \<not> isPure l \<or> \<not> isPure r then env
     else
       (let op = (if branch then cop else NEGATE cop);
            clearNaN = (op \<noteq> OpNe);
            a = evalPure c l env; b = evalPure c r env
        in setKey (refinementKey c r allowPaths) (refineLhs (FLIP op) b a clearNaN)
             (setKey (refinementKey c l allowPaths) (refineLhs op a b clearNaN) env)))"

definition refineTruth :: "Ctx \<Rightarrow> IrExpr \<Rightarrow> bool \<Rightarrow> bool \<Rightarrow> Env \<Rightarrow> Env" where
  "refineTruth c inner branch allowPaths env =
    (if \<not> is_f64_type (ety inner) \<or> \<not> isPure inner then env else
     case refinementKey c inner allowPaths of None \<Rightarrow> env
     | Some k \<Rightarrow>
       (let v = evalPure c inner env
        in envSet env k (if branch then truthyVal v else meetInterval v (fin 0) (fin 0) False)))"

fun refine :: "Ctx \<Rightarrow> IrExpr \<Rightarrow> bool \<Rightarrow> bool \<Rightarrow> Env option \<Rightarrow> Env option" where
  "refine c cond branch allowPaths None = None"
| "refine c (BoolLit b _ _) branch allowPaths (Some env) = (if b = branch then Some env else None)"
| "refine c (Unary UNot a _ _) branch allowPaths (Some env) = refine c a (\<not> branch) allowPaths (Some env)"
| "refine c (Logical isAnd l r _ _) branch allowPaths (Some env) =
    (if isAnd = branch then refine c r branch allowPaths (refine c l branch allowPaths (Some env))
     else joinEnv (refine c l branch allowPaths (Some env))
            (refine c r branch allowPaths (refine c l (\<not> branch) allowPaths (Some env))))"
| "refine c (Bin cop l r _ _) branch allowPaths (Some env) = Some (refineCmp c cop l r branch allowPaths env)"
| "refine c (ToBool inner _ _) branch allowPaths (Some env) = Some (refineTruth c inner branch allowPaths env)"
| "refine c cond branch allowPaths (Some env) = Some env"

text \<open>The roots that refining registers: the same walk, over the environments that are reached.\<close>

definition cmpNotes :: "Ctx \<Rightarrow> IrNumBinOp \<Rightarrow> IrExpr \<Rightarrow> IrExpr \<Rightarrow> bool \<Rightarrow> Roots \<Rightarrow> Roots" where
  "cmpNotes c cop l r allowPaths roots =
    (if cop \<notin> set CMP_OPS \<or> \<not> is_f64_type (ety l) \<or> \<not> is_f64_type (ety r) \<or> \<not> isPure l \<or> \<not> isPure r then roots
     else refinementNote c r allowPaths (refinementNote c l allowPaths (pureNotes c r (pureNotes c l roots))))"

definition truthNotes :: "Ctx \<Rightarrow> IrExpr \<Rightarrow> bool \<Rightarrow> Roots \<Rightarrow> Roots" where
  "truthNotes c inner allowPaths roots =
    (if \<not> is_f64_type (ety inner) \<or> \<not> isPure inner then roots
     else if refinementKey c inner allowPaths = None then refinementNote c inner allowPaths roots
     else pureNotes c inner (refinementNote c inner allowPaths roots))"

fun refineNotes :: "Ctx \<Rightarrow> IrExpr \<Rightarrow> bool \<Rightarrow> bool \<Rightarrow> Env option \<Rightarrow> Roots \<Rightarrow> Roots" where
  "refineNotes c cond branch allowPaths None roots = roots"
| "refineNotes c (Unary UNot a _ _) branch allowPaths env roots = refineNotes c a (\<not> branch) allowPaths env roots"
| "refineNotes c (Logical isAnd l r _ _) branch allowPaths env roots =
    (if isAnd = branch then
       refineNotes c r branch allowPaths (refine c l branch allowPaths env) (refineNotes c l branch allowPaths env roots)
     else
       refineNotes c r branch allowPaths (refine c l (\<not> branch) allowPaths env)
         (refineNotes c l (\<not> branch) allowPaths env (refineNotes c l branch allowPaths env roots)))"
| "refineNotes c (Bin cop l r _ _) branch allowPaths env roots = cmpNotes c cop l r allowPaths roots"
| "refineNotes c (ToBool inner _ _) branch allowPaths env roots = truthNotes c inner allowPaths roots"
| "refineNotes c cond branch allowPaths env roots = roots"

end
