(* ===== verification/Int_Branch.thy ===== *)
theory Int_Branch
  imports Int_Refine
begin

text \<open>
  Soundness of branch refinement (library/int-infer.ts lines 1114 to 1350) against the meaning of
  pure expressions and conditions over a store: on the edge a condition takes, the refined
  environment still describes the store, and an edge the refinement calls impossible is not
  taken. Path facts rest on the key of a path determining the path.
\<close>

section \<open>Environments as maps\<close>

lemma map_of_envSet: "map_of (envSet env k v) k' = (if k' = k then Some v else map_of env k')"
  by (induction env k v rule: envSet.induct) auto

lemma envGet_envSet [simp]: "envGet (envSet env k v) k' = (if k' = k then v else envGet env k')"
  by (simp add: envGet_def map_of_envSet)

lemma map_of_filter_key: "map_of (filter (\<lambda>(k, _). P k) env) k = (if P k then map_of env k else None)"
  by (induction env) auto

lemma envGet_clearPathFacts: "envGet (clearPathFacts env) k = (if pathClassOfKey k = None then envGet env k else defaultVal k)"
  by (simp add: envGet_def clearPathFacts_def map_of_filter_key)

lemma map_of_map_key: "map_of (map (\<lambda>k. (k, f k)) ks) k = (if k \<in> set ks then Some (f k) else None)"
  by (induction ks) auto

lemma keysOf_iff: "k \<in> set (keysOf a b) \<longleftrightarrow> k \<in> fst ` set a \<or> k \<in> fst ` set b"
  by (auto simp: keysOf_def)

lemma envGet_absent: "k \<notin> fst ` set env \<Longrightarrow> envGet env k = defaultVal k"
  by (simp add: envGet_def map_of_eq_None_iff split: option.splits)
    (metis map_of_eq_None_iff option.distinct(1))

text \<open>What a pointwise combination of two environments holds at a key.\<close>

lemma envGet_pointwise:
  "envGet (clearPathFacts (map (\<lambda>k. (k, f (envGet a k) (envGet b k))) (keysOf a b))) k =
    (if pathClassOfKey k \<noteq> None then defaultVal k
     else if k \<in> set (keysOf a b) then f (envGet a k) (envGet b k) else defaultVal k)"
  by (simp add: envGet_clearPathFacts) (simp add: envGet_def map_of_map_key)

lemma pathKeyOf_class [simp]: "pathClassOfKey (pathKeyOf cls steps) = Some cls"
  by (cases cls) (simp_all add: pathClassOfKey_def pathKeyOf_def pathPrefix_def startsWith_def
      PATH_I64_PREFIX_def PATH_U64_PREFIX_def js_def)

lemma pathKeyOf_inj: assumes "pathKeyOf cls steps = pathKeyOf cls' steps'" shows "cls = cls' \<and> steps = steps'"
proof -
  have c: "cls = cls'" using pathKeyOf_class [of cls steps] pathKeyOf_class [of cls' steps'] assms by simp
  then have "jsonArr (jsonArr jsonStr) steps @ [] = jsonArr (jsonArr jsonStr) steps' @ []" using assms by (simp add: pathKeyOf_def)
  from json_step.jsonArr_cancel [OF this] c show ?thesis by blast
qed

text \<open>The first step of a path names its root.\<close>

definition rootOf :: "jsstr list list \<Rightarrow> jsstr option" where
  "rootOf steps = (if steps \<noteq> [] \<and> length (hd steps) = 2 then Some (hd steps ! 1) else None)"

lemma path_root: "staticAccessPath d = Some (q, st) \<Longrightarrow> q = rootOf st \<and> st \<noteq> []"
proof (induction d arbitrary: q st rule: staticAccessPath.induct)
  case (3 obj shape field ty l)
  then obtain st' where "staticAccessPath obj = Some (q, st')" "st = st' @ [[js ''record'', shape, field]]"
    by (auto split: option.splits)
  with "3.IH" [of q st'] show ?case by (simp add: rootOf_def)
next
  case (4 obj cls field ty l)
  then obtain st' where "staticAccessPath obj = Some (q, st')" "st = st' @ [[js ''field'', cls, field]]"
    by (auto split: option.splits)
  with "4.IH" [of q st'] show ?case by (simp add: rootOf_def)
qed (simp_all add: rootOf_def)

lemma pathKey_Some: "pathKey e cls = Some k \<longleftrightarrow> (\<exists>r steps. staticAccessPath e = Some (r, steps) \<and> k = pathKeyOf cls steps)"
  by (cases "staticAccessPath e") (auto simp: pathKey_def)

text \<open>C39. The key of a static access path identifies the path. Two accesses have the same key
  exactly if they have the same slot class and the same static path, that is the same receiver
  binding and the same steps: a fact recorded for one path is never read for another, and a fact
  recorded at one occurrence of a path is found at every other occurrence of it.\<close>

theorem pathKey_determines_path:
  assumes "pathKey e cls = Some k" "pathKey e' cls' = Some k'"
  shows "k = k' \<longleftrightarrow> cls = cls' \<and> staticAccessPath e = staticAccessPath e'"
proof -
  obtain r steps r' steps' where p: "staticAccessPath e = Some (r, steps)" "k = pathKeyOf cls steps"
    "staticAccessPath e' = Some (r', steps')" "k' = pathKeyOf cls' steps'"
    using assms unfolding pathKey_Some by blast
  have s: "k = k' \<longleftrightarrow> cls = cls' \<and> steps = steps'" unfolding p(2,4) using pathKeyOf_inj by blast
  have "steps = steps' \<Longrightarrow> r = r'" using path_root [OF p(1)] path_root [OF p(3)] by simp
  then show ?thesis using p(1,3) s by auto
qed

definition demo_type :: IrType where
  "demo_type = \<lparr> ty_kind = js ''f64'', ty_shape = [], ty_json = [] \<rparr>"

definition demo_var :: "string \<Rightarrow> IrExpr" where
  "demo_var x = VarRef (js x) demo_type demo_loc"

definition demo_get :: "string \<Rightarrow> string \<Rightarrow> nat \<Rightarrow> IrExpr" where
  "demo_get x f n = RecordGet (demo_var x) (js ''S'') (js f) demo_type (demo_loc\<lparr>loc_start := n, loc_end := n + 1\<rparr>)"

text \<open>\<open>m.count\<close> at two places of the source shares one key; \<open>m.size\<close>, \<open>n.count\<close> and the same field
  held as another class have other keys.\<close>

lemma pathKey_determines_path_witness:
  "pathKey (demo_get ''m'' ''count'' 0) I64 = pathKey (demo_get ''m'' ''count'' 40) I64
   \<and> pathKey (demo_get ''m'' ''count'' 0) I64 \<noteq> pathKey (demo_get ''m'' ''size'' 0) I64
   \<and> pathKey (demo_get ''m'' ''count'' 0) I64 \<noteq> pathKey (demo_get ''n'' ''count'' 0) I64
   \<and> pathKey (demo_get ''m'' ''count'' 0) I64 \<noteq> pathKey (demo_get ''m'' ''count'' 0) U64"
proof -
  have k: "\<exists>k. pathKey (demo_get x f l) cls = Some k" for x f l cls by (simp add: demo_get_def demo_var_def pathKey_def)
  have eq: "pathKey (demo_get x f l) cls = pathKey (demo_get x' f' l') cls' \<longleftrightarrow>
      cls = cls' \<and> staticAccessPath (demo_get x f l) = staticAccessPath (demo_get x' f' l')" for x f l cls x' f' l' cls'
    using k [of x f l cls] k [of x' f' l' cls'] pathKey_determines_path [of "demo_get x f l" cls _ "demo_get x' f' l'" cls'] by auto
  show ?thesis unfolding eq by (simp add: demo_get_def demo_var_def js_def)
qed

section \<open>The meaning of pure expressions and conditions\<close>

text \<open>A store gives every binding and every static path of a declared slot a number. What the
  analysis does not look into (other library calls, non-numeric operands) is an oracle.\<close>

record Store =
  s_var :: "jsstr \<Rightarrow> jsdouble"
  s_path :: "IntClass \<Rightarrow> jsstr list list \<Rightarrow> jsdouble"
  s_num :: "IrExpr \<Rightarrow> jsdouble"
  s_bool :: "IrExpr \<Rightarrow> bool"

fun math1Of :: "math1 \<Rightarrow> jsdouble \<Rightarrow> jsdouble" where
  "math1Of (MRound f) x = fround f x"
| "math1Of MAbs x = fabs x"

fun evalNum :: "Ctx \<Rightarrow> Store \<Rightarrow> IrExpr \<Rightarrow> jsdouble" where
  "evalNum c s (NumLit x sp _ _) = x"
| "evalNum c s (VarRef x ty l) = (if is_f64_type ty then s_var s x else s_num s (VarRef x ty l))"
| "evalNum c s (RecordGet obj shape field ty l) =
    (case (recSlotOf (c_cfg c) shape field, staticAccessPath (RecordGet obj shape field ty l)) of
       (Some slot, Some (_, steps)) \<Rightarrow> if is_f64_type ty then s_path s (rs_cls slot) steps
         else s_num s (RecordGet obj shape field ty l)
     | _ \<Rightarrow> s_num s (RecordGet obj shape field ty l))"
| "evalNum c s (Unary UNeg a _ _) = fneg (evalNum c s a)"
| "evalNum c s (Unary UBitNot a _ _) = fbitnot (evalNum c s a)"
| "evalNum c s (Bin op a b ty l) =
    (if op \<in> set CMP_OPS then s_num s (Bin op a b ty l) else numOp (c_rt c) op (evalNum c s a) (evalNum c s b))"
| "evalNum c s (Math1 f a _ _) = math1Of f (evalNum c s a)"
| "evalNum c s (Math2 f a b _ _) = minmaxOf f [evalNum c s a, evalNum c s b]"
| "evalNum c s e = s_num s e"

definition isTrue :: "jsdouble \<Rightarrow> bool" where
  "isTrue x \<longleftrightarrow> x \<noteq> NaN \<and> ev x \<noteq> Q 0"

fun truth :: "Ctx \<Rightarrow> Store \<Rightarrow> IrExpr \<Rightarrow> bool" where
  "truth c s (BoolLit b _ _) = b"
| "truth c s (Unary UNot a _ _) = (\<not> truth c s a)"
| "truth c s (Logical isAnd l r _ _) = (if isAnd then truth c s l \<and> truth c s r else truth c s l \<or> truth c s r)"
| "truth c s (Bin op l r ty lc) =
    (if op \<in> set CMP_OPS \<and> is_f64_type (ety l) \<and> is_f64_type (ety r) then cmpHolds op (evalNum c s l) (evalNum c s r)
     else s_bool s (Bin op l r ty lc))"
| "truth c s (ToBool a ty lc) = (if is_f64_type (ety a) then isTrue (evalNum c s a) else s_bool s (ToBool a ty lc))"
| "truth c s e = s_bool s e"

text \<open>The store is one the program can be in: numbers are binary64, a random number lies between
  zero and one, and every declared field holds a value its slot's checks admit.\<close>

definition storeOk :: "Store \<Rightarrow> bool" where
  "storeOk s \<longleftrightarrow> (\<forall>e. is_f64 (s_num s e)) \<and>
     (\<forall>ty l. s_num s (MathRandom ty l) \<in> gamma (absVal (fin 0) (fin 1) False False None)) \<and>
     (\<forall>cls steps. s_path s cls steps \<in> gamma (classSeed (className cls)))"

definition describes :: "jsstr set \<Rightarrow> Store \<Rightarrow> Env \<Rightarrow> bool" where
  "describes V s env \<longleftrightarrow> (\<forall>x\<in>V. pathClassOfKey x = None \<and> s_var s x \<in> gamma (envGet env x)) \<and>
     (\<forall>cls steps. s_path s cls steps \<in> gamma (envGet env (pathKeyOf cls steps)))"

text \<open>A calm evaluation reads bound numeric variables only, uses no \<open>/\<close> and \<open>**\<close>, and adds and
  subtracts no infinity. NaN may flow through it.\<close>

fun calm :: "Ctx \<Rightarrow> jsstr set \<Rightarrow> Store \<Rightarrow> IrExpr \<Rightarrow> bool" where
  "calm c V s (NumLit x sp _ _) = is_f64 x"
| "calm c V s (VarRef x ty _) = (is_f64_type ty \<longrightarrow> x \<in> V)"
| "calm c V s (RecordGet obj shape field ty l) = (staticAccessPath (RecordGet obj shape field ty l) \<noteq> None)"
| "calm c V s (Unary _ a _ _) = calm c V s a"
| "calm c V s (Bin op a b ty l) = (calm c V s a \<and> calm c V s b \<and>
     (op \<notin> set CMP_OPS \<longrightarrow> op \<in> exactOps - {OpDiv} \<and>
       (op \<in> {OpAdd, OpSub} \<longrightarrow> \<not> infinite_f64 (evalNum c s a) \<and> \<not> infinite_f64 (evalNum c s b))))"
| "calm c V s (Math1 f a _ _) = calm c V s a"
| "calm c V s (Math2 f a b _ _) = (calm c V s a \<and> calm c V s b)"
| "calm c V s _ = True"

text \<open>A finite operand rules out bounds that cancel to NaN.\<close>

lemma finite_bounds:
  assumes "x \<in> gamma a" "x \<noteq> NaN" "\<not> infinite_f64 x" shows "ev (lo a) \<noteq> PInf \<and> ev (hi a) \<noteq> NInf \<and> lo a \<noteq> NaN \<and> hi a \<noteq> NaN"
  using assms by (cases x; cases "ev x") (auto simp: in_gamma_num infinite_f64_def)

lemma calm_bounds:
  assumes "x \<in> gamma a" "y \<in> gamma b" "x \<noteq> NaN" "y \<noteq> NaN" "\<not> infinite_f64 x" "\<not> infinite_f64 y"
  shows "boundsOk (transferAdd a b)" "boundsOk (transferSub a b)"
proof -
  note f = finite_bounds [OF assms(1,3,5)] finite_bounds [OF assms(2,4,6)]
  have "ev (fneg (lo b)) \<noteq> NInf" "ev (fneg (hi b)) \<noteq> PInf" using f by (auto simp: ev_fneg split: ext.splits)
  then show "boundsOk (transferAdd a b)" "boundsOk (transferSub a b)"
    using f by (auto simp: boundsOk_def transferAdd_def transferSub_def fsub_def Let_def fadd_NaN)
qed

lemma transferBin_calm:
  assumes "op \<in> exactOps - {OpDiv}" "x \<in> gamma a" "y \<in> gamma b"
    and "op \<in> {OpAdd, OpSub} \<Longrightarrow> \<not> infinite_f64 x \<and> \<not> infinite_f64 y"
  shows "numOp rt op x y \<in> gamma (transferBin rt op a b)"
proof (cases "op \<in> {OpAdd, OpSub} \<and> (x = NaN \<or> y = NaN)")
  case True
  then show ?thesis using assms(2,3)
    by (auto simp: transferAdd_def transferSub_def Let_def fadd_def fsub_def)
next
  case False
  then have "op \<in> {OpAdd, OpSub} \<Longrightarrow> boundsOk (transferBin rt op a b)"
    using calm_bounds [OF assms(2,3)] assms(4) by auto
  then show ?thesis using assms(1-3) sound_intros by (cases op) (simp_all add: exactOps_def bitwiseOps_def)
qed

lemma evalPure_sound:
  "storeOk s \<Longrightarrow> describes V s env \<Longrightarrow> calm c V s e \<Longrightarrow> evalNum c s e \<in> gamma (evalPure c e env)"
proof (induction c s e rule: evalNum.induct)
  case (1 c s x sp ty l)
  then show ?case by (simp add: gamma_constVal)
next
  case (2 c s x ty l)
  then show ?case by (simp add: storeOk_def describes_def gamma_TOP)
next
  case (3 c s obj shape field ty l)
  let ?e = "RecordGet obj shape field ty l"
  obtain r steps where p: "staticAccessPath ?e = Some (r, steps)" using "3.prems"(3) by (auto simp del: staticAccessPath.simps)
  show ?case
  proof (cases "recSlotOf (c_cfg c) shape field")
    case None
    then show ?thesis using "3.prems" by (simp add: storeOk_def gamma_TOP)
  next
    case (Some slot)
    then show ?thesis using "3.prems"(1,2) p
      by (simp add: pathKey_def storeOk_def describes_def gamma_TOP del: staticAccessPath.simps)
  qed
next
  case (4 c s a ty l)
  then show ?case by (simp add: transferNeg_sound)
next
  case (5 c s a ty l)
  then show ?case by (simp add: transferBitNot_sound)
next
  case (6 c s op a b ty l)
  show ?case
  proof (cases "op \<in> set CMP_OPS")
    case True
    then have "transferBin (c_rt c) op u v = TOP" for u v by (auto simp: CMP_OPS_def)
    then show ?thesis using True "6.prems"(1) by (simp add: storeOk_def gamma_TOP)
  next
    case False
    then have "evalNum c s a \<in> gamma (evalPure c a env)" "evalNum c s b \<in> gamma (evalPure c b env)"
      using 6 by simp_all
    then show ?thesis using False "6.prems"(3) by (auto intro!: transferBin_calm)
  qed
next
  case (7 c s f a ty l)
  then show ?case by (cases f) (simp_all add: transferMathRound_sound transferAbs_sound)
next
  case (8 c s f a b ty l)
  then show ?case using transferMinMax_sound [of "[evalNum c s a, evalNum c s b]" "[evalPure c a env, evalPure c b env]" f] by simp
qed (simp_all add: storeOk_def gamma_TOP)

section \<open>Refined environments describe the store\<close>

lemma describes_default: "storeOk s \<Longrightarrow> s_path s cls steps \<in> gamma (defaultVal (pathKeyOf cls steps))"
  by (simp add: storeOk_def defaultVal_def)

lemma describes_join:
  assumes "storeOk s" "(\<exists>a. A = Some a \<and> describes V s a) \<or> (\<exists>b. B = Some b \<and> describes V s b)"
  shows "\<exists>e. joinEnv A B = Some e \<and> describes V s e"
proof (cases A; cases B)
  fix a b assume ab: "A = Some a" "B = Some b"
  let ?j = "clearPathFacts (map (\<lambda>k. (k, joinVal (envGet a k) (envGet b k))) (keysOf a b))"
  have d: "describes V s a \<or> describes V s b" using assms(2) ab by auto
  have "s_var s x \<in> gamma (envGet ?j x)" "pathClassOfKey x = None" if "x \<in> V" for x
  proof -
    have p: "pathClassOfKey x = None" using d that by (auto simp: describes_def)
    have m: "s_var s x \<in> gamma (envGet a x) \<or> s_var s x \<in> gamma (envGet b x)" using d that by (auto simp: describes_def)
    then have "s_var s x \<in> gamma (joinVal (envGet a x) (envGet b x))" using joinVal_upper1 joinVal_upper2 by blast
    moreover have "envGet a x = defaultVal x \<and> envGet b x = defaultVal x" if "x \<notin> set (keysOf a b)"
      using that envGet_absent by (auto simp: keysOf_iff)
    ultimately show "s_var s x \<in> gamma (envGet ?j x)" using p m by (auto simp: envGet_pointwise)
    show "pathClassOfKey x = None" by (rule p)
  qed
  moreover have "s_path s cls steps \<in> gamma (envGet ?j (pathKeyOf cls steps))" for cls steps
    using describes_default [OF assms(1)] by (simp add: envGet_pointwise)
  ultimately show ?thesis using ab by (simp add: describes_def)
qed (use assms in auto)

lemma describes_set_var:
  "describes V s env \<Longrightarrow> pathClassOfKey x = None \<Longrightarrow> s_var s x \<in> gamma v \<Longrightarrow> describes V s (envSet env x v)"
  using pathKeyOf_class by (fastforce simp: describes_def)

lemma describes_set_path:
  "describes V s env \<Longrightarrow> s_path s cls steps \<in> gamma v \<Longrightarrow> describes V s (envSet env (pathKeyOf cls steps) v)"
  using pathKeyOf_inj pathKeyOf_class by (fastforce simp: describes_def)

definition keyOk :: "jsstr set \<Rightarrow> IrExpr \<Rightarrow> bool" where
  "keyOk V e = (case e of VarRef x ty l \<Rightarrow> is_f64_type ty \<longrightarrow> x \<in> V | _ \<Rightarrow> True)"

lemma calm_keyOk: "calm c V s e \<Longrightarrow> keyOk V e"
  by (cases e) (simp_all add: keyOk_def)

lemma describes_setKey:
  assumes "describes V s env" "keyOk V e" "is_f64_type (ety e)" "evalNum c s e \<in> gamma v"
  shows "describes V s (setKey (refinementKey c e ap) v env)"
proof (cases "refinementKey c e ap")
  case None
  then show ?thesis using assms(1) by (simp add: setKey_def)
next
  case (Some k)
  then consider x ty l where "e = VarRef x ty l" "k = x"
    | obj shape field ty l slot r steps where "e = RecordGet obj shape field ty l" "recSlotOf (c_cfg c) shape field = Some slot"
      "staticAccessPath e = Some (r, steps)" "k = pathKeyOf (rs_cls slot) steps"
    by (cases e) (auto simp: refinementKey_def pathKey_Some simp del: staticAccessPath.simps split: if_splits option.splits)
  then show ?thesis
  proof cases
    case 1
    then have "x \<in> V" using assms(2,3) by (simp add: keyOk_def)
    then have "pathClassOfKey x = None" using assms(1) by (simp add: describes_def)
    from describes_set_var [OF assms(1) this, of v] show ?thesis using 1 assms(3,4) Some by (simp add: setKey_def)
  next
    case 2
    then have "evalNum c s e = s_path s (rs_cls slot) steps" using assms(3) by (simp del: staticAccessPath.simps)
    then show ?thesis using 2(4) assms(1,4) Some describes_set_path by (simp add: setKey_def)
  qed
qed

lemma cmp_FLIP: "cmpHolds op x y \<Longrightarrow> cmpHolds (FLIP op) y x"
  by (cases op) (auto simp: feq_def)

lemma cmp_NaN: "cmpHolds op x y \<Longrightarrow> op \<noteq> OpNe \<Longrightarrow> x \<noteq> NaN \<and> y \<noteq> NaN"
  by (cases op) (auto simp: feq_def flt_def fle_def)

definition orderedOps :: "IrNumBinOp set" where
  "orderedOps = {OpLt, OpLe, OpGt, OpGe}"

lemma cmp_NEGATE:
  "op \<in> set CMP_OPS \<Longrightarrow> \<not> cmpHolds op x y \<Longrightarrow> (op \<in> orderedOps \<Longrightarrow> x \<noteq> NaN \<and> y \<noteq> NaN) \<Longrightarrow> cmpHolds (NEGATE op) x y"
  by (cases op) (auto simp: feq_def flt_def fle_def orderedOps_def CMP_OPS_def)

lemma FLIP_Ne [simp]: "FLIP op = OpNe \<longleftrightarrow> op = OpNe"
  by (cases op) auto

lemma refineCmp_sound:
  assumes "storeOk s" "describes V s env"
    and "isPure l \<Longrightarrow> isPure r \<Longrightarrow> calm c V s l \<and> calm c V s r"
    and t: "truth c s (Bin cop l r ty lc) = branch"
    and n: "cop \<in> orderedOps \<Longrightarrow> \<not> branch \<Longrightarrow> evalNum c s l \<noteq> NaN \<and> evalNum c s r \<noteq> NaN"
  shows "describes V s (refineCmp c cop l r branch ap env)"
proof (cases "cop \<in> set CMP_OPS \<and> is_f64_type (ety l) \<and> is_f64_type (ety r) \<and> isPure l \<and> isPure r")
  case False
  then show ?thesis using assms(2) by (auto simp: refineCmp_def)
next
  case True
  let ?x = "evalNum c s l" and ?y = "evalNum c s r" and ?op = "if branch then cop else NEGATE cop"
  have tm: "calm c V s l" "calm c V s r" using True assms(3) by auto
  have x: "?x \<in> gamma (evalPure c l env)" "?y \<in> gamma (evalPure c r env)"
    using evalPure_sound [OF assms(1,2)] tm by auto
  have h: "cmpHolds ?op ?x ?y" using t True n cmp_NEGATE [of cop ?x ?y] by (cases branch) auto
  have nn: "?op \<noteq> OpNe \<Longrightarrow> ?x \<noteq> NaN \<and> ?y \<noteq> NaN" using cmp_NaN [OF h] by blast
  have a: "?x \<in> gamma (refineLhs ?op (evalPure c l env) (evalPure c r env) (?op \<noteq> OpNe))"
    by (rule refineLhs_sound [OF x h]) (erule nn [THEN conjunct1])
  have b: "?y \<in> gamma (refineLhs (FLIP ?op) (evalPure c r env) (evalPure c l env) (?op \<noteq> OpNe))"
    by (rule refineLhs_sound [OF x(2,1) cmp_FLIP [OF h]]) (erule nn [THEN conjunct2])
  have f: "is_f64_type (ety l)" "is_f64_type (ety r)" using True by auto
  note d1 = describes_setKey [OF assms(2) calm_keyOk [OF tm(1)] f(1) a, of ap]
  note d2 = describes_setKey [OF d1 calm_keyOk [OF tm(2)] f(2) b, of ap]
  have g: "(cop \<notin> set CMP_OPS) = False" "(\<not> is_f64_type (ety l) \<or> \<not> is_f64_type (ety r)) = False" "(\<not> isPure l \<or> \<not> isPure r) = False"
    using True by auto
  show ?thesis unfolding refineCmp_def g if_False Let_def by (rule d2)
qed

lemma truthyVal_sound: assumes "x \<in> gamma v" "isTrue x" shows "x \<in> gamma (truthyVal v)"
proof -
  have x: "x \<noteq> NaN" "ev x \<noteq> Q 0" using assms(2) by (auto simp: isTrue_def)
  note g = assms(1) [unfolded in_gamma_num [OF x(1)]]
  have up: "Q 1 \<le> ev x" if w: "whole v" "feq (lo v) (fin 0)"
  proof -
    obtain n where n: "ev x = Q (of_int n)" using g w by (auto simp: is_integer_ev)
    have "ev (lo v) = Q 0" using w(2) by (simp add: feq_def)
    then have "0 \<le> rat_of_int n" "rat_of_int n \<noteq> 0" using n g x by auto
    then have "1 \<le> n" by simp
    then show ?thesis using n by simp
  qed
  have dn: "ev x \<le> Q (- 1)" if w: "whole v" "feq (hi v) (fin 0)"
  proof -
    obtain n where n: "ev x = Q (of_int n)" using g w by (auto simp: is_integer_ev)
    have "ev (hi v) = Q 0" using w(2) by (simp add: feq_def)
    then have "rat_of_int n \<le> 0" "rat_of_int n \<noteq> 0" using n g x by auto
    then have "n \<le> - 1" by simp
    then have "rat_of_int n \<le> of_int (- 1)" by (simp only: of_int_le_iff)
    then show ?thesis using n by simp
  qed
  have r: "x \<in> gamma (v\<lparr>maybeNaN := False\<rparr>)" using x(1) g by (simp add: in_gamma_num)
  show ?thesis unfolding truthyVal_def Let_def
    using r x(1) g up dn by (auto intro!: gamma_absValI)
qed

lemma refineTruth_sound:
  assumes "storeOk s" "describes V s env" "isPure a \<Longrightarrow> calm c V s a"
    and t: "truth c s (ToBool a ty lc) = branch"
  shows "describes V s (refineTruth c a branch ap env)"
proof (cases "is_f64_type (ety a) \<and> isPure a")
  case False
  then show ?thesis using assms(2) by (auto simp: refineTruth_def)
next
  case True
  have tm: "calm c V s a" using True assms(3) by blast
  have x: "evalNum c s a \<in> gamma (evalPure c a env)" using evalPure_sound [OF assms(1,2) tm] .
  have "evalNum c s a \<in> gamma (if branch then truthyVal (evalPure c a env) else meetInterval (evalPure c a env) (fin 0) (fin 0) False)"
  proof (cases branch)
    case True
    then show ?thesis using x t \<open>is_f64_type (ety a) \<and> isPure a\<close> truthyVal_sound by simp
  next
    case False
    then have "evalNum c s a = NaN \<or> ev (evalNum c s a) = Q 0" using t True by (simp add: isTrue_def)
    then have "evalNum c s a \<in> gamma (meetInterval (evalPure c a env) (fin 0) (fin 0) False)"
      by (intro meetInterval_sound [OF x]) auto
    then show ?thesis using False by simp
  qed
  from describes_setKey [OF assms(2) calm_keyOk [OF tm] _ this, of ap] show ?thesis
    using True by (simp add: refineTruth_def setKey_def Let_def split: option.splits if_splits)
qed

text \<open>The evaluation of a condition that refinement is faithful to: its arithmetic is calm, and no
  ordered comparison fails because an operand is NaN.\<close>

fun condOk :: "Ctx \<Rightarrow> jsstr set \<Rightarrow> Store \<Rightarrow> IrExpr \<Rightarrow> bool" where
  "condOk c V s (Unary UNot a _ _) = condOk c V s a"
| "condOk c V s (Logical isAnd l r _ _) = (condOk c V s l \<and> (truth c s l = isAnd \<longrightarrow> condOk c V s r))"
| "condOk c V s (Bin cop l r ty lc) =
    ((isPure l \<longrightarrow> isPure r \<longrightarrow> calm c V s l \<and> calm c V s r) \<and>
     (cop \<in> orderedOps \<longrightarrow> \<not> truth c s (Bin cop l r ty lc) \<longrightarrow> evalNum c s l \<noteq> NaN \<and> evalNum c s r \<noteq> NaN))"
| "condOk c V s (ToBool a _ _) = (isPure a \<longrightarrow> calm c V s a)"
| "condOk c V s _ = True"

lemma refine_describes:
  assumes "storeOk s"
  shows "describes V s env \<Longrightarrow> condOk c V s cond \<Longrightarrow> truth c s cond = branch \<Longrightarrow>
    \<exists>env'. refine c cond branch ap (Some env) = Some env' \<and> describes V s env'"
proof (induction c cond branch ap "Some env" arbitrary: env rule: refine.induct)
  case (3 c a ty l branch ap env)
  then show ?case by auto
next
  case (4 c isAnd l r ty lc branch ap env)
  show ?case
  proof (cases "isAnd = branch")
    case True
    then have "truth c s l = branch" "truth c s r = branch" using "4.prems"(3) by (auto split: if_splits)
    moreover obtain e1 where e1: "refine c l branch ap (Some env) = Some e1" "describes V s e1"
      using "4.hyps"(1) [OF True "4.prems"(1)] "4.prems"(2) calculation(1) by auto
    moreover have "condOk c V s r" using "4.prems"(2) calculation(1) True by simp
    ultimately show ?thesis using "4.hyps"(2) [OF True e1(1) e1(2)] True e1(1) by simp
  next
    case False
    have c4: "condOk c V s l" "truth c s l = (\<not> branch) \<Longrightarrow> condOk c V s r" using "4.prems"(2) False by auto
    consider "truth c s l = branch" | "truth c s l = (\<not> branch)" "truth c s r = branch"
      using "4.prems"(3) False by (auto split: if_splits)
    then have "(\<exists>a. refine c l branch ap (Some env) = Some a \<and> describes V s a) \<or>
      (\<exists>b. refine c r branch ap (refine c l (\<not> branch) ap (Some env)) = Some b \<and> describes V s b)"
    proof cases
      case 1
      then show ?thesis using "4.hyps"(3) [OF False "4.prems"(1) c4(1)] by blast
    next
      case 2
      then obtain e1 where e1: "refine c l (\<not> branch) ap (Some env) = Some e1" "describes V s e1"
        using "4.hyps"(4) [OF False "4.prems"(1) c4(1)] by blast
      then show ?thesis using "4.hyps"(5) [OF False e1(1) e1(2)] c4(2) 2 by auto
    qed
    from describes_join [OF assms this] show ?thesis using False by simp
  qed
next
  case (5 c cop l r ty lc branch ap env)
  then show ?case using refineCmp_sound [OF assms, of V env l r c cop ty lc branch ap] by auto
next
  case (6 c a ty lc branch ap env)
  then show ?case using refineTruth_sound [OF assms, of V env a c ty lc branch ap] by auto
qed (auto)

section \<open>Properties\<close>

text \<open>C37. Branch refinement is sound. If the environment describes the store at a condition and the
  condition evaluates to \<open>branch\<close> by a calm evaluation, then refining for \<open>branch\<close> gives an environment (the edge is
  not called impossible) that still describes the store, through negation, short-circuit
  operators, comparisons in both directions, strict bounds sharpened by wholeness, truthiness and
  access-path facts. An evaluation is calm (\<open>condOk\<close>) if the comparisons and truth tests it reaches
  use no division or power, have no infinite operand of an addition or subtraction, read only
  numeric variables of the tracked set \<open>V\<close> and fields with a static path, and no ordered comparison
  (\<open><\<close>, \<open><=\<close>, \<open>>\<close>, \<open>>=\<close>) is false because an operand is NaN. On the last kind of evaluation the code's
  refinement is unsound, and nothing is claimed of the others.\<close>

theorem refine_sound:
  assumes "storeOk s" "describes V s env" "condOk c V s cond" "truth c s cond = branch"
  shows "\<exists>env'. refine c cond branch allowPaths (Some env) = Some env' \<and> describes V s env'"
  using refine_describes [OF assms(1)] assms(2-4) by blast

definition demo_cfg :: IntSlotConfig where
  "demo_cfg = \<lparr> cfg_fns = [], cfg_records = [] \<rparr>"

definition demo_ctx :: Ctx where
  "demo_ctx = \<lparr> c_rt = demo_rt, c_cfg = demo_cfg, c_ret = None, c_f64 = [js ''x''], c_perFn = [], c_havocAll = [] \<rparr>"

definition demo_store :: "jsdouble \<Rightarrow> Store" where
  "demo_store v = \<lparr> s_var = (\<lambda>x. v), s_path = (\<lambda>cls steps. fin 0), s_num = (\<lambda>e. fin 0), s_bool = (\<lambda>e. True) \<rparr>"

definition demo_lit :: "rat \<Rightarrow> IrExpr" where
  "demo_lit q = NumLit (fin q) None demo_type demo_loc"

definition demo_cmp :: "IrNumBinOp \<Rightarrow> rat \<Rightarrow> IrExpr" where
  "demo_cmp op q = Bin op (demo_var ''x'') (demo_lit q) demo_type demo_loc"

lemma demo_storeOk: "storeOk (demo_store v)"
proof -
  have "fin 0 \<in> gamma (absVal (fin 0) (fin 1) False False None)" by (rule gamma_absValI) simp_all
  moreover have "fin 0 \<in> gamma (classSeed (className cls))" for cls
    unfolding in_classSeed by (auto simp: classMin_def intro!: exI [of _ "0::int"])
  ultimately show ?thesis by (simp add: storeOk_def demo_store_def)
qed

lemma demo_types [simp]: "is_f64_type demo_type" "ety (demo_var x) = demo_type" "ety (demo_lit q) = demo_type"
  "isPure (demo_var x)" "isPure (demo_lit q)"
  by (simp_all add: is_f64_type_def demo_type_def demo_var_def demo_lit_def)

lemma not_path_x [simp]: "pathClassOfKey (js ''x'') = None"
  by (simp add: pathClassOfKey_def startsWith_def PATH_I64_PREFIX_def PATH_U64_PREFIX_def js_def)

lemma path_not_x: "pathKeyOf cls steps \<noteq> js ''x''"
  using pathKeyOf_class [of cls steps] by (metis not_path_x option.distinct(1))

lemma demo_describes: "v \<in> gamma a \<Longrightarrow> describes {js ''x''} (demo_store v) [(js ''x'', a)]"
  using demo_storeOk [of v] describes_default [of "demo_store v"] path_not_x
  by (auto simp: describes_def envGet_def demo_store_def)

lemma refine_sound_witness:
  "\<exists>env'. refine demo_ctx (demo_cmp OpLt 10) True False (Some [(js ''x'', TOP)]) = Some env' \<and>
     describes {js ''x''} (demo_store (fin 3)) env'"
proof (rule refine_sound [OF demo_storeOk])
  show "describes {js ''x''} (demo_store (fin 3)) [(js ''x'', TOP)]" by (rule demo_describes) (simp add: gamma_TOP)
  show "condOk demo_ctx {js ''x''} (demo_store (fin 3)) (demo_cmp OpLt 10)"
    by (simp add: demo_cmp_def) (simp add: demo_var_def demo_lit_def demo_store_def)
  show "truth demo_ctx (demo_store (fin 3)) (demo_cmp OpLt 10) = True"
    by (simp add: demo_cmp_def CMP_OPS_def) (simp add: demo_var_def demo_lit_def demo_store_def)
qed

text \<open>C38. A failed comparison drops NaN. With nothing known of \<open>x\<close>, taking the false edges of
  \<open>x < 0\<close> and of \<open>x > 100\<close> leaves the range from 0 to 100 without NaN, and the boundary check
  proves \<open>Math.trunc(x)\<close>; yet both comparisons are false of NaN, so NaN takes exactly those edges
  and crosses.\<close>

theorem failed_comparison_drops_NaN:
  "\<exists>env. refine demo_ctx (demo_cmp OpGt 100) False False (refine demo_ctx (demo_cmp OpLt 0) False False (Some [(js ''x'', TOP)])) = Some env \<and>
     \<not> truth demo_ctx (demo_store NaN) (demo_cmp OpLt 0) \<and> \<not> truth demo_ctx (demo_store NaN) (demo_cmp OpGt 100) \<and>
     v_outcome (checkBoundary rt (transferMathRound Trunc (envGet env (js ''x''))) path U64 loc) = Prove \<and>
     fround Trunc NaN \<notin> gamma (transferMathRound Trunc (envGet env (js ''x'')))"
proof -
  let ?e1 = "[(js ''x'', absVal (fin 0) Infinity False False None)]"
  have r: "refinementKey demo_ctx (demo_var ''x'') False = Some (js ''x'')" "refinementKey demo_ctx (demo_lit q) False = None" for q
    by (simp_all add: refinementKey_def demo_var_def demo_lit_def)
  have v: "evalPure demo_ctx (demo_var ''x'') [(js ''x'', a)] = a" "evalPure demo_ctx (demo_lit q) env = constVal (fin q) None" for a q env
    by (simp_all add: demo_var_def demo_lit_def envGet_def demo_type_def is_f64_type_def)
  have n: "hasNumeric (constVal (fin q) None)" "lo (constVal (fin q) None) = fin q" "hi (constVal (fin q) None) = fin q" for q
    by (simp_all add: hasNumeric_def constVal_def)
  have e1: "refine demo_ctx (demo_cmp OpLt 0) False False (Some [(js ''x'', TOP)]) = Some ?e1"
    by (simp add: demo_cmp_def refineCmp_def CMP_OPS_def Let_def r v setKey_def refineLhs_def n hasNumeric_def
        meetInterval_def fmax2_def fmin2_def)
  let ?e2 = "[(js ''x'', absVal (fin 0) (fin 100) False False None)]"
  have e2: "refine demo_ctx (demo_cmp OpGt 100) False False (Some ?e1) = Some ?e2"
    by (simp add: demo_cmp_def refineCmp_def CMP_OPS_def Let_def r v setKey_def refineLhs_def n hasNumeric_def [of "absVal _ _ _ _ _"]
        meetInterval_def fmax2_def fmin2_def)
  have t: "transferMathRound Trunc (envGet ?e2 (js ''x'')) = ivl 0 100"
    by (simp add: envGet_def transferMathRound_def hasNumeric_def ivl_def truncZ_def signed_num_def)
  have f: "\<not> truth demo_ctx (demo_store NaN) (demo_cmp op q)" if "op \<in> {OpLt, OpGt}" for op q
    using that by (auto simp: demo_cmp_def CMP_OPS_def) (auto simp: demo_var_def demo_lit_def demo_store_def flt_def)
  show ?thesis
  proof (intro exI conjI)
    show "refine demo_ctx (demo_cmp OpGt 100) False False (refine demo_ctx (demo_cmp OpLt 0) False False (Some [(js ''x'', TOP)])) = Some ?e2"
      unfolding e1 by (rule e2)
    show "v_outcome (checkBoundary rt (transferMathRound Trunc (envGet ?e2 (js ''x''))) path U64 loc) = Prove"
      unfolding t by (simp add: checkBoundary_def isBottom_def)
    show "fround Trunc NaN \<notin> gamma (transferMathRound Trunc (envGet ?e2 (js ''x'')))" unfolding t by simp
  qed (use f in auto)
qed

end
