(* ===== verification/Int_Analyze.thy ===== *)
theory Int_Analyze
  imports Int_Branch
begin

text \<open>
  The flow-sensitive analyzer of library/int-infer.ts: the global-effects summary, \<open>FnAnalyzer\<close>
  with its statements, loops and expressions, and the entry point \<open>checkLibraryIntegerSlots\<close>.

  The analyzer mutates the environment object it is given. An operation here returns the contents
  of that object after the call; a statement also returns its result, which is the same object
  (\<open>Same\<close>), another one (\<open>Fresh\<close>) or none (\<open>Null\<close>, the end is not reached). The analyzer's own
  fields (loop frames, the collect flag, the verdicts, the path roots) are the record \<open>AState\<close>.
\<close>

section \<open>Global effects\<close>

record IrParam =
  p_localId :: jsstr
  p_type :: IrType

record IrLocal =
  l_id :: jsstr
  l_type :: IrType
  l_boxed :: bool

record IrFunction =
  f_name :: jsstr
  f_params :: "IrParam list"
  f_locals :: "IrLocal list"
  f_body :: "IrStmt list"

record IrGlobal =
  g_id :: jsstr
  g_type :: IrType

record IrModule =
  m_functions :: "IrFunction list"
  m_globals :: "IrGlobal list"

text \<open>\<open>String.prototype.includes\<close>.\<close>

fun strIncludes :: "jsstr \<Rightarrow> jsstr \<Rightarrow> bool" where
  "strIncludes s [] = True"
| "strIncludes [] (c # p) = False"
| "strIncludes (d # s) (c # p) = (startsWith (d # s) (c # p) \<or> strIncludes s (c # p))"

definition typeContainsFunc :: "IrType \<Rightarrow> bool" where
  "typeContainsFunc t = strIncludes (ty_json t) (0x22 # js ''func'' @ [0x22])"

text \<open>The direct effects of a function body: the globals it writes, the functions it calls, and
  whether it reaches code the analysis cannot see.\<close>

record Effects =
  e_writes :: "jsstr list"
  e_calls :: "jsstr list"
  e_unknown :: bool

definition noEffects :: Effects where
  "noEffects = \<lparr> e_writes = [], e_calls = [], e_unknown = False \<rparr>"

definition setAdd :: "jsstr \<Rightarrow> jsstr list \<Rightarrow> jsstr list" where
  "setAdd x xs = (if x \<in> set xs then xs else xs @ [x])"

definition addWrite :: "jsstr \<Rightarrow> Effects \<Rightarrow> Effects" where
  "addWrite x ef = (if isGlobalId x then ef\<lparr> e_writes := setAdd x (e_writes ef) \<rparr> else ef)"

definition addCall :: "jsstr \<Rightarrow> Effects \<Rightarrow> Effects" where
  "addCall f ef = ef\<lparr> e_calls := setAdd f (e_calls ef) \<rparr>"

definition addUnknown :: "bool \<Rightarrow> Effects \<Rightarrow> Effects" where
  "addUnknown b ef = (if b then ef\<lparr> e_unknown := True \<rparr> else ef)"

abbreviation runAll :: "('a \<Rightarrow> 'a) list \<Rightarrow> 'a \<Rightarrow> 'a" where
  "runAll fs x \<equiv> fold (\<lambda>f. f) fs x"

abbreviation runOpt :: "('a \<Rightarrow> 'a) option \<Rightarrow> 'a \<Rightarrow> 'a" where
  "runOpt f x \<equiv> (case f of None \<Rightarrow> x | Some g \<Rightarrow> g x)"

primrec effE :: "IrExpr \<Rightarrow> Effects \<Rightarrow> Effects" and effS :: "IrStmt \<Rightarrow> Effects \<Rightarrow> Effects" where
  "effE (NumLit _ _ _ _) = (\<lambda>ef. ef)"
| "effE (StrLit _ _ _) = (\<lambda>ef. ef)"
| "effE (BoolLit _ _ _) = (\<lambda>ef. ef)"
| "effE (UnitLit _ _ _) = (\<lambda>ef. ef)"
| "effE (Leaf _ _ _) = (\<lambda>ef. ef)"
| "effE (SelfRef _ _) = (\<lambda>ef. ef)"
| "effE (VarRef _ _ _) = (\<lambda>ef. ef)"
| "effE (Bin _ a b _ _) = (\<lambda>ef. effE b (effE a ef))"
| "effE (Unary _ a _ _) = effE a"
| "effE (IncDec _ _ x _ _) = addWrite x"
| "effE (AssignExpr x a _ _) = (\<lambda>ef. effE a (addWrite x ef))"
| "effE (Ternary a b d _ _) = (\<lambda>ef. effE d (effE b (effE a ef)))"
| "effE (Logical _ a b _ _) = (\<lambda>ef. effE b (effE a ef))"
| "effE (Nullish a b _ _) = (\<lambda>ef. effE b (effE a ef))"
| "effE (OrDefault a b _ _) = (\<lambda>ef. effE b (effE a ef))"
| "effE (OptChain a b _ _) = (\<lambda>ef. effE b (effE a ef))"
| "effE (SeqExpr ss a _ _) = (\<lambda>ef. effE a (runAll (map effS ss) ef))"
| "effE (Call f args _ _) = (\<lambda>ef. runAll (map effE args) (addCall f ef))"
| "effE (Math1 _ a _ _) = (\<lambda>ef. effE a (addUnknown (typeContainsFunc (ety a)) ef))"
| "effE (Math2 _ a b _ _) = (\<lambda>ef. effE b (effE a (addUnknown (typeContainsFunc (ety a) \<or> typeContainsFunc (ety b)) ef)))"
| "effE (MathRandom _ _) = (\<lambda>ef. ef)"
| "effE (LibCall _ args _ _) = (\<lambda>ef. runAll (map effE args) (addUnknown (list_ex (\<lambda>a. typeContainsFunc (ety a)) args) ef))"
| "effE (Opaque _ kids _ _) = (\<lambda>ef. runAll (map snd (map (map_prod id effE) kids)) (addUnknown True ef))"
| "effE (Suspend _ kids _ _) = runAll (map snd (map (map_prod id effE) kids))"
| "effE (RecordLit fs _ _) = runAll (map snd (map (map_prod id effE) fs))"
| "effE (RecordGet a _ _ _ _) = effE a"
| "effE (FieldGet a _ _ _ _) = effE a"
| "effE (ToBool a _ _) = effE a"
| "effE (Other _ kids _ _) = runAll (map snd (map (map_prod id effE) kids))"
| "effS (VarDecl x i) = runOpt (map_option effE i)"
| "effS (Assign x e) = (\<lambda>ef. effE e (addWrite x ef))"
| "effS (ExprStmt e) = effE e"
| "effS (SIf e t el) = (\<lambda>ef. runOpt (map_option runAll (map_option (map effS) el)) (runAll (map effS t) (effE e ef)))"
| "effS (While e b _) = (\<lambda>ef. runAll (map effS b) (effE e ef))"
| "effS (DoWhile e b _) = (\<lambda>ef. effE e (runAll (map effS b) ef))"
| "effS (For i e u b _) =
    (\<lambda>ef. runAll (map effS b) (runOpt (map_option effS u) (runOpt (map_option effE e) (runOpt (map_option effS i) ef))))"
| "effS (ForOf x e b _) = (\<lambda>ef. runAll (map effS b) (effE e ef))"
| "effS (Switch e cs _) =
    (\<lambda>ef. runAll (map (\<lambda>(t, b) ef. runAll b (runOpt t ef)) (map (map_prod (map_option effE) (map effS)) cs)) (effE e ef))"
| "effS (ArraySet a b d) = (\<lambda>ef. effE d (effE b (effE a ef)))"
| "effS (BytesSet a b d) = (\<lambda>ef. effE d (effE b (effE a ef)))"
| "effS (FieldSet a b) = (\<lambda>ef. effE b (effE a ef))"
| "effS (RecordSet a _ _ b _) = (\<lambda>ef. effE b (effE a ef))"
| "effS (RecordKeySet a b d) = (\<lambda>ef. effE d (effE b (effE a ef)))"
| "effS (RecordKeyDelete a b) = (\<lambda>ef. effE b (effE a ef))"
| "effS (Return e _) = runOpt (map_option effE e)"
| "effS (Throw e) = effE e"
| "effS Rethrow = (\<lambda>ef. ef)"
| "effS RuntimeFence = (\<lambda>ef. ef)"
| "effS (Break _) = (\<lambda>ef. ef)"
| "effS (Continue _) = (\<lambda>ef. ef)"
| "effS (Block b _) = runAll (map effS b)"
| "effS (TryCatch t cb fb) =
    (\<lambda>ef. runOpt (map_option runAll (map_option (map effS) fb)) (runOpt (map_option runAll (map_option (map effS) cb)) (runAll (map effS t) ef)))"

text \<open>The transitive closure over the direct-call graph, one pass over the calls at a time until a
  pass changes nothing.\<close>

record GlobalEffects =
  perFn :: "(jsstr \<times> jsstr list) list"
  havocAll :: "jsstr list"

definition writesOf :: "(jsstr \<times> jsstr list) list \<Rightarrow> jsstr \<Rightarrow> jsstr list" where
  "writesOf ws f = (case map_of ws f of Some w \<Rightarrow> w | None \<Rightarrow> [])"

fun mapSet :: "(jsstr \<times> 'a) list \<Rightarrow> jsstr \<Rightarrow> 'a \<Rightarrow> (jsstr \<times> 'a) list" where
  "mapSet [] k v = [(k, v)]"
| "mapSet ((k', v') # m) k v = (if k' = k then (k, v) # m else (k', v') # mapSet m k v)"

definition absorb :: "jsstr \<Rightarrow> jsstr \<Rightarrow> GlobalEffects \<Rightarrow> GlobalEffects" where
  "absorb name callee ge =
    (let un = (if callee \<in> set (havocAll ge) then setAdd name (havocAll ge) else havocAll ge)
     in \<lparr> perFn = mapSet (perFn ge) name (fold setAdd (writesOf (perFn ge) callee) (writesOf (perFn ge) name)), havocAll = un \<rparr>)"

definition closePass :: "(jsstr \<times> jsstr list) list \<Rightarrow> GlobalEffects \<Rightarrow> GlobalEffects" where
  "closePass calls ge = fold (\<lambda>(name, cs) ge. fold (absorb name) cs ge) calls ge"

fun closeLoop :: "nat \<Rightarrow> (jsstr \<times> jsstr list) list \<Rightarrow> GlobalEffects \<Rightarrow> GlobalEffects" where
  "closeLoop 0 calls ge = ge"
| "closeLoop (Suc n) calls ge = (let ge' = closePass calls ge in if ge' = ge then ge else closeLoop n calls ge')"

definition effectsOfFn :: "IrFunction \<Rightarrow> Effects" where
  "effectsOfFn fn = runAll (map effS (f_body fn)) noEffects"

definition initialWrites :: "IrModule \<Rightarrow> (jsstr \<times> jsstr list) list" where
  "initialWrites m = fold (\<lambda>fn w. mapSet w (f_name fn) (e_writes (effectsOfFn fn))) (m_functions m) []"

definition directCalls :: "IrModule \<Rightarrow> (jsstr \<times> jsstr list) list" where
  "directCalls m = fold (\<lambda>fn w. mapSet w (f_name fn) (e_calls (effectsOfFn fn))) (m_functions m) []"

definition initialUnknown :: "IrModule \<Rightarrow> jsstr list" where
  "initialUnknown m = fold (\<lambda>fn u. if e_unknown (effectsOfFn fn) then setAdd (f_name fn) u else u) (m_functions m) []"

text \<open>Enough passes: each pass but the last adds a global to some function's set or a function to
  the unknown ones.\<close>

definition closeFuel :: "IrModule \<Rightarrow> nat" where
  "closeFuel m = Suc (length (initialWrites m) * length (concat (map snd (initialWrites m))) + length (initialWrites m))"

definition globalEffectsOf :: "IrModule \<Rightarrow> GlobalEffects" where
  "globalEffectsOf m = closeLoop (closeFuel m) (directCalls m) \<lparr> perFn = initialWrites m, havocAll = initialUnknown m \<rparr>"

section \<open>The analyzer's state\<close>

datatype frameKind = LoopF | SwitchF | BlockF

record LoopFrame =
  fr_kind :: frameKind
  fr_labels :: "jsstr list"
  fr_breaks :: "Env list"
  fr_continues :: "Env list"

text \<open>The innermost frame is the head of the stack.\<close>

record AState =
  a_frames :: "LoopFrame list"
  a_collect :: bool
  a_verdicts :: "IntVerdict list"
  a_roots :: Roots

definition newFrame :: "frameKind \<Rightarrow> jsstr list \<Rightarrow> LoopFrame" where
  "newFrame k ls = \<lparr> fr_kind = k, fr_labels = ls, fr_breaks = [], fr_continues = [] \<rparr>"

definition pushFrame :: "frameKind \<Rightarrow> jsstr list \<Rightarrow> AState \<Rightarrow> AState" where
  "pushFrame k ls st = st\<lparr> a_frames := newFrame k ls # a_frames st \<rparr>"

definition popFrame :: "AState \<Rightarrow> LoopFrame \<times> AState" where
  "popFrame st = (hd (a_frames st), st\<lparr> a_frames := tl (a_frames st) \<rparr>)"

definition emitV :: "Ctx \<Rightarrow> AbsVal \<Rightarrow> jsstr \<Rightarrow> IntClass \<Rightarrow> SrcLoc \<Rightarrow> AState \<Rightarrow> AState" where
  "emitV c v path cls loc st =
    (if a_collect st then st\<lparr> a_verdicts := a_verdicts st @ [checkBoundary (c_rt c) v path cls loc] \<rparr> else st)"

definition setRoots :: "Roots \<Rightarrow> AState \<Rightarrow> AState" where
  "setRoots r st = st\<lparr> a_roots := r \<rparr>"

datatype jump = JBreak | JContinue

definition frameMatches :: "jsstr option \<Rightarrow> jump \<Rightarrow> LoopFrame \<Rightarrow> bool" where
  "frameMatches label k f =
    (case label of
       Some l \<Rightarrow> l \<in> set (fr_labels f) \<and> (k = JBreak \<or> fr_kind f = LoopF)
     | None \<Rightarrow> k = JBreak \<and> (fr_kind f = LoopF \<or> fr_kind f = SwitchF) \<or> k = JContinue \<and> fr_kind f = LoopF)"

definition addJump :: "jump \<Rightarrow> Env \<Rightarrow> LoopFrame \<Rightarrow> LoopFrame" where
  "addJump k env f = (if k = JBreak then f\<lparr> fr_breaks := fr_breaks f @ [env] \<rparr> else f\<lparr> fr_continues := fr_continues f @ [env] \<rparr>)"

text \<open>\<open>jumpTarget\<close> finds the innermost matching frame; the jump's environment goes there.\<close>

fun jumpTo :: "jsstr option \<Rightarrow> jump \<Rightarrow> Env \<Rightarrow> LoopFrame list \<Rightarrow> LoopFrame list" where
  "jumpTo label k env [] = []"
| "jumpTo label k env (f # fs) = (if frameMatches label k f then addJump k env f # fs else f # jumpTo label k env fs)"

definition joinAll :: "Env option \<Rightarrow> Env list \<Rightarrow> Env option" where
  "joinAll e bs = fold (\<lambda>b e. joinEnv e (Some b)) bs e"

section \<open>Havoc\<close>

definition havocAllGlobals :: "Env \<Rightarrow> Env" where
  "havocAllGlobals env = filter (\<lambda>(k, _). \<not> isGlobalId k) (clearPathFacts env)"

definition havocCall :: "Ctx \<Rightarrow> jsstr \<Rightarrow> Env \<Rightarrow> Env" where
  "havocCall c callee env =
    (let env = clearPathFacts env in
     if callee \<in> set (c_havocAll c) \<or> map_of (c_perFn c) callee = None then havocAllGlobals env
     else fold (\<lambda>g env. envDelete env g) (writesOf (c_perFn c) callee) env)"

text \<open>The bindings a \<open>try\<close> body can assign, as \<open>havocForCatch\<close> collects them: children inside entry
  objects (record-literal fields, the tests of switch cases) are not visited.\<close>

primrec asgE :: "IrExpr \<Rightarrow> jsstr list" and asgS :: "IrStmt \<Rightarrow> jsstr list" where
  "asgE (NumLit _ _ _ _) = []"
| "asgE (StrLit _ _ _) = []"
| "asgE (BoolLit _ _ _) = []"
| "asgE (UnitLit _ _ _) = []"
| "asgE (Leaf _ _ _) = []"
| "asgE (SelfRef _ _) = []"
| "asgE (VarRef _ _ _) = []"
| "asgE (Bin _ a b _ _) = asgE a @ asgE b"
| "asgE (Unary _ a _ _) = asgE a"
| "asgE (IncDec _ _ x _ _) = [x]"
| "asgE (AssignExpr x a _ _) = x # asgE a"
| "asgE (Ternary a b d _ _) = asgE a @ asgE b @ asgE d"
| "asgE (Logical _ a b _ _) = asgE a @ asgE b"
| "asgE (Nullish a b _ _) = asgE a @ asgE b"
| "asgE (OrDefault a b _ _) = asgE a @ asgE b"
| "asgE (OptChain a b _ _) = asgE a @ asgE b"
| "asgE (SeqExpr ss a _ _) = concat (map asgS ss) @ asgE a"
| "asgE (Call f args _ _) = concat (map asgE args)"
| "asgE (Math1 _ a _ _) = asgE a"
| "asgE (Math2 _ a b _ _) = asgE a @ asgE b"
| "asgE (MathRandom _ _) = []"
| "asgE (LibCall _ args _ _) = concat (map asgE args)"
| "asgE (Opaque _ kids _ _) = concat (map (\<lambda>(nested, xs). if nested then [] else xs) (map (map_prod id asgE) kids))"
| "asgE (Suspend _ kids _ _) = concat (map (\<lambda>(nested, xs). if nested then [] else xs) (map (map_prod id asgE) kids))"
| "asgE (RecordLit fs _ _) = []"
| "asgE (RecordGet a _ _ _ _) = asgE a"
| "asgE (FieldGet a _ _ _ _) = asgE a"
| "asgE (ToBool a _ _) = asgE a"
| "asgE (Other _ kids _ _) = concat (map (\<lambda>(nested, xs). if nested then [] else xs) (map (map_prod id asgE) kids))"
| "asgS (VarDecl x i) = x # (case map_option asgE i of None \<Rightarrow> [] | Some xs \<Rightarrow> xs)"
| "asgS (Assign x e) = x # asgE e"
| "asgS (ExprStmt e) = asgE e"
| "asgS (SIf e t el) = asgE e @ concat (map asgS t) @ (case map_option (map asgS) el of None \<Rightarrow> [] | Some xs \<Rightarrow> concat xs)"
| "asgS (While e b _) = asgE e @ concat (map asgS b)"
| "asgS (DoWhile e b _) = concat (map asgS b) @ asgE e"
| "asgS (For i e u b _) =
    (case map_option asgS i of None \<Rightarrow> [] | Some xs \<Rightarrow> xs) @ (case map_option asgE e of None \<Rightarrow> [] | Some xs \<Rightarrow> xs) @
    (case map_option asgS u of None \<Rightarrow> [] | Some xs \<Rightarrow> xs) @ concat (map asgS b)"
| "asgS (ForOf x e b _) = asgE e @ concat (map asgS b)"
| "asgS (Switch e cs _) = asgE e @ concat (map (\<lambda>(t, b). concat b) (map (map_prod id (map asgS)) cs))"
| "asgS (ArraySet a b d) = asgE a @ asgE b @ asgE d"
| "asgS (BytesSet a b d) = asgE a @ asgE b @ asgE d"
| "asgS (FieldSet a b) = asgE a @ asgE b"
| "asgS (RecordSet a _ _ b _) = asgE a @ asgE b"
| "asgS (RecordKeySet a b d) = asgE a @ asgE b @ asgE d"
| "asgS (RecordKeyDelete a b) = asgE a @ asgE b"
| "asgS (Return e _) = (case map_option asgE e of None \<Rightarrow> [] | Some xs \<Rightarrow> xs)"
| "asgS (Throw e) = asgE e"
| "asgS Rethrow = []"
| "asgS RuntimeFence = []"
| "asgS (Break _) = []"
| "asgS (Continue _) = []"
| "asgS (Block b _) = concat (map asgS b)"
| "asgS (TryCatch t cb fb) = concat (map asgS t) @ (case map_option (map asgS) cb of None \<Rightarrow> [] | Some xs \<Rightarrow> concat xs) @
    (case map_option (map asgS) fb of None \<Rightarrow> [] | Some xs \<Rightarrow> concat xs)"

definition havocForCatch :: "Ctx \<Rightarrow> Env \<Rightarrow> IrStmt list \<Rightarrow> Env" where
  "havocForCatch c entry tryBody =
    (let out = fold (\<lambda>x out. if x \<in> set (c_f64 c) then envSet out x TOP else out) (concat (map asgS tryBody)) entry
     in clearPathFacts (filter (\<lambda>(k, _). \<not> isGlobalId k) out))"

section \<open>Statements and expressions\<close>

datatype ExecRes = Null | Same | Fresh Env

fun resEnv :: "ExecRes \<Rightarrow> Env \<Rightarrow> Env option" where
  "resEnv Null obj = None"
| "resEnv Same obj = Some obj"
| "resEnv (Fresh e) obj = Some e"

fun toRes :: "Env option \<Rightarrow> ExecRes" where
  "toRes None = Null"
| "toRes (Some e) = Fresh e"

type_synonym EvalF = "Ctx \<Rightarrow> Env \<Rightarrow> AState \<Rightarrow> AbsVal \<times> Env \<times> AState"
type_synonym ExecF = "Ctx \<Rightarrow> Env \<Rightarrow> AState \<Rightarrow> ExecRes \<times> Env \<times> AState"

text \<open>Expressions one after the other, with their values.\<close>

fun evalAll :: "EvalF list \<Rightarrow> Ctx \<Rightarrow> Env \<Rightarrow> AState \<Rightarrow> AbsVal list \<times> Env \<times> AState" where
  "evalAll [] c env st = ([], env, st)"
| "evalAll (f # fs) c env st =
    (case f c env st of (v, env, st) \<Rightarrow> case evalAll fs c env st of (vs, env, st) \<Rightarrow> (v # vs, env, st))"

text \<open>\<open>execStmts\<close>: the current environment, whether it is still the object passed in, and that
  object's contents.\<close>

fun execSeq :: "ExecF list \<Rightarrow> Ctx \<Rightarrow> bool \<Rightarrow> Env \<Rightarrow> Env \<Rightarrow> AState \<Rightarrow> ExecRes \<times> Env \<times> AState" where
  "execSeq [] c same cur obj st = (if same then Same else Fresh cur, obj, st)"
| "execSeq (f # fs) c same cur obj st =
    (case f c cur st of (r, cur', st) \<Rightarrow>
       let obj = (if same then cur' else obj) in
       case r of
         Null \<Rightarrow> (Null, obj, st)
       | Same \<Rightarrow> execSeq fs c same cur' obj st
       | Fresh e \<Rightarrow> execSeq fs c False e obj st)"

definition execStmts :: "ExecF list \<Rightarrow> Ctx \<Rightarrow> Env \<Rightarrow> AState \<Rightarrow> Env option \<times> AState" where
  "execStmts fs c env st = (case execSeq fs c True env env st of (r, obj, st) \<Rightarrow> (resEnv r obj, st))"

definition execOpt :: "ExecF list \<Rightarrow> Ctx \<Rightarrow> Env option \<Rightarrow> AState \<Rightarrow> Env option \<times> AState" where
  "execOpt fs c env st = (case env of None \<Rightarrow> (None, st) | Some e \<Rightarrow> execStmts fs c e st)"

definition refineSt :: "Ctx \<Rightarrow> IrExpr \<Rightarrow> bool \<Rightarrow> bool \<Rightarrow> Env \<Rightarrow> AState \<Rightarrow> Env option \<times> AState" where
  "refineSt c cond branch ap env st =
    (refine c cond branch ap (Some env), setRoots (refineNotes c cond branch ap (Some env) (a_roots st)) st)"

definition clearPathsAt :: "jsstr \<Rightarrow> Env \<Rightarrow> AState \<Rightarrow> Env" where
  "clearPathsAt x env st = clearPathsRootedAt (a_roots st) env x"

definition bindVar :: "Ctx \<Rightarrow> jsstr \<Rightarrow> AbsVal \<Rightarrow> Env \<Rightarrow> AState \<Rightarrow> Env" where
  "bindVar c x v env st = (let env = clearPathsAt x env st in if x \<in> set (c_f64 c) then envSet env x v else env)"

subsection \<open>Loops\<close>

definition WIDEN_AFTER :: nat where
  "WIDEN_AFTER = 3"

definition LOOP_CAP :: nat where
  "LOOP_CAP = 64"

record LoopOpts =
  lo_cond :: "(IrExpr \<times> EvalF) option"
  lo_body :: "ExecF list"
  lo_update :: "ExecF option"
  lo_labels :: "jsstr list"
  lo_doWhile :: bool
  lo_seed :: "jsstr option"
  lo_always :: bool

text \<open>One trip around the loop: into the body along the condition's true edge, through the update
  after the continues are joined, and for a do-while along the true edge again. The result is the
  back edge, the state at a do-while's condition, and the loop's frame.\<close>

definition loopEntry :: "Ctx \<Rightarrow> LoopOpts \<Rightarrow> Env \<Rightarrow> AState \<Rightarrow> Env option \<times> AState" where
  "loopEntry c opts head st =
    (let (bodyIn, st) =
           (case lo_cond opts of
              Some (e, f) \<Rightarrow> if lo_doWhile opts then (Some head, st)
                else (case f c head st of (_, env, st) \<Rightarrow> refineSt c e True False env st)
            | None \<Rightarrow> (Some head, st))
     in (case lo_seed opts of None \<Rightarrow> bodyIn | Some x \<Rightarrow> map_option (\<lambda>env. envSet env x TOP) bodyIn, st))"

definition loopUpdate :: "Ctx \<Rightarrow> LoopOpts \<Rightarrow> Env option \<Rightarrow> AState \<Rightarrow> Env option \<times> AState" where
  "loopUpdate c opts out st =
    (case lo_update opts of
       None \<Rightarrow> (out, st)
     | Some u \<Rightarrow> (case out of None \<Rightarrow> (None, st) | Some env \<Rightarrow> (case u c env st of (r, obj, st) \<Rightarrow> (resEnv r obj, st))))"

definition loopBack :: "Ctx \<Rightarrow> LoopOpts \<Rightarrow> Env option \<Rightarrow> AState \<Rightarrow> Env option \<times> Env option \<times> AState" where
  "loopBack c opts out st =
    (case (lo_cond opts, out) of
       (Some (e, g), Some env) \<Rightarrow>
         if lo_doWhile opts then
           (case g c env st of (_, env, st) \<Rightarrow> case refineSt c e True False env st of (bk, st) \<Rightarrow> (bk, Some env, st))
         else (out, None, st)
     | _ \<Rightarrow> (out, None, st))"

definition runLoopBodyOnce :: "Ctx \<Rightarrow> LoopOpts \<Rightarrow> Env \<Rightarrow> AState \<Rightarrow> Env option \<times> Env option \<times> LoopFrame \<times> AState" where
  "runLoopBodyOnce c opts head st =
    (case loopEntry c opts head st of (bodyIn, st) \<Rightarrow>
     case execOpt (lo_body opts) c bodyIn (pushFrame LoopF (lo_labels opts) st) of (out, st) \<Rightarrow>
     case popFrame st of (f, st) \<Rightarrow>
     case loopUpdate c opts (joinAll out (fr_continues f)) st of (out, st) \<Rightarrow>
     case loopBack c opts out st of (bk, postBody, st) \<Rightarrow> (bk, postBody, f, st))"

fun fixHead :: "Ctx \<Rightarrow> LoopOpts \<Rightarrow> nat \<Rightarrow> Env \<Rightarrow> AState \<Rightarrow> Env \<times> AState" where
  "fixHead c opts 0 head st = (head, st)"
| "fixHead c opts (Suc n) head st =
    (case runLoopBodyOnce c opts head st of (bk, _, _, st) \<Rightarrow>
       let joins = LOOP_CAP - n;
           nxt = (case joinEnv (Some head) bk of Some e \<Rightarrow> e | None \<Rightarrow> head);
           nxt = (if joins > WIDEN_AFTER then widenEnv head nxt else nxt)
       in if envEquals head nxt then (head, st)
          else if n = 0 then (map (\<lambda>(k, _). (k, TOP)) nxt, st)
          else fixHead c opts n nxt st)"

text \<open>The exit: the condition's false edge, or the header when an iteration ends by itself.\<close>

definition loopExit :: "Ctx \<Rightarrow> LoopOpts \<Rightarrow> Env \<Rightarrow> Env option \<Rightarrow> AState \<Rightarrow> Env option \<times> AState" where
  "loopExit c opts head postBody st =
    (case lo_cond opts of
       Some (e, _) \<Rightarrow>
         if lo_doWhile opts then
           (case postBody of None \<Rightarrow> (None, st) | Some p \<Rightarrow> refineSt c e False False p st)
         else refineSt c e False False head st
     | None \<Rightarrow> (if lo_always opts \<and> \<not> lo_doWhile opts then Some head else None, st))"

definition execLoop :: "Ctx \<Rightarrow> LoopOpts \<Rightarrow> Env \<Rightarrow> AState \<Rightarrow> ExecRes \<times> Env \<times> AState" where
  "execLoop c opts env st =
    (let env = clearPathFacts env in
     case fixHead c opts LOOP_CAP env (st\<lparr> a_collect := False \<rparr>) of (head, st1) \<Rightarrow>
     case runLoopBodyOnce c opts head (st1\<lparr> a_collect := a_collect st \<rparr>) of (_, postBody, frame, st2) \<Rightarrow>
     case loopExit c opts head postBody st2 of (exit, st3) \<Rightarrow>
       (toRes (joinAll exit (fr_breaks frame)), env, st3))"

subsection \<open>Calls and switch cases\<close>

definition nthOpt :: "'a option list \<Rightarrow> nat \<Rightarrow> 'a option" where
  "nthOpt xs i = (if i < length xs then xs ! i else None)"

fun emitArgs :: "Ctx \<Rightarrow> FnIntSlots \<Rightarrow> nat \<Rightarrow> (AbsVal \<times> SrcLoc) list \<Rightarrow> AState \<Rightarrow> AState" where
  "emitArgs c slots i [] st = st"
| "emitArgs c slots i ((v, loc) # rest) st =
    emitArgs c slots (Suc i) rest
      (case nthOpt (slot_params slots) i of None \<Rightarrow> st
       | Some cls \<Rightarrow> emitV c v (case nthOpt (paramPaths slots) i of Some p \<Rightarrow> p | None \<Rightarrow> []) cls loc st)"

fun execCases :: "Ctx \<Rightarrow> (EvalF option \<times> ExecF list) list \<Rightarrow> Env \<Rightarrow> Env option \<Rightarrow> bool \<Rightarrow> AState \<Rightarrow> Env option \<times> bool \<times> Env \<times> AState" where
  "execCases c [] env running hasDefault st = (running, hasDefault, env, st)"
| "execCases c ((t, b) # cs) env running hasDefault st =
    (let (hasDefault, env, st) =
           (case t of None \<Rightarrow> (True, env, st) | Some f \<Rightarrow> (case f c env st of (_, env, st) \<Rightarrow> (hasDefault, env, st)));
         (running, st) = (case joinEnv running (Some env) of None \<Rightarrow> (None, st) | Some e \<Rightarrow> execStmts b c e st)
     in execCases c cs env running hasDefault st)"

fun evalFields :: "Ctx \<Rightarrow> (jsstr \<times> recSlot) list \<Rightarrow> (jsstr \<times> IrType \<times> SrcLoc \<times> EvalF) list \<Rightarrow> Env \<Rightarrow> AState \<Rightarrow> Env \<times> AState" where
  "evalFields c slots [] env st = (env, st)"
| "evalFields c slots ((name, ty, loc, f) # fs) env st =
    (case f c env st of (v, env, st) \<Rightarrow>
       evalFields c slots fs env
         (case map_of slots name of Some slot \<Rightarrow> if is_f64_type ty then emitV c v (rs_path slot) (rs_cls slot) loc st else st
          | None \<Rightarrow> st))"

subsection \<open>Joins back into the evaluated environment\<close>

text \<open>\<open>mergeInto\<close>: the target is overwritten unless the source is absent.\<close>

definition mergeInto :: "Env \<Rightarrow> Env option \<Rightarrow> Env" where
  "mergeInto dst src = (case src of None \<Rightarrow> dst | Some e \<Rightarrow> e)"

definition evalOpt :: "EvalF \<Rightarrow> Ctx \<Rightarrow> Env option \<Rightarrow> AState \<Rightarrow> AbsVal \<times> Env option \<times> AState" where
  "evalOpt f c env st =
    (case env of None \<Rightarrow> (BOTTOM, None, st) | Some e \<Rightarrow> (case f c e st of (v, e, st) \<Rightarrow> (v, Some e, st)))"

text \<open>The two edges of a condition, both refined before either is taken.\<close>

definition refineBoth :: "Ctx \<Rightarrow> IrExpr \<Rightarrow> Env \<Rightarrow> AState \<Rightarrow> Env option \<times> Env option \<times> AState" where
  "refineBoth c cond env st =
    (let ap = stablePathGuard cond; (t, st) = refineSt c cond True ap env st; (e, st) = refineSt c cond False ap env st
     in (t, e, st))"

text \<open>\<open>a && b\<close>, \<open>a || b\<close>, \<open>a ?? b\<close> and \<open>a?.b\<close>: the right side may not run.\<close>

definition evalShort :: "EvalF \<Rightarrow> EvalF \<Rightarrow> EvalF" where
  "evalShort f g c env st =
    (case f c env st of (_, env, st) \<Rightarrow> case g c env st of (_, right, st) \<Rightarrow>
       (TOP, mergeInto env (joinEnv (Some env) (Some right)), st))"

definition evalTernary :: "IrExpr \<Rightarrow> EvalF \<Rightarrow> EvalF \<Rightarrow> EvalF \<Rightarrow> EvalF" where
  "evalTernary cond f g h c env st =
    (case f c env st of (_, env, st) \<Rightarrow> case refineBoth c cond env st of (t, e, st) \<Rightarrow>
     case evalOpt g c t st of (a, t, st) \<Rightarrow> case evalOpt h c e st of (b, e, st) \<Rightarrow>
       (joinVal a b, mergeInto env (joinEnv t e), st))"

definition evalSeq :: "ExecF list \<Rightarrow> EvalF \<Rightarrow> EvalF" where
  "evalSeq fs g c env st =
    (case execSeq fs c True env env st of (r, obj, st) \<Rightarrow>
     case resEnv r obj of None \<Rightarrow> (BOTTOM, obj, st) | Some running \<Rightarrow> g c running st)"

definition evalCall :: "jsstr \<Rightarrow> SrcLoc list \<Rightarrow> EvalF list \<Rightarrow> EvalF" where
  "evalCall callee locs fs c env st =
    (case evalAll fs c env st of (vals, env, st) \<Rightarrow>
     let slots = map_of (cfg_fns (c_cfg c)) callee;
         st = (case slots of None \<Rightarrow> st | Some s \<Rightarrow> emitArgs c s 0 (zip vals locs) st);
         env = havocCall c callee env
     in (case slots of None \<Rightarrow> TOP | Some s \<Rightarrow> (case slot_ret s of None \<Rightarrow> TOP | Some r \<Rightarrow> classSeed (className r)), env, st))"

definition evalIncDec :: "bool \<Rightarrow> bool \<Rightarrow> jsstr \<Rightarrow> EvalF" where
  "evalIncDec isPlus isPrefix x c env st =
    (let old = (if x \<in> set (c_f64 c) then envGet env x else TOP);
         nxt = transferAdd old (constVal (fin (if isPlus then 1 else - 1)) None);
         env = (if x \<in> set (c_f64 c) then envSet env x nxt else env)
     in (if isPrefix then nxt else old, env, st))"

definition evalRecordGet :: "IrExpr \<Rightarrow> jsstr \<Rightarrow> jsstr \<Rightarrow> IrType \<Rightarrow> EvalF \<Rightarrow> EvalF" where
  "evalRecordGet e shape field ty f c env st =
    (case f c env st of (_, env, st) \<Rightarrow>
     case recSlotOf (c_cfg c) shape field of
       None \<Rightarrow> (TOP, env, st)
     | Some slot \<Rightarrow>
         if \<not> is_f64_type ty then (TOP, env, st)
         else (case pathKey e (rs_cls slot) of None \<Rightarrow> classSeed (className (rs_cls slot)) | Some k \<Rightarrow> envGet env k,
               env, setRoots (noteRoot e (rs_cls slot) (a_roots st)) st))"

text \<open>The children of a node whose value is not modelled, then what it may invalidate.\<close>

definition evalKids :: "(Env \<Rightarrow> Env) \<Rightarrow> EvalF list \<Rightarrow> EvalF" where
  "evalKids h fs c env st = (case evalAll fs c env st of (_, env, st) \<Rightarrow> (TOP, h env, st))"

definition evalMath :: "(AbsVal list \<Rightarrow> AbsVal) \<Rightarrow> EvalF list \<Rightarrow> EvalF" where
  "evalMath m fs c env st = (case evalAll fs c env st of (vs, env, st) \<Rightarrow> (m vs, clearPathFacts env, st))"

subsection \<open>The statement forms\<close>

definition execBind :: "jsstr \<Rightarrow> EvalF \<Rightarrow> ExecF" where
  "execBind x f c env st = (case f c env st of (v, env, st) \<Rightarrow> (Same, bindVar c x v env st, st))"

definition execIf :: "IrExpr \<Rightarrow> EvalF \<Rightarrow> ExecF list \<Rightarrow> ExecF list option \<Rightarrow> ExecF" where
  "execIf cond f ts es c env st =
    (case f c env st of (_, env, st) \<Rightarrow> case refineBoth c cond env st of (t, e, st) \<Rightarrow>
     case execOpt ts c t st of (a, st) \<Rightarrow>
     case (case es of None \<Rightarrow> (e, st) | Some es \<Rightarrow> execOpt es c e st) of (b, st) \<Rightarrow>
       (toRes (joinEnv a b), env, st))"

definition execFor :: "ExecF option \<Rightarrow> LoopOpts \<Rightarrow> ExecF" where
  "execFor init opts c env st =
    (case init of
       None \<Rightarrow> execLoop c opts env st
     | Some i \<Rightarrow>
         (case i c env st of (r, env, st) \<Rightarrow>
            case r of
              Null \<Rightarrow> (Null, env, st)
            | Same \<Rightarrow> execLoop c opts env st
            | Fresh e \<Rightarrow> (case execLoop c opts e st of (r, _, st) \<Rightarrow> (r, env, st))))"

definition execForOf :: "jsstr \<Rightarrow> EvalF \<Rightarrow> LoopOpts \<Rightarrow> ExecF" where
  "execForOf x f opts c env st =
    (case f c env st of (_, env, st) \<Rightarrow>
       execLoop c (opts\<lparr> lo_seed := (if x \<in> set (c_f64 c) then Some x else None) \<rparr>) env st)"

definition execSwitch :: "EvalF \<Rightarrow> (EvalF option \<times> ExecF list) list \<Rightarrow> jsstr list \<Rightarrow> ExecF" where
  "execSwitch f cs ls c env st =
    (case f c env st of (_, env, st) \<Rightarrow>
     case execCases c cs env None False (pushFrame SwitchF ls st) of (running, hasDefault, env, st) \<Rightarrow>
     case popFrame st of (frame, st) \<Rightarrow>
     let out = joinAll running (fr_breaks frame)
     in (if hasDefault then toRes out
         else (case out of None \<Rightarrow> Same | Some _ \<Rightarrow> toRes (joinEnv out (Some env))), env, st))"

text \<open>A heap write: its operands in order, then every access-path fact is dropped.\<close>

definition execWrite :: "EvalF list \<Rightarrow> ExecF" where
  "execWrite fs c env st = (case evalAll fs c env st of (_, env, st) \<Rightarrow> (Same, clearPathFacts env, st))"

definition execRecordSet :: "EvalF \<Rightarrow> jsstr \<Rightarrow> jsstr \<Rightarrow> EvalF \<Rightarrow> SrcLoc \<Rightarrow> ExecF" where
  "execRecordSet f shape field g loc c env st =
    (case f c env st of (_, env, st) \<Rightarrow> case g c env st of (v, env, st) \<Rightarrow>
     let st = (case recSlotOf (c_cfg c) shape field of None \<Rightarrow> st
               | Some slot \<Rightarrow> emitV c v (rs_path slot) (rs_cls slot) loc st)
     in (Same, clearPathFacts env, st))"

definition execReturn :: "EvalF option \<Rightarrow> SrcLoc \<Rightarrow> ExecF" where
  "execReturn f loc c env st =
    (case f of
       None \<Rightarrow> (Null, env, st)
     | Some f \<Rightarrow>
         (case f c env st of (v, env, st) \<Rightarrow>
            (Null, env, case c_ret c of None \<Rightarrow> st | Some (cls, path) \<Rightarrow> emitV c v path cls loc st)))"

definition execThrow :: "EvalF \<Rightarrow> ExecF" where
  "execThrow f c env st = (case f c env st of (_, env, st) \<Rightarrow> (Null, env, st))"

definition execJump :: "jump \<Rightarrow> jsstr option \<Rightarrow> ExecF" where
  "execJump k label c env st = (Null, env, st\<lparr> a_frames := jumpTo label k env (a_frames st) \<rparr>)"

definition execBlock :: "ExecF list \<Rightarrow> jsstr list \<Rightarrow> ExecF" where
  "execBlock fs ls c env st =
    (if ls = [] then execSeq fs c True env env st
     else
       (case execSeq fs c True env env (pushFrame BlockF ls st) of (r, env, st) \<Rightarrow>
        case popFrame st of (frame, st) \<Rightarrow>
          (if fr_breaks frame = [] then r else toRes (joinAll (resEnv r env) (fr_breaks frame)), env, st)))"

definition execTry :: "IrStmt list \<Rightarrow> ExecF list \<Rightarrow> ExecF list option \<Rightarrow> ExecF list option \<Rightarrow> ExecF" where
  "execTry tryBody ts cb fb c env st =
    (let entry = env; caught = havocForCatch c entry tryBody in
     case execSeq ts c True env env st of (r, env, st) \<Rightarrow>
     case (case cb of None \<Rightarrow> (None, st) | Some cs \<Rightarrow> execStmts cs c caught st) of (afterCatch, st) \<Rightarrow>
     let r = (case afterCatch of None \<Rightarrow> r | Some _ \<Rightarrow> toRes (joinEnv (resEnv r env) afterCatch))
     in case fb of
          None \<Rightarrow> (r, env, st)
        | Some fs \<Rightarrow>
            (case execStmts fs c (mergeInto caught (joinEnv (resEnv r env) (Some caught))) st of (out, st) \<Rightarrow> (toRes out, env, st)))"

subsection \<open>The evaluator\<close>

definition loopOpts :: "(IrExpr \<times> EvalF) option \<Rightarrow> ExecF list \<Rightarrow> ExecF option \<Rightarrow> jsstr list \<Rightarrow> LoopOpts" where
  "loopOpts cond body upd ls =
    \<lparr> lo_cond = cond, lo_body = body, lo_update = upd, lo_labels = ls, lo_doWhile = False, lo_seed = None, lo_always = False \<rparr>"

definition fieldFns :: "(IrType \<times> SrcLoc) list \<Rightarrow> (jsstr \<times> EvalF) list \<Rightarrow> (jsstr \<times> IrType \<times> SrcLoc \<times> EvalF) list" where
  "fieldFns tys fs = map2 (\<lambda>(ty, loc) (n, f). (n, ty, loc, f)) tys fs"

definition pairCond :: "IrExpr option \<Rightarrow> EvalF option \<Rightarrow> (IrExpr \<times> EvalF) option" where
  "pairCond e f = (case (e, f) of (Some e, Some f) \<Rightarrow> Some (e, f) | _ \<Rightarrow> None)"

primrec evalExpr :: "IrExpr \<Rightarrow> EvalF" and execStmt :: "IrStmt \<Rightarrow> ExecF" where
  "evalExpr (NumLit x sp _ _) = (\<lambda>c env st. (constVal x sp, env, st))"
| "evalExpr (StrLit _ _ _) = (\<lambda>c env st. (TOP, env, st))"
| "evalExpr (BoolLit _ _ _) = (\<lambda>c env st. (TOP, env, st))"
| "evalExpr (UnitLit _ _ _) = (\<lambda>c env st. (TOP, env, st))"
| "evalExpr (Leaf _ _ _) = (\<lambda>c env st. (TOP, env, st))"
| "evalExpr (SelfRef _ _) = (\<lambda>c env st. (TOP, env, st))"
| "evalExpr (VarRef x ty _) = (\<lambda>c env st. (if is_f64_type ty \<and> x \<in> set (c_f64 c) then envGet env x else TOP, env, st))"
| "evalExpr (Bin op a b _ _) =
    (\<lambda>c env st. case evalExpr a c env st of (x, env, st) \<Rightarrow> case evalExpr b c env st of (y, env, st) \<Rightarrow>
       (if op \<in> set CMP_OPS then TOP else if \<not> is_f64_type (ety a) \<or> \<not> is_f64_type (ety b) then TOP
        else transferBin (c_rt c) op x y, env, st))"
| "evalExpr (Unary op a _ _) =
    (\<lambda>c env st. case evalExpr a c env st of (v, env, st) \<Rightarrow>
       (case op of UNeg \<Rightarrow> transferNeg v | UBitNot \<Rightarrow> transferBitNot v | UNot \<Rightarrow> TOP, env, st))"
| "evalExpr (IncDec isPlus isPrefix x _ _) = evalIncDec isPlus isPrefix x"
| "evalExpr (AssignExpr x a _ _) = (\<lambda>c env st. case evalExpr a c env st of (v, env, st) \<Rightarrow> (v, bindVar c x v env st, st))"
| "evalExpr (Ternary a b d _ _) = evalTernary a (evalExpr a) (evalExpr b) (evalExpr d)"
| "evalExpr (Logical _ a b _ _) = evalShort (evalExpr a) (evalExpr b)"
| "evalExpr (Nullish a b _ _) = evalShort (evalExpr a) (evalExpr b)"
| "evalExpr (OrDefault a b _ _) = evalShort (evalExpr a) (evalExpr b)"
| "evalExpr (OptChain a b _ _) = evalShort (evalExpr a) (evalExpr b)"
| "evalExpr (SeqExpr ss a _ _) = evalSeq (map execStmt ss) (evalExpr a)"
| "evalExpr (Call f args _ _) = evalCall f (map eloc args) (map evalExpr args)"
| "evalExpr (Math1 m a _ _) = evalMath (\<lambda>vs. transferMath1 m (hd vs)) [evalExpr a]"
| "evalExpr (Math2 m a b _ _) = evalMath (transferMinMax m) [evalExpr a, evalExpr b]"
| "evalExpr (MathRandom _ _) = evalMath (\<lambda>_. absVal (fin 0) (fin 1) False False None) []"
| "evalExpr (LibCall _ args _ _) =
    evalKids (\<lambda>env. clearPathFacts (if list_ex (\<lambda>a. typeContainsFunc (ety a)) args then havocAllGlobals env else env)) (map evalExpr args)"
| "evalExpr (Opaque _ kids _ _) = evalKids havocAllGlobals (map snd (map (map_prod id evalExpr) kids))"
| "evalExpr (Suspend _ kids _ _) = evalKids clearPathFacts (map snd (map (map_prod id evalExpr) kids))"
| "evalExpr (RecordLit fs ty _) =
    (\<lambda>c env st. case evalFields c (case map_of (cfg_records (c_cfg c)) (ty_shape ty) of None \<Rightarrow> [] | Some m \<Rightarrow> m)
         (fieldFns (map (\<lambda>(_, e). (ety e, eloc e)) fs) (map (map_prod id evalExpr) fs)) env st of (env, st) \<Rightarrow> (TOP, env, st))"
| "evalExpr (RecordGet a shape field ty l) = evalRecordGet (RecordGet a shape field ty l) shape field ty (evalExpr a)"
| "evalExpr (FieldGet a _ _ _ _) = evalKids (\<lambda>env. env) [evalExpr a]"
| "evalExpr (ToBool a _ _) = evalKids clearPathFacts [evalExpr a]"
| "evalExpr (Other _ kids _ _) = evalKids clearPathFacts (map snd (map (map_prod id evalExpr) kids))"
| "execStmt (VarDecl x i) = (case map_option evalExpr i of None \<Rightarrow> (\<lambda>c env st. (Same, env, st)) | Some f \<Rightarrow> execBind x f)"
| "execStmt (Assign x e) = execBind x (evalExpr e)"
| "execStmt (ExprStmt e) = (\<lambda>c env st. case evalExpr e c env st of (_, env, st) \<Rightarrow> (Same, env, st))"
| "execStmt (SIf e t el) = execIf e (evalExpr e) (map execStmt t) (map_option (map execStmt) el)"
| "execStmt (While e b ls) = (\<lambda>c. execLoop c (loopOpts (Some (e, evalExpr e)) (map execStmt b) None ls))"
| "execStmt (DoWhile e b ls) = (\<lambda>c. execLoop c ((loopOpts (Some (e, evalExpr e)) (map execStmt b) None ls)\<lparr> lo_doWhile := True \<rparr>))"
| "execStmt (For i e u b ls) =
    execFor (map_option execStmt i) (loopOpts (pairCond e (map_option evalExpr e)) (map execStmt b) (map_option execStmt u) ls)"
| "execStmt (ForOf x e b ls) = execForOf x (evalExpr e) ((loopOpts None (map execStmt b) None ls)\<lparr> lo_always := True \<rparr>)"
| "execStmt (Switch e cs ls) = execSwitch (evalExpr e) (map (map_prod (map_option evalExpr) (map execStmt)) cs) ls"
| "execStmt (ArraySet a b d) = execWrite [evalExpr a, evalExpr b, evalExpr d]"
| "execStmt (BytesSet a b d) = execWrite [evalExpr a, evalExpr b, evalExpr d]"
| "execStmt (FieldSet a b) = execWrite [evalExpr a, evalExpr b]"
| "execStmt (RecordSet a shape field b loc) = execRecordSet (evalExpr a) shape field (evalExpr b) loc"
| "execStmt (RecordKeySet a b d) = execWrite [evalExpr a, evalExpr b, evalExpr d]"
| "execStmt (RecordKeyDelete a b) = execWrite [evalExpr a, evalExpr b]"
| "execStmt (Return e loc) = execReturn (map_option evalExpr e) loc"
| "execStmt (Throw e) = execThrow (evalExpr e)"
| "execStmt Rethrow = (\<lambda>c env st. (Null, env, st))"
| "execStmt RuntimeFence = (\<lambda>c env st. (Null, env, st))"
| "execStmt (Break l) = execJump JBreak l"
| "execStmt (Continue l) = execJump JContinue l"
| "execStmt (Block b ls) = execBlock (map execStmt b) ls"
| "execStmt (TryCatch t cb fb) = execTry t (map execStmt t) (map_option (map execStmt) cb) (map_option (map execStmt) fb)"

section \<open>The entry point\<close>

definition seedBindings :: "IrFunction \<Rightarrow> IrModule \<Rightarrow> jsstr list" where
  "seedBindings fn m =
    map l_id (filter (\<lambda>l. is_f64_type (l_type l) \<and> \<not> l_boxed l) (f_locals fn)) @
    map g_id (filter (\<lambda>g. is_f64_type (g_type g)) (m_globals m))"

definition paramSeed :: "FnIntSlots option \<Rightarrow> nat \<Rightarrow> AbsVal" where
  "paramSeed slots i =
    (case (case slots of None \<Rightarrow> None | Some s \<Rightarrow> nthOpt (slot_params s) i) of
       Some cls \<Rightarrow> classSeed (className cls)
     | None \<Rightarrow> (case (case slots of None \<Rightarrow> None | Some s \<Rightarrow> nthOpt (paramSeeds s) i) of Some v \<Rightarrow> v | None \<Rightarrow> TOP))"

fun seedParams :: "FnIntSlots option \<Rightarrow> nat \<Rightarrow> IrParam list \<Rightarrow> Env \<Rightarrow> Env" where
  "seedParams slots i [] env = env"
| "seedParams slots i (p # ps) env =
    seedParams slots (Suc i) ps (if is_f64_type (p_type p) then envSet env (p_localId p) (paramSeed slots i) else env)"

definition fnCtx :: "js_lib \<Rightarrow> IrModule \<Rightarrow> IntSlotConfig \<Rightarrow> GlobalEffects \<Rightarrow> IrFunction \<Rightarrow> Ctx" where
  "fnCtx rt m cfg ge fn =
    \<lparr> c_rt = rt, c_cfg = cfg,
      c_ret = (case map_of (cfg_fns cfg) (f_name fn) of None \<Rightarrow> None
               | Some s \<Rightarrow> map_option (\<lambda>cls. (cls, case retPath s of Some p \<Rightarrow> p | None \<Rightarrow> [])) (slot_ret s)),
      c_f64 = seedBindings fn m, c_perFn = perFn ge, c_havocAll = havocAll ge \<rparr>"

definition analyze :: "Ctx \<Rightarrow> IrFunction \<Rightarrow> IntVerdict list \<Rightarrow> IntVerdict list" where
  "analyze c fn verdicts =
    (let env = seedParams (map_of (cfg_fns (c_cfg c)) (f_name fn)) 0 (f_params fn) [];
         st = \<lparr> a_frames = [], a_collect = True, a_verdicts = verdicts, a_roots = [] \<rparr>
     in a_verdicts (snd (execStmts (map execStmt (f_body fn)) c env st)))"

definition checkLibraryIntegerSlots :: "js_lib \<Rightarrow> IrModule \<Rightarrow> IntSlotConfig \<Rightarrow> IntVerdict list" where
  "checkLibraryIntegerSlots rt m cfg =
    (if \<not> hasIntSlots cfg then []
     else fold (\<lambda>fn. analyze (fnCtx rt m cfg (globalEffectsOf m) fn) fn) (m_functions m) [])"

end
