(* ===== verification/Int_Discipline.thy ===== *)
theory Int_Discipline
  imports Int_Analyze
begin

text \<open>
  What the analyzer of library/int-infer.ts does to its own fields. Whatever program it walks, it
  ends with the frame stack it started with, up to jump environments recorded in it, with the
  collect flag restored, and with verdicts only added at the end, none while collecting is off.
  The facts are proved for each combinator and put together by induction over the IR.
\<close>

section \<open>Extending the analyzer's state\<close>

definition frameExt :: "LoopFrame \<Rightarrow> LoopFrame \<Rightarrow> bool" where
  "frameExt f f' \<longleftrightarrow> fr_kind f' = fr_kind f \<and> fr_labels f' = fr_labels f \<and>
     (\<exists>bs cs. fr_breaks f' = fr_breaks f @ bs \<and> fr_continues f' = fr_continues f @ cs)"

definition keeps :: "AState \<Rightarrow> AState \<Rightarrow> bool" where
  "keeps st st' \<longleftrightarrow> list_all2 frameExt (a_frames st) (a_frames st') \<and> a_collect st' = a_collect st \<and>
     (\<exists>vs. a_verdicts st' = a_verdicts st @ vs \<and> (a_collect st \<or> vs = []))"

lemma frameExt_refl [simp]: "frameExt f f"
  by (simp add: frameExt_def)

lemma frameExt_trans: "frameExt f g \<Longrightarrow> frameExt g h \<Longrightarrow> frameExt f h"
  by (auto simp: frameExt_def)

lemma keeps_refl [simp, intro]: "keeps st st"
  by (auto simp: keeps_def list.rel_refl)

lemma keeps_trans [trans]: assumes "keeps a b" "keeps b d" shows "keeps a d"
  using assms list_all2_trans [of frameExt frameExt frameExt "a_frames a" "a_frames b" "a_frames d"]
  by (auto simp: keeps_def intro: frameExt_trans)

lemma keeps_emitV [simp]: "keeps st (emitV c v path cls loc st)"
  by (auto simp: keeps_def emitV_def list.rel_refl)

lemma keeps_setRoots [simp]: "keeps st (setRoots r st)"
  by (auto simp: keeps_def setRoots_def list.rel_refl)

lemma keeps_refineSt: "refineSt c cond br ap env st = (e, st') \<Longrightarrow> keeps st st'"
  by (auto simp: refineSt_def)

lemma keeps_refineBoth: "refineBoth c cond env st = (t, e, st') \<Longrightarrow> keeps st st'"
  by (auto simp: refineBoth_def Let_def refineSt_def intro: keeps_trans [OF keeps_setRoots keeps_setRoots])

lemma frameExt_addJump: "frameExt f (addJump k env f)"
  by (simp add: frameExt_def addJump_def)

lemma jumpTo_ext: "list_all2 frameExt fs (jumpTo label k env fs)"
  by (induction fs) (auto simp: frameExt_addJump list.rel_refl)

text \<open>A frame pushed and popped again leaves the frames below extended only.\<close>

lemma popFrame_keeps:
  assumes "keeps (pushFrame k ls st) st1" "popFrame st1 = (f, st2)"
  shows "keeps st st2" "frameExt (newFrame k ls) f"
  using assms by (auto simp: keeps_def pushFrame_def popFrame_def list_all2_Cons1)

section \<open>Evaluators that keep the state\<close>

definition keepsE :: "EvalF \<Rightarrow> bool" where
  "keepsE f \<longleftrightarrow> (\<forall>c env st v env' st'. f c env st = (v, env', st') \<longrightarrow> keeps st st')"

definition keepsS :: "ExecF \<Rightarrow> bool" where
  "keepsS f \<longleftrightarrow> (\<forall>c env st r env' st'. f c env st = (r, env', st') \<longrightarrow> keeps st st')"

lemma keepsEI: "(\<And>c env st v env' st'. f c env st = (v, env', st') \<Longrightarrow> keeps st st') \<Longrightarrow> keepsE f"
  by (auto simp: keepsE_def)

lemma keepsED: "keepsE f \<Longrightarrow> f c env st = (v, env', st') \<Longrightarrow> keeps st st'"
  by (auto simp: keepsE_def)

lemma keepsSD: "keepsS f \<Longrightarrow> f c env st = (v, env', st') \<Longrightarrow> keeps st st'"
  by (auto simp: keepsS_def)

lemma keeps_evalAll: "list_all keepsE fs \<Longrightarrow> evalAll fs c env st = (vs, env', st') \<Longrightarrow> keeps st st'"
proof (induction fs arbitrary: env st vs env' st')
  case (Cons f fs)
  then show ?case by (auto split: prod.splits dest: keepsED intro: keeps_trans)
qed auto

lemma keeps_execSeq: "list_all keepsS fs \<Longrightarrow> execSeq fs c same cur obj st = (r, obj', st') \<Longrightarrow> keeps st st'"
proof (induction fs arbitrary: same cur obj st)
  case (Cons f fs)
  obtain r1 cur1 st1 where f: "f c cur st = (r1, cur1, st1)" by (cases "f c cur st")
  have "keeps st st1" using Cons.prems(1) keepsSD f by auto
  moreover have "keeps st1 st'"
    using Cons f by (cases r1) (auto simp: Let_def)
  ultimately show ?case by (rule keeps_trans)
qed auto

lemma keeps_execStmts: "list_all keepsS fs \<Longrightarrow> execStmts fs c env st = (r, st') \<Longrightarrow> keeps st st'"
  by (auto simp: execStmts_def split: prod.splits dest: keeps_execSeq)

lemma keeps_execOpt: "list_all keepsS fs \<Longrightarrow> execOpt fs c env st = (r, st') \<Longrightarrow> keeps st st'"
  by (auto simp: execOpt_def split: option.splits dest: keeps_execStmts)

lemma keeps_evalOpt: "keepsE f \<Longrightarrow> evalOpt f c env st = (v, r, st') \<Longrightarrow> keeps st st'"
  by (auto simp: evalOpt_def split: option.splits prod.splits dest: keepsED)

lemma keeps_emitArgs: "keeps st (emitArgs c slots i vs st)"
proof (induction c slots i vs st rule: emitArgs.induct)
  case (2 c slots i v loc rest st)
  then show ?case by (auto split: option.splits intro: keeps_trans [OF keeps_emitV])
qed auto

lemma keeps_evalFields:
  "list_all (\<lambda>(_, _, _, f). keepsE f) fs \<Longrightarrow> evalFields c slots fs env st = (env', st') \<Longrightarrow> keeps st st'"
proof (induction c slots fs env st rule: evalFields.induct)
  case (2 c slots n ty loc f fs env st)
  obtain v e1 st1 where f: "f c env st = (v, e1, st1)" by (cases "f c env st")
  let ?st2 = "case map_of slots n of Some slot \<Rightarrow> if is_f64_type ty then emitV c v (rs_path slot) (rs_cls slot) loc st1 else st1 | None \<Rightarrow> st1"
  have "keeps st st1" using 2(2) keepsED f by auto
  moreover have "keeps st1 ?st2" by (auto split: option.splits)
  moreover have "keeps ?st2 st'" using 2 f by auto
  ultimately show ?case by (blast intro: keeps_trans)
qed auto

section \<open>Loops\<close>

definition keepsOpts :: "LoopOpts \<Rightarrow> bool" where
  "keepsOpts opts \<longleftrightarrow> (case lo_cond opts of None \<Rightarrow> True | Some (_, f) \<Rightarrow> keepsE f) \<and> list_all keepsS (lo_body opts) \<and>
     (case lo_update opts of None \<Rightarrow> True | Some u \<Rightarrow> keepsS u)"

lemma keeps_loopEntry: "keepsOpts opts \<Longrightarrow> loopEntry c opts head st = (e, st') \<Longrightarrow> keeps st st'"
  unfolding keepsOpts_def loopEntry_def
  by (auto split: option.splits prod.splits if_splits dest: keepsED keeps_refineSt intro: keeps_trans)

lemma keeps_loopUpdate: "keepsOpts opts \<Longrightarrow> loopUpdate c opts out st = (e, st') \<Longrightarrow> keeps st st'"
  unfolding keepsOpts_def loopUpdate_def by (auto split: option.splits prod.splits dest: keepsSD)

lemma keeps_loopBack: "keepsOpts opts \<Longrightarrow> loopBack c opts out st = (e, pb, st') \<Longrightarrow> keeps st st'"
  unfolding keepsOpts_def loopBack_def
  by (auto split: option.splits prod.splits if_splits dest: keepsED keeps_refineSt intro: keeps_trans)

lemma keeps_loopExit: "loopExit c opts head pb st = (e, st') \<Longrightarrow> keeps st st'"
  unfolding loopExit_def by (auto split: option.splits prod.splits if_splits dest: keeps_refineSt)

lemma keeps_runLoopBodyOnce:
  assumes "keepsOpts opts" "runLoopBodyOnce c opts head st = (bk, pb, f, st')"
  shows "keeps st st' \<and> frameExt (newFrame LoopF (lo_labels opts)) f"
proof -
  have k: "list_all keepsS (lo_body opts)" using assms(1) by (simp add: keepsOpts_def)
  obtain bodyIn st1 out st2 st3 out' st4 where
    e: "loopEntry c opts head st = (bodyIn, st1)" and
    b: "execOpt (lo_body opts) c bodyIn (pushFrame LoopF (lo_labels opts) st1) = (out, st2)" and
    p: "popFrame st2 = (f, st3)" and
    u: "loopUpdate c opts (joinAll out (fr_continues f)) st3 = (out', st4)" and
    l: "loopBack c opts out' st4 = (bk, pb, st')"
    using assms(2) unfolding runLoopBodyOnce_def by (auto split: prod.splits)
  note pop = popFrame_keeps [OF keeps_execOpt [OF k b] p]
  have "keeps st st3" using keeps_loopEntry [OF assms(1) e] pop(1) by (rule keeps_trans)
  also have "keeps st3 st4" by (rule keeps_loopUpdate [OF assms(1) u])
  also have "keeps st4 st'" by (rule keeps_loopBack [OF assms(1) l])
  finally show ?thesis using pop(2) by simp
qed

lemma keeps_fixHead: "keepsOpts opts \<Longrightarrow> fixHead c opts n head st = (head', st') \<Longrightarrow> keeps st st'"
proof (induction n arbitrary: head st)
  case (Suc n)
  obtain bk pb f st1 where b: "runLoopBodyOnce c opts head st = (bk, pb, f, st1)" by (cases "runLoopBodyOnce c opts head st")
  have "keeps st st1" using keeps_runLoopBodyOnce [OF Suc.prems(1) b] by simp
  moreover have "keeps st1 st'"
    using Suc.prems(2) Suc.IH [OF Suc.prems(1)] by (auto simp: b Let_def split: if_splits)
  ultimately show ?case by (rule keeps_trans)
qed simp

lemma keeps_collect_off: "keeps (st\<lparr>a_collect := False\<rparr>) st1 \<Longrightarrow> keeps st (st1\<lparr>a_collect := a_collect st\<rparr>)"
  by (auto simp: keeps_def)

lemma keeps_execLoop: assumes "keepsOpts opts" "execLoop c opts env st = (r, env', st')" shows "keeps st st'"
proof -
  obtain head st1 bk pb f st2 e where
    h: "fixHead c opts LOOP_CAP (clearPathFacts env) (st\<lparr> a_collect := False \<rparr>) = (head, st1)" and
    b: "runLoopBodyOnce c opts head (st1\<lparr> a_collect := a_collect st \<rparr>) = (bk, pb, f, st2)" and
    x: "loopExit c opts head pb st2 = (e, st')"
    using assms(2) unfolding execLoop_def by (auto simp: Let_def split: prod.splits)
  have "keeps st (st1\<lparr> a_collect := a_collect st \<rparr>)" by (rule keeps_collect_off [OF keeps_fixHead [OF assms(1) h]])
  also have "keeps (st1\<lparr> a_collect := a_collect st \<rparr>) st2" using keeps_runLoopBodyOnce [OF assms(1) b] by simp
  also have "keeps st2 st'" by (rule keeps_loopExit [OF x])
  finally show ?thesis .
qed

section \<open>The combinators\<close>

named_theorems keeps_intros

lemma keepsE_const [keeps_intros]: "keepsE (\<lambda>c env st. (v c env, env, st))"
  by (auto simp: keepsE_def)

lemma keepsE_evalShort [keeps_intros]: "keepsE f \<Longrightarrow> keepsE g \<Longrightarrow> keepsE (evalShort f g)"
  unfolding keepsE_def [of "evalShort f g"] evalShort_def by (auto split: prod.splits dest: keepsED intro: keeps_trans)

lemma keepsE_evalTernary [keeps_intros]: assumes "keepsE f" "keepsE g" "keepsE h" shows "keepsE (evalTernary e f g h)"
  unfolding keepsE_def evalTernary_def using assms
  by (auto split: prod.splits dest!: keepsED [rotated] keeps_evalOpt [rotated] keeps_refineBoth) (blast intro: keeps_trans)

lemma keepsE_evalSeq [keeps_intros]: "list_all keepsS fs \<Longrightarrow> keepsE g \<Longrightarrow> keepsE (evalSeq fs g)"
  unfolding keepsE_def [of "evalSeq fs g"] evalSeq_def
  by (auto split: prod.splits option.splits dest: keepsED keeps_execSeq intro: keeps_trans)

lemma keepsE_evalCall [keeps_intros]: "list_all keepsE fs \<Longrightarrow> keepsE (evalCall callee locs fs)"
  unfolding keepsE_def [of "evalCall callee locs fs"] evalCall_def
  by (auto simp: Let_def split: prod.splits option.splits dest: keeps_evalAll intro: keeps_trans keeps_emitArgs)

lemma keepsE_evalIncDec [keeps_intros]: "keepsE (evalIncDec p q x)"
  unfolding keepsE_def evalIncDec_def by (auto simp: Let_def)

lemma keepsE_evalRecordGet [keeps_intros]: "keepsE f \<Longrightarrow> keepsE (evalRecordGet e shape field ty f)"
  unfolding keepsE_def [of "evalRecordGet e shape field ty f"] evalRecordGet_def
  by (auto split: prod.splits option.splits if_splits dest: keepsED intro: keeps_trans keeps_setRoots)

lemma keepsE_evalKids [keeps_intros]: "list_all keepsE fs \<Longrightarrow> keepsE (evalKids h fs)"
  unfolding keepsE_def [of "evalKids h fs"] evalKids_def by (auto split: prod.splits dest: keeps_evalAll)

lemma keepsE_evalMath [keeps_intros]: "list_all keepsE fs \<Longrightarrow> keepsE (evalMath m fs)"
  unfolding keepsE_def [of "evalMath m fs"] evalMath_def by (auto split: prod.splits dest: keeps_evalAll)

lemma keepsS_execBind [keeps_intros]: "keepsE f \<Longrightarrow> keepsS (execBind x f)"
  unfolding keepsS_def execBind_def by (auto split: prod.splits dest: keepsED)

lemma keepsS_execIf [keeps_intros]:
  assumes "keepsE f" "list_all keepsS ts" "pred_option (list_all keepsS) es" shows "keepsS (execIf e f ts es)"
  unfolding keepsS_def execIf_def using assms
  by (auto split: prod.splits option.splits dest!: keepsED [rotated] keeps_execOpt [rotated] keeps_refineBoth) (blast intro: keeps_trans)+

lemma keepsS_execFor [keeps_intros]: "pred_option keepsS i \<Longrightarrow> keepsOpts opts \<Longrightarrow> keepsS (execFor i opts)"
  unfolding keepsS_def [of "execFor i opts"] execFor_def
  by (auto split: prod.splits option.splits ExecRes.splits dest!: keepsSD [rotated] keeps_execLoop [rotated]) (blast intro: keeps_trans)+

lemma keepsS_execForOf [keeps_intros]: assumes "keepsE f" "keepsOpts opts" shows "keepsS (execForOf x f opts)"
proof -
  have "keepsOpts (opts\<lparr>lo_seed := s\<rparr>)" for s using assms(2) by (simp add: keepsOpts_def)
  then show ?thesis using assms(1)
    unfolding keepsS_def execForOf_def by (auto split: prod.splits dest: keepsED keeps_execLoop intro: keeps_trans)
qed

definition keepsCase :: "EvalF option \<times> ExecF list \<Rightarrow> bool" where
  "keepsCase cs \<longleftrightarrow> pred_option keepsE (fst cs) \<and> list_all keepsS (snd cs)"

lemma keeps_execCases:
  "list_all keepsCase cs \<Longrightarrow> execCases c cs env running hasD st = (r, hasD', env', st') \<Longrightarrow> keeps st st'"
proof (induction c cs env running hasD st rule: execCases.induct)
  case (2 c t b cs env running hasD st)
  obtain hasD1 env1 st1 where t: "(case t of None \<Rightarrow> (True, env, st) | Some f \<Rightarrow> (case f c env st of (_, env, st) \<Rightarrow> (hasD, env, st))) = (hasD1, env1, st1)"
    by (metis prod_cases3)
  obtain run2 st2 where b: "(case joinEnv running (Some env1) of None \<Rightarrow> (None, st1) | Some e \<Rightarrow> execStmts b c e st1) = (run2, st2)"
    by fastforce
  have kc: "pred_option keepsE t" "list_all keepsS b" using 2(2) by (auto simp: keepsCase_def)
  have "keeps st st1" using t kc(1) by (auto split: option.splits prod.splits dest: keepsED)
  also have "keeps st1 st2" using b kc(2) by (auto split: option.splits dest: keeps_execStmts)
  also have "keeps st2 st'" using 2 by (simp add: t b)
  finally show ?case .
qed auto

lemma keepsS_execSwitch [keeps_intros]: assumes "keepsE f" "list_all keepsCase cs" shows "keepsS (execSwitch f cs ls)"
  unfolding keepsS_def
proof (intro allI impI)
  fix c env st r env' st'
  assume x: "execSwitch f cs ls c env st = (r, env', st')"
  obtain v env1 st1 run hasD st2 fr where
    "f c env st = (v, env1, st1)" "execCases c cs env1 None False (pushFrame SwitchF ls st1) = (run, hasD, env', st2)" "popFrame st2 = (fr, st')"
    using x unfolding execSwitch_def by (auto simp: Let_def split: prod.splits)
  then show "keeps st st'"
    using keepsED [OF assms(1)] popFrame_keeps(1) [OF keeps_execCases [OF assms(2)]] by (blast intro: keeps_trans)
qed

lemma keepsS_execWrite [keeps_intros]: "list_all keepsE fs \<Longrightarrow> keepsS (execWrite fs)"
  unfolding keepsS_def execWrite_def by (auto split: prod.splits dest: keeps_evalAll)

lemma keepsS_execRecordSet [keeps_intros]: "keepsE f \<Longrightarrow> keepsE g \<Longrightarrow> keepsS (execRecordSet f shape field g loc)"
  unfolding keepsS_def execRecordSet_def
  by (auto simp: Let_def split: prod.splits option.splits dest!: keepsED [rotated]) (blast intro: keeps_trans keeps_emitV)+

lemma keepsS_execReturn [keeps_intros]: "pred_option keepsE f \<Longrightarrow> keepsS (execReturn f loc)"
  unfolding keepsS_def execReturn_def
  by (auto split: prod.splits option.splits dest!: keepsED [rotated]) (blast intro: keeps_trans keeps_emitV)+

lemma keepsS_execThrow [keeps_intros]: "keepsE f \<Longrightarrow> keepsS (execThrow f)"
  unfolding keepsS_def execThrow_def by (auto split: prod.splits dest: keepsED)

lemma keepsS_execJump [keeps_intros]: "keepsS (execJump k label)"
  unfolding keepsS_def execJump_def keeps_def by (auto simp: jumpTo_ext)

lemma keepsS_execBlock [keeps_intros]: assumes "list_all keepsS fs" shows "keepsS (execBlock fs ls)"
  unfolding keepsS_def execBlock_def
  by (auto split: prod.splits if_splits dest: keeps_execSeq [OF assms] dest!: popFrame_keeps(1) [OF keeps_execSeq [OF assms]])

lemma keepsS_execTry [keeps_intros]:
  assumes "list_all keepsS ts" "pred_option (list_all keepsS) cb" "pred_option (list_all keepsS) fb" shows "keepsS (execTry body ts cb fb)"
  unfolding keepsS_def execTry_def using assms
  by (auto simp: Let_def split: prod.splits option.splits dest!: keeps_execSeq [rotated] keeps_execStmts [rotated])
    (blast intro: keeps_trans)+

lemma keepsOpts_loopOpts [keeps_intros]:
  "pred_option (\<lambda>p. keepsE (snd p)) cond \<Longrightarrow> list_all keepsS body \<Longrightarrow> pred_option keepsS upd \<Longrightarrow> keepsOpts (loopOpts cond body upd ls)"
  by (auto simp: keepsOpts_def loopOpts_def split: option.splits)

lemma keepsOpts_flags [keeps_intros]:
  "keepsOpts opts \<Longrightarrow> keepsOpts (opts\<lparr> lo_doWhile := b \<rparr>)" "keepsOpts opts \<Longrightarrow> keepsOpts (opts\<lparr> lo_always := b \<rparr>)"
  by (simp_all add: keepsOpts_def)

lemma keepsS_execLoop [keeps_intros]: "keepsOpts opts \<Longrightarrow> keepsS (\<lambda>c. execLoop c opts)"
  unfolding keepsS_def by (blast dest: keeps_execLoop)

lemma keepsE_two:
  "keepsE f \<Longrightarrow> keepsE g \<Longrightarrow> keepsE (\<lambda>c env st. case f c env st of (x, env, st) \<Rightarrow> case g c env st of (y, env, st) \<Rightarrow> (h c x y, env, st))"
  by (rule keepsEI) (auto split: prod.splits dest!: keepsED [rotated] intro: keeps_trans)

lemma keepsE_one: "keepsE f \<Longrightarrow> keepsE (\<lambda>c env st. case f c env st of (x, env, st) \<Rightarrow> (h c x, env' c x env st, st))"
  by (rule keepsEI) (auto split: prod.splits dest: keepsED)

lemma keepsE_fields:
  "list_all (\<lambda>(_, _, _, f). keepsE f) fs \<Longrightarrow> keepsE (\<lambda>c env st. case evalFields c (slots c) fs env st of (env, st) \<Rightarrow> (TOP, env, st))"
  by (rule keepsEI) (auto split: prod.splits dest: keeps_evalFields)

lemma keeps_fieldFns: "list_all (\<lambda>(_, f). keepsE f) fs \<Longrightarrow> list_all (\<lambda>(_, _, _, f). keepsE f) (fieldFns tys fs)"
proof (induction fs arbitrary: tys)
  case (Cons a fs)
  then show ?case by (cases tys) (auto simp: fieldFns_def)
qed (simp add: fieldFns_def)

lemma keepsS_one: "keepsE f \<Longrightarrow> keepsS (\<lambda>c env st. case f c env st of (x, env, st) \<Rightarrow> (Same, env, st))"
  unfolding keepsS_def by (auto split: prod.splits dest: keepsED)

lemma keepsS_skip [keeps_intros]: "keepsS (\<lambda>c env st. (r, env, st))"
  by (auto simp: keepsS_def)

lemma keeps_all:
  "keepsE (evalExpr e)"
  "keepsS (execStmt s)"
proof (induction e and s)
  case (Bin op a b ty l)
  then show ?case unfolding evalExpr.simps by (rule keepsE_two)
next
  case (Unary op a ty l)
  then show ?case unfolding evalExpr.simps by (rule keepsE_one)
next
  case (AssignExpr x a ty l)
  then show ?case unfolding evalExpr.simps by (rule keepsE_one)
next
  case (RecordLit fs ty l)
  have "list_all (\<lambda>(_, f). keepsE f) (map (map_prod id evalExpr) fs)" using RecordLit by (fastforce simp: list_all_iff snds.simps)
  then show ?case unfolding evalExpr.simps by (intro keepsE_fields keeps_fieldFns)
next
  case (ExprStmt e)
  then show ?case unfolding execStmt.simps by (rule keepsS_one)
next
  case (VarDecl x i)
  then show ?case by (cases i) (auto intro: keeps_intros)
next
  case (For i e u b ls)
  have "pred_option (\<lambda>p. keepsE (snd p)) (pairCond e (map_option evalExpr e))"
    using For by (cases e) (auto simp: pairCond_def)
  then show ?case using For by (auto intro!: keeps_intros simp: list_all_iff option.pred_set)
qed (fastforce intro!: keeps_intros simp: list_all_iff option.pred_set keepsCase_def snds.simps fsts.simps)+

end
