(* ===== verification/Int_Run.thy ===== *)
theory Int_Run
  imports Int_Discipline
begin

text \<open>
  What a function of the analysed program does, as far as its numbers are concerned: the concrete
  semantics the analyzer of library/int-infer.ts is judged against. A configuration is the set of
  numeric bindings assigned so far and a store; a run yields the values that reach declared
  integer slots (the crossings) and how it ends. Everything the analysis does not look into is
  left open: a value it calls unknown is any double, a call may write the globals it is known to
  reach, a heap write may change every field, and a run may be cut between statements.

  The runs are the calm ones. Where the analysis is wrong, or relies on what it does not check, a
  run goes no further: at a condition with an ordered comparison that is false because an operand is
  NaN (refine, int-infer.ts 1152), at a sum, difference, increment or decrement with an infinite
  operand, and at a condition that compares a numeric variable which is not an assigned tracked
  binding. Tracked are the unboxed numeric locals and the numeric globals; a boxed numeric parameter
  counts from the start until it is assigned, because evalPure reads its seed and no assignment
  updates it (int-infer.ts 1237), and no call is taken to change it.
\<close>

section \<open>Configurations and their changes\<close>

type_synonym Cfg = "jsstr set \<times> Store"

datatype crossing = Crossing (x_val: jsdouble) (x_path: jsstr) (x_cls: IntClass) (x_loc: SrcLoc)

datatype evalOut = Val jsdouble Cfg | Halt

datatype flow = Next Cfg | Jump jump "jsstr option" Cfg | Stop

type_synonym EvalR = "Ctx \<Rightarrow> Cfg \<Rightarrow> crossing list \<Rightarrow> evalOut \<Rightarrow> bool"
type_synonym ExecR = "Ctx \<Rightarrow> Cfg \<Rightarrow> crossing list \<Rightarrow> flow \<Rightarrow> bool"

definition refresh :: "Store \<Rightarrow> Store \<Rightarrow> bool" where
  "refresh s s' \<longleftrightarrow> s_var s' = s_var s \<and> s_path s' = s_path s \<and> storeOk s'"

definition heapStep :: "Store \<Rightarrow> Store \<Rightarrow> bool" where
  "heapStep s s' \<longleftrightarrow> s_var s' = s_var s \<and> storeOk s'"

definition callStep :: "jsstr set \<Rightarrow> Store \<Rightarrow> Store \<Rightarrow> bool" where
  "callStep G s s' \<longleftrightarrow> (\<forall>x. x \<notin> G \<longrightarrow> s_var s' x = s_var s x) \<and> (\<forall>x \<in> G. is_f64 (s_var s' x)) \<and> storeOk s'"

text \<open>An assignment binds the variable and rebinds the receivers of the paths that start from it.\<close>

definition assignStep :: "Ctx \<Rightarrow> jsstr \<Rightarrow> jsdouble \<Rightarrow> Cfg \<Rightarrow> Cfg \<Rightarrow> bool" where
  "assignStep c x v g g' \<longleftrightarrow>
     s_var (snd g') = (s_var (snd g))(x := v) \<and> storeOk (snd g') \<and>
     (\<forall>cls steps. rootOf steps \<noteq> Some x \<longrightarrow> s_path (snd g') cls steps = s_path (snd g) cls steps) \<and>
     fst g' = (if x \<in> set (c_f64 c) then insert x (fst g) else fst g - {x})"

text \<open>The globals a call of a function may write.\<close>

definition mayWrite :: "Ctx \<Rightarrow> jsstr \<Rightarrow> jsstr set" where
  "mayWrite c callee = (if callee \<in> set (c_havocAll c) \<or> map_of (c_perFn c) callee = None then {x. isGlobalId x}
     else {x. isGlobalId x \<and> x \<in> set (writesOf (c_perFn c) callee)})"

section \<open>Expressions\<close>

definition anyVal :: EvalR where
  "anyVal c g tr out \<longleftrightarrow> tr = [] \<and> (\<exists>x. is_f64 x \<and> out = Val x g)"

text \<open>Sub-expressions in order; none when one of them halts.\<close>

fun evalsR :: "EvalR list \<Rightarrow> Ctx \<Rightarrow> Cfg \<Rightarrow> crossing list \<Rightarrow> (jsdouble list \<times> Cfg) option \<Rightarrow> bool" where
  "evalsR [] c g tr out = (tr = [] \<and> out = Some ([], g))"
| "evalsR (r # rs) c g tr out =
    (r c g tr Halt \<and> out = None \<or>
     (\<exists>x g1 tr1 tr2 out'. r c g tr1 (Val x g1) \<and> evalsR rs c g1 tr2 out' \<and> tr = tr1 @ tr2 \<and>
        out = map_option (\<lambda>(xs, g). (x # xs, g)) out'))"

text \<open>Evaluate, then continue with the values; a run that halts on the way halts.\<close>

definition thenR :: "EvalR list \<Rightarrow> (jsdouble list \<Rightarrow> EvalR) \<Rightarrow> EvalR" where
  "thenR rs k c g tr out \<longleftrightarrow> evalsR rs c g tr None \<and> out = Halt \<or>
     (\<exists>xs g1 tr1 tr2. evalsR rs c g tr1 (Some (xs, g1)) \<and> k xs c g1 tr2 out \<and> tr = tr1 @ tr2)"

definition valueR :: "(Ctx \<Rightarrow> jsdouble \<Rightarrow> bool) \<Rightarrow> EvalR" where
  "valueR P c g tr out \<longleftrightarrow> tr = [] \<and> (\<exists>x. P c x \<and> out = Val x g)"

text \<open>Code outside the analysis: it may throw, or change the heap and the globals and return.\<close>

definition effectR :: "(Ctx \<Rightarrow> jsstr set) \<Rightarrow> (Ctx \<Rightarrow> jsdouble \<Rightarrow> bool) \<Rightarrow> EvalR" where
  "effectR G P c g tr out \<longleftrightarrow> tr = [] \<and>
     (out = Halt \<or> (\<exists>x s'. P c x \<and> callStep (G c) (snd g) s' \<and> out = Val x (fst g, s')))"

text \<open>A condition, evaluated on a store whose unseen part is fixed for the evaluation.\<close>

definition condR :: "IrExpr \<Rightarrow> bool \<Rightarrow> Ctx \<Rightarrow> Cfg \<Rightarrow> Cfg \<Rightarrow> bool" where
  "condR cond b c g g' \<longleftrightarrow> fst g' = fst g \<and> refresh (snd g) (snd g') \<and> condOk c (fst g) (snd g') cond \<and> truth c (snd g') cond = b"

definition shortR :: "EvalR \<Rightarrow> EvalR \<Rightarrow> EvalR" where
  "shortR r1 r2 = thenR [r1] (\<lambda>_ c g tr out. anyVal c g tr out \<or> thenR [r2] (\<lambda>_. anyVal) c g tr out)"

definition ternaryR :: "IrExpr \<Rightarrow> EvalR \<Rightarrow> EvalR \<Rightarrow> EvalR" where
  "ternaryR cond r1 r2 c g tr out \<longleftrightarrow>
     (\<exists>g'. condR cond True c g g' \<and> r1 c g' tr out) \<or> (\<exists>g'. condR cond False c g g' \<and> r2 c g' tr out)"

definition binR :: "IrNumBinOp \<Rightarrow> bool \<Rightarrow> EvalR \<Rightarrow> EvalR \<Rightarrow> EvalR" where
  "binR op numeric r1 r2 = thenR [r1, r2]
     (\<lambda>xs. if op \<in> set CMP_OPS \<or> \<not> numeric then anyVal
       else valueR (\<lambda>c x. x = numOp (c_rt c) op (xs ! 0) (xs ! 1) \<and>
         (op \<in> {OpAdd, OpSub} \<longrightarrow> \<not> infinite_f64 (xs ! 0) \<and> \<not> infinite_f64 (xs ! 1))))"

fun unaryOf :: "unop \<Rightarrow> jsdouble \<Rightarrow> jsdouble \<Rightarrow> bool" where
  "unaryOf UNeg x y = (y = fneg x)"
| "unaryOf UBitNot x y = (y = fbitnot x)"
| "unaryOf UNot x y = is_f64 y"

definition varR :: "jsstr \<Rightarrow> IrType \<Rightarrow> EvalR" where
  "varR x ty c g tr out \<longleftrightarrow>
     (if is_f64_type ty \<and> x \<in> set (c_f64 c) then x \<in> fst g \<and> tr = [] \<and> out = Val (s_var (snd g) x) g else anyVal c g tr out)"

definition incDecR :: "bool \<Rightarrow> bool \<Rightarrow> jsstr \<Rightarrow> EvalR" where
  "incDecR isPlus isPrefix x c g tr out \<longleftrightarrow>
     (if x \<in> set (c_f64 c) then
        (let old = s_var (snd g) x; new = fadd old (fin (if isPlus then 1 else - 1)) in
         x \<in> fst g \<and> \<not> infinite_f64 old \<and> tr = [] \<and>
         out = Val (if isPrefix then new else old) (fst g, (snd g)\<lparr> s_var := (s_var (snd g))(x := new) \<rparr>))
      else anyVal c g tr out)"

definition assignR :: "jsstr \<Rightarrow> EvalR \<Rightarrow> EvalR" where
  "assignR x r = thenR [r] (\<lambda>xs c g tr out. tr = [] \<and> (\<exists>g'. assignStep c x (xs ! 0) g g' \<and> out = Val (xs ! 0) g'))"

text \<open>The crossings of a call: one for each argument of a declared integer parameter.\<close>

fun argCrossings :: "FnIntSlots \<Rightarrow> nat \<Rightarrow> (jsdouble \<times> SrcLoc) list \<Rightarrow> crossing list" where
  "argCrossings slots i [] = []"
| "argCrossings slots i ((v, loc) # rest) =
    (case nthOpt (slot_params slots) i of None \<Rightarrow> []
     | Some cls \<Rightarrow> [Crossing v (case nthOpt (paramPaths slots) i of Some p \<Rightarrow> p | None \<Rightarrow> []) cls loc]) @ argCrossings slots (Suc i) rest"

definition retVal :: "jsstr \<Rightarrow> Ctx \<Rightarrow> jsdouble \<Rightarrow> bool" where
  "retVal callee c x \<longleftrightarrow> is_f64 x \<and>
     (case map_of (cfg_fns (c_cfg c)) callee of None \<Rightarrow> True
      | Some s \<Rightarrow> (case slot_ret s of None \<Rightarrow> True | Some r \<Rightarrow> x \<in> gamma (classSeed (className r))))"

definition callR :: "jsstr \<Rightarrow> SrcLoc list \<Rightarrow> EvalR list \<Rightarrow> EvalR" where
  "callR callee locs rs = thenR rs (\<lambda>xs c g tr out.
     \<exists>tr'. effectR (\<lambda>c. mayWrite c callee) (retVal callee) c g tr' out \<and>
       tr = (case map_of (cfg_fns (c_cfg c)) callee of None \<Rightarrow> [] | Some s \<Rightarrow> argCrossings s 0 (zip xs locs)) @ tr')"

definition recordGetR :: "IrExpr \<Rightarrow> jsstr \<Rightarrow> jsstr \<Rightarrow> IrType \<Rightarrow> EvalR \<Rightarrow> EvalR" where
  "recordGetR e shape field ty r = thenR [r] (\<lambda>_ c g tr out.
     case recSlotOf (c_cfg c) shape field of
       None \<Rightarrow> anyVal c g tr out
     | Some slot \<Rightarrow>
         if \<not> is_f64_type ty then anyVal c g tr out
         else (case staticAccessPath e of
                 None \<Rightarrow> valueR (\<lambda>_ x. x \<in> gamma (classSeed (className (rs_cls slot)))) c g tr out
               | Some (_, steps) \<Rightarrow> tr = [] \<and> out = Val (s_path (snd g) (rs_cls slot) steps) g))"

text \<open>The fields of a record literal: a numeric field of a declared slot crosses.\<close>

fun fieldsR :: "(jsstr \<times> recSlot) list \<Rightarrow> (jsstr \<times> IrType \<times> SrcLoc \<times> EvalR) list \<Rightarrow> Ctx \<Rightarrow> Cfg \<Rightarrow> crossing list \<Rightarrow> Cfg option \<Rightarrow> bool" where
  "fieldsR slots [] c g tr out = (tr = [] \<and> out = Some g)"
| "fieldsR slots ((n, ty, loc, r) # fs) c g tr out =
    (r c g tr Halt \<and> out = None \<or>
     (\<exists>x g1 tr1 tr2. r c g tr1 (Val x g1) \<and> fieldsR slots fs c g1 tr2 out \<and>
        tr = tr1 @ (case map_of slots n of Some slot \<Rightarrow> if is_f64_type ty then [Crossing x (rs_path slot) (rs_cls slot) loc] else [] | None \<Rightarrow> []) @ tr2))"

definition recordLitR :: "IrType \<Rightarrow> (jsstr \<times> IrType \<times> SrcLoc \<times> EvalR) list \<Rightarrow> EvalR" where
  "recordLitR ty fs c g tr out \<longleftrightarrow>
     (\<exists>o'. fieldsR (case map_of (cfg_records (c_cfg c)) (ty_shape ty) of None \<Rightarrow> [] | Some m \<Rightarrow> m) fs c g tr o' \<and>
       (case o' of None \<Rightarrow> out = Halt | Some g' \<Rightarrow> anyVal c g' [] out))"

section \<open>Statements\<close>

text \<open>Statements in order; a run may be cut between any two.\<close>

fun seqR :: "ExecR list \<Rightarrow> ExecR" where
  "seqR [] c g tr out = (tr = [] \<and> out = Next g)"
| "seqR (r # rs) c g tr out =
    (tr = [] \<and> out = Stop \<or>
     r c g tr out \<and> (\<forall>g'. out \<noteq> Next g') \<or>
     (\<exists>g1 tr1 tr2. r c g tr1 (Next g1) \<and> seqR rs c g1 tr2 out \<and> tr = tr1 @ tr2))"

text \<open>Evaluate expressions, then go on as a statement.\<close>

definition afterR :: "EvalR list \<Rightarrow> (jsdouble list \<Rightarrow> ExecR) \<Rightarrow> ExecR" where
  "afterR rs k c g tr out \<longleftrightarrow> evalsR rs c g tr None \<and> out = Stop \<or>
     (\<exists>xs g1 tr1 tr2. evalsR rs c g tr1 (Some (xs, g1)) \<and> k xs c g1 tr2 out \<and> tr = tr1 @ tr2)"

definition skipR :: ExecR where
  "skipR c g tr out \<longleftrightarrow> tr = [] \<and> out = Next g"

definition stopR :: ExecR where
  "stopR c g tr out \<longleftrightarrow> tr = [] \<and> out = Stop"

definition bindR' :: "jsstr \<Rightarrow> EvalR \<Rightarrow> ExecR" where
  "bindR' x r = afterR [r] (\<lambda>xs c g tr out. tr = [] \<and> (\<exists>g'. assignStep c x (xs ! 0) g g' \<and> out = Next g'))"

definition ifR :: "IrExpr \<Rightarrow> ExecR list \<Rightarrow> ExecR list option \<Rightarrow> ExecR" where
  "ifR cond ts es c g tr out \<longleftrightarrow>
     (\<exists>g'. condR cond True c g g' \<and> seqR ts c g' tr out) \<or>
     (\<exists>g'. condR cond False c g g' \<and> (case es of None \<Rightarrow> skipR c g' tr out | Some es \<Rightarrow> seqR es c g' tr out))"

definition writeR :: "EvalR list \<Rightarrow> ExecR" where
  "writeR rs = afterR rs (\<lambda>_ c g tr out. tr = [] \<and> (\<exists>s'. heapStep (snd g) s' \<and> out = Next (fst g, s')))"

definition recordSetR :: "EvalR \<Rightarrow> jsstr \<Rightarrow> jsstr \<Rightarrow> EvalR \<Rightarrow> SrcLoc \<Rightarrow> ExecR" where
  "recordSetR r1 shape field r2 loc = afterR [r1, r2] (\<lambda>xs c g tr out.
     tr = (case recSlotOf (c_cfg c) shape field of None \<Rightarrow> [] | Some slot \<Rightarrow> [Crossing (xs ! 1) (rs_path slot) (rs_cls slot) loc]) \<and>
     (\<exists>s'. heapStep (snd g) s' \<and> out = Next (fst g, s')))"

definition returnR :: "EvalR option \<Rightarrow> SrcLoc \<Rightarrow> ExecR" where
  "returnR r loc = (case r of None \<Rightarrow> stopR
     | Some r \<Rightarrow> afterR [r] (\<lambda>xs c g tr out. out = Stop \<and>
         tr = (case c_ret c of None \<Rightarrow> [] | Some (cls, path) \<Rightarrow> [Crossing (xs ! 0) path cls loc])))"

definition jumpR :: "jump \<Rightarrow> jsstr option \<Rightarrow> ExecR" where
  "jumpR k label c g tr out \<longleftrightarrow> tr = [] \<and> out = Jump k label g"

text \<open>A labelled block ends a break that names one of its labels.\<close>

definition labelHit :: "jsstr list \<Rightarrow> jsstr option \<Rightarrow> bool" where
  "labelHit ls label \<longleftrightarrow> (case label of None \<Rightarrow> False | Some l \<Rightarrow> l \<in> set ls)"

definition blockR :: "ExecR list \<Rightarrow> jsstr list \<Rightarrow> ExecR" where
  "blockR rs ls c g tr out \<longleftrightarrow>
     (\<exists>out'. seqR rs c g tr out' \<and>
       (case out' of Jump JBreak label g' \<Rightarrow> if labelHit ls label then out = Next g' else out = out' | _ \<Rightarrow> out = out'))"

text \<open>A switch enters one of its bodies, or none when it has no default, and falls through.\<close>

definition switchR :: "EvalR \<Rightarrow> (bool \<times> ExecR list) list \<Rightarrow> jsstr list \<Rightarrow> ExecR" where
  "switchR r cs ls = afterR [r] (\<lambda>_ c g tr out.
     (\<exists>s'. refresh (snd g) s' \<and> tr = [] \<and> list_all fst cs \<and> out = Next (fst g, s')) \<or>
     (\<exists>i s' out'. refresh (snd g) s' \<and> i < length cs \<and> seqR (concat (map snd (drop i cs))) c (fst g, s') tr out' \<and>
       (case out' of Jump JBreak label g' \<Rightarrow> if label = None \<or> labelHit ls label then out = Next g' else out = out' | _ \<Rightarrow> out = out')))"

subsection \<open>Loops\<close>

record LoopSem =
  ls_cond :: "IrExpr option"
  ls_body :: "ExecR list"
  ls_update :: "ExecR option"
  ls_labels :: "jsstr list"
  ls_doWhile :: bool
  ls_seed :: "jsstr option"
  ls_always :: bool

datatype tripOut = Around Cfg | Bottom Cfg | Broke Cfg | Left flow

definition enterR :: "LoopSem \<Rightarrow> Ctx \<Rightarrow> Cfg \<Rightarrow> Cfg \<Rightarrow> bool" where
  "enterR ls c g g' \<longleftrightarrow>
     (\<exists>g1. (case ls_cond ls of Some e \<Rightarrow> if ls_doWhile ls then g1 = g else condR e True c g g1 | None \<Rightarrow> g1 = g) \<and>
       (case ls_seed ls of None \<Rightarrow> g' = g1
        | Some x \<Rightarrow> (\<exists>v. is_f64 v \<and> g' = (insert x (fst g1), (snd g1)\<lparr> s_var := (s_var (snd g1))(x := v) \<rparr>))))"

text \<open>How the body's outcome continues: at the update, out through a break, or past the loop.\<close>

fun bodyOut :: "jsstr list \<Rightarrow> flow \<Rightarrow> (Cfg, tripOut) sum" where
  "bodyOut ls (Next g) = Inl g"
| "bodyOut ls (Jump JContinue label g) = (if label = None \<or> labelHit ls label then Inl g else Inr (Left (Jump JContinue label g)))"
| "bodyOut ls (Jump JBreak label g) = (if label = None \<or> labelHit ls label then Inr (Broke g) else Inr (Left (Jump JBreak label g)))"
| "bodyOut ls Stop = Inr (Left Stop)"

definition updateR :: "LoopSem \<Rightarrow> ExecR" where
  "updateR ls = (case ls_update ls of None \<Rightarrow> skipR | Some r \<Rightarrow> r)"

text \<open>From the end of the update: back to the top, along a do-while's condition.\<close>

definition backR :: "LoopSem \<Rightarrow> Ctx \<Rightarrow> flow \<Rightarrow> tripOut \<Rightarrow> bool" where
  "backR ls c out res \<longleftrightarrow>
     (case out of
        Next g3 \<Rightarrow>
          (case ls_cond ls of
             Some e \<Rightarrow> if ls_doWhile ls then (\<exists>g4. condR e True c g3 g4 \<and> res = Around g4) \<or> (\<exists>g4. condR e False c g3 g4 \<and> res = Bottom g4)
               else res = Around g3
           | None \<Rightarrow> res = Around g3)
      | _ \<Rightarrow> res = Left Stop)"

definition tripR :: "LoopSem \<Rightarrow> Ctx \<Rightarrow> Cfg \<Rightarrow> crossing list \<Rightarrow> tripOut \<Rightarrow> bool" where
  "tripR ls c g tr res \<longleftrightarrow>
     (\<exists>g1 tr1 out. enterR ls c g g1 \<and> seqR (ls_body ls) c g1 tr1 out \<and>
       (case bodyOut (ls_labels ls) out of
          Inr res' \<Rightarrow> res = res' \<and> tr = tr1
        | Inl g2 \<Rightarrow> (\<exists>tr2 out2. updateR ls c g2 tr2 out2 \<and> tr = tr1 @ tr2 \<and> backR ls c out2 res)))"

text \<open>At the top of a loop the assigned bindings are those assigned on both ways into it, as in
  TypeScript's definite-assignment rule.\<close>

inductive loopR :: "LoopSem \<Rightarrow> Ctx \<Rightarrow> Cfg \<Rightarrow> crossing list \<Rightarrow> flow \<Rightarrow> bool" for ls c where
  cut: "loopR ls c g [] Stop"
| exitCond: "ls_cond ls = Some e \<Longrightarrow> \<not> ls_doWhile ls \<Longrightarrow> condR e False c g g' \<Longrightarrow> loopR ls c g [] (Next g')"
| exitDone: "ls_cond ls = None \<Longrightarrow> ls_always ls \<Longrightarrow> \<not> ls_doWhile ls \<Longrightarrow> loopR ls c g [] (Next g)"
| around: "tripR ls c g tr1 (Around g') \<Longrightarrow> loopR ls c (fst g \<inter> fst g', snd g') tr2 out \<Longrightarrow> loopR ls c g (tr1 @ tr2) out"
| bottom: "tripR ls c g tr (Bottom g') \<Longrightarrow> loopR ls c g tr (Next g')"
| broke: "tripR ls c g tr (Broke g') \<Longrightarrow> loopR ls c g tr (Next g')"
| left: "tripR ls c g tr (Left out) \<Longrightarrow> loopR ls c g tr out"

section \<open>The semantics of the IR\<close>

definition loopSem :: "IrExpr option \<Rightarrow> ExecR list \<Rightarrow> ExecR option \<Rightarrow> jsstr list \<Rightarrow> LoopSem" where
  "loopSem cond body upd ls =
    \<lparr> ls_cond = cond, ls_body = body, ls_update = upd, ls_labels = ls, ls_doWhile = False, ls_seed = None, ls_always = False \<rparr>"

definition forR :: "ExecR option \<Rightarrow> LoopSem \<Rightarrow> ExecR" where
  "forR i ls = (case i of None \<Rightarrow> (\<lambda>c. loopR ls c) | Some r \<Rightarrow> seqR [r, \<lambda>c. loopR ls c])"

definition forOfR :: "jsstr \<Rightarrow> EvalR \<Rightarrow> LoopSem \<Rightarrow> ExecR" where
  "forOfR x r ls = afterR [r] (\<lambda>_ c. loopR (ls\<lparr> ls_seed := (if x \<in> set (c_f64 c) then Some x else None) \<rparr>) c)"

definition seqExprR :: "ExecR list \<Rightarrow> EvalR \<Rightarrow> EvalR" where
  "seqExprR rs r c g tr out \<longleftrightarrow>
     (\<exists>o'. seqR rs c g tr o' \<and> (\<forall>g'. o' \<noteq> Next g') \<and> out = Halt) \<or>
     (\<exists>g1 tr1 tr2. seqR rs c g tr1 (Next g1) \<and> r c g1 tr2 out \<and> tr = tr1 @ tr2)"

definition fieldSems :: "(IrType \<times> SrcLoc) list \<Rightarrow> (jsstr \<times> EvalR) list \<Rightarrow> (jsstr \<times> IrType \<times> SrcLoc \<times> EvalR) list" where
  "fieldSems tys fs = map2 (\<lambda>(ty, loc) (n, r). (n, ty, loc, r)) tys fs"

abbreviation noGlobals :: "Ctx \<Rightarrow> jsstr set" where
  "noGlobals \<equiv> (\<lambda>_. {})"

abbreviation allGlobals :: "Ctx \<Rightarrow> jsstr set" where
  "allGlobals \<equiv> (\<lambda>_. {x. isGlobalId x})"

abbreviation anyF64 :: "Ctx \<Rightarrow> jsdouble \<Rightarrow> bool" where
  "anyF64 \<equiv> (\<lambda>_. is_f64)"

text \<open>Suspensions and exception handlers have no runs here.\<close>

primrec semE :: "IrExpr \<Rightarrow> EvalR" and semS :: "IrStmt \<Rightarrow> ExecR" where
  "semE (NumLit x sp _ _) = valueR (\<lambda>_ y. y = x)"
| "semE (StrLit _ _ _) = anyVal"
| "semE (BoolLit _ _ _) = anyVal"
| "semE (UnitLit _ _ _) = anyVal"
| "semE (Leaf _ _ _) = anyVal"
| "semE (SelfRef _ _) = anyVal"
| "semE (VarRef x ty _) = varR x ty"
| "semE (Bin op a b _ _) = binR op (is_f64_type (ety a) \<and> is_f64_type (ety b)) (semE a) (semE b)"
| "semE (Unary op a _ _) = thenR [semE a] (\<lambda>xs. valueR (\<lambda>_. unaryOf op (xs ! 0)))"
| "semE (IncDec isPlus isPrefix x _ _) = incDecR isPlus isPrefix x"
| "semE (AssignExpr x a _ _) = assignR x (semE a)"
| "semE (Ternary a b d _ _) = ternaryR a (semE b) (semE d)"
| "semE (Logical _ a b _ _) = shortR (semE a) (semE b)"
| "semE (Nullish a b _ _) = shortR (semE a) (semE b)"
| "semE (OrDefault a b _ _) = shortR (semE a) (semE b)"
| "semE (OptChain a b _ _) = shortR (semE a) (semE b)"
| "semE (SeqExpr ss a _ _) = seqExprR (map semS ss) (semE a)"
| "semE (Call f args _ _) = callR f (map eloc args) (map semE args)"
| "semE (Math1 m a _ _) = thenR [semE a] (\<lambda>xs. effectR noGlobals (\<lambda>_ y. y = math1Of m (xs ! 0)))"
| "semE (Math2 m a b _ _) = thenR [semE a, semE b] (\<lambda>xs. effectR noGlobals (\<lambda>_ y. y = minmaxOf m xs))"
| "semE (MathRandom _ _) = effectR noGlobals (\<lambda>_ y. y \<in> gamma (absVal (fin 0) (fin 1) False False None))"
| "semE (LibCall _ args _ _) =
    thenR (map semE args) (\<lambda>_. effectR (if list_ex (\<lambda>a. typeContainsFunc (ety a)) args then allGlobals else noGlobals) anyF64)"
| "semE (Opaque _ kids _ _) = thenR (map snd (map (map_prod id semE) kids)) (\<lambda>_. effectR allGlobals anyF64)"
| "semE (Suspend _ kids _ _) = (\<lambda>c g tr out. False)"
| "semE (RecordLit fs ty _) = recordLitR ty (fieldSems (map (\<lambda>(_, e). (ety e, eloc e)) fs) (map (map_prod id semE) fs))"
| "semE (RecordGet a shape field ty l) = recordGetR (RecordGet a shape field ty l) shape field ty (semE a)"
| "semE (FieldGet a _ _ _ _) = thenR [semE a] (\<lambda>_. anyVal)"
| "semE (ToBool a _ _) = thenR [semE a] (\<lambda>_. effectR noGlobals anyF64)"
| "semE (Other _ kids _ _) = thenR (map snd (map (map_prod id semE) kids)) (\<lambda>_. effectR noGlobals anyF64)"
| "semS (VarDecl x i) = (case map_option semE i of None \<Rightarrow> skipR | Some r \<Rightarrow> bindR' x r)"
| "semS (Assign x e) = bindR' x (semE e)"
| "semS (ExprStmt e) = afterR [semE e] (\<lambda>_. skipR)"
| "semS (SIf e t el) = ifR e (map semS t) (map_option (map semS) el)"
| "semS (While e b ls) = (\<lambda>c. loopR (loopSem (Some e) (map semS b) None ls) c)"
| "semS (DoWhile e b ls) = (\<lambda>c. loopR ((loopSem (Some e) (map semS b) None ls)\<lparr> ls_doWhile := True \<rparr>) c)"
| "semS (For i e u b ls) = forR (map_option semS i) (loopSem e (map semS b) (map_option semS u) ls)"
| "semS (ForOf x e b ls) = forOfR x (semE e) ((loopSem None (map semS b) None ls)\<lparr> ls_always := True \<rparr>)"
| "semS (Switch e cs ls) = switchR (semE e) (map (map_prod (\<lambda>t. t \<noteq> None) (map semS)) cs) ls"
| "semS (ArraySet a b d) = writeR [semE a, semE b, semE d]"
| "semS (BytesSet a b d) = writeR [semE a, semE b, semE d]"
| "semS (FieldSet a b) = writeR [semE a, semE b]"
| "semS (RecordSet a shape field b loc) = recordSetR (semE a) shape field (semE b) loc"
| "semS (RecordKeySet a b d) = writeR [semE a, semE b, semE d]"
| "semS (RecordKeyDelete a b) = writeR [semE a, semE b]"
| "semS (Return e loc) = returnR (map_option semE e) loc"
| "semS (Throw e) = afterR [semE e] (\<lambda>_. stopR)"
| "semS Rethrow = stopR"
| "semS RuntimeFence = stopR"
| "semS (Break l) = jumpR JBreak l"
| "semS (Continue l) = jumpR JContinue l"
| "semS (Block b ls) = blockR (map semS b) ls"
| "semS (TryCatch t cb fb) = (\<lambda>c g tr out. False)"

text \<open>The programs the semantics speaks about: conditions and switch tests are pure, there is no
  division, power, suspension or exception handler, literals are doubles, and the identifiers of
  bindings do not look like path keys.\<close>

definition idOk :: "jsstr \<Rightarrow> bool" where
  "idOk x \<longleftrightarrow> pathClassOfKey x = None"

primrec okE :: "IrExpr \<Rightarrow> bool" and okS :: "IrStmt \<Rightarrow> bool" where
  "okE (NumLit x _ _ _) = is_f64 x"
| "okE (StrLit _ _ _) = True"
| "okE (BoolLit _ _ _) = True"
| "okE (UnitLit _ _ _) = True"
| "okE (Leaf _ _ _) = True"
| "okE (SelfRef _ _) = True"
| "okE (VarRef x _ _) = idOk x"
| "okE (Bin op a b _ _) = (op \<noteq> OpDiv \<and> op \<noteq> OpPow \<and> okE a \<and> okE b)"
| "okE (Unary _ a _ _) = okE a"
| "okE (IncDec _ _ x _ _) = idOk x"
| "okE (AssignExpr x a _ _) = (idOk x \<and> okE a)"
| "okE (Ternary a b d _ _) = (isPure a \<and> okE a \<and> okE b \<and> okE d)"
| "okE (Logical _ a b _ _) = (okE a \<and> okE b)"
| "okE (Nullish a b _ _) = (okE a \<and> okE b)"
| "okE (OrDefault a b _ _) = (okE a \<and> okE b)"
| "okE (OptChain a b _ _) = (okE a \<and> okE b)"
| "okE (SeqExpr ss a _ _) = (list_all id (map okS ss) \<and> okE a)"
| "okE (Call _ args _ _) = list_all id (map okE args)"
| "okE (Math1 _ a _ _) = okE a"
| "okE (Math2 _ a b _ _) = (okE a \<and> okE b)"
| "okE (MathRandom _ _) = True"
| "okE (LibCall _ args _ _) = list_all id (map okE args)"
| "okE (Opaque _ kids _ _) = list_all snd (map (map_prod id okE) kids)"
| "okE (Suspend _ kids _ _) = False"
| "okE (RecordLit fs _ _) = list_all snd (map (map_prod id okE) fs)"
| "okE (RecordGet a _ _ _ _) = okE a"
| "okE (FieldGet a _ _ _ _) = okE a"
| "okE (ToBool a _ _) = okE a"
| "okE (Other _ kids _ _) = list_all snd (map (map_prod id okE) kids)"
| "okS (VarDecl x i) = (idOk x \<and> pred_option id (map_option okE i))"
| "okS (Assign x e) = (idOk x \<and> okE e)"
| "okS (ExprStmt e) = okE e"
| "okS (SIf e t el) = (isPure e \<and> okE e \<and> list_all id (map okS t) \<and> pred_option (list_all id) (map_option (map okS) el))"
| "okS (While e b _) = (isPure e \<and> okE e \<and> list_all id (map okS b))"
| "okS (DoWhile e b _) = (isPure e \<and> okE e \<and> list_all id (map okS b))"
| "okS (For i e u b _) = (pred_option id (map_option okS i) \<and> pred_option isPure e \<and> pred_option id (map_option okE e) \<and>
    pred_option id (map_option okS u) \<and> list_all id (map okS b))"
| "okS (ForOf x e b _) = (idOk x \<and> okE e \<and> list_all id (map okS b))"
| "okS (Switch e cs _) = (okE e \<and> list_all (\<lambda>(t, _). pred_option isPure t) cs \<and>
    list_all (\<lambda>(t, b). pred_option id t \<and> list_all id b) (map (map_prod (map_option okE) (map okS)) cs))"
| "okS (ArraySet a b d) = (okE a \<and> okE b \<and> okE d)"
| "okS (BytesSet a b d) = (okE a \<and> okE b \<and> okE d)"
| "okS (FieldSet a b) = (okE a \<and> okE b)"
| "okS (RecordSet a _ _ b _) = (okE a \<and> okE b)"
| "okS (RecordKeySet a b d) = (okE a \<and> okE b \<and> okE d)"
| "okS (RecordKeyDelete a b) = (okE a \<and> okE b)"
| "okS (Return e _) = pred_option id (map_option okE e)"
| "okS (Throw e) = okE e"
| "okS Rethrow = True"
| "okS RuntimeFence = True"
| "okS (Break _) = True"
| "okS (Continue _) = True"
| "okS (Block b _) = list_all id (map okS b)"
| "okS (TryCatch t cb fb) = False"

end
