(* ===== verification/Int_Notes.thy ===== *)
theory Int_Notes
  imports Int_Run
begin

text \<open>
  The analyzer's bookkeeping of path roots: every access-path fact in an environment it holds has
  its receiver binding registered, so that rebinding the receiver finds and drops the fact. The
  registrations only grow. Proved for each combinator and put together over the IR.
\<close>

section \<open>Registered environments\<close>

definition noted :: "Roots \<Rightarrow> Env \<Rightarrow> bool" where
  "noted roots env \<longleftrightarrow> (\<forall>cls steps. pathKeyOf cls steps \<in> fst ` set env \<longrightarrow> map_of roots (pathKeyOf cls steps) = Some (rootOf steps))"

definition rootsLe :: "Roots \<Rightarrow> Roots \<Rightarrow> bool" where
  "rootsLe r r' \<longleftrightarrow> (\<forall>cls steps. map_of r (pathKeyOf cls steps) = Some (rootOf steps) \<longrightarrow> map_of r' (pathKeyOf cls steps) = Some (rootOf steps))"

lemma rootsLe_refl [simp]: "rootsLe r r"
  by (simp add: rootsLe_def)

lemma rootsLe_trans [trans]: "rootsLe a b \<Longrightarrow> rootsLe b d \<Longrightarrow> rootsLe a d"
  by (auto simp: rootsLe_def)

lemma noted_le: "noted r env \<Longrightarrow> rootsLe r r' \<Longrightarrow> noted r' env"
  by (auto simp: noted_def rootsLe_def)

lemma keys_envSet: "fst ` set (envSet env k v) = insert k (fst ` set env)"
proof (induction env)
  case (Cons a env)
  then show ?case by (cases a) (simp add: insert_commute)
qed simp

lemma noted_sub: "noted r env \<Longrightarrow> fst ` set env' \<subseteq> fst ` set env \<Longrightarrow> noted r env'"
  unfolding noted_def by blast

lemma noted_envSet: "idOk x \<Longrightarrow> noted r env \<Longrightarrow> noted r (envSet env x v)"
  by (auto simp: noted_def keys_envSet idOk_def)

lemma noted_filter: "noted r env \<Longrightarrow> noted r (filter P env)"
  by (erule noted_sub) auto

lemma noted_clear [simp]: "noted r (clearPathFacts env)"
  by (auto simp: noted_def clearPathFacts_def)

lemma noted_join: "joinEnv A B = Some e \<Longrightarrow> (\<And>a. A = Some a \<Longrightarrow> noted r a) \<Longrightarrow> (\<And>b. B = Some b \<Longrightarrow> noted r b) \<Longrightarrow> noted r e"
  by (cases A; cases B) auto

lemma noted_havoc: "noted r env \<Longrightarrow> noted r (havocAllGlobals env)"
  by (simp add: havocAllGlobals_def noted_filter)

lemma noted_havocCall: "noted r env \<Longrightarrow> noted r (havocCall c f env)"
proof -
  have "noted r env \<Longrightarrow> noted r (fold (\<lambda>g env. envDelete env g) gs env)" for gs env
    by (induction gs arbitrary: env) (simp_all add: envDelete_def noted_filter)
  then show ?thesis by (simp add: havocCall_def Let_def noted_havoc)
qed

lemma noted_bindVar: "idOk x \<Longrightarrow> noted r env \<Longrightarrow> noted r (bindVar c x v env st)"
  by (simp add: bindVar_def Let_def clearPathsAt_def clearPathsRootedAt_def noted_envSet noted_filter)

section \<open>Refinement registers what it uses\<close>

lemma rootsLe_noteRoot: "rootsLe r (noteRoot e cls r)"
proof (cases "staticAccessPath e")
  case (Some p)
  then obtain q steps where p: "staticAccessPath e = Some (q, steps)" by (cases p) auto
  have "q = rootOf steps" using path_root [OF p] by simp
  then show ?thesis
    using p pathKeyOf_inj by (fastforce simp: rootsLe_def noteRoot_def map_of_filter_key)
qed (simp add: noteRoot_def)

lemma map_of_noteRoot: "pathKey e cls = Some k \<Longrightarrow> k = pathKeyOf cls' steps \<Longrightarrow> map_of (noteRoot e cls r) k = Some (rootOf steps)"
  using path_root pathKeyOf_inj by (fastforce simp: pathKey_Some noteRoot_def)

lemma rootsLe_refinementNote: "rootsLe r (refinementNote c e ap r)"
  by (auto simp: refinementNote_def rootsLe_noteRoot split: IrExpr.splits option.splits)

lemma rootsLe_pureNotes: "rootsLe r (pureNotes c e r)"
  by (induction c e r rule: pureNotes.induct) (auto split: option.splits intro: rootsLe_noteRoot rootsLe_trans)

text \<open>A key refinement writes is a binding's, or registered.\<close>

lemma noted_setKey:
  assumes "noted r env" "rootsLe (refinementNote c e ap r0) r" "okE e"
  shows "noted r (setKey (refinementKey c e ap) v env)"
proof (cases "refinementKey c e ap")
  case (Some k)
  then consider (var) x ty l where "e = VarRef x ty l" "k = x"
    | (path) obj shape field ty l slot where "e = RecordGet obj shape field ty l" "recSlotOf (c_cfg c) shape field = Some slot"
      "pathKey e (rs_cls slot) = Some k" "ap" "is_f64_type ty"
    by (cases e) (auto simp: refinementKey_def split: if_splits option.splits)
  then show ?thesis
  proof cases
    case var
    then show ?thesis using assms Some by (simp add: setKey_def noted_envSet)
  next
    case path
    have "map_of r k = Some (rootOf steps)" if "k = pathKeyOf cls steps" for cls steps
      using map_of_noteRoot [OF path(3) that, of r0] assms(2) path that by (auto simp: refinementNote_def rootsLe_def)
    then show ?thesis using assms(1) Some by (auto simp: setKey_def noted_def keys_envSet)
  qed
qed (use assms in \<open>simp add: setKey_def\<close>)

lemma rootsLe_cmpNotes: "rootsLe r (cmpNotes c cop l rr ap r)"
  unfolding cmpNotes_def
  by (auto intro: rootsLe_trans [OF rootsLe_pureNotes rootsLe_trans [OF rootsLe_pureNotes
        rootsLe_trans [OF rootsLe_refinementNote rootsLe_refinementNote]]])

lemma rootsLe_truthNotes: "rootsLe r (truthNotes c a ap r)"
  unfolding truthNotes_def
  by (auto intro: rootsLe_refinementNote rootsLe_trans [OF rootsLe_refinementNote rootsLe_pureNotes])

lemma rootsLe_refineNotes: "rootsLe r (refineNotes c cond b ap env r)"
  by (induction c cond b ap env r rule: refineNotes.induct)
    (auto simp: rootsLe_cmpNotes rootsLe_truthNotes intro: rootsLe_trans)

lemma noted_refineCmp:
  assumes "noted r env" "okE l" "okE rr" shows "noted (cmpNotes c cop l rr ap r) (refineCmp c cop l rr b ap env)"
proof (cases "cop \<in> set CMP_OPS \<and> is_f64_type (ety l) \<and> is_f64_type (ety rr) \<and> isPure l \<and> isPure rr")
  case False
  then show ?thesis using assms(1) by (auto simp: refineCmp_def cmpNotes_def)
next
  case True
  let ?r1 = "pureNotes c rr (pureNotes c l r)"
  have n: "cmpNotes c cop l rr ap r = refinementNote c rr ap (refinementNote c l ap ?r1)" using True by (simp add: cmpNotes_def)
  have le: "rootsLe r (cmpNotes c cop l rr ap r)" by (rule rootsLe_cmpNotes)
  have "noted (cmpNotes c cop l rr ap r) (setKey (refinementKey c l ap) v env)" for v
    using noted_le [OF assms(1) le] _ assms(2)
    by (rule noted_setKey [where ?r0.0 = ?r1]) (simp add: n rootsLe_refinementNote)
  then have "noted (cmpNotes c cop l rr ap r) (setKey (refinementKey c rr ap) w (setKey (refinementKey c l ap) v env))" for v w
    using _ assms(3) by (rule noted_setKey [where ?r0.0 = "refinementNote c l ap ?r1"]) (simp add: n)
  then show ?thesis using True by (simp add: refineCmp_def Let_def)
qed

lemma noted_refineTruth:
  assumes "noted r env" "okE a" shows "noted (truthNotes c a ap r) (refineTruth c a b ap env)"
proof (cases "is_f64_type (ety a) \<and> isPure a \<and> refinementKey c a ap \<noteq> None")
  case False
  then show ?thesis using assms(1) noted_le [OF assms(1) rootsLe_truthNotes]
    by (auto simp: refineTruth_def split: option.splits)
next
  case True
  then obtain k where k: "refinementKey c a ap = Some k" by auto
  have "noted (truthNotes c a ap r) (setKey (refinementKey c a ap) v env)" for v
    using noted_le [OF assms(1) rootsLe_truthNotes] _ assms(2)
    by (rule noted_setKey [where ?r0.0 = r]) (use True in \<open>simp add: truthNotes_def rootsLe_pureNotes\<close>)
  then show ?thesis using True k by (simp add: refineTruth_def Let_def setKey_def)
qed

lemma noted_refine:
  "okE cond \<Longrightarrow> noted r env \<Longrightarrow> refine c cond b ap (Some env) = Some env' \<Longrightarrow> noted (refineNotes c cond b ap (Some env) r) env'"
proof (induction c cond b ap "Some env" arbitrary: env env' r rule: refine.induct)
  case (4 c isAnd l rr ty lc b ap env)
  show ?case
  proof (cases "isAnd = b")
    case True
    then obtain e1 where e1: "refine c l b ap (Some env) = Some e1" using "4.prems"(3) by (cases "refine c l b ap (Some env)") auto
    then show ?thesis using "4.hyps"(1) [OF True] "4.hyps"(2) [OF True e1] "4.prems" True by simp
  next
    case False
    let ?n1 = "refineNotes c l b ap (Some env) r" and ?n = "refineNotes c (Logical isAnd l rr ty lc) b ap (Some env) r"
    have le1: "rootsLe ?n1 ?n" using False by (simp add: rootsLe_trans [OF rootsLe_refineNotes rootsLe_refineNotes])
    have a: "noted ?n a" if "refine c l b ap (Some env) = Some a" for a
      using "4.hyps"(3) [OF False _ "4.prems"(2) that] "4.prems"(1) le1 by (auto intro: noted_le)
    have bb: "noted ?n a" if x: "refine c rr b ap (refine c l (\<not> b) ap (Some env)) = Some a" for a
    proof -
      obtain e1 where e1: "refine c l (\<not> b) ap (Some env) = Some e1" using x by (cases "refine c l (\<not> b) ap (Some env)") auto
      have "noted (refineNotes c l (\<not> b) ap (Some env) ?n1) e1"
        using "4.hyps"(4) [OF False] "4.prems"(1,2) e1 noted_le [OF _ rootsLe_refineNotes] by auto
      then show ?thesis using "4.hyps"(5) [OF False e1] x e1 "4.prems"(1) False by simp
    qed
    show ?thesis using "4.prems"(3) False a bb by (auto intro: noted_join)
  qed
next
  case (5 c cop l rr ty lc b ap env)
  then show ?case using noted_refineCmp by auto
next
  case (6 c a ty lc b ap env)
  then show ?case using noted_refineTruth by auto
qed (auto split: if_splits)

section \<open>The analyzer's state\<close>

definition grows :: "AState \<Rightarrow> AState \<Rightarrow> bool" where
  "grows st st' \<longleftrightarrow> rootsLe (a_roots st) (a_roots st')"

definition has :: "AState \<Rightarrow> Env \<Rightarrow> bool" where
  "has st env \<longleftrightarrow> noted (a_roots st) env"

definition frameNoted :: "AState \<Rightarrow> LoopFrame \<Rightarrow> bool" where
  "frameNoted st f \<longleftrightarrow> (\<forall>e \<in> set (fr_breaks f) \<union> set (fr_continues f). has st e)"

definition framesNoted :: "AState \<Rightarrow> bool" where
  "framesNoted st \<longleftrightarrow> (\<forall>f \<in> set (a_frames st). frameNoted st f)"

lemma grows_refl [simp]: "grows st st"
  by (simp add: grows_def)

lemma grows_trans [trans]: "grows a b \<Longrightarrow> grows b d \<Longrightarrow> grows a d"
  by (auto simp: grows_def intro: rootsLe_trans)

lemma has_grows: "has st env \<Longrightarrow> grows st st' \<Longrightarrow> has st' env"
  by (auto simp: has_def grows_def intro: noted_le)

lemma frameNoted_grows: "frameNoted st f \<Longrightarrow> grows st st' \<Longrightarrow> frameNoted st' f"
  by (auto simp: frameNoted_def intro: has_grows)

lemma has_simps [simp]:
  "has st (clearPathFacts env)" "idOk x \<Longrightarrow> has st env \<Longrightarrow> has st (envSet env x v)" "has st env \<Longrightarrow> has st (havocAllGlobals env)"
  "has st env \<Longrightarrow> has st (havocCall c f env)" "idOk x \<Longrightarrow> has st env \<Longrightarrow> has st (bindVar c x v env st')"
  by (simp_all add: has_def noted_envSet noted_havoc noted_havocCall noted_bindVar)

lemma has_join: "joinEnv A B = Some e \<Longrightarrow> (\<And>a. A = Some a \<Longrightarrow> has st a) \<Longrightarrow> (\<And>b. B = Some b \<Longrightarrow> has st b) \<Longrightarrow> has st e"
  unfolding has_def by (rule noted_join)

lemma has_joinAll: "joinAll A bs = Some e \<Longrightarrow> (\<And>a. A = Some a \<Longrightarrow> has st a) \<Longrightarrow> (\<And>b. b \<in> set bs \<Longrightarrow> has st b) \<Longrightarrow> has st e"
proof (induction bs arbitrary: A)
  case (Cons b bs)
  have "has st a" if "joinEnv A (Some b) = Some a" for a using has_join [OF that] Cons.prems(2,3) by auto
  then show ?case using Cons by (auto simp: joinAll_def)
qed (simp add: joinAll_def)

lemma has_merge: "has st env \<Longrightarrow> (\<And>e. src = Some e \<Longrightarrow> has st e) \<Longrightarrow> has st (mergeInto env src)"
  by (auto simp: mergeInto_def split: option.splits)

lemma has_collect [simp]: "has (st\<lparr>a_collect := b\<rparr>) env = has st env" "framesNoted (st\<lparr>a_collect := b\<rparr>) = framesNoted st"
  "grows st (st'\<lparr>a_collect := b\<rparr>) = grows st st'" "grows (st\<lparr>a_collect := b\<rparr>) st' = grows st st'"
  by (simp_all add: has_def framesNoted_def frameNoted_def grows_def)

text \<open>Steps that leave the frames alone.\<close>

definition advances :: "AState \<Rightarrow> AState \<Rightarrow> bool" where
  "advances st st' \<longleftrightarrow> grows st st' \<and> (framesNoted st \<longrightarrow> framesNoted st')"

lemma advances_refl [simp]: "advances st st"
  by (simp add: advances_def)

lemma advances_trans [trans]: "advances a b \<Longrightarrow> advances b d \<Longrightarrow> advances a d"
  by (auto simp: advances_def intro: grows_trans)

lemma has_steps: "has st env \<Longrightarrow> advances st st' \<Longrightarrow> has st' env"
  by (auto simp: advances_def intro: has_grows)

lemma advances_frames: "a_frames st' = a_frames st \<Longrightarrow> grows st st' \<Longrightarrow> advances st st'"
  by (auto simp: advances_def framesNoted_def intro: frameNoted_grows)

lemma advances_emitV [simp]: "advances st (emitV c v path cls loc st)"
  by (rule advances_frames) (simp_all add: emitV_def grows_def)

lemma advances_setRoots: "rootsLe (a_roots st) r \<Longrightarrow> advances st (setRoots r st)"
  by (rule advances_frames) (simp_all add: setRoots_def grows_def)

lemma advances_push: "advances st (pushFrame k ls st)"
  by (simp add: advances_def framesNoted_def frameNoted_def pushFrame_def newFrame_def grows_def has_def)

lemma advances_pop: "popFrame st = (f, st') \<Longrightarrow> a_frames st \<noteq> [] \<Longrightarrow> advances st st' \<and> (framesNoted st \<longrightarrow> frameNoted st' f)"
  by (cases "a_frames st") (auto simp: popFrame_def advances_def framesNoted_def frameNoted_def grows_def has_def)

lemma advances_jump: assumes "has st env" shows "advances st (st\<lparr> a_frames := jumpTo label k env (a_frames st) \<rparr>)"
proof -
  have "\<forall>f \<in> set (jumpTo label k env fs). frameNoted st f" if "\<forall>f \<in> set fs. frameNoted st f" for fs
    using that assms by (induction fs) (auto simp: addJump_def frameNoted_def)
  then show ?thesis by (auto simp: advances_def framesNoted_def frameNoted_def grows_def has_def)
qed

lemma advances_refineSt:
  assumes "okE cond" "refineSt c cond b ap env st = (e, st')"
  shows "advances st st' \<and> (\<forall>env'. has st env \<longrightarrow> e = Some env' \<longrightarrow> has st' env')"
  using assms noted_refine [OF assms(1)] advances_setRoots [OF rootsLe_refineNotes]
  by (auto simp: refineSt_def has_def setRoots_def)

lemma advances_refineBoth:
  assumes "okE cond" "refineBoth c cond env st = (t, e, st')" "has st env"
  shows "advances st st' \<and> (\<forall>env'. t = Some env' \<longrightarrow> has st' env') \<and> (\<forall>env'. e = Some env' \<longrightarrow> has st' env')"
proof -
  obtain st1 where 1: "refineSt c cond True (stablePathGuard cond) env st = (t, st1)"
    and 2: "refineSt c cond False (stablePathGuard cond) env st1 = (e, st')"
    using assms(2) by (auto simp: refineBoth_def Let_def split: prod.splits)
  note s1 = advances_refineSt [OF assms(1) 1] and s2 = advances_refineSt [OF assms(1) 2]
  then show ?thesis using assms(3) by (auto intro: advances_trans has_steps)
qed

section \<open>Evaluators that register\<close>

text \<open>The state is registered throughout, for the environment at hand.\<close>

definition inStep :: "AState \<Rightarrow> Env \<Rightarrow> bool" where
  "inStep st env \<longleftrightarrow> has st env \<and> framesNoted st"

definition notesE :: "EvalF \<Rightarrow> bool" where
  "notesE f \<longleftrightarrow> (\<forall>c env st v env' st'. f c env st = (v, env', st') \<longrightarrow> inStep st env \<longrightarrow> advances st st' \<and> inStep st' env')"

definition notesS :: "ExecF \<Rightarrow> bool" where
  "notesS f \<longleftrightarrow> (\<forall>c env st r env' st'. f c env st = (r, env', st') \<longrightarrow> inStep st env \<longrightarrow>
     advances st st' \<and> inStep st' env' \<and> (\<forall>e. resEnv r env' = Some e \<longrightarrow> inStep st' e))"

lemma notesEI: "(\<And>c env st v env' st'. f c env st = (v, env', st') \<Longrightarrow> inStep st env \<Longrightarrow> advances st st' \<and> inStep st' env') \<Longrightarrow> notesE f"
  by (auto simp: notesE_def)

lemma notesED: "notesE f \<Longrightarrow> f c env st = (v, env', st') \<Longrightarrow> inStep st env \<Longrightarrow> advances st st' \<and> inStep st' env'"
  by (auto simp: notesE_def)

lemma notesSI:
  "(\<And>c env st r env' st'. f c env st = (r, env', st') \<Longrightarrow> inStep st env \<Longrightarrow>
     advances st st' \<and> inStep st' env' \<and> (\<forall>e. resEnv r env' = Some e \<longrightarrow> inStep st' e)) \<Longrightarrow> notesS f"
  by (auto simp: notesS_def)

lemma notesSD:
  "notesS f \<Longrightarrow> f c env st = (r, env', st') \<Longrightarrow> inStep st env \<Longrightarrow>
     advances st st' \<and> inStep st' env' \<and> (\<forall>e. resEnv r env' = Some e \<longrightarrow> inStep st' e)"
  by (auto simp: notesS_def)

lemma inStep_steps: "inStep st env \<Longrightarrow> advances st st' \<Longrightarrow> inStep st' env"
  by (auto simp: inStep_def advances_def intro: has_grows)

lemma inStep_simps [simp]:
  "inStep st env \<Longrightarrow> inStep st (clearPathFacts env)" "idOk x \<Longrightarrow> inStep st env \<Longrightarrow> inStep st (envSet env x v)"
  "inStep st env \<Longrightarrow> inStep st (havocAllGlobals env)" "inStep st env \<Longrightarrow> inStep st (havocCall c f env)"
  "idOk x \<Longrightarrow> inStep st env \<Longrightarrow> inStep st (bindVar c x v env st')"
  by (simp_all add: inStep_def)

lemma notes_evalAll: "evalAll fs c env st = (vs, env', st') \<Longrightarrow> list_all notesE fs \<Longrightarrow> inStep st env \<Longrightarrow> advances st st' \<and> inStep st' env'"
proof (induction fs arbitrary: env st vs env' st')
  case (Cons f fs)
  obtain v e1 st1 where f: "f c env st = (v, e1, st1)" by (cases "f c env st")
  obtain vs' where r: "evalAll fs c e1 st1 = (vs', env', st')" using Cons.prems(1) f by (auto split: prod.splits)
  have nf: "notesE f" using Cons.prems(2) by simp
  have "advances st st1 \<and> inStep st1 e1" using notesED [OF nf f] Cons.prems(3) .
  then show ?case using Cons.IH [OF r] Cons.prems(2) by (auto intro: advances_trans)
qed auto

lemma notes_execSeq:
  "execSeq fs c same cur obj st = (r, obj', st') \<Longrightarrow> list_all notesS fs \<Longrightarrow> inStep st cur \<Longrightarrow> inStep st obj \<Longrightarrow> (same \<Longrightarrow> cur = obj) \<Longrightarrow>
     advances st st' \<and> inStep st' obj' \<and> (\<forall>e. resEnv r obj' = Some e \<longrightarrow> inStep st' e)"
proof (induction fs arbitrary: same cur obj st)
  case (Cons f fs)
  obtain r1 cur1 st1 where f: "f c cur st = (r1, cur1, st1)" by (cases "f c cur st")
  have nf: "notesS f" using Cons.prems(2) by simp
  have n: "advances st st1" "inStep st1 cur1" "\<And>e. resEnv r1 cur1 = Some e \<Longrightarrow> inStep st1 e"
    using notesSD [OF nf f Cons.prems(3)] by auto
  have o: "inStep st1 (if same then cur1 else obj)" using n(1,2) Cons.prems(4) by (auto intro: inStep_steps)
  show ?case
  proof (cases r1)
    case Null
    then show ?thesis using Cons.prems(1) n o by (auto simp: f Let_def)
  next
    case Same
    then have "execSeq fs c same cur1 (if same then cur1 else obj) st1 = (r, obj', st')" using Cons.prems(1) by (simp add: f Let_def)
    from Cons.IH [OF this _ n(2) o] Cons.prems(2) n(1) show ?thesis by (auto intro: advances_trans)
  next
    case (Fresh e)
    then have "execSeq fs c False e (if same then cur1 else obj) st1 = (r, obj', st')" using Cons.prems(1) by (simp add: f Let_def)
    from Cons.IH [OF this _ _ o] Cons.prems(2) n(1,3) Fresh show ?thesis by (auto intro: advances_trans)
  qed
qed (auto split: if_splits)

lemma notes_execStmts:
  "execStmts fs c env st = (out, st') \<Longrightarrow> list_all notesS fs \<Longrightarrow> inStep st env \<Longrightarrow>
    advances st st' \<and> framesNoted st' \<and> (\<forall>e. out = Some e \<longrightarrow> inStep st' e)"
  unfolding execStmts_def by (auto split: prod.splits dest!: notes_execSeq simp: inStep_def)

lemma notes_execOpt:
  "execOpt fs c env st = (out, st') \<Longrightarrow> list_all notesS fs \<Longrightarrow> framesNoted st \<Longrightarrow> (\<And>e. env = Some e \<Longrightarrow> has st e) \<Longrightarrow>
    advances st st' \<and> framesNoted st' \<and> (\<forall>e. out = Some e \<longrightarrow> inStep st' e)"
  unfolding execOpt_def by (cases env) (auto dest!: notes_execStmts simp: inStep_def)

lemma notes_evalOpt:
  "evalOpt f c env st = (v, out, st') \<Longrightarrow> notesE f \<Longrightarrow> framesNoted st \<Longrightarrow> (\<And>e. env = Some e \<Longrightarrow> has st e) \<Longrightarrow>
    advances st st' \<and> framesNoted st' \<and> (\<forall>e. out = Some e \<longrightarrow> inStep st' e)"
  unfolding evalOpt_def by (cases env) (auto split: prod.splits dest!: notesED [rotated] simp: inStep_def)

lemma advances_emitArgs: "advances st (emitArgs c slots i vs st)"
proof (induction c slots i vs st rule: emitArgs.induct)
  case (2 c slots i v loc rest st)
  then show ?case by (auto split: option.splits intro: advances_trans [OF advances_emitV])
qed auto

lemma notes_evalFields:
  "evalFields c slots fs env st = (env', st') \<Longrightarrow> list_all (\<lambda>(_, _, _, f). notesE f) fs \<Longrightarrow> inStep st env \<Longrightarrow> advances st st' \<and> inStep st' env'"
proof (induction c slots fs env st rule: evalFields.induct)
  case (2 c slots n ty loc f fs env st)
  obtain v e1 st1 where f: "f c env st = (v, e1, st1)" by (cases "f c env st")
  let ?st2 = "case map_of slots n of Some slot \<Rightarrow> if is_f64_type ty then emitV c v (rs_path slot) (rs_cls slot) loc st1 else st1 | None \<Rightarrow> st1"
  have nf: "notesE f" using 2(3) by simp
  have s1: "advances st st1 \<and> inStep st1 e1" using notesED [OF nf f 2(4)] .
  have s2: "advances st1 ?st2" by (auto split: option.splits)
  have "inStep ?st2 e1" using s1 s2 by (blast intro: inStep_steps)
  then have "advances ?st2 st' \<and> inStep st' env'" using 2 f by simp
  then show ?case using s1 s2 by (blast intro: advances_trans)
qed auto

section \<open>The combinators\<close>

named_theorems notes_intros

lemma notesE_const [notes_intros]: "notesE (\<lambda>c env st. (v c env, env, st))"
  by (auto simp: notesE_def)

lemma notesE_two:
  assumes "notesE f" "notesE g"
  shows "notesE (\<lambda>c env st. case f c env st of (x, env, st) \<Rightarrow> case g c env st of (y, env, st) \<Rightarrow> (h c x y, env, st))"
  by (rule notesEI) (auto split: prod.splits dest!: notesED [OF assms(1)] notesED [OF assms(2)] intro: advances_trans)

lemma notesE_one: "notesE f \<Longrightarrow> notesE (\<lambda>c env st. case f c env st of (x, env, st) \<Rightarrow> (h c x, env, st))"
  by (rule notesEI) (auto split: prod.splits dest: notesED)

lemma notesE_bind:
  "idOk x \<Longrightarrow> notesE f \<Longrightarrow> notesE (\<lambda>c env st. case f c env st of (v, env, st) \<Rightarrow> (v, bindVar c x v env st, st))"
  by (rule notesEI) (auto split: prod.splits dest!: notesED [rotated])

lemma notesE_evalIncDec [notes_intros]: "idOk x \<Longrightarrow> notesE (evalIncDec p q x)"
  by (rule notesEI) (auto simp: evalIncDec_def Let_def)

lemma notesE_evalKids [notes_intros]:
  "list_all notesE fs \<Longrightarrow> (\<And>st env. inStep st env \<Longrightarrow> inStep st (h env)) \<Longrightarrow> notesE (evalKids h fs)"
  by (rule notesEI) (auto simp: evalKids_def split: prod.splits dest!: notes_evalAll)

lemma notesE_evalMath [notes_intros]: "list_all notesE fs \<Longrightarrow> notesE (evalMath m fs)"
  by (rule notesEI) (auto simp: evalMath_def split: prod.splits dest!: notes_evalAll)

lemma notesE_evalCall [notes_intros]: assumes "list_all notesE fs" shows "notesE (evalCall callee locs fs)"
proof (rule notesEI)
  fix c env st v env' st'
  assume x: "evalCall callee locs fs c env st = (v, env', st')" and i: "inStep st env"
  obtain vs e1 st1 where a: "evalAll fs c env st = (vs, e1, st1)" by (cases "evalAll fs c env st")
  have s1: "advances st st1 \<and> inStep st1 e1" using notes_evalAll [OF a assms i] .
  moreover have "advances st1 st'" "env' = havocCall c callee e1"
    using x by (auto simp: evalCall_def a Let_def advances_emitArgs split: option.splits)
  moreover have "inStep st' e1" using s1 calculation(2) by (blast intro: inStep_steps)
  ultimately show "advances st st' \<and> inStep st' env'" by (auto intro: advances_trans)
qed

lemma notesE_evalRecordGet [notes_intros]: assumes "notesE f" shows "notesE (evalRecordGet e shape field ty f)"
  by (rule notesEI)
    (auto simp: evalRecordGet_def split: prod.splits option.splits if_splits dest!: notesED [OF assms]
      intro: advances_trans [OF _ advances_setRoots [OF rootsLe_noteRoot]] inStep_steps [OF _ advances_setRoots [OF rootsLe_noteRoot]])

lemma inStep_join:
  "joinEnv A B = Some e \<Longrightarrow> framesNoted st \<Longrightarrow> (\<And>a. A = Some a \<Longrightarrow> inStep st a) \<Longrightarrow> (\<And>b. B = Some b \<Longrightarrow> inStep st b) \<Longrightarrow> inStep st e"
  by (auto simp: inStep_def intro: has_join)

lemma inStep_joinAll:
  "joinAll A bs = Some e \<Longrightarrow> framesNoted st \<Longrightarrow> (\<And>a. A = Some a \<Longrightarrow> has st a) \<Longrightarrow> (\<And>b. b \<in> set bs \<Longrightarrow> has st b) \<Longrightarrow> inStep st e"
  by (auto simp: inStep_def intro: has_joinAll)

lemma inStep_merge: "inStep st env \<Longrightarrow> (\<And>e. src = Some e \<Longrightarrow> inStep st e) \<Longrightarrow> inStep st (mergeInto env src)"
  by (auto simp: mergeInto_def split: option.splits)

lemma notesE_evalShort [notes_intros]: assumes "notesE f" "notesE g" shows "notesE (evalShort f g)"
proof (rule notesEI)
  fix c env st v env' st'
  assume x: "evalShort f g c env st = (v, env', st')" and i: "inStep st env"
  obtain v1 e1 st1 where a: "f c env st = (v1, e1, st1)" by (cases "f c env st")
  obtain v2 e2 where b: "g c e1 st1 = (v2, e2, st')" and e: "env' = mergeInto e1 (joinEnv (Some e1) (Some e2))"
    using x by (auto simp: evalShort_def a split: prod.splits)
  note s1 = notesED [OF assms(1) a i]
  then have s2: "advances st1 st' \<and> inStep st' e2" using notesED [OF assms(2) b] by blast
  have "inStep st' e1" using s1 s2 by (blast intro: inStep_steps)
  then have "inStep st' env'" using s2 unfolding e by (simp add: mergeInto_def inStep_def)
  then show "advances st st' \<and> inStep st' env'" using s1 s2 by (blast intro: advances_trans)
qed

lemma notesE_evalSeq [notes_intros]: assumes "list_all notesS fs" "notesE g" shows "notesE (evalSeq fs g)"
proof (rule notesEI)
  fix c env st v env' st'
  assume x: "evalSeq fs g c env st = (v, env', st')" and i: "inStep st env"
  obtain r obj st1 where a: "execSeq fs c True env env st = (r, obj, st1)" by (cases "execSeq fs c True env env st")
  have s1: "advances st st1 \<and> inStep st1 obj \<and> (\<forall>e. resEnv r obj = Some e \<longrightarrow> inStep st1 e)"
    using notes_execSeq [OF a assms(1) i i] by simp
  then show "advances st st' \<and> inStep st' env'"
    using x by (auto simp: evalSeq_def a split: option.splits dest!: notesED [OF assms(2)] intro: advances_trans)
qed

lemma notesE_evalTernary [notes_intros]:
  assumes "notesE f" "notesE g" "notesE h" "okE e" shows "notesE (evalTernary e f g h)"
proof (rule notesEI)
  fix c env st v env' st'
  assume x: "evalTernary e f g h c env st = (v, env', st')" and i: "inStep st env"
  obtain v1 e1 st1 t d st2 va t' st3 vb d' where
    a: "f c env st = (v1, e1, st1)" and r: "refineBoth c e e1 st1 = (t, d, st2)" and
    b: "evalOpt g c t st2 = (va, t', st3)" and q: "evalOpt h c d st3 = (vb, d', st')" and e: "env' = mergeInto e1 (joinEnv t' d')"
    using x by (auto simp: evalTernary_def split: prod.splits)
  note s1 = notesED [OF assms(1) a i]
  then have s2: "advances st1 st2" "\<And>env. t = Some env \<Longrightarrow> has st2 env" "\<And>env. d = Some env \<Longrightarrow> has st2 env" "framesNoted st2"
    using advances_refineBoth [OF assms(4) r] by (auto simp: inStep_def advances_def)
  note s3 = notes_evalOpt [OF b assms(2) s2(4,2)]
  have "\<And>env. d = Some env \<Longrightarrow> has st3 env" using s2(3) s3 by (blast intro: has_steps)
  note s4 = notes_evalOpt [OF q assms(3) _ this]
  have "inStep st' e1" using s1 s2(1) s3 s4 by (blast intro: inStep_steps)
  moreover have "inStep st' z" if "joinEnv t' d' = Some z" for z
    using that s3 s4 by (auto intro!: inStep_join [OF that] intro: inStep_steps)
  ultimately have "inStep st' env'" unfolding e by (rule inStep_merge)
  then show "advances st st' \<and> inStep st' env'" using s1 s2(1) s3 s4 by (blast intro: advances_trans)
qed

subsection \<open>Loops\<close>

definition notesOpts :: "LoopOpts \<Rightarrow> bool" where
  "notesOpts opts \<longleftrightarrow> pred_option (\<lambda>(e, f). okE e \<and> notesE f) (lo_cond opts) \<and> list_all notesS (lo_body opts) \<and>
     pred_option notesS (lo_update opts) \<and> list_all keepsS (lo_body opts) \<and> pred_option idOk (lo_seed opts)"

lemma notes_loopEntry:
  assumes "loopEntry c opts head st = (e, st')" "notesOpts opts" "inStep st head"
  shows "advances st st' \<and> framesNoted st' \<and> (\<forall>env. e = Some env \<longrightarrow> has st' env)"
proof -
  obtain e1 where 1: "(case lo_cond opts of Some (e, f) \<Rightarrow> if lo_doWhile opts then (Some head, st)
      else (case f c head st of (_, env, st) \<Rightarrow> refineSt c e True False env st) | None \<Rightarrow> (Some head, st)) = (e1, st')"
    and e: "e = (case lo_seed opts of None \<Rightarrow> e1 | Some x \<Rightarrow> map_option (\<lambda>env. envSet env x TOP) e1)"
    using assms(1) unfolding loopEntry_def Let_def by (auto split: prod.splits)
  have s: "advances st st' \<and> framesNoted st' \<and> (\<forall>env. e1 = Some env \<longrightarrow> has st' env)"
  proof (cases "lo_cond opts")
    case None
    then show ?thesis using 1 assms(3) by (auto simp: inStep_def)
  next
    case (Some p)
    obtain cond f where p: "p = (cond, f)" by (cases p)
    have ok: "okE cond" "notesE f" using assms(2) Some p by (auto simp: notesOpts_def)
    show ?thesis
    proof (cases "lo_doWhile opts")
      case True
      then show ?thesis using 1 assms(3) Some p by (auto simp: inStep_def)
    next
      case False
      obtain v env1 st1 where f: "f c head st = (v, env1, st1)" by (cases "f c head st")
      note s1 = notesED [OF ok(2) f assms(3)]
      have "refineSt c cond True False env1 st1 = (e1, st')" using 1 Some p False f by simp
      from advances_refineSt [OF ok(1) this] s1 show ?thesis by (auto simp: inStep_def advances_def intro: grows_trans)
    qed
  qed
  then show ?thesis using e assms(2) by (cases "lo_seed opts") (auto simp: notesOpts_def)
qed

lemma notes_loopUpdate:
  assumes "loopUpdate c opts out st = (e, st')" "notesOpts opts" "framesNoted st" "\<And>env. out = Some env \<Longrightarrow> has st env"
  shows "advances st st' \<and> framesNoted st' \<and> (\<forall>env. e = Some env \<longrightarrow> has st' env)"
proof (cases "lo_update opts")
  case None
  then show ?thesis using assms by (auto simp: loopUpdate_def)
next
  case (Some u)
  then have u: "notesS u" using assms(2) by (simp add: notesOpts_def)
  show ?thesis using assms(1,3,4) Some
    by (auto simp: loopUpdate_def inStep_def split: option.splits prod.splits dest!: notesSD [OF u])
qed

lemma notes_loopBack:
  assumes "loopBack c opts out st = (e, pb, st')" "notesOpts opts" "framesNoted st" "\<And>env. out = Some env \<Longrightarrow> has st env"
  shows "advances st st' \<and> framesNoted st' \<and> (\<forall>env. e = Some env \<longrightarrow> has st' env) \<and> (\<forall>env. pb = Some env \<longrightarrow> has st' env)"
proof (cases "lo_doWhile opts \<and> lo_cond opts \<noteq> None \<and> out \<noteq> None")
  case False
  then show ?thesis using assms by (auto simp: loopBack_def split: option.splits if_splits)
next
  case True
  then obtain cond g env where t: "lo_cond opts = Some (cond, g)" "out = Some env" "lo_doWhile opts" by auto
  have ok: "okE cond" "notesE g" using assms(2) t by (auto simp: notesOpts_def)
  obtain v env1 st1 where g: "g c env st = (v, env1, st1)" by (cases "g c env st")
  have s1: "advances st st1 \<and> inStep st1 env1" using notesED [OF ok(2) g] assms(3,4) t by (simp add: inStep_def)
  have r: "refineSt c cond True False env1 st1 = (e, st')" "pb = Some env1"
    using assms(1) t g by (auto simp: loopBack_def split: prod.splits)
  from advances_refineSt [OF ok(1) r(1)] s1 r(2) show ?thesis by (auto simp: inStep_def advances_def intro: grows_trans has_grows)
qed

lemma notes_runLoopBodyOnce:
  assumes "runLoopBodyOnce c opts head st = (bk, pb, f, st')" "notesOpts opts" "inStep st head"
  shows "advances st st' \<and> framesNoted st' \<and> frameNoted st' f \<and> (\<forall>e. bk = Some e \<longrightarrow> inStep st' e) \<and> (\<forall>e. pb = Some e \<longrightarrow> inStep st' e)"
proof -
  obtain bodyIn st1 out st2 st3 out' st4 where
    e: "loopEntry c opts head st = (bodyIn, st1)" and
    b: "execOpt (lo_body opts) c bodyIn (pushFrame LoopF (lo_labels opts) st1) = (out, st2)" and
    p: "popFrame st2 = (f, st3)" and
    u: "loopUpdate c opts (joinAll out (fr_continues f)) st3 = (out', st4)" and
    l: "loopBack c opts out' st4 = (bk, pb, st')"
    using assms(1) unfolding runLoopBodyOnce_def by (auto split: prod.splits)
  have lb: "list_all notesS (lo_body opts)" "list_all keepsS (lo_body opts)" using assms(2) by (auto simp: notesOpts_def)
  note s1 = notes_loopEntry [OF e assms(2,3)]
  let ?p = "pushFrame LoopF (lo_labels opts) st1"
  have fp: "framesNoted ?p" "\<And>env. bodyIn = Some env \<Longrightarrow> has ?p env"
    using s1 advances_push [of st1] by (auto simp: advances_def intro: has_grows)
  note s2 = notes_execOpt [OF b lb(1) fp]
  have ne: "a_frames st2 \<noteq> []" using keeps_execOpt [OF lb(2) b] by (auto simp: keeps_def pushFrame_def list_all2_Cons1)
  have s3: "advances st2 st3" "frameNoted st3 f" "framesNoted st3" using advances_pop [OF p ne] s2 by (auto simp: advances_def)
  have j: "has st3 env" if "joinAll out (fr_continues f) = Some env" for env
    by (rule has_joinAll [OF that]) (use s2 s3 in \<open>auto simp: inStep_def frameNoted_def intro: has_steps\<close>)
  note s4 = notes_loopUpdate [OF u assms(2) s3(3) j]
  note s5 = notes_loopBack [OF l assms(2), OF s4 [THEN conjunct2, THEN conjunct1]]
  have s5': "advances st4 st' \<and> framesNoted st' \<and> (\<forall>env. bk = Some env \<longrightarrow> has st' env) \<and> (\<forall>env. pb = Some env \<longrightarrow> has st' env)"
    using s4 s5 by blast
  have "advances st st'" using s1 s2 s3(1) s4 s5' advances_push [of st1] by (meson advances_trans)
  moreover have "frameNoted st' f" using s3(2) s4 s5' by (auto simp: advances_def intro: frameNoted_grows)
  ultimately show ?thesis using s5' by (auto simp: inStep_def)
qed

lemma advances_collect: "advances st (st\<lparr>a_collect := b\<rparr>)" "advances (st\<lparr>a_collect := b\<rparr>) st' = advances st st'"
  by (simp_all add: advances_def)

text \<open>A header holds no path facts, so it is registered whatever the state.\<close>

definition noPaths :: "Env \<Rightarrow> bool" where
  "noPaths env \<longleftrightarrow> (\<forall>k \<in> fst ` set env. pathClassOfKey k = None)"

lemma noPaths_clear [simp]: "noPaths (clearPathFacts env)"
  by (auto simp: noPaths_def clearPathFacts_def)

lemma noPaths_has: "noPaths env \<Longrightarrow> has st env"
  by (fastforce simp: noPaths_def has_def noted_def)

lemma noPaths_next:
  "noPaths head \<Longrightarrow> noPaths (case joinEnv (Some head) bk of Some e \<Rightarrow> e | None \<Rightarrow> head)" "noPaths (widenEnv a b)"
  "noPaths env \<Longrightarrow> noPaths (map (\<lambda>(k, _). (k, v)) env)"
proof -
  show "noPaths head \<Longrightarrow> noPaths (case joinEnv (Some head) bk of Some e \<Rightarrow> e | None \<Rightarrow> head)" by (cases bk) simp_all
  show "noPaths (widenEnv a b)" by (simp add: widenEnv_def)
  show "noPaths env \<Longrightarrow> noPaths (map (\<lambda>(k, _). (k, v)) env)" by (auto simp: noPaths_def)
qed

lemma notes_fixHead:
  "fixHead c opts n head st = (head', st') \<Longrightarrow> notesOpts opts \<Longrightarrow> noPaths head \<Longrightarrow> framesNoted st \<Longrightarrow>
    advances st st' \<and> framesNoted st' \<and> noPaths head'"
proof (induction n arbitrary: head st)
  case (Suc n)
  obtain bk pb f st1 where b: "runLoopBodyOnce c opts head st = (bk, pb, f, st1)" by (cases "runLoopBodyOnce c opts head st")
  have s1: "advances st st1" "framesNoted st1"
    using notes_runLoopBodyOnce [OF b Suc.prems(2)] Suc.prems(3,4) noPaths_has by (auto simp: inStep_def)
  define nxt where "nxt = (let e = (case joinEnv (Some head) bk of Some e \<Rightarrow> e | None \<Rightarrow> head) in if LOOP_CAP - n > WIDEN_AFTER then widenEnv head e else e)"
  have np: "noPaths nxt" using noPaths_next(1,2) Suc.prems(3) by (simp add: nxt_def Let_def)
  have unf: "fixHead c opts (Suc n) head st = (if envEquals head nxt then (head, st1)
      else if n = 0 then (map (\<lambda>(k, _). (k, TOP)) nxt, st1) else fixHead c opts n nxt st1)"
    by (simp add: b nxt_def Let_def)
  have res: "(if envEquals head nxt then (head, st1)
      else if n = 0 then (map (\<lambda>(k, _). (k, TOP)) nxt, st1) else fixHead c opts n nxt st1) = (head', st')"
    using Suc.prems(1) unfolding unf .
  show ?case
  proof (cases "envEquals head nxt")
    case True
    then show ?thesis using res s1 Suc.prems(3) by simp
  next
    case False
    note res = res [unfolded if_not_P [OF False]]
    show ?thesis
    proof (cases "n = 0")
      case True
      then show ?thesis using res s1 noPaths_next(3) [OF np] by auto
    next
      case n: False
      show ?thesis using Suc.IH [OF res [unfolded if_not_P [OF n]] Suc.prems(2) np s1(2)] s1(1) by (blast intro: advances_trans)
    qed
  qed
qed simp

lemma notes_loopExit:
  assumes "loopExit c opts head pb st = (e, st')" "notesOpts opts" "inStep st head" "\<And>p. pb = Some p \<Longrightarrow> has st p"
  shows "advances st st' \<and> framesNoted st' \<and> (\<forall>env. e = Some env \<longrightarrow> has st' env)"
proof -
  consider "st' = st" "e = None \<or> e = Some head" | (ref) cond g env where "lo_cond opts = Some (cond, g)" "refineSt c cond False False env st = (e, st')" "has st env"
    using assms(1,3,4) by (auto simp: loopExit_def inStep_def split: option.splits if_splits)
  then show ?thesis
  proof cases
    case 1
    then show ?thesis using assms(3) by (auto simp: inStep_def)
  next
    case ref
    then have "okE cond" using assms(2) by (auto simp: notesOpts_def)
    from advances_refineSt [OF this ref(2)] ref(3) assms(3) show ?thesis by (auto simp: advances_def inStep_def)
  qed
qed

lemma resEnv_toRes [simp]: "resEnv (toRes x) obj = x"
  by (cases x) simp_all

lemma notesS_execLoop [notes_intros]: assumes "notesOpts opts" shows "notesS (\<lambda>c. execLoop c opts)"
proof (rule notesSI)
  fix c env st r env' st'
  assume x: "execLoop c opts env st = (r, env', st')" and i: "inStep st env"
  obtain head st1 bk pb f st2 e where
    h: "fixHead c opts LOOP_CAP (clearPathFacts env) (st\<lparr> a_collect := False \<rparr>) = (head, st1)" and
    b: "runLoopBodyOnce c opts head (st1\<lparr> a_collect := a_collect st \<rparr>) = (bk, pb, f, st2)" and
    ex: "loopExit c opts head pb st2 = (e, st')" and
    r: "r = toRes (joinAll e (fr_breaks f))" "env' = clearPathFacts env"
    using x unfolding execLoop_def by (auto simp: Let_def split: prod.splits)
  have s1: "advances st st1" "framesNoted st1" "noPaths head"
    using notes_fixHead [OF h assms] i by (auto simp: inStep_def advances_collect)
  have "inStep (st1\<lparr> a_collect := a_collect st \<rparr>) head" using s1 by (simp add: inStep_def noPaths_has)
  note s2 = notes_runLoopBodyOnce [OF b assms this]
  have "inStep st2 head" using s1(3) s2 by (simp add: inStep_def noPaths_has)
  note s3 = notes_loopExit [OF ex assms this]
  have s3': "advances st2 st' \<and> framesNoted st' \<and> (\<forall>env. e = Some env \<longrightarrow> has st' env)" using s2 s3 by (auto simp: inStep_def)
  have st: "advances st st'" using s1(1) s2 s3' by (auto simp: advances_collect intro: advances_trans)
  have "inStep st' z" if "joinAll e (fr_breaks f) = Some z" for z
    by (rule inStep_joinAll [OF that]) (use s2 s3' in \<open>auto simp: frameNoted_def intro: has_steps\<close>)
  moreover have "inStep st' env'" using s3' r(2) by (simp add: inStep_def)
  ultimately show "advances st st' \<and> inStep st' env' \<and> (\<forall>e. resEnv r env' = Some e \<longrightarrow> inStep st' e)" using st r(1) by simp
qed

subsection \<open>Statements\<close>

lemma notesS_execBind [notes_intros]: "idOk x \<Longrightarrow> notesE f \<Longrightarrow> notesS (execBind x f)"
  by (rule notesSI) (auto simp: execBind_def split: prod.splits dest!: notesED [rotated])

lemma notesS_execIf [notes_intros]:
  assumes "okE e" "notesE f" "list_all notesS ts" "pred_option (list_all notesS) es" shows "notesS (execIf e f ts es)"
proof (rule notesSI)
  fix c env st r env' st'
  assume x: "execIf e f ts es c env st = (r, env', st')" and i: "inStep st env"
  obtain v1 st1 t d st2 a st3 b where
    a: "f c env st = (v1, env', st1)" and rf: "refineBoth c e env' st1 = (t, d, st2)" and
    b: "execOpt ts c t st2 = (a, st3)" and q: "(case es of None \<Rightarrow> (d, st3) | Some es \<Rightarrow> execOpt es c d st3) = (b, st')" and r: "r = toRes (joinEnv a b)"
    using x by (auto simp: execIf_def split: prod.splits)
  note s1 = notesED [OF assms(2) a i]
  then have s2: "advances st1 st2" "\<And>env. t = Some env \<Longrightarrow> has st2 env" "\<And>env. d = Some env \<Longrightarrow> has st2 env" "framesNoted st2"
    using advances_refineBoth [OF assms(1) rf] by (auto simp: inStep_def advances_def)
  note s3 = notes_execOpt [OF b assms(3) s2(4,2)]
  have d: "\<And>env. d = Some env \<Longrightarrow> has st3 env" using s2(3) s3 by (blast intro: has_steps)
  have s4: "advances st3 st' \<and> framesNoted st' \<and> (\<forall>e. b = Some e \<longrightarrow> inStep st' e)"
  proof (cases es)
    case None
    then show ?thesis using q s3 d by (auto simp: inStep_def)
  next
    case (Some es')
    then have "execOpt es' c d st3 = (b, st')" "list_all notesS es'" using q assms(4) by auto
    then show ?thesis using notes_execOpt [of es' c d st3 b st'] s3 d by blast
  qed
  have "inStep st' z" if "joinEnv a b = Some z" for z
    by (rule inStep_join [OF that]) (use s3 s4 in \<open>auto intro: inStep_steps\<close>)
  moreover have "inStep st' env'" using s1 s2(1) s3 s4 by (blast intro: inStep_steps)
  ultimately show "advances st st' \<and> inStep st' env' \<and> (\<forall>e. resEnv r env' = Some e \<longrightarrow> inStep st' e)"
    using r s1 s2(1) s3 s4 by (auto intro: advances_trans)
qed

lemma notesS_execFor [notes_intros]: assumes "pred_option notesS i" "notesOpts opts" shows "notesS (execFor i opts)"
proof (rule notesSI)
  fix c env st r env' st'
  assume x: "execFor i opts c env st = (r, env', st')" and st: "inStep st env"
  note L = notesSD [OF notesS_execLoop [OF assms(2)]]
  show "advances st st' \<and> inStep st' env' \<and> (\<forall>e. resEnv r env' = Some e \<longrightarrow> inStep st' e)"
  proof (cases i)
    case None
    then show ?thesis using x L st by (auto simp: execFor_def)
  next
    case (Some u)
    have u: "notesS u" using assms(1) Some by simp
    obtain r1 env1 st1 where f: "u c env st = (r1, env1, st1)" by (cases "u c env st")
    note s1 = notesSD [OF u f st]
    show ?thesis
    proof (cases r1)
      case Null
      then show ?thesis using x s1 by (auto simp: execFor_def Some f)
    next
      case Same
      then have "execLoop c opts env1 st1 = (r, env', st')" using x by (simp add: execFor_def Some f)
      from L [OF this] s1 show ?thesis by (auto intro: advances_trans)
    next
      case (Fresh e)
      then obtain obj where "execLoop c opts e st1 = (r, obj, st')" and e: "env' = env1"
        using x by (auto simp: execFor_def Some f split: prod.splits)
      from L [OF this(1)] s1 Fresh have "advances st1 st' \<and> (\<forall>e. resEnv r obj = Some e \<longrightarrow> inStep st' e)" by simp
      moreover have "\<exists>o'. r = toRes o'" using \<open>execLoop c opts e st1 = (r, obj, st')\<close>
        by (auto simp: execLoop_def Let_def split: prod.splits)
      ultimately show ?thesis using s1 e by (auto intro: advances_trans inStep_steps)
    qed
  qed
qed

lemma notesS_execForOf [notes_intros]:
  assumes "notesE f" "notesOpts opts" "idOk x" shows "notesS (execForOf x f opts)"
proof -
  have "notesOpts (opts\<lparr>lo_seed := (if P then Some x else None)\<rparr>)" for P using assms(2,3) by (simp add: notesOpts_def)
  note L = notesSD [OF notesS_execLoop [OF this]]
  show ?thesis
    by (rule notesSI) (auto simp: execForOf_def split: prod.splits dest!: notesED [OF assms(1)] L intro: advances_trans)
qed

definition notesCase :: "EvalF option \<times> ExecF list \<Rightarrow> bool" where
  "notesCase cs \<longleftrightarrow> pred_option notesE (fst cs) \<and> list_all notesS (snd cs)"

lemma notes_execCases:
  "execCases c cs env running hasD st = (r, hasD', env', st') \<Longrightarrow> list_all notesCase cs \<Longrightarrow> inStep st env \<Longrightarrow> (\<And>e. running = Some e \<Longrightarrow> has st e) \<Longrightarrow>
    advances st st' \<and> inStep st' env' \<and> (\<forall>e. r = Some e \<longrightarrow> has st' e)"
proof (induction c cs env running hasD st rule: execCases.induct)
  case (1 c env running hasD st)
  then show ?case by auto
next
  case (2 c t b cs env running hasD st)
  obtain hasD1 env1 st1 where t: "(case t of None \<Rightarrow> (True, env, st) | Some f \<Rightarrow> (case f c env st of (_, env, st) \<Rightarrow> (hasD, env, st))) = (hasD1, env1, st1)"
    by (metis prod_cases3)
  obtain run2 st2 where b: "(case joinEnv running (Some env1) of None \<Rightarrow> (None, st1) | Some e \<Rightarrow> execStmts b c e st1) = (run2, st2)"
    by fastforce
  have kc: "pred_option notesE t" "list_all notesS b" "list_all notesCase cs" using "2.prems"(2) by (simp_all add: notesCase_def [of "(t, b)"])
  have s1: "advances st st1 \<and> inStep st1 env1"
    using t kc(1) "2.prems"(3) by (auto split: option.splits prod.splits dest!: notesED [rotated])
  have j: "inStep st1 e" if "joinEnv running (Some env1) = Some e" for e
    by (rule inStep_join [OF that]) (use s1 "2.prems"(4) in \<open>auto simp: inStep_def intro: has_steps\<close>)
  have s2: "advances st1 st2 \<and> (\<forall>e. run2 = Some e \<longrightarrow> has st2 e)"
    using b j notes_execStmts [OF _ kc(2)] by (auto split: option.splits simp: inStep_def)
  have i2: "inStep st2 env1" using s1 s2 by (blast intro: inStep_steps)
  have "execCases c cs env1 run2 hasD1 st2 = (r, hasD', env', st')" using "2.prems"(1) by (simp add: t b)
  from "2.IH" [OF t [symmetric] refl refl b [symmetric] refl this kc(3) i2] s2
  have "advances st2 st' \<and> inStep st' env' \<and> (\<forall>e. r = Some e \<longrightarrow> has st' e)" by blast
  then show ?case using s1 s2 by (auto intro: advances_trans)
qed

lemma notesS_execSwitch [notes_intros]:
  assumes "notesE f" "list_all notesCase cs" "list_all keepsCase cs" shows "notesS (execSwitch f cs ls)"
proof (rule notesSI)
  fix c env st r env' st'
  assume x: "execSwitch f cs ls c env st = (r, env', st')" and i: "inStep st env"
  obtain v env1 st1 run hasD st2 fr where
    a: "f c env st = (v, env1, st1)" and b: "execCases c cs env1 None False (pushFrame SwitchF ls st1) = (run, hasD, env', st2)" and
    p: "popFrame st2 = (fr, st')" and
    r: "r = (let out = joinAll run (fr_breaks fr) in if hasD then toRes out else (case out of None \<Rightarrow> Same | Some _ \<Rightarrow> toRes (joinEnv out (Some env'))))"
    using x unfolding execSwitch_def by (auto simp: Let_def split: prod.splits)
  note s1 = notesED [OF assms(1) a i]
  have i1: "inStep (pushFrame SwitchF ls st1) env1" using s1 advances_push by (blast intro: inStep_steps)
  have s2: "advances (pushFrame SwitchF ls st1) st2 \<and> inStep st2 env' \<and> (\<forall>e. run = Some e \<longrightarrow> has st2 e)"
    using notes_execCases [OF b assms(2) i1] by simp
  have ne: "a_frames st2 \<noteq> []" using keeps_execCases [OF assms(3) b] by (auto simp: keeps_def pushFrame_def list_all2_Cons1)
  have s3: "advances st2 st'" "frameNoted st' fr" "inStep st' env'"
    using advances_pop [OF p ne] s2 by (auto simp: inStep_def intro: has_steps simp: advances_def)
  have j: "inStep st' z" if "joinAll run (fr_breaks fr) = Some z" for z
    by (rule inStep_joinAll [OF that]) (use s2 s3 in \<open>auto simp: inStep_def frameNoted_def intro: has_steps\<close>)
  have j2: "inStep st' z" if "joinEnv (joinAll run (fr_breaks fr)) (Some env') = Some z" for z
    by (rule inStep_join [OF that]) (use j s3 in \<open>auto simp: inStep_def\<close>)
  have "inStep st' z" if "resEnv r env' = Some z" for z
    using that j j2 s3(3) by (auto simp: r Let_def split: if_splits option.splits)
  then show "advances st st' \<and> inStep st' env' \<and> (\<forall>e. resEnv r env' = Some e \<longrightarrow> inStep st' e)"
    using s1 s2 s3 advances_push [of st1] by (meson advances_trans)
qed

lemma notesS_execWrite [notes_intros]: "list_all notesE fs \<Longrightarrow> notesS (execWrite fs)"
  by (rule notesSI) (auto simp: execWrite_def split: prod.splits dest!: notes_evalAll)

lemma notesS_execRecordSet [notes_intros]:
  assumes "notesE f" "notesE g" shows "notesS (execRecordSet f shape field g loc)"
proof (rule notesSI)
  fix c env st r env' st'
  assume x: "execRecordSet f shape field g loc c env st = (r, env', st')" and i: "inStep st env"
  obtain v1 e1 st1 v2 e2 st2 where a: "f c env st = (v1, e1, st1)" and b: "g c e1 st1 = (v2, e2, st2)"
    by (metis prod_cases3)
  have s: "advances st st2 \<and> inStep st2 e2" using notesED [OF assms(1) a i] notesED [OF assms(2) b] by (auto intro: advances_trans)
  have "advances st2 st'" "env' = clearPathFacts e2" "r = Same"
    using x by (auto simp: execRecordSet_def a b Let_def split: option.splits)
  then show "advances st st' \<and> inStep st' env' \<and> (\<forall>e. resEnv r env' = Some e \<longrightarrow> inStep st' e)"
    using s by (auto intro: advances_trans dest: inStep_steps)
qed

lemma notesS_execReturn [notes_intros]: assumes "pred_option notesE f" shows "notesS (execReturn f loc)"
proof (cases f)
  case None
  then show ?thesis by (auto intro!: notesSI simp: execReturn_def)
next
  case (Some g)
  then have g: "notesE g" using assms by simp
  show ?thesis unfolding Some
    by (rule notesSI) (auto simp: execReturn_def split: prod.splits option.splits dest!: notesED [OF g]
        intro: advances_trans [OF _ advances_emitV] inStep_steps [OF _ advances_emitV])
qed

lemma notesS_execThrow [notes_intros]: "notesE f \<Longrightarrow> notesS (execThrow f)"
  by (rule notesSI) (auto simp: execThrow_def split: prod.splits dest!: notesED [rotated])

lemma notesS_execJump [notes_intros]: "notesS (execJump k label)"
  by (rule notesSI) (auto simp: execJump_def inStep_def advances_jump intro: has_steps [OF _ advances_jump] dest: advances_jump [of _ _ label k] simp: advances_def)

lemma notesS_execBlock [notes_intros]: assumes "list_all notesS fs" "list_all keepsS fs" shows "notesS (execBlock fs ls)"
proof (rule notesSI)
  fix c env st r env' st'
  assume x: "execBlock fs ls c env st = (r, env', st')" and i: "inStep st env"
  show "advances st st' \<and> inStep st' env' \<and> (\<forall>e. resEnv r env' = Some e \<longrightarrow> inStep st' e)"
  proof (cases "ls = []")
    case True
    then show ?thesis using x notes_execSeq [OF _ assms(1) i i] by (auto simp: execBlock_def)
  next
    case False
    obtain r1 st1 fr where a: "execSeq fs c True env env (pushFrame BlockF ls st) = (r1, env', st1)" and p: "popFrame st1 = (fr, st')" and
      r: "r = (if fr_breaks fr = [] then r1 else toRes (joinAll (resEnv r1 env') (fr_breaks fr)))"
      using x False unfolding execBlock_def by (auto split: prod.splits)
    have ip: "inStep (pushFrame BlockF ls st) env" using i advances_push by (blast intro: inStep_steps)
    have s1: "advances (pushFrame BlockF ls st) st1 \<and> inStep st1 env' \<and> (\<forall>e. resEnv r1 env' = Some e \<longrightarrow> inStep st1 e)"
      using notes_execSeq [OF a assms(1) ip ip] by simp
    have ne: "a_frames st1 \<noteq> []" using keeps_execSeq [OF assms(2) a] by (auto simp: keeps_def pushFrame_def list_all2_Cons1)
    have s2: "advances st1 st'" "frameNoted st' fr" using advances_pop [OF p ne] s1 by (auto simp: inStep_def)
    have i2: "inStep st' env'" "\<And>e. resEnv r1 env' = Some e \<Longrightarrow> inStep st' e" using s1 s2 by (auto intro: inStep_steps)
    have j: "inStep st' z" if "joinAll (resEnv r1 env') (fr_breaks fr) = Some z" for z
      by (rule inStep_joinAll [OF that]) (use i2 s2 in \<open>auto simp: inStep_def frameNoted_def\<close>)
    have "advances st st'" using s1 s2(1) advances_push by (meson advances_trans)
    then show ?thesis using i2 j by (auto simp: r)
  qed
qed

lemma notesOpts_loopOpts [notes_intros]:
  "pred_option (\<lambda>(e, f). okE e \<and> notesE f) cond \<Longrightarrow> list_all notesS body \<Longrightarrow> list_all keepsS body \<Longrightarrow> pred_option notesS upd \<Longrightarrow>
    notesOpts (loopOpts cond body upd ls)"
  by (simp add: notesOpts_def loopOpts_def)

lemma notesOpts_flags [notes_intros]:
  "notesOpts opts \<Longrightarrow> notesOpts (opts\<lparr> lo_doWhile := b \<rparr>)" "notesOpts opts \<Longrightarrow> notesOpts (opts\<lparr> lo_always := b \<rparr>)"
  by (simp_all add: notesOpts_def)

section \<open>Every supported program registers\<close>

lemma keeps_lists [simp]: "list_all keepsS (map execStmt ss)" "list_all keepsE (map evalExpr es)"
  "list_all keepsCase (map (map_prod (map_option evalExpr) (map execStmt)) cs)"
  by (auto simp: list_all_iff keeps_all keepsCase_def option.pred_set)

lemma notesE_fields:
  "list_all (\<lambda>(_, _, _, f). notesE f) fs \<Longrightarrow> notesE (\<lambda>c env st. case evalFields c (slots c) fs env st of (env, st) \<Rightarrow> (TOP, env, st))"
  by (rule notesEI) (auto split: prod.splits dest: notes_evalFields)

lemma notes_fieldFns: "list_all (\<lambda>(_, f). notesE f) fs \<Longrightarrow> list_all (\<lambda>(_, _, _, f). notesE f) (fieldFns tys fs)"
proof (induction fs arbitrary: tys)
  case (Cons a fs)
  then show ?case by (cases tys) (auto simp: fieldFns_def)
qed (simp add: fieldFns_def)

lemma notesS_one: "notesE f \<Longrightarrow> notesS (\<lambda>c env st. case f c env st of (x, env, st) \<Rightarrow> (Same, env, st))"
  by (rule notesSI) (auto split: prod.splits dest!: notesED [rotated])

lemma notesS_skip [notes_intros]: "r = Same \<or> r = Null \<Longrightarrow> notesS (\<lambda>c env st. (r, env, st))"
  by (auto simp: notesS_def)

lemma notes_all:
  "okE e \<Longrightarrow> notesE (evalExpr e)"
  "okS s \<Longrightarrow> notesS (execStmt s)"
proof (induction e and s)
  case (Bin op a b ty l)
  then show ?case unfolding evalExpr.simps by (intro notesE_two) auto
next
  case (Unary op a ty l)
  then show ?case unfolding evalExpr.simps by (intro notesE_one) auto
next
  case (AssignExpr x a ty l)
  then show ?case unfolding evalExpr.simps by (intro notesE_bind) auto
next
  case (RecordLit fs ty l)
  have "list_all (\<lambda>(_, f). notesE f) (map (map_prod id evalExpr) fs)" using RecordLit by (fastforce simp: list_all_iff snds.simps)
  then show ?case unfolding evalExpr.simps by (intro notesE_fields notes_fieldFns)
next
  case (ExprStmt e)
  then show ?case unfolding execStmt.simps by (intro notesS_one) auto
next
  case (VarDecl x i)
  then show ?case by (cases i) (auto intro: notes_intros)
next
  case (For i e u b ls)
  have "pred_option (\<lambda>(e, f). okE e \<and> notesE f) (pairCond e (map_option evalExpr e))"
    using For by (cases e) (auto simp: pairCond_def)
  then show ?case using For by (auto intro!: notes_intros simp: list_all_iff option.pred_set keeps_all)
qed (fastforce intro!: notes_intros simp: list_all_iff option.pred_set notesCase_def snds.simps fsts.simps keeps_all keepsCase_def)+

end
