(* ===== verification/Int_Simulate.thy ===== *)
theory Int_Simulate
  imports Int_Notes
begin

text \<open>
  The analyzer of library/int-infer.ts against the runs of \<open>Int_Run\<close>: an environment describes a
  configuration, a value that reaches a slot is judged when it lies in an abstract value whose
  verdict was recorded, and a jump is recorded in the frame it is bound to. One simulation lemma
  per combinator of the analyzer, for expressions and for statements without loops.
\<close>

section \<open>Environments and configurations\<close>

definition good :: "Cfg \<Rightarrow> Env \<Rightarrow> bool" where
  "good g env \<longleftrightarrow> storeOk (snd g) \<and> describes (fst g) (snd g) env"

definition judged :: "Ctx \<Rightarrow> AState \<Rightarrow> crossing \<Rightarrow> bool" where
  "judged c st x \<longleftrightarrow> (\<exists>a. x_val x \<in> gamma a \<and> checkBoundary (c_rt c) a (x_path x) (x_cls x) (x_loc x) \<in> set (a_verdicts st))"

definition judgedAll :: "Ctx \<Rightarrow> AState \<Rightarrow> crossing list \<Rightarrow> bool" where
  "judgedAll c st tr \<longleftrightarrow> (\<forall>x \<in> set tr. judged c st x)"

fun recordedIn :: "jump \<Rightarrow> jsstr option \<Rightarrow> Cfg \<Rightarrow> LoopFrame list \<Rightarrow> bool" where
  "recordedIn k label g [] = True"
| "recordedIn k label g (f # fs) =
    (if frameMatches label k f then (\<exists>e \<in> set (if k = JBreak then fr_breaks f else fr_continues f). good g e)
     else recordedIn k label g fs)"

definition ctxOk :: "Ctx \<Rightarrow> bool" where
  "ctxOk c \<longleftrightarrow> (\<forall>f. \<forall>x \<in> set (writesOf (c_perFn c) f). isGlobalId x)"

lemma judgedAll_simps [simp]: "judgedAll c st []" "judgedAll c st (a @ b) = (judgedAll c st a \<and> judgedAll c st b)"
  "judgedAll c st (x # tr) = (judged c st x \<and> judgedAll c st tr)"
  by (auto simp: judgedAll_def)

lemma judgedAll_keeps: "judgedAll c st tr \<Longrightarrow> keeps st st' \<Longrightarrow> judgedAll c st' tr"
  by (fastforce simp: judgedAll_def judged_def keeps_def)

lemma judged_emitV: "v \<in> gamma a \<Longrightarrow> a_collect st \<Longrightarrow> judged c (emitV c a p cls loc st) (Crossing v p cls loc)"
  by (auto simp: judged_def emitV_def)

lemma recordedIn_ext: "recordedIn k label g fs \<Longrightarrow> list_all2 frameExt fs fs' \<Longrightarrow> recordedIn k label g fs'"
proof (induction fs arbitrary: fs')
  case (Cons f fs)
  then obtain f' fs'' where f: "fs' = f' # fs''" "frameExt f f'" "list_all2 frameExt fs fs''" by (auto simp: list_all2_Cons1)
  have "frameMatches label k f' = frameMatches label k f" using f(2) by (auto simp: frameMatches_def frameExt_def split: option.splits)
  moreover have "set (fr_breaks f) \<subseteq> set (fr_breaks f')" "set (fr_continues f) \<subseteq> set (fr_continues f')"
    using f(2) by (auto simp: frameExt_def)
  ultimately show ?case using Cons f by (auto split: if_splits)
qed auto

lemma recordedIn_keeps: "recordedIn k label g (a_frames st) \<Longrightarrow> keeps st st' \<Longrightarrow> recordedIn k label g (a_frames st')"
  by (auto simp: keeps_def intro: recordedIn_ext)

subsection \<open>Descriptions are kept\<close>

lemma storeOk_path: "storeOk s \<Longrightarrow> s_path s cls steps \<in> gamma (classSeed (className cls))"
  by (simp add: storeOk_def)

lemma describes_mono: "describes D s env \<Longrightarrow> D' \<subseteq> D \<Longrightarrow> describes D' s env"
  by (auto simp: describes_def)

lemma envGet_filter: "envGet (filter (\<lambda>(k, _). P k) env) k = (if P k then envGet env k else defaultVal k)"
  by (simp add: envGet_def map_of_filter_key)

lemma defaultVal_path: "defaultVal (pathKeyOf cls steps) = classSeed (className cls)"
  by (simp add: defaultVal_def)

text \<open>What is left of an environment when some keys are dropped.\<close>

lemma describes_drop:
  assumes "describes D s env" "storeOk s'"
    and "\<And>x. x \<in> D \<Longrightarrow> P x \<Longrightarrow> s_var s' x = s_var s x"
    and "\<And>x. x \<in> D \<Longrightarrow> \<not> P x \<Longrightarrow> s_var s' x \<in> gamma (defaultVal x)"
    and "\<And>cls steps. P (pathKeyOf cls steps) \<Longrightarrow> pathKeyOf cls steps \<in> fst ` set env \<Longrightarrow> s_path s' cls steps = s_path s cls steps"
  shows "describes D s' (filter (\<lambda>(k, _). P k) env)"
proof -
  have "s_path s' cls steps \<in> gamma (envGet (filter (\<lambda>(k, _). P k) env) (pathKeyOf cls steps))" for cls steps
  proof (cases "P (pathKeyOf cls steps) \<and> pathKeyOf cls steps \<in> fst ` set env")
    case True
    then show ?thesis using assms(1,5) by (simp add: envGet_filter describes_def)
  next
    case False
    then have "envGet (filter (\<lambda>(k, _). P k) env) (pathKeyOf cls steps) = defaultVal (pathKeyOf cls steps)"
      using envGet_absent [of "pathKeyOf cls steps" env] by (auto simp: envGet_filter)
    then show ?thesis using storeOk_path [OF assms(2)] by (simp add: defaultVal_path)
  qed
  moreover have "pathClassOfKey x = None \<and> s_var s' x \<in> gamma (envGet (filter (\<lambda>(k, _). P k) env) x)" if "x \<in> D" for x
    using assms(1,3,4) that by (auto simp: envGet_filter describes_def)
  ultimately show ?thesis by (simp add: describes_def)
qed

lemma good_heap: assumes "good g env" "heapStep (snd g) s'" shows "good (fst g, s') (clearPathFacts env)"
  unfolding good_def fst_conv snd_conv clearPathFacts_def
  using assms by (intro conjI describes_drop [where s = "snd g"]) (auto simp: good_def heapStep_def describes_def)

lemma good_clear: "good g env \<Longrightarrow> good g (clearPathFacts env)"
  using good_heap [of g env "snd g"] by (simp add: good_def heapStep_def)

lemma good_refresh: "good g env \<Longrightarrow> refresh (snd g) s' \<Longrightarrow> good (fst g, s') env"
  by (simp add: good_def refresh_def describes_def)

lemma global_default: "isGlobalId x \<Longrightarrow> is_f64 y \<Longrightarrow> pathClassOfKey x = None \<Longrightarrow> y \<in> gamma (defaultVal x)"
  by (simp add: defaultVal_def gamma_TOP)

lemma good_call:
  assumes "good g env" "callStep G (snd g) s'" "\<And>x. x \<in> G \<Longrightarrow> isGlobalId x" "\<And>x. x \<in> G \<Longrightarrow> \<not> P x" "\<And>x. \<not> P x \<Longrightarrow> isGlobalId x \<or> pathClassOfKey x \<noteq> None"
    "\<And>cls steps. \<not> P (pathKeyOf cls steps)"
  shows "good (fst g, s') (filter (\<lambda>(k, _). P k) env)"
proof -
  have d: "describes (fst g) (snd g) env" using assms(1) by (simp add: good_def)
  have "s_var s' x \<in> gamma (defaultVal x)" if "x \<in> fst g" "\<not> P x" for x
  proof -
    have p: "pathClassOfKey x = None" "s_var (snd g) x \<in> gamma (envGet env x)" using d that(1) by (auto simp: describes_def)
    have "is_f64 (s_var s' x)" using assms(2) p(2) by (cases "x \<in> G") (auto simp: callStep_def gamma_def)
    then show ?thesis using global_default assms(5) [OF that(2)] p(1) by blast
  qed
  then have "describes (fst g) s' (filter (\<lambda>(k, _). P k) env)"
    using assms(2,4,6) by (intro describes_drop [OF d]) (auto simp: callStep_def, blast)
  then show ?thesis using assms(2) by (simp add: good_def callStep_def)
qed

lemma havocAllGlobals_filter: "havocAllGlobals env = filter (\<lambda>(k, _). pathClassOfKey k = None \<and> \<not> isGlobalId k) env"
  by (auto simp: havocAllGlobals_def clearPathFacts_def intro!: filter_cong)

lemma good_havocAll:
  assumes "good g env" "callStep G (snd g) s'" "\<And>x. x \<in> G \<Longrightarrow> isGlobalId x"
  shows "good (fst g, s') (havocAllGlobals env)"
  unfolding havocAllGlobals_filter by (rule good_call [OF assms]) (auto dest: assms(3))

lemma good_noGlobals: "good g env \<Longrightarrow> callStep {} (snd g) s' \<Longrightarrow> good (fst g, s') (clearPathFacts env)"
  unfolding clearPathFacts_def by (rule good_call [where G = "{}"]) auto

lemma fold_envDelete: "fold (\<lambda>g env. envDelete env g) gs env = filter (\<lambda>(k, _). k \<notin> set gs) env"
proof (induction gs arbitrary: env)
  case (Cons g gs)
  then show ?case by (auto simp: envDelete_def intro!: filter_cong)
qed simp

lemma good_havocCall:
  assumes "good g env" "callStep (mayWrite c callee) (snd g) s'" "ctxOk c"
  shows "good (fst g, s') (havocCall c callee env)"
proof (cases "callee \<in> set (c_havocAll c) \<or> map_of (c_perFn c) callee = None")
  case True
  have "good (fst g, s') (havocAllGlobals env)"
    using assms(1,2) by (rule good_havocAll) (use True in \<open>simp add: mayWrite_def\<close>)
  moreover have "havocAllGlobals (clearPathFacts env) = havocAllGlobals env"
    by (simp add: havocAllGlobals_def clearPathFacts_def)
  ultimately show ?thesis using True by (simp add: havocCall_def Let_def)
next
  case False
  have eq: "havocCall c callee env = filter (\<lambda>(k, _). pathClassOfKey k = None \<and> k \<notin> set (writesOf (c_perFn c) callee)) env"
    using False by (auto simp: havocCall_def Let_def fold_envDelete clearPathFacts_def intro!: filter_cong)
  show ?thesis unfolding eq
    by (rule good_call [OF assms(1,2)]) (use False assms(3) in \<open>auto simp: mayWrite_def ctxOk_def\<close>)
qed

lemma good_bind:
  assumes "good g env" "has st env" "idOk x" "y \<in> gamma v" "assignStep c x y g g'"
  shows "good g' (bindVar c x v env st)"
proof -
  let ?P = "\<lambda>k. \<not> (pathClassOfKey k \<noteq> None \<and> map_of (a_roots st) k = Some (Some x))"
  let ?env = "filter (\<lambda>(k, _). ?P k) env"
  have d: "describes (fst g - {x}) (snd g) env" using assms(1) by (auto simp: good_def intro: describes_mono)
  have a: "s_var (snd g') = (s_var (snd g))(x := y)" "storeOk (snd g')"
    "\<And>cls steps. rootOf steps \<noteq> Some x \<Longrightarrow> s_path (snd g') cls steps = s_path (snd g) cls steps"
    "fst g' = (if x \<in> set (c_f64 c) then insert x (fst g) else fst g - {x})"
    using assms(5) by (auto simp: assignStep_def)
  have d': "describes (fst g - {x}) (snd g') ?env"
    using d assms(2) a by (intro describes_drop [OF d]) (auto simp: describes_def has_def noted_def)
  have "describes (fst g') (snd g') (if x \<in> set (c_f64 c) then envSet ?env x v else ?env)"
  proof (cases "x \<in> set (c_f64 c)")
    case True
    have "pathKeyOf cls steps \<noteq> x" for cls steps using assms(3) pathKeyOf_class by (force simp: idOk_def)
    then show ?thesis using True d' a assms(3,4) by (auto simp: describes_def idOk_def)
  next
    case False
    then show ?thesis using d' a(4) by simp
  qed
  then show ?thesis using a(2) unfolding good_def bindVar_def clearPathsAt_def clearPathsRootedAt_def Let_def by (intro conjI)
qed

lemma good_setVar:
  assumes "good g env" "idOk x" "y \<in> gamma v"
  shows "good (insert x (fst g), (snd g)\<lparr>s_var := (s_var (snd g))(x := y)\<rparr>) (envSet env x v)"
proof -
  have "pathKeyOf cls steps \<noteq> x" for cls steps using assms(2) pathKeyOf_class by (force simp: idOk_def)
  then show ?thesis using assms by (auto simp: good_def describes_def idOk_def storeOk_def)
qed

lemma good_join: "(\<exists>a. A = Some a \<and> good g a) \<or> (\<exists>b. B = Some b \<and> good g b) \<Longrightarrow> \<exists>e. joinEnv A B = Some e \<and> good g e"
  using describes_join [of "snd g" A "fst g" B] by (auto simp: good_def)

lemma good_joinAll: "(\<exists>a. A = Some a \<and> good g a) \<or> (\<exists>b \<in> set bs. good g b) \<Longrightarrow> \<exists>e. joinAll A bs = Some e \<and> good g e"
proof (induction bs arbitrary: A)
  case (Cons b bs)
  have "(\<exists>a. joinEnv A (Some b) = Some a \<and> good g a) \<or> (\<exists>b \<in> set bs. good g b)"
    using Cons.prems good_join [of A g "Some b"] by auto
  then show ?case using Cons.IH by (simp add: joinAll_def)
qed (simp add: joinAll_def)

lemma good_merge: "(\<exists>e. src = Some e \<and> good g e) \<Longrightarrow> good g (mergeInto env src)"
  by (auto simp: mergeInto_def)

lemma good_refine:
  assumes "condR cond b c g g'" "good g env" shows "\<exists>e. refine c cond b ap (Some env) = Some e \<and> good g' e"
proof -
  have g': "fst g' = fst g" "storeOk (snd g')" "describes (fst g) (snd g') env"
    using assms by (auto simp: condR_def refresh_def good_def describes_def)
  from refine_describes [OF g'(2,3), of c cond b ap] assms(1) g'(1,2) show ?thesis by (auto simp: condR_def good_def)
qed

lemma good_refineSt: "condR cond b c g g' \<Longrightarrow> good g env \<Longrightarrow> refineSt c cond b ap env st = (out, st') \<Longrightarrow> \<exists>e. out = Some e \<and> good g' e"
  using good_refine [of cond b c g g' env ap] by (auto simp: refineSt_def)

lemma good_refineBoth:
  assumes "refineBoth c cond env st = (t, e, st')" "good g env"
  shows "condR cond True c g g' \<Longrightarrow> \<exists>env'. t = Some env' \<and> good g' env'" "condR cond False c g g' \<Longrightarrow> \<exists>env'. e = Some env' \<and> good g' env'"
  using assms good_refine [of cond _ c g g' env "stablePathGuard cond"] by (auto simp: refineBoth_def refineSt_def Let_def)

section \<open>Simulation\<close>

fun outOk :: "AbsVal \<Rightarrow> Env \<Rightarrow> evalOut \<Rightarrow> bool" where
  "outOk v env (Val x g) = (x \<in> gamma v \<and> good g env)"
| "outOk v env Halt = True"

fun allOk :: "AbsVal list \<Rightarrow> Env \<Rightarrow> (jsdouble list \<times> Cfg) option \<Rightarrow> bool" where
  "allOk vs env (Some (xs, g)) = (list_all2 (\<lambda>x v. x \<in> gamma v) xs vs \<and> good g env)"
| "allOk vs env None = True"

definition simE :: "EvalF \<Rightarrow> EvalR \<Rightarrow> bool" where
  "simE f r \<longleftrightarrow> (\<forall>c env st v env' st' g tr out. f c env st = (v, env', st') \<longrightarrow> inStep st env \<longrightarrow> ctxOk c \<longrightarrow> good g env \<longrightarrow> r c g tr out \<longrightarrow>
     (a_collect st \<longrightarrow> judgedAll c st' tr) \<and> outOk v env' out)"

fun flowOk :: "ExecRes \<Rightarrow> Env \<Rightarrow> AState \<Rightarrow> flow \<Rightarrow> bool" where
  "flowOk res obj st (Next g) = (\<exists>e. resEnv res obj = Some e \<and> good g e)"
| "flowOk res obj st (Jump k label g) = recordedIn k label g (a_frames st)"
| "flowOk res obj st Stop = True"

definition simS :: "ExecF \<Rightarrow> ExecR \<Rightarrow> bool" where
  "simS f r \<longleftrightarrow> (\<forall>c env st res obj st' g tr out. f c env st = (res, obj, st') \<longrightarrow> inStep st env \<longrightarrow> ctxOk c \<longrightarrow> good g env \<longrightarrow> r c g tr out \<longrightarrow>
     (a_collect st \<longrightarrow> judgedAll c st' tr) \<and> flowOk res obj st' out)"

definition soundE :: "EvalF \<Rightarrow> EvalR \<Rightarrow> bool" where
  "soundE f r \<longleftrightarrow> keepsE f \<and> notesE f \<and> simE f r"

definition soundS :: "ExecF \<Rightarrow> ExecR \<Rightarrow> bool" where
  "soundS f r \<longleftrightarrow> keepsS f \<and> notesS f \<and> simS f r"

lemma simEI:
  "(\<And>c env st v env' st' g tr out. f c env st = (v, env', st') \<Longrightarrow> inStep st env \<Longrightarrow> ctxOk c \<Longrightarrow> good g env \<Longrightarrow> r c g tr out \<Longrightarrow>
     (a_collect st \<longrightarrow> judgedAll c st' tr) \<and> outOk v env' out) \<Longrightarrow> simE f r"
  unfolding simE_def by blast

lemma simSI:
  "(\<And>c env st res obj st' g tr out. f c env st = (res, obj, st') \<Longrightarrow> inStep st env \<Longrightarrow> ctxOk c \<Longrightarrow> good g env \<Longrightarrow> r c g tr out \<Longrightarrow>
     (a_collect st \<longrightarrow> judgedAll c st' tr) \<and> flowOk res obj st' out) \<Longrightarrow> simS f r"
  unfolding simS_def by blast

lemma soundE_state: "soundE f r \<Longrightarrow> f c env st = (v, env', st') \<Longrightarrow> inStep st env \<Longrightarrow> keeps st st' \<and> inStep st' env'"
  unfolding soundE_def by (blast dest: keepsED notesED)

lemma soundS_state: "soundS f r \<Longrightarrow> f c env st = (res, obj, st') \<Longrightarrow> inStep st env \<Longrightarrow>
    keeps st st' \<and> inStep st' obj \<and> (\<forall>e. resEnv res obj = Some e \<longrightarrow> inStep st' e)"
  unfolding soundS_def by (blast dest: keepsSD notesSD)

lemma soundED:
  assumes "soundE f r" "f c env st = (v, env', st')" "inStep st env" "ctxOk c" "good g env" "r c g tr out"
  shows "keeps st st' \<and> inStep st' env' \<and> (a_collect st \<longrightarrow> judgedAll c st' tr) \<and> outOk v env' out"
  using assms soundE_state [OF assms(1-3)] unfolding soundE_def simE_def by blast

lemma soundSD:
  assumes "soundS f r" "f c env st = (res, obj, st')" "inStep st env" "ctxOk c" "good g env" "r c g tr out"
  shows "keeps st st' \<and> inStep st' obj \<and> (\<forall>e. resEnv res obj = Some e \<longrightarrow> inStep st' e) \<and> (a_collect st \<longrightarrow> judgedAll c st' tr) \<and> flowOk res obj st' out"
  using assms soundS_state [OF assms(1-3)] unfolding soundS_def simS_def by blast

lemma sim_evalAll:
  "evalAll fs c env st = (vs, env', st') \<Longrightarrow> list_all2 soundE fs rs \<Longrightarrow> inStep st env \<Longrightarrow> ctxOk c \<Longrightarrow> good g env \<Longrightarrow> evalsR rs c g tr out \<Longrightarrow>
    keeps st st' \<and> inStep st' env' \<and> (a_collect st \<longrightarrow> judgedAll c st' tr) \<and>
    allOk vs env' out"
proof (induction fs arbitrary: rs env st vs g tr out)
  case Nil
  then show ?case by auto
next
  case (Cons f fs)
  obtain r rs' where rs: "rs = r # rs'" "soundE f r" "list_all2 soundE fs rs'" using Cons.prems(2) by (auto simp: list_all2_Cons1)
  obtain v e1 st1 where f: "f c env st = (v, e1, st1)" by (cases "f c env st")
  obtain vs' where fs: "evalAll fs c e1 st1 = (vs', env', st')" "vs = v # vs'" using Cons.prems(1) f by (auto split: prod.splits)
  have k: "list_all keepsE fs" "list_all notesE fs"
    using rs(3) by (induction rule: list_all2_induct) (auto simp: soundE_def)
  have s1: "keeps st st1" "inStep st1 e1" using soundE_state [OF rs(2) f Cons.prems(3)] by auto
  have s2: "keeps st1 st'" "inStep st' env'" using keeps_evalAll [OF k(1) fs(1)] notes_evalAll [OF fs(1) k(2) s1(2)] by auto
  have cc: "a_collect st1 = a_collect st" using s1(1) by (simp add: keeps_def)
  from Cons.prems(6) rs(1) consider (halt) "r c g tr Halt" "out = None"
    | (val) x g1 tr1 tr2 out' where "r c g tr1 (Val x g1)" "evalsR rs' c g1 tr2 out'" "tr = tr1 @ tr2" "out = map_option (\<lambda>(xs, g). (x # xs, g)) out'"
    by auto
  then show ?case
  proof cases
    case halt
    from soundED [OF rs(2) f Cons.prems(3-5) halt(1)] halt(2) s1 s2 show ?thesis by (auto intro: keeps_trans judgedAll_keeps)
  next
    case val
    note a = soundED [OF rs(2) f Cons.prems(3-5) val(1)]
    have g1: "good g1 e1" "x \<in> gamma v" using a by auto
    note b = Cons.IH [OF fs(1) rs(3) s1(2) Cons.prems(4) g1(1) val(2)]
    have "allOk vs env' out" using b g1(2) val(4) fs(2) by (cases out') auto
    then show ?thesis using a b val(3) s1 s2 cc by (auto intro: keeps_trans judgedAll_keeps)
  qed
qed

subsection \<open>Expressions\<close>

lemma evalAll_length: "evalAll fs c env st = (vs, env', st') \<Longrightarrow> length vs = length fs"
  by (induction fs arbitrary: env st vs) (auto split: prod.splits)

lemma simE_then:
  assumes "list_all2 soundE fs rs"
    and f: "\<And>c env st. f c env st = (case evalAll fs c env st of (vs, env, st) \<Rightarrow> h c vs env st)"
    and k: "\<And>c vs env st v env' st' xs g tr out. h c vs env st = (v, env', st') \<Longrightarrow> list_all2 (\<lambda>x v. x \<in> gamma v) xs vs \<Longrightarrow> length vs = length fs \<Longrightarrow> inStep st env \<Longrightarrow>
      ctxOk c \<Longrightarrow> good g env \<Longrightarrow> k xs c g tr out \<Longrightarrow> keeps st st' \<and> (a_collect st \<longrightarrow> judgedAll c st' tr) \<and> outOk v env' out"
    and h: "\<And>c vs env st v env' st'. h c vs env st = (v, env', st') \<Longrightarrow> keeps st st'"
  shows "simE f (thenR rs k)"
proof (rule simEI)
  fix c env st v env' st' g tr out
  assume a: "f c env st = (v, env', st')" "inStep st env" "ctxOk c" "good g env" "thenR rs k c g tr out"
  obtain vs e1 st1 where e: "evalAll fs c env st = (vs, e1, st1)" by (cases "evalAll fs c env st")
  have hh: "h c vs e1 st1 = (v, env', st')" using a(1) by (simp add: f e)
  note all = sim_evalAll [OF e assms(1) a(2-4)]
  from a(5) consider (halt) "evalsR rs c g tr None" "out = Halt"
    | (val) xs g1 tr1 tr2 where "evalsR rs c g tr1 (Some (xs, g1))" "k xs c g1 tr2 out" "tr = tr1 @ tr2"
    unfolding thenR_def by blast
  then show "(a_collect st \<longrightarrow> judgedAll c st' tr) \<and> outOk v env' out"
  proof cases
    case halt
    then show ?thesis using all [OF halt(1)] h [OF hh] by (auto intro: judgedAll_keeps)
  next
    case val
    note s = all [OF val(1)]
    have "a_collect st1 = a_collect st" using s by (simp add: keeps_def)
    with k [OF hh _ evalAll_length [OF e] _ a(3) _ val(2)] s val(3) show ?thesis by (auto intro: judgedAll_keeps)
  qed
qed

named_theorems sim_intros

lemma simE_any [sim_intros]: "simE (\<lambda>c env st. (TOP, env, st)) anyVal"
  by (rule simEI) (auto simp: anyVal_def gamma_TOP)

lemma simE_lit [sim_intros]: "is_f64 x \<Longrightarrow> simE (\<lambda>c env st. (constVal x sp, env, st)) (valueR (\<lambda>_ y. y = x))"
  by (rule simEI) (auto simp: valueR_def gamma_constVal)

lemma simE_var [sim_intros]:
  "simE (\<lambda>c env st. (if is_f64_type ty \<and> x \<in> set (c_f64 c) then envGet env x else TOP, env, st)) (varR x ty)"
  by (rule simEI) (auto simp: varR_def anyVal_def gamma_TOP good_def describes_def split: if_splits)

lemma simE_bin:
  assumes "soundE f r" "soundE f' r'" "op \<noteq> OpDiv" "op \<noteq> OpPow"
  shows "simE (\<lambda>c env st. case f c env st of (x, env, st) \<Rightarrow> case f' c env st of (y, env, st) \<Rightarrow>
      (if op \<in> set CMP_OPS then TOP else if \<not> is_f64_type t \<or> \<not> is_f64_type t' then TOP else transferBin (c_rt c) op x y, env, st))
    (binR op (is_f64_type t \<and> is_f64_type t') r r')"
  unfolding binR_def
proof (rule simE_then [where fs = "[f, f']" and
      h = "\<lambda>c vs env st. (if op \<in> set CMP_OPS then TOP else if \<not> is_f64_type t \<or> \<not> is_f64_type t' then TOP else transferBin (c_rt c) op (vs ! 0) (vs ! 1), env, st)"])
  fix c vs env and st :: AState and v env' st' xs g tr out
  assume h: "(if op \<in> set CMP_OPS then TOP else if \<not> is_f64_type t \<or> \<not> is_f64_type t' then TOP else transferBin (c_rt c) op (vs ! 0) (vs ! 1), env, st) = (v, env', st')"
    and l: "list_all2 (\<lambda>x v. x \<in> gamma v) xs vs" "length vs = length [f, f']" and g: "good g env"
    and k: "(if op \<in> set CMP_OPS \<or> \<not> (is_f64_type t \<and> is_f64_type t') then anyVal
       else valueR (\<lambda>c x. x = numOp (c_rt c) op (xs ! 0) (xs ! 1) \<and>
         (op \<in> {OpAdd, OpSub} \<longrightarrow> \<not> infinite_f64 (xs ! 0) \<and> \<not> infinite_f64 (xs ! 1)))) c g tr out"
  show "keeps st st' \<and> (a_collect st \<longrightarrow> judgedAll c st' tr) \<and> outOk v env' out"
  proof (cases "op \<in> set CMP_OPS \<or> \<not> (is_f64_type t \<and> is_f64_type t')")
    case True
    then show ?thesis using h k g by (auto simp: anyVal_def gamma_TOP)
  next
    case False
    have v: "v = transferBin (c_rt c) op (vs ! 0) (vs ! 1)" "env' = env" "st' = st" using h False by auto
    have k': "tr = []" "out = Val (numOp (c_rt c) op (xs ! 0) (xs ! 1)) g" "op \<in> {OpAdd, OpSub} \<Longrightarrow> \<not> infinite_f64 (xs ! 0) \<and> \<not> infinite_f64 (xs ! 1)"
      using k False by (auto simp: valueR_def)
    have x: "xs ! 0 \<in> gamma (vs ! 0)" "xs ! 1 \<in> gamma (vs ! 1)" using l by (auto simp: list_all2_conv_all_nth)
    have op: "op \<in> exactOps - {OpDiv}" using False assms(3,4) by (cases op) (auto simp: exactOps_def bitwiseOps_def CMP_OPS_def)
    show ?thesis using transferBin_calm [OF op x k'(3)] v k'(1,2) g by simp
  qed
qed (use assms in \<open>auto split: prod.splits\<close>)

lemma simE_unary:
  assumes "soundE f r"
  shows "simE (\<lambda>c env st. case f c env st of (v, env, st) \<Rightarrow>
       (case op of UNeg \<Rightarrow> transferNeg v | UBitNot \<Rightarrow> transferBitNot v | UNot \<Rightarrow> TOP, env, st))
    (thenR [r] (\<lambda>xs. valueR (\<lambda>_. unaryOf op (xs ! 0))))"
  by (rule simE_then [where fs = "[f]" and
        h = "\<lambda>c vs env st. (case op of UNeg \<Rightarrow> transferNeg (vs ! 0) | UBitNot \<Rightarrow> transferBitNot (vs ! 0) | UNot \<Rightarrow> TOP, env, st)"])
    (use assms in \<open>auto split: prod.splits unop.splits simp: valueR_def transferNeg_sound transferBitNot_sound gamma_TOP
       list_all2_conv_all_nth\<close>)

lemma simE_assign:
  assumes "soundE f r" "idOk x"
  shows "simE (\<lambda>c env st. case f c env st of (v, env, st) \<Rightarrow> (v, bindVar c x v env st, st)) (assignR x r)"
  unfolding assignR_def
  by (rule simE_then [where fs = "[f]" and h = "\<lambda>c vs env st. (vs ! 0, bindVar c x (vs ! 0) env st, st)"])
    (use assms in \<open>auto split: prod.splits simp: inStep_def list_all2_conv_all_nth intro: good_bind\<close>)

lemma any_incDec: "is_f64 y \<Longrightarrow> y \<in> gamma (transferAdd TOP (constVal (fin k) None))"
  by (cases "y = NaN") (auto simp: transferAdd_def Let_def hasNumeric_def constVal_def fadd_def in_gamma_num)

lemma simE_incDec [sim_intros]: assumes "idOk x" shows "simE (evalIncDec isPlus isPrefix x) (incDecR isPlus isPrefix x)"
proof (rule simEI)
  fix c env st v env' st' g tr out
  assume a: "evalIncDec isPlus isPrefix x c env st = (v, env', st')" "inStep st env" "ctxOk c" "good g env" "incDecR isPlus isPrefix x c g tr out"
  show "(a_collect st \<longrightarrow> judgedAll c st' tr) \<and> outOk v env' out"
  proof (cases "x \<in> set (c_f64 c)")
    case False
    then show ?thesis using a by (auto simp: evalIncDec_def incDecR_def anyVal_def Let_def gamma_TOP any_incDec)
  next
    case True
    let ?one = "fin (if isPlus then 1 else - 1)" and ?old = "s_var (snd g) x"
    have r: "x \<in> fst g" "\<not> infinite_f64 ?old" "tr = []"
      "out = Val (if isPrefix then fadd ?old ?one else ?old) (fst g, (snd g)\<lparr> s_var := (s_var (snd g))(x := fadd ?old ?one) \<rparr>)"
      using a(5) True by (auto simp: incDecR_def Let_def)
    have o: "?old \<in> gamma (envGet env x)" using a(4) r(1) by (auto simp: good_def describes_def)
    have "?one \<in> gamma (constVal ?one None)" by (rule gamma_constVal) simp
    moreover have "\<not> infinite_f64 ?one" by (simp add: infinite_f64_def)
    ultimately have n: "fadd ?old ?one \<in> gamma (transferAdd (envGet env x) (constVal ?one None))"
      using transferBin_calm [of OpAdd ?old "envGet env x" ?one "constVal ?one None"] o r(2) by (simp add: exactOps_def)
    have "insert x (fst g) = fst g" using r(1) by auto
    then show ?thesis using a(1) True r(3,4) o n good_setVar [OF a(4) assms n] by (auto simp: evalIncDec_def Let_def)
  qed
qed

lemmas good_havocAll_pair = good_havocAll [of "(D, s)" for D s, simplified]
  and good_noGlobals_pair = good_noGlobals [of "(D, s)" for D s, simplified]
  and good_havocCall_pair = good_havocCall [of "(D, s)" for D s, simplified]
  and good_heap_pair = good_heap [of "(D, s)" for D s, simplified]
  and good_refresh_pair = good_refresh [of "(D, s)" for D s, simplified]

text \<open>Children whose values the analysis does not use, then an effect.\<close>

lemma simE_kids:
  assumes "list_all2 soundE fs rs"
    and "\<And>c D s env s'. ctxOk c \<Longrightarrow> good (D, s) env \<Longrightarrow> callStep (G c) s s' \<Longrightarrow> good (D, s') (h env)"
  shows "simE (evalKids h fs) (thenR rs (\<lambda>_. effectR G anyF64))"
  by (rule simE_then [OF assms(1), where h = "\<lambda>c vs env st. (TOP, h env, st)"])
    (auto simp: evalKids_def effectR_def gamma_TOP intro: assms(2) split: prod.splits)

lemma simE_field [sim_intros]: "soundE f r \<Longrightarrow> simE (evalKids (\<lambda>env. env) [f]) (thenR [r] (\<lambda>_. anyVal))"
  by (rule simE_then [where fs = "[f]" and h = "\<lambda>c vs env st. (TOP, env, st)"]) (auto simp: evalKids_def anyVal_def gamma_TOP split: prod.splits)

lemma simE_toBool [sim_intros]: "soundE f r \<Longrightarrow> simE (evalKids clearPathFacts [f]) (thenR [r] (\<lambda>_. effectR noGlobals anyF64))"
  by (rule simE_kids) (auto intro: good_noGlobals_pair)

lemma simE_other [sim_intros]: "list_all2 soundE fs rs \<Longrightarrow> simE (evalKids clearPathFacts fs) (thenR rs (\<lambda>_. effectR noGlobals anyF64))"
  by (rule simE_kids) (auto intro: good_noGlobals_pair)

lemma simE_opaque [sim_intros]: "list_all2 soundE fs rs \<Longrightarrow> simE (evalKids havocAllGlobals fs) (thenR rs (\<lambda>_. effectR allGlobals anyF64))"
  by (rule simE_kids) (auto intro: good_havocAll_pair)

lemma simE_lib [sim_intros]:
  "list_all2 soundE fs rs \<Longrightarrow>
    simE (evalKids (\<lambda>env. clearPathFacts (if b then havocAllGlobals env else env)) fs) (thenR rs (\<lambda>_. effectR (if b then allGlobals else noGlobals) anyF64))"
  by (rule simE_kids) (auto intro: good_noGlobals_pair good_clear good_havocAll_pair split: if_splits)

lemma simE_math:
  assumes "list_all2 soundE fs rs" "\<And>xs vs x. list_all2 (\<lambda>x v. x \<in> gamma v) xs vs \<Longrightarrow> length vs = length fs \<Longrightarrow> P xs x \<Longrightarrow> x \<in> gamma (m vs)"
  shows "simE (evalMath m fs) (thenR rs (\<lambda>xs. effectR noGlobals (\<lambda>_. P xs)))"
  by (rule simE_then [OF assms(1), where h = "\<lambda>c vs env st. (m vs, clearPathFacts env, st)"])
    (auto simp: evalMath_def effectR_def intro: assms(2) good_noGlobals_pair split: prod.splits)

lemma simE_math1 [sim_intros]:
  "soundE f r \<Longrightarrow> simE (evalMath (\<lambda>vs. transferMath1 m (hd vs)) [f]) (thenR [r] (\<lambda>xs. effectR noGlobals (\<lambda>_ y. y = math1Of m (xs ! 0))))"
  by (rule simE_math) (cases m; auto simp: length_Suc_conv list_all2_Cons2 transferMathRound_sound transferAbs_sound)+

lemma simE_math2 [sim_intros]:
  "soundE f r \<Longrightarrow> soundE f' r' \<Longrightarrow> simE (evalMath (transferMinMax m) [f, f']) (thenR [r, r'] (\<lambda>xs. effectR noGlobals (\<lambda>_ y. y = minmaxOf m xs)))"
  by (rule simE_math) (auto simp: length_Suc_conv list_all2_Cons2 intro!: transferMinMax_sound)

lemma simE_random [sim_intros]:
  "simE (evalMath (\<lambda>_. absVal (fin 0) (fin 1) False False None) [])
    (effectR noGlobals (\<lambda>_ y. y \<in> gamma (absVal (fin 0) (fin 1) False False None)))"
  by (rule simEI) (auto simp: evalMath_def effectR_def intro: good_noGlobals_pair)

lemma judged_emitArgs:
  "a_collect st \<Longrightarrow> list_all2 (\<lambda>x v. x \<in> gamma v) xs vs \<Longrightarrow>
    judgedAll c (emitArgs c slots i (zip vs locs) st) (argCrossings slots i (zip xs locs))"
proof (induction xs arbitrary: vs locs i st)
  case (Cons x xs)
  then obtain v vs' where v: "vs = v # vs'" "x \<in> gamma v" "list_all2 (\<lambda>x v. x \<in> gamma v) xs vs'" by (auto simp: list_all2_Cons1)
  show ?case
  proof (cases locs)
    case (Cons loc locs')
    let ?p = "case nthOpt (paramPaths slots) i of Some p \<Rightarrow> p | None \<Rightarrow> []"
    let ?st = "case nthOpt (slot_params slots) i of None \<Rightarrow> st | Some cls \<Rightarrow> emitV c v ?p cls loc st"
    have k: "keeps st ?st" by (auto split: option.splits)
    then have "judgedAll c (emitArgs c slots (Suc i) (zip vs' locs') ?st) (argCrossings slots (Suc i) (zip xs locs'))"
      using Cons.IH [OF _ v(3)] Cons.prems(1) by (simp add: keeps_def)
    moreover have "judgedAll c ?st (case nthOpt (slot_params slots) i of None \<Rightarrow> [] | Some cls \<Rightarrow> [Crossing x ?p cls loc])"
      using judged_emitV [OF v(2) Cons.prems(1)] by (auto split: option.splits)
    ultimately show ?thesis
      using judgedAll_keeps [OF _ keeps_emitArgs, of c ?st] by (simp add: v(1) Cons)
  qed simp
qed simp

lemma simE_call [sim_intros]:
  assumes "list_all2 soundE fs rs" shows "simE (evalCall callee locs fs) (callR callee locs rs)"
  unfolding callR_def
proof (rule simE_then [OF assms, where h = "\<lambda>c vals env st.
     let slots = map_of (cfg_fns (c_cfg c)) callee;
         st = (case slots of None \<Rightarrow> st | Some s \<Rightarrow> emitArgs c s 0 (zip vals locs) st);
         env = havocCall c callee env
     in (case slots of None \<Rightarrow> TOP | Some s \<Rightarrow> (case slot_ret s of None \<Rightarrow> TOP | Some r \<Rightarrow> classSeed (className r)), env, st)"])
  fix c vs env st v env' st' xs g tr out
  assume h: "(let slots = map_of (cfg_fns (c_cfg c)) callee;
         st = (case slots of None \<Rightarrow> st | Some s \<Rightarrow> emitArgs c s 0 (zip vs locs) st);
         env = havocCall c callee env
     in (case slots of None \<Rightarrow> TOP | Some s \<Rightarrow> (case slot_ret s of None \<Rightarrow> TOP | Some r \<Rightarrow> classSeed (className r)), env, st)) = (v, env', st')"
    and l: "list_all2 (\<lambda>x v. x \<in> gamma v) xs vs" and c: "ctxOk c" and g: "good g env"
    and k: "\<exists>tr'. effectR (\<lambda>c. mayWrite c callee) (retVal callee) c g tr' out \<and>
       tr = (case map_of (cfg_fns (c_cfg c)) callee of None \<Rightarrow> [] | Some s \<Rightarrow> argCrossings s 0 (zip xs locs)) @ tr'"
  have "keeps st st'" using h by (auto simp: Let_def keeps_emitArgs split: option.splits)
  moreover have "judgedAll c st' tr" if "a_collect st"
    using h k judged_emitArgs [OF that l] by (auto simp: Let_def effectR_def split: option.splits)
  moreover have "outOk v env' out"
    using h k good_havocCall [OF g _ c]
    by (auto simp: Let_def effectR_def retVal_def gamma_TOP split: option.splits)
  ultimately show "keeps st st' \<and> (a_collect st \<longrightarrow> judgedAll c st' tr) \<and> outOk v env' out" by blast
qed (auto simp: evalCall_def Let_def keeps_emitArgs split: prod.splits option.splits)

lemma simE_recordGet:
  assumes "soundE f r" shows "simE (evalRecordGet e shape field ty f) (recordGetR e shape field ty r)"
  unfolding recordGetR_def
proof (rule simE_then [where fs = "[f]" and h = "\<lambda>c vs env st. case recSlotOf (c_cfg c) shape field of
       None \<Rightarrow> (TOP, env, st)
     | Some slot \<Rightarrow>
         if \<not> is_f64_type ty then (TOP, env, st)
         else (case pathKey e (rs_cls slot) of None \<Rightarrow> classSeed (className (rs_cls slot)) | Some k \<Rightarrow> envGet env k,
               env, setRoots (noteRoot e (rs_cls slot) (a_roots st)) st)"])
  fix c and vs :: "AbsVal list" and env st v env' st' and xs :: "jsdouble list" and g tr out
  assume h: "(case recSlotOf (c_cfg c) shape field of
       None \<Rightarrow> (TOP, env, st)
     | Some slot \<Rightarrow>
         if \<not> is_f64_type ty then (TOP, env, st)
         else (case pathKey e (rs_cls slot) of None \<Rightarrow> classSeed (className (rs_cls slot)) | Some k \<Rightarrow> envGet env k,
               env, setRoots (noteRoot e (rs_cls slot) (a_roots st)) st)) = (v, env', st')"
    and g: "good g env"
    and k: "case recSlotOf (c_cfg c) shape field of
       None \<Rightarrow> anyVal c g tr out
     | Some slot \<Rightarrow>
         if \<not> is_f64_type ty then anyVal c g tr out
         else (case staticAccessPath e of
                 None \<Rightarrow> valueR (\<lambda>_ x. x \<in> gamma (classSeed (className (rs_cls slot)))) c g tr out
               | Some (_, steps) \<Rightarrow> tr = [] \<and> out = Val (s_path (snd g) (rs_cls slot) steps) g)"
  have "keeps st st'" using h by (auto split: option.splits if_splits)
  moreover have "tr = []" using k by (auto simp: anyVal_def valueR_def split: option.splits if_splits)
  moreover have "outOk v env' out" using h k g
    by (auto simp: anyVal_def valueR_def gamma_TOP pathKey_def good_def describes_def split: option.splits if_splits)
  ultimately show "keeps st st' \<and> (a_collect st \<longrightarrow> judgedAll c st' tr) \<and> outOk v env' out" by simp
qed (use assms in \<open>auto simp: evalRecordGet_def split: prod.splits option.splits if_splits\<close>)

definition soundField :: "jsstr \<times> IrType \<times> SrcLoc \<times> EvalF \<Rightarrow> jsstr \<times> IrType \<times> SrcLoc \<times> EvalR \<Rightarrow> bool" where
  "soundField a b \<longleftrightarrow> (case (a, b) of ((n, ty, loc, f), (n', ty', loc', r)) \<Rightarrow> n' = n \<and> ty' = ty \<and> loc' = loc \<and> soundE f r)"

lemma soundField_Cons: "list_all2 soundField ((n, ty, loc, f) # fs) rs \<longleftrightarrow> (\<exists>r rs'. rs = (n, ty, loc, r) # rs' \<and> soundE f r \<and> list_all2 soundField fs rs')"
  unfolding list_all2_Cons1 soundField_def [of "(n, ty, loc, f)"] by auto

lemma fields_state:
  "evalFields c slots fs env st = (env', st') \<Longrightarrow> list_all2 soundField fs rs \<Longrightarrow> inStep st env \<Longrightarrow> keeps st st' \<and> inStep st' env'"
proof -
  assume a: "evalFields c slots fs env st = (env', st')" "list_all2 soundField fs rs" "inStep st env"
  have "list_all (\<lambda>(_, _, _, f). keepsE f) fs \<and> list_all (\<lambda>(_, _, _, f). notesE f) fs"
    using a(2) by (induction rule: list_all2_induct) (auto simp: soundField_def soundE_def)
  then show ?thesis using keeps_evalFields [OF _ a(1)] notes_evalFields [OF a(1) _ a(3)] by blast
qed

lemma sim_evalFields:
  "evalFields c slots fs env st = (env', st') \<Longrightarrow> list_all2 soundField fs rs \<Longrightarrow> inStep st env \<Longrightarrow> ctxOk c \<Longrightarrow> good g env \<Longrightarrow>
    fieldsR slots rs c g tr out \<Longrightarrow> (a_collect st \<longrightarrow> judgedAll c st' tr) \<and> (case out of None \<Rightarrow> True | Some g' \<Rightarrow> good g' env')"
proof (induction c slots fs env st arbitrary: rs g tr rule: evalFields.induct)
  case (1 c slots env st)
  then show ?case by auto
next
  case (2 c slots n ty loc f fs env st)
  obtain r rs' where rs: "rs = (n, ty, loc, r) # rs'" "soundE f r" "list_all2 soundField fs rs'"
    using "2.prems"(2) unfolding soundField_Cons by blast
  obtain v e1 st1 where f: "f c env st = (v, e1, st1)" by (cases "f c env st")
  let ?st2 = "case map_of slots n of Some slot \<Rightarrow> if is_f64_type ty then emitV c v (rs_path slot) (rs_cls slot) loc st1 else st1 | None \<Rightarrow> st1"
  let ?x = "\<lambda>x. case map_of slots n of Some slot \<Rightarrow> if is_f64_type ty then [Crossing x (rs_path slot) (rs_cls slot) loc] else [] | None \<Rightarrow> []"
  have s1: "keeps st st1" "inStep st1 e1" using soundE_state [OF rs(2) f "2.prems"(3)] by auto
  have s2: "keeps st1 ?st2" "inStep ?st2 e1" using s1(2) by (auto split: option.splits intro: inStep_steps)
  have rest: "evalFields c slots fs e1 ?st2 = (env', st')" using "2.prems"(1) f by simp
  have s3: "keeps ?st2 st'" using fields_state [OF rest rs(3) s2(2)] by blast
  have cc: "a_collect st1 = a_collect st" "a_collect ?st2 = a_collect st" using s1(1) s2(1) by (auto simp: keeps_def)
  from "2.prems"(6) rs(1) consider (halt) "r c g tr Halt" "out = None"
    | (val) x g1 tr1 tr2 where "r c g tr1 (Val x g1)" "fieldsR slots rs' c g1 tr2 out" "tr = tr1 @ ?x x @ tr2" by auto
  then show ?case
  proof cases
    case halt
    from soundED [OF rs(2) f "2.prems"(3-5) halt(1)] halt(2) s2(1) s3 show ?thesis by (auto intro: judgedAll_keeps keeps_trans)
  next
    case val
    note a = soundED [OF rs(2) f "2.prems"(3-5) val(1)]
    have g1: "good g1 e1" "x \<in> gamma v" using a by auto
    have b: "(a_collect ?st2 \<longrightarrow> judgedAll c st' tr2) \<and> (case out of None \<Rightarrow> True | Some g' \<Rightarrow> good g' env')"
      using "2.IH" [OF f [symmetric] refl _ rs(3) s2(2) "2.prems"(4) g1(1) val(2)] rest by simp
    have "judgedAll c ?st2 (?x x)" if "a_collect st" using judged_emitV [OF g1(2)] that cc(1) by (auto split: option.splits)
    then have "judgedAll c st' (tr1 @ ?x x)" if "a_collect st" using a that s2(1) s3 by (auto intro: judgedAll_keeps keeps_trans)
    then show ?thesis using b cc(2) val(3) by simp
  qed
qed

lemma simE_recordLit:
  assumes "list_all2 soundField fs rs"
  shows "simE (\<lambda>c env st. case evalFields c (case map_of (cfg_records (c_cfg c)) (ty_shape ty) of None \<Rightarrow> [] | Some m \<Rightarrow> m) fs env st of
      (env, st) \<Rightarrow> (TOP, env, st)) (recordLitR ty rs)"
proof (rule simEI)
  fix c :: Ctx and env st v env' st' g tr out
  let ?m = "case map_of (cfg_records (c_cfg c)) (ty_shape ty) of None \<Rightarrow> [] | Some m \<Rightarrow> m"
  assume a: "(case evalFields c ?m fs env st of (env, st) \<Rightarrow> (TOP, env, st)) = (v, env', st')" "inStep st env" "ctxOk c" "good g env"
    "recordLitR ty rs c g tr out"
  have e: "evalFields c ?m fs env st = (env', st')" "v = TOP" using a(1) by (auto split: prod.splits)
  obtain o' where o: "fieldsR ?m rs c g tr o'" "case o' of None \<Rightarrow> out = Halt | Some g' \<Rightarrow> anyVal c g' [] out"
    using a(5) by (auto simp: recordLitR_def)
  from sim_evalFields [OF e(1) assms a(2-4) o(1)] o(2) e(2)
  show "(a_collect st \<longrightarrow> judgedAll c st' tr) \<and> outOk v env' out" by (auto simp: anyVal_def gamma_TOP split: option.splits)
qed

lemma simE_short [sim_intros]: assumes "soundE f r" "soundE f' r'" shows "simE (evalShort f f') (shortR r r')"
  unfolding shortR_def
proof (rule simE_then [where fs = "[f]" and h = "\<lambda>c vs env st. case f' c env st of (_, right, st) \<Rightarrow>
       (TOP, mergeInto env (joinEnv (Some env) (Some right)), st)"])
  fix c and vs :: "AbsVal list" and env st v env' st' and xs :: "jsdouble list" and g tr out
  assume h: "(case f' c env st of (_, right, st) \<Rightarrow> (TOP, mergeInto env (joinEnv (Some env) (Some right)), st)) = (v, env', st')"
    and i: "inStep st env" and c: "ctxOk c" and g: "good g env"
    and k: "anyVal c g tr out \<or> thenR [r'] (\<lambda>_. anyVal) c g tr out"
  obtain v1 right where f: "f' c env st = (v1, right, st')" "v = TOP" "env' = mergeInto env (joinEnv (Some env) (Some right))"
    using h by (auto split: prod.splits)
  have m: "good g' env'" if "good g' env \<or> good g' right" for g'
    unfolding f(3) using that good_join [of "Some env" g' "Some right"] by (intro good_merge) auto
  from k consider (no) "anyVal c g tr out" | (halt) "r' c g tr Halt" "out = Halt" | (val) x g1 where "r' c g tr (Val x g1)" "anyVal c g1 [] out"
    by (auto simp: thenR_def anyVal_def)
  then show "keeps st st' \<and> (a_collect st \<longrightarrow> judgedAll c st' tr) \<and> outOk v env' out"
  proof cases
    case no
    then show ?thesis using soundE_state [OF assms(2) f(1) i] m [of g] g f(2) by (auto simp: anyVal_def gamma_TOP)
  next
    case halt
    then show ?thesis using soundED [OF assms(2) f(1) i c g halt(1)] by auto
  next
    case val
    then show ?thesis using soundED [OF assms(2) f(1) i c g val(1)] m [of g1] f(2) by (auto simp: anyVal_def gamma_TOP)
  qed
next
  fix c vs env st v env' st'
  assume "(case f' c env st of (_, right, st) \<Rightarrow> (TOP, mergeInto env (joinEnv (Some env) (Some right)), st)) = (v, env', st')"
  then show "keeps st st'" using assms(2) by (auto split: prod.splits simp: soundE_def dest: keepsED)
qed (use assms in \<open>auto simp: evalShort_def split: prod.splits\<close>)

subsection \<open>Conditions\<close>

text \<open>Walking a pure expression leaves the environment describing the same configurations.\<close>

definition calmE :: "EvalF \<Rightarrow> bool" where
  "calmE f \<longleftrightarrow> (\<forall>c env st v env' st' g. f c env st = (v, env', st') \<longrightarrow> good g env \<longrightarrow> good g env')"

lemma calmED: "calmE f \<Longrightarrow> f c env st = (v, env', st') \<Longrightarrow> good g env \<Longrightarrow> good g env'"
  unfolding calmE_def by blast

lemma calm_evalAll: "evalAll fs c env st = (vs, env', st') \<Longrightarrow> list_all calmE fs \<Longrightarrow> good g env \<Longrightarrow> good g env'"
proof (induction fs arbitrary: env st vs)
  case (Cons f fs)
  obtain v e1 st1 where f: "f c env st = (v, e1, st1)" by (cases "f c env st")
  obtain vs' where "evalAll fs c e1 st1 = (vs', env', st')" using Cons.prems(1) f by (auto split: prod.splits)
  moreover have cf: "calmE f" using Cons.prems(2) by simp
  moreover have "good g e1" by (rule calmED [OF cf f Cons.prems(3)])
  ultimately show ?case using Cons.IH Cons.prems(2) by simp
qed simp

lemma static_pure: "staticAccessPath e \<noteq> None \<Longrightarrow> isPure e"
  by (cases e) (auto simp: isPure.simps)

lemma static_obj: "staticAccessPath (RecordGet a s f ty l) \<noteq> None \<Longrightarrow> staticAccessPath a \<noteq> None"
  "staticAccessPath (FieldGet a s f ty l) \<noteq> None \<Longrightarrow> staticAccessPath a \<noteq> None"
  by (auto split: option.splits)

lemma calmEI: "(\<And>c env st v env' st' g. f c env st = (v, env', st') \<Longrightarrow> good g env \<Longrightarrow> good g env') \<Longrightarrow> calmE f"
  unfolding calmE_def by blast

lemma calmE_kids: "list_all calmE fs \<Longrightarrow> (\<And>g env. good g env \<Longrightarrow> good g (h env)) \<Longrightarrow> calmE (evalKids h fs)"
  by (rule calmEI) (auto simp: evalKids_def split: prod.splits dest: calm_evalAll)

lemma calmE_math: "list_all calmE fs \<Longrightarrow> calmE (evalMath m fs)"
  by (rule calmEI) (auto simp: evalMath_def split: prod.splits dest!: calm_evalAll intro: good_clear)

lemma calmE_short: "calmE f \<Longrightarrow> calmE f' \<Longrightarrow> calmE (evalShort f f')"
proof (rule calmEI)
  fix c env st v env' st' g
  assume a: "calmE f" "calmE f'" "evalShort f f' c env st = (v, env', st')" "good g env"
  obtain v1 e1 st1 v2 e2 where f: "f c env st = (v1, e1, st1)" "f' c e1 st1 = (v2, e2, st')" and e: "env' = mergeInto e1 (joinEnv (Some e1) (Some e2))"
    using a(3) by (auto simp: evalShort_def split: prod.splits)
  have "good g e1" using calmED [OF a(1) f(1) a(4)] .
  then show "good g env'" unfolding e using good_join [of "Some e1" g "Some e2"] by (intro good_merge) auto
qed

lemma calmE_const: "calmE (\<lambda>c env st. (v c env, env, st))"
  by (auto simp: calmE_def)

lemma calmE_two:
  assumes "calmE f" "calmE f'" shows "calmE (\<lambda>c env st. case f c env st of (x, env, st) \<Rightarrow> case f' c env st of (y, env, st) \<Rightarrow> (h c x y, env, st))"
  by (rule calmEI) (auto split: prod.splits dest!: calmED [OF assms(1)] calmED [OF assms(2)])

lemma calmE_one: assumes "calmE f" shows "calmE (\<lambda>c env st. case f c env st of (x, env, st) \<Rightarrow> (h c x, env, st))"
  by (rule calmEI) (auto split: prod.splits dest!: calmED [OF assms(1)])

lemma good_havocTOP: assumes "good g env" shows "good g (havocAllGlobals env)"
proof -
  have "callStep {} (snd g) (snd g)" using assms by (simp add: callStep_def good_def)
  from good_havocAll [OF assms this] show ?thesis by simp
qed

lemma calm_all: "isPure e \<Longrightarrow> calmE (evalExpr e)" "s = (s :: IrStmt)"
proof (induction e and s)
  case (RecordGet a s f ty l)
  have "calmE (evalExpr a)" using RecordGet static_pure static_obj(1) [of a s f ty l] by simp
  then show ?case
    by (auto intro!: calmEI simp: evalRecordGet_def split: prod.splits option.splits if_splits dest: calmED)
next
  case (FieldGet a s f ty l)
  have "calmE (evalExpr a)" using FieldGet static_pure static_obj(2) [of a s f ty l] by simp
  then show ?case by (auto intro!: calmE_kids)
next
  case (Bin op a b ty l)
  then show ?case unfolding evalExpr.simps by (intro calmE_two) auto
next
  case (Unary op a ty l)
  then show ?case unfolding evalExpr.simps by (intro calmE_one) auto
qed (auto intro!: calmE_const calmE_kids calmE_math calmE_short simp: list_all_iff good_clear good_havocTOP)

text \<open>Along the edge a pure condition takes, the refined environment describes the configuration.\<close>

lemma cond_edges:
  assumes "isPure e" "evalExpr e c env st = (v, env1, st1)" "refineBoth c e env1 st1 = (t, d, st2)" "good g env"
  shows "condR e True c g g' \<Longrightarrow> \<exists>env'. t = Some env' \<and> good g' env'" "condR e False c g g' \<Longrightarrow> \<exists>env'. d = Some env' \<and> good g' env'"
  by (fact good_refineBoth [OF assms(3) calmED [OF calm_all(1) [OF assms(1)] assms(2,4)]])+

subsection \<open>Sequences\<close>

lemma list_soundS: "list_all2 soundS fs rs \<Longrightarrow> list_all keepsS fs \<and> list_all notesS fs"
  by (induction rule: list_all2_induct) (auto simp: soundS_def)

lemma flowOk_keeps: "flowOk res obj st out \<Longrightarrow> keeps st st' \<Longrightarrow> flowOk res obj st' out"
  by (cases out) (auto intro: recordedIn_keeps)

lemma sim_execSeq:
  "execSeq fs c same cur obj st = (res, obj', st') \<Longrightarrow> list_all2 soundS fs rs \<Longrightarrow> inStep st cur \<Longrightarrow> inStep st obj \<Longrightarrow> (same \<Longrightarrow> cur = obj) \<Longrightarrow>
    ctxOk c \<Longrightarrow> good g cur \<Longrightarrow> seqR rs c g tr out \<Longrightarrow> (a_collect st \<longrightarrow> judgedAll c st' tr) \<and> flowOk res obj' st' out"
proof (induction fs arbitrary: rs same cur obj st g tr)
  case Nil
  then show ?case by auto
next
  case (Cons f fs)
  obtain r rs' where rs: "rs = r # rs'" "soundS f r" "list_all2 soundS fs rs'" using Cons.prems(2) by (auto simp: list_all2_Cons1)
  obtain r1 cur1 st1 where f: "f c cur st = (r1, cur1, st1)" by (cases "f c cur st")
  let ?obj = "if same then cur1 else obj"
  have s1: "keeps st st1" "inStep st1 cur1" "\<And>e. resEnv r1 cur1 = Some e \<Longrightarrow> inStep st1 e"
    using soundS_state [OF rs(2) f Cons.prems(3)] by auto
  have "advances st st1" using rs(2) f Cons.prems(3) unfolding soundS_def by (blast dest: notesSD)
  then have o: "inStep st1 ?obj" using s1(2) Cons.prems(4) by (auto intro: inStep_steps)
  have cc: "a_collect st1 = a_collect st" using s1(1) by (simp add: keeps_def)
  define nxt where "nxt = (case r1 of Null \<Rightarrow> None | Same \<Rightarrow> Some (same, cur1) | Fresh e \<Rightarrow> Some (False, e))"
  have rest: "case nxt of None \<Rightarrow> (res, obj', st') = (Null, ?obj, st1) | Some (b, e) \<Rightarrow> execSeq fs c b e ?obj st1 = (res, obj', st')"
    using Cons.prems(1) f by (auto simp: nxt_def Let_def split: ExecRes.splits)
  have k2: "keeps st1 st'"
    using rest keeps_execSeq list_soundS [OF rs(3)] by (auto split: option.splits)
  from Cons.prems(8) rs(1) consider (cut) "tr = []" "out = Stop" | (leave) "r c g tr out" "\<And>g'. out \<noteq> Next g'"
    | (go) g1 tr1 tr2 where "r c g tr1 (Next g1)" "seqR rs' c g1 tr2 out" "tr = tr1 @ tr2" by auto
  then show ?case
  proof cases
    case cut
    then show ?thesis by simp
  next
    case leave
    note a = soundSD [OF rs(2) f Cons.prems(3,6,7) leave(1)]
    then have "flowOk res obj' st1 out" using leave(2) by (cases out) auto
    then show ?thesis using a k2 by (auto intro: judgedAll_keeps flowOk_keeps)
  next
    case go
    note a = soundSD [OF rs(2) f Cons.prems(3,6,7) go(1)]
    then obtain e where e: "resEnv r1 cur1 = Some e" "good g1 e" by auto
    then obtain b where n: "nxt = Some (b, e)" "b \<Longrightarrow> e = ?obj" using nxt_def by (cases r1) auto
    have "execSeq fs c b e ?obj st1 = (res, obj', st')" using rest n(1) by simp
    from Cons.IH [OF this rs(3) s1(3) [OF e(1)] o n(2) Cons.prems(6) e(2) go(2)] a k2 cc go(3)
    show ?thesis by (auto intro: judgedAll_keeps)
  qed
qed

lemma sim_execStmts:
  assumes "execStmts fs c env st = (eo, st')" "list_all2 soundS fs rs" "inStep st env" "ctxOk c" "good g env" "seqR rs c g tr out"
  shows "keeps st st' \<and> (a_collect st \<longrightarrow> judgedAll c st' tr) \<and> flowOk (toRes eo) obj st' out"
proof -
  obtain res obj' where e: "execSeq fs c True env env st = (res, obj', st')" "eo = resEnv res obj'"
    using assms(1) by (auto simp: execStmts_def split: prod.splits)
  have k: "keeps st st'" using keeps_execSeq [OF _ e(1)] list_soundS [OF assms(2)] by blast
  from sim_execSeq [OF e(1) assms(2,3,3) refl assms(4-6)] k show ?thesis
    by (cases out) (auto simp: e(2))
qed

lemma sim_execOpt:
  assumes "execOpt fs c (Some env) st = (eo, st')" "list_all2 soundS fs rs" "inStep st env" "ctxOk c" "good g env" "seqR rs c g tr out"
  shows "keeps st st' \<and> (a_collect st \<longrightarrow> judgedAll c st' tr) \<and> flowOk (toRes eo) obj st' out"
  using assms unfolding execOpt_def by (auto dest: sim_execStmts)

lemma simE_seq [sim_intros]: assumes "list_all2 soundS fs rs" "soundE f r" shows "simE (evalSeq fs f) (seqExprR rs r)"
proof (rule simEI)
  fix c env st v env' st' g tr out
  assume a: "evalSeq fs f c env st = (v, env', st')" "inStep st env" "ctxOk c" "good g env" "seqExprR rs r c g tr out"
  obtain res obj st1 where e: "execSeq fs c True env env st = (res, obj, st1)" by (cases "execSeq fs c True env env st")
  note n = notes_execSeq [OF e _ a(2,2)]
  have n: "keeps st st1" "\<And>z. resEnv res obj = Some z \<Longrightarrow> inStep st1 z"
    using n keeps_execSeq [OF _ e] list_soundS [OF assms(1)] by auto
  note s = sim_execSeq [OF e assms(1) a(2,2) refl a(3,4)]
  have k: "keeps st1 st'" using a(1) e n assms(2) by (auto simp: evalSeq_def soundE_def split: option.splits dest: keepsED)
  from a(5) consider (halt) o' where "seqR rs c g tr o'" "out = Halt"
    | (val) g1 tr1 tr2 where "seqR rs c g tr1 (Next g1)" "r c g1 tr2 out" "tr = tr1 @ tr2" by (auto simp: seqExprR_def)
  then show "(a_collect st \<longrightarrow> judgedAll c st' tr) \<and> outOk v env' out"
  proof cases
    case halt
    then show ?thesis using s [OF halt(1)] k by (auto intro: judgedAll_keeps)
  next
    case val
    obtain z where z: "resEnv res obj = Some z" "good g1 z" using s [OF val(1)] by auto
    have f: "f c z st1 = (v, env', st')" using a(1) e z(1) by (simp add: evalSeq_def)
    from soundED [OF assms(2) f n(2) [OF z(1)] a(3) z(2) val(2)] s [OF val(1)] n(1) k val(3)
    show ?thesis by (auto intro: judgedAll_keeps simp: keeps_def)
  qed
qed

lemma sim_evalOpt:
  assumes "evalOpt f c (Some env) st = (v, eo, st')" "soundE f r" "inStep st env" "ctxOk c" "good g env" "r c g tr out"
  shows "keeps st st' \<and> (a_collect st \<longrightarrow> judgedAll c st' tr) \<and> (case out of Val x g' \<Rightarrow> x \<in> gamma v \<and> (\<exists>e. eo = Some e \<and> good g' e) | Halt \<Rightarrow> True)"
proof -
  obtain e where e: "f c env st = (v, e, st')" "eo = Some e" using assms(1) by (auto simp: evalOpt_def split: prod.splits)
  from soundED [OF assms(2) e(1) assms(3-6)] e(2) show ?thesis by (cases out) auto
qed

text \<open>The state after a pure condition and the refinement of both its edges.\<close>

lemma cond_state:
  assumes "isPure e" "okE e" "evalExpr e c env st = (v, env1, st1)" "refineBoth c e env1 st1 = (t, d, st2)" "inStep st env"
  shows "keeps st st2 \<and> inStep st2 env1 \<and> (\<forall>z. t = Some z \<longrightarrow> inStep st2 z) \<and> (\<forall>z. d = Some z \<longrightarrow> inStep st2 z)"
proof -
  have a: "keeps st st1" "advances st st1" "inStep st1 env1"
    using keepsED [OF keeps_all(1) assms(3)] notesED [OF notes_all(1) [OF assms(2)] assms(3,5)] by auto
  have b: "keeps st1 st2" by (rule keeps_refineBoth [OF assms(4)])
  have "has st1 env1" using a(3) by (simp add: inStep_def)
  note n = advances_refineBoth [OF assms(2,4) this]
  have "framesNoted st2" using a(3) n by (auto simp: inStep_def advances_def)
  then show ?thesis using a b n by (auto simp: inStep_def intro: keeps_trans has_steps)
qed

lemma simE_ternary:
  assumes "isPure e" "okE e" "soundE f r" "soundE f' r'" shows "simE (evalTernary e (evalExpr e) f f') (ternaryR e r r')"
proof (rule simEI)
  fix c env st v env' st' g tr out
  assume a: "evalTernary e (evalExpr e) f f' c env st = (v, env', st')" "inStep st env" "ctxOk c" "good g env" "ternaryR e r r' c g tr out"
  obtain v1 e1 st1 t d st2 va t' st3 vb d' where
    x: "evalExpr e c env st = (v1, e1, st1)" "refineBoth c e e1 st1 = (t, d, st2)" and
    b: "evalOpt f c t st2 = (va, t', st3)" and q: "evalOpt f' c d st3 = (vb, d', st')" and
    v: "env' = mergeInto e1 (joinEnv t' d')" "v = joinVal va vb"
    using a(1) by (auto simp: evalTernary_def split: prod.splits)
  note s = cond_state [OF assms(1,2) x a(2)]
  have k: "keeps st2 st3" "keeps st3 st'" "advances st2 st3"
    using keeps_evalOpt [OF _ b] keeps_evalOpt [OF _ q] notes_evalOpt [OF b] s assms(3,4) by (auto simp: soundE_def inStep_def)
  have cc: "a_collect st2 = a_collect st" "a_collect st3 = a_collect st" using s k by (auto simp: keeps_def)
  have m: "good g' env'" if "(\<exists>z. t' = Some z \<and> good g' z) \<or> (\<exists>z. d' = Some z \<and> good g' z)" for g'
    unfolding v(1) using good_join [OF that] by (rule good_merge)
  from a(5) consider (yes) g' where "condR e True c g g'" "r c g' tr out" | (no) g' where "condR e False c g g'" "r' c g' tr out"
    by (auto simp: ternaryR_def)
  then show "(a_collect st \<longrightarrow> judgedAll c st' tr) \<and> outOk v env' out"
  proof cases
    case yes
    then obtain z where z: "t = Some z" "good g' z" using cond_edges(1) [OF assms(1) x a(4)] by blast
    have "inStep st2 z" using s z(1) by blast
    from sim_evalOpt [OF b [unfolded z(1)] assms(3) this a(3) z(2) yes(2)] k(2) cc m v(2) show ?thesis
      by (cases out) (auto intro: judgedAll_keeps joinVal_upper1)
  next
    case no
    then obtain z where z: "d = Some z" "good g' z" using cond_edges(2) [OF assms(1) x a(4)] by blast
    have "inStep st3 z" using s z(1) k(3) by (blast intro: inStep_steps)
    from sim_evalOpt [OF q [unfolded z(1)] assms(4) this a(3) z(2) no(2)] cc m v(2) show ?thesis
      by (cases out) (auto intro: joinVal_upper2)
  qed
qed

subsection \<open>Statements\<close>

lemma simS_after:
  assumes "list_all2 soundE fs rs"
    and f: "\<And>c env st. f c env st = (case evalAll fs c env st of (vs, env, st) \<Rightarrow> h c vs env st)"
    and k: "\<And>c vs env st res obj st' xs g tr out. h c vs env st = (res, obj, st') \<Longrightarrow> list_all2 (\<lambda>x v. x \<in> gamma v) xs vs \<Longrightarrow> length vs = length fs \<Longrightarrow> inStep st env \<Longrightarrow>
      ctxOk c \<Longrightarrow> good g env \<Longrightarrow> k xs c g tr out \<Longrightarrow> (a_collect st \<longrightarrow> judgedAll c st' tr) \<and> flowOk res obj st' out"
    and h: "\<And>c vs env st res obj st'. h c vs env st = (res, obj, st') \<Longrightarrow> inStep st env \<Longrightarrow> keeps st st'"
  shows "simS f (afterR rs k)"
proof (rule simSI)
  fix c env st res obj st' g tr out
  assume a: "f c env st = (res, obj, st')" "inStep st env" "ctxOk c" "good g env" "afterR rs k c g tr out"
  obtain vs e1 st1 where e: "evalAll fs c env st = (vs, e1, st1)" by (cases "evalAll fs c env st")
  have hh: "h c vs e1 st1 = (res, obj, st')" using a(1) by (simp add: f e)
  note all = sim_evalAll [OF e assms(1) a(2-4)]
  from a(5) consider (halt) "evalsR rs c g tr None" "out = Stop"
    | (val) xs g1 tr1 tr2 where "evalsR rs c g tr1 (Some (xs, g1))" "k xs c g1 tr2 out" "tr = tr1 @ tr2"
    unfolding afterR_def by blast
  then show "(a_collect st \<longrightarrow> judgedAll c st' tr) \<and> flowOk res obj st' out"
  proof cases
    case halt
    then show ?thesis using all [OF halt(1)] h [OF hh] by (auto intro: judgedAll_keeps)
  next
    case val
    note s = all [OF val(1)]
    have "a_collect st1 = a_collect st" using s by (simp add: keeps_def)
    with k [OF hh _ evalAll_length [OF e] _ a(3) _ val(2)] h [OF hh] s val(3) show ?thesis by (auto intro: judgedAll_keeps)
  qed
qed

lemma simS_skip [sim_intros]: "simS (\<lambda>c env st. (Same, env, st)) skipR"
  by (rule simSI) (auto simp: skipR_def)

lemma simS_stop [sim_intros]: "simS (\<lambda>c env st. (Null, env, st)) stopR"
  by (rule simSI) (auto simp: stopR_def)

lemma simS_expr: "soundE f r \<Longrightarrow> simS (\<lambda>c env st. case f c env st of (_, env, st) \<Rightarrow> (Same, env, st)) (afterR [r] (\<lambda>_. skipR))"
  by (rule simS_after [where fs = "[f]" and h = "\<lambda>c vs env st. (Same, env, st)"]) (auto simp: skipR_def split: prod.splits)

lemma simS_bind [sim_intros]: "soundE f r \<Longrightarrow> idOk x \<Longrightarrow> simS (execBind x f) (bindR' x r)"
  unfolding bindR'_def
  by (rule simS_after [where fs = "[f]" and h = "\<lambda>c vs env st. (Same, bindVar c x (vs ! 0) env st, st)"])
    (auto simp: execBind_def inStep_def list_all2_conv_all_nth intro: good_bind split: prod.splits)

lemma simS_write [sim_intros]: "list_all2 soundE fs rs \<Longrightarrow> simS (execWrite fs) (writeR rs)"
  unfolding writeR_def
  by (rule simS_after [where h = "\<lambda>c vs env st. (Same, clearPathFacts env, st)"])
    (auto simp: execWrite_def intro: good_heap_pair split: prod.splits)

lemma soundE_pair: "soundE f r \<Longrightarrow> soundE f' r' \<Longrightarrow> list_all2 soundE [f, f'] [r, r']"
  by simp

lemma simS_recordSet [sim_intros]:
  assumes "soundE f r" "soundE f' r'" shows "simS (execRecordSet f shape field f' loc) (recordSetR r shape field r' loc)"
  unfolding recordSetR_def
  by (rule simS_after [OF soundE_pair [OF assms], where h = "\<lambda>c vs env st. (Same, clearPathFacts env,
        case recSlotOf (c_cfg c) shape field of None \<Rightarrow> st | Some slot \<Rightarrow> emitV c (vs ! 1) (rs_path slot) (rs_cls slot) loc st)"])
    (auto simp: execRecordSet_def Let_def list_all2_conv_all_nth intro: good_heap_pair judged_emitV split: prod.splits option.splits)

lemma simS_throw [sim_intros]: "soundE f r \<Longrightarrow> simS (execThrow f) (afterR [r] (\<lambda>_. stopR))"
  by (rule simS_after [where fs = "[f]" and h = "\<lambda>c vs env st. (Null, env, st)"]) (auto simp: execThrow_def stopR_def split: prod.splits)

lemma simS_return [sim_intros]: assumes "rel_option soundE f r" shows "simS (execReturn f loc) (returnR r loc)"
proof (cases f)
  case None
  then have "r = None" using assms by simp
  then show ?thesis using None by (auto intro!: simSI simp: execReturn_def returnR_def stopR_def)
next
  case (Some f')
  then obtain r' where r: "r = Some r'" "soundE f' r'" using assms by (auto simp: option_rel_Some1)
  show ?thesis unfolding Some r(1) returnR_def option.case
    by (rule simS_after [where fs = "[f']" and h = "\<lambda>c vs env st. (Null, env,
          case c_ret c of None \<Rightarrow> st | Some (cls, path) \<Rightarrow> emitV c (vs ! 0) path cls loc st)"])
      (use r(2) in \<open>auto simp: execReturn_def list_all2_conv_all_nth intro: judged_emitV split: prod.splits option.splits\<close>)
qed

lemma recordedIn_jumpTo: "good g env \<Longrightarrow> recordedIn k label g (jumpTo label k env fs)"
proof (induction fs)
  case (Cons f fs)
  have "frameMatches label k (addJump k env f) = frameMatches label k f" by (simp add: frameMatches_def addJump_def split: option.splits)
  then show ?case using Cons by (cases k) (auto simp: addJump_def)
qed simp

lemma simS_jump [sim_intros]: "simS (execJump k label) (jumpR k label)"
  by (rule simSI) (auto simp: execJump_def jumpR_def recordedIn_jumpTo)

lemma simS_if:
  assumes "isPure e" "okE e" "list_all2 soundS ts rs" "rel_option (list_all2 soundS) es rs'"
  shows "simS (execIf e (evalExpr e) ts es) (ifR e rs rs')"
proof (rule simSI)
  fix c env st res obj st' g tr out
  assume a: "execIf e (evalExpr e) ts es c env st = (res, obj, st')" "inStep st env" "ctxOk c" "good g env" "ifR e rs rs' c g tr out"
  obtain v1 st1 t d st2 ea st3 eb where
    x: "evalExpr e c env st = (v1, obj, st1)" "refineBoth c e obj st1 = (t, d, st2)" and
    b: "execOpt ts c t st2 = (ea, st3)" and q: "(case es of None \<Rightarrow> (d, st3) | Some es \<Rightarrow> execOpt es c d st3) = (eb, st')" and
    r: "res = toRes (joinEnv ea eb)"
    using a(1) by (auto simp: execIf_def split: prod.splits)
  note s = cond_state [OF assms(1,2) x a(2)]
  have ks: "list_all keepsS ts" "list_all notesS ts" using list_soundS [OF assms(3)] by auto
  have k: "keeps st2 st3" "advances st2 st3" using keeps_execOpt [OF ks(1) b] notes_execOpt [OF b ks(2)] s by (auto simp: inStep_def)
  have k2: "keeps st3 st'"
    using q keeps_execOpt assms(4) list_soundS by (cases es; cases rs') (auto, blast)
  have cc: "a_collect st2 = a_collect st" "a_collect st3 = a_collect st" using s k by (auto simp: keeps_def)
  have m: "\<exists>z. resEnv res obj = Some z \<and> good g' z" if "(\<exists>z. ea = Some z \<and> good g' z) \<or> (\<exists>z. eb = Some z \<and> good g' z)" for g'
    using good_join [OF that] r by simp
  from a(5) consider (yes) g' where "condR e True c g g'" "seqR rs c g' tr out"
    | (no) g' where "condR e False c g g'" "case rs' of None \<Rightarrow> skipR c g' tr out | Some rs \<Rightarrow> seqR rs c g' tr out"
    by (auto simp: ifR_def)
  then show "(a_collect st \<longrightarrow> judgedAll c st' tr) \<and> flowOk res obj st' out"
  proof cases
    case yes
    then obtain z where z: "t = Some z" "good g' z" using cond_edges(1) [OF assms(1) x a(4)] by blast
    have i: "inStep st2 z" using s z(1) by blast
    note w = sim_execOpt [OF b [unfolded z(1)] assms(3) i a(3) z(2) yes(2)]
    then have "flowOk res obj st3 out" using m by (cases out) auto
    then show ?thesis using w k2 cc by (auto intro: judgedAll_keeps flowOk_keeps)
  next
    case no
    then obtain z where z: "d = Some z" "good g' z" using cond_edges(2) [OF assms(1) x a(4)] by blast
    have i: "inStep st3 z" using s z(1) k(2) by (blast intro: inStep_steps)
    show ?thesis
    proof (cases es)
      case None
      then have "rs' = None" using assms(4) by simp
      then show ?thesis using no(2) q z m [of g'] None by (auto simp: skipR_def)
    next
      case (Some fs)
      then obtain rs1 where rs1: "rs' = Some rs1" "list_all2 soundS fs rs1" using assms(4) by (auto simp: option_rel_Some1)
      have "execOpt fs c (Some z) st3 = (eb, st')" "seqR rs1 c g' tr out" using q no(2) Some rs1(1) z(1) by auto
      from sim_execOpt [OF this(1) rs1(2) i a(3) z(2) this(2)] cc m show ?thesis by (cases out) auto
    qed
  qed
qed

text \<open>A frame that was pushed catches the jumps bound to it and passes on the others.\<close>

lemma recordedIn_pop:
  assumes "recordedIn k label g (a_frames st1)" "popFrame st1 = (f, st2)" "a_frames st1 \<noteq> []"
  shows "if frameMatches label k f then (\<exists>e \<in> set (if k = JBreak then fr_breaks f else fr_continues f). good g e) else recordedIn k label g (a_frames st2)"
  using assms by (cases "a_frames st1") (auto simp: popFrame_def)

lemma pushed_frames: "keeps (pushFrame k ls st) st1 \<Longrightarrow> a_frames st1 \<noteq> []"
  by (auto simp: keeps_def pushFrame_def list_all2_Cons1)

lemma frameExt_matches: "frameExt (newFrame kind ls) f \<Longrightarrow> frameMatches label k f = frameMatches label k (newFrame kind ls)"
  by (auto simp: frameMatches_def frameExt_def split: option.splits)

lemma simS_block [sim_intros]: assumes "list_all2 soundS fs rs" shows "simS (execBlock fs ls) (blockR rs ls)"
proof (rule simSI)
  fix c env st res obj st' g tr out
  assume a: "execBlock fs ls c env st = (res, obj, st')" "inStep st env" "ctxOk c" "good g env" "blockR rs ls c g tr out"
  obtain out' where o: "seqR rs c g tr out'"
    "case out' of Jump JBreak label g' \<Rightarrow> if labelHit ls label then out = Next g' else out = out' | _ \<Rightarrow> out = out'"
    using a(5) by (auto simp: blockR_def)
  show "(a_collect st \<longrightarrow> judgedAll c st' tr) \<and> flowOk res obj st' out"
  proof (cases "ls = []")
    case True
    then have "out = out'" using o(2) by (auto simp: labelHit_def split: flow.splits jump.splits option.splits)
    then show ?thesis using sim_execSeq [OF _ assms a(2,2) refl a(3,4) o(1)] a(1) True by (auto simp: execBlock_def)
  next
    case False
    obtain r1 st1 fr where e: "execSeq fs c True env env (pushFrame BlockF ls st) = (r1, obj, st1)" and p: "popFrame st1 = (fr, st')" and
      r: "res = (if fr_breaks fr = [] then r1 else toRes (joinAll (resEnv r1 obj) (fr_breaks fr)))"
      using a(1) False unfolding execBlock_def by (auto split: prod.splits)
    have i: "inStep (pushFrame BlockF ls st) env" using a(2) advances_push by (blast intro: inStep_steps)
    have k: "keeps (pushFrame BlockF ls st) st1" using keeps_execSeq [OF _ e] list_soundS [OF assms] by blast
    have fr: "frameExt (newFrame BlockF ls) fr" "keeps st st'" using popFrame_keeps [OF k p] by auto
    have v: "a_verdicts st' = a_verdicts st1" using p by (auto simp: popFrame_def)
    note s = sim_execSeq [OF e assms i i refl a(3,4) o(1)]
    have fm: "frameMatches label kk fr = (kk = JBreak \<and> labelHit ls label)" for label kk
      unfolding frameExt_matches [OF fr(1)] by (auto simp: frameMatches_def newFrame_def labelHit_def split: option.splits)
    have m: "\<exists>z. resEnv res obj = Some z \<and> good g' z" if "(\<exists>z. resEnv r1 obj = Some z \<and> good g' z) \<or> (\<exists>z \<in> set (fr_breaks fr). good g' z)" for g'
      using good_joinAll [OF that] that r by (auto split: if_splits)
    have "flowOk res obj st' out"
    proof (cases out')
      case (Next g')
      then show ?thesis using s o(2) m by auto
    next
      case (Jump k' label g')
      then have "recordedIn k' label g' (a_frames st1)" using s by simp
      from recordedIn_pop [OF this p pushed_frames [OF k]] fm [of label k'] Jump o(2) m show ?thesis
        by (cases k') (auto split: if_splits)
    next
      case Stop
      then show ?thesis using o(2) by simp
    qed
    moreover have "a_collect st \<longrightarrow> judgedAll c st' tr" using s v by (auto simp: pushFrame_def judgedAll_def judged_def)
    ultimately show ?thesis by blast
  qed
qed

end
