(* ===== verification/Int_Correct.thy ===== *)
theory Int_Correct
  imports Int_Simulate
begin

text \<open>
  Loops and switches of the analyzer (library/int-infer.ts) simulate their runs, and with them
  every supported program. A loop's runs are followed by induction over their rounds, on the
  header the fixpoint stops at: the header describes every configuration at the top of the loop,
  whether the iteration converged or was given up at its cap.
\<close>

section \<open>Loops\<close>

definition soundOpts :: "LoopOpts \<Rightarrow> LoopSem \<Rightarrow> bool" where
  "soundOpts opts ls \<longleftrightarrow> notesOpts opts \<and> keepsOpts opts \<and>
     rel_option (\<lambda>(e, f) e'. e' = e \<and> f = evalExpr e \<and> isPure e \<and> okE e) (lo_cond opts) (ls_cond ls) \<and>
     list_all2 soundS (lo_body opts) (ls_body ls) \<and> rel_option soundS (lo_update opts) (ls_update ls) \<and>
     ls_labels ls = lo_labels opts \<and> ls_doWhile ls = lo_doWhile opts \<and> ls_seed ls = lo_seed opts \<and> ls_always ls = lo_always opts"

lemma soundOpts_cond:
  assumes "soundOpts opts ls"
  shows "lo_cond opts = None \<and> ls_cond ls = None \<or> (\<exists>e. lo_cond opts = Some (e, evalExpr e) \<and> ls_cond ls = Some e \<and> isPure e \<and> okE e)"
  using assms by (cases "lo_cond opts"; cases "ls_cond ls") (auto simp: soundOpts_def)

lemma soundOpts_parts: assumes "soundOpts opts ls" shows "notesOpts opts" "keepsOpts opts" "list_all2 soundS (lo_body opts) (ls_body ls)"
  "rel_option soundS (lo_update opts) (ls_update ls)" "ls_labels ls = lo_labels opts" "ls_doWhile ls = lo_doWhile opts" "ls_seed ls = lo_seed opts"
  "ls_always ls = lo_always opts"
  using assms by (simp_all add: soundOpts_def)

lemma sim_loopEntry:
  assumes "loopEntry c opts head st = (e, st')" "soundOpts opts ls" "good g head" "enterR ls c g g'"
  shows "\<exists>env. e = Some env \<and> good g' env"
proof -
  note so = soundOpts_parts [OF assms(2)]
  obtain g1 where g1: "case ls_cond ls of Some e \<Rightarrow> if ls_doWhile ls then g1 = g else condR e True c g g1 | None \<Rightarrow> g1 = g"
    and sd: "case ls_seed ls of None \<Rightarrow> g' = g1 | Some x \<Rightarrow> (\<exists>v. is_f64 v \<and> g' = (insert x (fst g1), (snd g1)\<lparr> s_var := (s_var (snd g1))(x := v) \<rparr>))"
    using assms(4) unfolding enterR_def by blast
  obtain e1 where 1: "(case lo_cond opts of Some (e, f) \<Rightarrow> if lo_doWhile opts then (Some head, st)
      else (case f c head st of (_, env, st) \<Rightarrow> refineSt c e True False env st) | None \<Rightarrow> (Some head, st)) = (e1, st')"
    and e: "e = (case lo_seed opts of None \<Rightarrow> e1 | Some x \<Rightarrow> map_option (\<lambda>env. envSet env x TOP) e1)"
    using assms(1) unfolding loopEntry_def Let_def by (auto split: prod.splits)
  have "\<exists>env. e1 = Some env \<and> good g1 env"
    using soundOpts_cond [OF assms(2)]
  proof
    assume "lo_cond opts = None \<and> ls_cond ls = None"
    then show ?thesis using 1 g1 assms(3) by auto
  next
    assume "\<exists>e. lo_cond opts = Some (e, evalExpr e) \<and> ls_cond ls = Some e \<and> isPure e \<and> okE e"
    then obtain cond where cd: "lo_cond opts = Some (cond, evalExpr cond)" "ls_cond ls = Some cond" "isPure cond" by blast
    show ?thesis
    proof (cases "lo_doWhile opts")
      case True
      then show ?thesis using 1 g1 assms(3) cd so(6) by auto
    next
      case False
      obtain v env1 st1 where f: "evalExpr cond c head st = (v, env1, st1)" by (cases "evalExpr cond c head st")
      have "good g env1" by (rule calmED [OF calm_all(1) [OF cd(3)] f assms(3)])
      moreover have "refineSt c cond True False env1 st1 = (e1, st')" "condR cond True c g g1" using 1 g1 cd False f so(6) by auto
      ultimately show ?thesis using good_refineSt by blast
    qed
  qed
  then obtain env where env: "e1 = Some env" "good g1 env" by blast
  show ?thesis
  proof (cases "lo_seed opts")
    case None
    then show ?thesis using env e sd so(7) by auto
  next
    case (Some x)
    have "idOk x" using so(1) Some by (simp add: notesOpts_def)
    then show ?thesis using Some env e sd so(7) good_setVar [OF env(2)] gamma_TOP by auto
  qed
qed

lemma sim_loopUpdate:
  assumes "loopUpdate c opts (Some env) st = (eo, st')" "soundOpts opts ls" "inStep st env" "ctxOk c" "good g env" "updateR ls c g tr out"
  shows "(a_collect st \<longrightarrow> judgedAll c st' tr) \<and> (\<forall>g'. out = Next g' \<longrightarrow> (\<exists>z. eo = Some z \<and> good g' z))"
proof (cases "lo_update opts")
  case None
  then have "ls_update ls = None" using soundOpts_parts(4) [OF assms(2)] by simp
  then show ?thesis using assms(1,5,6) None by (auto simp: loopUpdate_def updateR_def skipR_def)
next
  case (Some u)
  then obtain r where r: "ls_update ls = Some r" "soundS u r" using soundOpts_parts(4) [OF assms(2)] by (auto simp: option_rel_Some1)
  obtain res obj where u: "u c env st = (res, obj, st')" "eo = resEnv res obj" using assms(1) Some by (auto simp: loopUpdate_def split: prod.splits)
  from soundSD [OF r(2) u(1) assms(3-5)] assms(6) r(1) u(2) show ?thesis by (fastforce simp: updateR_def)
qed

fun tripOk :: "Env option \<Rightarrow> Env option \<Rightarrow> LoopFrame \<Rightarrow> AState \<Rightarrow> IrExpr option \<Rightarrow> Ctx \<Rightarrow> tripOut \<Rightarrow> bool" where
  "tripOk bk pb f st cond c (Around g) = (\<exists>e. bk = Some e \<and> good g e)"
| "tripOk bk pb f st cond c (Bottom g) = (\<exists>p e g0. pb = Some p \<and> cond = Some e \<and> good g0 p \<and> condR e False c g0 g)"
| "tripOk bk pb f st cond c (Broke g) = (\<exists>e \<in> set (fr_breaks f). good g e)"
| "tripOk bk pb f st cond c (Left (Jump k label g)) = recordedIn k label g (a_frames st)"
| "tripOk bk pb f st cond c (Left (Next g)) = False"
| "tripOk bk pb f st cond c (Left Stop) = True"

lemma bodyOut_sound:
  assumes "flowOk (toRes out) obj st2 fl" "popFrame st2 = (f, st3)" "a_frames st2 \<noteq> []" "frameExt (newFrame LoopF ls) f"
  shows "case bodyOut ls fl of Inl g \<Rightarrow> (\<exists>z. joinAll out (fr_continues f) = Some z \<and> good g z)
    | Inr res \<Rightarrow> tripOk bk pb f st3 cond c res"
proof -
  have fm: "frameMatches label kk f = (label = None \<or> labelHit ls label)" for label kk
    unfolding frameExt_matches [OF assms(4)] by (cases kk) (auto simp: frameMatches_def newFrame_def labelHit_def split: option.splits)
  show ?thesis
  proof (cases fl)
    case (Next g)
    then show ?thesis using assms(1) good_joinAll [of out g "fr_continues f"] by auto
  next
    case (Jump k label g)
    then have r: "recordedIn k label g (a_frames st2)" using assms(1) by simp
    show ?thesis using recordedIn_pop [OF r assms(2,3)] fm [of label k] Jump good_joinAll [of out g "fr_continues f"]
      by (cases k) (auto split: if_splits)
  next
    case Stop
    then show ?thesis by simp
  qed
qed

lemma sim_loopBack:
  assumes "loopBack c opts (Some env) st = (bk, pb, st')" "soundOpts opts ls" "good g3 env"
    and "backR ls c (Next g3) res"
  shows "tripOk bk pb f st'' (ls_cond ls) c res"
  using soundOpts_cond [OF assms(2)]
proof
  assume "lo_cond opts = None \<and> ls_cond ls = None"
  then show ?thesis using assms by (auto simp: loopBack_def backR_def)
next
  assume "\<exists>e. lo_cond opts = Some (e, evalExpr e) \<and> ls_cond ls = Some e \<and> isPure e \<and> okE e"
  then obtain cond where cd: "lo_cond opts = Some (cond, evalExpr cond)" "ls_cond ls = Some cond" "isPure cond" by blast
  show ?thesis
  proof (cases "lo_doWhile opts")
    case False
    then show ?thesis using assms cd soundOpts_parts(6) [OF assms(2)] by (auto simp: loopBack_def backR_def)
  next
    case True
    obtain v env1 st1 where f: "evalExpr cond c env st = (v, env1, st1)" by (cases "evalExpr cond c env st")
    have g1: "good g3 env1" by (rule calmED [OF calm_all(1) [OF cd(3)] f assms(3)])
    have r: "refineSt c cond True False env1 st1 = (bk, st')" and p: "pb = Some env1"
      using assms(1) cd(1) True f by (auto simp: loopBack_def split: prod.splits)
    from assms(4) cd(2) True soundOpts_parts(6) [OF assms(2)]
    consider (again) g4 where "condR cond True c g3 g4" "res = Around g4" | (over) g4 where "condR cond False c g3 g4" "res = Bottom g4" by (auto simp: backR_def)
    then show ?thesis
    proof cases
      case again
      then show ?thesis using good_refineSt [OF again(1) g1 r] by simp
    next
      case over
      then show ?thesis using p cd(2) g1 by (simp del: split_paired_Ex) blast
    qed
  qed
qed

lemma tripOk_keeps: "tripOk bk pb f st cond c res \<Longrightarrow> keeps st st' \<Longrightarrow> tripOk bk pb f st' cond c res"
  by (induction bk pb f st cond c res rule: tripOk.induct) (auto intro: recordedIn_keeps)

lemma sim_runLoopBodyOnce:
  assumes "runLoopBodyOnce c opts head st = (bk, pb, f, st')" "soundOpts opts ls" "inStep st head" "ctxOk c" "good g head" "tripR ls c g tr res"
  shows "(a_collect st \<longrightarrow> judgedAll c st' tr) \<and> tripOk bk pb f st' (ls_cond ls) c res"
proof -
  note so = soundOpts_parts [OF assms(2)]
  obtain bodyIn st1 out st2 st3 out' st4 where
    e: "loopEntry c opts head st = (bodyIn, st1)" and
    b: "execOpt (lo_body opts) c bodyIn (pushFrame LoopF (lo_labels opts) st1) = (out, st2)" and
    p: "popFrame st2 = (f, st3)" and
    u: "loopUpdate c opts (joinAll out (fr_continues f)) st3 = (out', st4)" and
    l: "loopBack c opts out' st4 = (bk, pb, st')"
    using assms(1) unfolding runLoopBodyOnce_def by (auto split: prod.splits)
  obtain g1 tr1 fl where en: "enterR ls c g g1" and bd: "seqR (ls_body ls) c g1 tr1 fl" and
    ct: "case bodyOut (ls_labels ls) fl of Inr res' \<Rightarrow> res = res' \<and> tr = tr1
        | Inl g2 \<Rightarrow> (\<exists>tr2 out2. updateR ls c g2 tr2 out2 \<and> tr = tr1 @ tr2 \<and> backR ls c out2 res)"
    using assms(6) unfolding tripR_def by blast
  obtain env where env: "bodyIn = Some env" "good g1 env" using sim_loopEntry [OF e assms(2,5) en] by blast
  let ?p = "pushFrame LoopF (lo_labels opts) st1"
  note s1 = notes_loopEntry [OF e so(1) assms(3)]
  have k1: "keeps st st1" by (rule keeps_loopEntry [OF so(2) e])
  have i: "inStep ?p env" using s1 env(1) advances_push [of st1] by (auto simp: inStep_def advances_def intro: has_grows)
  have lb: "list_all keepsS (lo_body opts)" "list_all notesS (lo_body opts)" using list_soundS [OF so(3)] by auto
  have kb: "keeps ?p st2" by (rule keeps_execOpt [OF lb(1) b])
  note sb = sim_execOpt [OF b [unfolded env(1)] so(3) i assms(4) env(2) bd]
  note pop = popFrame_keeps [OF kb p] and ne = pushed_frames [OF kb]
  have k4: "keeps st3 st4" "keeps st4 st'" using keeps_loopUpdate [OF so(2) u] keeps_loopBack [OF so(2) l] by auto
  have v: "a_verdicts st3 = a_verdicts st2" using p by (auto simp: popFrame_def)
  have cc: "a_collect ?p = a_collect st" "a_collect st3 = a_collect st" using k1 pop(1) by (auto simp: keeps_def pushFrame_def)
  have j1: "a_collect st \<longrightarrow> judgedAll c st3 tr1" using sb cc v by (auto simp: judgedAll_def judged_def)
  have bo: "case bodyOut (ls_labels ls) fl of Inl g \<Rightarrow> (\<exists>z. joinAll out (fr_continues f) = Some z \<and> good g z)
    | Inr res \<Rightarrow> tripOk bk pb f st3 (ls_cond ls) c res"
    using bodyOut_sound [OF _ p ne pop(2), of out env fl bk pb "ls_cond ls" c] sb so(5) by simp
  show ?thesis
  proof (cases "bodyOut (ls_labels ls) fl")
    case (Inr res')
    then have "tripOk bk pb f st3 (ls_cond ls) c res" "tr = tr1" using bo ct by auto
    then show ?thesis using k4 j1 by (auto intro: tripOk_keeps judgedAll_keeps)
  next
    case (Inl g2)
    then obtain z where z: "joinAll out (fr_continues f) = Some z" "good g2 z" using bo by auto
    obtain tr2 out2 where up: "updateR ls c g2 tr2 out2" "tr = tr1 @ tr2" and
      ct2: "backR ls c out2 res"
      using ct Inl by auto
    note s2 = notes_execOpt [OF b lb(2)]
    have fn: "framesNoted st2" "\<And>z. out = Some z \<Longrightarrow> inStep st2 z" using s2 i env(1) by (auto simp: inStep_def)
    have s3: "advances st2 st3" "frameNoted st3 f" "framesNoted st3" using advances_pop [OF p ne] fn by (auto simp: advances_def)
    have "inStep st3 z" by (rule inStep_joinAll [OF z(1)]) (use fn s3 in \<open>auto simp: inStep_def frameNoted_def intro: has_steps\<close>)
    note su = sim_loopUpdate [OF u [unfolded z(1)] assms(2) this assms(4) z(2) up(1)]
    have j: "a_collect st \<longrightarrow> judgedAll c st' tr" using su j1 cc k4 up(2) by (auto intro: judgedAll_keeps keeps_trans)
    show ?thesis
    proof (cases out2)
      case (Next g3)
      then obtain z' where z': "out' = Some z'" "good g3 z'" using su by blast
      show ?thesis using sim_loopBack [OF l [unfolded z'(1)] assms(2) z'(2)] ct2 Next j by auto
    qed (use ct2 j in \<open>auto simp: backR_def\<close>)
  qed
qed


text \<open>The header the fixpoint stops at describes every configuration at the top of the loop.\<close>

lemma sameVal_gamma: "sameVal a b \<Longrightarrow> x \<in> gamma b \<Longrightarrow> x \<in> gamma a"
  by (auto simp: sameVal_def gamma_def feq_def fle_def split: if_splits)

lemma gamma_f64: "x \<in> gamma v \<Longrightarrow> is_f64 x"
  by (simp add: gamma_def)

lemma noPaths_get: "noPaths env \<Longrightarrow> envGet env (pathKeyOf cls steps) = defaultVal (pathKeyOf cls steps)"
  by (rule envGet_absent) (fastforce simp: noPaths_def)

text \<open>An environment without path facts describes a store when its bindings do.\<close>

lemma good_pointwise:
  assumes "good g env" "\<And>x. x \<in> fst g \<Longrightarrow> pathClassOfKey x = None \<Longrightarrow> s_var (snd g) x \<in> gamma (envGet env x) \<Longrightarrow> s_var (snd g) x \<in> gamma (envGet env' x)"
    "noPaths env'"
  shows "good g env'"
  using assms(1,2) noPaths_get [OF assms(3)] describes_default by (auto simp: good_def describes_def)

lemma good_mono: "good g env \<Longrightarrow> good (D \<inter> fst g, snd g) env"
  by (auto simp: good_def intro: describes_mono)

lemma envEquals_good: assumes "envEquals a b" "good g b" "noPaths a" shows "good g a"
proof (rule good_pointwise [OF assms(2) _ assms(3)])
  fix x assume x: "s_var (snd g) x \<in> gamma (envGet b x)"
  show "s_var (snd g) x \<in> gamma (envGet a x)"
  proof (cases "x \<in> set (keysOf a b)")
    case True
    then show ?thesis using assms(1) x sameVal_gamma by (auto simp: envEquals_def list_all_iff)
  next
    case False
    then show ?thesis using x by (simp add: keysOf_iff envGet_absent)
  qed
qed

lemma good_widen: assumes "good g nxt" shows "good g (widenEnv prev nxt)"
proof (rule good_pointwise [OF assms])
  fix x assume "pathClassOfKey x = None" "s_var (snd g) x \<in> gamma (envGet nxt x)"
  then show "s_var (snd g) x \<in> gamma (envGet (widenEnv prev nxt) x)"
    unfolding widenEnv_def envGet_pointwise by (auto intro: widen_upper simp: keysOf_iff envGet_absent)
qed (rule noPaths_next(2))

text \<open>A header that was given up on: every key it has is unknown.\<close>

lemma allTop_get: "pathClassOfKey k = None \<Longrightarrow> envGet (map (\<lambda>(k, _). (k, TOP)) env) k = (if k \<in> fst ` set env \<or> isGlobalId k then TOP else BOTTOM)"
  by (induction env) (auto simp: envGet_def defaultVal_def)

lemma gamma_BOTTOM: "gamma BOTTOM = {}"
  by (auto simp: gamma_def BOTTOM_def fle_def)

lemma good_allTop: assumes "good g env" "noPaths env" shows "good g (map (\<lambda>(k, _). (k, TOP)) env)"
proof (rule good_pointwise [OF assms(1) _ noPaths_next(3) [OF assms(2)]])
  fix x assume x: "pathClassOfKey x = None" "s_var (snd g) x \<in> gamma (envGet env x)"
  have "x \<in> fst ` set env \<or> isGlobalId x"
  proof (rule ccontr)
    assume "\<not> (x \<in> fst ` set env \<or> isGlobalId x)"
    then have "envGet env x = BOTTOM" using x(1) by (simp add: envGet_absent defaultVal_def)
    then show False using x(2) by (simp add: gamma_BOTTOM)
  qed
  then show "s_var (snd g) x \<in> gamma (envGet (map (\<lambda>(k, _). (k, TOP)) env) x)"
    using x gamma_TOP [OF gamma_f64 [OF x(2)]] by (simp add: allTop_get)
qed

lemma good_allTop_again:
  assumes "good g (map (\<lambda>(k, _). (k, TOP)) env)" "good g' e" "noPaths env"
  shows "good (fst g \<inter> fst g', snd g') (map (\<lambda>(k, _). (k, TOP)) env)"
proof (rule good_pointwise [OF _ _ noPaths_next(3) [OF assms(3)]])
  show "good (fst g \<inter> fst g', snd g') e" using assms(2) by (auto simp: good_def intro: describes_mono)
  fix x assume x: "x \<in> fst (fst g \<inter> fst g', snd g')" "pathClassOfKey x = None" "s_var (snd (fst g \<inter> fst g', snd g')) x \<in> gamma (envGet e x)"
  then have "s_var (snd g) x \<in> gamma (envGet (map (\<lambda>(k, _). (k, TOP)) env) x)" using assms(1) by (auto simp: good_def describes_def)
  then show "s_var (snd (fst g \<inter> fst g', snd g')) x \<in> gamma (envGet (map (\<lambda>(k, _). (k, TOP)) env) x)"
    using x(2) gamma_TOP [OF gamma_f64 [OF x(3)]] by (auto simp: allTop_get gamma_BOTTOM split: if_splits)
qed

lemma sim_fixHead:
  "fixHead c opts n head st = (head', st') \<Longrightarrow> 0 < n \<Longrightarrow> soundOpts opts ls \<Longrightarrow> ctxOk c \<Longrightarrow> noPaths head \<Longrightarrow> framesNoted st \<Longrightarrow>
    (good g head \<longrightarrow> good g head') \<and> (good g head' \<longrightarrow> tripR ls c g tr (Around g') \<longrightarrow> good (fst g \<inter> fst g', snd g') head')"
proof (induction n arbitrary: head st)
  case (Suc n)
  obtain bk pb f st1 where b: "runLoopBodyOnce c opts head st = (bk, pb, f, st1)" by (cases "runLoopBodyOnce c opts head st")
  have i: "inStep st head" using Suc.prems(5,6) noPaths_has by (simp add: inStep_def)
  have s1: "framesNoted st1" using notes_runLoopBodyOnce [OF b soundOpts_parts(1) [OF Suc.prems(3)] i] by simp
  define nxt where "nxt = (let e = (case joinEnv (Some head) bk of Some e \<Rightarrow> e | None \<Rightarrow> head) in if LOOP_CAP - n > WIDEN_AFTER then widenEnv head e else e)"
  have np: "noPaths nxt" using noPaths_next(1,2) Suc.prems(5) by (simp add: nxt_def Let_def)
  have nx: "good h nxt" if or: "good h head \<or> (\<exists>e. bk = Some e \<and> good h e)" for h
  proof -
    obtain e where "joinEnv (Some head) bk = Some e" "good h e" using good_join [of "Some head" h bk] or by auto
    then show ?thesis using good_widen by (simp add: nxt_def Let_def)
  qed
  have unf: "fixHead c opts (Suc n) head st = (if envEquals head nxt then (head, st1)
      else if n = 0 then (map (\<lambda>(k, _). (k, TOP)) nxt, st1) else fixHead c opts n nxt st1)"
    by (simp add: b nxt_def Let_def)
  note res = Suc.prems(1) [unfolded unf]
  show ?case
  proof (cases "envEquals head nxt")
    case True
    have "good (fst g \<inter> fst g', snd g') head" if "good g head" "tripR ls c g tr (Around g')"
      using sim_runLoopBodyOnce [OF b Suc.prems(3) i Suc.prems(4) that] good_mono nx [of g'] envEquals_good [OF True _ Suc.prems(5)] by auto
    then show ?thesis using True res by auto
  next
    case False
    note res = res [unfolded if_not_P [OF False]]
    show ?thesis
    proof (cases "n = 0")
      case True
      then have h: "head' = map (\<lambda>(k, _). (k, TOP)) nxt" "st' = st1" using res by auto
      have np': "noPaths head'" using noPaths_next(3) [OF np] h(1) by simp
      obtain bk2 pb2 f2 st2 where b2: "runLoopBodyOnce c opts head' st1 = (bk2, pb2, f2, st2)" by (cases "runLoopBodyOnce c opts head' st1")
      have i2: "inStep st1 head'" using np' s1 noPaths_has by (simp add: inStep_def)
      have "good (fst g \<inter> fst g', snd g') head'" if "good g head'" "tripR ls c g tr (Around g')"
        using sim_runLoopBodyOnce [OF b2 Suc.prems(3) i2 Suc.prems(4) that] good_allTop_again [OF that(1) [unfolded h(1)] _ np] h(1) by auto
      moreover have "good g head \<longrightarrow> good g head'" using nx good_allTop [OF _ np] h(1) by blast
      ultimately show ?thesis by blast
    next
      case n: False
      show ?thesis using Suc.IH [OF res [unfolded if_not_P [OF n]] _ Suc.prems(3,4) np s1] n nx by simp
    qed
  qed
qed simp


lemma sim_loopExit:
  assumes "loopExit c opts head pb st = (e, st')" "soundOpts opts ls" "ls_cond ls = Some cond"
  shows "\<not> ls_doWhile ls \<Longrightarrow> good g head \<Longrightarrow> condR cond False c g g' \<Longrightarrow> \<exists>z. e = Some z \<and> good g' z"
    and "ls_doWhile ls \<Longrightarrow> pb = Some p \<Longrightarrow> good g p \<Longrightarrow> condR cond False c g g' \<Longrightarrow> \<exists>z. e = Some z \<and> good g' z"
  using assms soundOpts_cond [OF assms(2)] soundOpts_parts(6) [OF assms(2)] good_refineSt [of cond False c g g' _ False]
  by (auto simp: loopExit_def)

lemma bodyOut_bottom: "bodyOut ls fl \<noteq> Inr (Bottom g)"
  by (induction ls fl rule: bodyOut.induct) auto

lemma backR_bottom: "backR ls c out (Bottom g) \<Longrightarrow> ls_doWhile ls"
  by (auto simp: backR_def split: flow.splits option.splits if_splits)

lemma trip_bottom: assumes "tripR ls c g tr (Bottom g')" shows "ls_doWhile ls"
proof -
  obtain fl tr1 where "case bodyOut (ls_labels ls) fl of Inr res' \<Rightarrow> Bottom g' = res' \<and> tr = tr1
      | Inl g2 \<Rightarrow> (\<exists>tr2 out2. updateR ls c g2 tr2 out2 \<and> tr = tr1 @ tr2 \<and> backR ls c out2 (Bottom g'))"
    using assms unfolding tripR_def by blast
  then show ?thesis
    by (cases "bodyOut (ls_labels ls) fl") (use bodyOut_bottom [of "ls_labels ls" fl g'] in \<open>auto dest: backR_bottom\<close>)
qed

lemma sim_loop:
  assumes trip: "runLoopBodyOnce c opts head st = (bk, pb, f, st2)" "soundOpts opts ls" "inStep st head" "ctxOk c"
    and exit: "loopExit c opts head pb st2 = (e, st3)"
    and inv: "\<And>g tr g'. good g head \<Longrightarrow> tripR ls c g tr (Around g') \<Longrightarrow> good (fst g \<inter> fst g', snd g') head"
  shows "loopR ls c g tr out \<Longrightarrow> good g head \<Longrightarrow>
    (a_collect st \<longrightarrow> judgedAll c st3 tr) \<and> flowOk (toRes (joinAll e (fr_breaks f))) obj st3 out"
proof (induction rule: loopR.induct)
  case (cut g)
  then show ?case by simp
next
  case (exitCond cond g g')
  then show ?case using sim_loopExit(1) [OF exit trip(2) exitCond(1,2) exitCond(4) exitCond(3)] good_joinAll [of e g' "fr_breaks f"] by auto
next
  case (exitDone g)
  have "e = Some head" using exit exitDone soundOpts_cond [OF trip(2)] soundOpts_parts(6,8) [OF trip(2)] by (auto simp: loopExit_def)
  then show ?case using good_joinAll [of e g "fr_breaks f"] exitDone by auto
next
  case (around g tr1 g' tr2 out)
  note t = sim_runLoopBodyOnce [OF trip around.prems around.hyps(1)]
  have "a_collect st \<longrightarrow> judgedAll c st3 tr1" using t judgedAll_keeps keeps_loopExit [OF exit] by blast
  then show ?case using around.IH inv [OF around.prems around.hyps(1)] by simp
next
  case (bottom g tr g')
  note t = sim_runLoopBodyOnce [OF trip bottom.prems bottom.hyps]
  then obtain p cond g0 where p: "pb = Some p" "ls_cond ls = Some cond" "good g0 p" "condR cond False c g0 g'" by auto
  from sim_loopExit(2) [OF exit trip(2) p(2) trip_bottom [OF bottom.hyps] p(1,3,4)] t show ?case
    using judgedAll_keeps keeps_loopExit [OF exit] good_joinAll [of e g' "fr_breaks f"] by auto
next
  case (broke g tr g')
  note t = sim_runLoopBodyOnce [OF trip broke.prems broke.hyps]
  then show ?case using judgedAll_keeps keeps_loopExit [OF exit] good_joinAll [of e g' "fr_breaks f"] by auto
next
  case (left g tr out)
  note t = sim_runLoopBodyOnce [OF trip left.prems left.hyps]
  then show ?case using judgedAll_keeps recordedIn_keeps keeps_loopExit [OF exit] by (cases out) auto
qed

lemma simS_execLoop [sim_intros]: assumes "soundOpts opts ls" shows "simS (\<lambda>c. execLoop c opts) (\<lambda>c. loopR ls c)"
proof (rule simSI)
  fix c env st res obj st' g tr out
  assume a: "execLoop c opts env st = (res, obj, st')" "inStep st env" "ctxOk c" "good g env" "loopR ls c g tr out"
  obtain head st1 bk pb f st2 e where
    h: "fixHead c opts LOOP_CAP (clearPathFacts env) (st\<lparr> a_collect := False \<rparr>) = (head, st1)" and
    b: "runLoopBodyOnce c opts head (st1\<lparr> a_collect := a_collect st \<rparr>) = (bk, pb, f, st2)" and
    ex: "loopExit c opts head pb st2 = (e, st')" and
    r: "res = toRes (joinAll e (fr_breaks f))"
    using a(1) unfolding execLoop_def by (auto simp: Let_def split: prod.splits)
  note so = soundOpts_parts [OF assms]
  have fn: "framesNoted (st\<lparr> a_collect := False \<rparr>)" "0 < LOOP_CAP" using a(2) by (simp_all add: inStep_def LOOP_CAP_def)
  note fx = sim_fixHead [OF h fn(2) assms a(3) noPaths_clear fn(1)]
  have i: "inStep (st1\<lparr> a_collect := a_collect st \<rparr>) head"
    using notes_fixHead [OF h so(1) noPaths_clear fn(1)] noPaths_has by (simp add: inStep_def)
  have "good g head" using fx [of g] good_clear [OF a(4)] by blast
  from sim_loop [OF b assms i a(3) ex _ a(5) this] fx r show "(a_collect st \<longrightarrow> judgedAll c st' tr) \<and> flowOk res obj st' out" by simp
qed

lemma soundS_execLoop: "soundOpts opts ls \<Longrightarrow> soundS (\<lambda>c. execLoop c opts) (\<lambda>c. loopR ls c)"
  unfolding soundS_def using keepsS_execLoop notesS_execLoop simS_execLoop soundOpts_parts(1,2) by blast

lemma execLoop_fresh: "execLoop c opts env st = (r, obj, st') \<Longrightarrow> r \<noteq> Same"
  by (cases r) (auto simp: execLoop_def Let_def split: prod.splits elim: toRes.elims)

lemma execFor_seq: "execFor (Some f) opts c env st = execSeq [f, \<lambda>c. execLoop c opts] c True env env st"
  by (auto simp: execFor_def split: prod.splits ExecRes.splits dest: execLoop_fresh)

lemma simS_for [sim_intros]:
  assumes "rel_option soundS i r" "soundOpts opts ls" shows "simS (execFor i opts) (forR r ls)"
proof (cases i)
  case None
  then show ?thesis using assms simS_execLoop [OF assms(2)] by (simp add: simS_def execFor_def forR_def)
next
  case (Some f)
  then obtain r' where r: "r = Some r'" "soundS f r'" using assms(1) by (auto simp: option_rel_Some1)
  show ?thesis
  proof (rule simSI)
    fix c env st res obj st' g tr out
    assume a: "execFor i opts c env st = (res, obj, st')" "inStep st env" "ctxOk c" "good g env" "forR r ls c g tr out"
    let ?fs = "[f, \<lambda>c. execLoop c opts]"
    have e: "execSeq ?fs c True env env st = (res, obj, st')" using a(1) Some by (simp add: execFor_seq del: execSeq.simps)
    have l: "list_all2 soundS ?fs [r', \<lambda>c. loopR ls c]" using r soundS_execLoop [OF assms(2)] by simp
    have "seqR [r', \<lambda>c. loopR ls c] c g tr out" using a(5) r by (simp add: forR_def)
    from sim_execSeq [OF e l a(2,2) refl a(3,4) this] show "(a_collect st \<longrightarrow> judgedAll c st' tr) \<and> flowOk res obj st' out" .
  qed
qed

lemma soundOpts_seed: "soundOpts opts ls \<Longrightarrow> pred_option idOk x \<Longrightarrow> soundOpts (opts\<lparr>lo_seed := x\<rparr>) (ls\<lparr>ls_seed := x\<rparr>)"
  by (simp add: soundOpts_def notesOpts_def keepsOpts_def)

lemma simS_forOf [sim_intros]:
  assumes "soundE f r" "soundOpts opts ls" "idOk x" shows "simS (execForOf x f opts) (forOfR x r ls)"
  unfolding forOfR_def
proof (rule simS_after [where fs = "[f]" and h = "\<lambda>c vs env st. execLoop c (opts\<lparr> lo_seed := (if x \<in> set (c_f64 c) then Some x else None) \<rparr>) env st"])
  fix c :: Ctx and vs :: "AbsVal list" and env and st :: AState and res obj st' and xs :: "jsdouble list" and g tr out
  have so: "soundOpts (opts\<lparr> lo_seed := (if x \<in> set (c_f64 c) then Some x else None) \<rparr>) (ls\<lparr> ls_seed := (if x \<in> set (c_f64 c) then Some x else None) \<rparr>)"
    using assms(2,3) by (intro soundOpts_seed) simp_all
  note s = soundS_execLoop [OF this]
  assume h: "execLoop c (opts\<lparr> lo_seed := (if x \<in> set (c_f64 c) then Some x else None) \<rparr>) env st = (res, obj, st')" "inStep st env"
  show "keeps st st'" using soundS_state [OF s h] by blast
  assume "ctxOk c" "good g env" "loopR (ls\<lparr> ls_seed := (if x \<in> set (c_f64 c) then Some x else None) \<rparr>) c g tr out"
  from soundSD [OF s h this] show "(a_collect st \<longrightarrow> judgedAll c st' tr) \<and> flowOk res obj st' out" by blast
qed (use assms(1) in \<open>auto simp: execForOf_def split: prod.splits\<close>)

lemma soundOpts_loopOpts [sim_intros]:
  assumes "rel_option (\<lambda>(e, f) e'. e' = e \<and> f = evalExpr e \<and> isPure e \<and> okE e) cond cond'" "list_all2 soundS body rs" "rel_option soundS upd r"
  shows "soundOpts (loopOpts cond body upd ls) (loopSem cond' rs r ls)"
proof -
  have "list_all keepsS body" "list_all notesS body" using list_soundS [OF assms(2)] by auto
  moreover have "pred_option keepsS upd" "pred_option notesS upd" using assms(3) by (cases upd; cases r; simp add: soundS_def)+
  moreover have "pred_option (\<lambda>(e, f). okE e \<and> notesE f) cond" "pred_option (\<lambda>p. keepsE (snd p)) cond"
    using assms(1) notes_all(1) keeps_all(1) by (cases cond; cases cond'; auto)+
  ultimately have "notesOpts (loopOpts cond body upd ls)" "keepsOpts (loopOpts cond body upd ls)"
    by (auto intro: notes_intros keeps_intros)
  then show ?thesis using assms by (simp add: soundOpts_def loopOpts_def loopSem_def)
qed

lemma soundOpts_flags [sim_intros]:
  "soundOpts opts ls \<Longrightarrow> soundOpts (opts\<lparr> lo_doWhile := b \<rparr>) (ls\<lparr> ls_doWhile := b \<rparr>)"
  "soundOpts opts ls \<Longrightarrow> soundOpts (opts\<lparr> lo_always := b \<rparr>) (ls\<lparr> ls_always := b \<rparr>)"
  by (simp_all add: soundOpts_def notesOpts_def keepsOpts_def)

section \<open>Switches\<close>

lemma seqR_append:
  "seqR (as @ bs) c g tr out \<Longrightarrow>
    seqR as c g tr out \<and> (\<forall>g'. out \<noteq> Next g') \<or> (\<exists>g1 tr1 tr2. seqR as c g tr1 (Next g1) \<and> seqR bs c g1 tr2 out \<and> tr = tr1 @ tr2)"
proof (induction as arbitrary: g tr)
  case Nil
  then show ?case by simp
next
  case (Cons a as)
  from Cons.prems consider (cut) "tr = []" "out = Stop" | (here) "a c g tr out" "\<forall>g'. out \<noteq> Next g'"
    | (go) g1 tr1 tr2 where "a c g tr1 (Next g1)" "seqR (as @ bs) c g1 tr2 out" "tr = tr1 @ tr2" by auto
  then show ?case
  proof cases
    case go
    from Cons.IH [OF go(2)] go(1,3) show ?thesis by (simp del: split_paired_Ex split_paired_All) (metis append.assoc)
  qed auto
qed

definition soundCase :: "EvalF option \<times> ExecF list \<Rightarrow> bool \<times> ExecR list \<Rightarrow> bool" where
  "soundCase a r \<longleftrightarrow> (fst r \<longleftrightarrow> fst a \<noteq> None) \<and> pred_option (\<lambda>f. calmE f \<and> keepsE f \<and> notesE f) (fst a) \<and> list_all2 soundS (snd a) (snd r)"

lemma cases_state: "list_all2 soundCase cs rs \<Longrightarrow> list_all keepsCase cs \<and> list_all notesCase cs"
  by (induction rule: list_all2_induct) (auto simp: soundCase_def keepsCase_def notesCase_def list_soundS option.pred_set)

lemma sim_execCases:
  "execCases c cs env running hasD st = (r, hasD', env', st') \<Longrightarrow> list_all2 soundCase cs rs \<Longrightarrow> inStep st env \<Longrightarrow> (\<And>e. running = Some e \<Longrightarrow> has st e) \<Longrightarrow> ctxOk c \<Longrightarrow>
    (good g env \<longrightarrow> good g env') \<and> hasD' = (hasD \<or> \<not> list_all fst rs) \<and>
    (good g env \<and> i < length cs \<or> i = 0 \<and> (\<exists>e. running = Some e \<and> good g e) \<longrightarrow> seqR (concat (map snd (drop i rs))) c g tr out \<longrightarrow>
      (a_collect st \<longrightarrow> judgedAll c st' tr) \<and> flowOk (toRes r) obj st' out)"
proof (induction c cs env running hasD st arbitrary: rs g tr i rule: execCases.induct)
  case (1 c env running hasD st)
  then show ?case by auto
next
  case (2 c t b cs env running hasD st)
  obtain hasD1 env1 st1 where t: "(case t of None \<Rightarrow> (True, env, st) | Some f \<Rightarrow> (case f c env st of (_, env, st) \<Rightarrow> (hasD, env, st))) = (hasD1, env1, st1)"
    by (metis prod_cases3)
  obtain run2 st2 where b: "(case joinEnv running (Some env1) of None \<Rightarrow> (None, st1) | Some e \<Rightarrow> execStmts b c e st1) = (run2, st2)"
    by fastforce
  obtain d rb rs' where rs: "rs = (d, rb) # rs'" and sc: "d = (t \<noteq> None)" "pred_option (\<lambda>f. calmE f \<and> keepsE f \<and> notesE f) t" "list_all2 soundS b rb" "list_all2 soundCase cs rs'"
    using "2.prems"(2) by (auto simp: list_all2_Cons1 soundCase_def [of "(t, b)"])
  have s1: "keeps st st1 \<and> advances st st1 \<and> inStep st1 env1 \<and> (good h env \<longrightarrow> good h env1) \<and> hasD1 = (hasD \<or> t = None)" for h
    using t sc(2) "2.prems"(3) by (cases t) (auto split: prod.splits dest: keepsED notesED calmED)
  obtain z where z: "joinEnv running (Some env1) = Some z" by (cases running) auto
  then have e: "execStmts b c z st1 = (run2, st2)" using b by simp
  have j: "inStep st1 z" by (rule inStep_join [OF z]) (use s1 "2.prems"(4) in \<open>auto simp: inStep_def intro: has_steps\<close>)
  have k2: "keeps st1 st2" "advances st1 st2" "\<And>e. run2 = Some e \<Longrightarrow> has st2 e"
    using keeps_execStmts [OF _ e] notes_execStmts [OF e _ j] list_soundS [OF sc(3)] by (auto simp: inStep_def)
  have i2: "inStep st2 env1" using s1 k2(2) by (blast intro: inStep_steps)
  have "execCases c cs env1 run2 hasD1 st2 = (r, hasD', env', st')" using "2.prems"(1) by (simp add: t b)
  note IH = "2.IH" [OF t [symmetric] refl refl b [symmetric] refl this sc(4) i2 k2(3) "2.prems"(5)]
  have k3: "keeps st2 st'" using keeps_execCases [OF _ \<open>execCases c cs env1 run2 hasD1 st2 = _\<close>] cases_state [OF sc(4)] by blast
  have cc: "a_collect st1 = a_collect st" "a_collect st2 = a_collect st" using s1 k2(1) by (auto simp: keeps_def)
  have "(a_collect st \<longrightarrow> judgedAll c st' tr) \<and> flowOk (toRes r) obj st' out"
    if en: "good g env \<and> i < length ((t, b) # cs) \<or> i = 0 \<and> (\<exists>e. running = Some e \<and> good g e)" and sq: "seqR (concat (map snd (drop i rs))) c g tr out"
  proof (cases i)
    case (Suc i')
    then show ?thesis using IH [of g i' tr] en sq s1 cc rs by auto
  next
    case 0
    have gz: "good g z" using good_join [of running g "Some env1"] en 0 s1 [of g] z by auto
    note sb = sim_execStmts [OF e sc(3) j "2.prems"(5) gz]
    have "seqR (rb @ concat (map snd rs')) c g tr out" using sq 0 rs by simp
    from seqR_append [OF this] show ?thesis
    proof
      assume a: "seqR rb c g tr out \<and> (\<forall>g'. out \<noteq> Next g')"
      then have f: "(a_collect st1 \<longrightarrow> judgedAll c st2 tr) \<and> flowOk (toRes run2) obj st2 out" using sb by blast
      then have "flowOk (toRes r) obj st2 out" using a by (cases out) auto
      then show ?thesis using f cc k3 by (blast intro: judgedAll_keeps flowOk_keeps)
    next
      assume "\<exists>g1 tr1 tr2. seqR rb c g tr1 (Next g1) \<and> seqR (concat (map snd rs')) c g1 tr2 out \<and> tr = tr1 @ tr2"
      then obtain g1 tr1 tr2 where a: "seqR rb c g tr1 (Next g1)" "seqR (concat (map snd rs')) c g1 tr2 out" "tr = tr1 @ tr2" by blast
      from sb [OF a(1), of obj] have f: "a_collect st \<longrightarrow> judgedAll c st2 tr1" "\<exists>e. run2 = Some e \<and> good g1 e" using cc by auto
      show ?thesis using IH [of g1 0 tr2] f a(2,3) cc k3 by (auto intro: judgedAll_keeps)
    qed
  qed
  moreover have "(good g env \<longrightarrow> good g env') \<and> hasD' = (hasD \<or> \<not> list_all fst rs)" using IH [of g] s1 [of g] rs sc(1) by auto
  ultimately show ?case by blast
qed

lemma simS_switch [sim_intros]:
  assumes "soundE f r" "list_all2 soundCase cs rs" shows "simS (execSwitch f cs ls) (switchR r rs ls)"
  unfolding switchR_def
proof (rule simS_after [where fs = "[f]" and h = "\<lambda>c vs env st.
     case execCases c cs env None False (pushFrame SwitchF ls st) of (running, hasDefault, env, st) \<Rightarrow>
     case popFrame st of (frame, st) \<Rightarrow>
     let out = joinAll running (fr_breaks frame)
     in (if hasDefault then toRes out
         else (case out of None \<Rightarrow> Same | Some _ \<Rightarrow> toRes (joinEnv out (Some env))), env, st)"])
  fix c :: Ctx and vs :: "AbsVal list" and env and st :: AState and res obj st' and xs :: "jsdouble list" and g tr out
  assume "(case execCases c cs env None False (pushFrame SwitchF ls st) of (running, hasDefault, env, st) \<Rightarrow>
     case popFrame st of (frame, st) \<Rightarrow>
     let out = joinAll running (fr_breaks frame)
     in (if hasDefault then toRes out
         else (case out of None \<Rightarrow> Same | Some _ \<Rightarrow> toRes (joinEnv out (Some env))), env, st)) = (res, obj, st')" and i: "inStep st env"
  then obtain run hasD st2 fr where b: "execCases c cs env None False (pushFrame SwitchF ls st) = (run, hasD, obj, st2)" and
    p: "popFrame st2 = (fr, st')" and
    rr: "res = (let out = joinAll run (fr_breaks fr) in if hasD then toRes out else (case out of None \<Rightarrow> Same | Some _ \<Rightarrow> toRes (joinEnv out (Some obj))))"
    by (auto simp: Let_def split: prod.splits)
  have k: "keeps (pushFrame SwitchF ls st) st2" using keeps_execCases [OF _ b] cases_state [OF assms(2)] by blast
  note pop = popFrame_keeps [OF k p]
  show "keeps st st'" by (rule pop(1))
  assume c: "ctxOk c" and g: "good g env" and
    run: "(\<exists>s'. refresh (snd g) s' \<and> tr = [] \<and> list_all fst rs \<and> out = Next (fst g, s')) \<or>
     (\<exists>i s' out'. refresh (snd g) s' \<and> i < length rs \<and> seqR (concat (map snd (drop i rs))) c (fst g, s') tr out' \<and>
       (case out' of Jump JBreak label g' \<Rightarrow> if label = None \<or> labelHit ls label then out = Next g' else out = out' | _ \<Rightarrow> out = out'))"
  have i': "inStep (pushFrame SwitchF ls st) env" using i advances_push by (blast intro: inStep_steps)
  note sim = sim_execCases [OF b assms(2) i' _ c]
  have m: "\<exists>z. resEnv res obj = Some z \<and> good g' z"
    if or: "((\<exists>z. run = Some z \<and> good g' z) \<or> (\<exists>z \<in> set (fr_breaks fr). good g' z)) \<or> \<not> hasD \<and> good g' obj" for g'
  proof (cases hasD)
    case True
    then show ?thesis using good_joinAll [of run g' "fr_breaks fr"] or by (simp add: rr Let_def)
  next
    case False
    have "(\<exists>z. joinAll run (fr_breaks fr) = Some z \<and> good g' z) \<or> good g' obj" using good_joinAll [of run g' "fr_breaks fr"] or by blast
    then show ?thesis using good_join [of "joinAll run (fr_breaks fr)" g' "Some obj"] False
      by (cases "joinAll run (fr_breaks fr)") (simp_all add: rr Let_def)
  qed
  have fm: "frameMatches label kk fr = (kk = JBreak \<and> (label = None \<or> labelHit ls label))" for label kk
    unfolding frameExt_matches [OF pop(2)] by (auto simp: frameMatches_def newFrame_def labelHit_def split: option.splits)
  from run show "(a_collect st \<longrightarrow> judgedAll c st' tr) \<and> flowOk res obj st' out"
  proof
    assume "\<exists>s'. refresh (snd g) s' \<and> tr = [] \<and> list_all fst rs \<and> out = Next (fst g, s')"
    then obtain s' where s: "refresh (snd g) s'" "tr = []" "list_all fst rs" "out = Next (fst g, s')" by blast
    show ?thesis using sim [of "(fst g, s')"] good_refresh [OF g s(1)] s m by simp
  next
    assume "\<exists>i s' out'. refresh (snd g) s' \<and> i < length rs \<and> seqR (concat (map snd (drop i rs))) c (fst g, s') tr out' \<and>
       (case out' of Jump JBreak label g' \<Rightarrow> if label = None \<or> labelHit ls label then out = Next g' else out = out' | _ \<Rightarrow> out = out')"
    then obtain j s' out' where s: "refresh (snd g) s'" "j < length rs" "seqR (concat (map snd (drop j rs))) c (fst g, s') tr out'" and
      o: "case out' of Jump JBreak label g' \<Rightarrow> if label = None \<or> labelHit ls label then out = Next g' else out = out' | _ \<Rightarrow> out = out'" by blast
    have w: "(a_collect st \<longrightarrow> judgedAll c st2 tr) \<and> flowOk (toRes run) obj st2 out'"
      using sim [of "(fst g, s')" j tr out' obj] good_refresh [OF g s(1)] s(2,3) list_all2_lengthD [OF assms(2)] by (simp add: pushFrame_def)
    have v: "a_verdicts st' = a_verdicts st2" using p by (auto simp: popFrame_def)
    have "flowOk res obj st' out"
    proof (cases out')
      case (Next g')
      then show ?thesis using w o m by auto
    next
      case (Jump k' label g')
      then have "recordedIn k' label g' (a_frames st2)" using w by simp
      from recordedIn_pop [OF this p pushed_frames [OF k]] fm [of label k'] Jump o m show ?thesis
        by (cases k') (auto split: if_splits)
    next
      case Stop
      then show ?thesis using o by simp
    qed
    then show ?thesis using w v by (auto simp: judgedAll_def judged_def)
  qed
qed (use assms(1) in \<open>auto simp: execSwitch_def split: prod.splits\<close>)

section \<open>The analyzer simulates every supported program\<close>

lemma soundE_expr: "okE e \<Longrightarrow> simE (evalExpr e) (semE e) \<Longrightarrow> soundE (evalExpr e) (semE e)"
  using keeps_all(1) notes_all(1) by (simp add: soundE_def)

lemma soundS_stmt: "okS s \<Longrightarrow> simS (execStmt s) (semS s) \<Longrightarrow> soundS (execStmt s) (semS s)"
  using keeps_all(2) notes_all(2) by (simp add: soundS_def)

lemma sound_lists:
  "(\<And>e. e \<in> set es \<Longrightarrow> soundE (evalExpr e) (semE e)) \<Longrightarrow> list_all2 soundE (map evalExpr es) (map semE es)"
  "(\<And>s. s \<in> set ss \<Longrightarrow> soundS (execStmt s) (semS s)) \<Longrightarrow> list_all2 soundS (map execStmt ss) (map semS ss)"
  "(\<And>b e. (b, e) \<in> set ks \<Longrightarrow> soundE (evalExpr e) (semE e)) \<Longrightarrow>
    list_all2 soundE (map snd (map (map_prod id evalExpr) ks)) (map snd (map (map_prod id semE) ks))"
  by (auto simp: list_all2_conv_all_nth dest!: nth_mem) (metis nth_mem prod.collapse)

lemma sound_fields:
  "(\<And>n e. (n, e) \<in> set fs \<Longrightarrow> soundE (evalExpr e) (semE e)) \<Longrightarrow>
    list_all2 soundField (fieldFns tys (map (map_prod id evalExpr) fs)) (fieldSems tys (map (map_prod id semE) fs))"
proof (induction fs arbitrary: tys)
  case (Cons a fs)
  then show ?case by (cases tys; cases a) (auto simp: fieldFns_def fieldSems_def soundField_def)
qed (simp add: fieldFns_def fieldSems_def)

lemma sound_cases:
  "list_all (\<lambda>(t, b). pred_option isPure t) cs \<Longrightarrow> list_all (\<lambda>(t, b). pred_option okE t) cs \<Longrightarrow>
   (\<And>t b s. (t, b) \<in> set cs \<Longrightarrow> s \<in> set b \<Longrightarrow> soundS (execStmt s) (semS s)) \<Longrightarrow>
   list_all2 soundCase (map (map_prod (map_option evalExpr) (map execStmt)) cs) (map (map_prod (\<lambda>t. t \<noteq> None) (map semS)) cs)"
proof (induction cs)
  case (Cons a cs)
  obtain t b where a: "a = (t, b)" by (cases a)
  have "pred_option (\<lambda>f. calmE f \<and> keepsE f \<and> notesE f) (map_option evalExpr t)"
    using Cons.prems(1,2) a calm_all(1) keeps_all(1) notes_all(1) by (cases t) auto
  moreover have "list_all2 soundS (map execStmt b) (map semS b)" using Cons.prems(3) a by (intro sound_lists(2)) auto
  ultimately show ?case using Cons a by (auto simp: soundCase_def)
qed simp

lemma sound_all:
  "okE e \<Longrightarrow> soundE (evalExpr e) (semE e)"
  "okS s \<Longrightarrow> soundS (execStmt s) (semS s)"
proof (induction e and s)
  case (Bin op a b ty l)
  show ?case
    by (rule soundE_expr [OF Bin.prems], unfold evalExpr.simps semE.simps, rule simE_bin) (use Bin in \<open>auto\<close>)
next
  case (Unary op a ty l)
  show ?case
    by (rule soundE_expr [OF Unary.prems], unfold evalExpr.simps semE.simps, rule simE_unary) (use Unary in \<open>auto\<close>)
next
  case (AssignExpr x a ty l)
  show ?case
    by (rule soundE_expr [OF AssignExpr.prems], unfold evalExpr.simps semE.simps, rule simE_assign) (use AssignExpr in \<open>auto\<close>)
next
  case (Ternary a b d ty l)
  show ?case
    by (rule soundE_expr [OF Ternary.prems], unfold evalExpr.simps semE.simps, rule simE_ternary) (use Ternary in \<open>auto\<close>)
next
  case (RecordGet a sh f ty l)
  show ?case
    by (rule soundE_expr [OF RecordGet.prems], unfold evalExpr.simps semE.simps, rule simE_recordGet) (use RecordGet in \<open>auto\<close>)
next
  case (RecordLit fs ty l)
  show ?case
    by (rule soundE_expr [OF RecordLit.prems], unfold evalExpr.simps semE.simps, rule simE_recordLit) (use RecordLit in \<open>fastforce intro!: sound_fields simp: list_all_iff snds.simps\<close>)
next
  case (Opaque k kids ty l)
  show ?case
    by (rule soundE_expr [OF Opaque.prems], unfold evalExpr.simps semE.simps, rule simE_opaque) (use Opaque in \<open>fastforce intro!: sound_lists simp: list_all_iff snds.simps\<close>)
next
  case (Other k kids ty l)
  show ?case
    by (rule soundE_expr [OF Other.prems], unfold evalExpr.simps semE.simps, rule simE_other) (use Other in \<open>fastforce intro!: sound_lists simp: list_all_iff snds.simps\<close>)
next
  case (ExprStmt e)
  show ?case
    by (rule soundS_stmt [OF ExprStmt.prems], unfold execStmt.simps semS.simps, rule simS_expr) (use ExprStmt in \<open>auto\<close>)
next
  case (SIf e t el)
  show ?case
    by (rule soundS_stmt [OF SIf.prems], unfold execStmt.simps semS.simps, rule simS_if) (use SIf in \<open>(cases el; auto intro!: sound_lists simp: list_all_iff)+\<close>)
next
  case (For i e u b ls)
  have "rel_option (\<lambda>(e, f) e'. e' = e \<and> f = evalExpr e \<and> isPure e \<and> okE e) (pairCond e (map_option evalExpr e)) e"
    using For.prems by (cases e) (auto simp: pairCond_def)
  moreover have "rel_option soundS (map_option execStmt i) (map_option semS i)" "rel_option soundS (map_option execStmt u) (map_option semS u)"
    using For by (cases i; cases u; auto)+
  ultimately show ?case
    by (intro soundS_stmt [OF For.prems], unfold execStmt.simps semS.simps, intro simS_for soundOpts_loopOpts)
      (use For in \<open>auto intro!: sound_lists simp: list_all_iff\<close>)
next
  case (Switch e cs ls)
  have "list_all2 soundCase (map (map_prod (map_option evalExpr) (map execStmt)) cs) (map (map_prod (\<lambda>t. t \<noteq> None) (map semS)) cs)"
  proof (rule sound_cases)
    show "list_all (\<lambda>(t, b). pred_option isPure t) cs" using Switch.prems by simp
    show "list_all (\<lambda>(t, b). pred_option okE t) cs" using Switch.prems by (fastforce simp: list_all_iff option.pred_set)
    fix t b s assume s: "(t, b) \<in> set cs" "s \<in> set b"
    then have "okS s" using Switch.prems by (fastforce simp: list_all_iff)
    then show "soundS (execStmt s) (semS s)" using Switch.IH(3) [OF s(1) _ s(2)] by (simp add: snds.simps)
  qed
  then show ?case
    by (intro soundS_stmt [OF Switch.prems], unfold execStmt.simps semS.simps, intro simS_switch) (use Switch in simp_all)
next
  case (VarDecl x i)
  show ?case by (rule soundS_stmt [OF VarDecl.prems]) (use VarDecl in \<open>cases i; auto intro!: sim_intros\<close>)
next
  case (Return e l)
  show ?case
    by (rule soundS_stmt [OF Return.prems], unfold execStmt.simps semS.simps, rule simS_return) (use Return in \<open>cases e; auto\<close>)
next
  case (Suspend k kids ty l)
  then show ?case by simp
next
  case (TryCatch t cb fb)
  then show ?case by simp
qed ((rule soundE_expr soundS_stmt, assumption, simp only: evalExpr.simps semE.simps execStmt.simps semS.simps,
      (rule sim_intros; fastforce intro!: sound_lists soundOpts_flags soundOpts_loopOpts simp: list_all_iff))+)

end
