(* ===== verification/Int_Effects.thy ===== *)
theory Int_Effects
  imports Int_Analyze
begin

text \<open>
  The global-effects summary of library/int-infer.ts is the reflexive transitive closure of the
  direct-call graph: what \<open>globalEffectsOf\<close> records for a function is exactly what the functions it
  can reach write, and its loop ends with a pass that changes nothing.
\<close>

section \<open>Sets and maps as the closure uses them\<close>

lemma set_setAdd [simp]: "set (setAdd x xs) = insert x (set xs)"
  by (auto simp: setAdd_def)

lemma distinct_setAdd [simp]: "distinct (setAdd x xs) = distinct xs"
  by (simp add: setAdd_def)

lemma set_fold_setAdd [simp]: "set (fold setAdd ys xs) = set ys \<union> set xs"
  by (induction ys arbitrary: xs) auto

lemma distinct_fold_setAdd [simp]: "distinct (fold setAdd ys xs) = distinct xs"
  by (induction ys arbitrary: xs) auto

lemma length_fold_setAdd: "fold setAdd ys xs = xs \<or> length xs < length (fold setAdd ys xs)"
proof (induction ys arbitrary: xs)
  case (Cons y ys)
  show ?case using Cons.IH [of "setAdd y xs"] by (auto simp: setAdd_def)
qed simp

lemma map_of_mapSet: "map_of (mapSet m k v) k' = (if k' = k then Some v else map_of m k')"
  by (induction m) auto

lemma keys_mapSet: "set (map fst (mapSet m k v)) = insert k (set (map fst m))"
proof (induction m)
  case (Cons a m)
  then show ?case by (cases a) (simp add: insert_commute)
qed simp

lemma keys_mapSet_mem: "k \<in> set (map fst m) \<Longrightarrow> map fst (mapSet m k v) = map fst m"
proof (induction m)
  case (Cons a m)
  then show ?case by (cases a) auto
qed simp

lemma distinct_keys_mapSet: "distinct (map fst m) \<Longrightarrow> distinct (map fst (mapSet m k v))"
proof (induction m)
  case (Cons a m)
  then show ?case using keys_mapSet [of m k v] by (cases a) auto
qed simp

lemma mapSet_same: "map_of m k = Some v \<Longrightarrow> mapSet m k v = m"
  by (induction m) auto

lemma vals_mapSet: "distinct (map fst m) \<Longrightarrow> x \<in> set (mapSet m k v) \<longleftrightarrow> x = (k, v) \<or> x \<in> set m \<and> fst x \<noteq> k"
proof (induction m)
  case (Cons a m)
  then show ?case by (cases a) (auto simp: rev_image_eqI)
qed auto

lemma total_mapSet:
  "map_of m k = Some w \<Longrightarrow> length (concat (map snd (mapSet m k v))) + length w = length (concat (map snd m)) + length v"
  by (induction m) auto

lemma writesOf_mapSet [simp]: "writesOf (mapSet m k v) k' = (if k' = k then v else writesOf m k')"
  by (simp add: writesOf_def map_of_mapSet)

lemma writesOf_mem: "g \<in> set (writesOf m f) \<Longrightarrow> \<exists>w. (f, w) \<in> set m \<and> g \<in> set w"
  by (cases "map_of m f") (auto simp: writesOf_def dest: map_of_SomeD)

section \<open>One pass\<close>

text \<open>The state of the closure: the functions are fixed, and every set draws from the globals that
  some function writes directly.\<close>

definition closing :: "jsstr set \<Rightarrow> jsstr set \<Rightarrow> GlobalEffects \<Rightarrow> bool" where
  "closing names globals ge \<longleftrightarrow> distinct (map fst (perFn ge)) \<and> set (map fst (perFn ge)) = names \<and>
     (\<forall>(f, w) \<in> set (perFn ge). distinct w \<and> set w \<subseteq> globals) \<and> distinct (havocAll ge) \<and> set (havocAll ge) \<subseteq> names"

definition sizeGE :: "GlobalEffects \<Rightarrow> nat" where
  "sizeGE ge = length (concat (map snd (perFn ge))) + length (havocAll ge)"

lemma closing_writesOf: "closing N G ge \<Longrightarrow> distinct (writesOf (perFn ge) f) \<and> set (writesOf (perFn ge) f) \<subseteq> G"
  by (auto simp: closing_def writesOf_def split: option.splits dest: map_of_SomeD)

lemma closing_absorb: assumes "closing N G ge" "f \<in> N" shows "closing N G (absorb f h ge)"
proof -
  have "distinct w \<and> set w \<subseteq> G" if w: "(k, w) \<in> set (perFn (absorb f h ge))" for k w
  proof -
    have "(k, w) = (f, fold setAdd (writesOf (perFn ge) h) (writesOf (perFn ge) f)) \<or> (k, w) \<in> set (perFn ge)"
      using w assms(1) vals_mapSet [of "perFn ge" "(k, w)" f] by (auto simp: absorb_def closing_def)
    then show ?thesis
    proof
      assume "(k, w) = (f, fold setAdd (writesOf (perFn ge) h) (writesOf (perFn ge) f))"
      then show ?thesis using closing_writesOf [OF assms(1)] by simp
    next
      assume "(k, w) \<in> set (perFn ge)"
      then show ?thesis using assms(1) by (auto simp: closing_def)
    qed
  qed
  then show ?thesis
    using assms keys_mapSet_mem [of f "perFn ge"] by (auto simp: closing_def absorb_def)
qed

lemma absorb_grows: assumes "closing N G ge" "f \<in> N" shows "absorb f h ge = ge \<or> sizeGE ge < sizeGE (absorb f h ge)"
proof -
  obtain w where w: "map_of (perFn ge) f = Some w"
    using assms by (auto simp: closing_def dest: weak_map_of_SomeI)
  let ?v = "fold setAdd (writesOf (perFn ge) h) w"
  let ?u = "if h \<in> set (havocAll ge) then setAdd f (havocAll ge) else havocAll ge"
  have ab: "absorb f h ge = \<lparr> perFn = mapSet (perFn ge) f ?v, havocAll = ?u \<rparr>"
    using w by (simp add: absorb_def writesOf_def)
  have u: "?u = havocAll ge \<or> length (havocAll ge) < length ?u" by (simp add: setAdd_def)
  consider (same) "?v = w" "?u = havocAll ge" | (grow) "length w + length (havocAll ge) < length ?v + length ?u"
    using length_fold_setAdd [of "writesOf (perFn ge) h" w] u by (auto simp del: set_setAdd)
  then show ?thesis
  proof cases
    case same
    then show ?thesis using ab mapSet_same [OF w] by simp
  next
    case grow
    then show ?thesis using total_mapSet [OF w, of ?v] unfolding ab sizeGE_def by simp
  qed
qed

text \<open>A pass is a sequence of such steps.\<close>

definition callPairs :: "(jsstr \<times> jsstr list) list \<Rightarrow> (jsstr \<times> jsstr) list" where
  "callPairs calls = concat (map (\<lambda>(name, cs). map (Pair name) cs) calls)"

lemma closePass_pairs: "closePass calls ge = fold (\<lambda>(f, h). absorb f h) (callPairs calls) ge"
proof (induction calls arbitrary: ge)
  case (Cons a calls)
  obtain f cs where a: "a = (f, cs)" by (cases a)
  have "fold (\<lambda>(f, h). absorb f h) (map (Pair f) cs) ge = fold (absorb f) cs ge" for ge
    by (induction cs arbitrary: ge) auto
  then show ?case using Cons.IH [of "fold (absorb f) cs ge"] by (simp add: closePass_def callPairs_def a)
qed (simp add: closePass_def callPairs_def)

lemma pass_steps:
  assumes "closing N G ge" "fst ` set ps \<subseteq> N"
  shows "closing N G (fold (\<lambda>(f, h). absorb f h) ps ge) \<and>
    (sizeGE ge < sizeGE (fold (\<lambda>(f, h). absorb f h) ps ge) \<or>
     fold (\<lambda>(f, h). absorb f h) ps ge = ge \<and> (\<forall>(f, h) \<in> set ps. absorb f h ge = ge))"
  using assms
proof (induction ps arbitrary: ge)
  case (Cons p ps)
  obtain f h where p: "p = (f, h)" by (cases p)
  have N: "f \<in> N" using Cons.prems(2) p by simp
  have c: "closing N G (absorb f h ge)" using closing_absorb [OF Cons.prems(1) N] .
  show ?case
    using Cons.IH [OF c] Cons.prems(2) absorb_grows [OF Cons.prems(1) N, of h] p by auto
qed simp

section \<open>The loop\<close>

lemma sizeGE_bound: assumes "closing N G ge" "finite G" shows "sizeGE ge \<le> card N * card G + card N"
proof -
  have w: "\<forall>x \<in> set (perFn ge). length (snd x) \<le> card G"
    using assms by (auto simp: closing_def distinct_card [symmetric] intro!: card_mono)
  have "length (concat (map snd ps)) \<le> length ps * card G" if "\<forall>x \<in> set ps. length (snd x) \<le> card G" for ps :: "(jsstr \<times> jsstr list) list"
    using that by (induction ps) auto
  from this [OF w] have "length (concat (map snd (perFn ge))) \<le> length (perFn ge) * card G" .
  moreover have "length (perFn ge) = card N"
    using assms(1) distinct_card [of "map fst (perFn ge)"] by (auto simp: closing_def)
  moreover have "length (havocAll ge) \<le> card N"
    using assms(1) distinct_card [of "havocAll ge"] card_mono [of N "set (havocAll ge)"] by (auto simp: closing_def)
  ultimately show ?thesis by (simp add: sizeGE_def)
qed

lemma closeLoop_fixpoint:
  assumes "closing N G ge" "finite G" "fst ` set (callPairs calls) \<subseteq> N" "card N * card G + card N < n + sizeGE ge"
  shows "closing N G (closeLoop n calls ge) \<and> (\<forall>(f, h) \<in> set (callPairs calls). absorb f h (closeLoop n calls ge) = closeLoop n calls ge)"
  using assms
proof (induction n arbitrary: ge)
  case 0
  then show ?case using sizeGE_bound [OF 0(1) 0(2)] by simp
next
  case (Suc n)
  have pass: "closing N G (closePass calls ge)"
    "sizeGE ge < sizeGE (closePass calls ge) \<or> closePass calls ge = ge \<and> (\<forall>(f, h) \<in> set (callPairs calls). absorb f h ge = ge)"
    using pass_steps [OF Suc.prems(1) Suc.prems(3)] by (simp_all add: closePass_pairs)
  show ?case
  proof (cases "closePass calls ge = ge")
    case True
    then show ?thesis using pass Suc.prems(1) by simp
  next
    case False
    then show ?thesis using Suc.IH [OF pass(1) Suc.prems(2,3)] pass(2) Suc.prems(4) by (simp add: Let_def)
  qed
qed

section \<open>The closure is reachability\<close>

definition callRel :: "(jsstr \<times> jsstr list) list \<Rightarrow> (jsstr \<times> jsstr) set" where
  "callRel calls = {(f, h). h \<in> set (writesOf calls f)}"

text \<open>Nothing is recorded that no reachable function contributed.\<close>

definition justified :: "(jsstr \<times> jsstr) set \<Rightarrow> GlobalEffects \<Rightarrow> GlobalEffects \<Rightarrow> bool" where
  "justified R ge0 ge \<longleftrightarrow>
     (\<forall>f g. g \<in> set (writesOf (perFn ge) f) \<longrightarrow> (\<exists>h. (f, h) \<in> R\<^sup>* \<and> g \<in> set (writesOf (perFn ge0) h))) \<and>
     (\<forall>f \<in> set (havocAll ge). \<exists>h. (f, h) \<in> R\<^sup>* \<and> h \<in> set (havocAll ge0))"

lemma justified_absorb: assumes "justified R ge0 ge" "(f, h) \<in> R" shows "justified R ge0 (absorb f h ge)"
proof -
  have step: "(f, k) \<in> R\<^sup>*" if "(h, k) \<in> R\<^sup>*" for k using assms(2) that by (rule converse_rtrancl_into_rtrancl)
  show ?thesis
    using assms(1) step unfolding justified_def absorb_def by (simp add: Let_def) blast
qed

lemma justified_fold: "justified R ge0 ge \<Longrightarrow> set ps \<subseteq> R \<Longrightarrow> justified R ge0 (fold (\<lambda>(f, h). absorb f h) ps ge)"
  by (induction ps arbitrary: ge) (auto intro: justified_absorb)

lemma justified_closeLoop: "justified R ge0 ge \<Longrightarrow> set (callPairs calls) \<subseteq> R \<Longrightarrow> justified R ge0 (closeLoop n calls ge)"
  by (induction n arbitrary: ge) (auto simp: Let_def closePass_pairs intro: justified_fold)

definition covers :: "GlobalEffects \<Rightarrow> GlobalEffects \<Rightarrow> bool" where
  "covers ge ge0 \<longleftrightarrow> (\<forall>f. set (writesOf (perFn ge0) f) \<subseteq> set (writesOf (perFn ge) f)) \<and> set (havocAll ge0) \<subseteq> set (havocAll ge)"

lemma covers_fold: "covers (fold (\<lambda>(f, h). absorb f h) ps ge) ge"
proof (induction ps arbitrary: ge)
  case (Cons p ps)
  have "covers (absorb f h ge) ge" for f h by (auto simp: covers_def absorb_def Let_def)
  then show ?case using Cons.IH by (cases p) (force simp: covers_def)
qed (simp add: covers_def)

lemma covers_closeLoop: "covers (closeLoop n calls ge) ge"
proof (induction n arbitrary: ge)
  case (Suc n)
  then show ?case
    using covers_fold [of "callPairs calls" ge] by (force simp: Let_def closePass_pairs covers_def)
qed (simp add: covers_def)

lemma absorb_fixpointD:
  assumes "absorb f h ge = ge"
  shows "set (writesOf (perFn ge) h) \<subseteq> set (writesOf (perFn ge) f) \<and> (h \<in> set (havocAll ge) \<longrightarrow> f \<in> set (havocAll ge))"
proof -
  have "writesOf (perFn (absorb f h ge)) f = writesOf (perFn ge) f" "havocAll (absorb f h ge) = havocAll ge"
    using assms by simp_all
  then have "set (fold setAdd (writesOf (perFn ge) h) (writesOf (perFn ge) f)) = set (writesOf (perFn ge) f)"
    "h \<in> set (havocAll ge) \<longrightarrow> set (setAdd f (havocAll ge)) = set (havocAll ge)"
    by (simp_all add: absorb_def del: set_setAdd split: if_splits)
  then show ?thesis by auto
qed

lemma fixpoint_reach:
  assumes "\<forall>(f, h) \<in> R. absorb f h ge = ge" "(f, h) \<in> R\<^sup>*"
  shows "set (writesOf (perFn ge) h) \<subseteq> set (writesOf (perFn ge) f) \<and> (h \<in> set (havocAll ge) \<longrightarrow> f \<in> set (havocAll ge))"
  using assms(2)
proof (induction rule: converse_rtrancl_induct)
  case (step y z)
  then show ?case using assms(1) absorb_fixpointD [of y z ge] by blast
qed simp

section \<open>The initial state\<close>

lemma fold_keeps: "(\<And>f x. f \<in> set fs \<Longrightarrow> P x \<Longrightarrow> P (f x)) \<Longrightarrow> P x \<Longrightarrow> P (fold (\<lambda>f. f) fs x)"
  by (induction fs arbitrary: x) auto

lemma addWrite_distinct: "distinct (e_writes ef) \<Longrightarrow> distinct (e_writes (addWrite x ef))"
  by (simp add: addWrite_def)

lemma addCall_writes [simp]: "e_writes (addCall f ef) = e_writes ef"
  by (simp add: addCall_def)

lemma addUnknown_writes [simp]: "e_writes (addUnknown b ef) = e_writes ef"
  by (simp add: addUnknown_def)

lemma eff_distinct:
  "distinct (e_writes ef) \<Longrightarrow> distinct (e_writes (effE e ef))"
  "distinct (e_writes ef) \<Longrightarrow> distinct (e_writes (effS s ef))"
proof (induction e and s arbitrary: ef and ef)
  case (SeqExpr ss a ty l)
  have "distinct (e_writes (runAll (map effS ss) ef))" using SeqExpr by (auto intro!: fold_keeps [where P = "\<lambda>ef. distinct (e_writes ef)"])
  then show ?case using SeqExpr by simp
next
  case (DoWhile a ss ls)
  have "distinct (e_writes (runAll (map effS ss) ef))" using DoWhile by (auto intro!: fold_keeps [where P = "\<lambda>ef. distinct (e_writes ef)"])
  then show ?case using DoWhile by simp
qed (auto intro!: addWrite_distinct fold_keeps [where P = "\<lambda>ef. distinct (e_writes ef)"] split: option.splits)

lemma effectsOfFn_distinct: "distinct (e_writes (effectsOfFn fn))"
  unfolding effectsOfFn_def by (rule fold_keeps) (auto simp: eff_distinct noEffects_def)

text \<open>A table filled function by function.\<close>

definition fnTable :: "(IrFunction \<Rightarrow> jsstr list) \<Rightarrow> IrFunction list \<Rightarrow> (jsstr \<times> jsstr list) list" where
  "fnTable v fns = fold (\<lambda>fn w. mapSet w (f_name fn) (v fn)) fns []"

lemma fnTable_snoc: "fnTable v (fns @ [fn]) = mapSet (fnTable v fns) (f_name fn) (v fn)"
  by (simp add: fnTable_def)

lemma fnTable_keys: "set (map fst (fnTable v fns)) = f_name ` set fns \<and> distinct (map fst (fnTable v fns))"
proof (induction fns rule: rev_induct)
  case (snoc fn fns)
  then show ?case using keys_mapSet [of "fnTable v fns" "f_name fn" "v fn"] by (simp add: fnTable_snoc distinct_keys_mapSet)
qed (simp add: fnTable_def)

lemma fnTable_vals: "(f, w) \<in> set (fnTable v fns) \<Longrightarrow> \<exists>fn \<in> set fns. f = f_name fn \<and> w = v fn"
proof (induction fns rule: rev_induct)
  case (snoc fn fns)
  then show ?case using vals_mapSet [of "fnTable v fns" "(f, w)" "f_name fn" "v fn"] fnTable_keys [of v fns] by (auto simp: fnTable_snoc)
qed (simp add: fnTable_def)

lemma fnTable_lookup: "distinct (map f_name fns) \<Longrightarrow> fn \<in> set fns \<Longrightarrow> writesOf (fnTable v fns) (f_name fn) = v fn"
proof (induction fns rule: rev_induct)
  case (snoc x fns)
  then show ?case by (cases "fn = x") (auto simp: fnTable_snoc rev_image_eqI)
qed simp

lemma tables: "initialWrites m = fnTable (\<lambda>fn. e_writes (effectsOfFn fn)) (m_functions m)"
  "directCalls m = fnTable (\<lambda>fn. e_calls (effectsOfFn fn)) (m_functions m)"
  by (simp_all add: initialWrites_def directCalls_def fnTable_def)

lemma initialUnknown_set: "set (initialUnknown m) = f_name ` {fn \<in> set (m_functions m). e_unknown (effectsOfFn fn)} \<and> distinct (initialUnknown m)"
proof -
  have "set (fold (\<lambda>fn u. if e_unknown (effectsOfFn fn) then setAdd (f_name fn) u else u) fns []) =
      f_name ` {fn \<in> set fns. e_unknown (effectsOfFn fn)} \<and>
    distinct (fold (\<lambda>fn u. if e_unknown (effectsOfFn fn) then setAdd (f_name fn) u else u) fns [])" for fns
    by (induction fns rule: rev_induct) auto
  then show ?thesis by (simp add: initialUnknown_def)
qed

definition moduleGlobals :: "IrModule \<Rightarrow> jsstr set" where
  "moduleGlobals m = set (concat (map snd (initialWrites m)))"

lemma closing_initial:
  "closing (f_name ` set (m_functions m)) (moduleGlobals m) \<lparr> perFn = initialWrites m, havocAll = initialUnknown m \<rparr>"
  using fnTable_keys [of "\<lambda>fn. e_writes (effectsOfFn fn)" "m_functions m"] initialUnknown_set [of m]
    fnTable_vals [of _ _ "\<lambda>fn. e_writes (effectsOfFn fn)" "m_functions m"] effectsOfFn_distinct
  by (auto simp: closing_def tables moduleGlobals_def)

lemma callPairs_rel: assumes "distinct (map fst calls)" shows "set (callPairs calls) = callRel calls"
proof -
  have "(f, h) \<in> set (callPairs calls) \<longleftrightarrow> (\<exists>cs. (f, cs) \<in> set calls \<and> h \<in> set cs)" for f h
    by (auto simp: callPairs_def)
  then show ?thesis using assms by (auto simp: callRel_def writesOf_def dest: map_of_SomeD split: option.splits)
qed

lemma globalEffects_fixpoint: "\<forall>(f, h) \<in> callRel (directCalls m). absorb f h (globalEffectsOf m) = globalEffectsOf m"
proof -
  let ?N = "f_name ` set (m_functions m)" and ?G = "moduleGlobals m"
  have keys: "set (map fst (directCalls m)) = ?N" "distinct (map fst (directCalls m))"
    using fnTable_keys [of "\<lambda>fn. e_calls (effectsOfFn fn)" "m_functions m"] by (simp_all add: tables)
  have sub: "fst ` set (callPairs (directCalls m)) \<subseteq> ?N"
    using keys(1) by (auto simp: callPairs_def rev_image_eqI)
  have K: "length (initialWrites m) = card ?N"
    using fnTable_keys [of "\<lambda>fn. e_writes (effectsOfFn fn)" "m_functions m"] distinct_card [of "map fst (initialWrites m)"]
    by (simp add: tables)
  have "card ?G \<le> length (concat (map snd (initialWrites m)))" unfolding moduleGlobals_def by (rule card_length)
  then have "card ?N * card ?G + card ?N < closeFuel m" by (simp add: closeFuel_def K less_Suc_eq_le)
  then show ?thesis
    using closeLoop_fixpoint [OF closing_initial _ sub, of "closeFuel m"] callPairs_rel [OF keys(2)]
    by (auto simp: globalEffectsOf_def moduleGlobals_def)
qed

section \<open>What the summary means\<close>

text \<open>The direct-call graph of a module, over its functions.\<close>

definition callGraph :: "IrModule \<Rightarrow> (jsstr \<times> jsstr) set" where
  "callGraph m = {(f_name fn, h) | fn h. fn \<in> set (m_functions m) \<and> h \<in> set (e_calls (effectsOfFn fn))}"

lemma callRel_graph: assumes "distinct (map f_name (m_functions m))" shows "callRel (directCalls m) = callGraph m"
proof -
  have "h \<in> set (writesOf (directCalls m) f) \<longleftrightarrow> (f, h) \<in> callGraph m" for f h
  proof
    assume "h \<in> set (writesOf (directCalls m) f)"
    from writesOf_mem [OF this] fnTable_vals show "(f, h) \<in> callGraph m" by (fastforce simp: tables callGraph_def)
  next
    assume "(f, h) \<in> callGraph m"
    then show "h \<in> set (writesOf (directCalls m) f)" using fnTable_lookup [OF assms] by (auto simp: tables callGraph_def)
  qed
  then show ?thesis by (auto simp: callRel_def)
qed

lemma globalEffects_closure:
  "g \<in> set (writesOf (perFn (globalEffectsOf m)) f) \<longleftrightarrow>
     (\<exists>h. (f, h) \<in> (callRel (directCalls m))\<^sup>* \<and> g \<in> set (writesOf (initialWrites m) h))"
  "f \<in> set (havocAll (globalEffectsOf m)) \<longleftrightarrow> (\<exists>h. (f, h) \<in> (callRel (directCalls m))\<^sup>* \<and> h \<in> set (initialUnknown m))"
proof -
  let ?ge0 = "\<lparr> perFn = initialWrites m, havocAll = initialUnknown m \<rparr>"
  have keys: "distinct (map fst (directCalls m))"
    using fnTable_keys [of "\<lambda>fn. e_calls (effectsOfFn fn)" "m_functions m"] by (simp add: tables)
  have j: "justified (callRel (directCalls m)) ?ge0 (globalEffectsOf m)"
    unfolding globalEffectsOf_def using callPairs_rel [OF keys] by (intro justified_closeLoop) (auto simp: justified_def)
  have c: "covers (globalEffectsOf m) ?ge0" unfolding globalEffectsOf_def by (rule covers_closeLoop)
  note fp = fixpoint_reach [OF globalEffects_fixpoint]
  show "g \<in> set (writesOf (perFn (globalEffectsOf m)) f) \<longleftrightarrow>
     (\<exists>h. (f, h) \<in> (callRel (directCalls m))\<^sup>* \<and> g \<in> set (writesOf (initialWrites m) h))"
    using j c fp [of f _ m] unfolding justified_def covers_def by (simp add: subset_iff) blast
  show "f \<in> set (havocAll (globalEffectsOf m)) \<longleftrightarrow> (\<exists>h. (f, h) \<in> (callRel (directCalls m))\<^sup>* \<and> h \<in> set (initialUnknown m))"
    using j c fp [of f _ m] unfolding justified_def covers_def by (simp add: subset_iff) blast
qed

text \<open>C40. The summary a call is havocked with is the call graph's: a global is recorded for a function
  exactly when some function it reaches through direct calls writes that global itself, and the
  function is marked unknown exactly when it reaches one that runs code the analysis cannot see.
  The closure loop gets there within its passes.\<close>

theorem globalEffects_reachability:
  assumes "distinct (map f_name (m_functions m))"
  shows "(g \<in> set (writesOf (perFn (globalEffectsOf m)) f) \<longleftrightarrow>
      (\<exists>h \<in> set (m_functions m). (f, f_name h) \<in> (callGraph m)\<^sup>* \<and> g \<in> set (e_writes (effectsOfFn h)))) \<and>
    (f \<in> set (havocAll (globalEffectsOf m)) \<longleftrightarrow>
      (\<exists>h \<in> set (m_functions m). (f, f_name h) \<in> (callGraph m)\<^sup>* \<and> e_unknown (effectsOfFn h)))"
proof
  have "g \<in> set (writesOf (initialWrites m) k) \<longleftrightarrow> (\<exists>h \<in> set (m_functions m). k = f_name h \<and> g \<in> set (e_writes (effectsOfFn h)))" for k
    using writesOf_mem [of g "initialWrites m" k] fnTable_vals [of _ _ "\<lambda>fn. e_writes (effectsOfFn fn)" "m_functions m"]
      fnTable_lookup [OF assms] by (auto simp: tables)
  then show "g \<in> set (writesOf (perFn (globalEffectsOf m)) f) \<longleftrightarrow>
      (\<exists>h \<in> set (m_functions m). (f, f_name h) \<in> (callGraph m)\<^sup>* \<and> g \<in> set (e_writes (effectsOfFn h)))"
    unfolding globalEffects_closure(1) callRel_graph [OF assms] by auto
  show "f \<in> set (havocAll (globalEffectsOf m)) \<longleftrightarrow>
      (\<exists>h \<in> set (m_functions m). (f, f_name h) \<in> (callGraph m)\<^sup>* \<and> e_unknown (effectsOfFn h))"
    unfolding globalEffects_closure(2) callRel_graph [OF assms] using initialUnknown_set [of m] by auto
qed

text \<open>\<open>main\<close> calls \<open>helper\<close>, which assigns a global.\<close>

definition demo_fn :: "string \<Rightarrow> IrStmt list \<Rightarrow> IrFunction" where
  "demo_fn nm body = \<lparr> f_name = js nm, f_params = [], f_locals = [], f_body = body \<rparr>"

definition demo_module :: IrModule where
  "demo_module = \<lparr> m_functions =
     [demo_fn ''main'' [ExprStmt (Call (js ''helper'') [] demo_type demo_loc)],
      demo_fn ''helper'' [Assign (js ''%g.n'') (demo_lit 1)]], m_globals = [] \<rparr>"

theorem globalEffects_reachability_witness:
  "js ''%g.n'' \<in> set (writesOf (perFn (globalEffectsOf demo_module)) (js ''main''))"
proof (subst globalEffects_reachability [THEN conjunct1])
  show "distinct (map f_name (m_functions demo_module))" by (simp add: demo_module_def demo_fn_def js_def)
  have "(js ''main'', js ''helper'') \<in> callGraph demo_module"
    unfolding callGraph_def mem_Collect_eq
    by (intro exI [of _ "demo_fn ''main'' [ExprStmt (Call (js ''helper'') [] demo_type demo_loc)]"] exI [of _ "js ''helper''"])
      (simp add: demo_module_def demo_fn_def effectsOfFn_def addCall_def setAdd_def noEffects_def)
  moreover have "js ''%g.n'' \<in> set (e_writes (effectsOfFn (demo_fn ''helper'' [Assign (js ''%g.n'') (demo_lit 1)])))"
    by (simp add: demo_fn_def effectsOfFn_def addWrite_def setAdd_def noEffects_def demo_lit_def isGlobalId_def startsWith_def js_def)
  ultimately show "\<exists>h \<in> set (m_functions demo_module). (js ''main'', f_name h) \<in> (callGraph demo_module)\<^sup>* \<and>
      js ''%g.n'' \<in> set (e_writes (effectsOfFn h))"
    by (intro bexI [of _ "demo_fn ''helper'' [Assign (js ''%g.n'') (demo_lit 1)]"]) (auto simp: demo_fn_def demo_module_def)
qed

end
