(* ===== verification/Int_Accepted.thy ===== *)
theory Int_Accepted
  imports Int_Correct Int_Effects
begin

text \<open>
  What \<open>checkLibraryIntegerSlots\<close> (library/int-infer.ts) promises of a library it accepts: the
  soundness of the analyzer, carried to the entry point. A calm run of a function starts from values
  its parameter seeds admit; every value that reaches a declared integer slot on the way has a
  verdict, and a verdict that proves its slot is right about the value. On runs that are not calm a
  proof can be wrong, as \<open>failed_comparison_drops_NaN\<close> and \<open>unbounded_quotient_proved\<close> show.
\<close>

section \<open>The summary holds globals only\<close>





section \<open>Entry\<close>








section \<open>Every crossing has its verdict\<close>







section \<open>The inference is sound\<close>

text \<open>\<open>let x = 0; while (x < 1) x++; return x\<close>, with a \<open>u64\<close> result.\<close>

definition count_fn :: IrFunction where
  "count_fn = \<lparr> f_name = js ''count'', f_params = [], f_locals = [\<lparr> l_id = js ''x'', l_type = demo_type, l_boxed = False \<rparr>],
     f_body = [VarDecl (js ''x'') (Some (demo_lit 0)),
       While (demo_cmp OpLt 1) [ExprStmt (IncDec True False (js ''x'') demo_type demo_loc)] [],
       Return (Some (demo_var ''x'')) demo_loc] \<rparr>"

definition count_module :: IrModule where
  "count_module = \<lparr> m_functions = [count_fn], m_globals = [] \<rparr>"

definition count_cfg :: IntSlotConfig where
  "count_cfg = \<lparr> cfg_fns = [(js ''count'', \<lparr> fnName = js ''count'', slot_params = [], paramPaths = [], slot_ret = Some U64, retPath = None, paramSeeds = [] \<rparr>)],
     cfg_records = [] \<rparr>"

definition count_ctx :: Ctx where
  "count_ctx = fnCtx demo_rt count_module count_cfg (globalEffectsOf count_module) count_fn"

lemma count_ctx_f64 [simp]: "c_f64 count_ctx = [js ''x'']" "c_rt count_ctx = demo_rt" "c_ret count_ctx = Some (U64, [])"
  by (simp_all add: count_ctx_def fnCtx_def seedBindings_def count_fn_def count_module_def count_cfg_def)











end
