(* ===== verification/Js_Text.thy ===== *)
theory Js_Text
  imports Js_Prelude
begin

text \<open>
  Texts the compiler renders numbers as: \<open>Number.prototype.toString(16)\<close> and
  \<open>String.prototype.padStart\<close>, with the value a hexadecimal text denotes; and the literals of the source,
  which are different texts when they are written differently.
\<close>

section \<open>Hexadecimal\<close>

definition hexUnit :: "nat \<Rightarrow> 16 word" where
  "hexUnit d = (if d < 10 then of_nat (48 + d) else of_nat (87 + d))"

fun hex :: "nat \<Rightarrow> jsstr" where
  "hex n = (if n < 16 then [hexUnit n] else hex (n div 16) @ [hexUnit (n mod 16)])"

declare hex.simps [simp del]

definition padStart :: "nat \<Rightarrow> 16 word \<Rightarrow> jsstr \<Rightarrow> jsstr" where
  "padStart n c s = replicate (n - length s) c @ s"

definition isHex :: "16 word \<Rightarrow> bool" where
  "isHex c \<longleftrightarrow> c \<in> set (js ''0123456789abcdef'')"

definition hexUnitValue :: "16 word \<Rightarrow> nat" where
  "hexUnitValue c = (if unat c < 58 then unat c - 48 else unat c - 87)"

definition hexValue :: "jsstr \<Rightarrow> nat" where
  "hexValue s = fold (\<lambda>c n. 16 * n + hexUnitValue c) s 0"

lemma unat_hexUnit: "d < 16 \<Longrightarrow> unat (hexUnit d) = (if d < 10 then 48 + d else 87 + d)"
  by (simp only: hexUnit_def if_distrib [of unat] unat_of_nat) simp

lemma hexUnit_value: "d < 16 \<Longrightarrow> hexUnitValue (hexUnit d) = d"
  by (simp add: hexUnitValue_def unat_hexUnit)

lemma isHex_hexUnit: assumes "d < 16" shows "isHex (hexUnit d)"
proof -
  have "d \<in> set [0..<16]" using assms by simp
  then show ?thesis unfolding upt_rec_numeral by (auto simp: isHex_def hexUnit_def js_def upt_rec)
qed

lemma hex_digits: "list_all isHex (hex n)"
proof (induction n rule: hex.induct)
  case (1 n)
  then show ?case by (subst hex.simps) (simp add: isHex_hexUnit)
qed

lemma hex_value: "hexValue (hex n) = n"
proof (induction n rule: hex.induct)
  case (1 n)
  then show ?case by (subst hex.simps) (simp add: hexValue_def hexUnit_value)
qed

lemma hex_length: "n < 16 ^ k \<Longrightarrow> 0 < k \<Longrightarrow> length (hex n) \<le> k"
proof (induction n arbitrary: k rule: hex.induct)
  case (1 n)
  show ?case
  proof (cases "n < 16")
    case True
    then show ?thesis using "1.prems" by (subst hex.simps) simp
  next
    case False
    then obtain j where k: "k = Suc j" "0 < j" using "1.prems" by (cases k; cases "k - 1") auto
    have "n div 16 < 16 ^ j" using "1.prems"(1) k by (simp add: div_less_iff_less_mult)
    then show ?thesis using "1.IH" [OF False _ k(2)] False k by (subst hex.simps) simp
  qed
qed

lemma hexValue_pad: "hexValue (replicate k 0x30 @ s) = hexValue s"
  by (induction k) (simp_all add: hexValue_def hexUnitValue_def)

section \<open>Literals\<close>

lemma of_char_inj16: "(of_char c :: 16 word) = of_char d \<Longrightarrow> c = d"
proof -
  assume "(of_char c :: 16 word) = of_char d"
  then have "(of_nat (of_char c) :: 16 word) = of_nat (of_char d)" by (simp add: of_nat_of_char)
  then have "unat (of_nat (of_char c) :: 16 word) = unat (of_nat (of_char d) :: 16 word)" by (rule arg_cong)
  moreover have "of_char k mod (65536 :: nat) = of_char k" for k using nat_of_char_less_256 [of k] by (intro mod_less) linarith
  ultimately have "of_char c = (of_char d :: nat)" by (simp add: unat_of_nat)
  then show "c = d" by simp
qed

lemma js_inj: "js a = js b \<Longrightarrow> a = b"
  unfolding js_def by (rule list.inj_map_strong) (auto intro: of_char_inj16)

lemma js_eq: "js a = js b \<longleftrightarrow> a = b"
  using js_inj by blast

end
