(* ===== verification/Ir_Walk.thy ===== *)
theory Ir_Walk
  imports Int_Effects Js_Text
begin

text \<open>
  The compiled module as the generic walks of the compiler see it: a JavaScript value whose objects
  list their own enumerable fields in order. The walks of \<open>ir/nodes.ts\<close> are one loop with a different
  question each; \<open>seek\<close> is the loop that stops at the first answer, \<open>seekAt\<close> the one that also tracks the
  nearest enclosing source location. Both are shown to return the first answer among the objects of
  the value in reading order (\<open>nodes\<close>), so every question reduces to one about single objects.

  A field that is absent reads as \<open>undefined\<close>. Modules conform to their declared interface: a field
  the source reads through a cast is taken to be of the kind the cast names.
\<close>

datatype jsval =
    VUndef
  | VNull
  | VBool bool
  | VNum jsdouble
  | VStr jsstr
  | VArr "jsval list"
  | VObj "(jsstr \<times> jsval) list"

type_synonym node = "(jsstr \<times> jsval) list"

section \<open>Reading fields\<close>

definition field :: "node \<Rightarrow> jsstr \<Rightarrow> jsval" where
  "field n k = (case map_of n k of None \<Rightarrow> VUndef | Some v \<Rightarrow> v)"

definition strField :: "node \<Rightarrow> jsstr \<Rightarrow> jsstr option" where
  "strField n k = (case field n k of VStr s \<Rightarrow> Some s | _ \<Rightarrow> None)"

fun items :: "jsval \<Rightarrow> jsval list" where
  "items (VArr vs) = vs"
| "items _ = []"

fun fieldsOf :: "jsval \<Rightarrow> node" where
  "fieldsOf (VObj n) = n"
| "fieldsOf _ = []"

text \<open>\<open>n.k === s\<close> for a string \<open>s\<close>.\<close>

definition fieldIs :: "node \<Rightarrow> jsstr \<Rightarrow> jsstr \<Rightarrow> bool" where
  "fieldIs n k s \<longleftrightarrow> strField n k = Some s"

abbreviation kindIs :: "node \<Rightarrow> jsstr \<Rightarrow> bool" where
  "kindIs n s \<equiv> fieldIs n (js ''kind'') s"

text \<open>\<open>node.loc ?? loc\<close>.\<close>

definition hereOf :: "node \<Rightarrow> jsval \<Rightarrow> jsval" where
  "hereOf n loc = (case field n (js ''loc'') of VUndef \<Rightarrow> loc | VNull \<Rightarrow> loc | l \<Rightarrow> l)"

section \<open>The walks\<close>

definition orElse :: "'a option \<Rightarrow> 'a option \<Rightarrow> 'a option" where
  "orElse x y = (case x of Some v \<Rightarrow> Some v | None \<Rightarrow> y)"

text \<open>The question \<open>q\<close> answers for one object; \<open>found\<close> is the answer so far.\<close>

fun seek :: "(node \<Rightarrow> 'a option) \<Rightarrow> jsval \<Rightarrow> 'a option \<Rightarrow> 'a option"
and seekItems :: "(node \<Rightarrow> 'a option) \<Rightarrow> jsval list \<Rightarrow> 'a option \<Rightarrow> 'a option"
and seekFields :: "(node \<Rightarrow> 'a option) \<Rightarrow> node \<Rightarrow> 'a option \<Rightarrow> 'a option" where
  "seek q v (Some a) = Some a"
| "seek q (VArr vs) None = seekItems q vs None"
| "seek q (VObj n) None = (case q n of Some a \<Rightarrow> Some a | None \<Rightarrow> seekFields q n None)"
| "seek q v None = None"
| "seekItems q [] found = found"
| "seekItems q (v # vs) found = seekItems q vs (seek q v found)"
| "seekFields q [] found = found"
| "seekFields q ((k, v) # n) found = seekFields q n (seek q v found)"

fun seekAt :: "(node \<Rightarrow> jsval \<Rightarrow> 'a option) \<Rightarrow> jsval \<Rightarrow> jsval \<Rightarrow> 'a option \<Rightarrow> 'a option"
and seekAtItems :: "(node \<Rightarrow> jsval \<Rightarrow> 'a option) \<Rightarrow> jsval list \<Rightarrow> jsval \<Rightarrow> 'a option \<Rightarrow> 'a option"
and seekAtFields :: "(node \<Rightarrow> jsval \<Rightarrow> 'a option) \<Rightarrow> node \<Rightarrow> jsval \<Rightarrow> 'a option \<Rightarrow> 'a option" where
  "seekAt q v loc (Some a) = Some a"
| "seekAt q (VArr vs) loc None = seekAtItems q vs loc None"
| "seekAt q (VObj n) loc None = (case q n (hereOf n loc) of Some a \<Rightarrow> Some a | None \<Rightarrow> seekAtFields q n (hereOf n loc) None)"
| "seekAt q v loc None = None"
| "seekAtItems q [] loc found = found"
| "seekAtItems q (v # vs) loc found = seekAtItems q vs loc (seekAt q v loc found)"
| "seekAtFields q [] loc found = found"
| "seekAtFields q ((k, v) # n) loc found = seekAtFields q n loc (seekAt q v loc found)"

text \<open>A walk that only sets a flag.\<close>

definition someNode :: "(node \<Rightarrow> bool) \<Rightarrow> jsval \<Rightarrow> bool" where
  "someNode p v \<longleftrightarrow> seek (\<lambda>n. if p n then Some () else None) v None \<noteq> None"

definition entryLoc :: "node \<Rightarrow> jsval" where
  "entryLoc m = VObj [(js ''file'', field m (js ''sourceFile'')), (js ''start'', VNum (Num (Q 0))), (js ''end'', VNum (Num (Q 0)))]"

section \<open>The objects of a value\<close>

fun nodes :: "jsval \<Rightarrow> jsval \<Rightarrow> (node \<times> jsval) list" where
  "nodes (VArr vs) loc = concat (map (\<lambda>v. nodes v loc) vs)"
| "nodes (VObj n) loc = (n, hereOf n loc) # concat (map (\<lambda>kv. nodes (snd kv) (hereOf n loc)) n)"
| "nodes _ loc = []"

fun nodesIn :: "jsval \<Rightarrow> node list" where
  "nodesIn (VArr vs) = concat (map nodesIn vs)"
| "nodesIn (VObj n) = n # concat (map (\<lambda>kv. nodesIn (snd kv)) n)"
| "nodesIn _ = []"

primrec firstHit :: "('b \<Rightarrow> 'a option) \<Rightarrow> 'b list \<Rightarrow> 'a option" where
  "firstHit q [] = None"
| "firstHit q (n # ns) = orElse (q n) (firstHit q ns)"

lemma orElse_simps [simp]: "orElse None y = y" "orElse (Some v) y = Some v" "orElse x None = x"
  by (simp_all add: orElse_def split: option.splits)

lemma orElse_assoc: "orElse (orElse x y) z = orElse x (orElse y z)"
  by (cases x) simp_all

lemma orElse_None [simp]: "orElse x y = None \<longleftrightarrow> x = None \<and> y = None"
  by (cases x) simp_all

lemma orElse_SomeD: "orElse x y = Some v \<Longrightarrow> x = Some v \<or> y = Some v"
  by (cases x) simp_all

lemma firstHit_append [simp]: "firstHit q (xs @ ys) = orElse (firstHit q xs) (firstHit q ys)"
  by (induction xs) (simp_all add: orElse_assoc)

lemma firstHit_None: "firstHit q ns = None \<longleftrightarrow> (\<forall>n \<in> set ns. q n = None)"
  by (induction ns) auto

lemma firstHit_Some: "firstHit q ns = Some a \<Longrightarrow> \<exists>pre n post. ns = pre @ n # post \<and> q n = Some a \<and> (\<forall>x \<in> set pre. q x = None)"
proof (induction ns)
  case (Cons n ns)
  show ?case
  proof (cases "q n")
    case None
    then obtain pre m post where "ns = pre @ m # post" "q m = Some a" "\<forall>x \<in> set pre. q x = None" using Cons by auto
    then show ?thesis using None by (intro exI [of _ "n # pre"] exI [of _ m] exI [of _ post]) simp
  next
    case (Some b)
    then show ?thesis using Cons.prems by (intro exI [of _ "[]"]) simp
  qed
qed simp

lemma seek_nodes:
  "seek q v found = orElse found (firstHit q (nodesIn v))"
  "seekItems q vs found = orElse found (firstHit q (concat (map nodesIn vs)))"
  "seekFields q n found = orElse found (firstHit q (concat (map (\<lambda>kv. nodesIn (snd kv)) n)))"
  by (induction q v found and q vs found and q n found rule: seek_seekItems_seekFields.induct)
     (auto simp: orElse_assoc split: option.splits)

lemma seekAt_nodes:
  "seekAt q v loc found = orElse found (firstHit (\<lambda>(n, l). q n l) (nodes v loc))"
  "seekAtItems q vs loc found = orElse found (firstHit (\<lambda>(n, l). q n l) (concat (map (\<lambda>v. nodes v loc) vs)))"
  "seekAtFields q n loc found = orElse found (firstHit (\<lambda>(n, l). q n l) (concat (map (\<lambda>kv. nodes (snd kv) loc) n)))"
  by (induction q v loc found and q vs loc found and q n loc found rule: seekAt_seekAtItems_seekAtFields.induct)
     (auto simp: orElse_assoc split: option.splits)

lemma someNode_iff: "someNode p v \<longleftrightarrow> (\<exists>n \<in> set (nodesIn v). p n)"
  by (auto simp: someNode_def seek_nodes firstHit_None split: if_splits)

lemma someNode_mono: "someNode p v \<Longrightarrow> (\<And>n. p n \<Longrightarrow> q n) \<Longrightarrow> someNode q v"
  by (auto simp: someNode_iff)

lemma nodes_nodesIn: "map fst (nodes v loc) = nodesIn v"
  by (induction v arbitrary: loc rule: nodesIn.induct) (auto simp: map_concat comp_def intro!: arg_cong [of _ _ concat])

lemma nodesIn_nodes: "n \<in> set (nodesIn v) \<Longrightarrow> \<exists>l. (n, l) \<in> set (nodes v loc)"
  by (subst (asm) nodes_nodesIn [symmetric, of _ loc]) auto

text \<open>The objects of a field's value are objects of the object.\<close>

lemma nodesIn_field: "set (nodesIn (field n k)) \<subseteq> set (nodesIn (VObj n))"
  by (auto simp: field_def dest!: map_of_SomeD split: option.splits)

lemma nodesIn_item: "v \<in> set (items w) \<Longrightarrow> set (nodesIn v) \<subseteq> set (nodesIn w)"
  by (cases w) auto

section \<open>Comparing literals\<close>

lemma startsWith_js: "startsWith (js a) (js b) \<longleftrightarrow> take (length b) a = b"
proof -
  have "take (length (js b)) (js a) = js (take (length b) a)" by (simp add: js_def take_map)
  then show ?thesis by (simp add: startsWith_def js_eq)
qed

lemmas node_simps = js_eq startsWith_js field_def strField_def fieldIs_def

end
