(* ===== verification/Ir_Gates.thy ===== *)
theory Ir_Gates
  imports Ir_Walk
begin

text \<open>
  The questions the compiler asks of a whole compiled module (\<open>ir/nodes.ts\<close>, 6112 to 7195): which optional
  runtime units a binary must link (the \<open>moduleUses\<close> family), whether a library graph reaches an
  asynchronous surface (\<open>moduleLibAsyncSurface\<close>), and whether it may attest determinism
  (\<open>moduleLibNondeterministicSurface\<close>). Each is its own walk in the source; here each is a condition on one object
  and the shared walk. The properties: every answer is exactly the existence of a witnessing object,
  a unit's gate implies the gates of the units it calls into, and a graph accepted as asynchronous-free
  turns on no gate of a unit that library links leave out.

  A module is the list of its fields.
\<close>

section \<open>Conditions on one object\<close>

text \<open>\<open>node.kind === "libCall" && typeof node.fn === "string" && p(node.fn)\<close>.\<close>

definition libCallWith :: "(jsstr \<Rightarrow> bool) \<Rightarrow> node \<Rightarrow> bool" where
  "libCallWith p n \<longleftrightarrow> kindIs n (js ''libCall'') \<and> (case strField n (js ''fn'') of Some f \<Rightarrow> p f | None \<Rightarrow> False)"

definition startsIn :: "jsstr list \<Rightarrow> jsstr \<Rightarrow> bool" where
  "startsIn ps f \<longleftrightarrow> (\<exists>p \<in> set ps. startsWith f p)"

definition kindIn :: "jsstr list \<Rightarrow> node \<Rightarrow> bool" where
  "kindIn ks n \<longleftrightarrow> (\<exists>k \<in> set ks. kindIs n k)"

definition methodIn :: "jsstr list \<Rightarrow> node \<Rightarrow> bool" where
  "methodIn ms n \<longleftrightarrow> (\<exists>k \<in> set ms. fieldIs n (js ''method'') k)"

definition textOf :: "jsval \<Rightarrow> jsstr \<Rightarrow> jsstr" where
  "textOf v k = (case strField (fieldsOf v) k of Some s \<Rightarrow> s | None \<Rightarrow> [])"

definition embeddedModules :: "node \<Rightarrow> jsval list" where
  "embeddedModules m = items (field (fieldsOf (field m (js ''embedded''))) (js ''modules''))"

definition classNames :: "node \<Rightarrow> jsstr list" where
  "classNames m = map (\<lambda>c. textOf c (js ''name'')) (items (field m (js ''classes'')))"

text \<open>The regular expression \<open>/\bfetch\b/\<close>, by the unit before the position.\<close>

definition wordUnit :: "16 word \<Rightarrow> bool" where
  "wordUnit c \<longleftrightarrow> 48 \<le> c \<and> c \<le> 57 \<or> 65 \<le> c \<and> c \<le> 90 \<or> 97 \<le> c \<and> c \<le> 122 \<or> c = 95"

fun hasFetch :: "bool \<Rightarrow> jsstr \<Rightarrow> bool" where
  "hasFetch prev [] = False"
| "hasFetch prev (c # s) =
    (\<not> prev \<and> startsWith (c # s) (js ''fetch'') \<and> (case drop 5 (c # s) of [] \<Rightarrow> True | d # _ \<Rightarrow> \<not> wordUnit d) \<or> hasFetch (wordUnit c) s)"

section \<open>The link switches\<close>

definition isRegex :: "node \<Rightarrow> bool" where
  "isRegex n \<longleftrightarrow> kindIn [js ''regex'', js ''regexLit'', js ''regexIntrinsic''] n \<or>
     kindIs n (js ''strIntrinsic'') \<and> methodIn [js ''toLowerCase'', js ''toUpperCase''] n \<or>
     kindIs n (js ''libCall'') \<and> fieldIs n (js ''fn'') (js ''regexp.escape'')"

definition moduleUsesRegex :: "node \<Rightarrow> bool" where
  "moduleUsesRegex m \<longleftrightarrow> someNode isRegex (VObj m)"

definition isCopying :: "node \<Rightarrow> bool" where
  "isCopying n \<longleftrightarrow> kindIs n (js ''arrIntrinsic'') \<and> methodIn [js ''toReversed'', js ''toSpliced'', js ''with''] n \<or>
     kindIs n (js ''bytesIntrinsic'') \<and> methodIn [js ''toReversed'', js ''with'', js ''join'', js ''toArray''] n"

definition moduleUsesCopying :: "node \<Rightarrow> bool" where
  "moduleUsesCopying m \<longleftrightarrow> someNode isCopying (VObj m)"

definition isIslandEngine :: "node \<Rightarrow> bool" where
  "isIslandEngine n \<longleftrightarrow> kindIn [js ''jsOp'', js ''jsExit'', js ''jsBridgePromise'', js ''jsView'', js ''jsUnview''] n \<or>
     (case strField n (js ''fn'') of Some f \<Rightarrow> startsWith f (js ''island.'') | None \<Rightarrow> False)"

definition moduleUsesIslandEngine :: "node \<Rightarrow> bool" where
  "moduleUsesIslandEngine m \<longleftrightarrow> embeddedModules m \<noteq> [] \<or> someNode isIslandEngine (field m (js ''functions''))"

definition isFetch :: "node \<Rightarrow> bool" where
  "isFetch n \<longleftrightarrow> kindIs n (js ''jsOp'') \<and> fieldIs n (js ''op'') (js ''globalGet'') \<and> fieldIs n (js ''name'') (js ''fetch'')"

definition moduleUsesFetch :: "node \<Rightarrow> bool" where
  "moduleUsesFetch m \<longleftrightarrow> (\<exists>e \<in> set (embeddedModules m). hasFetch False (textOf e (js ''source''))) \<or> someNode isFetch (VObj m)"

definition PROCESS_EVENT_LIB_FNS :: "jsstr list" where
  "PROCESS_EVENT_LIB_FNS =
    [
     js ''process.onSignal'', js ''process.offSignal'', js ''process.onExit'', js ''process.offExit'', js ''stdin.onData'', js ''stdin.onEnd'',
     js ''stdin.onError'', js ''stdin.nextChunk'', js ''rl.create'', js ''rl.question'', js ''rl.close'', js ''rl.onClose'']"

definition isProcessEvents :: "node \<Rightarrow> bool" where
  "isProcessEvents n \<longleftrightarrow> libCallWith (\<lambda>f. f \<in> set PROCESS_EVENT_LIB_FNS) n"

definition moduleUsesProcessEvents :: "node \<Rightarrow> bool" where
  "moduleUsesProcessEvents m \<longleftrightarrow> someNode isProcessEvents (VObj m)"

definition isEmitter :: "node \<Rightarrow> bool" where
  "isEmitter n \<longleftrightarrow> libCallWith (\<lambda>f. startsWith f (js ''emitter.'')) n"

definition moduleUsesEmitter :: "node \<Rightarrow> bool" where
  "moduleUsesEmitter m \<longleftrightarrow> js ''%EventEmitter'' \<in> set (classNames m) \<or> someNode isEmitter (VObj m)"

definition RUNTIME_STREAM_CLASSES :: "jsstr list" where
  "RUNTIME_STREAM_CLASSES = [js ''%Readable'', js ''%Writable'', js ''%Duplex'', js ''%Transform'', js ''%PassThrough'']"

definition isStream :: "node \<Rightarrow> bool" where
  "isStream n \<longleftrightarrow> libCallWith (\<lambda>f. startsIn [js ''readable.'', js ''writable.'', js ''duplex.'', js ''transform.'', js ''passthrough.'', js ''sc.'', js ''stream.set''] f \<or>
     f \<in> set [js ''stream.destroy'', js ''stream.destroyAborted'', js ''stream.destroyErr'', js ''stream.prop'', js ''stream.errored'', js ''sp.finished'', js ''sp.pipeline'']) n"

definition moduleUsesStream :: "node \<Rightarrow> bool" where
  "moduleUsesStream m \<longleftrightarrow> (\<exists>c \<in> set (classNames m). c \<in> set RUNTIME_STREAM_CLASSES) \<or> someNode isStream (VObj m)"

definition moduleEmbedsBuiltin :: "node \<Rightarrow> jsstr \<Rightarrow> bool" where
  "moduleEmbedsBuiltin m builtin \<longleftrightarrow> (\<exists>e \<in> set (items (field (fieldsOf (field m (js ''embedded''))) (js ''edges''))). fieldIs (fieldsOf e) (js ''to'') builtin)"

definition NPM_COMPRESS_MIN :: nat where
  "NPM_COMPRESS_MIN = 1024"

definition moduleEmbedsCompressedNpm :: "node \<Rightarrow> bool" where
  "moduleEmbedsCompressedNpm m \<longleftrightarrow>
     (\<exists>e \<in> set (embeddedModules m). NPM_COMPRESS_MIN \<le> length (textOf e (js ''source'')) \<or> NPM_COMPRESS_MIN \<le> length (textOf e (js ''esm'')))"

definition isZlib :: "node \<Rightarrow> bool" where
  "isZlib n \<longleftrightarrow> libCallWith (\<lambda>f. startsWith f (js ''zlib.'')) n"

definition moduleUsesZlib :: "node \<Rightarrow> bool" where
  "moduleUsesZlib m \<longleftrightarrow> moduleEmbedsBuiltin m (js ''node:zlib'') \<or> someNode isZlib (VObj m)"

definition IR_IEEE754_FNS :: "jsstr list" where
  "IR_IEEE754_FNS =
    [
     js ''math.acos'', js ''math.acosh'', js ''math.asin'', js ''math.asinh'', js ''math.atan'', js ''math.atanh'', js ''math.atan2'',
     js ''math.cbrt'', js ''math.cos'', js ''math.cosh'', js ''math.exp'', js ''math.expm1'', js ''math.log'', js ''math.log1p'', js ''math.log2'',
     js ''math.log10'', js ''math.sin'', js ''math.sinh'', js ''math.tan'', js ''math.tanh'']"

definition isIeee754 :: "node \<Rightarrow> bool" where
  "isIeee754 n \<longleftrightarrow> libCallWith (\<lambda>f. f \<in> set IR_IEEE754_FNS) n"

definition moduleUsesIeee754 :: "node \<Rightarrow> bool" where
  "moduleUsesIeee754 m \<longleftrightarrow> someNode isIeee754 (VObj m)"

definition isDc :: "node \<Rightarrow> bool" where
  "isDc n \<longleftrightarrow> libCallWith (\<lambda>f. startsWith f (js ''dc.'')) n"

definition moduleUsesDc :: "node \<Rightarrow> bool" where
  "moduleUsesDc m \<longleftrightarrow> someNode isDc (VObj m)"

definition isAssert :: "node \<Rightarrow> bool" where
  "isAssert n \<longleftrightarrow> libCallWith (\<lambda>f. startsWith f (js ''assert.'')) n"

definition moduleUsesAssert :: "node \<Rightarrow> bool" where
  "moduleUsesAssert m \<longleftrightarrow> someNode isAssert (VObj m)"

definition isDynInvoke :: "node \<Rightarrow> bool" where
  "isDynInvoke n \<longleftrightarrow> kindIs n (js ''dynInvoke'') \<or> kindIs n (js ''libCall'') \<and> fieldIs n (js ''fn'') (js ''dyn.defineProps'')"

definition moduleUsesDynInvoke :: "node \<Rightarrow> bool" where
  "moduleUsesDynInvoke m \<longleftrightarrow> someNode isDynInvoke (VObj m)"

definition DYN_ASYNC_FNS :: "jsstr list" where
  "DYN_ASYNC_FNS =
    [
     js ''async.awaitDyn'', js ''timers.immediatePromise'', js ''process.onUnhandledRejection'', js ''process.offUnhandledRejection'',
     js ''process.onRejectionHandled'', js ''process.offRejectionHandled'', js ''process.onWarning'', js ''process.offWarning'',
     js ''process.emitWarning'', js ''als.new'', js ''als.get'', js ''als.run'', js ''als.exitRun'', js ''als.enterWith'', js ''als.disable'',
     js ''dc.chanBindStore'', js ''dc.chanUnbindStore'', js ''dc.chanRunStores'']"

definition isDynAsync :: "node \<Rightarrow> bool" where
  "isDynAsync n \<longleftrightarrow> libCallWith (\<lambda>f. f \<in> set DYN_ASYNC_FNS) n \<or>
     kindIs n (js ''awaitExpr'') \<and> fieldIs (fieldsOf (field n (js ''type''))) (js ''kind'') (js ''dyn'')"

definition moduleUsesDynAsync :: "node \<Rightarrow> bool" where
  "moduleUsesDynAsync m \<longleftrightarrow> someNode isDynAsync (VObj m)"

definition isInspect :: "node \<Rightarrow> bool" where
  "isInspect n \<longleftrightarrow> libCallWith (\<lambda>f. startsWith f (js ''insp.'')) n"

definition moduleUsesInspect :: "node \<Rightarrow> bool" where
  "moduleUsesInspect m \<longleftrightarrow> someNode isInspect (VObj m)"

definition isNet :: "node \<Rightarrow> bool" where
  "isNet n \<longleftrightarrow> libCallWith (startsIn [js ''net.'', js ''http.'', js ''tls.'', js ''https.'', js ''http2.'']) n \<or>
     kindIn [js ''netServer'', js ''netSocket'', js ''http2Session'', js ''http2Stream'', js ''httpReq'', js ''httpRes'', js ''httpClientReq'', js ''secureCtx''] n"

definition moduleUsesNet :: "node \<Rightarrow> bool" where
  "moduleUsesNet m \<longleftrightarrow> someNode isNet (VObj m)"

definition isSymbol :: "node \<Rightarrow> bool" where
  "isSymbol n \<longleftrightarrow> libCallWith (\<lambda>f. startsWith f (js ''sym.'')) n \<or> kindIn [js ''symbol''] n"

definition moduleUsesSymbol :: "node \<Rightarrow> bool" where
  "moduleUsesSymbol m \<longleftrightarrow> someNode isSymbol (VObj m)"

definition isSearchParams :: "node \<Rightarrow> bool" where
  "isSearchParams n \<longleftrightarrow> libCallWith (\<lambda>f. startsWith f (js ''sp.'') \<or> f = js ''url.searchParams'') n \<or> kindIn [js ''searchParams''] n"

definition moduleUsesSearchParams :: "node \<Rightarrow> bool" where
  "moduleUsesSearchParams m \<longleftrightarrow> someNode isSearchParams (VObj m)"

text \<open>Only the bodies of the functions are walked, with one flag for all of them.\<close>

definition hasTypeKind :: "jsstr \<Rightarrow> node \<Rightarrow> bool" where
  "hasTypeKind k n \<longleftrightarrow> fieldIs (fieldsOf (field n (js ''type''))) (js ''kind'') k"

definition moduleHasTypeKind :: "node \<Rightarrow> jsstr \<Rightarrow> bool" where
  "moduleHasTypeKind m k \<longleftrightarrow> (\<exists>f \<in> set (items (field m (js ''functions''))). someNode (hasTypeKind k) (field (fieldsOf f) (js ''body'')))"

definition moduleHasDynValues :: "node \<Rightarrow> bool" where
  "moduleHasDynValues m \<longleftrightarrow> moduleHasTypeKind m (js ''dyn'')"

definition moduleHasJsvalValues :: "node \<Rightarrow> bool" where
  "moduleHasJsvalValues m \<longleftrightarrow> moduleHasTypeKind m (js ''jsval'')"

definition isQs :: "node \<Rightarrow> bool" where
  "isQs n \<longleftrightarrow> libCallWith (\<lambda>f. f \<in> set [js ''qs.parse'', js ''qs.stringify'', js ''qs.unescape'']) n"

definition moduleUsesQs :: "node \<Rightarrow> bool" where
  "moduleUsesQs m \<longleftrightarrow> someNode isQs (VObj m)"

definition isFsWatch :: "node \<Rightarrow> bool" where
  "isFsWatch n \<longleftrightarrow> libCallWith (\<lambda>f. startsWith f (js ''fs.watch'') \<or> startsWith f (js ''watcher.'')) n \<or> kindIn [js ''fsWatcher''] n"

definition moduleUsesFsWatch :: "node \<Rightarrow> bool" where
  "moduleUsesFsWatch m \<longleftrightarrow> someNode isFsWatch (VObj m)"

definition isNodeTest :: "node \<Rightarrow> bool" where
  "isNodeTest n \<longleftrightarrow> libCallWith (\<lambda>f. startsWith f (js ''test.'')) n \<or> kindIn [js ''testCtx''] n"

definition moduleUsesNodeTest :: "node \<Rightarrow> bool" where
  "moduleUsesNodeTest m \<longleftrightarrow> someNode isNodeTest (VObj m)"

definition isDgram :: "node \<Rightarrow> bool" where
  "isDgram n \<longleftrightarrow> libCallWith (\<lambda>f. startsWith f (js ''dgram.'') \<or> startsWith f (js ''dns.'')) n \<or> kindIn [js ''dgramSocket''] n"

definition moduleUsesDgram :: "node \<Rightarrow> bool" where
  "moduleUsesDgram m \<longleftrightarrow> someNode isDgram (VObj m)"

definition isHttpServer :: "node \<Rightarrow> bool" where
  "isHttpServer n \<longleftrightarrow> libCallWith (startsIn [js ''http.'', js ''tls.'', js ''https.'', js ''http2.'']) n \<or>
     kindIn [js ''httpReq'', js ''httpRes'', js ''httpClientReq'', js ''secureCtx''] n"

definition moduleUsesHttpServer :: "node \<Rightarrow> bool" where
  "moduleUsesHttpServer m \<longleftrightarrow> someNode isHttpServer (VObj m)"

definition HTTP2_LEGACY_FNS :: "jsstr list" where
  "HTTP2_LEGACY_FNS =
    [
     js ''http2.createSecureServer'', js ''http2.createSecureServerSni'', js ''http2.serverOnSessionError'', js ''http2.streamNoop'',
     js ''http2.streamUndefCall'']"

definition isHttp2 :: "node \<Rightarrow> bool" where
  "isHttp2 n \<longleftrightarrow> libCallWith (\<lambda>f. startsWith f (js ''http2.'') \<and> f \<notin> set HTTP2_LEGACY_FNS) n \<or> kindIn [js ''http2Session'', js ''http2Stream''] n"

definition moduleUsesHttp2 :: "node \<Rightarrow> bool" where
  "moduleUsesHttp2 m \<longleftrightarrow> someNode isHttp2 (VObj m)"

definition isTls :: "node \<Rightarrow> bool" where
  "isTls n \<longleftrightarrow> libCallWith (startsIn [js ''tls.'', js ''https.'', js ''http2.'']) n \<or> kindIn [js ''secureCtx''] n"

definition moduleUsesTls :: "node \<Rightarrow> bool" where
  "moduleUsesTls m \<longleftrightarrow> someNode isTls (VObj m)"

definition isTlsCa :: "node \<Rightarrow> bool" where
  "isTlsCa n \<longleftrightarrow> libCallWith (\<lambda>f. startsWith f (js ''tlsca.'')) n"

definition moduleUsesTlsCa :: "node \<Rightarrow> bool" where
  "moduleUsesTlsCa m \<longleftrightarrow> someNode isTlsCa (VObj m)"

section \<open>The library gates\<close>

definition LIB_MODE_REFUSED_PREFIXES :: "(jsstr \<times> jsstr) list" where
  "LIB_MODE_REFUSED_PREFIXES =
    [
     (js ''fs.existsChk'', js ''the async fs callback surface (fs.exists)''), (js ''timers.'', js ''the timers surface (setTimeout family)''),
     (js ''tp.'', js ''the timers/promises surface''), (js ''cp.'', js ''the child_process surface''),
     (js ''child.'', js ''the child_process surface''), (js ''spawnRes.'', js ''the child_process surface''),
     (js ''process.on'', js ''process signal/exit listeners''), (js ''process.off'', js ''process signal/exit listeners''),
     (js ''stdin.'', js ''the stdin event surface''), (js ''rl.'', js ''the node:readline surface''), (js ''net.'', js ''the node:net surface''),
     (js ''http.'', js ''the node:http surface''), (js ''https.'', js ''the node:https surface''), (js ''http2.'', js ''the node:http2 surface''),
     (js ''h2.'', js ''the node:http2 surface''), (js ''dgram.'', js ''the node:dgram surface''), (js ''dns.'', js ''the node:dns surface''),
     (js ''tls.'', js ''the node:tls surface''), (js ''fs.watch'', js ''fs.watch''), (js ''watcher.'', js ''fs.watch''),
     (js ''test.'', js ''the node:test surface''), (js ''readable.'', js ''the node:stream surface''),
     (js ''writable.'', js ''the node:stream surface''), (js ''duplex.'', js ''the node:stream surface''),
     (js ''transform.'', js ''the node:stream surface''), (js ''passthrough.'', js ''the node:stream surface''),
     (js ''stream.'', js ''the node:stream surface''), (js ''als.'', js ''AsyncLocalStorage''), (js ''urj.'', js ''unhandled-rejection tracking''),
     (js ''dc.'', js ''the diagnostics_channel surface''), (js ''dyn.defineProps'', js ''checked-dynamic prototype dispatch'')]"

definition LIB_MODE_REFUSED_KINDS :: "(jsstr \<times> jsstr) list" where
  "LIB_MODE_REFUSED_KINDS =
    [
     (js ''promise'', js ''promise values''), (js ''generator'', js ''generator values''), (js ''awaitExpr'', js ''await''),
     (js ''awaitUnionExpr'', js ''await''), (js ''yieldExpr'', js ''yield''), (js ''child'', js ''the child_process surface''),
     (js ''spawnRes'', js ''the child_process surface''), (js ''childStream'', js ''the child_process surface''),
     (js ''netServer'', js ''the node:net surface''), (js ''netSocket'', js ''the node:net surface''),
     (js ''http2Session'', js ''the node:http2 surface''), (js ''http2Stream'', js ''the node:http2 surface''),
     (js ''dgramSocket'', js ''the node:dgram surface''), (js ''fsWatcher'', js ''fs.watch''), (js ''testCtx'', js ''the node:test surface''),
     (js ''httpReq'', js ''the node:http surface''), (js ''httpRes'', js ''the node:http surface''),
     (js ''httpClientReq'', js ''the node:http surface''), (js ''secureCtx'', js ''the node:tls surface''),
     (js ''dynInvoke'', js ''checked-dynamic prototype dispatch'')]"

text \<open>The first prefix of a table that the name starts with.\<close>

fun prefixSurface :: "(jsstr \<times> jsstr) list \<Rightarrow> jsstr \<Rightarrow> jsstr option" where
  "prefixSurface [] f = None"
| "prefixSurface ((p, surface) # rest) f = (if startsWith f p then Some surface else prefixSurface rest f)"

definition refusedAt :: "node \<Rightarrow> jsval \<Rightarrow> (jsstr \<times> jsval) option" where
  "refusedAt n here =
    (case strField n (js ''kind'') of
       None \<Rightarrow> None
     | Some kind \<Rightarrow>
         (case map_of LIB_MODE_REFUSED_KINDS kind of
            Some bad \<Rightarrow> Some (bad, here)
          | None \<Rightarrow>
              (if kind = js ''libCall'' then
                 (case strField n (js ''fn'') of
                    None \<Rightarrow> None
                  | Some f \<Rightarrow> map_option (\<lambda>surface. (surface, here)) (prefixSurface LIB_MODE_REFUSED_PREFIXES f))
               else None)))"

definition bareName :: "jsstr \<Rightarrow> jsstr" where
  "bareName s = (case s of c # cs \<Rightarrow> if c = 37 then cs else s | [] \<Rightarrow> [])"

definition asyncFn :: "jsval \<Rightarrow> (jsstr \<times> jsval) option" where
  "asyncFn f =
    (if field (fieldsOf f) (js ''async'') = VBool True
     then Some (js ''an async function ('' @ [39] @ bareName (textOf f (js ''name'')) @ [39] @ js '')'', field (fieldsOf f) (js ''loc''))
     else if field (fieldsOf f) (js ''generator'') \<noteq> VUndef
     then Some (js ''a generator function ('' @ [39] @ bareName (textOf f (js ''name'')) @ [39] @ js '')'', field (fieldsOf f) (js ''loc''))
     else None)"

definition coarse :: "node \<Rightarrow> (bool \<times> jsstr) list" where
  "coarse m =
    [(moduleUsesProcessEvents m, js ''process signal/exit listeners or the stdin event surface''),
     (moduleUsesNet m, js ''the node:net surface''),
     (moduleUsesHttpServer m, js ''the node:http surface''),
     (moduleUsesHttp2 m, js ''the node:http2 surface''),
     (moduleUsesDgram m, js ''the node:dgram surface''),
     (moduleUsesFsWatch m, js ''fs.watch''),
     (moduleUsesStream m, js ''the node:stream surface''),
     (moduleUsesTls m, js ''the node:tls surface''),
     (moduleUsesFetch m, js ''fetch''),
     (moduleUsesNodeTest m, js ''the node:test surface''),
     (moduleUsesDynAsync m, js ''the checked-dynamic async surface''),
     (moduleUsesDc m, js ''the diagnostics_channel surface''),
     (moduleUsesDynInvoke m, js ''checked-dynamic prototype dispatch'')]"

definition moduleLibAsyncSurface :: "node \<Rightarrow> (jsstr \<times> jsval) option" where
  "moduleLibAsyncSurface m =
    (case firstHit asyncFn (items (field m (js ''functions''))) of
       Some s \<Rightarrow> Some s
     | None \<Rightarrow>
         (case seekAt refusedAt (VObj m) (entryLoc m) None of
            Some s \<Rightarrow> Some s
          | None \<Rightarrow> firstHit (\<lambda>(on, surface). if on then Some (surface, entryLoc m) else None) (coarse m)))"

definition LIB_NONDETERMINISTIC_PREFIXES :: "(jsstr \<times> jsstr) list" where
  "LIB_NONDETERMINISTIC_PREFIXES =
    [
     (js ''math.random'', js ''Math.random''), (js ''crypto.random'', js ''crypto randomness''), (js ''date.'', js ''the live clock (Date)''),
     (js ''perf.'', js ''the live clock (performance)''), (js ''process.env'', js ''environment reads''), (js ''process.argv'', js ''process.argv''),
     (js ''process.cwd'', js ''process.cwd''), (js ''process.chdir'', js ''process.chdir''), (js ''process.pid'', js ''process identity''),
     (js ''process.getuid'', js ''process identity''), (js ''process.getgid'', js ''process identity''),
     (js ''process.execPath'', js ''process identity''), (js ''process.uptime'', js ''the live clock (process.uptime)''),
     (js ''process.availableMemory'', js ''machine memory state''), (js ''process.constrainedMemory'', js ''machine memory state''),
     (js ''process.rusage'', js ''machine resource usage (process.resourceUsage)''),
     (js ''process.cpu'', js ''the process CPU clock (process.cpuUsage)''),
     (js ''process.threadCpu'', js ''the thread CPU clock (process.threadCpuUsage)''), (js ''process.isTTY'', js ''terminal attachment (isTTY)''),
     (js ''process.columns'', js ''terminal geometry (columns)''), (js ''process.kill'', js ''process authority (kill)''),
     (js ''process.umask'', js ''process authority (umask)''), (js ''process.umaskRead'', js ''process authority (umask)''),
     (js ''process.exit'', js ''process authority (exit)''), (js ''fs.'', js ''the filesystem''), (js ''os.'', js ''machine/OS identity''),
     (js ''tlsca.'', js ''the host CA store'')]"

definition ndAt :: "node \<Rightarrow> jsstr option" where
  "ndAt n =
    (if kindIs n (js ''libCall'')
     then (case strField n (js ''fn'') of None \<Rightarrow> None | Some f \<Rightarrow> prefixSurface LIB_NONDETERMINISTIC_PREFIXES f)
     else None)"

definition moduleLibNondeterministicSurface :: "node \<Rightarrow> jsstr option" where
  "moduleLibNondeterministicSurface m = seek ndAt (VObj m) None"

section \<open>What the answers mean\<close>

lemma libCallWith_iff: "libCallWith p n \<longleftrightarrow> (\<exists>f. kindIs n (js ''libCall'') \<and> fieldIs n (js ''fn'') f \<and> p f)"
  by (auto simp: libCallWith_def fieldIs_def split: option.splits)

lemma libCallWith_mono: "libCallWith p n \<Longrightarrow> (\<And>f. p f \<Longrightarrow> q f) \<Longrightarrow> libCallWith q n"
  by (auto simp: libCallWith_iff)

lemma startsIn_simps [simp]: "startsIn [] f \<longleftrightarrow> False" "startsIn (p # ps) f \<longleftrightarrow> startsWith f p \<or> startsIn ps f"
  by (auto simp: startsIn_def)

lemma kindIn_simps [simp]: "kindIn [] n \<longleftrightarrow> False" "kindIn (k # ks) n \<longleftrightarrow> kindIs n k \<or> kindIn ks n"
  by (auto simp: kindIn_def)

lemma kindIn_mono: "kindIn ks n \<Longrightarrow> set ks \<subseteq> set ls \<Longrightarrow> kindIn ls n"
  by (auto simp: kindIn_def)

lemma startsIn_mono: "startsIn ps f \<Longrightarrow> set ps \<subseteq> set qs \<Longrightarrow> startsIn qs f"
  by (auto simp: startsIn_def)

lemma prefixSurface_None: "prefixSurface t f = None \<longleftrightarrow> \<not> startsIn (map fst t) f"
  by (induction t f rule: prefixSurface.induct) (auto simp: startsIn_def)

definition refusedNode :: "node \<Rightarrow> bool" where
  "refusedNode n \<longleftrightarrow> kindIn (map fst LIB_MODE_REFUSED_KINDS) n \<or> libCallWith (startsIn (map fst LIB_MODE_REFUSED_PREFIXES)) n"

lemma map_of_None_fst: "map_of t k = None \<longleftrightarrow> k \<notin> set (map fst t)"
  by (simp add: map_of_eq_None_iff)

lemma refusedAt_None: "refusedAt n here = None \<longleftrightarrow> \<not> refusedNode n"
proof (cases "strField n (js ''kind'')")
  case (Some kind)
  have kinds: "kindIn ks n \<longleftrightarrow> kind \<in> set ks" for ks using Some by (auto simp: kindIn_def fieldIs_def)
  show ?thesis
  proof (cases "map_of LIB_MODE_REFUSED_KINDS kind")
    case None
    then have "kind \<notin> set (map fst LIB_MODE_REFUSED_KINDS)" by (simp only: map_of_None_fst) simp
    then show ?thesis using None Some
      by (auto simp: refusedAt_def refusedNode_def kinds libCallWith_def fieldIs_def prefixSurface_None split: option.splits)
  next
    case (Some bad)
    then have "kind \<in> set (map fst LIB_MODE_REFUSED_KINDS)" using map_of_None_fst [of LIB_MODE_REFUSED_KINDS kind] by simp
    then show ?thesis using Some \<open>strField n (js ''kind'') = Some kind\<close> by (simp add: refusedAt_def refusedNode_def kinds)
  qed
qed (simp add: refusedAt_def refusedNode_def kindIn_def libCallWith_def fieldIs_def)

lemma refusedAt_loc: "refusedAt n here = Some (s, l) \<Longrightarrow> l = here"
  by (auto simp: refusedAt_def split: option.splits if_splits)

text \<open>Ten of the thirteen coarse gates are implied by the tables.\<close>

lemma process_events_refused: "\<forall>f \<in> set PROCESS_EVENT_LIB_FNS. startsIn (map fst LIB_MODE_REFUSED_PREFIXES) f"
  by (simp add: PROCESS_EVENT_LIB_FNS_def LIB_MODE_REFUSED_PREFIXES_def startsWith_js)

lemma refusedKinds:
  "{js ''netServer'', js ''netSocket'', js ''http2Session'', js ''http2Stream'', js ''httpReq'', js ''httpRes'', js ''httpClientReq'', js ''secureCtx'',
    js ''fsWatcher'', js ''testCtx'', js ''dgramSocket'', js ''dynInvoke''} \<subseteq> set (map fst LIB_MODE_REFUSED_KINDS)"
  by (simp add: LIB_MODE_REFUSED_KINDS_def)

lemma refusedPrefixes:
  "{js ''net.'', js ''http.'', js ''tls.'', js ''https.'', js ''http2.'', js ''dgram.'', js ''dns.'', js ''fs.watch'', js ''watcher.'', js ''test.'', js ''dc.'',
    js ''dyn.defineProps''} \<subseteq> set (map fst LIB_MODE_REFUSED_PREFIXES)"
  by (simp add: LIB_MODE_REFUSED_PREFIXES_def)

lemma fine_covers:
  "isProcessEvents n \<Longrightarrow> refusedNode n" "isNet n \<Longrightarrow> refusedNode n" "isHttpServer n \<Longrightarrow> refusedNode n" "isHttp2 n \<Longrightarrow> refusedNode n"
  "isDgram n \<Longrightarrow> refusedNode n" "isFsWatch n \<Longrightarrow> refusedNode n" "isTls n \<Longrightarrow> refusedNode n" "isNodeTest n \<Longrightarrow> refusedNode n"
  "isDc n \<Longrightarrow> refusedNode n" "isDynInvoke n \<Longrightarrow> refusedNode n"
proof -
  have kinds: "kindIn ks n \<Longrightarrow> set ks \<subseteq> set (map fst LIB_MODE_REFUSED_KINDS) \<Longrightarrow> refusedNode n" for ks
    unfolding refusedNode_def using kindIn_mono by blast
  have calls: "libCallWith p n \<Longrightarrow> (\<And>f. p f \<Longrightarrow> startsIn ps f) \<Longrightarrow> set ps \<subseteq> set (map fst LIB_MODE_REFUSED_PREFIXES) \<Longrightarrow> refusedNode n" for p ps
    unfolding refusedNode_def using libCallWith_mono startsIn_mono by meson
  show "isProcessEvents n \<Longrightarrow> refusedNode n"
    unfolding isProcessEvents_def refusedNode_def using process_events_refused libCallWith_mono by meson
  show "isNet n \<Longrightarrow> refusedNode n"
    unfolding isNet_def by (elim disjE) (erule calls, assumption, use refusedPrefixes in simp, erule kinds, use refusedKinds in simp)
  show "isHttpServer n \<Longrightarrow> refusedNode n"
    unfolding isHttpServer_def by (elim disjE) (erule calls, assumption, use refusedPrefixes in simp, erule kinds, use refusedKinds in simp)
  show "isTls n \<Longrightarrow> refusedNode n"
    unfolding isTls_def by (elim disjE) (erule calls, assumption, use refusedPrefixes in simp, erule kinds, use refusedKinds in simp)
  show "isHttp2 n \<Longrightarrow> refusedNode n"
    unfolding isHttp2_def
    by (elim disjE) (erule calls [of _ "[js ''http2.'']"], simp, use refusedPrefixes in simp, erule kinds, use refusedKinds in simp)
  show "isDgram n \<Longrightarrow> refusedNode n"
    unfolding isDgram_def
    by (elim disjE) (erule calls [of _ "[js ''dgram.'', js ''dns.'']"], simp, use refusedPrefixes in simp, erule kinds, use refusedKinds in simp)
  show "isFsWatch n \<Longrightarrow> refusedNode n"
    unfolding isFsWatch_def
    by (elim disjE) (erule calls [of _ "[js ''fs.watch'', js ''watcher.'']"], simp, use refusedPrefixes in simp, erule kinds, use refusedKinds in simp)
  show "isNodeTest n \<Longrightarrow> refusedNode n"
    unfolding isNodeTest_def
    by (elim disjE) (erule calls [of _ "[js ''test.'']"], simp, use refusedPrefixes in simp, erule kinds, use refusedKinds in simp)
  show "isDc n \<Longrightarrow> refusedNode n"
    unfolding isDc_def by (erule calls [of _ "[js ''dc.'']"], simp, use refusedPrefixes in simp)
  show "isDynInvoke n \<Longrightarrow> refusedNode n"
  proof -
    assume "isDynInvoke n"
    then consider "kindIn [js ''dynInvoke''] n" | "libCallWith (\<lambda>f. f = js ''dyn.defineProps'') n"
      by (auto simp: isDynInvoke_def libCallWith_iff)
    then show "refusedNode n"
      by cases (erule kinds, use refusedKinds in simp,
        erule calls [of _ "[js ''dyn.defineProps'']"], simp add: startsWith_def, use refusedPrefixes in simp)
  qed
qed

lemma coarse_quiet:
  assumes "\<forall>n \<in> set (nodesIn (VObj m)). \<not> refusedNode n"
  shows "firstHit (\<lambda>(on, surface). if on then Some (surface, entryLoc m) else None) (coarse m) = None \<longleftrightarrow>
     \<not> moduleUsesStream m \<and> \<not> moduleUsesFetch m \<and> \<not> moduleUsesDynAsync m"
proof -
  have no: "\<not> someNode p (VObj m)" if "\<And>n. p n \<Longrightarrow> refusedNode n" for p
    using assms that by (auto simp: someNode_iff)
  show ?thesis
    by (simp add: coarse_def firstHit_None moduleUsesProcessEvents_def moduleUsesNet_def moduleUsesHttpServer_def moduleUsesHttp2_def
        moduleUsesDgram_def moduleUsesFsWatch_def moduleUsesTls_def moduleUsesNodeTest_def moduleUsesDc_def moduleUsesDynInvoke_def
        no [OF fine_covers(1)] no [OF fine_covers(2)] no [OF fine_covers(3)] no [OF fine_covers(4)] no [OF fine_covers(5)]
        no [OF fine_covers(6)] no [OF fine_covers(7)] no [OF fine_covers(8)] no [OF fine_covers(9)] no [OF fine_covers(10)])
qed

lemma asyncFn_None: "asyncFn f = None \<longleftrightarrow> field (fieldsOf f) (js ''async'') \<noteq> VBool True \<and> field (fieldsOf f) (js ''generator'') = VUndef"
  by (simp add: asyncFn_def)

lemma refused_walk: "seekAt refusedAt (VObj m) (entryLoc m) None = None \<longleftrightarrow> (\<forall>n \<in> set (nodesIn (VObj m)). \<not> refusedNode n)"
  unfolding seekAt_nodes(1) nodes_nodesIn [symmetric, of "VObj m" "entryLoc m"]
  by (auto simp: firstHit_None refusedAt_None simp del: nodes.simps)

text \<open>Modules for the witnesses: one that calls one library function, one that calls none.\<close>

definition callModule :: "string \<Rightarrow> node" where
  "callModule f = [(js ''sourceFile'', VStr (js ''a.ts'')), (js ''functions'', VArr [VObj [(js ''name'', VStr (js ''main'')),
     (js ''body'', VArr [VObj [(js ''kind'', VStr (js ''libCall'')), (js ''fn'', VStr (js f)), (js ''args'', VArr [])]])]])]"

lemma call_nodes: "nodesIn (VObj (callModule f)) = [callModule f, fieldsOf (hd (items (field (callModule f) (js ''functions'')))),
    [(js ''kind'', VStr (js ''libCall'')), (js ''fn'', VStr (js f)), (js ''args'', VArr [])]]"
  by (simp add: callModule_def node_simps)

lemmas call_simps = call_nodes someNode_iff libCallWith_iff callModule_def node_simps

lemma call_quiet: "moduleLibAsyncSurface (callModule ''math.sqrt'') = None"
proof -
  have "\<forall>n \<in> set (nodesIn (VObj (callModule ''math.sqrt''))). \<not> refusedNode n"
    by (simp add: call_simps refusedNode_def LIB_MODE_REFUSED_KINDS_def LIB_MODE_REFUSED_PREFIXES_def)
  moreover have "\<not> moduleUsesStream (callModule ''math.sqrt'')"
    by (simp add: call_simps moduleUsesStream_def isStream_def classNames_def)
  moreover have "\<not> moduleUsesFetch (callModule ''math.sqrt'')"
    by (simp add: call_simps moduleUsesFetch_def isFetch_def embeddedModules_def)
  moreover have "\<not> moduleUsesDynAsync (callModule ''math.sqrt'')"
    by (simp add: call_simps moduleUsesDynAsync_def isDynAsync_def DYN_ASYNC_FNS_def)
  ultimately have "firstHit (\<lambda>(on, surface). if on then Some (surface, entryLoc (callModule ''math.sqrt'')) else None) (coarse (callModule ''math.sqrt'')) = None"
    and "seekAt refusedAt (VObj (callModule ''math.sqrt'')) (entryLoc (callModule ''math.sqrt'')) None = None"
    using coarse_quiet refused_walk by blast+
  moreover have "firstHit asyncFn (items (field (callModule ''math.sqrt'') (js ''functions''))) = None"
    by (simp add: callModule_def node_simps firstHit_None asyncFn_None)
  ultimately show ?thesis by (simp add: moduleLibAsyncSurface_def)
qed

section \<open>Properties\<close>

text \<open>C12. A library graph is accepted as free of asynchronous surfaces exactly when no function is asynchronous or a
  generator, no object anywhere in the module has a refused kind or calls a refused library family, and the
  stream, fetch and dynamic-asynchrony gates are off. The other ten coarse gates never decide: the
  tables already refuse whatever turns them on, so they are off in every accepted graph.\<close>

theorem async_free_exactly:
  "(moduleLibAsyncSurface m = None \<longleftrightarrow>
      (\<forall>f \<in> set (items (field m (js ''functions''))). field (fieldsOf f) (js ''async'') \<noteq> VBool True \<and> field (fieldsOf f) (js ''generator'') = VUndef)
      \<and> (\<forall>n \<in> set (nodesIn (VObj m)). \<not> kindIn (map fst LIB_MODE_REFUSED_KINDS) n \<and> \<not> libCallWith (startsIn (map fst LIB_MODE_REFUSED_PREFIXES)) n)
      \<and> \<not> moduleUsesStream m \<and> \<not> moduleUsesFetch m \<and> \<not> moduleUsesDynAsync m)
   \<and> (moduleLibAsyncSurface m = None \<longrightarrow>
        \<not> moduleUsesProcessEvents m \<and> \<not> moduleUsesNet m \<and> \<not> moduleUsesHttpServer m \<and> \<not> moduleUsesHttp2 m \<and> \<not> moduleUsesDgram m
        \<and> \<not> moduleUsesFsWatch m \<and> \<not> moduleUsesTls m \<and> \<not> moduleUsesNodeTest m \<and> \<not> moduleUsesDc m \<and> \<not> moduleUsesDynInvoke m)"
proof
  let ?fns = "firstHit asyncFn (items (field m (js ''functions'')))" and ?walk = "seekAt refusedAt (VObj m) (entryLoc m) None"
  let ?coarse = "firstHit (\<lambda>(on, surface). if on then Some (surface, entryLoc m) else None) (coarse m)"
  have parts: "moduleLibAsyncSurface m = None \<longleftrightarrow> ?fns = None \<and> ?walk = None \<and> ?coarse = None"
    by (simp add: moduleLibAsyncSurface_def split: option.splits)
  show "moduleLibAsyncSurface m = None \<longleftrightarrow>
      (\<forall>f \<in> set (items (field m (js ''functions''))). field (fieldsOf f) (js ''async'') \<noteq> VBool True \<and> field (fieldsOf f) (js ''generator'') = VUndef)
      \<and> (\<forall>n \<in> set (nodesIn (VObj m)). \<not> kindIn (map fst LIB_MODE_REFUSED_KINDS) n \<and> \<not> libCallWith (startsIn (map fst LIB_MODE_REFUSED_PREFIXES)) n)
      \<and> \<not> moduleUsesStream m \<and> \<not> moduleUsesFetch m \<and> \<not> moduleUsesDynAsync m"
    unfolding parts refused_walk firstHit_None [of asyncFn] asyncFn_None using coarse_quiet [of m] unfolding refusedNode_def de_Morgan_disj by blast
  show "moduleLibAsyncSurface m = None \<longrightarrow>
        \<not> moduleUsesProcessEvents m \<and> \<not> moduleUsesNet m \<and> \<not> moduleUsesHttpServer m \<and> \<not> moduleUsesHttp2 m \<and> \<not> moduleUsesDgram m
        \<and> \<not> moduleUsesFsWatch m \<and> \<not> moduleUsesTls m \<and> \<not> moduleUsesNodeTest m \<and> \<not> moduleUsesDc m \<and> \<not> moduleUsesDynInvoke m"
    unfolding parts by (simp add: coarse_def firstHit_None)
qed

theorem async_free_exactly_witness:
  "moduleLibAsyncSurface (callModule ''math.sqrt'') = None \<and> \<not> moduleUsesNet (callModule ''math.sqrt'') \<and> \<not> moduleUsesStream (callModule ''math.sqrt'')"
  using call_quiet async_free_exactly [of "callModule ''math.sqrt''"] by blast

text \<open>The units of the server family link together: a module that links the TLS unit links the HTTP and the
  socket unit it calls into, and one that links the HTTP or the HTTP/2 unit links the socket unit.\<close>

theorem server_units_link_together:
  "(moduleUsesTls m \<longrightarrow> moduleUsesHttpServer m \<and> moduleUsesNet m) \<and> (moduleUsesHttpServer m \<longrightarrow> moduleUsesNet m) \<and> (moduleUsesHttp2 m \<longrightarrow> moduleUsesNet m)"
proof -
  have http: "isTls n \<Longrightarrow> isHttpServer n" for n by (auto simp: isTls_def isHttpServer_def libCallWith_iff)
  have net: "isHttpServer n \<Longrightarrow> isNet n" "isHttp2 n \<Longrightarrow> isNet n" for n by (auto simp: isHttpServer_def isHttp2_def isNet_def libCallWith_iff)
  show ?thesis
    unfolding moduleUsesTls_def moduleUsesHttpServer_def moduleUsesHttp2_def moduleUsesNet_def using someNode_mono http net by metis
qed

theorem server_units_link_together_witness:
  "moduleUsesTls (callModule ''tls.connect'') \<and> moduleUsesHttpServer (callModule ''tls.connect'') \<and> moduleUsesNet (callModule ''tls.connect'')"
proof -
  have "moduleUsesTls (callModule ''tls.connect'')" by (simp add: call_simps moduleUsesTls_def isTls_def)
  then show ?thesis using server_units_link_together [of "callModule ''tls.connect''"] by blast
qed

text \<open>The search-parameters unit is switched on by the prefix \<open>sp.\<close>, which the calls of stream/promises share: a
  program that never touches URLSearchParams links it.\<close>

theorem stream_promises_link_search_params:
  "moduleUsesSearchParams (callModule ''sp.finished'')"
  by (simp add: call_simps moduleUsesSearchParams_def isSearchParams_def)

end
