(* ===== verification/Lib_Fence.thy ===== *)
theory Lib_Fence
  imports Ir_Gates
begin

text \<open>
  The determinism fences of library profiles (\<open>library/fence-eval.ts\<close>): the taxonomy built from the
  compiler's tables, the classification of a surface, the resolution of a profile's fences when it
  is loaded, their evaluation over the compiled module, and the teaching notes on refusals.

  The lowering tables and the surface manifest projected from them are an argument, \<open>Tables\<close>, in
  the order the source lists them. Failures are the left values, with the detail the loader reports.
\<close>

section \<open>Data\<close>

datatype surfaceKind = SyntaxKind | StdlibKind | NodeBuiltinKind | DiagnosticFence

record SurfaceManifestEntry =
  se_id :: jsstr
  se_kind :: surfaceKind
  se_name :: jsstr
  se_static :: bool
  se_code :: "jsstr option"

record LibraryFenceDecl =
  fd_path :: jsstr
  fd_id :: "jsstr option"
  fd_prefix :: jsstr
  fd_teaching :: "jsstr option"
  fd_remediation :: "jsstr option"

record SurfaceDetector =
  det_libFns :: "jsstr list"
  det_strMethods :: "jsstr list"
  det_arrMethods :: "jsstr list"
  det_mapMethods :: "jsstr list"
  det_setMethods :: "jsstr list"

record FencedSurface =
  fs_id :: jsstr
  fs_name :: jsstr
  fs_kind :: surfaceKind
  fs_code :: "jsstr option"
  fs_detector :: "SurfaceDetector option"

record ResolvedLibraryFence =
  rf_declared :: jsstr
  rf_teaching :: "jsstr option"
  rf_remediation :: "jsstr option"
  rf_surfaces :: "FencedSurface list"

text \<open>The tables of frontend/lowering/surfaces.ts, and the manifest coverage/surface-manifest.ts makes
  of them. A member whose entry is \<open>undefined\<close> has \<open>None\<close>.\<close>

record Tables =
  t_manifest :: "SurfaceManifestEntry list"
  t_builtinFns :: "(jsstr \<times> (jsstr \<times> jsstr option) list) list"
  t_fnAliases :: "(jsstr \<times> (jsstr \<times> jsstr list) list) list"
  t_consts :: "(jsstr \<times> jsstr list) list"
  t_mathConstants :: "jsstr list"
  t_ambient :: "(jsstr \<times> jsstr list) list"
  t_staticMath :: "(jsstr \<times> jsstr) list"
  t_staticNumber :: "(jsstr \<times> jsstr list) list"
  t_strMethods :: "(jsstr \<times> jsstr) list"

section \<open>The taxonomy\<close>

record FenceTaxonomy =
  tax_byId :: "(jsstr \<times> SurfaceManifestEntry) list"
  tax_ids :: "jsstr list"
  tax_builtinFns :: "(jsstr \<times> jsstr list) list"
  tax_builtinRoots :: "(jsstr \<times> jsstr list) list"
  tax_folded :: "jsstr list"
  tax_ambientFns :: "(jsstr \<times> jsstr list) list"

text \<open>\<open>String.prototype.split\<close> on one unit.\<close>

fun splitOn :: "16 word \<Rightarrow> jsstr \<Rightarrow> jsstr list" where
  "splitOn c [] = [[]]"
| "splitOn c (d # s) = (if d = c then [] # splitOn c s else (case splitOn c s of p # ps \<Rightarrow> (d # p) # ps | [] \<Rightarrow> []))"

definition builtinRootId :: "jsstr \<Rightarrow> jsstr" where
  "builtinRootId m = js ''node-builtin.'' @ join (js ''.'') (splitOn 47 m)"

definition lookup :: "(jsstr \<times> 'a) list \<Rightarrow> jsstr \<Rightarrow> 'a option" where
  "lookup m k = map_of m k"

text \<open>The spellings of one member: the table's, the win32 twin of a bare path member, the win32 form
  of \<open>url.pathToFileURL\<close>, and the aliases.\<close>

definition memberFns :: "Tables \<Rightarrow> jsstr \<Rightarrow> jsstr \<Rightarrow> jsstr \<Rightarrow> jsstr list" where
  "memberFns t m member fn =
    (let fns = [fn];
         fns = (if m = js ''path'' then
                  (case lookup (t_builtinFns t) (js ''path/win32'') of
                     None \<Rightarrow> fns
                   | Some w \<Rightarrow> (case lookup w member of Some (Some f) \<Rightarrow> setAdd f fns | _ \<Rightarrow> fns))
                else fns);
         fns = (if m = js ''url'' \<and> member = js ''pathToFileURL'' then setAdd (js ''url.pathToFileURLWin32'') fns else fns);
         aliases = (case lookup (t_fnAliases t) m of None \<Rightarrow> [] | Some a \<Rightarrow> (case lookup a member of None \<Rightarrow> [] | Some xs \<Rightarrow> xs))
     in fold setAdd aliases fns)"

text \<open>One module: each member's spellings, and their union for the module's root.\<close>

definition moduleFns :: "Tables \<Rightarrow> jsstr \<Rightarrow> (jsstr \<times> jsstr option) list \<Rightarrow> (jsstr \<times> jsstr list) list \<times> jsstr list" where
  "moduleFns t m members =
    (let present = List.map_filter (\<lambda>(member, fn). map_option (\<lambda>f. (builtinRootId m @ js ''.'' @ member, memberFns t m member f)) fn) members
     in (present, fold setAdd (concat (map snd present)) []))"

definition fenceTaxonomy :: "Tables \<Rightarrow> FenceTaxonomy" where
  "fenceTaxonomy t =
    \<lparr> tax_byId = fold (\<lambda>e m. mapSet m (se_id e) e) (t_manifest t) [],
      tax_ids = map se_id (t_manifest t),
      tax_builtinFns = fold (\<lambda>(m, ms) acc. fold (\<lambda>(k, fns) acc. mapSet acc k fns) (fst (moduleFns t m ms)) acc) (t_builtinFns t) [],
      tax_builtinRoots = fold (\<lambda>(m, ms) acc. let root = snd (moduleFns t m ms) in if root = [] then acc else mapSet acc (builtinRootId m) root) (t_builtinFns t) [],
      tax_folded = concat (map (\<lambda>(m, ms). map (\<lambda>k. builtinRootId m @ js ''.'' @ k) ms) (t_consts t)) @ map (\<lambda>n. js ''stdlib.math.'' @ n) (t_mathConstants t),
      tax_ambientFns = fold (\<lambda>(k, fns) m. mapSet m k fns) (t_ambient t) [] \<rparr>"

section \<open>Classification\<close>

definition noDetector :: SurfaceDetector where
  "noDetector = \<lparr> det_libFns = [], det_strMethods = [], det_arrMethods = [], det_mapMethods = [], det_setMethods = [] \<rparr>"

definition ARR_DETECTABLE :: "(jsstr \<times> jsstr list) list" where
  "ARR_DETECTABLE =
    [(js ''push'', [js ''push'', js ''pushSpread'']), (js ''pop'', [js ''pop'']), (js ''indexOf'', [js ''indexOf'']),
     (js ''includes'', [js ''includes'']), (js ''join'', [js ''join'']), (js ''slice'', [js ''slice''])]"

definition MAP_DETECTABLE :: "jsstr list" where
  "MAP_DETECTABLE = [js ''get'', js ''set'', js ''has'', js ''delete'', js ''clear'']"

definition SET_DETECTABLE :: "jsstr list" where
  "SET_DETECTABLE = [js ''add'', js ''has'', js ''delete'', js ''clear'']"

datatype SurfaceClass = Detected SurfaceDetector | Refusal | Unfenceable jsstr

definition emDash :: jsstr where
  "emDash = [0x2014]"

definition quoted :: "jsstr \<Rightarrow> jsstr" where
  "quoted s = [39] @ s @ [39]"

definition DESUGARED_WHY :: jsstr where
  "DESUGARED_WHY = js ''it desugars at compile time into plain loops over iteration primitives, so the compiled graph carries no distinct trace to police''"

definition FOLDED_WHY :: jsstr where
  "FOLDED_WHY = js ''reads of it fold to a per-binary constant at compile time '' @ emDash @
     js '' the artifact performs no runtime read a fence could deny''"

definition libDet :: "jsstr list \<Rightarrow> SurfaceClass" where
  "libDet fns = Detected (noDetector\<lparr> det_libFns := fns \<rparr>)"

text \<open>The standard-library families; none when the id is of no family or its table lacks the member.\<close>

definition classifyStdlib :: "Tables \<Rightarrow> jsstr \<Rightarrow> jsstr \<Rightarrow> SurfaceClass option" where
  "classifyStdlib t family member =
    (if family = js ''math'' then map_option (\<lambda>f. libDet [f]) (lookup (t_staticMath t) member)
     else if family = js ''number'' then map_option libDet (lookup (t_staticNumber t) member)
     else if family = js ''string'' then map_option (\<lambda>m. Detected (noDetector\<lparr> det_strMethods := [m] \<rparr>)) (lookup (t_strMethods t) member)
     else if family = js ''array'' then
       Some (case lookup ARR_DETECTABLE member of Some ms \<Rightarrow> Detected (noDetector\<lparr> det_arrMethods := ms \<rparr>) | None \<Rightarrow> Unfenceable DESUGARED_WHY)
     else if family = js ''map'' then
       Some (if member \<in> set MAP_DETECTABLE then Detected (noDetector\<lparr> det_mapMethods := [member] \<rparr>) else Unfenceable DESUGARED_WHY)
     else if family = js ''set'' then
       Some (if member \<in> set SET_DETECTABLE then Detected (noDetector\<lparr> det_setMethods := [member] \<rparr>) else Unfenceable DESUGARED_WHY)
     else None)"

definition classifyRest :: "jsstr \<Rightarrow> SurfaceClass" where
  "classifyRest i =
    (if startsWith i (js ''syntax.'') then
       Unfenceable (js ''it lowers to the same IR as its expanded spelling, so the compiled graph carries no distinct trace to police'')
     else if startsWith i (js ''node-builtin.'') then
       Unfenceable (js ''its lowered surface leaves no tabled per-call trace at this compiler release '' @ emDash @
         js '' fence the member entries the manifest projects instead'')
     else Unfenceable (js ''no fence detector exists for it at this compiler release''))"

definition classifySurface :: "Tables \<Rightarrow> FenceTaxonomy \<Rightarrow> SurfaceManifestEntry \<Rightarrow> SurfaceClass" where
  "classifySurface t tax e =
    (if \<not> se_static e then Refusal
     else if se_id e \<in> set (tax_folded tax) then Unfenceable FOLDED_WHY
     else case lookup (tax_ambientFns tax) (se_id e) of Some fns \<Rightarrow> libDet fns | None \<Rightarrow>
          case lookup (tax_builtinFns tax) (se_id e) of Some fns \<Rightarrow> libDet fns | None \<Rightarrow>
          case lookup (tax_builtinRoots tax) (se_id e) of Some fns \<Rightarrow> libDet fns | None \<Rightarrow>
          (case splitOn 46 (se_id e) of
             _ # family # member # _ \<Rightarrow>
               if startsWith (se_id e) (js ''stdlib.'') then
                 (case classifyStdlib t family member of Some c \<Rightarrow> c | None \<Rightarrow> classifyRest (se_id e))
               else classifyRest (se_id e)
           | _ \<Rightarrow> classifyRest (se_id e)))"

section \<open>Resolution\<close>

definition keepSurface :: "SurfaceManifestEntry \<Rightarrow> SurfaceClass \<Rightarrow> FencedSurface" where
  "keepSurface e c = \<lparr> fs_id = se_id e, fs_name = se_name e, fs_kind = se_kind e, fs_code = se_code e,
     fs_detector = (case c of Detected d \<Rightarrow> Some d | _ \<Rightarrow> None) \<rparr>"

definition unknownText :: "jsstr \<Rightarrow> jsstr" where
  "unknownText what = emDash @ js '' fences pin to the release'' @ [39] @ js ''s manifest ids (the package ships surface-manifest.json), and an unknown '' @
     what @ js '' is refused, never accepted as inert''"

text \<open>The entries a prefix covers, in manifest order: a folded constant is passed over, another
  surface that cannot be policed ends the resolution.\<close>

fun coverIds :: "Tables \<Rightarrow> FenceTaxonomy \<Rightarrow> LibraryFenceDecl \<Rightarrow> jsstr list \<Rightarrow> jsstr + FencedSurface list" where
  "coverIds t tax d [] = Inr []"
| "coverIds t tax d (i # ids) =
    (case lookup (tax_byId tax) i of
       None \<Rightarrow> coverIds t tax d ids
     | Some e \<Rightarrow>
         (case classifySurface t tax e of
            Unfenceable why \<Rightarrow>
              if i \<in> set (tax_folded tax) then coverIds t tax d ids
              else Inl (quoted (fd_path d @ js ''.prefix'') @ js '' ('' @ quoted (fd_prefix d) @ js '') covers '' @ quoted i @
                        js '', which cannot be fenced: '' @ why)
          | c \<Rightarrow> (case coverIds t tax d ids of Inl x \<Rightarrow> Inl x | Inr ss \<Rightarrow> Inr (keepSurface e c # ss))))"

definition resolveId :: "Tables \<Rightarrow> FenceTaxonomy \<Rightarrow> LibraryFenceDecl \<Rightarrow> jsstr \<Rightarrow> jsstr + FencedSurface list" where
  "resolveId t tax d i =
    (case lookup (tax_byId tax) i of
       None \<Rightarrow> Inl (quoted (fd_path d @ js ''.id'') @ js '' names no entry in this compiler release'' @ [39] @ js ''s surface manifest ('' @
                    quoted i @ js '') '' @ unknownText (js ''id''))
     | Some e \<Rightarrow>
         (case classifySurface t tax e of
            Unfenceable why \<Rightarrow> Inl (quoted (fd_path d @ js ''.id'') @ js '' names '' @ quoted i @ js '', which cannot be fenced: '' @ why)
          | c \<Rightarrow> Inr [keepSurface e c]))"

definition resolvePrefix :: "Tables \<Rightarrow> FenceTaxonomy \<Rightarrow> LibraryFenceDecl \<Rightarrow> jsstr + FencedSurface list" where
  "resolvePrefix t tax d =
    (let covered = filter (\<lambda>i. startsWith i (fd_prefix d)) (tax_ids tax)
     in if covered = [] then
          Inl (quoted (fd_path d @ js ''.prefix'') @ js '' matches no entry in this compiler release'' @ [39] @ js ''s surface manifest ('' @
               quoted (fd_prefix d) @ js '') '' @ unknownText (js ''prefix''))
        else (case coverIds t tax d covered of
                Inl x \<Rightarrow> Inl x
              | Inr [] \<Rightarrow> Inl (quoted (fd_path d @ js ''.prefix'') @ js '' ('' @ quoted (fd_prefix d) @
                   js '') covers only compile-time-folded constants '' @ emDash @ js '' there is nothing at runtime for the fence to deny'')
              | Inr ss \<Rightarrow> Inr ss))"

definition resolveDecl :: "Tables \<Rightarrow> FenceTaxonomy \<Rightarrow> LibraryFenceDecl \<Rightarrow> jsstr + ResolvedLibraryFence" where
  "resolveDecl t tax d =
    (case (case fd_id d of Some i \<Rightarrow> resolveId t tax d i | None \<Rightarrow> resolvePrefix t tax d) of
       Inl x \<Rightarrow> Inl x
     | Inr ss \<Rightarrow> Inr \<lparr> rf_declared = (case fd_id d of Some i \<Rightarrow> js ''id '' @ quoted i | None \<Rightarrow> js ''prefix '' @ quoted (fd_prefix d)),
         rf_teaching = fd_teaching d, rf_remediation = fd_remediation d, rf_surfaces = ss \<rparr>)"

fun resolveLibraryFences :: "Tables \<Rightarrow> LibraryFenceDecl list \<Rightarrow> jsstr + ResolvedLibraryFence list" where
  "resolveLibraryFences t [] = Inr []"
| "resolveLibraryFences t (d # ds) =
    (case resolveDecl t (fenceTaxonomy t) d of
       Inl x \<Rightarrow> Inl x
     | Inr f \<Rightarrow> (case resolveLibraryFences t ds of Inl x \<Rightarrow> Inl x | Inr fs \<Rightarrow> Inr (f # fs)))"

section \<open>Evaluation over the compiled module\<close>

record ReachedSurfaces =
  rs_libFns :: "(jsstr \<times> jsval) list"
  rs_strMethods :: "(jsstr \<times> jsval) list"
  rs_arrMethods :: "(jsstr \<times> jsval) list"
  rs_mapMethods :: "(jsstr \<times> jsval) list"
  rs_setMethods :: "(jsstr \<times> jsval) list"

definition noteFact :: "(jsstr \<times> jsval) list \<Rightarrow> jsstr \<Rightarrow> jsval \<Rightarrow> (jsstr \<times> jsval) list" where
  "noteFact m k loc = (if map_of m k = None then mapSet m k loc else m)"

definition noteNode :: "(jsstr \<times> jsval) list \<Rightarrow> jsval \<Rightarrow> ReachedSurfaces \<Rightarrow> ReachedSurfaces" where
  "noteNode fs here r =
    (case strField fs (js ''kind'') of
       None \<Rightarrow> r
     | Some kind \<Rightarrow>
         if kind = js ''libCall'' \<and> strField fs (js ''fn'') \<noteq> None
         then r\<lparr> rs_libFns := noteFact (rs_libFns r) (the (strField fs (js ''fn''))) here \<rparr>
         else (case strField fs (js ''method'') of
                 None \<Rightarrow> r
               | Some m \<Rightarrow>
                   if kind = js ''strIntrinsic'' then r\<lparr> rs_strMethods := noteFact (rs_strMethods r) m here \<rparr>
                   else if kind = js ''arrIntrinsic'' then r\<lparr> rs_arrMethods := noteFact (rs_arrMethods r) m here \<rparr>
                   else if kind = js ''mapIntrinsic'' then r\<lparr> rs_mapMethods := noteFact (rs_mapMethods r) m here \<rparr>
                   else if kind = js ''setIntrinsic'' then r\<lparr> rs_setMethods := noteFact (rs_setMethods r) m here \<rparr>
                   else r))"

fun visit :: "jsval \<Rightarrow> jsval \<Rightarrow> ReachedSurfaces \<Rightarrow> ReachedSurfaces"
and visitItems :: "jsval list \<Rightarrow> jsval \<Rightarrow> ReachedSurfaces \<Rightarrow> ReachedSurfaces"
and visitFields :: "(jsstr \<times> jsval) list \<Rightarrow> jsval \<Rightarrow> ReachedSurfaces \<Rightarrow> ReachedSurfaces" where
  "visit (VArr vs) loc r = visitItems vs loc r"
| "visit (VObj fs) loc r = visitFields fs (hereOf fs loc) (noteNode fs (hereOf fs loc) r)"
| "visit _ loc r = r"
| "visitItems [] loc r = r"
| "visitItems (v # vs) loc r = visitItems vs loc (visit v loc r)"
| "visitFields [] loc r = r"
| "visitFields ((k, v) # fs) loc r = visitFields fs loc (visit v loc r)"

text \<open>The module is the object with the fields \<open>m\<close>.\<close>

definition collectReachedSurfaces :: "(jsstr \<times> jsval) list \<Rightarrow> ReachedSurfaces" where
  "collectReachedSurfaces m = visit (VObj m) (entryLoc m)
     \<lparr> rs_libFns = [], rs_strMethods = [], rs_arrMethods = [], rs_mapMethods = [], rs_setMethods = [] \<rparr>"

fun scanFacts :: "(jsstr \<times> jsval) list \<Rightarrow> jsstr list \<Rightarrow> jsval option" where
  "scanFacts facts [] = None"
| "scanFacts facts (k # ks) = (case map_of facts k of Some loc \<Rightarrow> Some loc | None \<Rightarrow> scanFacts facts ks)"

definition detectorHit :: "ReachedSurfaces \<Rightarrow> SurfaceDetector \<Rightarrow> jsval option" where
  "detectorHit r d =
    orElse (scanFacts (rs_libFns r) (det_libFns d))
      (orElse (scanFacts (rs_strMethods r) (det_strMethods d))
        (orElse (scanFacts (rs_arrMethods r) (det_arrMethods d))
          (orElse (scanFacts (rs_mapMethods r) (det_mapMethods d))
            (scanFacts (rs_setMethods r) (det_setMethods d)))))"

record ScrDiagnostic =
  dg_code :: jsstr
  dg_message :: jsstr
  dg_loc :: jsval
  dg_milestone :: "jsstr option"
  dg_hint :: "jsstr option"
  dg_note :: "jsstr option"

record FenceProfileView =
  pv_name :: jsstr
  pv_teachings :: "(jsstr \<times> jsstr) list"
  pv_fences :: "ResolvedLibraryFence list"

definition profileNote :: "jsstr \<Rightarrow> jsstr \<Rightarrow> jsstr" where
  "profileNote n teaching = js ''from the '' @ quoted n @ js '' profile: '' @ teaching"

definition libFenceDiag :: "jsstr \<Rightarrow> jsstr \<Rightarrow> jsstr \<Rightarrow> jsval \<Rightarrow> jsstr option \<Rightarrow> jsstr option \<Rightarrow> ScrDiagnostic" where
  "libFenceDiag profileName surfaceId surfaceName loc surfaceCode teaching =
    \<lparr> dg_code = js ''SC4008'',
      dg_message = js ''the '' @ quoted profileName @ js '' profile fences '' @ quoted surfaceId @ js '' ('' @ surfaceName @
        (case surfaceCode of None \<Rightarrow> [] | Some c \<Rightarrow> js '', '' @ c) @ js ''), and this library graph reaches it'',
      dg_loc = loc,
      dg_milestone = None,
      dg_hint = Some (js ''the profile denies this surface at compile time (a determinism fence over the surface manifest'' @ [39] @
        js ''s ids) '' @ emDash @ js '' remove the use from everything the entry module reaches, or lift the fence''),
      dg_note = map_option (profileNote profileName) teaching \<rparr>"

text \<open>The two nested loops, over the pairs of a fence and one of its surfaces.\<close>

fun fenceLoop :: "jsstr \<Rightarrow> ReachedSurfaces \<Rightarrow> jsstr list \<Rightarrow> (ResolvedLibraryFence \<times> FencedSurface) list \<Rightarrow> ScrDiagnostic list" where
  "fenceLoop n r seen [] = []"
| "fenceLoop n r seen ((f, s) # rest) =
    (case fs_detector s of
       None \<Rightarrow> fenceLoop n r seen rest
     | Some det \<Rightarrow>
         if fs_id s \<in> set seen then fenceLoop n r seen rest
         else (case detectorHit r det of
                 None \<Rightarrow> fenceLoop n r seen rest
               | Some loc \<Rightarrow> libFenceDiag n (fs_id s) (fs_name s) loc (fs_code s) (rf_teaching f) # fenceLoop n r (setAdd (fs_id s) seen) rest))"

definition fencePairs :: "ResolvedLibraryFence list \<Rightarrow> (ResolvedLibraryFence \<times> FencedSurface) list" where
  "fencePairs fs = concat (map (\<lambda>f. map (Pair f) (rf_surfaces f)) fs)"

definition evaluateLibraryFences :: "(jsstr \<times> jsval) list \<Rightarrow> FenceProfileView \<Rightarrow> ScrDiagnostic list" where
  "evaluateLibraryFences m p =
    (if \<not> list_ex (\<lambda>f. list_ex (\<lambda>s. fs_detector s \<noteq> None) (rf_surfaces f)) (pv_fences p) then []
     else fenceLoop (pv_name p) (collectReachedSurfaces m) [] (fencePairs (pv_fences p)))"

section \<open>Teaching notes\<close>

fun includesStr :: "jsstr \<Rightarrow> jsstr \<Rightarrow> bool" where
  "includesStr [] sub = (sub = [])"
| "includesStr (c # s) sub = (startsWith (c # s) sub \<or> includesStr s sub)"

definition surfaceMatchesDiag :: "jsstr option \<Rightarrow> jsstr \<Rightarrow> surfaceKind \<Rightarrow> ScrDiagnostic \<Rightarrow> bool" where
  "surfaceMatchesDiag code n kind diag =
    (code = Some (dg_code diag) \<and> (kind = DiagnosticFence \<or> includesStr (dg_message diag) n))"

definition directTeaching :: "FenceProfileView \<Rightarrow> jsstr \<Rightarrow> jsstr option" where
  "directTeaching p code =
    orElse (map_of (pv_teachings p) code)
      (if code = js ''SC4004'' \<or> code = js ''SC4005'' then map_of (pv_teachings p) (js ''async'') else None)"

fun idTeaching :: "Tables \<Rightarrow> (jsstr \<times> jsstr) list \<Rightarrow> ScrDiagnostic \<Rightarrow> jsstr option" where
  "idTeaching t [] diag = None"
| "idTeaching t ((key, txt) # rest) diag =
    (if 46 \<notin> set key then idTeaching t rest diag
     else case lookup (tax_byId (fenceTaxonomy t)) key of
            Some e \<Rightarrow> if surfaceMatchesDiag (se_code e) (se_name e) (se_kind e) diag then Some txt else idTeaching t rest diag
          | None \<Rightarrow> idTeaching t rest diag)"

fun fenceTeaching :: "ResolvedLibraryFence list \<Rightarrow> ScrDiagnostic \<Rightarrow> jsstr option" where
  "fenceTeaching [] diag = None"
| "fenceTeaching (f # fs) diag =
    (if rf_teaching f \<noteq> None \<and> list_ex (\<lambda>s. surfaceMatchesDiag (fs_code s) (fs_name s) (fs_kind s) diag) (rf_surfaces f)
     then rf_teaching f else fenceTeaching fs diag)"

definition teachingForRefusal :: "Tables \<Rightarrow> FenceProfileView \<Rightarrow> ScrDiagnostic \<Rightarrow> jsstr option" where
  "teachingForRefusal t p diag =
    orElse (directTeaching p (dg_code diag)) (orElse (idTeaching t (pv_teachings p) diag) (fenceTeaching (pv_fences p) diag))"

definition decorateOne :: "Tables \<Rightarrow> FenceProfileView \<Rightarrow> ScrDiagnostic \<Rightarrow> ScrDiagnostic" where
  "decorateOne t p d =
    (if dg_note d \<noteq> None then d
     else case teachingForRefusal t p d of None \<Rightarrow> d | Some teaching \<Rightarrow> d\<lparr> dg_note := Some (profileNote (pv_name p) teaching) \<rparr>)"

definition decorateLibraryRefusals :: "Tables \<Rightarrow> ScrDiagnostic list \<Rightarrow> FenceProfileView \<Rightarrow> ScrDiagnostic list" where
  "decorateLibraryRefusals t ds p =
    (if pv_teachings p = [] \<and> pv_fences p = [] then ds else map (decorateOne t p) ds)"

section \<open>What a fence polices\<close>

text \<open>The fact an object states.\<close>

datatype factKind = LibFact | StrFact | ArrFact | MapFact | SetFact

definition INTRINSICS :: "(jsstr \<times> factKind) list" where
  "INTRINSICS = [(js ''strIntrinsic'', StrFact), (js ''arrIntrinsic'', ArrFact), (js ''mapIntrinsic'', MapFact), (js ''setIntrinsic'', SetFact)]"

definition nodeFact :: "node \<Rightarrow> (factKind \<times> jsstr) option" where
  "nodeFact fs =
    (case strField fs (js ''kind'') of
       None \<Rightarrow> None
     | Some kind \<Rightarrow>
         if kind = js ''libCall'' then map_option (Pair LibFact) (strField fs (js ''fn''))
         else (case map_of INTRINSICS kind of None \<Rightarrow> None | Some k \<Rightarrow> map_option (Pair k) (strField fs (js ''method''))))"

fun factsOf :: "factKind \<Rightarrow> ReachedSurfaces \<Rightarrow> (jsstr \<times> jsval) list" where
  "factsOf LibFact r = rs_libFns r"
| "factsOf StrFact r = rs_strMethods r"
| "factsOf ArrFact r = rs_arrMethods r"
| "factsOf MapFact r = rs_mapMethods r"
| "factsOf SetFact r = rs_setMethods r"

fun detKeys :: "factKind \<Rightarrow> SurfaceDetector \<Rightarrow> jsstr list" where
  "detKeys LibFact d = det_libFns d"
| "detKeys StrFact d = det_strMethods d"
| "detKeys ArrFact d = det_arrMethods d"
| "detKeys MapFact d = det_mapMethods d"
| "detKeys SetFact d = det_setMethods d"

definition firstNode :: "(jsstr \<times> jsval) list \<Rightarrow> factKind \<times> jsstr \<Rightarrow> jsval option" where
  "firstNode m f = map_option snd (List.find (\<lambda>(fs, l). nodeFact fs = Some f) (nodes (VObj m) (entryLoc m)))"

definition speaks :: "SurfaceDetector \<Rightarrow> factKind \<times> jsstr \<Rightarrow> bool" where
  "speaks d f \<longleftrightarrow> snd f \<in> set (detKeys (fst f) d)"

lemma factsOf_noteNode:
  "factsOf k (noteNode fs l r) = (case nodeFact fs of Some (k', s) \<Rightarrow> if k' = k then noteFact (factsOf k r) s l else factsOf k r | None \<Rightarrow> factsOf k r)"
  by (cases k) (auto simp: noteNode_def nodeFact_def INTRINSICS_def js_def split: option.splits)

lemma map_of_noteFact: "map_of (noteFact m k l) k' = (if k' = k \<and> map_of m k = None then Some l else map_of m k')"
  by (simp add: noteFact_def map_of_mapSet)

lemma visit_nodes:
  "visit v loc r = fold (\<lambda>(fs, l). noteNode fs l) (nodes v loc) r"
  "visitItems vs loc r = fold (\<lambda>(fs, l). noteNode fs l) (concat (map (\<lambda>v. nodes v loc) vs)) r"
  "visitFields fs loc r = fold (\<lambda>(fs, l). noteNode fs l) (concat (map (\<lambda>kv. nodes (snd kv) loc) fs)) r"
  by (induction v loc r and vs loc r and fs loc r rule: visit_visitItems_visitFields.induct) auto

lemma noted_first:
  "map_of (factsOf k (noteNode fs l r)) s = orElse (map_of (factsOf k r) s) (if nodeFact fs = Some (k, s) then Some l else None)"
  by (auto simp: orElse_def factsOf_noteNode map_of_noteFact split: option.splits)

lemma fold_noteNode:
  "map_of (factsOf k (fold (\<lambda>(fs, l). noteNode fs l) ns r)) s =
     orElse (map_of (factsOf k r) s) (map_option snd (List.find (\<lambda>(fs, l). nodeFact fs = Some (k, s)) ns))"
proof (induction ns arbitrary: r)
  case Nil
  then show ?case by (simp add: orElse_def split: option.splits)
next
  case (Cons n ns)
  then show ?case by (cases n) (simp add: noted_first, simp add: orElse_def split: option.splits)
qed

lemma collected_facts: "map_of (factsOf k (collectReachedSurfaces m)) s = firstNode m (k, s)"
proof -
  have none: "map_of (factsOf k \<lparr> rs_libFns = [], rs_strMethods = [], rs_arrMethods = [], rs_mapMethods = [], rs_setMethods = [] \<rparr>) s = None"
    by (cases k) auto
  show ?thesis
    by (simp only: collectReachedSurfaces_def visit_nodes fold_noteNode none firstNode_def) (simp add: orElse_def)
qed

lemma scanFacts_None: "scanFacts m ks = None \<longleftrightarrow> (\<forall>k \<in> set ks. map_of m k = None)"
  by (induction ks) (auto split: option.splits)

lemma scanFacts_Some: "scanFacts m ks = Some l \<Longrightarrow> \<exists>k \<in> set ks. map_of m k = Some l"
  by (induction ks) (auto split: option.splits)

lemma all_factKind: "(\<forall>k. P k) \<longleftrightarrow> P LibFact \<and> P StrFact \<and> P ArrFact \<and> P MapFact \<and> P SetFact"
  using factKind.exhaust by metis

lemma detectorHit_None: "detectorHit r d = None \<longleftrightarrow> (\<forall>k. scanFacts (factsOf k r) (detKeys k d) = None)"
  by (simp add: detectorHit_def all_factKind)

lemma detectorHit_Some:
  assumes "detectorHit r d = Some l"
  shows "\<exists>k. scanFacts (factsOf k r) (detKeys k d) = Some l"
  using assms unfolding detectorHit_def
  by (auto dest!: orElse_SomeD intro: exI [of _ LibFact] exI [of _ StrFact] exI [of _ ArrFact] exI [of _ MapFact] exI [of _ SetFact])

text \<open>A detector's hit on the collected facts, by the nodes of the module.\<close>

lemma hit_None: "detectorHit (collectReachedSurfaces m) d = None \<longleftrightarrow> (\<forall>f. speaks d f \<longrightarrow> firstNode m f = None)"
  by (auto simp: detectorHit_None scanFacts_None collected_facts speaks_def)

lemma hit_Some:
  assumes "detectorHit (collectReachedSurfaces m) d = Some l"
  shows "\<exists>f. speaks d f \<and> firstNode m f = Some l"
  using detectorHit_Some [OF assms] by (fastforce dest!: scanFacts_Some simp: collected_facts speaks_def)

lemma firstNode_None: "firstNode m f = None \<longleftrightarrow> (\<forall>(fs, l) \<in> set (nodes (VObj m) (entryLoc m)). nodeFact fs \<noteq> Some f)"
  by (auto simp: firstNode_def find_None_iff)

text \<open>The loop's reports: one per identifier, for the first pair that hits.\<close>

definition report :: "jsstr \<Rightarrow> ResolvedLibraryFence \<times> FencedSurface \<times> jsval \<Rightarrow> ScrDiagnostic" where
  "report n = (\<lambda>(f, s, l). libFenceDiag n (fs_id s) (fs_name s) l (fs_code s) (rf_teaching f))"

definition hitOf :: "(jsstr \<times> jsval) list \<Rightarrow> FencedSurface \<Rightarrow> jsval \<Rightarrow> bool" where
  "hitOf m s l \<longleftrightarrow> (\<exists>det f. fs_detector s = Some det \<and> speaks det f \<and> firstNode m f = Some l)"

lemma fenceLoop_reports:
  "\<exists>hits. fenceLoop n (collectReachedSurfaces m) seen ps = map (report n) hits
     \<and> distinct (map (\<lambda>(f, s, l). fs_id s) hits)
     \<and> (\<forall>(f, s, l) \<in> set hits. (f, s) \<in> set ps \<and> fs_id s \<notin> set seen \<and> hitOf m s l)
     \<and> (\<forall>(f, s) \<in> set ps. (\<exists>l. hitOf m s l) \<longrightarrow> fs_id s \<in> set seen \<union> (\<lambda>(f, s, l). fs_id s) ` set hits)"
proof (induction ps arbitrary: seen)
  case Nil
  then show ?case by (intro exI [of _ "[]"]) simp
next
  case (Cons p ps)
  obtain f s where p: "p = (f, s)" by (cases p)
  consider (skip) "fs_detector s = None \<or> fs_id s \<in> set seen \<or> (\<exists>det. fs_detector s = Some det \<and> detectorHit (collectReachedSurfaces m) det = None)"
    | (hit) det l where "fs_detector s = Some det" "fs_id s \<notin> set seen" "detectorHit (collectReachedSurfaces m) det = Some l"
    by (cases "fs_detector s"; auto)
  then show ?case
  proof cases
    case skip
    then have same: "fenceLoop n (collectReachedSurfaces m) seen (p # ps) = fenceLoop n (collectReachedSurfaces m) seen ps"
      by (auto simp: p split: option.splits)
    from skip have none: "(\<exists>l. hitOf m s l) \<Longrightarrow> fs_id s \<in> set seen"
      by (auto simp: hitOf_def hit_None)
    obtain hits where "fenceLoop n (collectReachedSurfaces m) seen ps = map (report n) hits" "distinct (map (\<lambda>(f, s, l). fs_id s) hits)"
      "\<forall>(f, s, l) \<in> set hits. (f, s) \<in> set ps \<and> fs_id s \<notin> set seen \<and> hitOf m s l"
      "\<forall>(f, s) \<in> set ps. (\<exists>l. hitOf m s l) \<longrightarrow> fs_id s \<in> set seen \<union> (\<lambda>(f, s, l). fs_id s) ` set hits"
      using Cons.IH by blast
    then show ?thesis unfolding same using none by (intro exI [of _ hits]) (auto simp: p simp del: fenceLoop.simps)
  next
    case hit
    then have here: "hitOf m s l" using hit_Some hitOf_def by blast
    obtain hits where hits: "fenceLoop n (collectReachedSurfaces m) (setAdd (fs_id s) seen) ps = map (report n) hits" "distinct (map (\<lambda>(f, s, l). fs_id s) hits)"
      "\<forall>(g, u, k) \<in> set hits. (g, u) \<in> set ps \<and> fs_id u \<notin> set (setAdd (fs_id s) seen) \<and> hitOf m u k"
      "\<forall>(g, u) \<in> set ps. (\<exists>k. hitOf m u k) \<longrightarrow> fs_id u \<in> set (setAdd (fs_id s) seen) \<union> (\<lambda>(f, s, l). fs_id s) ` set hits"
      using Cons.IH [of "setAdd (fs_id s) seen"] by blast
    show ?thesis
      using hit here hits by (intro exI [of _ "(f, s, l) # hits"]) (auto simp: p report_def)
  qed
qed

lemma evaluate_loop:
  "evaluateLibraryFences m p = fenceLoop (pv_name p) (collectReachedSurfaces m) [] (fencePairs (pv_fences p))"
proof (cases "list_ex (\<lambda>f. list_ex (\<lambda>s. fs_detector s \<noteq> None) (rf_surfaces f)) (pv_fences p)")
  case False
  have quiet: "fenceLoop n r seen ps = []" if "\<forall>(f, s) \<in> set ps. fs_detector s = None" for n r seen ps
    using that by (induction ps arbitrary: seen) auto
  have "\<forall>(f, s) \<in> set (fencePairs (pv_fences p)). fs_detector s = None"
    using False by (auto simp: fencePairs_def list_ex_iff)
  then show ?thesis using False by (simp add: evaluateLibraryFences_def quiet)
qed (simp add: evaluateLibraryFences_def)

lemma mem_fencePairs: "(f, s) \<in> set (fencePairs fs) \<longleftrightarrow> f \<in> set fs \<and> s \<in> set (rf_surfaces f)"
  by (auto simp: fencePairs_def)

lemma evaluate_reports:
  "\<exists>hits. evaluateLibraryFences m p = map (report (pv_name p)) hits
     \<and> distinct (map (\<lambda>(f, s, l). fs_id s) hits)
     \<and> (\<forall>(f, s, l) \<in> set hits. f \<in> set (pv_fences p) \<and> s \<in> set (rf_surfaces f) \<and> hitOf m s l)
     \<and> (\<forall>f \<in> set (pv_fences p). \<forall>s \<in> set (rf_surfaces f). (\<exists>l. hitOf m s l) \<longrightarrow> fs_id s \<in> (\<lambda>(f, s, l). fs_id s) ` set hits)"
proof -
  obtain hits where hits: "fenceLoop (pv_name p) (collectReachedSurfaces m) [] (fencePairs (pv_fences p)) = map (report (pv_name p)) hits"
    "distinct (map (\<lambda>(f, s, l). fs_id s) hits)"
    "\<forall>(f, s, l) \<in> set hits. (f, s) \<in> set (fencePairs (pv_fences p)) \<and> fs_id s \<notin> set [] \<and> hitOf m s l"
    "\<forall>(f, s) \<in> set (fencePairs (pv_fences p)). (\<exists>l. hitOf m s l) \<longrightarrow> fs_id s \<in> set [] \<union> (\<lambda>(f, s, l). fs_id s) ` set hits"
    using fenceLoop_reports [of "pv_name p" m "[]" "fencePairs (pv_fences p)"] by blast
  have all: "fs_id s \<in> (\<lambda>(f, s, l). fs_id s) ` set hits" if "f \<in> set (pv_fences p)" "s \<in> set (rf_surfaces f)" "hitOf m s l" for f s l
    using bspec [OF hits(4), of "(f, s)"] that by (auto simp: mem_fencePairs)
  have each: "f \<in> set (pv_fences p) \<and> s \<in> set (rf_surfaces f) \<and> hitOf m s l" if "(f, s, l) \<in> set hits" for f s l
    using bspec [OF hits(3) that] by (simp add: mem_fencePairs)
  show ?thesis
    unfolding evaluate_loop hits(1) using hits(2) each all by (intro exI [of _ hits]) blast
qed

section \<open>What loading guarantees\<close>

definition selects :: "LibraryFenceDecl \<Rightarrow> jsstr \<Rightarrow> bool" where
  "selects d i = (case fd_id d of Some j \<Rightarrow> i = j | None \<Rightarrow> startsWith i (fd_prefix d))"

lemma byId_fold:
  "map_of (fold (\<lambda>e m. mapSet m (se_id e) e) es m) k = Some e \<Longrightarrow> map_of m k = Some e \<or> e \<in> set es \<and> se_id e = k"
  by (induction es arbitrary: m) (fastforce simp: map_of_mapSet split: if_splits)+

lemma byId_total:
  "map_of m k \<noteq> None \<or> k \<in> se_id ` set es \<Longrightarrow> map_of (fold (\<lambda>e m. mapSet m (se_id e) e) es m) k \<noteq> None"
proof (induction es arbitrary: m)
  case (Cons e es)
  have "map_of (mapSet m (se_id e) e) k \<noteq> None \<or> k \<in> se_id ` set es" using Cons.prems by (auto simp: map_of_mapSet)
  then show ?case using Cons.IH by simp
qed simp

lemma byId_SomeD: "lookup (tax_byId (fenceTaxonomy t)) k = Some e \<Longrightarrow> e \<in> set (t_manifest t) \<and> se_id e = k"
  by (auto simp: lookup_def fenceTaxonomy_def dest: byId_fold)

lemma byId_entry:
  assumes "distinct (map se_id (t_manifest t))" and "e \<in> set (t_manifest t)"
  shows "lookup (tax_byId (fenceTaxonomy t)) (se_id e) = Some e"
proof -
  obtain e' where e': "lookup (tax_byId (fenceTaxonomy t)) (se_id e) = Some e'"
    using byId_total [of "[]" "se_id e" "t_manifest t"] assms(2) by (auto simp: lookup_def fenceTaxonomy_def)
  then show ?thesis using byId_SomeD [OF e'] assms by (auto simp: distinct_map dest: inj_onD)
qed

text \<open>A surface as resolution keeps it.\<close>

definition kept :: "Tables \<Rightarrow> FencedSurface \<Rightarrow> bool" where
  "kept t s \<longleftrightarrow> (\<exists>e c. e \<in> set (t_manifest t) \<and> c = classifySurface t (fenceTaxonomy t) e \<and> (\<forall>why. c \<noteq> Unfenceable why) \<and> s = keepSurface e c)"

lemma coverIds_kept: "coverIds t (fenceTaxonomy t) d ids = Inr ss \<Longrightarrow> s \<in> set ss \<Longrightarrow> kept t s"
  by (induction ids arbitrary: ss) (fastforce simp: kept_def dest: byId_SomeD split: option.splits SurfaceClass.splits sum.splits if_splits)+

lemma coverIds_complete:
  "coverIds t tax d ids = Inr ss \<Longrightarrow> i \<in> set ids \<Longrightarrow> lookup (tax_byId tax) i = Some e \<Longrightarrow> i \<notin> set (tax_folded tax)
     \<Longrightarrow> keepSurface e (classifySurface t tax e) \<in> set ss \<and> (\<forall>why. classifySurface t tax e \<noteq> Unfenceable why)"
  by (induction ids arbitrary: ss) (fastforce split: option.splits SurfaceClass.splits sum.splits if_splits)+

lemma resolveDecl_kept: "resolveDecl t (fenceTaxonomy t) d = Inr f \<Longrightarrow> s \<in> set (rf_surfaces f) \<Longrightarrow> kept t s"
  unfolding resolveDecl_def resolveId_def resolvePrefix_def Let_def
  by (fastforce simp: kept_def dest: byId_SomeD dest!: coverIds_kept split: option.splits SurfaceClass.splits sum.splits list.splits if_splits)

lemma resolveDecl_nonempty: "resolveDecl t tax d = Inr f \<Longrightarrow> rf_surfaces f \<noteq> []"
  unfolding resolveDecl_def resolveId_def resolvePrefix_def Let_def
  by (auto split: option.splits SurfaceClass.splits sum.splits list.splits if_splits)

lemma resolveDecl_covers:
  assumes "resolveDecl t (fenceTaxonomy t) d = Inr f" and "distinct (map se_id (t_manifest t))" and "e \<in> set (t_manifest t)"
    and "selects d (se_id e)" and "se_id e \<notin> set (tax_folded (fenceTaxonomy t))"
  shows "keepSurface e (classifySurface t (fenceTaxonomy t) e) \<in> set (rf_surfaces f) \<and> (\<forall>why. classifySurface t (fenceTaxonomy t) e \<noteq> Unfenceable why)"
proof (cases "fd_id d")
  case None
  have ids: "se_id e \<in> set (filter (\<lambda>i. startsWith i (fd_prefix d)) (tax_ids (fenceTaxonomy t)))"
    using assms(3,4) None by (simp add: fenceTaxonomy_def selects_def)
  obtain ss where "coverIds t (fenceTaxonomy t) d (filter (\<lambda>i. startsWith i (fd_prefix d)) (tax_ids (fenceTaxonomy t))) = Inr ss" "rf_surfaces f = ss"
    using assms(1) None by (auto simp: resolveDecl_def resolvePrefix_def Let_def split: sum.splits list.splits if_splits)
  then show ?thesis using coverIds_complete ids byId_entry assms(2,3,5) by metis
next
  case (Some i)
  then have "i = se_id e" using assms(4) by (simp add: selects_def)
  then show ?thesis
    using assms(1) Some byId_entry [OF assms(2,3)] by (auto simp: resolveDecl_def resolveId_def split: SurfaceClass.splits)
qed

lemma resolve_all:
  "resolveLibraryFences t ds = Inr fences \<Longrightarrow> list_all2 (\<lambda>d f. resolveDecl t (fenceTaxonomy t) d = Inr f) ds fences"
  by (induction ds arbitrary: fences) (auto split: sum.splits)

lemma list_all2_left: "list_all2 P xs ys \<Longrightarrow> x \<in> set xs \<Longrightarrow> \<exists>y \<in> set ys. P x y"
  by (induction rule: list_all2_induct) auto

lemma list_all2_right: "list_all2 P xs ys \<Longrightarrow> y \<in> set ys \<Longrightarrow> \<exists>x \<in> set xs. P x y"
  by (induction rule: list_all2_induct) auto

text \<open>The identifier fixes the surface, as far as a report shows it.\<close>

lemma kept_entry:
  assumes "kept t s" and "distinct (map se_id (t_manifest t))" and "e \<in> set (t_manifest t)" and "fs_id s = se_id e"
  shows "s = keepSurface e (classifySurface t (fenceTaxonomy t) e)"
proof -
  obtain e' where e': "e' \<in> set (t_manifest t)" "s = keepSurface e' (classifySurface t (fenceTaxonomy t) e')"
    using assms(1) by (auto simp: kept_def)
  then have "e' = e" using assms by (auto simp: keepSurface_def distinct_map dest: inj_onD)
  then show ?thesis using e' by simp
qed

lemma reached_hit:
  assumes "fs_detector s = Some det" and "speaks det w" and "(fs, l) \<in> set (nodes (VObj m) (entryLoc m))" and "nodeFact fs = Some w"
  shows "\<exists>l. hitOf m s l"
proof -
  obtain k where "firstNode m w = Some k" using assms(3,4) by (cases "firstNode m w") (auto simp: firstNode_None)
  then show ?thesis using assms(1,2) hitOf_def by blast
qed

lemma static_detected: "se_static e \<Longrightarrow> \<forall>why. classifySurface t tax e \<noteq> Unfenceable why \<Longrightarrow> \<exists>det. classifySurface t tax e = Detected det"
  by (cases "classifySurface t tax e")
     (auto simp: classifySurface_def classifyStdlib_def classifyRest_def libDet_def split: option.splits list.splits if_splits)

text \<open>A release with two surfaces of \<open>Math\<close>, one of them folded, a profile that fences the family, and a
  module that calls the other one.\<close>

definition demoEntry :: "string \<Rightarrow> SurfaceManifestEntry" where
  "demoEntry m = \<lparr> se_id = js ''stdlib.math.'' @ js m, se_kind = StdlibKind, se_name = js ''Math.'' @ js m, se_static = True, se_code = None \<rparr>"

definition demoTables :: Tables where
  "demoTables = \<lparr> t_manifest = [demoEntry ''PI'', demoEntry ''random''], t_builtinFns = [], t_fnAliases = [], t_consts = [],
     t_mathConstants = [js ''PI''], t_ambient = [], t_staticMath = [(js ''random'', js ''math.random'')], t_staticNumber = [], t_strMethods = [] \<rparr>"

definition demoDecl :: LibraryFenceDecl where
  "demoDecl = \<lparr> fd_path = js ''determinism.fences[0]'', fd_id = None, fd_prefix = js ''stdlib.math.'', fd_teaching = None, fd_remediation = None \<rparr>"

definition demoDetector :: SurfaceDetector where
  "demoDetector = noDetector\<lparr> det_libFns := [js ''math.random''] \<rparr>"

definition demoFence :: ResolvedLibraryFence where
  "demoFence = \<lparr> rf_declared = js ''prefix '' @ quoted (js ''stdlib.math.''), rf_teaching = None, rf_remediation = None,
     rf_surfaces = [keepSurface (demoEntry ''random'') (Detected demoDetector)] \<rparr>"

definition demoCall :: "(jsstr \<times> jsval) list" where
  "demoCall = [(js ''kind'', VStr (js ''libCall'')), (js ''fn'', VStr (js ''math.random'')), (js ''args'', VArr [])]"

definition demoModule :: "(jsstr \<times> jsval) list" where
  "demoModule = [(js ''sourceFile'', VStr (js ''a.ts'')), (js ''functions'', VArr [VObj demoCall])]"

lemma demo_resolves: "resolveLibraryFences demoTables [demoDecl] = Inr [demoFence]"
  by code_simp

lemma demo_reaches: "(demoCall, entryLoc demoModule) \<in> set (nodes (VObj demoModule) (entryLoc demoModule))"
  by code_simp

lemma demo_fact: "nodeFact demoCall = Some (LibFact, js ''math.random'')" "speaks demoDetector (LibFact, js ''math.random'')"
  by code_simp+

lemma demo_random:
  "demoEntry ''random'' \<in> set (t_manifest demoTables)" "distinct (map se_id (t_manifest demoTables))" "selects demoDecl (se_id (demoEntry ''random''))"
  "se_static (demoEntry ''random'')" "se_id (demoEntry ''random'') \<notin> set (tax_folded (fenceTaxonomy demoTables))"
  "classifySurface demoTables (fenceTaxonomy demoTables) (demoEntry ''random'') = Detected demoDetector"
  by code_simp+

lemma ndAt_None: "ndAt n = None \<longleftrightarrow> \<not> libCallWith (startsIn (map fst LIB_NONDETERMINISTIC_PREFIXES)) n"
  by (auto simp: ndAt_def libCallWith_def prefixSurface_None split: option.splits)

lemma deterministic_iff:
  "moduleLibNondeterministicSurface m = None \<longleftrightarrow> (\<forall>n \<in> set (nodesIn (VObj m)). \<not> libCallWith (startsIn (map fst LIB_NONDETERMINISTIC_PREFIXES)) n)"
  unfolding moduleLibNondeterministicSurface_def seek_nodes(1) by (simp only: orElse_simps firstHit_None ndAt_None)

lemma nodeFact_libCall: "kindIs n (js ''libCall'') \<Longrightarrow> fieldIs n (js ''fn'') f \<Longrightarrow> nodeFact n = Some (LibFact, f)"
  by (simp add: nodeFact_def fieldIs_def)

text \<open>Decoration only adds notes, and does so once.\<close>

lemma decorate_keeps: "map (\<lambda>d. d\<lparr> dg_note := None \<rparr>) (decorateLibraryRefusals t ds p) = map (\<lambda>d. d\<lparr> dg_note := None \<rparr>) ds"
  by (auto simp: decorateLibraryRefusals_def decorateOne_def split: option.splits)

lemma decorate_idem: "decorateLibraryRefusals t (decorateLibraryRefusals t ds p) p = decorateLibraryRefusals t ds p"
  by (auto simp: decorateLibraryRefusals_def decorateOne_def split: option.splits)

section \<open>Properties\<close>

text \<open>C11. Evaluating a profile's fences over a compiled module reports a list of hits, in order, each
  identifier once: every hit is a surface of one of the profile's fences, located at the first object of the
  module that states some fact of the surface's detector (one of them, not necessarily the earliest over
  all), and every fenced surface with such an object
  somewhere in the module is among the reported identifiers.\<close>

theorem fences_report_exactly:
  "\<exists>hits. evaluateLibraryFences m p = map (\<lambda>(f, s, l). libFenceDiag (pv_name p) (fs_id s) (fs_name s) l (fs_code s) (rf_teaching f)) hits
     \<and> distinct (map (\<lambda>(f, s, l). fs_id s) hits)
     \<and> (\<forall>(f, s, l) \<in> set hits. f \<in> set (pv_fences p) \<and> s \<in> set (rf_surfaces f)
          \<and> (\<exists>det w. fs_detector s = Some det \<and> speaks det w \<and> firstNode m w = Some l))
     \<and> (\<forall>f s det fs l w. f \<in> set (pv_fences p) \<and> s \<in> set (rf_surfaces f) \<and> fs_detector s = Some det \<and> speaks det w
          \<and> (fs, l) \<in> set (nodes (VObj m) (entryLoc m)) \<and> nodeFact fs = Some w
          \<longrightarrow> fs_id s \<in> (\<lambda>(f, s, l). fs_id s) ` set hits)"
proof -
  obtain hits where hits: "evaluateLibraryFences m p = map (report (pv_name p)) hits" "distinct (map (\<lambda>(f, s, l). fs_id s) hits)"
    "\<forall>(f, s, l) \<in> set hits. f \<in> set (pv_fences p) \<and> s \<in> set (rf_surfaces f) \<and> hitOf m s l"
    "\<forall>f \<in> set (pv_fences p). \<forall>s \<in> set (rf_surfaces f). (\<exists>l. hitOf m s l) \<longrightarrow> fs_id s \<in> (\<lambda>(f, s, l). fs_id s) ` set hits"
    using evaluate_reports by blast
  show ?thesis
    by (rule exI [of _ hits], intro conjI, simp add: hits(1) report_def, rule hits(2), use hits(3) in \<open>simp add: hitOf_def\<close>)
       (use hits(4) reached_hit in blast)
qed

theorem fences_report_exactly_witness:
  "(demoCall, entryLoc demoModule) \<in> set (nodes (VObj demoModule) (entryLoc demoModule))
   \<and> evaluateLibraryFences demoModule \<lparr> pv_name = js ''p'', pv_teachings = [], pv_fences = [demoFence] \<rparr> \<noteq> []"
proof -
  let ?p = "\<lparr> pv_name = js ''p'', pv_teachings = [], pv_fences = [demoFence] \<rparr>"
  let ?s = "keepSurface (demoEntry ''random'') (Detected demoDetector)"
  obtain hits :: "(ResolvedLibraryFence \<times> FencedSurface \<times> jsval) list" where eval: "evaluateLibraryFences demoModule ?p = map (\<lambda>(f, s, l). libFenceDiag (pv_name ?p) (fs_id s) (fs_name s) l (fs_code s) (rf_teaching f)) hits"
    and all: "\<forall>f s det fs l w. f \<in> set (pv_fences ?p) \<and> s \<in> set (rf_surfaces f) \<and> fs_detector s = Some det \<and> speaks det w
          \<and> (fs, l) \<in> set (nodes (VObj demoModule) (entryLoc demoModule)) \<and> nodeFact fs = Some w
          \<longrightarrow> fs_id s \<in> (\<lambda>(f, s, l). fs_id s) ` set hits"
    using fences_report_exactly [of demoModule ?p] by blast
  have surface: "demoFence \<in> set (pv_fences ?p)" "?s \<in> set (rf_surfaces demoFence)" "fs_detector ?s = Some demoDetector"
    by (simp_all add: demoFence_def keepSurface_def)
  have "fs_id ?s \<in> (\<lambda>(f, s, l). fs_id s) ` set hits"
    using all surface demo_fact(2) demo_reaches demo_fact(1) by blast
  then show ?thesis using demo_reaches eval by auto
qed

text \<open>C5. A profile whose fences load is never inert: there is one resolved fence per declaration, each with at
  least one surface, and when a declaration selects a manifest entry that compiles and is not folded
  away, the entry has a detector, and every module that reaches one of its facts is refused with
  a report that names this entry.\<close>

theorem loaded_fences_police:
  assumes "resolveLibraryFences t ds = Inr fences" and "distinct (map se_id (t_manifest t))" and "d \<in> set ds"
    and "e \<in> set (t_manifest t)" and "selects d (se_id e)" and "se_static e" and "se_id e \<notin> set (tax_folded (fenceTaxonomy t))"
  shows "length fences = length ds \<and> (\<forall>f \<in> set fences. rf_surfaces f \<noteq> [])
     \<and> (\<exists>det. classifySurface t (fenceTaxonomy t) e = Detected det
          \<and> (\<forall>m n ts fs l w. (fs, l) \<in> set (nodes (VObj m) (entryLoc m)) \<and> nodeFact fs = Some w \<and> speaks det w
               \<longrightarrow> (\<exists>l' note. libFenceDiag n (se_id e) (se_name e) l' (se_code e) note
                     \<in> set (evaluateLibraryFences m \<lparr> pv_name = n, pv_teachings = ts, pv_fences = fences \<rparr>))))"
proof -
  have all: "list_all2 (\<lambda>d f. resolveDecl t (fenceTaxonomy t) d = Inr f) ds fences" using resolve_all [OF assms(1)] .
  then obtain f where f: "f \<in> set fences" "resolveDecl t (fenceTaxonomy t) d = Inr f"
    using list_all2_left [OF all assms(3)] by blast
  let ?s = "keepSurface e (classifySurface t (fenceTaxonomy t) e)"
  have s: "?s \<in> set (rf_surfaces f)" "\<forall>why. classifySurface t (fenceTaxonomy t) e \<noteq> Unfenceable why"
    using resolveDecl_covers [OF f(2) assms(2,4,5,7)] by auto
  then obtain det where det: "classifySurface t (fenceTaxonomy t) e = Detected det" using static_detected assms(6) by blast
  have kept: "kept t s" if "g \<in> set fences" "s \<in> set (rf_surfaces g)" for g s
    using list_all2_right [OF all that(1)] resolveDecl_kept that(2) by blast
  have "\<forall>g \<in> set fences. rf_surfaces g \<noteq> []"
    using list_all2_right [OF all] resolveDecl_nonempty by blast
  moreover have "\<exists>l' note. libFenceDiag n (se_id e) (se_name e) l' (se_code e) note
      \<in> set (evaluateLibraryFences m \<lparr> pv_name = n, pv_teachings = ts, pv_fences = fences \<rparr>)"
    if reach: "(fs, l) \<in> set (nodes (VObj m) (entryLoc m))" "nodeFact fs = Some w" "speaks det w" for m n ts fs l w
  proof -
    have "\<exists>l. hitOf m ?s l" using reached_hit [OF _ reach(3,1,2)] by (simp add: keepSurface_def det)
    then obtain g s k where g: "report n (g, s, k) \<in> set (evaluateLibraryFences m \<lparr> pv_name = n, pv_teachings = ts, pv_fences = fences \<rparr>)"
      "g \<in> set fences" "s \<in> set (rf_surfaces g)" "fs_id s = fs_id ?s"
      using evaluate_reports [of m "\<lparr> pv_name = n, pv_teachings = ts, pv_fences = fences \<rparr>"] f(1) s(1) by fastforce
    then have "s = ?s" using kept_entry [OF kept assms(2,4)] by (simp add: keepSurface_def)
    then show ?thesis using g(1) by (auto simp: report_def keepSurface_def)
  qed
  ultimately show ?thesis using list_all2_lengthD [OF all, symmetric] det by blast
qed

theorem loaded_fences_police_witness:
  "resolveLibraryFences demoTables [demoDecl] = Inr [demoFence]
   \<and> (\<exists>l note. libFenceDiag (js ''p'') (se_id (demoEntry ''random'')) (se_name (demoEntry ''random'')) l None note
        \<in> set (evaluateLibraryFences demoModule \<lparr> pv_name = js ''p'', pv_teachings = [], pv_fences = [demoFence] \<rparr>))"
proof -
  have code: "se_code (demoEntry ''random'') = None" by (simp add: demoEntry_def)
  obtain det where det: "classifySurface demoTables (fenceTaxonomy demoTables) (demoEntry ''random'') = Detected det"
    and police: "\<forall>m n ts fs l w. (fs, l) \<in> set (nodes (VObj m) (entryLoc m)) \<and> nodeFact fs = Some w \<and> speaks det w
               \<longrightarrow> (\<exists>l' note. libFenceDiag n (se_id (demoEntry ''random'')) (se_name (demoEntry ''random'')) l' (se_code (demoEntry ''random'')) note
                     \<in> set (evaluateLibraryFences m \<lparr> pv_name = n, pv_teachings = ts, pv_fences = [demoFence] \<rparr>))"
    using loaded_fences_police [OF demo_resolves demo_random(2) _ demo_random(1,3,4,5)] by (auto simp del: nodes.simps split_paired_All)
  have "det = demoDetector" using det demo_random(6) by simp
  then show ?thesis using police demo_reaches demo_fact demo_resolves unfolding code by blast
qed

text \<open>C13. Full fences attest determinism: when a profile's fences deny every spelling of the compiler whose family
  demotes the attestation, a module that passes them reaches no nondeterministic surface, and its
  sidecar attests determinism.\<close>

theorem fenced_is_deterministic:
  assumes "evaluateLibraryFences m p = []"
    and "\<forall>n \<in> set (nodesIn (VObj m)). \<forall>f. kindIs n (js ''libCall'') \<and> fieldIs n (js ''fn'') f \<longrightarrow> f \<in> spellings"
    and "\<forall>f \<in> spellings. startsIn (map fst LIB_NONDETERMINISTIC_PREFIXES) f \<longrightarrow>
           (\<exists>fence \<in> set (pv_fences p). \<exists>s \<in> set (rf_surfaces fence). \<exists>det. fs_detector s = Some det \<and> f \<in> set (det_libFns det))"
  shows "moduleLibNondeterministicSurface m = None"
proof (rule ccontr)
  assume "moduleLibNondeterministicSurface m \<noteq> None"
  then obtain n f where n: "n \<in> set (nodesIn (VObj m))" "kindIs n (js ''libCall'')" "fieldIs n (js ''fn'') f" "startsIn (map fst LIB_NONDETERMINISTIC_PREFIXES) f"
    by (auto simp: deterministic_iff libCallWith_iff simp del: nodesIn.simps)
  then obtain fence s det where s: "fence \<in> set (pv_fences p)" "s \<in> set (rf_surfaces fence)" "fs_detector s = Some det" "f \<in> set (det_libFns det)"
    using assms(2,3) by blast
  obtain l where "(n, l) \<in> set (nodes (VObj m) (entryLoc m))" using nodesIn_nodes [OF n(1)] by blast
  moreover have "speaks det (LibFact, f)" using s(4) by (simp add: speaks_def)
  ultimately have "\<exists>l. hitOf m s l" using reached_hit [OF s(3)] nodeFact_libCall [OF n(2,3)] by blast
  then show False using evaluate_reports [of m p] s(1,2) assms(1) by auto
qed

theorem fenced_is_deterministic_witness:
  "moduleLibNondeterministicSurface (callModule ''math.sqrt'') = None
   \<and> evaluateLibraryFences (callModule ''math.sqrt'') \<lparr> pv_name = js ''p'', pv_teachings = [], pv_fences = [demoFence] \<rparr> = []"
proof -
  let ?p = "\<lparr> pv_name = js ''p'', pv_teachings = [], pv_fences = [demoFence] \<rparr>"
  have eval: "evaluateLibraryFences (callModule ''math.sqrt'') ?p = []" by code_simp
  have known: "\<forall>n \<in> set (nodesIn (VObj (callModule ''math.sqrt''))). \<forall>f. kindIs n (js ''libCall'') \<and> fieldIs n (js ''fn'') f \<longrightarrow>
      f \<in> {js ''math.sqrt'', js ''math.random''}"
    by (simp add: call_simps)
  have deny: "\<forall>f \<in> {js ''math.sqrt'', js ''math.random''}. startsIn (map fst LIB_NONDETERMINISTIC_PREFIXES) f \<longrightarrow>
      (\<exists>fence \<in> set (pv_fences ?p). \<exists>s \<in> set (rf_surfaces fence). \<exists>det. fs_detector s = Some det \<and> f \<in> set (det_libFns det))"
    by (simp add: LIB_NONDETERMINISTIC_PREFIXES_def startsWith_js demoFence_def keepSurface_def demoDetector_def)
  show ?thesis using fenced_is_deterministic [OF eval known deny] eval by blast
qed

end
