(* ===== verification/May_Throw.thy ===== *)
theory May_Throw
  imports Ir_Gates
begin

text \<open>
  The whole-module may-throw analysis (\<open>backend/emission/may-throw.ts\<close>), by which the emitters decide which
  calls need an unwind check: the facts of one function body, collected by a walk that reads every
  object but the types and locations, and the fixpoint over the call graph, in which a call through a
  closure value may reach any function a closure was made over.

  The analysis is shown to be exact for its specification: the set it returns is the least one closed
  under the rules its documentation states, and the loop comes to rest. A class hierarchy is taken to
  be acyclic: the walk along base classes has as many steps as there are classes, which is enough for
  one that is (\<open>descends_enough\<close>).
\<close>

section \<open>The tables\<close>

definition MAY_THROW_ARR_METHODS :: "jsstr list" where
  "MAY_THROW_ARR_METHODS =
    [
     js ''with'', js ''sort'', js ''toSorted'', js ''typedSort'']"

definition MAY_THROW_BYTES_METHODS :: "jsstr list" where
  "MAY_THROW_BYTES_METHODS =
    [
     js ''with'', js ''setFrom'', js ''readNum'', js ''writeNum'', js ''readNumVar'', js ''writeNumVar'', js ''compareBuf'', js ''fill'',
     js ''fillNum'', js ''fillStr'', js ''copy'', js ''swap16'', js ''swap32'', js ''swap64'', js ''writeStr'', js ''dataViewNew'',
     js ''dvGetUint8'', js ''dvGetInt8'', js ''dvGetUint16'', js ''dvGetInt16'', js ''dvGetUint32'', js ''dvGetInt32'', js ''dvGetFloat32'',
     js ''dvGetFloat64'', js ''dvGetBigUint64Number'', js ''dvGetBigInt64Number'', js ''dvSetUint8'', js ''dvSetInt8'', js ''dvSetUint16'',
     js ''dvSetInt16'', js ''dvSetUint32'', js ''dvSetInt32'', js ''dvSetFloat32'', js ''dvSetFloat64'']"

definition MAY_THROW_LIB_FNS :: "jsstr list" where
  "MAY_THROW_LIB_FNS =
    [
     js ''num.toFixed'', js ''insp.jsonDyn'', js ''insp.dynHidden'', js ''dc.publish'', js ''dc.subscribe'', js ''dc.unsubscribe'',
     js ''dc.chanSubscribe'', js ''dc.chanUnsubscribe'', js ''dc.tcSubscribe'', js ''dc.tcUnsubscribe'', js ''dc.tcTraceSync'',
     js ''dc.tcTraceCallback'', js ''dc.tcTracePromise'', js ''process.onUnhandledRejection'', js ''process.onRejectionHandled'',
     js ''async.awaitDyn'', js ''als.run'', js ''als.exitRun'', js ''dc.chanBindStore'', js ''dc.chanRunStores'', js ''http.resWriteHeadDyn'',
     js ''http.resWriteHeadReason'', js ''net.sockSetEncoding'', js ''http.reqSetEncoding'', js ''fs.readFileSyncBuf'', js ''fs.readFileSyncDyn'',
     js ''tls.pemDyn'', js ''tls.createServerDyn'', js ''tls.createSecureContextDyn'', js ''tls.caCertsChk'', js ''tls.createServerDynCb'',
     js ''https.createServerDyn'', js ''https.createServerDynCb'', js ''http2.createSecureServerDyn'', js ''http2.createSecureServerDynCb'',
     js ''tls.connect'', js ''tls.connectCb'', js ''tlsca.get'', js ''tlsca.set'', js ''emitter.emit'', js ''emitter.emitError'', js ''emitter.on'',
     js ''emitter.off'', js ''emitter.checkListener'', js ''emitter.onDyn'', js ''emitter.offDyn'', js ''emitter.onData'', js ''emitter.onDataDyn'',
     js ''emitter.emitData'', js ''readable.nextChunk'', js ''readable.nextChunkDyn'', js ''net.sockWriteDyn'', js ''net.sockEndDyn'',
     js ''http.resWriteDyn'', js ''http.resEndDyn'', js ''http.clientWriteDyn'', js ''http.clientEndDyn'', js ''http.requestUrl'',
     js ''http.requestUrlCb'', js ''http2.connect'', js ''http2.connectCb'', js ''http2.sessionRequest'', js ''http2.streamSetEncoding'',
     js ''http2.streamRespond'', js ''http2.streamWrite'', js ''http2.streamWriteBytes'', js ''http2.streamEnd'', js ''http2.streamEndStr'',
     js ''http2.streamEndBytes'', js ''emitter.removeAll'', js ''stream.finished'', js ''stream.finishedDyn'', js ''stream.pipeline'',
     js ''stream.pipelineDyn'', js ''sp.finished'', js ''sp.pipeline'', js ''sc.text'', js ''sc.json'', js ''sc.buffer'', js ''readable.newDyn'',
     js ''writable.newDyn'', js ''duplex.newDyn'', js ''transform.newDyn'', js ''passthrough.newDyn'', js ''readable.initDyn'',
     js ''writable.initDyn'', js ''duplex.initDyn'', js ''transform.initDyn'', js ''passthrough.initDyn'', js ''readable.push'',
     js ''readable.pushStr'', js ''readable.pushStrEnc'', js ''readable.pushNull'', js ''readable.pushU'', js ''readable.pushDyn'',
     js ''readable.unshift'', js ''readable.unshiftStr'', js ''readable.read'', js ''readable.resume'', js ''readable.pipe'', js ''readable.unpipe'',
     js ''writable.write'', js ''writable.writeStr'', js ''writable.writeU'', js ''writable.writeDyn'', js ''writable.end'', js ''writable.uncork'',
     js ''stream.destroy'', js ''stream.destroyAborted'', js ''stream.destroyErr'', js ''emitter.setMax'', js ''emitter.setDefaultMax'',
     js ''http.requestConn'', js ''http.requestConnCb'', js ''process.kill'', js ''process.killNum'', js ''process.cpuPrevValidate'',
     js ''process.stdinSetRawMode'', js ''http2.streamUndefCall'', js ''global.undefRead'', js ''global.tdzCheck'', js ''error.nodeThrow'',
     js ''dyn.toStringCoerce'', js ''dyn.toNumber'', js ''child.kill'', js ''net.connectLookup'', js ''cp.execSync'', js ''cp.execCapture'',
     js ''http.request'', js ''http.requestCb'', js ''http.agentNew'', js ''http.requestAgent'', js ''http.requestAgentCb'',
     js ''https.requestAgent'', js ''https.requestAgentCb'', js ''https.request'', js ''https.requestCb'', js ''https.requestUrl'',
     js ''https.requestUrlCb'', js ''https.requestFn'', js ''https.requestFnCb'', js ''rl.question'', js ''island.eval'', js ''island.import'',
     js ''island.caughtToJsval'', js ''island.castFail'', js ''json.parse'', js ''str.decodeUriComponent'', js ''str.atob'', js ''str.btoa'',
     js ''str.b64Missing'', js ''timers.queueMicrotaskDyn'', js ''dyn.structuredClone'', js ''dyn.cloneMissing'', js ''dyn.cloneTransferFail'',
     js ''dyn.objKeys'', js ''dyn.hasOwn'', js ''dyn.assign'', js ''dyn.packPushSpread'', js ''dyn.packPushSpreadIter'', js ''dyn.assignAll'',
     js ''dyn.objValues'', js ''dyn.objEntries'', js ''error.domClone'', js ''regex.new'', js ''dyn.keySet'', js ''dyn.iterPack'',
     js ''dyn.iterLive'', js ''dyn.toString'', js ''dyn.defineProps'', js ''process.chdir'', js ''process.umask'', js ''fs.realpathSync'',
     js ''fs.readFileSync'', js ''fs.writeFileSync'', js ''fs.appendFileSync'', js ''fs.mkdirSync'', js ''fs.rmSync'', js ''fs.rmdirSync'',
     js ''fs.readdirSync'', js ''fs.readdirTypesSync'', js ''url.new'', js ''url.newBase'', js ''url.parse'', js ''url.parseBase'',
     js ''url.canParse'', js ''url.canParseBase'', js ''url.fileURLToPathUrl'', js ''url.fileURLToPathStr'', js ''url.pathToFileURLWin32'',
     js ''url.pathToFileURLHost'', js ''sp.fromPairs'', js ''fs.statSync'', js ''crypto.randomBytesToString'', js ''crypto.randomBytes'',
     js ''buffer.concatLen'', js ''buffer.compareChk'', js ''bytes.equalsChk'', js ''bytes.compareChk'', js ''buffer.newStringFail'',
     js ''fs.toUnixTimestamp'', js ''fs.existsChk'', js ''fs.mkdtempChk'', js ''fs.mkdtempSyncChk'', js ''fs.readFileChk'', js ''fs.opendirChk'',
     js ''fs.watchFileChk'', js ''fs.lchmodChk'', js ''fs.lchmodSyncChk'', js ''fsp.lchmodChk'', js ''fs.readChk'', js ''fs.streamOptsChk'',
     js ''net.connectAttempt'', js ''net.connectOptsChk'', js ''net.setAutoSelTimeout'', js ''error.argTypeThrow'', js ''error.propTypeThrow'',
     js ''emitter.setMaxChk'', js ''emitter.setDefaultMaxChk'', js ''fs.readFileSyncBytes'', js ''fs.writeFileSyncBytes'', js ''zlib.inflateSync'',
     js ''date.toISOString'', js ''fs.mkdirRecursiveSync'', js ''fs.rmOptsSync'', js ''fs.rmRetrySync'', js ''fs.mkdtempSync'', js ''fs.accessSync'',
     js ''fs.readFdSync'', js ''fs.readFdSyncBytes'', js ''dgram.bind'', js ''dgram.bindCb'', js ''dgram.connect'', js ''dgram.connectCb'',
     js ''dgram.sendStr'', js ''dgram.sendBytes'', js ''dgram.sendChk'', js ''dgram.address'', js ''dgram.close'', js ''dgram.closeCb'',
     js ''assert.ok'', js ''assert.eqF64'', js ''assert.eqStr'', js ''assert.eqBool'', js ''assert.eqSym'', js ''assert.eqDyn'',
     js ''assert.deepResult'', js ''assert.match'', js ''assert.refEqBytes'', js ''assert.refEqFn'', js ''assert.throwsNone'',
     js ''assert.throwsMismatch'', js ''assert.throwsRegex'', js ''assert.shapeEnd'', js ''assert.unwantedRejection'', js ''assert.expectsErrDyn'',
     js ''assert.ifErrorErr'', js ''assert.ifErrorF64'', js ''assert.ifErrorStr'', js ''assert.ifErrorBool'', js ''assert.ifErrorDyn'',
     js ''insp.jsval'', js ''insp.dyn'', js ''insp.dynS'', js ''fs.unlinkSync'', js ''fs.chmodSync'', js ''fs.chownSync'', js ''fs.copyFileSync'',
     js ''fs.lstatSync'', js ''fs.writeFileModeSync'', js ''fs.mkdirModeSync'', js ''fs.mkdirRecursiveModeSync'', js ''fs.openSync'',
     js ''fs.readSync'', js ''fs.closeSync'', js ''fs.watch'', js ''fs.watchCb'', js ''crypto.x509Fingerprint'', js ''crypto.x509FingerprintStr'',
     js ''crypto.x509ValidFrom'', js ''crypto.x509ValidFromStr'', js ''crypto.x509ValidTo'', js ''crypto.x509ValidToStr'']"

section \<open>The body walk\<close>

text \<open>The fields a body walk enters: all but the location and the type.\<close>

definition entered :: "jsstr \<Rightarrow> bool" where
  "entered k \<longleftrightarrow> k \<noteq> js ''loc'' \<and> k \<noteq> js ''type''"

fun walkBody :: "(node \<Rightarrow> 's \<Rightarrow> 's) \<Rightarrow> jsval \<Rightarrow> 's \<Rightarrow> 's"
and walkItems :: "(node \<Rightarrow> 's \<Rightarrow> 's) \<Rightarrow> jsval list \<Rightarrow> 's \<Rightarrow> 's"
and walkFields :: "(node \<Rightarrow> 's \<Rightarrow> 's) \<Rightarrow> node \<Rightarrow> 's \<Rightarrow> 's" where
  "walkBody f (VArr vs) s = walkItems f vs s"
| "walkBody f (VObj n) s = walkFields f n (f n s)"
| "walkBody f _ s = s"
| "walkItems f [] s = s"
| "walkItems f (v # vs) s = walkItems f vs (walkBody f v s)"
| "walkFields f [] s = s"
| "walkFields f ((k, v) # n) s = walkFields f n (if entered k then walkBody f v s else s)"

definition truthyJs :: "jsval \<Rightarrow> bool" where
  "truthyJs v = (case v of VUndef \<Rightarrow> False | VNull \<Rightarrow> False | VBool b \<Rightarrow> b | VStr s \<Rightarrow> s \<noteq> []
     | VNum d \<Rightarrow> d \<noteq> NaN \<and> d \<noteq> NegZero \<and> d \<noteq> Num (Q 0) | _ \<Rightarrow> True)"

definition flagged :: "node \<Rightarrow> jsstr \<Rightarrow> bool" where
  "flagged n k \<longleftrightarrow> field n k = VBool True"

definition functionsOf :: "node \<Rightarrow> node list" where
  "functionsOf m = map fieldsOf (items (field m (js ''functions'')))"

definition classesOf :: "node \<Rightarrow> node list" where
  "classesOf m = map fieldsOf (items (field m (js ''classes'')))"

definition strOf :: "node \<Rightarrow> jsstr \<Rightarrow> jsstr" where
  "strOf n k = (case strField n k of Some s \<Rightarrow> s | None \<Rightarrow> [])"

abbreviation nameOf :: "node \<Rightarrow> jsstr" where
  "nameOf n \<equiv> strOf n (js ''name'')"

text \<open>\<open>set.has(n.k)\<close> for a set of strings.\<close>

definition fieldIn :: "node \<Rightarrow> jsstr \<Rightarrow> jsstr list \<Rightarrow> bool" where
  "fieldIn n k xs \<longleftrightarrow> (case strField n k of Some s \<Rightarrow> s \<in> set xs | None \<Rightarrow> False)"

text \<open>\<open>(n.k as { type?: { kind?: string } }).type?.kind\<close>.\<close>

definition typeKind :: "node \<Rightarrow> jsstr \<Rightarrow> jsstr option" where
  "typeKind n k = strField (fieldsOf (field (fieldsOf (field n k)) (js ''type''))) (js ''kind'')"

section \<open>Receivers known to be present\<close>

definition provenPresent :: "jsval \<Rightarrow> jsstr list \<Rightarrow> bool" where
  "provenPresent obj present =
    (let r = fieldsOf obj
     in if kindIn [js ''new'', js ''recordLit'', js ''arrayLit'', js ''closure''] r then True
        else if kindIs r (js ''varRef'') then fieldIs r (js ''localId'') (js ''this.0'') \<or> fieldIn r (js ''localId'') present
        else if kindIs r (js ''call'') then
          (case strField r (js ''callee'') of Some c \<Rightarrow> startsIn [js ''%undef.recv.'', js ''%union.recv.''] c | None \<Rightarrow> False)
        else False)"

definition localIds :: "(node \<Rightarrow> bool) \<Rightarrow> node \<Rightarrow> jsstr list" where
  "localIds p fn = map (\<lambda>l. strOf l (js ''id'')) (filter p (map fieldsOf (items (field fn (js ''locals'')))))"

definition presentNode :: "jsstr list \<Rightarrow> node \<Rightarrow> jsstr list \<times> (jsstr \<times> nat) list \<Rightarrow> jsstr list \<times> (jsstr \<times> nat) list" where
  "presentNode candidates n = (\<lambda>(out, decls).
     if kindIs n (js ''varDecl'') \<and> fieldIn n (js ''localId'') candidates
     then (let i = strOf n (js ''localId'');
               init = field n (js ''init'')
           in (if init \<noteq> VUndef \<and> init \<noteq> VNull \<and> provenPresent init out then setAdd i out else out,
               mapSet decls i (Suc (case map_of decls i of Some c \<Rightarrow> c | None \<Rightarrow> 0))))
     else (out, decls))"

definition presentLocals :: "node \<Rightarrow> jsstr list" where
  "presentLocals fn =
    (let candidates = localIds (\<lambda>l. \<not> flagged l (js ''mutable'') \<and> \<not> flagged l (js ''tdz'') \<and> \<not> flagged l (js ''boxed'')) fn;
         (out, decls) = walkBody (presentNode candidates) (field fn (js ''body'')) ([], [])
     in filter (\<lambda>i. \<forall>(j, c) \<in> set decls. j = i \<longrightarrow> c = 1) out)"

section \<open>The facts of a function\<close>

record Facts =
  throws :: bool
  callees :: "jsstr list"
  callsValue :: bool
  closureTargets :: "jsstr list"
  sawDynFuncAdapter :: bool

definition noFacts :: Facts where
  "noFacts = \<lparr> throws = False, callees = [], callsValue = False, closureTargets = [], sawDynFuncAdapter = False \<rparr>"

definition asyncFns :: "node \<Rightarrow> jsstr list" where
  "asyncFns m = map nameOf (filter (\<lambda>f. truthyJs (field f (js ''async''))) (functionsOf m))"

definition genFns :: "node \<Rightarrow> jsstr list" where
  "genFns m = map nameOf (filter (\<lambda>f. truthyJs (field f (js ''generator''))) (functionsOf m))"

definition methodImpls :: "node \<Rightarrow> jsstr \<Rightarrow> jsstr list" where
  "methodImpls m name = concat (map (\<lambda>c. map (\<lambda>k. js ''%'' @ nameOf c @ js ''.'' @ k)
     (filter (\<lambda>k. k = name) (concat (map (\<lambda>v. case v of VStr s \<Rightarrow> [s] | _ \<Rightarrow> []) (items (field c (js ''methods''))))))) (classesOf m))"

definition findNamed :: "node list \<Rightarrow> jsstr \<Rightarrow> node option" where
  "findNamed ns name = List.find (\<lambda>c. fieldIs c (js ''name'') name) ns"

fun descends :: "node list \<Rightarrow> jsstr \<Rightarrow> nat \<Rightarrow> jsstr \<Rightarrow> bool" where
  "descends cs cls 0 name = False"
| "descends cs cls (Suc fuel) name =
    (case findNamed cs name of
       None \<Rightarrow> False
     | Some c \<Rightarrow> if nameOf c = cls then True else (case strField c (js ''base'') of None \<Rightarrow> False | Some b \<Rightarrow> descends cs cls fuel b))"

definition constructorOf :: "jsstr \<Rightarrow> jsstr" where
  "constructorOf c = js ''%'' @ c @ js ''.constructor''"

text \<open>Whether the receiver of a member read is tested, and the receiver, when slots may hold \<open>undefined\<close>.\<close>

definition endsWith :: "jsstr \<Rightarrow> jsstr \<Rightarrow> bool" where
  "endsWith s p \<longleftrightarrow> drop (length s - length p) s = p"

definition methodCallee :: "node \<Rightarrow> jsstr \<Rightarrow> bool" where
  "methodCallee m callee \<longleftrightarrow>
    (case findNamed (rev (functionsOf m)) callee of
       None \<Rightarrow> False
     | Some fn \<Rightarrow> (case items (field fn (js ''params'')) of p # _ \<Rightarrow> fieldIs (fieldsOf p) (js ''localId'') (js ''this.0'') | [] \<Rightarrow> False))
    \<and> \<not> endsWith callee (js ''.constructor'')"

definition firstArg :: "node \<Rightarrow> jsval" where
  "firstArg n = (case items (field n (js ''args'')) of a # _ \<Rightarrow> a | [] \<Rightarrow> VUndef)"

definition receiverOf :: "node \<Rightarrow> node \<Rightarrow> jsval" where
  "receiverOf m n =
    (if kindIs n (js ''recordGet'') \<and> \<not> flagged n (js ''spreadCopy'') \<or> kindIs n (js ''fieldGet'') then field n (js ''obj'')
     else if kindIs n (js ''arrayGet'') then field n (js ''arr'')
     else if kindIs n (js ''virtualCall'') then firstArg n
     else if kindIs n (js ''call'') \<and> methodCallee m (strOf n (js ''callee'')) then firstArg n
     else VUndef)"

definition keySetThrows :: "node \<Rightarrow> node \<Rightarrow> bool" where
  "keySetThrows m n \<longleftrightarrow> \<not> flagged n (js ''overflowOnly'') \<and>
    (case List.find (\<lambda>r. field r (js ''id'') = field n (js ''shapeId'')) (map fieldsOf (items (field m (js ''records'')))) of
       None \<Rightarrow> False
     | Some shape \<Rightarrow> \<not> truthyJs (field shape (js ''indexValue'')) \<or>
         fieldIs (fieldsOf (field shape (js ''indexValue''))) (js ''kind'') (js ''dyn'') \<and> items (field shape (js ''fields'')) \<noteq> [])"

record WalkCtx =
  c_mod :: node
  c_undefSlots :: bool
  c_present :: "jsstr list"
  c_tdz :: "jsstr list"
  c_caughtToStr :: bool

text \<open>What a case of the walk adds to the facts collected so far: it sets flags and pushes names.\<close>

definition addFacts :: "Facts \<Rightarrow> Facts \<Rightarrow> Facts" where
  "addFacts f g = \<lparr> throws = (throws f \<or> throws g), callees = callees f @ callees g, callsValue = (callsValue f \<or> callsValue g),
     closureTargets = fold setAdd (closureTargets g) (closureTargets f), sawDynFuncAdapter = (sawDynFuncAdapter f \<or> sawDynFuncAdapter g) \<rparr>"

abbreviation throwIf :: "bool \<Rightarrow> Facts" where
  "throwIf b \<equiv> noFacts\<lparr> throws := b \<rparr>"

abbreviation pushes :: "jsstr list \<Rightarrow> Facts" where
  "pushes cs \<equiv> noFacts\<lparr> callees := cs \<rparr>"

definition ALWAYS_THROWS :: "jsstr list" where
  "ALWAYS_THROWS = [js ''throw'', js ''rethrow'', js ''dynCall'', js ''dynInvoke'', js ''dynKeyGet'', js ''dynDestrCheck'', js ''dynIterN'',
     js ''awaitExpr'', js ''awaitUnionExpr'', js ''yieldExpr'', js ''genResume'', js ''jsOp'', js ''jsExit'', js ''jsMarshal'', js ''jsBridgePromise'',
     js ''jsView'', js ''jsUnview'']"

definition REGEX_THROWS :: "jsstr list" where
  "REGEX_THROWS = [js ''replaceAll'', js ''split'', js ''splitLimit'', js ''matchAll'', js ''matchAllInto'', js ''collectAll'']"

text \<open>The switch on the kind of the object.\<close>

definition kindFacts :: "WalkCtx \<Rightarrow> node \<Rightarrow> jsstr \<Rightarrow> Facts" where
  "kindFacts c n kind =
    (if kind \<in> set ALWAYS_THROWS then throwIf True
     else if kind = js ''varRef'' then throwIf (fieldIn n (js ''localId'') (c_tdz c))
     else if kind = js ''dynCheck'' \<or> kind = js ''caughtCheck'' then
       noFacts\<lparr> throws := True, sawDynFuncAdapter := fieldIs (fieldsOf (field n (js ''type''))) (js ''kind'') (js ''func'') \<rparr>
     else if kind = js ''fieldIncDec'' then throwIf (flagged n (js ''fieldDyn''))
     else if kind = js ''intrinsic'' then throwIf (fieldIs n (js ''name'') (js ''module.await''))
     else if kind = js ''recordKeySet'' then throwIf (keySetThrows (c_mod c) n)
     else if kind = js ''jsonStringify'' then
       throwIf (\<exists>k \<in> set [js ''dyn'', js ''record'', js ''array'', js ''union'']. typeKind n (js ''value'') = Some k)
     else if kind = js ''toString'' then
       throwIf (c_caughtToStr c \<and> typeKind n (js ''operand'') = Some (js ''caught'') \<or> typeKind n (js ''operand'') = Some (js ''dyn''))
     else if kind = js ''libCall'' then throwIf (fieldIn n (js ''fn'') MAY_THROW_LIB_FNS)
     else if kind = js ''bytesNew'' then throwIf (typeKind n (js ''source'') = Some (js ''f64''))
     else if kind = js ''bytesIntrinsic'' then throwIf (fieldIn n (js ''method'') MAY_THROW_BYTES_METHODS)
     else if kind = js ''arrIntrinsic'' then throwIf (fieldIn n (js ''method'') MAY_THROW_ARR_METHODS)
     else if kind = js ''regexIntrinsic'' then throwIf (fieldIn n (js ''method'') REGEX_THROWS)
     else if kind = js ''call'' then
       (let callee = strOf n (js ''callee'')
        in if callee \<notin> set (asyncFns (c_mod c)) \<and> callee \<notin> set (genFns (c_mod c)) then pushes [callee] else noFacts)
     else if kind = js ''new'' then pushes [constructorOf (strOf n (js ''className''))]
     else if kind = js ''newValue'' then
       (case strField (fieldsOf (field (fieldsOf (field n (js ''callee''))) (js ''type''))) (js ''className'') of
          None \<Rightarrow> noFacts
        | Some cls \<Rightarrow>
            (let cs = classesOf (c_mod c)
             in pushes (map (\<lambda>k. constructorOf (nameOf k)) (filter (\<lambda>k. descends cs cls (length cs) (nameOf k)) cs))))
     else if kind = js ''virtualCall'' then pushes (methodImpls (c_mod c) (strOf n (js ''method'')))
     else if kind = js ''callValue'' then noFacts\<lparr> callsValue := True \<rparr>
     else if kind = js ''closure'' then noFacts\<lparr> closureTargets := [strOf n (js ''fnName'')] \<rparr>
     else noFacts)"

text \<open>The two receiver tests come before the switch.\<close>

definition receiverThrows :: "WalkCtx \<Rightarrow> node \<Rightarrow> bool" where
  "receiverThrows c n \<longleftrightarrow> strField n (js ''undefRecv'') \<noteq> None \<or>
     c_undefSlots c \<and> receiverOf (c_mod c) n \<noteq> VUndef \<and> \<not> provenPresent (receiverOf (c_mod c) n) (c_present c)"

definition nodeFacts :: "WalkCtx \<Rightarrow> node \<Rightarrow> Facts" where
  "nodeFacts c n = addFacts (throwIf (receiverThrows c n)) (case strField n (js ''kind'') of None \<Rightarrow> noFacts | Some kind \<Rightarrow> kindFacts c n kind)"

definition visitNode :: "WalkCtx \<Rightarrow> node \<Rightarrow> Facts \<Rightarrow> Facts" where
  "visitNode c n f = addFacts f (nodeFacts c n)"

definition ctxOf :: "node \<Rightarrow> node \<Rightarrow> WalkCtx" where
  "ctxOf m fn = \<lparr> c_mod = m, c_undefSlots = flagged m (js ''undefSlots''),
     c_present = (if flagged m (js ''undefSlots'') then presentLocals fn else []),
     c_tdz = localIds (\<lambda>l. truthyJs (field l (js ''tdz''))) fn,
     c_caughtToStr = (moduleHasJsvalValues m \<or> moduleHasDynValues m) \<rparr>"

definition factsOfFn :: "node \<Rightarrow> node \<Rightarrow> Facts" where
  "factsOfFn m fn = walkBody (visitNode (ctxOf m fn)) (field fn (js ''body'')) noFacts"

text \<open>The map of the facts by function name; what the walks share is collected over all of them.\<close>

definition factsMap :: "node \<Rightarrow> (jsstr \<times> Facts) list" where
  "factsMap m = fold (\<lambda>fn t. mapSet t (nameOf fn) (factsOfFn m fn)) (functionsOf m) []"

definition allClosureTargets :: "node \<Rightarrow> jsstr list" where
  "allClosureTargets m = fold (\<lambda>fn. fold setAdd (closureTargets (factsOfFn m fn))) (functionsOf m) []"

definition anyAdapter :: "node \<Rightarrow> bool" where
  "anyAdapter m \<longleftrightarrow> (\<exists>fn \<in> set (functionsOf m). sawDynFuncAdapter (factsOfFn m fn))"

section \<open>The fixpoint\<close>

fun throwPass :: "(jsstr \<times> Facts) list \<Rightarrow> bool \<Rightarrow> jsstr list \<Rightarrow> bool \<Rightarrow> jsstr list \<times> bool" where
  "throwPass [] indirect may changed = (may, changed)"
| "throwPass ((name, f) # rest) indirect may changed =
    (if name \<in> set may then throwPass rest indirect may changed
     else if callsValue f \<and> indirect \<or> (\<exists>c \<in> set (callees f). c \<in> set may) then throwPass rest indirect (may @ [name]) True
     else throwPass rest indirect may changed)"

text \<open>The closure targets a call may unwind from, given the functions that are neither asynchronous nor generators.\<close>

definition reachesThrow :: "jsstr list \<Rightarrow> jsstr list \<Rightarrow> bool" where
  "reachesThrow targets may \<longleftrightarrow> (\<exists>t \<in> set targets. t \<in> set may)"

lemma throwPass_grows:
  "throwPass fs indirect may changed = (may', changed') \<Longrightarrow>
     set may \<subseteq> set may' \<and> set may' \<subseteq> set may \<union> fst ` set fs \<and> (changed \<longrightarrow> changed') \<and> (\<not> changed \<and> changed' \<longrightarrow> set may \<subset> set may')
     \<and> (changed' = changed \<longrightarrow> changed \<or> may' = may)"
proof (induction fs indirect may changed arbitrary: may' changed' rule: throwPass.induct)
  case (2 name f rest indirect may changed)
  show ?case
  proof (cases "name \<in> set may \<or> \<not> (callsValue f \<and> indirect \<or> (\<exists>c \<in> set (callees f). c \<in> set may))")
    case True
    then have "throwPass rest indirect may changed = (may', changed')" using "2.prems" by (auto split: if_splits)
    then show ?thesis using "2.IH"(1,3) True by (cases "name \<in> set may") auto
  next
    case False
    then have "throwPass rest indirect (may @ [name]) True = (may', changed')" using "2.prems" by (auto split: if_splits)
    then show ?thesis using "2.IH"(2) False by auto
  qed
qed auto

lemma throwPass_card:
  assumes "throwPass fs indirect may False = (may', changed)"
  shows "card (fst ` set fs - set may') \<le> card (fst ` set fs - set may)"
    and "changed \<Longrightarrow> card (fst ` set fs - set may') < card (fst ` set fs - set may)"
proof -
  show "card (fst ` set fs - set may') \<le> card (fst ` set fs - set may)"
    using throwPass_grows [OF assms] by (intro card_mono) auto
  show "card (fst ` set fs - set may') < card (fst ` set fs - set may)" if changed
    using throwPass_grows [OF assms] that by (intro psubset_card_mono) auto
qed

function (sequential) throwLoop :: "(jsstr \<times> Facts) list \<Rightarrow> jsstr list \<Rightarrow> jsstr list \<Rightarrow> bool \<Rightarrow> jsstr list \<times> bool" where
  "throwLoop fs targets may indirect =
    (case throwPass fs indirect may False of
       (may', changed) \<Rightarrow>
         (if \<not> indirect \<and> reachesThrow targets may' then throwLoop fs targets may' True
          else if changed then throwLoop fs targets may' indirect
          else (may', indirect)))"
  by pat_completeness auto
termination
  by (relation "measure (\<lambda>(fs, targets, may, indirect). card (fst ` set fs - set may) + (if indirect then 0 else 1))")
     (auto dest!: sym [of "(_, _)"] dest: throwPass_card simp: less_Suc_eq_le)

declare throwLoop.simps [simp del]

definition unwindTargets :: "node \<Rightarrow> jsstr list" where
  "unwindTargets m = filter (\<lambda>t. t \<notin> set (asyncFns m) \<and> t \<notin> set (genFns m)) (allClosureTargets m)"

definition computeMayThrow :: "node \<Rightarrow> jsstr list \<times> bool" where
  "computeMayThrow m =
    (let facts = factsMap m;
         may = map fst (filter (\<lambda>(name, f). throws f) facts)
     in throwLoop facts (unwindTargets m) may (anyAdapter m \<or> reachesThrow (unwindTargets m) may))"

section \<open>The walk by single objects\<close>

fun bodyNodes :: "jsval \<Rightarrow> node list" where
  "bodyNodes (VArr vs) = concat (map bodyNodes vs)"
| "bodyNodes (VObj n) = n # concat (map (\<lambda>kv. if entered (fst kv) then bodyNodes (snd kv) else []) n)"
| "bodyNodes _ = []"

lemma walk_nodes:
  "walkBody f v s = fold f (bodyNodes v) s"
  "walkItems f vs s = fold f (concat (map bodyNodes vs)) s"
  "walkFields f n s = fold f (concat (map (\<lambda>kv. if entered (fst kv) then bodyNodes (snd kv) else []) n)) s"
  by (induction f v s and f vs s and f n s rule: walkBody_walkItems_walkFields.induct) auto

abbreviation says :: "node \<Rightarrow> node \<Rightarrow> node \<Rightarrow> Facts" where
  "says m fn n \<equiv> nodeFacts (ctxOf m fn) n"

lemma fold_visit:
  "throws (fold (visitNode c) ns f) \<longleftrightarrow> throws f \<or> (\<exists>n \<in> set ns. throws (nodeFacts c n))"
  "set (callees (fold (visitNode c) ns f)) = set (callees f) \<union> (\<Union>n \<in> set ns. set (callees (nodeFacts c n)))"
  "callsValue (fold (visitNode c) ns f) \<longleftrightarrow> callsValue f \<or> (\<exists>n \<in> set ns. callsValue (nodeFacts c n))"
  "set (closureTargets (fold (visitNode c) ns f)) = set (closureTargets f) \<union> (\<Union>n \<in> set ns. set (closureTargets (nodeFacts c n)))"
  "sawDynFuncAdapter (fold (visitNode c) ns f) \<longleftrightarrow> sawDynFuncAdapter f \<or> (\<exists>n \<in> set ns. sawDynFuncAdapter (nodeFacts c n))"
  by (induction ns arbitrary: f) (auto simp: visitNode_def addFacts_def)

abbreviation fnNodes :: "node \<Rightarrow> node list" where
  "fnNodes fn \<equiv> bodyNodes (field fn (js ''body''))"

lemma factsOfFn_iff:
  "throws (factsOfFn m fn) \<longleftrightarrow> (\<exists>n \<in> set (fnNodes fn). throws (says m fn n))"
  "set (callees (factsOfFn m fn)) = (\<Union>n \<in> set (fnNodes fn). set (callees (says m fn n)))"
  "callsValue (factsOfFn m fn) \<longleftrightarrow> (\<exists>n \<in> set (fnNodes fn). callsValue (says m fn n))"
  "set (closureTargets (factsOfFn m fn)) = (\<Union>n \<in> set (fnNodes fn). set (closureTargets (says m fn n)))"
  "sawDynFuncAdapter (factsOfFn m fn) \<longleftrightarrow> (\<exists>n \<in> set (fnNodes fn). sawDynFuncAdapter (says m fn n))"
  by (simp_all add: factsOfFn_def walk_nodes fold_visit noFacts_def)

section \<open>The specification\<close>

text \<open>What may unwind: a function with an object that throws by itself, one that calls a function that may unwind,
  one that calls a value while some closure may unwind; and a closure may unwind when an adapter was
  minted or it is made over a function that may unwind and is neither asynchronous nor a generator.\<close>

inductive mayUnwind :: "node \<Rightarrow> jsstr \<Rightarrow> bool" and indirectUnwind :: "node \<Rightarrow> bool" for m where
  own: "fn \<in> set (functionsOf m) \<Longrightarrow> n \<in> set (fnNodes fn) \<Longrightarrow> throws (says m fn n) \<Longrightarrow> mayUnwind m (nameOf fn)"
| call: "fn \<in> set (functionsOf m) \<Longrightarrow> n \<in> set (fnNodes fn) \<Longrightarrow> g \<in> set (callees (says m fn n)) \<Longrightarrow> mayUnwind m g \<Longrightarrow> mayUnwind m (nameOf fn)"
| callValue: "fn \<in> set (functionsOf m) \<Longrightarrow> n \<in> set (fnNodes fn) \<Longrightarrow> callsValue (says m fn n) \<Longrightarrow> indirectUnwind m \<Longrightarrow> mayUnwind m (nameOf fn)"
| adapter: "fn \<in> set (functionsOf m) \<Longrightarrow> n \<in> set (fnNodes fn) \<Longrightarrow> sawDynFuncAdapter (says m fn n) \<Longrightarrow> indirectUnwind m"
| closure: "fn \<in> set (functionsOf m) \<Longrightarrow> n \<in> set (fnNodes fn) \<Longrightarrow> t \<in> set (closureTargets (says m fn n)) \<Longrightarrow>
    t \<notin> set (asyncFns m) \<Longrightarrow> t \<notin> set (genFns m) \<Longrightarrow> mayUnwind m t \<Longrightarrow> indirectUnwind m"

section \<open>The fixpoint is the least one\<close>

text \<open>Any closed pair of a set and an answer contains the result of the loop; the result is closed.\<close>

definition closedUnder :: "(jsstr \<times> Facts) list \<Rightarrow> jsstr list \<Rightarrow> (jsstr \<Rightarrow> bool) \<Rightarrow> bool \<Rightarrow> bool" where
  "closedUnder fs targets P I \<longleftrightarrow>
    (\<forall>(name, f) \<in> set fs. callsValue f \<and> I \<or> (\<exists>c \<in> set (callees f). P c) \<longrightarrow> P name) \<and> ((\<exists>t \<in> set targets. P t) \<longrightarrow> I)"

lemma throwLoop_step:
  assumes "throwPass fs indirect may False = (may', changed)"
  shows "throwLoop fs targets may indirect =
    (if \<not> indirect \<and> reachesThrow targets may' then throwLoop fs targets may' True
     else if changed then throwLoop fs targets may' indirect
     else (may', indirect))"
  by (subst throwLoop.simps) (simp only: assms prod.case)

lemma throwPass_sound:
  assumes "\<forall>(name, f) \<in> set fs. callsValue f \<and> I \<or> (\<exists>c \<in> set (callees f). P c) \<longrightarrow> P name" and "indirect \<longrightarrow> I" and "\<forall>x \<in> set may. P x"
  shows "\<forall>x \<in> set (fst (throwPass fs indirect may changed)). P x"
  using assms
proof (induction fs indirect may changed rule: throwPass.induct)
  case (2 name f rest indirect may changed)
  have rest: "\<forall>(name, f) \<in> set rest. callsValue f \<and> I \<or> (\<exists>c \<in> set (callees f). P c) \<longrightarrow> P name" using "2.prems"(1) by simp
  show ?case
  proof (cases "name \<notin> set may \<and> (callsValue f \<and> indirect \<or> (\<exists>c \<in> set (callees f). c \<in> set may))")
    case True
    then have step: "throwPass ((name, f) # rest) indirect may changed = throwPass rest indirect (may @ [name]) True" by auto
    have "callsValue f \<and> I \<or> (\<exists>c \<in> set (callees f). P c)" using True "2.prems"(2,3) by blast
    then have "P name" using "2.prems"(1) by auto
    then have "\<forall>x \<in> set (may @ [name]). P x" using "2.prems"(3) by auto
    then show ?thesis unfolding step using "2.IH"(2) [OF conjunct1 [OF True] conjunct2 [OF True] rest "2.prems"(2)] by blast
  next
    case False
    then have step: "throwPass ((name, f) # rest) indirect may changed = throwPass rest indirect may changed" by auto
    show ?thesis unfolding step
      using False "2.IH"(1) [OF _ rest "2.prems"(2,3)] "2.IH"(3) [OF _ _ rest "2.prems"(2,3)] by blast
  qed
qed simp

lemma throwLoop_sound:
  "closedUnder fs targets P I \<Longrightarrow> (indirect \<longrightarrow> I) \<Longrightarrow> \<forall>x \<in> set may. P x \<Longrightarrow>
     (\<forall>x \<in> set (fst (throwLoop fs targets may indirect)). P x) \<and> (snd (throwLoop fs targets may indirect) \<longrightarrow> I)"
proof (induction fs targets may indirect rule: throwLoop.induct)
  case (1 fs targets may indirect)
  obtain may' changed where pass: "throwPass fs indirect may False = (may', changed)" by fastforce
  have "\<forall>(name, f) \<in> set fs. callsValue f \<and> I \<or> (\<exists>c \<in> set (callees f). P c) \<longrightarrow> P name"
    using "1.prems"(1) unfolding closedUnder_def by (rule conjunct1)
  then have may': "\<forall>x \<in> set may'. P x" using throwPass_sound [OF _ "1.prems"(2,3), of fs False] unfolding pass fst_conv by blast
  have reach: "reachesThrow targets may' \<Longrightarrow> I" using "1.prems"(1) may' unfolding closedUnder_def reachesThrow_def by blast
  show ?case
  proof (cases "\<not> indirect \<and> reachesThrow targets may'")
    case True
    then have step: "throwLoop fs targets may indirect = throwLoop fs targets may' True" using throwLoop_step [OF pass] by metis
    show ?thesis unfolding step using "1.IH"(1) [OF pass [symmetric] True "1.prems"(1) _ may'] reach True by blast
  next
    case False
    then have step: "throwLoop fs targets may indirect = (if changed then throwLoop fs targets may' indirect else (may', indirect))"
      using throwLoop_step [OF pass] by metis
    show ?thesis
    proof (cases changed)
      case True
      then show ?thesis unfolding step if_P [OF True] using "1.IH"(2) [OF pass [symmetric] False True "1.prems"(1,2) may'] by blast
    next
      case unchanged: False
      show ?thesis unfolding step if_not_P [OF unchanged] fst_conv snd_conv using may' "1.prems"(2) by blast
    qed
  qed
qed

lemma throwPass_still:
  "throwPass fs indirect may False = (may', False) \<Longrightarrow>
     may' = may \<and> (\<forall>(name, f) \<in> set fs. callsValue f \<and> indirect \<or> (\<exists>c \<in> set (callees f). c \<in> set may) \<longrightarrow> name \<in> set may)"
proof (induction fs indirect may "False" arbitrary: may' rule: throwPass.induct)
  case (2 name f rest indirect may)
  have "\<not> (name \<notin> set may \<and> (callsValue f \<and> indirect \<or> (\<exists>c \<in> set (callees f). c \<in> set may)))"
    using "2.prems" throwPass_grows [of rest indirect "may @ [name]" True may' False] by (auto split: if_splits)
  then show ?case using 2 by (auto split: if_splits)
qed simp

lemma throwLoop_closed:
  "set may \<subseteq> set (fst (throwLoop fs targets may indirect)) \<and> (indirect \<longrightarrow> snd (throwLoop fs targets may indirect))
   \<and> closedUnder fs targets (\<lambda>x. x \<in> set (fst (throwLoop fs targets may indirect))) (snd (throwLoop fs targets may indirect))"
proof (induction fs targets may indirect rule: throwLoop.induct)
  case (1 fs targets may indirect)
  obtain may' changed where pass: "throwPass fs indirect may False = (may', changed)" by fastforce
  have grows: "set may \<subseteq> set may'" using throwPass_grows [OF pass] by blast
  consider (reach) "\<not> indirect \<and> reachesThrow targets may'" | (again) "\<not> (\<not> indirect \<and> reachesThrow targets may')" "changed"
    | (rest) "\<not> (\<not> indirect \<and> reachesThrow targets may')" "\<not> changed" by blast
  then show ?case
  proof cases
    case reach
    then have "throwLoop fs targets may indirect = throwLoop fs targets may' True" using throwLoop_step [OF pass] by metis
    then show ?thesis using "1.IH"(1) [OF pass [symmetric] reach] grows by auto
  next
    case again
    then have "throwLoop fs targets may indirect = throwLoop fs targets may' indirect" using throwLoop_step [OF pass] by metis
    then show ?thesis using "1.IH"(2) [OF pass [symmetric] again] grows by auto
  next
    case rest
    then have "throwLoop fs targets may indirect = (may', indirect)" using throwLoop_step [OF pass] by metis
    then show ?thesis using throwPass_still [of fs indirect may may'] pass rest grows by (auto simp: closedUnder_def reachesThrow_def)
  qed
qed

section \<open>The facts map\<close>

lemma factsMap_entries:
  assumes "distinct (map nameOf (functionsOf m))"
  shows "(x, f) \<in> set (factsMap m) \<longleftrightarrow> (\<exists>fn \<in> set (functionsOf m). x = nameOf fn \<and> f = factsOfFn m fn)"
proof -
  have "set (fold (\<lambda>fn t. mapSet t (nameOf fn) (factsOfFn m fn)) fns t) = set t \<union> (\<lambda>fn. (nameOf fn, factsOfFn m fn)) ` set fns \<and>
      distinct (map fst (fold (\<lambda>fn t. mapSet t (nameOf fn) (factsOfFn m fn)) fns t))"
    if "distinct (map nameOf fns)" "distinct (map fst t)" "fst ` set t \<inter> nameOf ` set fns = {}" for fns and t :: "(jsstr \<times> Facts) list"
    using that
  proof (induction fns arbitrary: t)
    case (Cons fn fns)
    let ?t = "mapSet t (nameOf fn) (factsOfFn m fn)"
    have new: "nameOf fn \<notin> fst ` set t" and rest: "distinct (map nameOf fns)" "nameOf fn \<notin> nameOf ` set fns" "fst ` set t \<inter> nameOf ` set fns = {}"
      using Cons.prems(1,3) by auto
    have t: "set ?t = insert (nameOf fn, factsOfFn m fn) (set t)"
      using vals_mapSet [OF Cons.prems(2), of _ "nameOf fn" "factsOfFn m fn"] new by (intro set_eqI) (metis image_eqI insert_iff)
    have keys: "distinct (map fst ?t)" by (rule distinct_keys_mapSet [OF Cons.prems(2)])
    have disjoint: "fst ` set ?t \<inter> nameOf ` set fns = {}" unfolding t using rest(2,3) by auto
    show ?case using Cons.IH [OF rest(1) keys disjoint] unfolding t by simp
  qed simp
  from this [of "functionsOf m" "[]"] show ?thesis using assms by (auto simp: factsMap_def)
qed

lemma allClosureTargets_set: "set (allClosureTargets m) = (\<Union>fn \<in> set (functionsOf m). set (closureTargets (factsOfFn m fn)))"
proof -
  have "set (fold (\<lambda>fn. fold setAdd (closureTargets (factsOfFn m fn))) fns xs) = set xs \<union> (\<Union>fn \<in> set fns. set (closureTargets (factsOfFn m fn)))" for fns xs
    by (induction fns arbitrary: xs) auto
  from this [of "functionsOf m" "[]"] show ?thesis by (simp add: allClosureTargets_def)
qed

lemma unwindTargets_iff:
  "t \<in> set (unwindTargets m) \<longleftrightarrow> (\<exists>fn \<in> set (functionsOf m). \<exists>n \<in> set (fnNodes fn). t \<in> set (closureTargets (says m fn n))) \<and> t \<notin> set (asyncFns m) \<and> t \<notin> set (genFns m)"
  by (auto simp: unwindTargets_def allClosureTargets_set factsOfFn_iff)

lemma closed_spec:
  assumes "distinct (map nameOf (functionsOf m))"
  shows "closedUnder (factsMap m) (unwindTargets m) (mayUnwind m) (indirectUnwind m)"
  unfolding closedUnder_def using assms
  by (fastforce simp: factsMap_entries unwindTargets_iff factsOfFn_iff intro: mayUnwind_indirectUnwind.intros)

text \<open>With an acyclic hierarchy, more steps along the base classes change nothing.\<close>

lemma descends_enough:
  assumes "\<And>c b. c \<in> set cs \<Longrightarrow> strField c (js ''base'') = Some b \<Longrightarrow> depth b < (depth (nameOf c) :: nat)" and "depth name < fuel"
  shows "descends cs cls (fuel + k) name = descends cs cls fuel name"
  using assms(2)
proof (induction fuel arbitrary: name)
  case (Suc fuel)
  show ?case
  proof (cases "findNamed cs name")
    case (Some c)
    then have c: "c \<in> set cs" "nameOf c = name"
      by (auto simp: findNamed_def find_Some_iff fieldIs_def strOf_def)
    have "descends cs cls (fuel + k) b = descends cs cls fuel b" if "strField c (js ''base'') = Some b" for b
      using Suc.IH [of b] assms(1) [OF c(1) that] c(2) Suc.prems by simp
    then show ?thesis using Some by (simp split: option.splits)
  qed simp
qed simp

section \<open>Properties\<close>

text \<open>C4. The analysis is exact: in a module whose functions have different names, the functions it returns
  are those that may unwind by the rules its documentation states, no more and no fewer, and it
  reports indirect unwinding exactly when a closure may unwind.\<close>

theorem mayThrow_exact:
  assumes "distinct (map nameOf (functionsOf m))"
  shows "(\<forall>x. x \<in> set (fst (computeMayThrow m)) \<longleftrightarrow> mayUnwind m x) \<and> (snd (computeMayThrow m) \<longleftrightarrow> indirectUnwind m)"
proof -
  let ?fs = "factsMap m" and ?ts = "unwindTargets m" and ?may = "map fst (filter (\<lambda>(name, f). throws f) (factsMap m))"
  let ?ind = "anyAdapter m \<or> reachesThrow ?ts ?may"
  have run: "computeMayThrow m = throwLoop ?fs ?ts ?may ?ind" by (simp only: computeMayThrow_def Let_def)
  have seed: "x \<in> set ?may \<longleftrightarrow> (\<exists>fn \<in> set (functionsOf m). x = nameOf fn \<and> throws (factsOfFn m fn))" for x
    using factsMap_entries [OF assms] by force
  have may: "\<forall>x \<in> set ?may. mayUnwind m x" using seed factsOfFn_iff(1) mayUnwind_indirectUnwind.own by metis
  have ind: "?ind \<longrightarrow> indirectUnwind m"
    using closed_spec [OF assms] may mayUnwind_indirectUnwind.adapter unfolding closedUnder_def reachesThrow_def anyAdapter_def factsOfFn_iff by blast
  note sound = throwLoop_sound [OF closed_spec [OF assms] ind may, folded run]
  note closed = throwLoop_closed [of ?may ?fs ?ts ?ind, folded run]
  have step: "nameOf fn \<in> set (fst (computeMayThrow m))"
    if "fn \<in> set (functionsOf m)" "callsValue (factsOfFn m fn) \<and> snd (computeMayThrow m) \<or> (\<exists>c \<in> set (callees (factsOfFn m fn)). c \<in> set (fst (computeMayThrow m)))" for fn
    using closed that factsMap_entries [OF assms, of "nameOf fn" "factsOfFn m fn"] unfolding closedUnder_def by blast
  have targets: "snd (computeMayThrow m)" if "t \<in> set ?ts" "t \<in> set (fst (computeMayThrow m))" for t
    using closed that unfolding closedUnder_def by blast
  have "(mayUnwind m x \<longrightarrow> x \<in> set (fst (computeMayThrow m))) \<and> (indirectUnwind m \<longrightarrow> snd (computeMayThrow m))" for x
  proof (induction rule: mayUnwind_indirectUnwind.induct)
    case (own fn n)
    then have "nameOf fn \<in> set ?may" unfolding seed factsOfFn_iff by blast
    then show ?case using closed by blast
  next
    case (call fn n g)
    then show ?case using step factsOfFn_iff(2) by blast
  next
    case (callValue fn n)
    then show ?case using step factsOfFn_iff(3) by blast
  next
    case (adapter fn n)
    then have "anyAdapter m" unfolding anyAdapter_def factsOfFn_iff by blast
    then show ?case using closed by blast
  next
    case (closure fn n t)
    then show ?case using targets unwindTargets_iff by blast
  qed
  then show ?thesis using sound by blast
qed

text \<open>A function that throws, one that calls it, and one that does neither.\<close>

definition fnNode :: "string \<Rightarrow> node list \<Rightarrow> jsval" where
  "fnNode f body = VObj [(js ''name'', VStr (js f)), (js ''locals'', VArr []), (js ''body'', VArr (map VObj body))]"

definition throwModule :: node where
  "throwModule = [(js ''functions'', VArr [fnNode ''a'' [[(js ''kind'', VStr (js ''throw''))]],
     fnNode ''b'' [[(js ''kind'', VStr (js ''call'')), (js ''callee'', VStr (js ''a''))]], fnNode ''c'' []])]"

theorem mayThrow_exact_witness:
  "distinct (map nameOf (functionsOf throwModule)) \<and> mayUnwind throwModule (js ''b'') \<and> \<not> mayUnwind throwModule (js ''c'') \<and> \<not> indirectUnwind throwModule"
proof -
  have names: "distinct (map nameOf (functionsOf throwModule))" by code_simp
  have run: "computeMayThrow throwModule = ([js ''a'', js ''b''], False)" by code_simp
  have others: "js ''c'' \<noteq> js ''a''" "js ''c'' \<noteq> js ''b''" by (simp_all add: js_eq)
  show ?thesis using names mayThrow_exact [OF names] others unfolding run by (simp del: distinct_map) blast
qed

end
