(* ===== verification/Ir_Types.thy ===== *)
theory Ir_Types
  imports Ir_Walk
begin

text \<open>
  The types of the IR and the questions every part of the compiler asks of them (\<open>ir/nodes.ts\<close>): the key that
  stands for a type wherever types are interned, the equality of types, the fences of the containers,
  and the predicates of the JSON, island and dynamic boundaries. Records and unions are named by ids and
  looked up in registries, so a type may be recursive.

  The theory \<open>Ir_Keys\<close> relates the key and the equality. The JSON predicate is a search with a set of visited ids; it is shown to
  return, and to answer whether everything reachable from the type is representable.
\<close>

section \<open>Types\<close>

datatype pkind =
    F64T | StringT | BoolT | RegexT | UrlT | SearchParamsT | SymbolT | StatsT | SpawnResT | ChildT | NetServerT | NetSocketT | Http2SessionT
  | Http2StreamT | DgramSocketT | TestCtxT | HttpReqT | HttpResT | HttpClientReqT | SecureCtxT | FsWatcherT | ChildStreamT | ProcStreamT
  | DynT | JsvalT | CaughtT | VoidT | UndefinedT | NullT

datatype bytesElem = BU8 | BU32 | BI32 | BF32

text \<open>\<open>FuncT params ret rest restAbi\<close>: \<open>restAbi\<close> holds when the field is \<open>"jsval"\<close>.\<close>

datatype irtype =
    Prim pkind
  | ArrayT irtype
  | BytesT bytesElem
  | MapT irtype irtype
  | SetT irtype
  | FuncT "irtype list" irtype bool bool
  | ObjectT jsstr
  | ClassvalT jsstr
  | RecordT jsstr
  | UnionT jsstr
  | PromiseT irtype
  | GeneratorT irtype irtype irtype

fun primWord :: "pkind \<Rightarrow> string" where
  "primWord F64T = ''f64''"
| "primWord StringT = ''string''"
| "primWord BoolT = ''bool''"
| "primWord RegexT = ''regex''"
| "primWord UrlT = ''url''"
| "primWord SearchParamsT = ''searchParams''"
| "primWord SymbolT = ''symbol''"
| "primWord StatsT = ''stats''"
| "primWord SpawnResT = ''spawnRes''"
| "primWord ChildT = ''child''"
| "primWord NetServerT = ''netServer''"
| "primWord NetSocketT = ''netSocket''"
| "primWord Http2SessionT = ''http2Session''"
| "primWord Http2StreamT = ''http2Stream''"
| "primWord DgramSocketT = ''dgramSocket''"
| "primWord TestCtxT = ''testCtx''"
| "primWord HttpReqT = ''httpReq''"
| "primWord HttpResT = ''httpRes''"
| "primWord HttpClientReqT = ''httpClientReq''"
| "primWord SecureCtxT = ''secureCtx''"
| "primWord FsWatcherT = ''fsWatcher''"
| "primWord ChildStreamT = ''childStream''"
| "primWord ProcStreamT = ''procStream''"
| "primWord DynT = ''dyn''"
| "primWord JsvalT = ''jsval''"
| "primWord CaughtT = ''caught''"
| "primWord VoidT = ''void''"
| "primWord UndefinedT = ''undefined''"
| "primWord NullT = ''null''"

fun bytesWord :: "bytesElem \<Rightarrow> string" where
  "bytesWord BU8 = ''u8''"
| "bytesWord BU32 = ''u32''"
| "bytesWord BI32 = ''i32''"
| "bytesWord BF32 = ''f32''"

definition restKey :: "bool \<Rightarrow> jsstr" where
  "restKey jsval = (if jsval then js ''...jsval[]'' else js ''...dyn[]'')"

fun typeKey :: "irtype \<Rightarrow> jsstr" where
  "typeKey (Prim p) = js (primWord p)"
| "typeKey (ArrayT e) = js ''array<'' @ typeKey e @ js ''>''"
| "typeKey (BytesT e) = js ''bytes<'' @ js (bytesWord e) @ js ''>''"
| "typeKey (MapT k v) = js ''map<'' @ typeKey k @ js '','' @ typeKey v @ js ''>''"
| "typeKey (SetT e) = js ''set<'' @ typeKey e @ js ''>''"
| "typeKey (FuncT ps r rest abi) = js ''func('' @ join (js '','') (map typeKey ps @ (if rest then [restKey abi] else [])) @ js '')=>'' @ typeKey r"
| "typeKey (ObjectT c) = js ''object:'' @ c"
| "typeKey (ClassvalT c) = js ''classval:'' @ c"
| "typeKey (RecordT s) = js ''record:'' @ s"
| "typeKey (UnionT u) = js ''union:'' @ u"
| "typeKey (PromiseT t) = js ''promise<'' @ typeKey t @ js ''>''"
| "typeKey (GeneratorT y r n) = js ''generator<'' @ typeKey y @ js '','' @ typeKey r @ js '','' @ typeKey n @ js ''>''"

fun typeEquals :: "irtype \<Rightarrow> irtype \<Rightarrow> bool" and typesEqual :: "irtype list \<Rightarrow> irtype list \<Rightarrow> bool" where
  "typeEquals (ArrayT a) b = (case b of ArrayT b' \<Rightarrow> typeEquals a b' | _ \<Rightarrow> False)"
| "typeEquals (BytesT a) b = (case b of BytesT b' \<Rightarrow> a = b' | _ \<Rightarrow> False)"
| "typeEquals (MapT k v) b = (case b of MapT k' v' \<Rightarrow> typeEquals k k' \<and> typeEquals v v' | _ \<Rightarrow> False)"
| "typeEquals (SetT a) b = (case b of SetT b' \<Rightarrow> typeEquals a b' | _ \<Rightarrow> False)"
| "typeEquals (FuncT ps r rest abi) b =
    (case b of FuncT qs r' rest' abi' \<Rightarrow> length ps = length qs \<and> rest = rest' \<and> typesEqual ps qs \<and> typeEquals r r' | _ \<Rightarrow> False)"
| "typeEquals (ObjectT c) b = (case b of ObjectT c' \<Rightarrow> c = c' | _ \<Rightarrow> False)"
| "typeEquals (ClassvalT c) b = (case b of ClassvalT c' \<Rightarrow> c = c' | _ \<Rightarrow> False)"
| "typeEquals (RecordT c) b = (case b of RecordT c' \<Rightarrow> c = c' | _ \<Rightarrow> False)"
| "typeEquals (UnionT c) b = (case b of UnionT c' \<Rightarrow> c = c' | _ \<Rightarrow> False)"
| "typeEquals (PromiseT a) b = (case b of PromiseT b' \<Rightarrow> typeEquals a b' | _ \<Rightarrow> False)"
| "typeEquals (GeneratorT y r n) b = (case b of GeneratorT y' r' n' \<Rightarrow> typeEquals y y' \<and> typeEquals r r' \<and> typeEquals n n' | _ \<Rightarrow> False)"
| "typeEquals (Prim p) b = (case b of Prim q \<Rightarrow> p = q | _ \<Rightarrow> False)"
| "typesEqual [] qs = True"
| "typesEqual (p # ps) qs = (case qs of [] \<Rightarrow> True | q # qs' \<Rightarrow> typeEquals p q \<and> typesEqual ps qs')"

definition pureArityDrop :: "irtype \<Rightarrow> irtype \<Rightarrow> bool" where
  "pureArityDrop src dst =
    (case src of FuncT ps r rest _ \<Rightarrow>
       (case dst of FuncT qs r' rest' _ \<Rightarrow> \<not> rest \<and> \<not> rest' \<and> length ps < length qs \<and> typesEqual ps qs \<and> typeEquals r r' | _ \<Rightarrow> False)
     | _ \<Rightarrow> False)"

text \<open>The kinds whose values are counted references; the others are plain scalars or units.\<close>

fun isRefCounted :: "irtype \<Rightarrow> bool" where
  "isRefCounted (Prim p) \<longleftrightarrow> p \<in> {StringT, RegexT, UrlT, SearchParamsT, SymbolT, StatsT, SpawnResT, ChildT, NetServerT, NetSocketT, Http2SessionT, Http2StreamT,
     DgramSocketT, TestCtxT, HttpReqT, HttpResT, HttpClientReqT, SecureCtxT, FsWatcherT, ChildStreamT, DynT, JsvalT, CaughtT}"
| "isRefCounted _ \<longleftrightarrow> True"

section \<open>The fences of the containers\<close>

definition isUnitType :: "irtype \<Rightarrow> bool" where
  "isUnitType t \<longleftrightarrow> t = Prim UndefinedT \<or> t = Prim NullT"

definition isSupportedMapKey :: "irtype \<Rightarrow> bool" where
  "isSupportedMapKey t \<longleftrightarrow> t = Prim F64T \<or> t = Prim StringT"

definition isSupportedSetElem :: "irtype \<Rightarrow> bool" where
  "isSupportedSetElem t \<longleftrightarrow> isSupportedMapKey t \<or> t = Prim NetServerT \<or> t = Prim SymbolT"

fun isSupportedMapValue :: "irtype \<Rightarrow> bool" where
  "isSupportedMapValue (Prim p) \<longleftrightarrow> p \<in> {F64T, StringT, BoolT, ChildT, SecureCtxT, RegexT}"
| "isSupportedMapValue (RecordT _) \<longleftrightarrow> True"
| "isSupportedMapValue (ObjectT _) \<longleftrightarrow> True"
| "isSupportedMapValue (UnionT _) \<longleftrightarrow> True"
| "isSupportedMapValue (ArrayT _) \<longleftrightarrow> True"
| "isSupportedMapValue (PromiseT _) \<longleftrightarrow> True"
| "isSupportedMapValue (ClassvalT _) \<longleftrightarrow> True"
| "isSupportedMapValue _ \<longleftrightarrow> False"

fun isSupportedIndexValue :: "irtype \<Rightarrow> bool" where
  "isSupportedIndexValue (Prim DynT) \<longleftrightarrow> True"
| "isSupportedIndexValue (FuncT _ _ _ _) \<longleftrightarrow> True"
| "isSupportedIndexValue (MapT _ _) \<longleftrightarrow> True"
| "isSupportedIndexValue (SetT _) \<longleftrightarrow> True"
| "isSupportedIndexValue t \<longleftrightarrow> isSupportedMapValue t"

definition isSetT :: "irtype \<Rightarrow> bool" where
  "isSetT t = (case t of SetT _ \<Rightarrow> True | _ \<Rightarrow> False)"

definition unionFuncSetArmsOk :: "irtype list \<Rightarrow> bool" where
  "unionFuncSetArmsOk arms \<longleftrightarrow>
     (\<forall>i \<in> set [0..<length arms]. \<not> isSetT (arms ! i) \<or> (\<forall>j \<in> set [0..<length arms]. j = i \<or> isUnitType (arms ! j)))"

section \<open>The registries\<close>

record ShapeField =
  sf_name :: jsstr
  sf_type :: irtype
  sf_optional :: bool
  sf_internal :: bool

record IrRecordShape =
  shape_id :: jsstr
  shape_fields :: "ShapeField list"
  shape_tuple :: bool
  shape_indexValue :: "irtype option"
  shape_declaredOrder :: "jsstr list option"

subsection \<open>The slots of a shape\<close>

datatype slotKind = GetSlot | SetSlot

definition accessorSlotProp :: "jsstr \<Rightarrow> (slotKind \<times> jsstr) option" where
  "accessorSlotProp f =
    (if startsWith f (js ''%get:'') then Some (GetSlot, drop 5 f)
     else if startsWith f (js ''%set:'') then Some (SetSlot, drop 5 f)
     else None)"

definition isInternalField :: "IrRecordShape \<Rightarrow> jsstr \<Rightarrow> bool" where
  "isInternalField shape name \<longleftrightarrow> (\<exists>f \<in> set (shape_fields shape). sf_name f = name \<and> sf_internal f)"

text \<open>The parameters left out default to those of the field.\<close>

definition shapeFieldCopy :: "ShapeField \<Rightarrow> irtype option \<Rightarrow> bool option \<Rightarrow> ShapeField" where
  "shapeFieldCopy f t opt =
    \<lparr> sf_name = sf_name f, sf_type = (case t of None \<Rightarrow> sf_type f | Some t' \<Rightarrow> t'),
      sf_optional = (case opt of None \<Rightarrow> sf_optional f | Some b \<Rightarrow> b), sf_internal = sf_internal f \<rparr>"

definition isReservedField :: "IrRecordShape \<Rightarrow> jsstr \<Rightarrow> bool" where
  "isReservedField shape name \<longleftrightarrow> accessorSlotProp name \<noteq> None \<or> isInternalField shape name"

definition shapeHasReservedFields :: "IrRecordShape \<Rightarrow> bool" where
  "shapeHasReservedFields shape \<longleftrightarrow> (\<exists>f \<in> set (shape_fields shape). isReservedField shape (sf_name f))"

definition shapeHasAccessorSlots :: "IrRecordShape \<Rightarrow> bool" where
  "shapeHasAccessorSlots shape \<longleftrightarrow> (\<exists>f \<in> set (shape_fields shape). accessorSlotProp (sf_name f) \<noteq> None)"

subsection \<open>Records and unions\<close>

text \<open>\<open>getRecord\<close> and \<open>getUnion\<close>: the arms of a union by its id.\<close>

record Registry =
  reg_records :: "(jsstr \<times> IrRecordShape) list"
  reg_unions :: "(jsstr \<times> irtype list) list"

abbreviation getRecord :: "Registry \<Rightarrow> jsstr \<Rightarrow> IrRecordShape option" where
  "getRecord g \<equiv> map_of (reg_records g)"

abbreviation getUnion :: "Registry \<Rightarrow> jsstr \<Rightarrow> irtype list option" where
  "getUnion g \<equiv> map_of (reg_unions g)"

definition isUndefinedArmedUnion :: "Registry \<Rightarrow> irtype \<Rightarrow> bool" where
  "isUndefinedArmedUnion g t =
    (case t of UnionT u \<Rightarrow> (case getUnion g u of None \<Rightarrow> False | Some arms \<Rightarrow> Prim UndefinedT \<in> set arms) | _ \<Rightarrow> False)"

section \<open>The JSON predicate\<close>

definition unionVisitKey :: "jsstr \<Rightarrow> bool \<Rightarrow> jsstr" where
  "unionVisitKey u inField = u @ js '':'' @ (if inField then js ''true'' else js ''false'')"

text \<open>The fields of a shape, tuples without the record position, then the index value.\<close>

definition recordBelow :: "IrRecordShape \<Rightarrow> (irtype \<times> bool) list" where
  "recordBelow shape = map (\<lambda>f. (sf_type f, \<not> shape_tuple shape)) (shape_fields shape) @
     (case shape_indexValue shape of None \<Rightarrow> [] | Some v \<Rightarrow> if v = Prim DynT then [] else [(v, True)])"

text \<open>The visited ids are threaded through; a false answer ends every enclosing loop, so nothing reads
  them after it. The fuel bounds the depth of the recursion; \<open>jsonFuel\<close> is enough.\<close>

fun isJsonSafeAt :: "nat \<Rightarrow> Registry \<Rightarrow> irtype \<Rightarrow> bool \<Rightarrow> jsstr list \<Rightarrow> (bool \<times> jsstr list) option"
and everyJsonSafe :: "nat \<Rightarrow> Registry \<Rightarrow> (irtype \<times> bool) list \<Rightarrow> jsstr list \<Rightarrow> (bool \<times> jsstr list) option" where
  "isJsonSafeAt 0 g t inField visiting = None"
| "isJsonSafeAt (Suc fuel) g t inField visiting =
    (case t of
       Prim p \<Rightarrow> Some (p \<in> {F64T, StringT, BoolT, NullT} \<or> p = UndefinedT \<and> inField, visiting)
     | ArrayT e \<Rightarrow> isJsonSafeAt fuel g e False visiting
     | RecordT s \<Rightarrow>
         (case getRecord g s of
            None \<Rightarrow> Some (False, visiting)
          | Some shape \<Rightarrow>
              if s \<in> set visiting then Some (True, visiting)
              else everyJsonSafe fuel g (recordBelow shape) (setAdd s visiting))
     | UnionT u \<Rightarrow>
         (case getUnion g u of
            None \<Rightarrow> Some (False, visiting)
          | Some arms \<Rightarrow>
              if unionVisitKey u inField \<in> set visiting then Some (True, visiting)
              else everyJsonSafe fuel g (map (\<lambda>a. (a, inField)) arms) (setAdd (unionVisitKey u inField) visiting))
     | _ \<Rightarrow> Some (False, visiting))"
| "everyJsonSafe fuel g [] visiting = Some (True, visiting)"
| "everyJsonSafe fuel g ((t, inField) # ts) visiting =
    (case isJsonSafeAt fuel g t inField visiting of
       None \<Rightarrow> None
     | Some (ok, v) \<Rightarrow> if ok then everyJsonSafe fuel g ts v else Some (False, v))"

text \<open>The fuel: one level per id that can still be visited, each followed by at most as many array levels as any
  type of the registries has.\<close>

fun arrayDepth :: "irtype \<Rightarrow> nat" where
  "arrayDepth (ArrayT e) = Suc (arrayDepth e)"
| "arrayDepth _ = 1"

definition shapeTypes :: "IrRecordShape \<Rightarrow> irtype list" where
  "shapeTypes sh = map sf_type (shape_fields sh) @ (case shape_indexValue sh of None \<Rightarrow> [] | Some v \<Rightarrow> [v])"

definition registryTypes :: "Registry \<Rightarrow> irtype list" where
  "registryTypes g = concat (map (shapeTypes \<circ> snd) (reg_records g)) @ concat (map snd (reg_unions g))"

definition maxDepth :: "Registry \<Rightarrow> nat" where
  "maxDepth g = foldr max (map arrayDepth (registryTypes g)) 0"

definition jsonFuel :: "Registry \<Rightarrow> irtype \<Rightarrow> nat" where
  "jsonFuel g t = Suc ((length (reg_records g) + 2 * length (reg_unions g)) * Suc (maxDepth g) + arrayDepth t)"

definition isJsonSafeType :: "Registry \<Rightarrow> irtype \<Rightarrow> bool" where
  "isJsonSafeType g t = (case isJsonSafeAt (jsonFuel g t) g t False [] of Some (ok, _) \<Rightarrow> ok | None \<Rightarrow> False)"

section \<open>What the JSON predicate answers\<close>

text \<open>A position is a type and whether it stands in a record field. What is below a position, and whether the position
  by itself is representable.\<close>

fun below :: "Registry \<Rightarrow> irtype \<times> bool \<Rightarrow> (irtype \<times> bool) list" where
  "below g (ArrayT e, fl) = [(e, False)]"
| "below g (RecordT s, fl) = (case getRecord g s of None \<Rightarrow> [] | Some shape \<Rightarrow> recordBelow shape)"
| "below g (UnionT u, fl) = (case getUnion g u of None \<Rightarrow> [] | Some arms \<Rightarrow> map (\<lambda>a. (a, fl)) arms)"
| "below g _ = []"

fun jsonHere :: "Registry \<Rightarrow> irtype \<times> bool \<Rightarrow> bool" where
  "jsonHere g (Prim p, fl) \<longleftrightarrow> p \<in> {F64T, StringT, BoolT, NullT} \<or> p = UndefinedT \<and> fl"
| "jsonHere g (ArrayT e, fl) \<longleftrightarrow> True"
| "jsonHere g (RecordT s, fl) \<longleftrightarrow> getRecord g s \<noteq> None"
| "jsonHere g (UnionT u, fl) \<longleftrightarrow> getUnion g u \<noteq> None"
| "jsonHere g _ \<longleftrightarrow> False"

inductive reaches :: "Registry \<Rightarrow> irtype \<times> bool \<Rightarrow> irtype \<times> bool \<Rightarrow> bool" for g where
  here: "reaches g p p"
| there: "q \<in> set (below g p) \<Longrightarrow> reaches g q r \<Longrightarrow> reaches g p r"

text \<open>A position that a set of visited ids accounts for, and ids whose positions have accounted contents.\<close>

fun accounted :: "Registry \<Rightarrow> jsstr set \<Rightarrow> irtype \<Rightarrow> bool \<Rightarrow> bool" where
  "accounted g V (ArrayT e) fl \<longleftrightarrow> accounted g V e False"
| "accounted g V (RecordT s) fl \<longleftrightarrow> getRecord g s \<noteq> None \<and> s \<in> V"
| "accounted g V (UnionT u) fl \<longleftrightarrow> getUnion g u \<noteq> None \<and> unionVisitKey u fl \<in> V"
| "accounted g V t fl \<longleftrightarrow> jsonHere g (t, fl)"

fun visitKey :: "irtype \<times> bool \<Rightarrow> jsstr option" where
  "visitKey (RecordT s, fl) = Some s"
| "visitKey (UnionT u, fl) = Some (unionVisitKey u fl)"
| "visitKey _ = None"

definition closedKeys :: "Registry \<Rightarrow> jsstr set \<Rightarrow> jsstr set \<Rightarrow> bool" where
  "closedKeys g W V \<longleftrightarrow> (\<forall>p k. visitKey p = Some k \<and> k \<in> W \<and> jsonHere g p \<longrightarrow> (\<forall>(t, fl) \<in> set (below g p). accounted g V t fl))"

definition plainIds :: "Registry \<Rightarrow> bool" where
  "plainIds g \<longleftrightarrow> (\<forall>s \<in> fst ` set (reg_records g). 58 \<notin> set s)"

lemma accounted_mono: "accounted g V t fl \<Longrightarrow> V \<subseteq> V' \<Longrightarrow> accounted g V' t fl"
  by (induction g V t fl rule: accounted.induct) auto

lemma closedKeys_mono: "closedKeys g W V \<Longrightarrow> V \<subseteq> V' \<Longrightarrow> closedKeys g W V'"
  unfolding closedKeys_def using accounted_mono by blast

lemma closedKeys_Un: "closedKeys g W V \<Longrightarrow> closedKeys g W' V \<Longrightarrow> closedKeys g (W \<union> W') V"
  unfolding closedKeys_def by blast

lemma closedKeys_empty [simp]: "closedKeys g {} V"
  by (simp add: closedKeys_def)

lemma unionVisitKey_colon: "58 \<in> set (unionVisitKey u fl)"
  by (simp add: unionVisitKey_def js_def)

lemma unionVisitKey_inj: "unionVisitKey u fl = unionVisitKey u' fl' \<Longrightarrow> u = u' \<and> fl = fl'"
proof -
  assume "unionVisitKey u fl = unionVisitKey u' fl'"
  then have "rev (unionVisitKey u fl) = rev (unionVisitKey u' fl')" by simp
  then show ?thesis by (simp add: unionVisitKey_def js_def split: if_splits)
qed

text \<open>The one position of a key, up to the flag of a record.\<close>

lemma closedKeys_record:
  assumes "plainIds g" "getRecord g s = Some shape" "\<forall>(t, fl) \<in> set (recordBelow shape). accounted g V t fl"
  shows "closedKeys g {s} V"
proof -
  have "58 \<notin> set s" using assms(1,2) by (force simp: plainIds_def dest: map_of_SomeD)
  then have "p = (RecordT s, snd p)" if "visitKey p = Some s" for p
    using that unionVisitKey_colon by (cases p rule: visitKey.cases) auto
  then show ?thesis using assms(2,3) unfolding closedKeys_def by (metis (no_types, lifting) below.simps(2) option.simps(5) singletonD)
qed

lemma closedKeys_union:
  assumes "plainIds g" "getUnion g u = Some arms" "\<forall>a \<in> set arms. accounted g V a fl"
  shows "closedKeys g {unionVisitKey u fl} V"
  unfolding closedKeys_def
proof (intro allI impI, elim conjE)
  fix p k
  assume p: "visitKey p = Some k" "k \<in> {unionVisitKey u fl}" "jsonHere g p"
  then have "p = (UnionT u, fl)"
  proof (cases p rule: visitKey.cases)
    case (1 s fl')
    then have "58 \<notin> set s" using p(3) assms(1) by (force simp: plainIds_def dest: map_of_SomeD)
    then show ?thesis using p(1,2) 1 unionVisitKey_colon by auto
  qed (use p unionVisitKey_inj in auto)
  then show "\<forall>(t, fl) \<in> set (below g p). accounted g V t fl" using assms(2,3) by auto
qed

lemma visited_grows:
  "isJsonSafeAt n g t fl V = Some (ok, V') \<Longrightarrow> set V \<subseteq> set V'"
  "everyJsonSafe n g ts V = Some (ok, V') \<Longrightarrow> set V \<subseteq> set V'"
proof (induction n g t fl V and n g ts V arbitrary: ok V' and ok V' rule: isJsonSafeAt_everyJsonSafe.induct)
  case (2 n g t fl V)
  then show ?case
    by (cases t) (auto split: option.splits if_splits)
next
  case (4 n g t fl ts V)
  then show ?case by (fastforce split: option.splits if_splits)
qed auto

lemma search_true:
  "isJsonSafeAt n g t fl V = Some (True, V') \<Longrightarrow> plainIds g \<Longrightarrow> accounted g (set V') t fl \<and> closedKeys g (set V' - set V) (set V')"
  "everyJsonSafe n g ts V = Some (True, V') \<Longrightarrow> plainIds g \<Longrightarrow>
     (\<forall>(t, fl) \<in> set ts. accounted g (set V') t fl) \<and> closedKeys g (set V' - set V) (set V')"
proof (induction n g t fl V and n g ts V arbitrary: V' and V' rule: isJsonSafeAt_everyJsonSafe.induct)
  case (2 n g t fl V)
  show ?case
  proof (cases t)
    case (RecordT s)
    then obtain shape where shape: "getRecord g s = Some shape" using "2.prems"(1) by (auto split: option.splits)
    show ?thesis
    proof (cases "s \<in> set V")
      case False
      then have run: "everyJsonSafe n g (recordBelow shape) (setAdd s V) = Some (True, V')" using "2.prems"(1) RecordT shape by simp
      have ih: "\<forall>(t, fl) \<in> set (recordBelow shape). accounted g (set V') t fl" "closedKeys g (set V' - set (setAdd s V)) (set V')"
        using "2.IH"(2) [OF RecordT shape False run "2.prems"(2)] by auto
      have "s \<in> set V'" using visited_grows(2) [OF run] by auto
      moreover have "closedKeys g (set V' - set V) (set V')"
      proof -
        have "closedKeys g ({s} \<union> (set V' - set (setAdd s V))) (set V')"
          using closedKeys_Un [OF closedKeys_record [OF "2.prems"(2) shape ih(1)] ih(2)] .
        moreover have "set V' - set V \<subseteq> {s} \<union> (set V' - set (setAdd s V))" by auto
        ultimately show ?thesis unfolding closedKeys_def by blast
      qed
      ultimately show ?thesis using RecordT shape by simp
    qed (use "2.prems"(1) RecordT shape in auto)
  next
    case (UnionT u)
    then obtain arms where arms: "getUnion g u = Some arms" using "2.prems"(1) by (auto split: option.splits)
    let ?k = "unionVisitKey u fl"
    show ?thesis
    proof (cases "?k \<in> set V")
      case False
      then have run: "everyJsonSafe n g (map (\<lambda>a. (a, fl)) arms) (setAdd ?k V) = Some (True, V')" using "2.prems"(1) UnionT arms by simp
      have ih: "\<forall>a \<in> set arms. accounted g (set V') a fl" "closedKeys g (set V' - set (setAdd ?k V)) (set V')"
        using "2.IH"(3) [OF UnionT arms False run "2.prems"(2)] by auto
      have "?k \<in> set V'" using visited_grows(2) [OF run] by auto
      moreover have "closedKeys g (set V' - set V) (set V')"
      proof -
        have "closedKeys g ({?k} \<union> (set V' - set (setAdd ?k V))) (set V')"
          using closedKeys_Un [OF closedKeys_union [OF "2.prems"(2) arms ih(1)] ih(2)] .
        moreover have "set V' - set V \<subseteq> {?k} \<union> (set V' - set (setAdd ?k V))" by auto
        ultimately show ?thesis unfolding closedKeys_def by blast
      qed
      ultimately show ?thesis using UnionT arms by simp
    qed (use "2.prems"(1) UnionT arms in auto)
  qed (use 2 in auto)
next
  case (4 n g t fl ts V)
  then obtain W where run: "isJsonSafeAt n g t fl V = Some (True, W)" "everyJsonSafe n g ts W = Some (True, V')"
    by (auto split: option.splits if_splits)
  have first: "accounted g (set W) t fl" "closedKeys g (set W - set V) (set W)" using "4.IH"(1) [OF run(1) "4.prems"(2)] by auto
  have rest: "\<forall>(t, fl) \<in> set ts. accounted g (set V') t fl" "closedKeys g (set V' - set W) (set V')"
    using "4.IH"(2) [OF run(1) refl TrueI run(2) "4.prems"(2)] by auto
  have le: "set W \<subseteq> set V'" using visited_grows(2) [OF run(2)] .
  have "closedKeys g ((set W - set V) \<union> (set V' - set W)) (set V')" using closedKeys_Un [OF closedKeys_mono [OF first(2) le] rest(2)] .
  then have "closedKeys g (set V' - set V) (set V')" unfolding closedKeys_def by blast
  then show ?case using accounted_mono [OF first(1) le] rest(1) by simp
qed auto

lemma search_false:
  "isJsonSafeAt n g t fl V = Some (False, V') \<Longrightarrow> \<exists>q. reaches g (t, fl) q \<and> \<not> jsonHere g q"
  "everyJsonSafe n g ts V = Some (False, V') \<Longrightarrow> \<exists>p \<in> set ts. \<exists>q. reaches g p q \<and> \<not> jsonHere g q"
proof (induction n g t fl V and n g ts V arbitrary: V' and V' rule: isJsonSafeAt_everyJsonSafe.induct)
  case (2 n g t fl V)
  have bad: "\<not> jsonHere g (t, fl) \<Longrightarrow> ?case" using reaches.here by blast
  have below: "\<exists>p \<in> set (below g (t, fl)). \<exists>q. reaches g p q \<and> \<not> jsonHere g q \<Longrightarrow> ?case" using reaches.there by blast
  show ?case
  proof (cases t)
    case (ArrayT e)
    then show ?thesis using below "2.IH"(1) "2.prems" by auto
  next
    case (RecordT s)
    show ?thesis
    proof (cases "getRecord g s")
      case (Some shape)
      then have new: "s \<notin> set V" and run: "everyJsonSafe n g (recordBelow shape) (setAdd s V) = Some (False, V')"
        using "2.prems" RecordT by (auto split: if_splits)
      show ?thesis using below "2.IH"(2) [OF RecordT Some new run] RecordT Some by simp
    qed (use bad RecordT in auto)
  next
    case (UnionT u)
    show ?thesis
    proof (cases "getUnion g u")
      case (Some arms)
      then have new: "unionVisitKey u fl \<notin> set V" and run: "everyJsonSafe n g (map (\<lambda>a. (a, fl)) arms) (setAdd (unionVisitKey u fl) V) = Some (False, V')"
        using "2.prems" UnionT by (auto split: if_splits)
      show ?thesis using below "2.IH"(3) [OF UnionT Some new run] UnionT Some by simp
    qed (use bad UnionT in auto)
  qed (use bad "2.prems" in auto)
next
  case (4 n g t fl ts V)
  obtain ok W where run: "isJsonSafeAt n g t fl V = Some (ok, W)" using "4.prems" by (auto split: option.splits)
  show ?case
  proof (cases ok)
    case True
    then show ?thesis using "4.IH"(2) [OF run refl True] "4.prems" run by auto
  next
    case False
    then show ?thesis using "4.IH"(1) run "4.prems" by auto
  qed
qed auto

lemma accounted_reach:
  assumes "closedKeys g V V" and "accounted g V (fst p) (snd p)" and "reaches g p q"
  shows "jsonHere g q"
proof -
  have here: "accounted g V t fl \<Longrightarrow> jsonHere g (t, fl)" for t fl by (cases t) auto
  have step: "\<forall>(t, fl) \<in> set (below g (t, fl)). accounted g V t fl" if "accounted g V t fl" for t fl
  proof (cases t)
    case (RecordT s)
    then show ?thesis using that assms(1) here [OF that] unfolding closedKeys_def by (metis accounted.simps(2) visitKey.simps(1))
  next
    case (UnionT u)
    then show ?thesis using that assms(1) here [OF that] unfolding closedKeys_def by (metis accounted.simps(3) visitKey.simps(2))
  qed (use that in auto)
  from assms(3,2) show ?thesis
  proof (induction rule: reaches.induct)
    case (here p)
    then show ?case using \<open>\<And>t fl. accounted g V t fl \<Longrightarrow> jsonHere g (t, fl)\<close> [of "fst p" "snd p"] by simp
  next
    case (there q p r)
    then show ?case using step [of "fst p" "snd p"] by auto
  qed
qed

section \<open>The search returns\<close>

definition allKeys :: "Registry \<Rightarrow> jsstr set" where
  "allKeys g = fst ` set (reg_records g) \<union> (\<lambda>(u, fl). unionVisitKey u fl) ` (fst ` set (reg_unions g) \<times> UNIV)"

lemma finite_allKeys [simp]: "finite (allKeys g)"
  by (simp add: allKeys_def)

lemma card_allKeys: "card (allKeys g) \<le> length (reg_records g) + 2 * length (reg_unions g)"
proof -
  have "card (fst ` set (reg_records g)) \<le> length (reg_records g)"
    using card_image_le [of "set (reg_records g)" fst] card_length [of "reg_records g"] by simp
  moreover have "card ((\<lambda>(u, fl). unionVisitKey u fl) ` (fst ` set (reg_unions g) \<times> (UNIV :: bool set))) \<le> card (fst ` set (reg_unions g)) * 2"
    using card_image_le [of "fst ` set (reg_unions g) \<times> (UNIV :: bool set)" "\<lambda>(u, fl). unionVisitKey u fl"] by (simp add: card_cartesian_product)
  moreover have "card (fst ` set (reg_unions g)) \<le> length (reg_unions g)"
    using card_image_le [of "set (reg_unions g)" fst] card_length [of "reg_unions g"] by simp
  ultimately show ?thesis unfolding allKeys_def using card_Un_le [of "fst ` set (reg_records g)" "(\<lambda>(u, fl). unionVisitKey u fl) ` (fst ` set (reg_unions g) \<times> UNIV)"] by linarith
qed

lemma depth_pos: "0 < arrayDepth t"
  by (cases t) auto

lemma le_foldr_max: "x \<in> set xs \<Longrightarrow> x \<le> foldr max xs (0 :: nat)"
  by (induction xs) auto

lemma depth_registry: "t \<in> set (registryTypes g) \<Longrightarrow> arrayDepth t \<le> maxDepth g"
  unfolding maxDepth_def by (rule le_foldr_max) simp

lemma depth_record: "getRecord g s = Some shape \<Longrightarrow> (t, fl) \<in> set (recordBelow shape) \<Longrightarrow> arrayDepth t \<le> maxDepth g"
  by (rule depth_registry)
     (force simp: registryTypes_def recordBelow_def shapeTypes_def dest: map_of_SomeD split: option.splits if_splits)

lemma depth_union: "getUnion g u = Some arms \<Longrightarrow> t \<in> set arms \<Longrightarrow> arrayDepth t \<le> maxDepth g"
  by (rule depth_registry) (force simp: registryTypes_def dest: map_of_SomeD)

lemma fresh_key: "k \<in> allKeys g \<Longrightarrow> k \<notin> set V \<Longrightarrow> Suc (card (allKeys g - set (setAdd k V))) \<le> card (allKeys g - set V)"
  using psubset_card_mono [of "allKeys g - set V" "allKeys g - set (setAdd k V)"] by (simp add: Suc_le_eq) blast

lemma fewer_keys: "set V \<subseteq> set W \<Longrightarrow> card (allKeys g - set W) \<le> card (allKeys g - set V)"
  by (rule card_mono) auto

lemma search_returns:
  "card (allKeys g - set V) * Suc (maxDepth g) + arrayDepth t < n \<Longrightarrow> isJsonSafeAt n g t fl V \<noteq> None"
  "card (allKeys g - set V) * Suc (maxDepth g) + maxDepth g < n \<Longrightarrow> \<forall>(t, fl) \<in> set ts. arrayDepth t \<le> maxDepth g \<Longrightarrow> everyJsonSafe n g ts V \<noteq> None"
proof (induction n g t fl V and n g ts V rule: isJsonSafeAt_everyJsonSafe.induct)
  case (2 n g t fl V)
  have room: "card (allKeys g - set (setAdd k V)) * Suc (maxDepth g) + maxDepth g < n" if "k \<in> allKeys g" "k \<notin> set V" for k
  proof -
    have "Suc (card (allKeys g - set (setAdd k V))) * Suc (maxDepth g) \<le> card (allKeys g - set V) * Suc (maxDepth g)"
      using fresh_key [OF that] by (rule mult_le_mono1)
    then show ?thesis using "2.prems" depth_pos [of t] by simp
  qed
  show ?case
  proof (cases t)
    case (ArrayT e)
    then show ?thesis using "2.IH"(1) [OF ArrayT] "2.prems" by simp
  next
    case (RecordT s)
    show ?thesis
    proof (cases "getRecord g s")
      case (Some shape)
      have key: "s \<in> allKeys g" using Some by (force simp: allKeys_def dest: map_of_SomeD)
      show ?thesis
        using "2.IH"(2) [OF RecordT Some _ room [OF key]] depth_record [OF Some] RecordT Some by (cases "s \<in> set V") auto
    qed (use RecordT in simp)
  next
    case (UnionT u)
    show ?thesis
    proof (cases "getUnion g u")
      case (Some arms)
      have key: "unionVisitKey u fl \<in> allKeys g" using Some by (force simp: allKeys_def dest: map_of_SomeD)
      show ?thesis
        using "2.IH"(3) [OF UnionT Some _ room [OF key]] depth_union [OF Some] UnionT Some by (cases "unionVisitKey u fl \<in> set V") auto
    qed (use UnionT in simp)
  qed auto
next
  case (4 n g t fl ts V)
  have "card (allKeys g - set V) * Suc (maxDepth g) + arrayDepth t < n" using "4.prems" by auto
  then obtain ok W where run: "isJsonSafeAt n g t fl V = Some (ok, W)" using "4.IH"(1) by auto
  have "card (allKeys g - set W) * Suc (maxDepth g) + maxDepth g < n"
    using mult_le_mono1 [OF fewer_keys [OF visited_grows(1) [OF run], of g], of "Suc (maxDepth g)"] "4.prems"(1) by linarith
  then show ?case using "4.IH"(2) [OF run refl] "4.prems"(2) run by (cases ok) auto
qed auto

lemma jsonFuel_enough: "isJsonSafeAt (jsonFuel g t) g t False [] \<noteq> None"
proof (rule search_returns(1))
  show "card (allKeys g - set []) * Suc (maxDepth g) + arrayDepth t < jsonFuel g t"
    using mult_le_mono1 [OF card_allKeys, of g "Suc (maxDepth g)"] by (simp add: jsonFuel_def)
qed

section \<open>Properties\<close>

text \<open>C14. The JSON predicate is exact: for registries whose shape ids contain no colon, the search with visited ids
  returns, and answers true exactly when everything reachable from the type, through array elements,
  record fields, index values and union arms, is representable where it stands. Recursive types are
  answered by the rest of their graph.\<close>

theorem jsonSafe_exact:
  assumes "plainIds g"
  shows "isJsonSafeAt (jsonFuel g t) g t False [] \<noteq> None \<and> (isJsonSafeType g t \<longleftrightarrow> (\<forall>q. reaches g (t, False) q \<longrightarrow> jsonHere g q))"
proof
  show returns: "isJsonSafeAt (jsonFuel g t) g t False [] \<noteq> None" by (rule jsonFuel_enough)
  then obtain ok V where run: "isJsonSafeAt (jsonFuel g t) g t False [] = Some (ok, V)" by auto
  show "isJsonSafeType g t \<longleftrightarrow> (\<forall>q. reaches g (t, False) q \<longrightarrow> jsonHere g q)"
  proof (cases ok)
    case True
    have "isJsonSafeAt (jsonFuel g t) g t False [] = Some (True, V)" using run True by simp
    from search_true(1) [OF this assms] have "accounted g (set V) t False" "closedKeys g (set V) (set V)" by auto
    then show ?thesis using accounted_reach [of g "set V" "(t, False)"] run True by (simp add: isJsonSafeType_def)
  next
    case False
    have bad: "isJsonSafeAt (jsonFuel g t) g t False [] = Some (False, V)" using run False by simp
    then have "\<not> isJsonSafeType g t" by (simp add: isJsonSafeType_def)
    then show ?thesis using search_false(1) [OF bad] by blast
  qed
qed

text \<open>A list of numbers as a recursive record, and the same with a function beside it.\<close>

definition listShape :: "irtype list \<Rightarrow> Registry" where
  "listShape extra = \<lparr> reg_records = [(js ''r0'', \<lparr> shape_id = js ''r0'',
       shape_fields = [\<lparr> sf_name = js ''head'', sf_type = Prim F64T, sf_optional = False, sf_internal = False \<rparr>,
                       \<lparr> sf_name = js ''tail'', sf_type = UnionT (js ''u0''), sf_optional = True, sf_internal = False \<rparr>],
       shape_tuple = False, shape_indexValue = None, shape_declaredOrder = Some [js ''head'', js ''tail''] \<rparr>)],
     reg_unions = [(js ''u0'', [RecordT (js ''r0''), Prim UndefinedT] @ extra)] \<rparr>"

theorem jsonSafe_exact_witness:
  "plainIds (listShape []) \<and> isJsonSafeType (listShape []) (RecordT (js ''r0'')) \<and> jsonHere (listShape []) (Prim UndefinedT, True)
   \<and> \<not> isJsonSafeType (listShape [FuncT [] (Prim VoidT) False False]) (RecordT (js ''r0''))"
proof -
  have plain: "plainIds (listShape extra)" for extra by (simp add: plainIds_def listShape_def js_def)
  have safe: "isJsonSafeType (listShape []) (RecordT (js ''r0''))" by code_simp
  let ?g = "listShape [FuncT [] (Prim VoidT) False False]"
  have shape: "below (listShape extra) (RecordT (js ''r0''), False) = [(Prim F64T, True), (UnionT (js ''u0''), True)]"
    "below (listShape extra) (UnionT (js ''u0''), True) = (RecordT (js ''r0''), True) # (Prim UndefinedT, True) # map (\<lambda>a. (a, True)) extra" for extra
    by (simp_all add: listShape_def recordBelow_def)
  have tail: "(UnionT (js ''u0''), True) \<in> set (below (listShape extra) (RecordT (js ''r0''), False))" for extra unfolding shape by simp
  have arm: "(a, True) \<in> set (below (listShape extra) (UnionT (js ''u0''), True))" if "a \<in> set extra \<or> a = Prim UndefinedT" for a extra
    unfolding shape using that by auto
  have undef: "reaches (listShape []) (RecordT (js ''r0''), False) (Prim UndefinedT, True)"
    by (rule reaches.there [OF tail reaches.there [OF arm reaches.here]]) simp
  have func: "reaches ?g (RecordT (js ''r0''), False) (FuncT [] (Prim VoidT) False False, True)"
    by (rule reaches.there [OF tail reaches.there [OF arm reaches.here]]) simp
  have "jsonHere (listShape []) (Prim UndefinedT, True)" using jsonSafe_exact [OF plain, of "[]" "RecordT (js ''r0'')"] safe undef by blast
  moreover have "\<not> isJsonSafeType ?g (RecordT (js ''r0''))"
    using jsonSafe_exact [OF plain, of "[FuncT [] (Prim VoidT) False False]" "RecordT (js ''r0'')"] func by fastforce
  ultimately show ?thesis using plain safe by blast
qed

end
