(* ===== verification/Ir_Keys.thy ===== *)
theory Ir_Keys
  imports Ir_Types
begin

text \<open>
  The key of a type determines the type (\<open>ir/nodes.ts\<close>, \<open>typeKey\<close> and \<open>typeEquals\<close>). Keys are read back from
  the left: the word of the kind ends at the first bracket, colon or separator, and the parts of a
  composite end at the separators of their own level, as long as the names and ids inside contain none.

  The key keeps the convention of a rest parameter and the equality of types does not look at it; apart
  from that the two agree.
\<close>

section \<open>Names and conventions\<close>

text \<open>The characters that may follow a key inside another: a comma, a closing angle bracket, a closing parenthesis.\<close>

definition stops :: "16 word set" where
  "stops = {44, 62, 41}"

definition plainName :: "jsstr \<Rightarrow> bool" where
  "plainName c \<longleftrightarrow> set c \<inter> stops = {}"

fun namesOk :: "irtype \<Rightarrow> bool" where
  "namesOk (ArrayT e) \<longleftrightarrow> namesOk e"
| "namesOk (MapT k v) \<longleftrightarrow> namesOk k \<and> namesOk v"
| "namesOk (SetT e) \<longleftrightarrow> namesOk e"
| "namesOk (FuncT ps r rest abi) \<longleftrightarrow> (\<forall>p \<in> set ps. namesOk p) \<and> namesOk r"
| "namesOk (ObjectT c) \<longleftrightarrow> plainName c"
| "namesOk (ClassvalT c) \<longleftrightarrow> plainName c"
| "namesOk (RecordT c) \<longleftrightarrow> plainName c"
| "namesOk (UnionT c) \<longleftrightarrow> plainName c"
| "namesOk (PromiseT t) \<longleftrightarrow> namesOk t"
| "namesOk (GeneratorT y r n) \<longleftrightarrow> namesOk y \<and> namesOk r \<and> namesOk n"
| "namesOk _ \<longleftrightarrow> True"

text \<open>The type with the conventions of its rest parameters replaced: \<open>withAbi f\<close> maps the flag of each variadic function, and a function
  without a rest parameter has none.\<close>

fun withAbi :: "(bool \<Rightarrow> bool) \<Rightarrow> irtype \<Rightarrow> irtype" where
  "withAbi f (ArrayT e) = ArrayT (withAbi f e)"
| "withAbi f (MapT k v) = MapT (withAbi f k) (withAbi f v)"
| "withAbi f (SetT e) = SetT (withAbi f e)"
| "withAbi f (FuncT ps r rest abi) = FuncT (map (withAbi f) ps) (withAbi f r) rest (rest \<and> f abi)"
| "withAbi f (PromiseT t) = PromiseT (withAbi f t)"
| "withAbi f (GeneratorT y r n) = GeneratorT (withAbi f y) (withAbi f r) (withAbi f n)"
| "withAbi f t = t"

abbreviation canon :: "irtype \<Rightarrow> irtype" where
  "canon \<equiv> withAbi (\<lambda>b. b)"

abbreviation erased :: "irtype \<Rightarrow> irtype" where
  "erased \<equiv> withAbi (\<lambda>b. False)"

lemma erased_canon: "erased (canon t) = erased t"
  by (induction t) auto

section \<open>The word of a kind\<close>

fun kindWord :: "irtype \<Rightarrow> string" where
  "kindWord (Prim p) = primWord p"
| "kindWord (ArrayT e) = ''array''"
| "kindWord (BytesT e) = ''bytes''"
| "kindWord (MapT k v) = ''map''"
| "kindWord (SetT e) = ''set''"
| "kindWord (FuncT ps r rest abi) = ''func''"
| "kindWord (ObjectT c) = ''object''"
| "kindWord (ClassvalT c) = ''classval''"
| "kindWord (RecordT s) = ''record''"
| "kindWord (UnionT u) = ''union''"
| "kindWord (PromiseT t) = ''promise''"
| "kindWord (GeneratorT y r n) = ''generator''"

definition openers :: "16 word set" where
  "openers = {40, 58, 60} \<union> stops"

definition sameKind :: "irtype \<Rightarrow> irtype \<Rightarrow> bool" where
  "sameKind a b =
    (case a of Prim p \<Rightarrow> b = Prim p | ArrayT _ \<Rightarrow> \<exists>e. b = ArrayT e | BytesT _ \<Rightarrow> \<exists>e. b = BytesT e | MapT _ _ \<Rightarrow> \<exists>k v. b = MapT k v
     | SetT _ \<Rightarrow> \<exists>e. b = SetT e | FuncT _ _ _ _ \<Rightarrow> \<exists>ps r rest abi. b = FuncT ps r rest abi | ObjectT _ \<Rightarrow> \<exists>c. b = ObjectT c
     | ClassvalT _ \<Rightarrow> \<exists>c. b = ClassvalT c | RecordT _ \<Rightarrow> \<exists>c. b = RecordT c | UnionT _ \<Rightarrow> \<exists>c. b = UnionT c
     | PromiseT _ \<Rightarrow> \<exists>t. b = PromiseT t | GeneratorT _ _ _ \<Rightarrow> \<exists>y r n. b = GeneratorT y r n)"

lemma primWord_other:
  "primWord p \<notin> {''array'', ''bytes'', ''map'', ''set'', ''func'', ''object'', ''classval'', ''record'', ''union'', ''promise'', ''generator''}"
  by (cases p) simp_all

lemma primWord_inj: "primWord p = primWord q \<Longrightarrow> p = q"
  by (cases p; cases q; simp)

lemma kindWord_same: "kindWord a = kindWord b \<Longrightarrow> sameKind a b"
proof (cases a)
  case (Prim p)
  then show "kindWord a = kindWord b \<Longrightarrow> sameKind a b" using primWord_other [of p] by (cases b) (auto simp: sameKind_def dest: primWord_inj)
qed (use primWord_other in \<open>cases b; fastforce simp: sameKind_def\<close>)+

lemma primWord_plain: "set (js (primWord p)) \<inter> openers = {}"
  by (cases p) (simp_all add: js_def openers_def stops_def)

lemma word_head:
  assumes "x = [] \<or> hd x \<in> stops"
  shows "takeWhile (\<lambda>c. c \<notin> openers) (typeKey a @ x) = js (kindWord a)"
proof -
  have prim: "takeWhile (\<lambda>c. c \<notin> openers) (js (primWord p) @ x) = js (primWord p)" for p
  proof -
    have "takeWhile (\<lambda>c. c \<notin> openers) x = []" using assms by (cases x) (auto simp: openers_def)
    moreover have "takeWhile (\<lambda>c. c \<notin> openers) (js (primWord p) @ x) = js (primWord p) @ takeWhile (\<lambda>c. c \<notin> openers) x"
      using primWord_plain by (intro takeWhile_append2) blast
    ultimately show ?thesis by simp
  qed
  show ?thesis
  proof (cases a)
    case (Prim p)
    then show ?thesis using prim by simp
  qed (simp_all add: js_def openers_def stops_def)
qed

lemma key_head: "typeKey a \<noteq> [] \<and> hd (typeKey a) \<notin> {41, 44, 46, 62}"
proof (cases a)
  case (Prim p)
  then show ?thesis by (cases p) (simp_all add: js_def)
qed (simp_all add: js_def)

section \<open>Reading a key back\<close>

lemma name_prefix:
  assumes "plainName c" "plainName d" "x = [] \<or> hd x \<in> stops" "y = [] \<or> hd y \<in> stops" "c @ x = d @ y"
  shows "c = d \<and> x = y"
proof -
  have read: "takeWhile (\<lambda>v. v \<notin> stops) (e @ z) = e" if "plainName e" "z = [] \<or> hd z \<in> stops" for e z
  proof -
    have "takeWhile (\<lambda>v. v \<notin> stops) z = []" using that(2) by (cases z) auto
    moreover have "takeWhile (\<lambda>v. v \<notin> stops) (e @ z) = e @ takeWhile (\<lambda>v. v \<notin> stops) z"
      using that(1) by (intro takeWhile_append2) (auto simp: plainName_def)
    ultimately show ?thesis by simp
  qed
  have "c = d" using read [OF assms(1,3)] read [OF assms(2,4)] assms(5) by simp
  then show ?thesis using assms(5) by simp
qed

text \<open>The key of \<open>a\<close> can be split off from whatever a separator begins.\<close>

definition keyReadable :: "irtype \<Rightarrow> bool" where
  "keyReadable a \<longleftrightarrow> (\<forall>b x y. namesOk b \<and> (x = [] \<or> hd x \<in> stops) \<and> (y = [] \<or> hd y \<in> stops) \<and> typeKey a @ x = typeKey b @ y \<longrightarrow> canon a = canon b \<and> x = y)"

lemma keyReadableD:
  "keyReadable a \<Longrightarrow> typeKey a @ c # x = typeKey b @ c' # y \<Longrightarrow> namesOk b \<Longrightarrow> c \<in> stops \<Longrightarrow> c' \<in> stops \<Longrightarrow> canon a = canon b \<and> c = c' \<and> x = y"
  unfolding keyReadable_def by (metis list.inject list.sel(1))

text \<open>The elements of a parameter list, each after a comma, up to the closing parenthesis.\<close>

definition commas :: "jsstr list \<Rightarrow> jsstr" where
  "commas xs = concat (map (\<lambda>x. 44 # x) xs)"

lemma commas_simps [simp]: "commas [] = []" "commas (x # xs) = 44 # x @ commas xs"
  by (simp_all add: commas_def)

lemma commas_join: "xs \<noteq> [] \<Longrightarrow> 44 # join [44] xs = commas xs"
  by (induction "[44 :: 16 word]" xs rule: join.induct) auto

definition restKeys :: "bool \<Rightarrow> bool \<Rightarrow> jsstr list" where
  "restKeys rest abi = (if rest then [restKey abi] else [])"

lemma commas_close: "\<exists>c z. commas xs @ 41 # x = c # z \<and> c \<in> stops"
  by (cases xs) (auto simp: stops_def)

lemma restKey_head: "hd (restKey abi) = 46 \<and> restKey abi \<noteq> []"
  by (simp add: restKey_def js_def)

text \<open>A parameter is not mistaken for the end of the list or for the rest parameter.\<close>

lemma param_head: "commas (restKeys rest abi) @ 41 # x \<noteq> 44 # typeKey q @ z"
proof
  assume eq: "commas (restKeys rest abi) @ 41 # x = 44 # typeKey q @ z"
  then have "restKey abi @ 41 # x = typeKey q @ z" by (cases rest) (simp_all add: restKeys_def)
  then have "hd (restKey abi @ 41 # x) = hd (typeKey q @ z)" by simp
  then show False using key_head [of q] restKey_head [of abi] by simp
qed

lemma rest_read:
  assumes "commas (restKeys rest abi) @ 41 # x = commas (restKeys rest' abi') @ 41 # y"
  shows "rest = rest' \<and> (rest \<and> abi) = (rest' \<and> abi') \<and> x = y"
  using assms by (cases rest; cases rest'; cases abi; cases abi') (simp_all add: restKeys_def restKey_def js_def)

lemma params_read:
  assumes "\<forall>p \<in> set ps. keyReadable p" "\<forall>q \<in> set qs. namesOk q"
    "commas (map typeKey ps @ restKeys rest abi) @ 41 # x = commas (map typeKey qs @ restKeys rest' abi') @ 41 # y"
  shows "map canon ps = map canon qs \<and> rest = rest' \<and> (rest \<and> abi) = (rest' \<and> abi') \<and> x = y"
  using assms
proof (induction ps arbitrary: qs)
  case Nil
  show ?case
  proof (cases qs)
    case Nil
    have "rest = rest' \<and> (rest \<and> abi) = (rest' \<and> abi') \<and> x = y"
      using Nil.prems(3) by (intro rest_read) (simp add: Nil)
    then show ?thesis by (auto simp: Nil)
  next
    case (Cons q qs')
    then have "commas (restKeys rest abi) @ 41 # x = 44 # typeKey q @ commas (map typeKey qs' @ restKeys rest' abi') @ 41 # y"
      using Nil.prems(3) by (simp only: list.map append_Nil append_Cons append_assoc commas_simps)
    then show ?thesis using param_head by blast
  qed
next
  case (Cons p ps)
  show ?case
  proof (cases qs)
    case Nil
    then have "44 # typeKey p @ commas (map typeKey ps @ restKeys rest abi) @ 41 # x = commas (restKeys rest' abi') @ 41 # y"
      using Cons.prems(3) by (simp only: list.map append_Nil append_Cons append_assoc commas_simps)
    then show ?thesis using param_head [of rest' abi' y p] by metis
  next
    case qs: (Cons q qs')
    obtain c z where z: "commas (map typeKey ps @ restKeys rest abi) @ 41 # x = c # z" "c \<in> stops" using commas_close by blast
    obtain d w where w: "commas (map typeKey qs' @ restKeys rest' abi') @ 41 # y = d # w" "d \<in> stops" using commas_close by blast
    have "typeKey p @ c # z = typeKey q @ d # w" using Cons.prems(3) qs z(1) w(1) by simp
    then have "canon p = canon q \<and> c = d \<and> z = w" using keyReadableD Cons.prems(1,2) qs z(2) w(2) by auto
    then have pq: "canon p = canon q" and rest: "commas (map typeKey ps @ restKeys rest abi) @ 41 # x = commas (map typeKey qs' @ restKeys rest' abi') @ 41 # y"
      using z(1) w(1) by simp_all
    have "map canon ps = map canon qs' \<and> rest = rest' \<and> (rest \<and> abi) = (rest' \<and> abi') \<and> x = y"
      by (rule Cons.IH [OF _ _ rest]) (use Cons.prems(1,2) qs in simp_all)
    then show ?thesis using pq qs by auto
  qed
qed

lemma keyReadableI:
  assumes "\<And>b x y. namesOk b \<Longrightarrow> sameKind a b \<Longrightarrow> x = [] \<or> hd x \<in> stops \<Longrightarrow> y = [] \<or> hd y \<in> stops \<Longrightarrow> typeKey a @ x = typeKey b @ y \<Longrightarrow> canon a = canon b \<and> x = y"
  shows "keyReadable a"
  unfolding keyReadable_def
proof (intro allI impI, elim conjE)
  fix b x y
  assume b: "namesOk b" and x: "x = [] \<or> hd x \<in> stops" and y: "y = [] \<or> hd y \<in> stops" and eq: "typeKey a @ x = typeKey b @ y"
  have "js (kindWord a) = js (kindWord b)" using word_head [OF x, of a] word_head [OF y, of b] eq by simp
  then show "canon a = canon b \<and> x = y" using assms [OF b _ x y eq] kindWord_same js_inj by blast
qed

lemma join_head: "zs \<noteq> [] \<Longrightarrow> \<forall>k \<in> set zs. k \<noteq> [] \<and> hd k \<noteq> 41 \<Longrightarrow> hd (join [44] zs @ z) \<noteq> (41 :: 16 word)"
  by (induction "[44 :: 16 word]" zs rule: join.induct) auto

lemma param_heads: "\<forall>k \<in> set (map typeKey us @ restKeys v w). k \<noteq> [] \<and> hd k \<noteq> 41"
  using key_head restKey_head [of w] by (auto simp: restKeys_def)

lemma func_read:
  assumes "\<forall>p \<in> set ps. keyReadable p" "keyReadable r"
  shows "keyReadable (FuncT ps r rest abi)"
proof (rule keyReadableI)
  fix b x y
  assume b: "namesOk b" "sameKind (FuncT ps r rest abi) b" and x: "x = [] \<or> hd x \<in> stops" and y: "y = [] \<or> hd y \<in> stops"
    and eq: "typeKey (FuncT ps r rest abi) @ x = typeKey b @ y"
  then obtain qs r' rest' abi' where q: "b = FuncT qs r' rest' abi'" by (auto simp: sameKind_def)
  let ?L = "map typeKey ps @ restKeys rest abi" and ?R = "map typeKey qs @ restKeys rest' abi'"
  have j: "join [44] ?L @ 41 # 61 # 62 # typeKey r @ x = join [44] ?R @ 41 # 61 # 62 # typeKey r' @ y"
    using eq q by (simp add: js_def restKeys_def)
  have "?L = [] \<longleftrightarrow> ?R = []"
    using join_head [OF _ param_heads, of ps rest abi] join_head [OF _ param_heads, of qs rest' abi'] j by (metis append_Nil join.simps(1) list.sel(1))
  then have "commas ?L @ 41 # 61 # 62 # typeKey r @ x = commas ?R @ 41 # 61 # 62 # typeKey r' @ y"
    using j commas_join [of ?L] commas_join [of ?R] by (cases "?L = []") (metis append_Cons commas_simps(1) join.simps(1))+
  then have parts: "map canon ps = map canon qs \<and> rest = rest' \<and> (rest \<and> abi) = (rest' \<and> abi') \<and> 61 # 62 # typeKey r @ x = 61 # 62 # typeKey r' @ y"
    by (rule params_read [OF assms(1), rotated]) (use b(1) q in simp)
  then have tail: "typeKey r @ x = typeKey r' @ y" by simp
  have "namesOk r'" using b(1) q by simp
  then have "canon r = canon r' \<and> x = y" using assms(2) x y tail unfolding keyReadable_def by blast
  then show "canon (FuncT ps r rest abi) = canon b \<and> x = y" using parts q by auto
qed

lemma stop_chars: "44 \<in> stops" "62 \<in> stops" "41 \<in> stops"
  by (simp_all add: stops_def)

text \<open>The two repeated forms: one part in angle brackets, and a name.\<close>

lemma bracket_read:
  assumes e: "keyReadable e" and key: "\<And>d. typeKey (C d) = w @ typeKey d @ [62]" and same: "\<And>b. sameKind (C e) b \<Longrightarrow> \<exists>d. b = C d"
    and names: "\<And>d. namesOk (C d) = namesOk d" and can: "\<And>d. canon (C d) = C (canon d)"
  shows "keyReadable (C e)"
proof (rule keyReadableI)
  fix b x y
  assume "namesOk b" "sameKind (C e) b" "typeKey (C e) @ x = typeKey b @ y"
  then obtain d where b: "b = C d" "namesOk d" "typeKey e @ 62 # x = typeKey d @ 62 # y" using same key names by force
  have "canon e = canon d \<and> 62 = (62 :: 16 word) \<and> x = y" by (rule keyReadableD [OF e b(3,2) stop_chars(2,2)])
  then show "canon (C e) = canon b \<and> x = y" using b(1) can by simp
qed

lemma name_read:
  assumes c: "plainName c" and key: "\<And>d. typeKey (C d) = w @ d" and same: "\<And>b. sameKind (C c) b \<Longrightarrow> \<exists>d. b = C d"
    and names: "\<And>d. namesOk (C d) = plainName d"
  shows "keyReadable (C c)"
proof (rule keyReadableI)
  fix b x y
  assume b: "namesOk b" "sameKind (C c) b" and xy: "x = [] \<or> hd x \<in> stops" "y = [] \<or> hd y \<in> stops" and eq: "typeKey (C c) @ x = typeKey b @ y"
  obtain d where d: "b = C d" using same b(2) by blast
  have "c = d \<and> x = y" by (rule name_prefix [OF c _ xy]) (use b(1) d names eq key in auto)
  then show "canon (C c) = canon b \<and> x = y" using d by simp
qed

lemma key_read: "namesOk a \<Longrightarrow> keyReadable a"
proof (induction a)
  case (FuncT ps r rest abi)
  then show ?case by (intro func_read) auto
next
  case (MapT k v)
  show ?case
  proof (rule keyReadableI)
    fix b x y
    assume "namesOk b" "sameKind (MapT k v) b" "typeKey (MapT k v) @ x = typeKey b @ y"
    then obtain k' v' where b: "b = MapT k' v'" "namesOk k'" "namesOk v'" "typeKey k @ 44 # typeKey v @ 62 # x = typeKey k' @ 44 # typeKey v' @ 62 # y"
      by (auto simp: sameKind_def js_def)
    have "canon k = canon k' \<and> 44 = (44 :: 16 word) \<and> typeKey v @ 62 # x = typeKey v' @ 62 # y"
      by (rule keyReadableD [OF _ b(4,2) stop_chars(1,1)]) (use MapT in auto)
    moreover from this have "canon v = canon v' \<and> 62 = (62 :: 16 word) \<and> x = y"
      by (intro keyReadableD [OF _ _ b(3) stop_chars(2,2)]) (use MapT in auto)
    ultimately show "canon (MapT k v) = canon b \<and> x = y" using b(1) by simp
  qed
next
  case (GeneratorT u v w)
  show ?case
  proof (rule keyReadableI)
    fix b x y
    assume "namesOk b" "sameKind (GeneratorT u v w) b" "typeKey (GeneratorT u v w) @ x = typeKey b @ y"
    then obtain u' v' w' where b: "b = GeneratorT u' v' w'" "namesOk u'" "namesOk v'" "namesOk w'"
      "typeKey u @ 44 # typeKey v @ 44 # typeKey w @ 62 # x = typeKey u' @ 44 # typeKey v' @ 44 # typeKey w' @ 62 # y"
      by (auto simp: sameKind_def js_def)
    have "canon u = canon u' \<and> 44 = (44 :: 16 word) \<and> typeKey v @ 44 # typeKey w @ 62 # x = typeKey v' @ 44 # typeKey w' @ 62 # y"
      by (rule keyReadableD [OF _ b(5,2) stop_chars(1,1)]) (use GeneratorT in auto)
    moreover from this have "canon v = canon v' \<and> 44 = (44 :: 16 word) \<and> typeKey w @ 62 # x = typeKey w' @ 62 # y"
      by (intro keyReadableD [OF _ _ b(3) stop_chars(1,1)]) (use GeneratorT in auto)
    moreover from this have "canon w = canon w' \<and> 62 = (62 :: 16 word) \<and> x = y"
      by (intro keyReadableD [OF _ _ b(4) stop_chars(2,2)]) (use GeneratorT in auto)
    ultimately show "canon (GeneratorT u v w) = canon b \<and> x = y" using b(1) by simp
  qed
next
  case (BytesT e)
  show ?case
  proof (rule keyReadableI)
    fix b x y
    assume "sameKind (BytesT e) b" "typeKey (BytesT e) @ x = typeKey b @ y"
    then obtain d where b: "b = BytesT d" "js (bytesWord e) @ 62 # x = js (bytesWord d) @ 62 # y" by (auto simp: sameKind_def js_def)
    then show "canon (BytesT e) = canon b \<and> x = y" by (cases e; cases d) (simp_all add: js_def)
  qed
next
  case (Prim p)
  show ?case by (rule keyReadableI) (auto simp: sameKind_def)
next
  case (ArrayT e)
  then show ?case by (intro bracket_read [where C = ArrayT and w = "js ''array<''"]) (auto simp: js_def sameKind_def)
next
  case (SetT e)
  then show ?case by (intro bracket_read [where C = SetT and w = "js ''set<''"]) (auto simp: js_def sameKind_def)
next
  case (PromiseT e)
  then show ?case by (intro bracket_read [where C = PromiseT and w = "js ''promise<''"]) (auto simp: js_def sameKind_def)
next
  case (ObjectT c)
  then show ?case by (intro name_read [where C = ObjectT and w = "js ''object:''"]) (auto simp: sameKind_def)
next
  case (ClassvalT c)
  then show ?case by (intro name_read [where C = ClassvalT and w = "js ''classval:''"]) (auto simp: sameKind_def)
next
  case (RecordT c)
  then show ?case by (intro name_read [where C = RecordT and w = "js ''record:''"]) (auto simp: sameKind_def)
next
  case (UnionT c)
  then show ?case by (intro name_read [where C = UnionT and w = "js ''union:''"]) (auto simp: sameKind_def)
qed

section \<open>The equality of types\<close>

lemma typeEquals_erased:
  "typeEquals a b \<longleftrightarrow> erased a = erased b"
  "length ps = length qs \<Longrightarrow> typesEqual ps qs \<longleftrightarrow> map erased ps = map erased qs"
proof (induction a b and ps qs rule: typeEquals_typesEqual.induct)
  case (5 ps r rest abi b)
  then show ?case by (cases b) (auto dest: map_eq_imp_length_eq)
qed (auto split: irtype.splits list.splits)

section \<open>Properties\<close>

text \<open>C15. The key of a type is canonical and determines it: for types whose class names and ids contain no comma, closing angle
  bracket or closing parenthesis, two types have the same key exactly when they are the same type, up to a convention written on
  a function without a rest parameter. The equality of types holds wherever the keys agree, and is exactly the sameness of
  types without the conventions of their rest parameters.\<close>

theorem typeKey_injective:
  assumes "namesOk a" and "namesOk b"
  shows "(typeKey a = typeKey b \<longleftrightarrow> canon a = canon b) \<and> (typeKey a = typeKey b \<longrightarrow> typeEquals a b) \<and> (typeEquals a b \<longleftrightarrow> erased a = erased b)"
proof -
  have key: "typeKey (canon t) = typeKey t" for t
  proof (induction t)
    case (FuncT ps r rest abi)
    then have params: "map (\<lambda>p. typeKey (canon p)) ps = map typeKey ps" by simp
    show ?case using FuncT(2) by (simp add: comp_def params)
  qed simp_all
  have "typeKey a = typeKey b \<Longrightarrow> canon a = canon b"
    using key_read [OF assms(1)] assms(2) unfolding keyReadable_def by (metis append_Nil2)
  moreover have "canon a = canon b \<Longrightarrow> typeKey a = typeKey b" using key by metis
  ultimately show ?thesis using erased_canon typeEquals_erased(1) by metis
qed

text \<open>A callback whose rest parameter is the engine's array, and the same with the dynamic tree's array.\<close>

definition variadic :: "bool \<Rightarrow> irtype" where
  "variadic jsval = FuncT [Prim StringT, RecordT (js ''r0'')] (ArrayT (Prim F64T)) True jsval"

theorem typeKey_injective_witness:
  "namesOk (variadic True) \<and> typeKey (variadic True) \<noteq> typeKey (variadic False) \<and> typeEquals (variadic True) (variadic False)"
proof -
  have ok: "namesOk (variadic abi)" for abi by (simp add: variadic_def plainName_def stops_def js_def)
  have "canon (variadic True) \<noteq> canon (variadic False)" "erased (variadic True) = erased (variadic False)" by (simp_all add: variadic_def)
  then show ?thesis using typeKey_injective [OF ok ok, of True False] ok by blast
qed

end
