(* ===== verification/Ir_Boundary.thy ===== *)
theory Ir_Boundary
  imports Ir_Types
begin

text \<open>
  The boundaries a value crosses into the island's engine and into the checked-dynamic tree
  (\<open>ir/nodes.ts\<close>, 5703 to 6105): which types marshal, exit, box and validate.

  The predicates on function types call each other through the parameters and results of a function. Their
  fuel is the depth of that recursion. It is bounded by the size of the type as long as no union has a
  function arm (\<open>dyn_boundary_returns\<close>); with one it need not end (\<open>function_union_diverges\<close>).
\<close>

section \<open>The island\<close>

definition canCrossIslandBoundary :: "Registry \<Rightarrow> irtype \<Rightarrow> bool" where
  "canCrossIslandBoundary g t = isJsonSafeType g t"

definition MAX_ISLAND_CALLBACK_ARITY :: nat where
  "MAX_ISLAND_CALLBACK_ARITY = 16"

definition canMarshalFuncIntoIsland :: "irtype \<Rightarrow> bool" where
  "canMarshalFuncIntoIsland t =
    (case t of
       FuncT ps r rest _ \<Rightarrow> \<not> rest \<and> length ps \<le> MAX_ISLAND_CALLBACK_ARITY \<and> (\<forall>p \<in> set ps. p = Prim JsvalT) \<and>
         r \<in> {Prim JsvalT, Prim VoidT, Prim F64T, Prim BoolT, Prim StringT}
     | _ \<Rightarrow> False)"

text \<open>The arms of a bare union: units of absence, or JSON.\<close>

definition absentOrJson :: "Registry \<Rightarrow> jsstr \<Rightarrow> bool" where
  "absentOrJson g u = (case getUnion g u of None \<Rightarrow> False | Some arms \<Rightarrow> \<forall>a \<in> set arms. a = Prim UndefinedT \<or> isJsonSafeType g a)"

definition isIslandCallbackParamType :: "Registry \<Rightarrow> irtype \<Rightarrow> bool" where
  "isIslandCallbackParamType g t =
    (if t = Prim JsvalT then True else if isJsonSafeType g t then True else case t of UnionT u \<Rightarrow> absentOrJson g u | _ \<Rightarrow> False)"

datatype retTag = TagVoid | TagJsval | TagF64 | TagBool | TagString | TagJson | TagDyn

definition tagOf :: "irtype \<Rightarrow> retTag option" where
  "tagOf r = (case r of Prim p \<Rightarrow>
     (case p of VoidT \<Rightarrow> Some TagVoid | JsvalT \<Rightarrow> Some TagJsval | F64T \<Rightarrow> Some TagF64 | BoolT \<Rightarrow> Some TagBool | StringT \<Rightarrow> Some TagString | _ \<Rightarrow> None) | _ \<Rightarrow> None)"

definition islandCallbackRet :: "Registry \<Rightarrow> irtype \<Rightarrow> (bool \<times> retTag) option" where
  "islandCallbackRet g t =
    (case t of
       PromiseT i \<Rightarrow> map_option (Pair True) (tagOf i)
     | _ \<Rightarrow> (case tagOf t of
               Some tag \<Rightarrow> Some (False, tag)
             | None \<Rightarrow> if t = Prim DynT then Some (False, TagDyn) else if isJsonSafeType g t then Some (False, TagJson) else None))"

definition canMarshalTypedFuncIntoIsland :: "Registry \<Rightarrow> irtype \<Rightarrow> bool" where
  "canMarshalTypedFuncIntoIsland g t =
    (case t of
       FuncT ps r rest abi \<Rightarrow>
         if rest then
           abi \<and> 1 \<le> length ps \<and> length ps \<le> MAX_ISLAND_CALLBACK_ARITY \<and> last ps = Prim JsvalT \<and>
           (\<forall>p \<in> set (butlast ps). isIslandCallbackParamType g p) \<and> islandCallbackRet g r \<noteq> None
         else length ps \<le> MAX_ISLAND_CALLBACK_ARITY \<and> (\<forall>p \<in> set ps. isIslandCallbackParamType g p) \<and> islandCallbackRet g r \<noteq> None
     | _ \<Rightarrow> False)"

definition canMarshalIntoIsland :: "Registry \<Rightarrow> irtype \<Rightarrow> bool" where
  "canMarshalIntoIsland g t \<longleftrightarrow> isJsonSafeType g t \<or> canMarshalFuncIntoIsland t"

datatype payloadTag = PayVoid | PayF64 | PayBool | PayString | PayJsval | PayJsvalArr

definition islandPromisePayloadTag :: "irtype \<Rightarrow> payloadTag option" where
  "islandPromisePayloadTag t =
    (case t of
       Prim p \<Rightarrow> (case p of VoidT \<Rightarrow> Some PayVoid | F64T \<Rightarrow> Some PayF64 | BoolT \<Rightarrow> Some PayBool | StringT \<Rightarrow> Some PayString | JsvalT \<Rightarrow> Some PayJsval | _ \<Rightarrow> None)
     | ArrayT e \<Rightarrow> if e = Prim JsvalT then Some PayJsvalArr else None
     | _ \<Rightarrow> None)"

definition canExitIslandToType :: "Registry \<Rightarrow> irtype \<Rightarrow> bool" where
  "canExitIslandToType g t =
    (if canCrossIslandBoundary g t then True
     else if t = BytesT BU8 then True
     else if t = ArrayT (Prim JsvalT) then True
     else case t of
       UnionT u \<Rightarrow>
         (case getUnion g u of
            None \<Rightarrow> False
          | Some arms \<Rightarrow>
              if Prim UndefinedT \<notin> set arms then False
              else if \<forall>a \<in> set arms. isUnitType a \<or> isJsonSafeType g a then True
              else (let dataArms = filter (\<lambda>a. \<not> isUnitType a) arms in dataArms = [ArrayT (Prim JsvalT)]))
     | _ \<Rightarrow> False)"

section \<open>Composites with bytes\<close>

fun boxBytesAt :: "nat \<Rightarrow> Registry \<Rightarrow> irtype \<Rightarrow> jsstr list \<Rightarrow> (bool \<times> jsstr list) option"
and everyBoxBytes :: "nat \<Rightarrow> Registry \<Rightarrow> irtype list \<Rightarrow> jsstr list \<Rightarrow> (bool \<times> jsstr list) option" where
  "boxBytesAt 0 g t visiting = None"
| "boxBytesAt (Suc fuel) g t visiting =
    (case t of
       Prim p \<Rightarrow> Some (p \<in> {F64T, StringT, BoolT, DynT, UndefinedT, NullT}, visiting)
     | BytesT e \<Rightarrow> Some (e = BU8, visiting)
     | ArrayT e \<Rightarrow> boxBytesAt fuel g e visiting
     | RecordT s \<Rightarrow>
         (case getRecord g s of
            None \<Rightarrow> Some (False, visiting)
          | Some shape \<Rightarrow> if s \<in> set visiting then Some (True, visiting) else everyBoxBytes fuel g (shapeTypes shape) (setAdd s visiting))
     | UnionT u \<Rightarrow>
         (case getUnion g u of
            None \<Rightarrow> Some (False, visiting)
          | Some arms \<Rightarrow> if u \<in> set visiting then Some (True, visiting) else everyBoxBytes fuel g arms (setAdd u visiting))
     | _ \<Rightarrow> Some (False, visiting))"
| "everyBoxBytes fuel g [] visiting = Some (True, visiting)"
| "everyBoxBytes fuel g (t # ts) visiting =
    (case boxBytesAt fuel g t visiting of
       None \<Rightarrow> None
     | Some (ok, v) \<Rightarrow> if ok then everyBoxBytes fuel g ts v else Some (False, v))"

definition canBoxBytesComposite :: "Registry \<Rightarrow> irtype \<Rightarrow> bool" where
  "canBoxBytesComposite g t = (case boxBytesAt (jsonFuel g t) g t [] of Some (ok, _) \<Rightarrow> ok | None \<Rightarrow> False)"

section \<open>The dynamic boundary\<close>

text \<open>\<open>Array.prototype.every\<close> and \<open>&&\<close> over answers that may not come.\<close>

fun everyO :: "('a \<Rightarrow> bool option) \<Rightarrow> 'a list \<Rightarrow> bool option" where
  "everyO f [] = Some True"
| "everyO f (x # xs) = (case f x of None \<Rightarrow> None | Some b \<Rightarrow> if b then everyO f xs else Some False)"

definition andO :: "bool option \<Rightarrow> bool option \<Rightarrow> bool option" where
  "andO x y = (case x of None \<Rightarrow> None | Some b \<Rightarrow> if b then y else Some False)"

lemma everyO_cong [fundef_cong]: "xs = ys \<Longrightarrow> (\<And>x. x \<in> set ys \<Longrightarrow> f x = g x) \<Longrightarrow> everyO f xs = everyO g ys"
  by (induction xs arbitrary: ys) (auto split: option.splits)

definition DYN_HANDLE_KINDS :: "pkind list" where
  "DYN_HANDLE_KINDS = [HttpReqT, HttpResT, NetSocketT, NetServerT, Http2SessionT, Http2StreamT, HttpClientReqT]"

fun canConvertToDyn :: "nat \<Rightarrow> Registry \<Rightarrow> irtype \<Rightarrow> bool option"
and canBoxFuncIntoDyn :: "nat \<Rightarrow> Registry \<Rightarrow> irtype \<Rightarrow> bool option"
and canDynCheckTo :: "nat \<Rightarrow> Registry \<Rightarrow> irtype \<Rightarrow> bool option"
and canAdaptDynFuncTo :: "nat \<Rightarrow> Registry \<Rightarrow> irtype \<Rightarrow> bool \<Rightarrow> bool option" where
  "canConvertToDyn 0 g t = None"
| "canConvertToDyn (Suc n) g t =
    (if isJsonSafeType g t then Some True
     else if canBoxBytesComposite g t then Some True
     else case t of
       BytesT e \<Rightarrow> Some (e = BU8)
     | ObjectT c \<Rightarrow> Some (c = js ''%Error'')
     | FuncT _ _ _ _ \<Rightarrow> canBoxFuncIntoDyn n g t
     | Prim p \<Rightarrow> Some (p \<in> set DYN_HANDLE_KINDS)
     | PromiseT i \<Rightarrow> if i = Prim DynT \<or> i = Prim JsvalT \<or> i = Prim VoidT then Some True else canConvertToDyn n g i
     | UnionT u \<Rightarrow>
         (case getUnion g u of
            None \<Rightarrow> Some False
          | Some arms \<Rightarrow>
              everyO (\<lambda>a. if a = Prim UndefinedT \<or> isJsonSafeType g a then Some True
                          else case a of FuncT _ _ _ _ \<Rightarrow> canBoxFuncIntoDyn n g a | _ \<Rightarrow> Some False) arms)
     | _ \<Rightarrow> Some False)"
| "canBoxFuncIntoDyn 0 g t = None"
| "canBoxFuncIntoDyn (Suc n) g t =
    (case t of
       FuncT ps r _ _ \<Rightarrow>
         andO (everyO (\<lambda>p. if p = Prim DynT \<or> p = Prim JsvalT then Some True else canDynCheckTo n g p) ps)
              (if r = Prim VoidT \<or> r = Prim DynT \<or> r = Prim JsvalT then Some True else canConvertToDyn n g r)
     | _ \<Rightarrow> Some False)"
| "canDynCheckTo 0 g t = None"
| "canDynCheckTo (Suc n) g t =
    (if isJsonSafeType g t then Some True
     else case t of
       BytesT e \<Rightarrow> Some (e = BU8)
     | ObjectT c \<Rightarrow> Some (c = js ''%Error'')
     | FuncT _ _ _ _ \<Rightarrow> canAdaptDynFuncTo n g t False
     | Prim p \<Rightarrow> Some (p \<in> set DYN_HANDLE_KINDS)
     | UnionT u \<Rightarrow> Some (absentOrJson g u)
     | _ \<Rightarrow> Some False)"
| "canAdaptDynFuncTo 0 g t jsvalOk = None"
| "canAdaptDynFuncTo (Suc n) g t jsvalOk =
    (case t of
       FuncT ps r rest _ \<Rightarrow>
         if rest then Some False
         else andO (everyO (\<lambda>p. if p = Prim DynT \<or> jsvalOk \<and> p = Prim JsvalT then Some True else canConvertToDyn n g p) ps)
                   (if r = Prim VoidT \<or> r = Prim DynT \<or> jsvalOk \<and> r = Prim JsvalT then Some True else canDynCheckTo n g r)
     | _ \<Rightarrow> Some False)"

section \<open>The searches return\<close>

lemma box_visited_grows:
  "boxBytesAt n g t V = Some (ok, V') \<Longrightarrow> set V \<subseteq> set V'"
  "everyBoxBytes n g ts V = Some (ok, V') \<Longrightarrow> set V \<subseteq> set V'"
proof (induction n g t V and n g ts V arbitrary: ok V' and ok V' rule: boxBytesAt_everyBoxBytes.induct)
  case (2 n g t V)
  then show ?case by (cases t) (auto split: option.splits if_splits)
next
  case (4 n g t ts V)
  then show ?case by (fastforce split: option.splits if_splits)
qed auto

definition idKeys :: "Registry \<Rightarrow> jsstr set" where
  "idKeys g = fst ` set (reg_records g) \<union> fst ` set (reg_unions g)"

lemma finite_idKeys [simp]: "finite (idKeys g)"
  by (simp add: idKeys_def)

lemma card_idKeys: "card (idKeys g) \<le> length (reg_records g) + 2 * length (reg_unions g)"
proof -
  have "card (fst ` set xs) \<le> length xs" for xs :: "(jsstr \<times> 'a) list"
    using card_image_le [of "set xs" fst] card_length [of xs] by simp
  then have "card (fst ` set (reg_records g)) \<le> length (reg_records g)" "card (fst ` set (reg_unions g)) \<le> length (reg_unions g)" by blast+
  then show ?thesis unfolding idKeys_def using card_Un_le [of "fst ` set (reg_records g)" "fst ` set (reg_unions g)"] by linarith
qed

lemma fresh_id: "k \<in> idKeys g \<Longrightarrow> k \<notin> set V \<Longrightarrow> Suc (card (idKeys g - set (setAdd k V))) \<le> card (idKeys g - set V)"
  using psubset_card_mono [of "idKeys g - set V" "idKeys g - set (setAdd k V)"] by (simp add: Suc_le_eq) blast

lemma fewer_ids: "set V \<subseteq> set W \<Longrightarrow> card (idKeys g - set W) \<le> card (idKeys g - set V)"
  by (rule card_mono) auto

lemma depth_shape: "getRecord g s = Some shape \<Longrightarrow> t \<in> set (shapeTypes shape) \<Longrightarrow> arrayDepth t \<le> maxDepth g"
  by (rule depth_registry) (force simp: registryTypes_def dest: map_of_SomeD)

lemma box_returns:
  "card (idKeys g - set V) * Suc (maxDepth g) + arrayDepth t < n \<Longrightarrow> boxBytesAt n g t V \<noteq> None"
  "card (idKeys g - set V) * Suc (maxDepth g) + maxDepth g < n \<Longrightarrow> \<forall>t \<in> set ts. arrayDepth t \<le> maxDepth g \<Longrightarrow> everyBoxBytes n g ts V \<noteq> None"
proof (induction n g t V and n g ts V rule: boxBytesAt_everyBoxBytes.induct)
  case (2 n g t V)
  have room: "card (idKeys g - set (setAdd k V)) * Suc (maxDepth g) + maxDepth g < n" if "k \<in> idKeys g" "k \<notin> set V" for k
  proof -
    have "Suc (card (idKeys g - set (setAdd k V))) * Suc (maxDepth g) \<le> card (idKeys g - set V) * Suc (maxDepth g)"
      using fresh_id [OF that] by (rule mult_le_mono1)
    then show ?thesis using "2.prems" depth_pos [of t] by simp
  qed
  show ?case
  proof (cases t)
    case (ArrayT e)
    then show ?thesis using "2.IH"(1) [OF ArrayT] "2.prems" by simp
  next
    case (RecordT s)
    show ?thesis
    proof (cases "getRecord g s")
      case (Some shape)
      have key: "s \<in> idKeys g" using Some by (force simp: idKeys_def dest: map_of_SomeD)
      show ?thesis
        using "2.IH"(2) [OF RecordT Some _ room [OF key]] depth_shape [OF Some] RecordT Some by (cases "s \<in> set V") auto
    qed (use RecordT in simp)
  next
    case (UnionT u)
    show ?thesis
    proof (cases "getUnion g u")
      case (Some arms)
      have key: "u \<in> idKeys g" using Some by (force simp: idKeys_def dest: map_of_SomeD)
      show ?thesis
        using "2.IH"(3) [OF UnionT Some _ room [OF key]] depth_union [OF Some] UnionT Some by (cases "u \<in> set V") auto
    qed (use UnionT in simp)
  qed auto
next
  case (4 n g t ts V)
  have "card (idKeys g - set V) * Suc (maxDepth g) + arrayDepth t < n" using "4.prems" by auto
  then obtain ok W where run: "boxBytesAt n g t V = Some (ok, W)" using "4.IH"(1) by auto
  have "card (idKeys g - set W) * Suc (maxDepth g) + maxDepth g < n"
    using mult_le_mono1 [OF fewer_ids [OF box_visited_grows(1) [OF run], of g], of "Suc (maxDepth g)"] "4.prems"(1) by linarith
  then show ?case using "4.IH"(2) [OF run refl] "4.prems"(2) run by (cases ok) auto
qed auto

lemma boxFuel_enough: "boxBytesAt (jsonFuel g t) g t [] \<noteq> None"
proof (rule box_returns(1))
  show "card (idKeys g - set []) * Suc (maxDepth g) + arrayDepth t < jsonFuel g t"
    using mult_le_mono1 [OF card_idKeys, of g "Suc (maxDepth g)"] by (simp add: jsonFuel_def)
qed

text \<open>The dynamic boundary: two levels for each constructor of the type.\<close>

definition noFunctionArms :: "Registry \<Rightarrow> bool" where
  "noFunctionArms g \<longleftrightarrow> (\<forall>(u, arms) \<in> set (reg_unions g). \<forall>a \<in> set arms. \<nexists>ps r rest abi. a = FuncT ps r rest abi)"

lemma everyO_returns: "\<forall>x \<in> set xs. f x \<noteq> None \<Longrightarrow> everyO f xs \<noteq> None"
  by (induction xs) auto

lemma andO_returns: "x \<noteq> None \<Longrightarrow> y \<noteq> None \<Longrightarrow> andO x y \<noteq> None"
  by (auto simp: andO_def)

lemma size_param: "p \<in> set ps \<Longrightarrow> size p < size (FuncT ps r rest abi)"
  by (induction ps) auto

lemma size_result: "size r < size (FuncT ps r rest abi)"
  by simp

lemma noFunctionArmsD: "noFunctionArms g \<Longrightarrow> getUnion g u = Some arms \<Longrightarrow> FuncT ps r rest abi \<notin> set arms"
  unfolding noFunctionArms_def by (fastforce dest: map_of_SomeD)

lemma dyn_returns:
  assumes g: "noFunctionArms g"
  shows "(\<forall>n. 2 * size t < n \<longrightarrow> canBoxFuncIntoDyn n g t \<noteq> None \<and> canConvertToDyn (Suc n) g t \<noteq> None) \<and>
    (\<forall>n ok. 2 * size t < n \<longrightarrow> canAdaptDynFuncTo n g t ok \<noteq> None \<and> canDynCheckTo (Suc n) g t \<noteq> None)"
proof (induction t rule: measure_induct_rule [of size])
  case (less t)
  have conv: "canConvertToDyn m g q \<noteq> None" and check: "canDynCheckTo m g q \<noteq> None"
    if "size q < size t" "2 * size t < Suc m" for q m
  proof -
    have "m = Suc (m - 1)" "2 * size q < m - 1" using that by simp_all
    then obtain k where k: "m = Suc k" "2 * size q < k" by blast
    show "canConvertToDyn m g q \<noteq> None" "canDynCheckTo m g q \<noteq> None" using less [OF that(1)] k by blast+
  qed
  have box: "canBoxFuncIntoDyn n g t \<noteq> None" if n: "2 * size t < n" for n
  proof (cases t)
    case (FuncT ps r rest abi)
    obtain m where m: "n = Suc m" using n by (cases n) auto
    have "canDynCheckTo m g p \<noteq> None" if "p \<in> set ps" for p
      using check size_param [OF that] n m FuncT by simp
    moreover have "canConvertToDyn m g r \<noteq> None" using conv n m FuncT by simp
    ultimately show ?thesis unfolding m FuncT canBoxFuncIntoDyn.simps irtype.case by (intro andO_returns everyO_returns) auto
  qed (use n in \<open>cases n; simp\<close>)+
  have adapt: "canAdaptDynFuncTo n g t ok \<noteq> None" if n: "2 * size t < n" for n ok
  proof (cases t)
    case (FuncT ps r rest abi)
    obtain m where m: "n = Suc m" using n by (cases n) auto
    have "canConvertToDyn m g p \<noteq> None" if "p \<in> set ps" for p
      using conv size_param [OF that] n m FuncT by simp
    moreover have "canDynCheckTo m g r \<noteq> None" using check n m FuncT by simp
    ultimately have "andO (everyO (\<lambda>p. if p = Prim DynT \<or> ok \<and> p = Prim JsvalT then Some True else canConvertToDyn m g p) ps)
        (if r = Prim VoidT \<or> r = Prim DynT \<or> ok \<and> r = Prim JsvalT then Some True else canDynCheckTo m g r) \<noteq> None"
      by (intro andO_returns everyO_returns) auto
    then show ?thesis unfolding m FuncT canAdaptDynFuncTo.simps irtype.case by auto
  qed (use n in \<open>cases n; simp\<close>)+
  have "canConvertToDyn (Suc n) g t \<noteq> None" if n: "2 * size t < n" for n
  proof (cases t)
    case (PromiseT i)
    then show ?thesis using conv [of i n] n by auto
  next
    case (UnionT u)
    have "everyO (\<lambda>a. if a = Prim UndefinedT \<or> isJsonSafeType g a then Some True
                      else case a of FuncT _ _ _ _ \<Rightarrow> canBoxFuncIntoDyn n g a | _ \<Rightarrow> Some False) arms \<noteq> None" if "getUnion g u = Some arms" for arms
      using noFunctionArmsD [OF g that] by (intro everyO_returns) (auto split: irtype.splits)
    then show ?thesis using UnionT by (auto split: option.splits)
  qed (use box [OF n] in auto)
  moreover have "canDynCheckTo (Suc n) g t \<noteq> None" if n: "2 * size t < n" for n
    using adapt [OF n] by (cases t) auto
  ultimately show ?case using box adapt by blast
qed

section \<open>What crosses\<close>

lemma everyO_all: "\<forall>x \<in> set xs. f x = Some True \<Longrightarrow> everyO f xs = Some True"
  by (induction xs) auto

text \<open>A typed callback crosses wherever an all-engine one does, and the data that crosses goes both ways.\<close>

lemma typed_func_superset:
  assumes "canMarshalFuncIntoIsland t"
  shows "canMarshalTypedFuncIntoIsland g t"
proof -
  obtain ps r abi where t: "t = FuncT ps r False abi" "length ps \<le> MAX_ISLAND_CALLBACK_ARITY" "\<forall>p \<in> set ps. p = Prim JsvalT"
    "r \<in> {Prim JsvalT, Prim VoidT, Prim F64T, Prim BoolT, Prim StringT}"
    using assms by (auto simp: canMarshalFuncIntoIsland_def split: irtype.splits)
  have "\<forall>p \<in> set ps. isIslandCallbackParamType g p" using t(3) by (simp add: isIslandCallbackParamType_def)
  moreover have "islandCallbackRet g r \<noteq> None" using t(4) by (auto simp: islandCallbackRet_def tagOf_def)
  ultimately show ?thesis using t(1,2) by (simp add: canMarshalTypedFuncIntoIsland_def)
qed

text \<open>A shape with a closure in one of its slots, such as an accessor, is neither JSON nor boxed.\<close>

lemma box_every_func: "everyBoxBytes n g ts V = Some (True, V') \<Longrightarrow> FuncT ps r rest abi \<notin> set ts"
proof (induction ts arbitrary: V)
  case (Cons t ts)
  show ?case
  proof (cases "\<exists>ps r rest abi. t = FuncT ps r rest abi")
    case True
    then show ?thesis using Cons.prems by (cases n) auto
  next
    case False
    then show ?thesis using Cons by (auto split: option.splits if_splits)
  qed
qed simp

lemma json_every_func: "everyJsonSafe n g ts V = Some (True, V') \<Longrightarrow> (FuncT ps r rest abi, fl) \<notin> set ts"
proof (induction ts arbitrary: V)
  case (Cons p ts)
  obtain t b where p: "p = (t, b)" by (cases p)
  show ?case
  proof (cases "\<exists>ps r rest abi. t = FuncT ps r rest abi")
    case True
    then show ?thesis using Cons.prems p by (cases n) auto
  next
    case False
    then show ?thesis using Cons p by (auto split: option.splits if_splits)
  qed
qed simp

lemma closure_slots_fenced:
  assumes "getRecord g s = Some shape" and "f \<in> set (shape_fields shape)" and "sf_type f = FuncT ps r rest abi"
  shows "\<not> isJsonSafeType g (RecordT s)" and "canConvertToDyn (Suc n) g (RecordT s) = Some False"
proof -
  have fields: "(FuncT ps r rest abi, \<not> shape_tuple shape) \<in> set (recordBelow shape)" "FuncT ps r rest abi \<in> set (shapeTypes shape)"
    using assms(2,3) by (force simp: recordBelow_def shapeTypes_def)+
  obtain m where m: "jsonFuel g (RecordT s) = Suc m" by (simp add: jsonFuel_def)
  show json: "\<not> isJsonSafeType g (RecordT s)"
  proof
    assume "isJsonSafeType g (RecordT s)"
    then obtain V where "everyJsonSafe m g (recordBelow shape) (setAdd s []) = Some (True, V)"
      using assms(1) by (auto simp: isJsonSafeType_def m split: option.splits)
    then show False using json_every_func fields(1) by blast
  qed
  have "\<not> canBoxBytesComposite g (RecordT s)"
  proof
    assume "canBoxBytesComposite g (RecordT s)"
    then obtain V where "everyBoxBytes m g (shapeTypes shape) (setAdd s []) = Some (True, V)"
      using assms(1) by (auto simp: canBoxBytesComposite_def m split: option.splits)
    then show False using box_every_func fields(2) by blast
  qed
  then show "canConvertToDyn (Suc n) g (RecordT s) = Some False" using json by simp
qed

text \<open>What is validated out of the tree and is not a function is also boxed into it.\<close>

lemma checked_converts:
  assumes "canDynCheckTo (Suc n) g t = Some True" and "\<And>ps r rest abi. t \<noteq> FuncT ps r rest abi"
  shows "canConvertToDyn (Suc n) g t = Some True"
proof (cases "isJsonSafeType g t")
  case False
  show ?thesis
  proof (cases t)
    case (UnionT u)
    then obtain arms where arms: "getUnion g u = Some arms" "\<forall>a \<in> set arms. a = Prim UndefinedT \<or> isJsonSafeType g a"
      using assms(1) False by (auto simp: absentOrJson_def split: option.splits)
    have "everyO (\<lambda>a. if a = Prim UndefinedT \<or> isJsonSafeType g a then Some True
                      else case a of FuncT _ _ _ _ \<Rightarrow> canBoxFuncIntoDyn n g a | _ \<Rightarrow> Some False) arms = Some True"
      using arms(2) by (intro everyO_all) auto
    then show ?thesis using UnionT arms(1) by simp
  qed (use assms False in auto)
qed simp

section \<open>Properties\<close>

text \<open>C16. The predicates of the dynamic boundary return: with registries whose unions have no function arm, a recursion
  depth of twice the size of the type and two levels more answers all four questions, for every type. What
  may be validated out of the tree and is not a function may be boxed into it.\<close>

theorem dyn_boundary_returns:
  assumes "noFunctionArms g" and "2 * size t + 1 < n"
  shows "canConvertToDyn n g t \<noteq> None \<and> canBoxFuncIntoDyn n g t \<noteq> None \<and> canDynCheckTo n g t \<noteq> None \<and> canAdaptDynFuncTo n g t ok \<noteq> None \<and>
    (canDynCheckTo n g t = Some True \<longrightarrow> (\<exists>ps r rest abi. t = FuncT ps r rest abi) \<or> canConvertToDyn n g t = Some True)"
proof -
  obtain m where m: "n = Suc m" "2 * size t < m" using assms(2) by (cases n) auto
  have "2 * size t < n" using assms(2) by simp
  then show ?thesis using dyn_returns [OF assms(1), of t] m checked_converts [of m g t] by blast
qed

text \<open>A callback that takes a recursive record and returns a handle.\<close>

definition requestHandler :: irtype where
  "requestHandler = FuncT [RecordT (js ''r0''), Prim HttpReqT] (Prim NetSocketT) False False"

theorem dyn_boundary_returns_witness:
  "noFunctionArms (listShape []) \<and> canConvertToDyn 20 (listShape []) requestHandler = Some True \<and> canDynCheckTo 20 (listShape []) requestHandler = Some True"
proof -
  have ok: "noFunctionArms (listShape [])" by (simp add: noFunctionArms_def listShape_def)
  have "2 * size requestHandler + 1 < 20" by (simp add: requestHandler_def)
  from dyn_boundary_returns [OF ok this]
  have "canConvertToDyn 20 (listShape []) requestHandler \<noteq> None" "canDynCheckTo 20 (listShape []) requestHandler \<noteq> None" by blast+
  moreover have "canConvertToDyn 20 (listShape []) requestHandler = Some True" "canDynCheckTo 20 (listShape []) requestHandler = Some True"
    by code_simp+
  ultimately show ?thesis using ok by blast
qed

text \<open>A union with a function that returns the union: \<open>type F = (() => F) | undefined\<close>.\<close>

definition selfReturning :: Registry where
  "selfReturning = \<lparr> reg_records = [], reg_unions = [(js ''u0'', [FuncT [] (UnionT (js ''u0'')) False False, Prim UndefinedT])] \<rparr>"

text \<open>With a function arm that returns its own union the question does not end: no depth of recursion answers
  whether the union, or its function arm, may be boxed into the dynamic tree.\<close>

theorem function_union_diverges:
  "canConvertToDyn n selfReturning (UnionT (js ''u0'')) = None \<and>
   canBoxFuncIntoDyn n selfReturning (FuncT [] (UnionT (js ''u0'')) False False) = None"
proof (induction n)
  case (Suc n)
  have no: "\<not> isJsonSafeType selfReturning (UnionT (js ''u0''))" "\<not> canBoxBytesComposite selfReturning (UnionT (js ''u0''))"
    "\<not> isJsonSafeType selfReturning (FuncT [] (UnionT (js ''u0'')) False False)"
    by code_simp+
  have "getUnion selfReturning (js ''u0'') = Some [FuncT [] (UnionT (js ''u0'')) False False, Prim UndefinedT]" by (simp add: selfReturning_def)
  then show ?case using no Suc by (simp add: andO_def)
qed simp

end
