(* ===== verification/Lib_Hash.thy ===== *)
theory Lib_Hash
  imports Js_Text
begin

text \<open>
  The hashing of the contract sidecar (\<open>library/wyhash.ts\<close>): wyhash over big integers, the
  length-prefixed stream it runs on, and the sixteen-digit rendering. Big integers are integers,
  with every mask of the source written out; byte reads are partial, since an index past the end
  is \<open>undefined\<close> in the source.
\<close>

unbundle bit_operations_syntax

section \<open>The hash\<close>

definition MASK64 :: int where
  "MASK64 = push_bit 64 1 - 1"

definition P0 :: int where "P0 = 0xa0761d6478bd642f"

definition P1 :: int where "P1 = 0xe7037ed1a0b428db"

definition P2 :: int where "P2 = 0x8ebc6af09c88c6e3"

definition P3 :: int where "P3 = 0x589965cc75374cc3"

definition wymix :: "int \<Rightarrow> int \<Rightarrow> int" where
  "wymix a b = (let r = (a AND MASK64) * (b AND MASK64) in ((r AND MASK64) XOR drop_bit 64 r) AND MASK64)"

type_synonym bytes8 = "8 word list"

definition byteAt :: "bytes8 \<Rightarrow> int \<Rightarrow> int option" where
  "byteAt d i = (if 0 \<le> i \<and> i < int (length d) then Some (uint (d ! nat i)) else None)"

text \<open>\<open>for (let i = 7; i >= 0; i--) v = (v << 8n) | d[o + i]\<close>.\<close>

fun wyr8_loop :: "bytes8 \<Rightarrow> int \<Rightarrow> nat \<Rightarrow> int \<Rightarrow> int option" where
  "wyr8_loop d i 0 v = Some v"
| "wyr8_loop d i (Suc k) v = (case byteAt d (i + int k) of None \<Rightarrow> None | Some x \<Rightarrow> wyr8_loop d i k (push_bit 8 v OR x))"

definition wyr8 :: "bytes8 \<Rightarrow> int \<Rightarrow> int option" where
  "wyr8 d i = wyr8_loop d i 8 0"

definition wyr4 :: "bytes8 \<Rightarrow> int \<Rightarrow> int option" where
  "wyr4 d i =
    (case (byteAt d i, byteAt d (i + 1), byteAt d (i + 2), byteAt d (i + 3)) of
       (Some a, Some b, Some c, Some e) \<Rightarrow> Some ((a OR push_bit 8 b OR push_bit 16 c) OR push_bit 24 e)
     | _ \<Rightarrow> None)"

definition wyr3 :: "bytes8 \<Rightarrow> int \<Rightarrow> int \<Rightarrow> int option" where
  "wyr3 d i k =
    (case (byteAt d i, byteAt d (i + drop_bit 1 k), byteAt d (i + k - 1)) of
       (Some a, Some b, Some c) \<Rightarrow> Some (push_bit 16 a OR push_bit 8 b OR c)
     | _ \<Rightarrow> None)"

text \<open>One lane of the mixing loops: \<open>wymix(wyr8(d, p) ^ P, wyr8(d, p + 8) ^ s)\<close>.\<close>

definition lane :: "bytes8 \<Rightarrow> int \<Rightarrow> int \<Rightarrow> int \<Rightarrow> int option" where
  "lane d p c s = (case (wyr8 d p, wyr8 d (p + 8)) of (Some x, Some y) \<Rightarrow> Some (wymix (x XOR c) (y XOR s)) | _ \<Rightarrow> None)"

text \<open>The do-while over 48-byte blocks; the loop ends when at most 48 bytes remain.\<close>

function blocks48 :: "bytes8 \<Rightarrow> int \<Rightarrow> int \<Rightarrow> int \<Rightarrow> int \<Rightarrow> int \<Rightarrow> (int \<times> int \<times> int \<times> int \<times> int) option" where
  "blocks48 d p i s s1 s2 =
    (case (lane d p P1 s, lane d (p + 16) P2 s1, lane d (p + 32) P3 s2) of
       (Some s, Some s1, Some s2) \<Rightarrow>
         if i - 48 > 48 then blocks48 d (p + 48) (i - 48) s s1 s2 else Some (p + 48, i - 48, s, s1, s2)
     | _ \<Rightarrow> None)"
  by pat_completeness auto
termination by (relation "measure (\<lambda>(d, p, i, s, s1, s2). nat i)") auto

function blocks16 :: "bytes8 \<Rightarrow> int \<Rightarrow> int \<Rightarrow> int \<Rightarrow> (int \<times> int \<times> int) option" where
  "blocks16 d p i s =
    (if i > 16 then (case lane d p P1 s of None \<Rightarrow> None | Some s \<Rightarrow> blocks16 d (p + 16) (i - 16) s) else Some (p, i, s))"
  by pat_completeness auto
termination by (relation "measure (\<lambda>(d, p, i, s). nat i)") auto

declare blocks48.simps [simp del] blocks16.simps [simp del]

text \<open>The two words the finishing step mixes, and the seed by then.\<close>

definition shortTail :: "bytes8 \<Rightarrow> int \<Rightarrow> (int \<times> int) option" where
  "shortTail d n =
    (if n \<ge> 4 then
       (let k = push_bit 2 (drop_bit 3 n) in
        case (wyr4 d 0, wyr4 d k, wyr4 d (n - 4), wyr4 d (n - 4 - k)) of
          (Some w, Some x, Some y, Some z) \<Rightarrow> Some (push_bit 32 w OR x, push_bit 32 y OR z)
        | _ \<Rightarrow> None)
     else if n > 0 then map_option (\<lambda>a. (a, 0)) (wyr3 d 0 n)
     else Some (0, 0))"

definition longTail :: "bytes8 \<Rightarrow> int \<Rightarrow> int \<Rightarrow> (int \<times> int \<times> int) option" where
  "longTail d n seed =
    (case (if n > 48 then map_option (\<lambda>(p, i, s, s1, s2). (p, i, s XOR s1 XOR s2)) (blocks48 d 0 n seed seed seed) else Some (0, n, seed)) of
       None \<Rightarrow> None
     | Some (p, i, s) \<Rightarrow>
         (case blocks16 d p i s of
            None \<Rightarrow> None
          | Some (p, i, s) \<Rightarrow> (case (wyr8 d (p + i - 16), wyr8 d (p + i - 8)) of (Some a, Some b) \<Rightarrow> Some (a, b, s) | _ \<Rightarrow> None)))"

definition wyhash64 :: "bytes8 \<Rightarrow> int \<Rightarrow> int option" where
  "wyhash64 d seed0 =
    (let n = int (length d); seed = (seed0 XOR P0) AND MASK64
     in map_option (\<lambda>(a, b, s). wymix (P1 XOR n) (wymix (a XOR P1) (b XOR s)))
       (if n \<le> 16 then map_option (\<lambda>(a, b). (a, b, seed)) (shortTail d n) else longTail d n seed))"


section \<open>Framing and rendering\<close>

text \<open>The eight bytes of a length, least significant first.\<close>

fun lengthBytes :: "nat \<Rightarrow> nat \<Rightarrow> bytes8" where
  "lengthBytes 0 n = []"
| "lengthBytes (Suc k) n = word_of_nat (n mod 256) # lengthBytes k (n div 256)"

text \<open>\<open>out.set(c, o)\<close>.\<close>

definition setAt :: "bytes8 \<Rightarrow> nat \<Rightarrow> bytes8 \<Rightarrow> bytes8" where
  "setAt out i c = take i out @ c @ drop (i + length c) out"

fun writeChunks :: "bytes8 list \<Rightarrow> nat \<Rightarrow> bytes8 \<Rightarrow> bytes8" where
  "writeChunks [] i out = out"
| "writeChunks (c # cs) i out = writeChunks cs (i + 8 + length c) (setAt (setAt out i (lengthBytes 8 (length c))) (i + 8) c)"

definition lengthPrefixedStream :: "bytes8 list \<Rightarrow> bytes8" where
  "lengthPrefixedStream chunks =
    (let total = sum_list (map (\<lambda>c. 8 + length c) chunks) in writeChunks chunks 0 (replicate total 0))"

definition hex16 :: "int \<Rightarrow> jsstr" where
  "hex16 v = padStart 16 0x30 (hex (nat (v AND MASK64)))"

definition BUILD_ID_SEED :: int where "BUILD_ID_SEED = 0xb11d1d00"

definition SOURCE_HASH_SEED :: int where "SOURCE_HASH_SEED = 0xc0de5eed"

section \<open>Every read is in range\<close>

lemma byteAt_in: "0 \<le> i \<Longrightarrow> i < int (length d) \<Longrightarrow> byteAt d i = Some (uint (d ! nat i))"
  by (simp add: byteAt_def)

lemma wyr8_loop_in: "0 \<le> i \<Longrightarrow> i + int k \<le> int (length d) \<Longrightarrow> wyr8_loop d i k v \<noteq> None"
  by (induction k arbitrary: v) (auto simp: byteAt_def)

lemma wyr8_in: "0 \<le> i \<Longrightarrow> i + 8 \<le> int (length d) \<Longrightarrow> \<exists>v. wyr8 d i = Some v"
  using wyr8_loop_in [of i 8 d 0] by (auto simp: wyr8_def)

lemma wyr4_in: "0 \<le> i \<Longrightarrow> i + 4 \<le> int (length d) \<Longrightarrow> \<exists>v. wyr4 d i = Some v"
  by (simp add: wyr4_def byteAt_def)

lemma wyr3_in: assumes "0 < k" "k \<le> int (length d)" shows "\<exists>v. wyr3 d 0 k = Some v"
proof -
  have "0 \<le> k div 2" "k div 2 < int (length d)" "d \<noteq> []" using assms by auto
  then show ?thesis using assms by (simp add: wyr3_def byteAt_def drop_bit_eq_div)
qed

lemma lane_in: "0 \<le> p \<Longrightarrow> p + 16 \<le> int (length d) \<Longrightarrow> \<exists>v. lane d p c s = Some v"
  using wyr8_in [of p d] wyr8_in [of "p + 8" d] by (auto simp: lane_def)

lemma blocks48_in:
  "0 \<le> p \<Longrightarrow> i > 48 \<Longrightarrow> p + i = int (length d) \<Longrightarrow>
    \<exists>p' i' r. blocks48 d p i s s1 s2 = Some (p', i', r) \<and> p \<le> p' \<and> p' + i' = int (length d) \<and> 0 < i'"
proof (induction d p i s s1 s2 rule: blocks48.induct)
  case (1 d p i s s1 s2)
  obtain t t1 t2 where l: "lane d p P1 s = Some t" "lane d (p + 16) P2 s1 = Some t1" "lane d (p + 32) P3 s2 = Some t2"
    using lane_in [of p d P1 s] lane_in [of "p + 16" d P2 s1] lane_in [of "p + 32" d P3 s2] "1.prems" by auto
  show ?case
  proof (cases "i - 48 > 48")
    case True
    obtain p' i' r where "blocks48 d (p + 48) (i - 48) t t1 t2 = Some (p', i', r)" "p + 48 \<le> p'" "p' + i' = int (length d)" "0 < i'"
      using "1.IH" [OF refl l(1) refl l(2,3) True] "1.prems" True by auto
    then show ?thesis using l True by (subst blocks48.simps) (cases r, simp)
  next
    case False
    then show ?thesis using l "1.prems" by (subst blocks48.simps) simp
  qed
qed

lemma blocks16_in:
  "0 \<le> p \<Longrightarrow> 0 < i \<Longrightarrow> p + i = int (length d) \<Longrightarrow> \<exists>p' i' s'. blocks16 d p i s = Some (p', i', s') \<and> p' + i' = int (length d)"
proof (induction d p i s rule: blocks16.induct)
  case (1 d p i s)
  show ?case
  proof (cases "i > 16")
    case True
    then obtain t where t: "lane d p P1 s = Some t" using lane_in [of p d P1 s] "1.prems" by auto
    from "1.IH" [OF True t] "1.prems" True t show ?thesis by (subst blocks16.simps) simp
  next
    case False
    then show ?thesis using "1.prems" by (subst blocks16.simps) simp
  qed
qed

lemma shortTail_in: "n = int (length d) \<Longrightarrow> n \<le> 16 \<Longrightarrow> \<exists>a b. shortTail d n = Some (a, b)"
proof -
  assume n: "n = int (length d)" "n \<le> 16"
  show ?thesis
  proof (cases "n \<ge> 4")
    case True
    let ?k = "push_bit 2 (drop_bit 3 n)"
    have k: "?k = n div 8 * 4" by (simp add: push_bit_eq_mult drop_bit_eq_div)
    have "0 \<le> ?k" "?k + 4 \<le> n" "0 \<le> n - 4 - ?k" unfolding k using True n(2) by presburger+
    then show ?thesis using True n wyr4_in [of 0 d] wyr4_in [of ?k d] wyr4_in [of "n - 4" d] wyr4_in [of "n - 4 - ?k" d]
      by (auto simp: shortTail_def Let_def)
  next
    case False
    then show ?thesis using n wyr3_in [of n d] by (auto simp: shortTail_def)
  qed
qed

lemma longTail_in: assumes "n = int (length d)" "16 < n" shows "\<exists>a b s. longTail d n seed = Some (a, b, s)"
proof -
  obtain p i s where h: "(if n > 48 then map_option (\<lambda>(p, i, s, s1, s2). (p, i, s XOR s1 XOR s2)) (blocks48 d 0 n seed seed seed) else Some (0, n, seed)) = Some (p, i, s)"
    and pi: "0 \<le> p" "0 < i" "p + i = n"
    using blocks48_in [of 0 n d seed seed seed] assms by (cases "n > 48") auto
  obtain p' i' s' where b: "blocks16 d p i s = Some (p', i', s')" "p' + i' = n" using blocks16_in [of p i d s] pi assms by auto
  show ?thesis using h b wyr8_in [of "n - 16" d] wyr8_in [of "n - 8" d] assms by (auto simp: longTail_def)
qed

lemma wymix_range: "0 \<le> wymix a b \<and> wymix a b < 2 ^ 64"
proof -
  have m: "x AND MASK64 = x mod 2 ^ 64" for x :: int
    using take_bit_eq_mask [of 64 x] by (simp add: MASK64_def take_bit_eq_mod mask_eq_exp_minus_1 push_bit_eq_mult)
  show ?thesis by (simp add: wymix_def Let_def m)
qed

lemma wyhash64_total: "\<exists>v. wyhash64 d seed = Some v \<and> 0 \<le> v \<and> v < 2 ^ 64"
proof (cases "int (length d) \<le> 16")
  case True
  then show ?thesis using shortTail_in [of "int (length d)" d] wymix_range by (auto simp: wyhash64_def Let_def)
next
  case False
  then show ?thesis using longTail_in [of "int (length d)" d] wymix_range by (fastforce simp: wyhash64_def Let_def)
qed


section \<open>The stream is unambiguous\<close>

lemma length_lengthBytes [simp]: "length (lengthBytes k n) = k"
  by (induction k n rule: lengthBytes.induct) simp_all

lemma setAt_append: "length a = i \<Longrightarrow> length b = length c \<Longrightarrow> setAt (a @ b @ r) i c = a @ c @ r"
  by (simp add: setAt_def)

lemma writeChunks_from:
  "length a = i \<Longrightarrow> writeChunks cs i (a @ replicate (sum_list (map (\<lambda>c. 8 + length c) cs)) 0) =
    a @ concat (map (\<lambda>c. lengthBytes 8 (length c) @ c) cs)"
proof (induction cs arbitrary: a i)
  case (Cons c cs)
  let ?n = "sum_list (map (\<lambda>c. 8 + length c) cs)"
  have "replicate (8 + length c + ?n) (0 :: 8 word) = replicate 8 0 @ replicate (length c) 0 @ replicate ?n 0"
    by (simp only: replicate_add append_assoc)
  then have "setAt (a @ replicate (8 + length c + ?n) 0) i (lengthBytes 8 (length c)) = a @ lengthBytes 8 (length c) @ replicate (length c) 0 @ replicate ?n 0"
    using setAt_append [OF Cons.prems, of "replicate 8 0" "lengthBytes 8 (length c)"] by simp
  moreover have "setAt (a @ lengthBytes 8 (length c) @ replicate (length c) 0 @ replicate ?n 0) (i + 8) c = (a @ lengthBytes 8 (length c) @ c) @ replicate ?n 0"
    using setAt_append [of "a @ lengthBytes 8 (length c)" "i + 8" "replicate (length c) 0" c "replicate ?n 0"] Cons.prems by simp
  ultimately show ?case using Cons.IH [of "a @ lengthBytes 8 (length c) @ c" "i + 8 + length c"] Cons.prems by simp
qed simp

lemma stream_concat: "lengthPrefixedStream cs = concat (map (\<lambda>c. lengthBytes 8 (length c) @ c) cs)"
  using writeChunks_from [of "[]" 0 cs] by (simp add: lengthPrefixedStream_def Let_def)

text \<open>A reader of framed streams: eight bytes of length, then that many bytes.\<close>

fun lengthOf :: "bytes8 \<Rightarrow> nat" where
  "lengthOf [] = 0"
| "lengthOf (b # bs) = unat b + 256 * lengthOf bs"

function unframe :: "bytes8 \<Rightarrow> bytes8 list option" where
  "unframe bs =
    (if bs = [] then Some []
     else if length bs < 8 then None
     else let n = lengthOf (take 8 bs); r = drop 8 bs
          in if length r < n then None else map_option ((#) (take n r)) (unframe (drop n r)))"
  by pat_completeness auto
termination by (relation "measure length") auto

declare unframe.simps [simp del]

lemma lengthOf_lengthBytes: "lengthOf (lengthBytes k n) = n mod 256 ^ k"
proof (induction k n rule: lengthBytes.induct)
  case (2 k n)
  have "unat (word_of_nat (n mod 256) :: 8 word) = n mod 256" by (simp add: unat_of_nat)
  moreover have "n mod 256 + 256 * (n div 256 mod 256 ^ k) = n mod (256 * 256 ^ k)" by (simp add: mod_mult2_eq)
  ultimately show ?case using 2 by simp
qed simp

text \<open>C26. No two chunk sequences share a stream: the framed stream reads back as exactly the chunks
  it was made of, so the hash input determines every input it covers.\<close>

theorem stream_reads_back:
  assumes "\<forall>c \<in> set chunks. length c < 2 ^ 64"
  shows "unframe (lengthPrefixedStream chunks) = Some chunks"
  unfolding stream_concat using assms
proof (induction chunks)
  case Nil
  then show ?case by (simp add: unframe.simps)
next
  case (Cons c cs)
  have "lengthOf (lengthBytes 8 (length c)) = length c" using Cons.prems by (simp add: lengthOf_lengthBytes)
  moreover have "lengthBytes 8 (length c) \<noteq> []" using length_lengthBytes [of 8 "length c"] by fastforce
  ultimately show ?case using Cons by (subst unframe.simps) (simp add: Let_def)
qed

theorem stream_reads_back_witness: "unframe (lengthPrefixedStream [[1, 2], [], [3]]) = Some [[1, 2], [], [3]]"
  by (rule stream_reads_back) simp

section \<open>The rendered hash\<close>

lemma mask_small: "0 \<le> v \<Longrightarrow> v < 2 ^ 64 \<Longrightarrow> v AND MASK64 = v"
  using take_bit_eq_mask [of 64 v] by (simp add: MASK64_def take_bit_eq_mod mask_eq_exp_minus_1 push_bit_eq_mult)

text \<open>The hash of any input is defined, every byte it reads lies inside the input, the result is
  a 64-bit number, and its rendering is exactly sixteen lowercase hex digits that denote it.\<close>

theorem hash_is_total:
  "\<exists>v. wyhash64 d seed = Some v \<and> 0 \<le> v \<and> v < 2 ^ 64 \<and>
     length (hex16 v) = 16 \<and> list_all isHex (hex16 v) \<and> int (hexValue (hex16 v)) = v"
proof -
  obtain v where v: "wyhash64 d seed = Some v" "0 \<le> v" "v < 2 ^ 64" using wyhash64_total by blast
  have m: "v AND MASK64 = v" using v by (intro mask_small) auto
  have "nat v < 16 ^ 16" using v by simp
  then have "length (hex (nat v)) \<le> 16" by (rule hex_length) simp
  moreover have "isHex 0x30" by (simp add: isHex_def js_def)
  ultimately have "length (hex16 v) = 16" "list_all isHex (hex16 v)" "int (hexValue (hex16 v)) = v"
    using hex_digits [of "nat v"] v(2) by (auto simp: hex16_def m padStart_def hexValue_pad hex_value list_all_iff)
  then show ?thesis using v by blast
qed

end
