(* ===== verification/Backend_Mangle.thy ===== *)
theory Backend_Mangle
  imports Js_Text
begin

text \<open>
  Name mangling of the native back ends (\<open>backend/mangle.ts\<close>): one definition per mangler, and the
  partition of the C namespace they are meant to give. The words between the first two underscores
  are pairwise different, so no two manglers meet; and within a mangler different names give
  different symbols, as long as a name holds no text that looks like an escape.
\<close>

section \<open>The manglers\<close>

text \<open>A code unit of \<open>[A-Za-z0-9_]\<close>. The regular expression has no \<open>u\<close> flag, so every other unit is
  replaced on its own and \<open>codePointAt(0)\<close> is the unit.\<close>

definition isWordUnit :: "16 word \<Rightarrow> bool" where
  "isWordUnit c \<longleftrightarrow> 48 \<le> unat c \<and> unat c \<le> 57 \<or> 65 \<le> unat c \<and> unat c \<le> 90 \<or> 97 \<le> unat c \<and> unat c \<le> 122 \<or> unat c = 95"

definition underscore :: "16 word" where
  "underscore = 95"

definition dot :: "16 word" where
  "dot = 46"

definition encodeUnit :: "16 word \<Rightarrow> jsstr" where
  "encodeUnit c = (if isWordUnit c then [c] else if c = dot then [underscore] else js ''_x'' @ hex (unat c) @ [underscore])"

definition sanitize :: "jsstr \<Rightarrow> jsstr" where
  "sanitize s = concat (map encodeUnit s)"

definition mangleFunction :: "jsstr \<Rightarrow> jsstr" where
  "mangleFunction s = js ''sc_f_'' @ sanitize s"

definition mangleLocal :: "jsstr \<Rightarrow> jsstr" where
  "mangleLocal s = js ''sc_l_'' @ sanitize s"

definition mangleRawParam :: "jsstr \<Rightarrow> jsstr" where
  "mangleRawParam s = js ''sc_p_'' @ sanitize s"

definition mangleWrapper :: "jsstr \<Rightarrow> jsstr" where
  "mangleWrapper s = js ''sc_w_'' @ sanitize s"

definition mangleFnClosure :: "jsstr \<Rightarrow> jsstr" where
  "mangleFnClosure s = js ''sc_fc_'' @ sanitize s"

definition mangleClassStruct :: "jsstr \<Rightarrow> jsstr" where
  "mangleClassStruct s = js ''sc_o_'' @ sanitize s"

definition mangleClassObj :: "jsstr \<Rightarrow> jsstr" where
  "mangleClassObj s = js ''sc_co_'' @ sanitize s"

definition mangleCtorThunk :: "jsstr \<Rightarrow> jsstr" where
  "mangleCtorThunk s = js ''sc_ct_'' @ sanitize s"

definition mangleClassNew :: "jsstr \<Rightarrow> jsstr" where
  "mangleClassNew s = js ''sc_new_'' @ sanitize s"

definition mangleClassRetain :: "jsstr \<Rightarrow> jsstr" where
  "mangleClassRetain s = js ''sc_retain_'' @ sanitize s"

definition mangleClassRelease :: "jsstr \<Rightarrow> jsstr" where
  "mangleClassRelease s = js ''sc_release_'' @ sanitize s"

definition mangleField :: "jsstr \<Rightarrow> jsstr" where
  "mangleField s = js ''sc_fld_'' @ sanitize s"

definition mangleClassReleaseDirect :: "jsstr \<Rightarrow> jsstr" where
  "mangleClassReleaseDirect s = js ''sc_reld_'' @ sanitize s"

definition mangleVtStruct :: "jsstr \<Rightarrow> jsstr" where
  "mangleVtStruct s = js ''sc_vtt_'' @ sanitize s"

definition mangleVtInstance :: "jsstr \<Rightarrow> jsstr" where
  "mangleVtInstance s = js ''sc_vtable_'' @ sanitize s"

definition mangleClassTrace :: "jsstr \<Rightarrow> jsstr" where
  "mangleClassTrace s = js ''sc_trace_'' @ sanitize s"

definition mangleClassGcFree :: "jsstr \<Rightarrow> jsstr" where
  "mangleClassGcFree s = js ''sc_gcfree_'' @ sanitize s"

definition mangleRecordStruct :: "jsstr \<Rightarrow> jsstr" where
  "mangleRecordStruct s = js ''sc_rs_'' @ sanitize s"

definition mangleRecordNew :: "jsstr \<Rightarrow> jsstr" where
  "mangleRecordNew s = js ''sc_rnew_'' @ sanitize s"

definition mangleRecordRetain :: "jsstr \<Rightarrow> jsstr" where
  "mangleRecordRetain s = js ''sc_rretain_'' @ sanitize s"

definition mangleRecordRelease :: "jsstr \<Rightarrow> jsstr" where
  "mangleRecordRelease s = js ''sc_rrelease_'' @ sanitize s"

definition mangleRecordTrace :: "jsstr \<Rightarrow> jsstr" where
  "mangleRecordTrace s = js ''sc_rtrace_'' @ sanitize s"

definition mangleRecordGcFree :: "jsstr \<Rightarrow> jsstr" where
  "mangleRecordGcFree s = js ''sc_rgcfree_'' @ sanitize s"

definition mangleAsyncSpawn :: "jsstr \<Rightarrow> jsstr" where
  "mangleAsyncSpawn s = js ''sc_as_'' @ sanitize s"

definition mangleTrampoline :: "jsstr \<Rightarrow> jsstr" where
  "mangleTrampoline s = js ''sc_tr_'' @ sanitize s"

definition mangleArgPack :: "jsstr \<Rightarrow> jsstr" where
  "mangleArgPack s = js ''sc_ap_'' @ sanitize s"

definition mangleGenSpawn :: "jsstr \<Rightarrow> jsstr" where
  "mangleGenSpawn s = js ''sc_gs_'' @ sanitize s"

definition mangleGenDrop :: "jsstr \<Rightarrow> jsstr" where
  "mangleGenDrop s = js ''sc_gd_'' @ sanitize s"

definition mangleVtSlot :: "jsstr \<Rightarrow> nat \<Rightarrow> jsstr" where
  "mangleVtSlot method occurrence =
    (if occurrence = 0 then js ''sc_vs_'' @ sanitize method else js ''sc_vs'' @ dec occurrence @ js ''_'' @ sanitize method)"

definition mangleVtAdapter :: "jsstr \<Rightarrow> jsstr \<Rightarrow> jsstr" where
  "mangleVtAdapter className method = js ''sc_vm_'' @ sanitize (className @ [dot] @ method)"

definition mangleGlobal :: "jsstr \<Rightarrow> jsstr" where
  "mangleGlobal globalId =
    js ''sc_g_'' @ sanitize (if take 3 globalId = js ''%g.'' then drop 3 globalId else globalId)"

definition mangleResolveThunk :: "nat \<Rightarrow> jsstr" where
  "mangleResolveThunk n = js ''sc_rslv_'' @ dec n"

definition mangleGenResThunk :: "nat \<Rightarrow> jsstr" where
  "mangleGenResThunk n = js ''sc_gres_'' @ dec n"

definition mangleRaceThunk :: "nat \<Rightarrow> jsstr" where
  "mangleRaceThunk n = js ''sc_race_'' @ dec n"

definition mangleChildExitThunk :: "nat \<Rightarrow> jsstr" where
  "mangleChildExitThunk n = js ''sc_chexit_'' @ dec n"

definition mangleDgramMsgThunk :: "nat \<Rightarrow> jsstr" where
  "mangleDgramMsgThunk n = js ''sc_dgmsg_'' @ dec n"

definition mangleChildDataThunk :: "nat \<Rightarrow> jsstr" where
  "mangleChildDataThunk n = js ''sc_chdata_'' @ dec n"

definition mangleCloseBindThunk :: "nat \<Rightarrow> jsstr" where
  "mangleCloseBindThunk n = js ''sc_clsbnd_'' @ dec n"

definition mangleCloseOverrideWrap :: "nat \<Rightarrow> jsstr" where
  "mangleCloseOverrideWrap n = js ''sc_ovwrap_'' @ dec n"

definition mangleDnsLookupThunk :: "nat \<Rightarrow> jsstr" where
  "mangleDnsLookupThunk n = js ''sc_dnslk_'' @ dec n"

definition mangleSniAnswerThunk :: "nat \<Rightarrow> jsstr" where
  "mangleSniAnswerThunk n = js ''sc_snians_'' @ dec n"

definition mangleNetLookupAnswerThunk :: "nat \<Rightarrow> jsstr" where
  "mangleNetLookupAnswerThunk n = js ''sc_netlk_'' @ dec n"

definition mangleConnectSockThunk :: "nat \<Rightarrow> jsstr" where
  "mangleConnectSockThunk n = js ''sc_h2conn_'' @ dec n"

definition mangleEmitterInvokeThunk :: "nat \<Rightarrow> jsstr" where
  "mangleEmitterInvokeThunk n = js ''sc_eeinv_'' @ dec n"

definition mangleStreamCbThunk :: "nat \<Rightarrow> jsstr" where
  "mangleStreamCbThunk n = js ''sc_scbinv_'' @ dec n"

definition mangleStreamDoneFn :: "nat \<Rightarrow> jsstr" where
  "mangleStreamDoneFn n = js ''sc_sdone_'' @ dec n"

section \<open>Symbols\<close>

datatype nameKind = KFunction | KLocal | KRawParam | KWrapper | KFnClosure | KClassStruct | KClassObj | KCtorThunk | KClassNew | KClassRetain | KClassRelease | KField | KClassReleaseDirect | KVtStruct | KVtInstance | KClassTrace | KClassGcFree | KRecordStruct | KRecordNew | KRecordRetain | KRecordRelease | KRecordTrace | KRecordGcFree | KAsyncSpawn | KTrampoline | KArgPack | KGenSpawn | KGenDrop

datatype numKind = KResolveThunk | KGenResThunk | KRaceThunk | KChildExitThunk | KDgramMsgThunk | KChildDataThunk | KCloseBindThunk | KCloseOverrideWrap | KDnsLookupThunk | KSniAnswerThunk | KNetLookupAnswerThunk | KConnectSockThunk | KEmitterInvokeThunk | KStreamCbThunk | KStreamDoneFn

text \<open>A request for a symbol.\<close>

datatype msym = NameSym nameKind jsstr | NumSym numKind nat | VtSlotSym jsstr nat | VtAdapterSym jsstr jsstr | GlobalSym jsstr

fun nameSymbol :: "nameKind \<Rightarrow> jsstr \<Rightarrow> jsstr" where
  "nameSymbol KFunction s = mangleFunction s"
| "nameSymbol KLocal s = mangleLocal s"
| "nameSymbol KRawParam s = mangleRawParam s"
| "nameSymbol KWrapper s = mangleWrapper s"
| "nameSymbol KFnClosure s = mangleFnClosure s"
| "nameSymbol KClassStruct s = mangleClassStruct s"
| "nameSymbol KClassObj s = mangleClassObj s"
| "nameSymbol KCtorThunk s = mangleCtorThunk s"
| "nameSymbol KClassNew s = mangleClassNew s"
| "nameSymbol KClassRetain s = mangleClassRetain s"
| "nameSymbol KClassRelease s = mangleClassRelease s"
| "nameSymbol KField s = mangleField s"
| "nameSymbol KClassReleaseDirect s = mangleClassReleaseDirect s"
| "nameSymbol KVtStruct s = mangleVtStruct s"
| "nameSymbol KVtInstance s = mangleVtInstance s"
| "nameSymbol KClassTrace s = mangleClassTrace s"
| "nameSymbol KClassGcFree s = mangleClassGcFree s"
| "nameSymbol KRecordStruct s = mangleRecordStruct s"
| "nameSymbol KRecordNew s = mangleRecordNew s"
| "nameSymbol KRecordRetain s = mangleRecordRetain s"
| "nameSymbol KRecordRelease s = mangleRecordRelease s"
| "nameSymbol KRecordTrace s = mangleRecordTrace s"
| "nameSymbol KRecordGcFree s = mangleRecordGcFree s"
| "nameSymbol KAsyncSpawn s = mangleAsyncSpawn s"
| "nameSymbol KTrampoline s = mangleTrampoline s"
| "nameSymbol KArgPack s = mangleArgPack s"
| "nameSymbol KGenSpawn s = mangleGenSpawn s"
| "nameSymbol KGenDrop s = mangleGenDrop s"

fun numSymbol :: "numKind \<Rightarrow> nat \<Rightarrow> jsstr" where
  "numSymbol KResolveThunk n = mangleResolveThunk n"
| "numSymbol KGenResThunk n = mangleGenResThunk n"
| "numSymbol KRaceThunk n = mangleRaceThunk n"
| "numSymbol KChildExitThunk n = mangleChildExitThunk n"
| "numSymbol KDgramMsgThunk n = mangleDgramMsgThunk n"
| "numSymbol KChildDataThunk n = mangleChildDataThunk n"
| "numSymbol KCloseBindThunk n = mangleCloseBindThunk n"
| "numSymbol KCloseOverrideWrap n = mangleCloseOverrideWrap n"
| "numSymbol KDnsLookupThunk n = mangleDnsLookupThunk n"
| "numSymbol KSniAnswerThunk n = mangleSniAnswerThunk n"
| "numSymbol KNetLookupAnswerThunk n = mangleNetLookupAnswerThunk n"
| "numSymbol KConnectSockThunk n = mangleConnectSockThunk n"
| "numSymbol KEmitterInvokeThunk n = mangleEmitterInvokeThunk n"
| "numSymbol KStreamCbThunk n = mangleStreamCbThunk n"
| "numSymbol KStreamDoneFn n = mangleStreamDoneFn n"

fun symbol :: "msym \<Rightarrow> jsstr" where
  "symbol (NameSym k s) = nameSymbol k s"
| "symbol (NumSym k n) = numSymbol k n"
| "symbol (VtSlotSym m i) = mangleVtSlot m i"
| "symbol (VtAdapterSym c m) = mangleVtAdapter c m"
| "symbol (GlobalSym g) = mangleGlobal g"

section \<open>The words of the manglers\<close>

fun nameWord :: "nameKind \<Rightarrow> string" where
  "nameWord KFunction = ''f''"
| "nameWord KLocal = ''l''"
| "nameWord KRawParam = ''p''"
| "nameWord KWrapper = ''w''"
| "nameWord KFnClosure = ''fc''"
| "nameWord KClassStruct = ''o''"
| "nameWord KClassObj = ''co''"
| "nameWord KCtorThunk = ''ct''"
| "nameWord KClassNew = ''new''"
| "nameWord KClassRetain = ''retain''"
| "nameWord KClassRelease = ''release''"
| "nameWord KField = ''fld''"
| "nameWord KClassReleaseDirect = ''reld''"
| "nameWord KVtStruct = ''vtt''"
| "nameWord KVtInstance = ''vtable''"
| "nameWord KClassTrace = ''trace''"
| "nameWord KClassGcFree = ''gcfree''"
| "nameWord KRecordStruct = ''rs''"
| "nameWord KRecordNew = ''rnew''"
| "nameWord KRecordRetain = ''rretain''"
| "nameWord KRecordRelease = ''rrelease''"
| "nameWord KRecordTrace = ''rtrace''"
| "nameWord KRecordGcFree = ''rgcfree''"
| "nameWord KAsyncSpawn = ''as''"
| "nameWord KTrampoline = ''tr''"
| "nameWord KArgPack = ''ap''"
| "nameWord KGenSpawn = ''gs''"
| "nameWord KGenDrop = ''gd''"

fun numWord :: "numKind \<Rightarrow> string" where
  "numWord KResolveThunk = ''rslv''"
| "numWord KGenResThunk = ''gres''"
| "numWord KRaceThunk = ''race''"
| "numWord KChildExitThunk = ''chexit''"
| "numWord KDgramMsgThunk = ''dgmsg''"
| "numWord KChildDataThunk = ''chdata''"
| "numWord KCloseBindThunk = ''clsbnd''"
| "numWord KCloseOverrideWrap = ''ovwrap''"
| "numWord KDnsLookupThunk = ''dnslk''"
| "numWord KSniAnswerThunk = ''snians''"
| "numWord KNetLookupAnswerThunk = ''netlk''"
| "numWord KConnectSockThunk = ''h2conn''"
| "numWord KEmitterInvokeThunk = ''eeinv''"
| "numWord KStreamCbThunk = ''scbinv''"
| "numWord KStreamDoneFn = ''sdone''"

definition allNameKinds :: "nameKind list" where
  "allNameKinds = [KFunction, KLocal, KRawParam, KWrapper, KFnClosure, KClassStruct, KClassObj, KCtorThunk, KClassNew, KClassRetain, KClassRelease, KField, KClassReleaseDirect, KVtStruct, KVtInstance, KClassTrace, KClassGcFree, KRecordStruct, KRecordNew, KRecordRetain, KRecordRelease, KRecordTrace, KRecordGcFree, KAsyncSpawn, KTrampoline, KArgPack, KGenSpawn, KGenDrop]"

definition allNumKinds :: "numKind list" where
  "allNumKinds = [KResolveThunk, KGenResThunk, KRaceThunk, KChildExitThunk, KDgramMsgThunk, KChildDataThunk, KCloseBindThunk, KCloseOverrideWrap, KDnsLookupThunk, KSniAnswerThunk, KNetLookupAnswerThunk, KConnectSockThunk, KEmitterInvokeThunk, KStreamCbThunk, KStreamDoneFn]"

lemma kinds_complete: "k \<in> set allNameKinds" "l \<in> set allNumKinds"
  by (cases k, simp_all add: allNameKinds_def) (cases l, simp_all add: allNumKinds_def)

lemma words_distinct: "distinct (map nameWord allNameKinds @ map numWord allNumKinds @ [''vm'', ''g''])"
  by (simp add: allNameKinds_def allNumKinds_def)

text \<open>Where a symbol's word ends and what follows it.\<close>

fun wordOf :: "msym \<Rightarrow> jsstr" where
  "wordOf (NameSym k s) = js (nameWord k)"
| "wordOf (NumSym k n) = js (numWord k)"
| "wordOf (VtSlotSym m i) = js ''vs'' @ (if i = 0 then [] else dec i)"
| "wordOf (VtAdapterSym c m) = js ''vm''"
| "wordOf (GlobalSym g) = js ''g''"

fun bodyOf :: "msym \<Rightarrow> jsstr" where
  "bodyOf (NameSym k s) = sanitize s"
| "bodyOf (NumSym k n) = dec n"
| "bodyOf (VtSlotSym m i) = sanitize m"
| "bodyOf (VtAdapterSym c m) = sanitize (c @ [dot] @ m)"
| "bodyOf (GlobalSym g) = sanitize (if take 3 g = js ''%g.'' then drop 3 g else g)"

lemma nameSymbol_split: "nameSymbol k s = js ''sc_'' @ js (nameWord k) @ [underscore] @ sanitize s"
  by (cases k) (simp_all add: js_def underscore_def mangleFunction_def mangleLocal_def mangleRawParam_def mangleWrapper_def mangleFnClosure_def mangleClassStruct_def mangleClassObj_def mangleCtorThunk_def mangleClassNew_def mangleClassRetain_def mangleClassRelease_def mangleField_def mangleClassReleaseDirect_def mangleVtStruct_def mangleVtInstance_def mangleClassTrace_def mangleClassGcFree_def mangleRecordStruct_def mangleRecordNew_def mangleRecordRetain_def mangleRecordRelease_def mangleRecordTrace_def mangleRecordGcFree_def mangleAsyncSpawn_def mangleTrampoline_def mangleArgPack_def mangleGenSpawn_def mangleGenDrop_def)

lemma numSymbol_split: "numSymbol k n = js ''sc_'' @ js (numWord k) @ [underscore] @ dec n"
  by (cases k) (simp_all add: js_def underscore_def mangleResolveThunk_def mangleGenResThunk_def mangleRaceThunk_def mangleChildExitThunk_def mangleDgramMsgThunk_def mangleChildDataThunk_def mangleCloseBindThunk_def mangleCloseOverrideWrap_def mangleDnsLookupThunk_def mangleSniAnswerThunk_def mangleNetLookupAnswerThunk_def mangleConnectSockThunk_def mangleEmitterInvokeThunk_def mangleStreamCbThunk_def mangleStreamDoneFn_def)

lemma symbol_split: "symbol a = js ''sc_'' @ wordOf a @ [underscore] @ bodyOf a"
  by (cases a) (simp_all add: nameSymbol_split numSymbol_split mangleVtSlot_def mangleVtAdapter_def mangleGlobal_def js_def underscore_def)

lemma dec_no_underscore: "underscore \<notin> set (dec n)"
  using dec_digits [of underscore n] by (auto simp: underscore_def)

lemma word_no_underscore: "underscore \<notin> set (wordOf a)"
proof (cases a)
  case (NameSym k s)
  then show ?thesis by (cases k) (simp_all add: js_def underscore_def)
next
  case (NumSym k n)
  then show ?thesis by (cases k) (simp_all add: js_def underscore_def)
next
  case (VtSlotSym m i)
  then show ?thesis using dec_no_underscore by (simp add: js_def) (simp add: underscore_def)
qed (simp_all add: js_def underscore_def)

lemma symbol_parts: "symbol a = symbol b \<Longrightarrow> wordOf a = wordOf b \<and> bodyOf a = bodyOf b"
  using append_sep_inj [OF word_no_underscore word_no_underscore, of a "bodyOf a" b "bodyOf b"] by (simp add: symbol_split)

lemma word_inj:
  "js (nameWord k) = js (nameWord k') \<Longrightarrow> k = k'" "js (numWord l) = js (numWord l') \<Longrightarrow> l = l'" "js (nameWord k) \<noteq> js (numWord l)"
proof -
  have d: "distinct (map nameWord allNameKinds)" "distinct (map numWord allNumKinds)"
    "set (map nameWord allNameKinds) \<inter> set (map numWord allNumKinds) = {}" using words_distinct by auto
  show "k = k'" if "js (nameWord k) = js (nameWord k')"
    using d(1) js_inj [OF that] kinds_complete(1) by (auto simp: distinct_map inj_on_def)
  show "l = l'" if "js (numWord l) = js (numWord l')"
    using d(2) js_inj [OF that] kinds_complete(2) by (auto simp: distinct_map inj_on_def)
  show "js (nameWord k) \<noteq> js (numWord l)" using d(3) js_inj kinds_complete by fastforce
qed

text \<open>The words that are no mangler's own constant.\<close>

lemma word_apart:
  "js (nameWord k) \<noteq> js ''vm''" "js (nameWord k) \<noteq> js ''g''" "js (numWord l) \<noteq> js ''vm''" "js (numWord l) \<noteq> js ''g''"
  "js (nameWord k) \<noteq> js ''vs'' @ ds" "js (numWord l) \<noteq> js ''vs'' @ ds" "js ''vm'' \<noteq> js ''vs'' @ ds" "js ''g'' \<noteq> js ''vs'' @ ds" "js ''g'' \<noteq> js ''vm''"
proof -
  show "js (nameWord k) \<noteq> js ''vm''" "js (nameWord k) \<noteq> js ''g''" "js (nameWord k) \<noteq> js ''vs'' @ ds" by (cases k; simp add: js_def)+
  show "js (numWord l) \<noteq> js ''vm''" "js (numWord l) \<noteq> js ''g''" "js (numWord l) \<noteq> js ''vs'' @ ds" by (cases l; simp add: js_def)+
qed (simp_all add: js_def)

section \<open>Sanitized names\<close>

text \<open>Names without a dot and without the start of an escape.\<close>

fun escapeFree :: "jsstr \<Rightarrow> bool" where
  "escapeFree (c # d # s) = (\<not> (c = underscore \<and> d = 120) \<and> escapeFree (d # s))"
| "escapeFree s = True"

definition okName :: "jsstr \<Rightarrow> bool" where
  "okName s \<longleftrightarrow> dot \<notin> set s \<and> escapeFree s"

definition alnum :: "jsstr \<Rightarrow> bool" where
  "alnum s \<longleftrightarrow> list_all isWordUnit s \<and> underscore \<notin> set s"

lemma hex_no_underscore: "underscore \<notin> set (hex n)"
  using hex_digits [of n] by (auto simp: list_all_iff isHex_def underscore_def js_def)

lemma encode_not_Nil [simp]: "encodeUnit c \<noteq> []"
  by (simp add: encodeUnit_def js_def)

lemma sanitize_simps [simp]: "sanitize [] = []" "sanitize (c # s) = encodeUnit c @ sanitize s" "sanitize (s @ t) = sanitize s @ sanitize t"
  by (simp_all add: sanitize_def)

text \<open>An \<open>x\<close> at the front comes from an \<open>x\<close>.\<close>

lemma sanitize_x: assumes "sanitize s = 120 # r" shows "\<exists>s'. s = 120 # s'"
proof (cases s)
  case (Cons c s')
  then have "encodeUnit c @ sanitize s' = 120 # r" using assms by simp
  then have "c = 120" by (auto simp: encodeUnit_def js_def underscore_def split: if_splits)
  then show ?thesis using Cons by simp
qed (use assms in simp)

lemma okName_tl: "okName (c # s) \<Longrightarrow> okName s"
  by (cases s) (auto simp: okName_def)

lemma word_escape:
  assumes "okName (c # s)" "isWordUnit c" "\<not> isWordUnit d" "d \<noteq> dot" "encodeUnit c @ sanitize s = encodeUnit d @ r" shows False
proof -
  have e: "c # sanitize s = underscore # 120 # hex (unat d) @ underscore # r"
    using assms(2-5) by (simp add: encodeUnit_def js_def underscore_def)
  then obtain s' where "s = 120 # s'" using sanitize_x [of s] by auto
  then show False using assms(1) e by (simp add: okName_def)
qed

lemma sanitize_inj: "okName s \<Longrightarrow> okName t \<Longrightarrow> sanitize s = sanitize t \<Longrightarrow> s = t"
proof (induction s arbitrary: t)
  case Nil
  then show ?case by (cases t) auto
next
  case (Cons c s)
  then obtain d t' where t: "t = d # t'" by (cases t) auto
  have nd: "c \<noteq> dot" "d \<noteq> dot" using Cons.prems t by (auto simp: okName_def)
  have e: "encodeUnit c @ sanitize s = encodeUnit d @ sanitize t'" using Cons.prems(3) t by simp
  have "c = d \<and> sanitize s = sanitize t'"
  proof (cases "isWordUnit c"; cases "isWordUnit d")
    assume "isWordUnit c" "isWordUnit d"
    then show ?thesis using e by (simp add: encodeUnit_def)
  next
    assume "isWordUnit c" "\<not> isWordUnit d"
    then show ?thesis using word_escape [OF Cons.prems(1) _ _ nd(2) e] by simp
  next
    assume "\<not> isWordUnit c" "isWordUnit d"
    then show ?thesis using word_escape [of d t' c "sanitize s"] Cons.prems(2) t nd e by simp
  next
    assume w: "\<not> isWordUnit c" "\<not> isWordUnit d"
    then have "hex (unat c) @ underscore # sanitize s = hex (unat d) @ underscore # sanitize t'"
      using e nd by (simp add: encodeUnit_def)
    from append_sep_inj [OF hex_no_underscore hex_no_underscore this]
    have "hex (unat c) = hex (unat d)" "sanitize s = sanitize t'" by auto
    moreover have "unat c = unat d" using arg_cong [OF calculation(1), of hexValue] unfolding hex_value .
    ultimately show ?thesis by (simp add: word_unat_eq_iff)
  qed
  then show ?case using Cons.IH [of t'] okName_tl Cons.prems(1,2) t by blast
qed

lemma sanitize_word: "list_all isWordUnit s \<Longrightarrow> sanitize s = s"
  by (induction s) (auto simp: encodeUnit_def)

lemma dec_word: "list_all isWordUnit (dec n)"
  using dec_digits by (auto simp: list_all_iff isWordUnit_def)

lemma encode_dot: "encodeUnit dot = [underscore]"
  by (simp add: encodeUnit_def isWordUnit_def dot_def)

text \<open>A local's identifier is its name, a dot and a counter.\<close>

lemma sanitize_local_inj:
  assumes "okName n" "okName m" "sanitize (n @ [dot] @ dec i) = sanitize (m @ [dot] @ dec j)" shows "n @ [dot] @ dec i = m @ [dot] @ dec j"
proof -
  have "sanitize n @ underscore # dec i = sanitize m @ underscore # dec j"
    using assms(3) by (simp add: encode_dot sanitize_word dec_word)
  from arg_cong [OF this, of rev]
  have "rev (dec i) @ underscore # rev (sanitize n) = rev (dec j) @ underscore # rev (sanitize m)" by simp
  from append_sep_inj [OF _ _ this] dec_no_underscore have "dec i = dec j" "sanitize n = sanitize m" by auto
  then show ?thesis using sanitize_inj assms(1,2) by auto
qed

text \<open>Two parts, the first of letters and digits.\<close>

lemma sanitize_pair_inj:
  assumes "alnum c" "alnum d" "okName m" "okName n" "sanitize (c @ [dot] @ m) = sanitize (d @ [dot] @ n)" shows "c = d \<and> m = n"
proof -
  have "c @ underscore # sanitize m = d @ underscore # sanitize n"
    using assms by (simp add: encode_dot sanitize_word alnum_def)
  from append_sep_inj [OF _ _ this] assms(1,2) show ?thesis using sanitize_inj [OF assms(3,4)] by (auto simp: alnum_def)
qed

text \<open>Symbols of admissible names: a local's identifier has its counter, a vtable adapter and a global
  their two parts, and every other name has no dot. The compiler also asks for symbols of function and
  class names with a dot (constructors, methods and qualified names); they are not admissible, and
  among them symbols collide, as \<open>mangled_names_collide\<close> shows.\<close>

fun okSym :: "msym \<Rightarrow> bool" where
  "okSym (NameSym k s) = (if k = KLocal \<or> k = KRawParam then \<exists>n i. okName n \<and> s = n @ [dot] @ dec i else okName s)"
| "okSym (NumSym k n) = True"
| "okSym (VtSlotSym m i) = okName m"
| "okSym (VtAdapterSym c m) = (alnum c \<and> okName m)"
| "okSym (GlobalSym g) = (\<exists>t n. alnum t \<and> okName n \<and> g = js ''%g.'' @ t @ [dot] @ n)"

lemma nameSym_inj: "okSym (NameSym k s) \<Longrightarrow> okSym (NameSym k t) \<Longrightarrow> sanitize s = sanitize t \<Longrightarrow> s = t"
proof -
  assume a: "okSym (NameSym k s)" "okSym (NameSym k t)" "sanitize s = sanitize t"
  show "s = t"
  proof (cases "k = KLocal \<or> k = KRawParam")
    case True
    then obtain n i m j where s: "okName n" "s = n @ [dot] @ dec i" "okName m" "t = m @ [dot] @ dec j" using a(1,2) by auto
    show ?thesis unfolding s(2,4) by (rule sanitize_local_inj [OF s(1,3) a(3) [unfolded s(2,4)]])
  next
    case False
    then have "okName s" "okName t" using a(1,2) by simp_all
    then show ?thesis using a(3) by (rule sanitize_inj)
  qed
qed

lemma slotWord_inj: "(if i = 0 then [] else dec i) = (if j = 0 then [] else dec j) \<Longrightarrow> i = j"
  using dec_not_Nil [of i] dec_not_Nil [of j] by (auto split: if_splits dest: dec_inj simp del: dec_not_Nil)

text \<open>C17. The manglers partition the C namespace: two symbols are equal only when the same mangler was
  given the same name. A name may hold any UTF-16 text without a dot and without an underscore
  followed by \<open>x\<close>, the start of an escape.\<close>

theorem symbols_distinct:
  assumes "okSym a" "okSym b" "symbol a = symbol b" shows "a = b"
proof -
  have p: "wordOf a = wordOf b" "bodyOf a = bodyOf b" using symbol_parts [OF assms(3)] by auto
  show ?thesis
  proof (cases a; cases b)
    fix k s k' s' assume x: "a = NameSym k s" "b = NameSym k' s'"
    then have "k = k'" using p(1) word_inj(1) by simp
    then show ?thesis using nameSym_inj [of k s s'] assms(1,2) x p(2) by simp
  next
    fix k n k' n' assume x: "a = NumSym k n" "b = NumSym k' n'"
    then show ?thesis using p word_inj(2) dec_inj by simp
  next
    fix m i m' i' assume x: "a = VtSlotSym m i" "b = VtSlotSym m' i'"
    then show ?thesis using p slotWord_inj [of i i'] sanitize_inj assms(1,2) by (simp add: js_def)
  next
    fix c m c' m' assume x: "a = VtAdapterSym c m" "b = VtAdapterSym c' m'"
    then show ?thesis using p sanitize_pair_inj [of c c' m m'] assms(1,2) by simp
  next
    fix g g' assume x: "a = GlobalSym g" "b = GlobalSym g'"
    then obtain t n t' n' where g: "g = js ''%g.'' @ t @ [dot] @ n" "g' = js ''%g.'' @ t' @ [dot] @ n'" "alnum t" "alnum t'" "okName n" "okName n'"
      using assms(1,2) by auto
    have "length (js ''%g.'') = 3" by (simp add: js_def)
    then have "sanitize (t @ [dot] @ n) = sanitize (t' @ [dot] @ n')" using p(2) x g by simp
    from sanitize_pair_inj [OF g(3,4,5,6) this] show ?thesis using x g by simp
  qed (use p(1) word_inj(3) word_apart in \<open>auto simp: eq_commute [of "js _" "js _"] eq_commute [of "js _ @ _" "js _"]\<close>)
qed

theorem symbols_distinct_witness: "symbol (NameSym KLocal (js ''n.1'')) \<noteq> symbol (VtSlotSym (js ''n'') 1)"
proof
  assume e: "symbol (NameSym KLocal (js ''n.1'')) = symbol (VtSlotSym (js ''n'') 1)"
  have "dec 1 = js ''1''" by (simp add: dec.simps js_def digit_def)
  then have "js ''n.1'' = js ''n'' @ [dot] @ dec 1" by (simp add: js_def dot_def)
  moreover have "okName (js ''n'')" by (simp add: okName_def js_def dot_def)
  ultimately have "okSym (NameSym KLocal (js ''n.1''))" by auto
  moreover have "okSym (VtSlotSym (js ''n'') 1)" by (simp add: okName_def js_def dot_def)
  ultimately show False using symbols_distinct [OF _ _ e] by blast
qed

text \<open>A name that spells an escape takes the symbol of the name it spells, and the dot of a member
  name meets the underscore of another: \<open>a$\<close> and \<open>a_x24_\<close> are one C name, and so are the methods
  \<open>A.b_c\<close> and \<open>A_b.c\<close>.\<close>

theorem mangled_names_collide:
  "js ''a$'' \<noteq> js ''a_x24_'' \<and> mangleFunction (js ''a$'') = mangleFunction (js ''a_x24_'') \<and>
   js ''A.b_c'' \<noteq> js ''A_b.c'' \<and> mangleFunction (js ''A.b_c'') = mangleFunction (js ''A_b.c'')"
  by (simp add: mangleFunction_def sanitize_def encodeUnit_def isWordUnit_def js_def dot_def underscore_def hex.simps hexUnit_def)


end
