(* ===== verification/Llvm_Blocks.thy ===== *)
theory Llvm_Blocks
  imports Js_Prelude
begin

text \<open>
  The basic-block builder of the LLVM back end (\<open>backend/llvm/blocks.ts\<close>): its state, one
  definition per method, and its two promises. The rendered function is the call sequence cut at
  the block starts, each block its lines up to the first terminator and then that terminator; and
  the names it hands out are fresh.
\<close>

section \<open>The builder\<close>

record Block =
  bb_label :: jsstr
  bb_lines :: "jsstr list"
  bb_term :: "jsstr option"

text \<open>\<open>cur\<close> is the last element of \<open>blocks\<close>; here the blocks before it and the current one.\<close>

record BlockBuilder =
  bb_before :: "Block list"
  bb_cur :: Block
  entryAllocas :: "jsstr list"
  tempCounter :: nat
  labelCounter :: nat

definition newBlock :: "jsstr \<Rightarrow> Block" where
  "newBlock label = \<lparr> bb_label = label, bb_lines = [], bb_term = None \<rparr>"

definition newBuilder :: BlockBuilder where
  "newBuilder = \<lparr> bb_before = [], bb_cur = newBlock (js ''entry''), entryAllocas = [], tempCounter = 0, labelCounter = 0 \<rparr>"

definition newLabel :: "jsstr \<Rightarrow> BlockBuilder \<Rightarrow> jsstr \<times> BlockBuilder" where
  "newLabel hint b = (hint @ dec (labelCounter b), b\<lparr> labelCounter := Suc (labelCounter b) \<rparr>)"

definition startBlock :: "jsstr \<Rightarrow> BlockBuilder \<Rightarrow> BlockBuilder" where
  "startBlock label b = b\<lparr> bb_before := bb_before b @ [bb_cur b], bb_cur := newBlock label \<rparr>"

definition indent :: "jsstr \<Rightarrow> jsstr" where
  "indent s = js ''  '' @ s"

definition addLine :: "jsstr \<Rightarrow> BlockBuilder \<Rightarrow> BlockBuilder" where
  "addLine s b = (let c = bb_cur b in if bb_term c = None then b\<lparr> bb_cur := c\<lparr> bb_lines := bb_lines c @ [indent s] \<rparr> \<rparr> else b)"

definition tmp :: "BlockBuilder \<Rightarrow> jsstr \<times> BlockBuilder" where
  "tmp b = (js ''%t'' @ dec (tempCounter b), b\<lparr> tempCounter := Suc (tempCounter b) \<rparr>)"

definition slot :: "BlockBuilder \<Rightarrow> jsstr \<times> BlockBuilder" where
  "slot b = (js ''%s'' @ dec (tempCounter b), b\<lparr> tempCounter := Suc (tempCounter b) \<rparr>)"

definition isTerminated :: "BlockBuilder \<Rightarrow> bool" where
  "isTerminated b \<longleftrightarrow> bb_term (bb_cur b) \<noteq> None"

definition terminate :: "jsstr \<Rightarrow> BlockBuilder \<Rightarrow> BlockBuilder" where
  "terminate s b = (let c = bb_cur b in if bb_term c = None then b\<lparr> bb_cur := c\<lparr> bb_term := Some (indent s) \<rparr> \<rparr> else b)"

definition brText :: "jsstr \<Rightarrow> jsstr" where
  "brText label = js ''br label %'' @ label"

definition condBrText :: "jsstr \<Rightarrow> jsstr \<Rightarrow> jsstr \<Rightarrow> jsstr" where
  "condBrText v t f = js ''br i1 '' @ v @ js '', label %'' @ t @ js '', label %'' @ f"

definition br_llvm :: "jsstr \<Rightarrow> BlockBuilder \<Rightarrow> BlockBuilder" where
  "br_llvm label = terminate (brText label)"

definition condBr :: "jsstr \<Rightarrow> jsstr \<Rightarrow> jsstr \<Rightarrow> BlockBuilder \<Rightarrow> BlockBuilder" where
  "condBr v t f = terminate (condBrText v t f)"

text \<open>\<open>entryAllocas.push\<close>, as the clients do.\<close>

definition addAlloca :: "jsstr \<Rightarrow> BlockBuilder \<Rightarrow> BlockBuilder" where
  "addAlloca s b = b\<lparr> entryAllocas := entryAllocas b @ [s] \<rparr>"

definition newline :: jsstr where
  "newline = [10]"

definition renderBlock :: "jsstr list \<Rightarrow> Block \<Rightarrow> jsstr" where
  "renderBlock allocas b =
    (let ls = map indent allocas @ bb_lines b
     in bb_label b @ js '':'' @ newline @ join newline ls @ (if ls = [] then [] else newline) @
        (case bb_term b of Some t \<Rightarrow> t | None \<Rightarrow> indent (js ''unreachable'')))"

definition allBlocks :: "BlockBuilder \<Rightarrow> Block list" where
  "allBlocks b = bb_before b @ [bb_cur b]"

definition render :: "BlockBuilder \<Rightarrow> jsstr" where
  "render b = join newline (map (\<lambda>(i, k). renderBlock (if i = 0 then entryAllocas b else []) k) (enumerate 0 (allBlocks b)))"

section \<open>Call sequences\<close>

datatype bop = NewLabel jsstr | StartBlock jsstr | Line jsstr | Tmp | Slot | Terminate jsstr | Br jsstr
  | CondBr jsstr jsstr jsstr | Alloca jsstr

fun runOp :: "bop \<Rightarrow> BlockBuilder \<Rightarrow> jsstr list \<times> BlockBuilder" where
  "runOp (NewLabel h) b = (case newLabel h b of (n, b) \<Rightarrow> ([js ''%'' @ n], b))"
| "runOp (StartBlock l) b = ([], startBlock l b)"
| "runOp (Line s) b = ([], addLine s b)"
| "runOp Tmp b = (case tmp b of (n, b) \<Rightarrow> ([n], b))"
| "runOp Slot b = (case slot b of (n, b) \<Rightarrow> ([n], b))"
| "runOp (Terminate s) b = ([], terminate s b)"
| "runOp (Br l) b = ([], br_llvm l b)"
| "runOp (CondBr v t f) b = ([], condBr v t f b)"
| "runOp (Alloca s) b = ([], addAlloca s b)"

text \<open>The local identifiers handed out, in order, and the builder at the end. LLVM has one namespace
  for values and labels: the label \<open>n\<close> is the local \<open>%n\<close>.\<close>

fun runOps :: "bop list \<Rightarrow> BlockBuilder \<Rightarrow> jsstr list \<times> BlockBuilder" where
  "runOps [] b = ([], b)"
| "runOps (op # ops) b = (case runOp op b of (ns, b) \<Rightarrow> case runOps ops b of (ms, b) \<Rightarrow> (ns @ ms, b))"

section \<open>What a call sequence stands for\<close>

fun termOf :: "bop \<Rightarrow> jsstr option" where
  "termOf (Terminate s) = Some s"
| "termOf (Br l) = Some (brText l)"
| "termOf (CondBr v t f) = Some (condBrText v t f)"
| "termOf _ = None"

fun lineOf :: "bop \<Rightarrow> jsstr list" where
  "lineOf (Line s) = [s]"
| "lineOf _ = []"

fun allocaOf :: "bop \<Rightarrow> jsstr list" where
  "allocaOf (Alloca s) = [s]"
| "allocaOf _ = []"

text \<open>Cut at the block starts.\<close>

fun cut :: "jsstr \<Rightarrow> bop list \<Rightarrow> (jsstr \<times> bop list) list" where
  "cut label [] = [(label, [])]"
| "cut label (StartBlock l # ops) = (label, []) # cut l ops"
| "cut label (op # ops) = (case cut label ops of (l, os) # rest \<Rightarrow> (l, op # os) # rest | [] \<Rightarrow> [])"

text \<open>A block: its lines up to the first terminator, and that terminator or \<open>unreachable\<close>.\<close>

definition blockText :: "jsstr list \<Rightarrow> jsstr \<times> bop list \<Rightarrow> jsstr" where
  "blockText allocas lb =
    (let ls = allocas @ concat (map lineOf (takeWhile (\<lambda>op. termOf op = None) (snd lb)));
         t = (case List.map_filter termOf (snd lb) of t # _ \<Rightarrow> t | [] \<Rightarrow> js ''unreachable'')
     in join newline ((fst lb @ js '':'') # map indent (ls @ [t])))"

definition functionText :: "bop list \<Rightarrow> jsstr" where
  "functionText ops =
    (case cut (js ''entry'') ops of b # bs \<Rightarrow> join newline (blockText (concat (map allocaOf ops)) b # map (blockText []) bs) | [] \<Rightarrow> [])"


section \<open>The builder keeps the calls up to the terminator\<close>

definition fill :: "Block \<Rightarrow> bop list \<Rightarrow> Block" where
  "fill c ops =
    (if bb_term c \<noteq> None then c
     else c\<lparr> bb_lines := bb_lines c @ map indent (concat (map lineOf (takeWhile (\<lambda>op. termOf op = None) ops))),
             bb_term := map_option indent (case List.map_filter termOf ops of t # _ \<Rightarrow> Some t | [] \<Rightarrow> None) \<rparr>)"

lemma fill_Nil [simp]: "fill c [] = c"
  by (simp add: fill_def List.map_filter_def)

text \<open>One call on the current block, and the calls after it.\<close>

definition step :: "bop \<Rightarrow> Block \<Rightarrow> Block" where
  "step op c =
    (if bb_term c \<noteq> None then c
     else case termOf op of Some t \<Rightarrow> c\<lparr> bb_term := Some (indent t) \<rparr> | None \<Rightarrow> c\<lparr> bb_lines := bb_lines c @ map indent (lineOf op) \<rparr>)"

lemma fill_Cons: "fill c (op # ops) = fill (step op c) ops"
  by (auto simp: fill_def step_def List.map_filter_def split: option.splits list.splits)

lemma runOp_step:
  assumes "\<And>l. op \<noteq> StartBlock l"
  shows "bb_before (snd (runOp op b)) = bb_before b \<and> bb_cur (snd (runOp op b)) = step op (bb_cur b)"
  using assms by (cases op) (auto simp: step_def newLabel_def addLine_def tmp_def slot_def terminate_def br_llvm_def condBr_def addAlloca_def Let_def)

lemma step_label [simp]: "bb_label (step op c) = bb_label c"
  by (simp add: step_def split: option.splits)

lemma cut_head: "\<exists>os rest. cut label ops = (label, os) # rest"
  by (induction label ops rule: cut.induct) (auto split: list.splits)

lemma cut_other: assumes "\<And>l. op \<noteq> StartBlock l" "cut label ops = (label, os) # rest" shows "cut label (op # ops) = (label, op # os) # rest"
  using assms by (cases op) auto

lemma allBlocks_runOps:
  "cut (bb_label (bb_cur b)) ops = (l, os) # rest \<Longrightarrow>
    allBlocks (snd (runOps ops b)) = bb_before b @ fill (bb_cur b) os # map (\<lambda>(l, os). fill (newBlock l) os) rest"
proof (induction ops arbitrary: b l os rest)
  case Nil
  then show ?case by (simp add: allBlocks_def)
next
  case (Cons op ops)
  obtain ns b1 where r: "runOp op b = (ns, b1)" by (cases "runOp op b")
  have e: "snd (runOps (op # ops) b) = snd (runOps ops b1)" by (simp add: r split: prod.splits)
  show ?case
  proof (cases "\<exists>k. op = StartBlock k")
    case True
    then obtain k where k: "op = StartBlock k" by blast
    obtain os' rest' where c: "cut k ops = (k, os') # rest'" using cut_head by blast
    have b1: "b1 = startBlock k b" using r k by simp
    have "allBlocks (snd (runOps ops b1)) = bb_before b1 @ fill (bb_cur b1) os' # map (\<lambda>(l, os). fill (newBlock l) os) rest'"
      by (rule Cons.IH) (simp add: b1 startBlock_def newBlock_def c)
    then show ?thesis using Cons.prems k e by (auto simp: c b1 startBlock_def)
  next
    case False
    obtain os' rest' where c: "cut (bb_label (bb_cur b)) ops = (bb_label (bb_cur b), os') # rest'" using cut_head by blast
    have f: "(l, os) = (bb_label (bb_cur b), op # os')" "rest = rest'" using cut_other [OF _ c, of op] Cons.prems False by auto
    have s: "bb_before b1 = bb_before b" "bb_cur b1 = step op (bb_cur b)" using runOp_step [of op b] False r by auto
    have "allBlocks (snd (runOps ops b1)) = bb_before b1 @ fill (bb_cur b1) os' # map (\<lambda>(l, os). fill (newBlock l) os) rest'"
      by (rule Cons.IH) (simp add: s c)
    then show ?thesis using e f s by (simp add: fill_Cons)
  qed
qed

lemma allocas_runOps: "entryAllocas (snd (runOps ops b)) = entryAllocas b @ concat (map allocaOf ops)"
proof (induction ops arbitrary: b)
  case (Cons op ops)
  obtain ns b1 where r: "runOp op b = (ns, b1)" by (cases "runOp op b")
  then have "entryAllocas b1 = entryAllocas b @ allocaOf op"
    by (cases op) (auto simp: newLabel_def startBlock_def addLine_def tmp_def slot_def terminate_def br_llvm_def condBr_def addAlloca_def Let_def)
  then show ?case using Cons.IH [of b1] by (auto simp: r split: prod.splits)
qed simp

lemma join_snoc: "join sep (xs @ [x]) = (if xs = [] then x else join sep xs @ sep @ x)"
  by (induction sep xs rule: join.induct) auto

lemma renderBlock_fill: "renderBlock allocas (fill (newBlock l) os) = blockText allocas (l, os)"
proof -
  let ?ls = "map indent allocas @ map indent (concat (map lineOf (takeWhile (\<lambda>op. termOf op = None) os)))"
  let ?t = "case List.map_filter termOf os of t # _ \<Rightarrow> t | [] \<Rightarrow> js ''unreachable''"
  have j: "join newline (x # ls @ [t]) = x @ newline @ join newline ls @ (if ls = [] then [] else newline) @ t" for x t :: jsstr and ls
    using join_snoc [of newline "x # ls" t] by (cases ls) auto
  have "blockText allocas (l, os) = join newline ((l @ js '':'') # ?ls @ [indent ?t])"
    by (simp add: blockText_def Let_def)
  also have "\<dots> = l @ js '':'' @ newline @ join newline ?ls @ (if ?ls = [] then [] else newline) @ indent ?t" using j [of "l @ js '':''" ?ls "indent ?t"] by simp
  finally show ?thesis
    by (simp add: renderBlock_def fill_def newBlock_def Let_def split: list.splits)
qed

lemma enumerate_Suc: "map (\<lambda>(i, k). f (if i = 0 then x else y) k) (enumerate (Suc n) ks) = map (f y) ks"
  by (induction ks arbitrary: n) auto

text \<open>C18. The rendered function is what the calls say: cut the call sequence at the block starts; the
  entry block's allocas come first, each block holds its lines up to the first terminator, then
  exactly that terminator (\<open>unreachable\<close> when it has none), and what was called after it is gone.\<close>

theorem render_is_call_sequence: "render (snd (runOps ops newBuilder)) = functionText ops"
proof -
  obtain os rest where c: "cut (js ''entry'') ops = (js ''entry'', os) # rest" using cut_head by blast
  have "allBlocks (snd (runOps ops newBuilder)) = fill (newBlock (js ''entry'')) os # map (\<lambda>(l, os). fill (newBlock l) os) rest"
    using allBlocks_runOps [of newBuilder ops] c by (simp add: newBuilder_def newBlock_def)
  moreover have "map (renderBlock []) (map (\<lambda>(l, os). fill (newBlock l) os) rest) = map (blockText []) rest"
    by (auto simp: renderBlock_fill)
  moreover have al: "entryAllocas (snd (runOps ops newBuilder)) = concat (map allocaOf ops)" by (simp add: allocas_runOps newBuilder_def)
  moreover note enumerate_Suc [of renderBlock "concat (map allocaOf ops)" "[]" 0]
  ultimately show ?thesis unfolding render_def al by (simp add: functionText_def c renderBlock_fill del: map_map)
qed

section \<open>Fresh names\<close>

text \<open>Two hints are apart when neither is the other followed by digits.\<close>

definition isDecUnit :: "16 word \<Rightarrow> bool" where
  "isDecUnit c \<longleftrightarrow> 48 \<le> unat c \<and> unat c \<le> 57"

definition apart :: "jsstr \<Rightarrow> jsstr \<Rightarrow> bool" where
  "apart h k \<longleftrightarrow> h = k \<or> \<not> (\<exists>ds. list_all isDecUnit ds \<and> (h = k @ ds \<or> k = h @ ds))"

fun hintOf :: "bop \<Rightarrow> jsstr list" where
  "hintOf (NewLabel h) = [h]"
| "hintOf _ = []"

definition hints :: "bop list \<Rightarrow> jsstr list" where
  "hints ops = concat (map hintOf ops)"

lemma dec_isDigit: "list_all isDecUnit (dec n)"
  using dec_digits by (auto simp: list_all_iff isDecUnit_def)

lemma label_inj: assumes "apart h k" "h @ dec m = k @ dec n" shows "h = k \<and> m = n"
proof -
  obtain us where "h = k @ us \<and> us @ dec m = dec n \<or> h @ us = k \<and> dec m = us @ dec n"
    using assms(2) by (auto simp: append_eq_append_conv2)
  moreover have "list_all isDecUnit us" if "us @ dec m = dec n \<or> dec m = us @ dec n"
    using that dec_isDigit [of n] dec_isDigit [of m] by (metis list_all_append)
  ultimately have "h = k" using assms(1) by (auto simp: apart_def)
  then show ?thesis using assms(2) dec_inj by auto
qed

text \<open>Every identifier is a stem with a counter value; the temporaries share one counter.\<close>

fun stems :: "nat \<Rightarrow> nat \<Rightarrow> bop list \<Rightarrow> (jsstr \<times> nat) list" where
  "stems t l [] = []"
| "stems t l (NewLabel h # ops) = (h, l) # stems t (Suc l) ops"
| "stems t l (Tmp # ops) = (js ''t'', t) # stems (Suc t) l ops"
| "stems t l (Slot # ops) = (js ''s'', t) # stems (Suc t) l ops"
| "stems t l (op # ops) = stems t l ops"

lemma runOps_stems: "fst (runOps ops b) = map (\<lambda>(h, n). js ''%'' @ h @ dec n) (stems (tempCounter b) (labelCounter b) ops)"
proof (induction ops arbitrary: b)
  case (Cons op ops)
  obtain ns b1 where r: "runOp op b = (ns, b1)" by (cases "runOp op b")
  have "fst (runOps (op # ops) b) = ns @ fst (runOps ops b1)" by (simp add: r split: prod.splits)
  then show ?case using r Cons.IH [of b1]
    by (cases op) (auto simp: newLabel_def startBlock_def addLine_def tmp_def slot_def terminate_def br_llvm_def condBr_def addAlloca_def Let_def js_def)
qed simp

lemma stems_bound:
  "(h, n) \<in> set (stems t l ops) \<Longrightarrow> h \<in> set (hints ops) \<and> l \<le> n \<or> h \<in> {js ''t'', js ''s''} \<and> t \<le> n"
  by (induction t l ops rule: stems.induct) (auto simp: hints_def)

lemma stems_distinct: "js ''t'' \<notin> set (hints ops) \<Longrightarrow> js ''s'' \<notin> set (hints ops) \<Longrightarrow> distinct (stems t l ops)"
  by (induction t l ops rule: stems.induct) (fastforce simp: hints_def dest: stems_bound)+

lemma apart_sym: "apart h k \<Longrightarrow> apart k h"
  by (auto simp: apart_def)

lemma apart_ts: "apart (js ''t'') (js ''s'')" "apart (js ''t'') (js ''t'')" "apart (js ''s'') (js ''s'')"
  by (auto simp: apart_def js_def append_eq_Cons_conv Cons_eq_append_conv)

text \<open>Names are fresh. When no hint in use is another hint followed by digits, and none is \<open>t\<close> or
  \<open>s\<close> followed by digits, the labels, temporaries and slots of a function are pairwise different
  local identifiers, and different from its entry block's.\<close>

theorem local_names_distinct:
  assumes "\<forall>h \<in> set (hints ops). \<forall>k \<in> set (hints ops) \<union> {js ''t'', js ''s''}. apart h k"
    and "js ''t'' \<notin> set (hints ops) \<and> js ''s'' \<notin> set (hints ops)"
  shows "distinct (js ''%entry'' # fst (runOps ops newBuilder))"
proof -
  let ?S = "stems 0 0 ops"
  have ap: "apart h k" if "h \<in> set (hints ops) \<union> {js ''t'', js ''s''}" "k \<in> set (hints ops) \<union> {js ''t'', js ''s''}" for h k
  proof (cases "h \<in> set (hints ops)")
    case True
    then show ?thesis using assms(1) that(2) by blast
  next
    case False
    then have h: "h = js ''t'' \<or> h = js ''s''" using that(1) by simp
    show ?thesis
    proof (cases "k \<in> set (hints ops)")
      case True
      then show ?thesis using assms(1) h apart_sym by blast
    next
      case False
      then have "k = js ''t'' \<or> k = js ''s''" using that(2) by simp
      then show ?thesis using h apart_ts apart_sym by auto
    qed
  qed
  have "inj_on (\<lambda>(h, n). js ''%'' @ h @ dec n) (set ?S)"
  proof (rule inj_onI)
    fix p q assume pq: "p \<in> set ?S" "q \<in> set ?S" "(case p of (h, n) \<Rightarrow> js ''%'' @ h @ dec n) = (case q of (h, n) \<Rightarrow> js ''%'' @ h @ dec n)"
    obtain h m k n where hk: "p = (h, m)" "q = (k, n)" by (cases p; cases q)
    note x = pq [unfolded hk prod.case]
    have "h \<in> set (hints ops) \<union> {js ''t'', js ''s''}" using stems_bound [OF x(1)] by auto
    moreover have "k \<in> set (hints ops) \<union> {js ''t'', js ''s''}" using stems_bound [OF x(2)] by auto
    ultimately have "apart h k" by (rule ap)
    moreover have "h @ dec m = k @ dec n" using x(3) by (simp only: same_append_eq)
    ultimately have "h = k \<and> m = n" by (rule label_inj)
    then show "p = q" using hk by blast
  qed
  moreover have "js ''%entry'' \<noteq> js ''%'' @ h @ dec n" for h n
  proof
    assume "js ''%entry'' = js ''%'' @ h @ dec n"
    then have "last (js ''%entry'') = last (dec n)" by (simp add: last_append)
    then have "isDecUnit (last (js ''%entry''))" using dec_isDigit [of n] by (simp add: list_all_iff)
    then show False by (simp add: js_def isDecUnit_def)
  qed
  ultimately show ?thesis using stems_distinct [of ops 0 0] assms(2)
    by (auto simp: runOps_stems newBuilder_def distinct_map)
qed

theorem local_names_distinct_witness:
  "distinct (js ''%entry'' # fst (runOps [NewLabel (js ''if.t''), Tmp, NewLabel (js ''if.j''), Slot, Tmp] newBuilder))"
  by (rule local_names_distinct) (auto simp: hints_def apart_def js_def)

end
